(* ===== verification/Prelude.thy ===== *)
theory Prelude
  imports Main "HOL-Library.Word"
begin

text \<open>
  What the component theories share: the machine integer types of \<^verbatim>\<open>kernel/common.h\<close>,
  the table-scan loop \<open>for (i = 0; i < N; i++) if (P(t[i])) return i;\<close> that almost every
  table of the kernel is searched with, in-place writes into byte arrays (\<^verbatim>\<open>memcpy\<close>
  and \<^verbatim>\<open>memset\<close> into a buffer at an offset), and the lemma collections the component
  proofs draw on.
\<close>

unbundle bit_operations_syntax

section \<open>Machine integers\<close>

type_synonym u8 = "8 word"
type_synonym u16 = "16 word"
type_synonym u32 = "32 word"
type_synonym u64 = "64 word"

named_theorems scan_simps \<open>facts about the table-scan loop\<close>
named_theorems upd_simps \<open>facts about updates of one slot of a table\<close>

section \<open>64-bit arithmetic on natural numbers\<close>

text \<open>
  Where addresses and sizes are compared and added a lot, a \<^verbatim>\<open>uint64_t\<close> is a \<open>nat\<close> below
  \<open>2 ^ 64\<close> and the wrap-around of \<^verbatim>\<open>+\<close> and \<^verbatim>\<open>-\<close> is written out by these two functions.
\<close>

definition add64 :: "nat \<Rightarrow> nat \<Rightarrow> nat" where
  "add64 a b = (a + b) mod 2 ^ 64"

definition sub64 :: "nat \<Rightarrow> nat \<Rightarrow> nat" where
  "sub64 a b = (a + (2 ^ 64 - b mod 2 ^ 64)) mod 2 ^ 64"

lemma add64_eq: "a + b < 2 ^ 64 \<Longrightarrow> add64 a b = a + b"
  by (simp add: add64_def)

lemma sub64_eq: "b \<le> a \<Longrightarrow> a < 2 ^ 64 \<Longrightarrow> sub64 a b = a - b"
proof -
  assume "b \<le> a" "a < 2 ^ 64"
  then have "a + (2 ^ 64 - b mod 2 ^ 64) = (a - b) + 2 ^ 64" by simp
  then show ?thesis using \<open>a < 2 ^ 64\<close> unfolding sub64_def by simp
qed

text \<open>\<^verbatim>\<open>uint32_t\<close> subtraction on lengths, with its wrap-around, and the cast of a count to \<^verbatim>\<open>int\<close>.\<close>

definition sub32 :: "nat \<Rightarrow> nat \<Rightarrow> nat" where
  "sub32 a b = (a + (2 ^ 32 - b mod 2 ^ 32)) mod 2 ^ 32"

lemma sub32_eq: "b \<le> a \<Longrightarrow> a < 2 ^ 32 \<Longrightarrow> sub32 a b = a - b"
proof -
  assume "b \<le> a" "a < 2 ^ 32"
  then have "a + (2 ^ 32 - b mod 2 ^ 32) = (a - b) + 2 ^ 32" by simp
  then show ?thesis using \<open>a < 2 ^ 32\<close> unfolding sub32_def by simp
qed

definition int32 :: "nat \<Rightarrow> int" where
  "int32 n = sint (of_nat n :: u32)"

lemma int32_small: "n < 2 ^ 31 \<Longrightarrow> int32 n = int n"
  by (simp add: int32_def signed_of_nat signed_take_bit_int_eq_self)

section \<open>The table-scan loop\<close>

text \<open>
  \<open>first_idx P xs\<close> is the index the loop
  \<^verbatim>\<open>for (i = 0; i < N; i++) if (P(xs[i])) return i;\<close> returns, \<open>None\<close> when it falls through.
\<close>

fun first_idx :: "('a \<Rightarrow> bool) \<Rightarrow> 'a list \<Rightarrow> nat option" where
  "first_idx P [] = None"
| "first_idx P (x # xs) = (if P x then Some 0 else map_option Suc (first_idx P xs))"

lemma first_idx_SomeD:
  "first_idx P xs = Some i \<Longrightarrow> i < length xs \<and> P (xs ! i) \<and> (\<forall>j<i. \<not> P (xs ! j))"
proof (induction xs arbitrary: i)
  case Nil
  then show ?case by simp
next
  case (Cons x xs)
  show ?case
  proof (cases "P x")
    case True
    with Cons.prems show ?thesis by simp
  next
    case False
    with Cons.prems obtain k where k: "first_idx P xs = Some k" "i = Suc k" by auto
    from Cons.IH [OF k(1)] k(2) False show ?thesis
      by (auto simp: less_Suc_eq_0_disj)
  qed
qed

lemma first_idx_Some_length [scan_simps]: "first_idx P xs = Some i \<Longrightarrow> i < length xs"
  by (simp add: first_idx_SomeD)

lemma first_idx_Some_P [scan_simps]: "first_idx P xs = Some i \<Longrightarrow> P (xs ! i)"
  by (simp add: first_idx_SomeD)

lemma first_idx_least: "first_idx P xs = Some i \<Longrightarrow> j < i \<Longrightarrow> \<not> P (xs ! j)"
  by (simp add: first_idx_SomeD)

lemma first_idx_None_iff: "first_idx P xs = None \<longleftrightarrow> (\<forall>x\<in>set xs. \<not> P x)"
  by (induction xs) auto

lemma first_idx_None_nth: "first_idx P xs = None \<longleftrightarrow> (\<forall>i<length xs. \<not> P (xs ! i))"
  unfolding first_idx_None_iff using all_set_conv_all_nth [of xs "\<lambda>x. \<not> P x"] .

lemma first_idx_SomeI:
  "i < length xs \<Longrightarrow> P (xs ! i) \<Longrightarrow> (\<And>j. j < i \<Longrightarrow> \<not> P (xs ! j)) \<Longrightarrow> first_idx P xs = Some i"
proof (induction xs arbitrary: i)
  case Nil
  then show ?case by simp
next
  case (Cons x xs)
  show ?case
  proof (cases i)
    case 0
    with Cons.prems show ?thesis by simp
  next
    case (Suc k)
    have "\<not> P x" using Cons.prems(3) [of 0] Suc by simp
    moreover have "first_idx P xs = Some k"
    proof (rule Cons.IH)
      show "\<not> P (xs ! j)" if "j < k" for j
        using Cons.prems(3) [of "Suc j"] Suc that by simp
    qed (use Cons.prems Suc in auto)
    ultimately show ?thesis using Suc by simp
  qed
qed

lemma first_idx_ex: "(\<exists>i. first_idx P xs = Some i) \<longleftrightarrow> (\<exists>x\<in>set xs. P x)"
proof -
  have "(\<exists>i. first_idx P xs = Some i) \<longleftrightarrow> first_idx P xs \<noteq> None" by auto
  then show ?thesis unfolding first_idx_None_iff by blast
qed

lemma first_idx_cong_nth:
  "length xs = length ys \<Longrightarrow> (\<And>i. i < length xs \<Longrightarrow> P (xs ! i) = Q (ys ! i)) \<Longrightarrow>
   first_idx P xs = first_idx Q ys"
proof (induction xs ys rule: list_induct2)
  case Nil
  then show ?case by simp
next
  case (Cons x xs y ys)
  have "P x = Q y" using Cons.prems [of 0] by simp
  moreover have "first_idx P xs = first_idx Q ys"
  proof (rule Cons.IH)
    show "P (xs ! i) = Q (ys ! i)" if "i < length xs" for i
      using Cons.prems [of "Suc i"] that by simp
  qed
  ultimately show ?case by simp
qed

section \<open>Updating one slot of a table\<close>

definition upd_nth :: "nat \<Rightarrow> ('a \<Rightarrow> 'a) \<Rightarrow> 'a list \<Rightarrow> 'a list" where
  "upd_nth i f xs = xs[i := f (xs ! i)]"

lemma length_upd_nth [simp]: "length (upd_nth i f xs) = length xs"
  by (simp add: upd_nth_def)

lemma nth_upd_nth [upd_simps]:
  "j < length xs \<Longrightarrow> upd_nth i f xs ! j = (if i = j then f (xs ! j) else xs ! j)"
  by (auto simp: upd_nth_def)

lemma nth_upd_nth_eq [simp]: "i < length xs \<Longrightarrow> upd_nth i f xs ! i = f (xs ! i)"
  by (simp add: upd_nth_def)

lemma nth_upd_nth_neq [simp]: "i \<noteq> j \<Longrightarrow> upd_nth i f xs ! j = xs ! j"
  by (simp add: upd_nth_def)

lemma upd_nth_proj:
  assumes "\<And>x. g (f x) = g x"
  shows "g (upd_nth i f xs ! j) = g (xs ! j)"
  using assms by (cases "i < length xs") (auto simp: upd_nth_def nth_list_update list_update_beyond)

lemma count_upd:
  assumes "i < length xs"
  shows "length (filter P (xs[i := v])) + (if P (xs ! i) then 1 else 0)
       = length (filter P xs) + (if P v then 1 else 0)"
  using assms
proof (induction xs arbitrary: i)
  case Nil
  then show ?case by simp
next
  case (Cons x xs)
  show ?case
  proof (cases i)
    case 0
    then show ?thesis by simp
  next
    case (Suc k)
    with Cons.prems Cons.IH [of k] show ?thesis by simp
  qed
qed

section \<open>Writes into a buffer\<close>

text \<open>
  \<open>blit xs off ys\<close> is the array \<open>xs\<close> after \<^verbatim>\<open>memcpy(xs + off, ys, length ys)\<close>; the
  source always makes sure the copied range is inside the array, and so do the lemmas.
\<close>

definition blit :: "'a list \<Rightarrow> nat \<Rightarrow> 'a list \<Rightarrow> 'a list" where
  "blit xs off ys = take off xs @ ys @ drop (off + length ys) xs"

lemma length_blit [simp]: "off + length ys \<le> length xs \<Longrightarrow> length (blit xs off ys) = length xs"
  by (simp add: blit_def)

lemma nth_blit:
  "off + length ys \<le> length xs \<Longrightarrow> i < length xs \<Longrightarrow>
   blit xs off ys ! i = (if off \<le> i \<and> i < off + length ys then ys ! (i - off) else xs ! i)"
  by (auto simp: blit_def nth_append min_def)

lemma take_drop_blit [simp]:
  "off + length ys \<le> length xs \<Longrightarrow> take (length ys) (drop off (blit xs off ys)) = ys"
  by (simp add: blit_def)

lemma slice_blit_other:
  assumes "off + length ys \<le> length xs" "a + n \<le> length xs" "a + n \<le> off \<or> off + length ys \<le> a"
  shows "take n (drop a (blit xs off ys)) = take n (drop a xs)"
  by (rule nth_equalityI) (use assms in \<open>auto simp: nth_blit\<close>)

section \<open>Masks and alignment\<close>

lemma and_not_mask_eq: "w AND NOT (mask n) = push_bit n (drop_bit n w)" for w :: "'a::len word"
  by (rule bit_eqI) (auto simp: bit_simps)

lemma unat_and_not_mask: "unat (w AND NOT (mask n)) = unat w div 2 ^ n * 2 ^ n" for w :: "'a::len word"
proof -
  have "unat w div 2 ^ n * 2 ^ n \<le> unat w" by simp
  also have "unat w < 2 ^ LENGTH('a)" by (rule unsigned_less)
  finally have "unat w div 2 ^ n * 2 ^ n < 2 ^ LENGTH('a)" .
  then show ?thesis
    unfolding and_not_mask_eq unsigned_push_bit_eq unsigned_drop_bit_eq
    by (simp add: push_bit_eq_mult drop_bit_eq_div take_bit_nat_eq_self)
qed

lemma unat_align_down: "unat (w AND NOT 4095) = unat w div 4096 * 4096" for w :: u64
proof -
  have "(4095 :: u64) = mask 12" by (simp add: mask_eq_exp_minus_1)
  then show ?thesis using unat_and_not_mask [of w 12] by simp
qed

lemma unat_align_up:
  "unat w + 4095 < 2 ^ 64 \<Longrightarrow> unat ((w + 4095) AND NOT 4095) = (unat w + 4095) div 4096 * 4096" for w :: u64
  unfolding unat_align_down by (simp add: unat_word_ariths)

end
