(* ===== verification/Proc.thy ===== *)
theory Proc
  imports Prelude
begin

text \<open>
  The process table (\<^verbatim>\<open>kernel/process/process.h\<close>, \<^verbatim>\<open>kernel/process/process.c\<close>). A
  \<^verbatim>\<open>struct process *\<close> is the index of the slot in \<^verbatim>\<open>process_table\<close>, \<^verbatim>\<open>NULL\<close> is \<open>None\<close>;
  \<^verbatim>\<open>struct process\<close> is the record \<open>process\<close> with the fields of the source (prefix \<open>p_\<close>).
  The record \<open>sched\<close> holds the globals of \<^verbatim>\<open>process.c\<close> and \<^verbatim>\<open>scheduler.c\<close> together with the
  registers \<^verbatim>\<open>schedule()\<close> writes.
\<close>

section \<open>Data\<close>

datatype process_state =
    PROCESS_UNUSED | PROCESS_READY | PROCESS_RUNNING | PROCESS_BLOCKED | PROCESS_ZOMBIE
  | PROCESS_TERMINATED

datatype fd_type =
    FD_NONE | FD_VFS | FD_PIPE_READ | FD_PIPE_WRITE | FD_CONSOLE | FD_DEVICE | FD_EXT2
  | FD_SOCKET | FD_EPOLL

record process_fd =
  fd_type :: fd_type
  fd_data :: nat
  fd_offset :: u64

record cpu_context =
  cx_r15 :: u64
  cx_r14 :: u64
  cx_r13 :: u64
  cx_r12 :: u64
  cx_rbx :: u64
  cx_rbp :: u64
  cx_rsp :: u64
  cx_rip :: u64

datatype vma_type = VMA_ANON | VMA_FILE | VMA_DEVICE | VMA_ELF

record vma =
  vma_start :: u64
  vma_end :: u64
  vma_prot :: u32
  vma_flags :: u32
  vma_type :: vma_type
  vma_in_use :: bool
  vma_file_inode :: u32
  vma_file_offset :: u64
  vma_shared_phys :: u64
  vma_dev_phys_base :: u64
  vma_elf_data :: "u8 list option"
  vma_elf_data_filesz :: u64
  vma_elf_vaddr :: u64
  vma_elf_data_owned :: bool

record process =
  p_pid :: u32
  p_name :: "u8 list"
  p_state :: process_state
  p_context :: cpu_context
  p_kernel_stack :: u64
  p_kernel_stack_guard :: u64
  p_next :: "nat option"
  p_cr3 :: u64
  p_is_user :: bool
  p_user_program_data :: "u8 list option"
  p_user_program_size :: u64
  p_ppid :: u32
  p_exit_code :: int
  p_wait_for_pid :: u32
  p_fd_table :: "process_fd list"
  p_user_entry_rsp :: u64
  p_user_entry_argv :: u64
  p_user_entry_argc :: int
  p_sig_pending :: u32
  p_sig_handlers :: "u64 list"
  p_sig_saved_rip :: u64
  p_sig_saved_rsp :: u64
  p_sig_saved_rflags :: u64
  p_sig_saved_rax :: u64
  p_sig_saved_rdi :: u64
  p_sig_saved_rsi :: u64
  p_sig_saved_rdx :: u64
  p_in_signal_handler :: bool
  p_vmas :: "vma list"
  p_mmap_next :: u64
  p_brk_start :: u64
  p_brk_current :: u64
  p_uid :: u16
  p_gid :: u16
  p_euid :: u16
  p_egid :: u16
  p_epoll_fd_idx :: int
  p_epoll_timeout_ticks :: u64
  p_epoll_events_ptr :: u64
  p_epoll_maxevents :: int

record sched =
  procs :: "process list"
  next_pid :: u32
  current_process :: "nat option"
  ready_queue_head :: "nat option"
  ready_queue_tail :: "nat option"
  tick_count :: u64
  scheduler_enabled :: bool
  kernel_cr3 :: u64
  cr3 :: u64
  tss_rsp0 :: u64
  cpu :: cpu_context
  switch_return :: u64

definition MAX_PROCESSES :: nat where "MAX_PROCESSES = 64"
definition PROCESS_MAX_FDS :: nat where "PROCESS_MAX_FDS = 32"
definition PROCESS_STACK_SIZE :: nat where "PROCESS_STACK_SIZE = 16384"
definition VMA_MAX :: nat where "VMA_MAX = 32"
definition MMAP_BASE :: u64 where "MMAP_BASE = 0x10000000"
definition MMAP_TOP :: u64 where "MMAP_TOP = 0x7FC0000000"

section \<open>Zeroed objects (\<open>memset(.., 0, sizeof ..)\<close>)\<close>

definition fd_zero :: process_fd where
  "fd_zero = \<lparr>fd_type = FD_NONE, fd_data = 0, fd_offset = 0\<rparr>"

definition context_zero :: cpu_context where
  "context_zero = \<lparr>cx_r15 = 0, cx_r14 = 0, cx_r13 = 0, cx_r12 = 0, cx_rbx = 0, cx_rbp = 0,
     cx_rsp = 0, cx_rip = 0\<rparr>"

definition vma_zero :: vma where
  "vma_zero = \<lparr>vma_start = 0, vma_end = 0, vma_prot = 0, vma_flags = 0, vma_type = VMA_ANON,
     vma_in_use = False, vma_file_inode = 0, vma_file_offset = 0, vma_shared_phys = 0,
     vma_dev_phys_base = 0, vma_elf_data = None, vma_elf_data_filesz = 0, vma_elf_vaddr = 0,
     vma_elf_data_owned = False\<rparr>"

definition process_zero :: process where
  "process_zero = \<lparr>p_pid = 0, p_name = replicate 32 0, p_state = PROCESS_UNUSED,
     p_context = context_zero, p_kernel_stack = 0, p_kernel_stack_guard = 0, p_next = None,
     p_cr3 = 0, p_is_user = False, p_user_program_data = None, p_user_program_size = 0,
     p_ppid = 0, p_exit_code = 0, p_wait_for_pid = 0,
     p_fd_table = replicate PROCESS_MAX_FDS fd_zero, p_user_entry_rsp = 0,
     p_user_entry_argv = 0, p_user_entry_argc = 0, p_sig_pending = 0,
     p_sig_handlers = replicate 32 0, p_sig_saved_rip = 0, p_sig_saved_rsp = 0,
     p_sig_saved_rflags = 0, p_sig_saved_rax = 0, p_sig_saved_rdi = 0, p_sig_saved_rsi = 0,
     p_sig_saved_rdx = 0, p_in_signal_handler = False, p_vmas = replicate VMA_MAX vma_zero,
     p_mmap_next = 0, p_brk_start = 0, p_brk_current = 0, p_uid = 0, p_gid = 0, p_euid = 0,
     p_egid = 0, p_epoll_fd_idx = 0, p_epoll_timeout_ticks = 0, p_epoll_events_ptr = 0,
     p_epoll_maxevents = 0\<rparr>"

section \<open>Operations on the table\<close>

definition upd_proc :: "nat \<Rightarrow> (process \<Rightarrow> process) \<Rightarrow> sched \<Rightarrow> sched" where
  "upd_proc i f s = s\<lparr>procs := upd_nth i f (procs s)\<rparr>"

definition set_state :: "nat \<Rightarrow> process_state \<Rightarrow> sched \<Rightarrow> sched" where
  "set_state i st s = upd_proc i (\<lambda>p. p\<lparr>p_state := st\<rparr>) s"

definition process_init :: "sched \<Rightarrow> sched" where
  "process_init s = s\<lparr>procs := replicate MAX_PROCESSES process_zero\<rparr>"

definition process_get_by_pid :: "u32 \<Rightarrow> sched \<Rightarrow> nat option" where
  "process_get_by_pid pid s =
     first_idx (\<lambda>p. p_state p \<noteq> PROCESS_UNUSED \<and> p_pid p = pid) (procs s)"

definition process_get_count :: "sched \<Rightarrow> u32" where
  "process_get_count s =
     foldl (\<lambda>count p. if p_state p \<noteq> PROCESS_UNUSED then count + 1 else count) 0 (procs s)"

definition process_find_zombie_child :: "u32 \<Rightarrow> sched \<Rightarrow> nat option" where
  "process_find_zombie_child parent s =
     first_idx (\<lambda>p. p_state p = PROCESS_ZOMBIE \<and> p_ppid p = parent) (procs s)"

definition process_has_children :: "u32 \<Rightarrow> sched \<Rightarrow> bool" where
  "process_has_children parent s =
     (first_idx (\<lambda>p. p_ppid p = parent \<and> p_state p \<noteq> PROCESS_UNUSED \<and>
                     p_state p \<noteq> PROCESS_TERMINATED) (procs s) \<noteq> None)"

definition process_alloc :: "sched \<Rightarrow> nat option \<times> sched" where
  "process_alloc s =
     (case first_idx (\<lambda>p. p_state p = PROCESS_UNUSED) (procs s) of
        None \<Rightarrow> (None, s)
      | Some i \<Rightarrow>
          (Some i,
           (upd_proc i (\<lambda>_. process_zero\<lparr>p_pid := next_pid s, p_epoll_fd_idx := -1,
                              p_mmap_next := MMAP_BASE\<rparr>) s)
             \<lparr>next_pid := next_pid s + 1\<rparr>))"

section \<open>Facts about the table\<close>

lemma length_procs_upd_proc [simp]: "length (procs (upd_proc i f s)) = length (procs s)"
  by (simp add: upd_proc_def)

lemma procs_upd_proc_nth [upd_simps]:
  "j < length (procs s) \<Longrightarrow>
   procs (upd_proc i f s) ! j = (if i = j then f (procs s ! j) else procs s ! j)"
  by (simp add: upd_proc_def nth_upd_nth)

lemma upd_proc_frame [simp]:
  "next_pid (upd_proc i f s) = next_pid s"
  "current_process (upd_proc i f s) = current_process s"
  "ready_queue_head (upd_proc i f s) = ready_queue_head s"
  "ready_queue_tail (upd_proc i f s) = ready_queue_tail s"
  "tick_count (upd_proc i f s) = tick_count s"
  "scheduler_enabled (upd_proc i f s) = scheduler_enabled s"
  "kernel_cr3 (upd_proc i f s) = kernel_cr3 s"
  "cr3 (upd_proc i f s) = cr3 s"
  "tss_rsp0 (upd_proc i f s) = tss_rsp0 s"
  "cpu (upd_proc i f s) = cpu s"
  "switch_return (upd_proc i f s) = switch_return s"
  by (simp_all add: upd_proc_def)

lemma upd_proc_comp: "i < length (procs s) \<Longrightarrow> upd_proc i g (upd_proc i f s) = upd_proc i (\<lambda>p. g (f p)) s"
  by (simp add: upd_proc_def upd_nth_def)

lemma upd_proc_cong: "f (procs s ! i) = g (procs s ! i) \<Longrightarrow> upd_proc i f s = upd_proc i g s"
  by (simp add: upd_proc_def upd_nth_def)

lemma upd_proc_id: "f (procs s ! i) = procs s ! i \<Longrightarrow> upd_proc i f s = s"
  by (simp add: upd_proc_def upd_nth_def)

text \<open>
  \<open>p_core p\<close> is the process without the three fields the scheduler owns (state, queue link, saved
  registers): scheduling operations are transparent for it.
\<close>

definition p_core :: "process \<Rightarrow> process" where
  "p_core p = p\<lparr>p_state := PROCESS_UNUSED, p_next := None, p_context := context_zero\<rparr>"

lemma p_core_upd [simp]:
  "p_core (p\<lparr>p_state := st\<rparr>) = p_core p" "p_core (p\<lparr>p_next := n\<rparr>) = p_core p"
  "p_core (p\<lparr>p_context := cx\<rparr>) = p_core p"
  by (simp_all add: p_core_def)

lemma core_fields:
  assumes "p_core p = p_core q"
  shows "p_pid p = p_pid q" "p_kernel_stack p = p_kernel_stack q" "p_cr3 p = p_cr3 q"
    "p_ppid p = p_ppid q" "p_exit_code p = p_exit_code q" "p_fd_table p = p_fd_table q"
    "p_sig_pending p = p_sig_pending q" "p_sig_handlers p = p_sig_handlers q"
    "p_in_signal_handler p = p_in_signal_handler q" "p_vmas p = p_vmas q"
    "p_kernel_stack_guard p = p_kernel_stack_guard q" "p_is_user p = p_is_user q"
    "p_wait_for_pid p = p_wait_for_pid q"
  using assms by (cases p; cases q; simp add: p_core_def)+

lemma process_get_by_pid_SomeD:
  "process_get_by_pid pid s = Some i \<Longrightarrow>
   i < length (procs s) \<and> p_state (procs s ! i) \<noteq> PROCESS_UNUSED \<and> p_pid (procs s ! i) = pid"
  unfolding process_get_by_pid_def by (drule first_idx_SomeD) simp

lemma process_get_count_foldl:
  "foldl (\<lambda>count p. if P p then count + 1 else count) c ps
   = c + of_nat (length (filter P ps))" for c :: "'a::len word"
  by (induction ps arbitrary: c) auto

lemma process_get_count_eq:
  "process_get_count s
   = of_nat (length (filter (\<lambda>p. p_state p \<noteq> PROCESS_UNUSED) (procs s)))"
  unfolding process_get_count_def by (subst process_get_count_foldl) simp

end
