(* ===== verification/Fifo.thy ===== *)
theory Fifo
  imports Main
begin

text \<open>
  The contract of a first-in first-out queue, as the kernel's queues promise it to their
  clients: the ready queue of the scheduler, the pipe buffer, the
  receive queues of the network stack. \<open>queued s xs\<close> says that the concrete state \<open>s\<close>
  holds the elements \<open>xs\<close>, oldest first; \<open>admits s x xs\<close> is the condition under which an
  enqueue of \<open>x\<close> is accepted (room in the ring, not already linked). Each queue of the model
  is an interpretation of this locale in the theory of its component.
\<close>

locale fifo_queue =
  fixes queued :: "'s \<Rightarrow> 'a list \<Rightarrow> bool"
    and admits :: "'s \<Rightarrow> 'a \<Rightarrow> 'a list \<Rightarrow> bool"
    and enq :: "'a \<Rightarrow> 's \<Rightarrow> 's"
    and deq :: "'s \<Rightarrow> 's"
    and front :: "'s \<Rightarrow> 'a option"
  assumes front_Nil: "queued s [] \<Longrightarrow> front s = None"
    and front_Cons: "queued s (x # xs) \<Longrightarrow> front s = Some x"
    and enq_queued: "queued s xs \<Longrightarrow> admits s x xs \<Longrightarrow> queued (enq x s) (xs @ [x])"
    and deq_queued: "queued s (x # xs) \<Longrightarrow> queued (deq s) xs"
begin

lemma front_None_iff: "queued s xs \<Longrightarrow> front s = None \<longleftrightarrow> xs = []"
  by (cases xs) (auto dest: front_Nil front_Cons)

lemma deq_many: "queued s xs \<Longrightarrow> i \<le> length xs \<Longrightarrow> queued ((deq ^^ i) s) (drop i xs)"
proof (induction i)
  case 0
  then show ?case by simp
next
  case (Suc i)
  then have "queued ((deq ^^ i) s) (xs ! i # drop (Suc i) xs)"
    by (simp add: Cons_nth_drop_Suc)
  from deq_queued [OF this] show ?case by simp
qed

text \<open>Elements leave in the order they entered: the \<open>i\<close>-th dequeue delivers the \<open>i\<close>-th element.\<close>

lemma served_in_order: "queued s xs \<Longrightarrow> i < length xs \<Longrightarrow> front ((deq ^^ i) s) = Some (xs ! i)"
  using deq_many [of s xs i] front_Cons [of "(deq ^^ i) s" "xs ! i" "drop (Suc i) xs"]
  by (simp add: Cons_nth_drop_Suc)

text \<open>The element just accepted waits exactly for the elements already there.\<close>

lemma enq_served:
  assumes "queued s xs" "admits s x xs"
  shows "front ((deq ^^ length xs) (enq x s)) = Some x"
  using served_in_order [OF enq_queued [OF assms], of "length xs"] by simp

end

section \<open>Byte streams\<close>

text \<open>
  A client of a byte stream issues a sequence of writes and reads; \<open>stream_run\<close> collects the
  bytes the stream accepted and the bytes it delivered.
\<close>

datatype 'a stream_op = Put "'a list" | Get nat

fun stream_run ::
  "('a list \<Rightarrow> 's \<Rightarrow> nat \<times> 's) \<Rightarrow> (nat \<Rightarrow> 's \<Rightarrow> 'a list \<times> 's) \<Rightarrow> 'a stream_op list \<Rightarrow> 's \<Rightarrow>
   'a list \<times> 'a list \<times> 's" where
  "stream_run put get [] s = ([], [], s)"
| "stream_run put get (Put xs # ops) s =
     (let (n, t) = put xs s; (acc, del, u) = stream_run put get ops t in (take n xs @ acc, del, u))"
| "stream_run put get (Get k # ops) s =
     (let (ys, t) = get k s; (acc, del, u) = stream_run put get ops t in (acc, ys @ del, u))"

text \<open>
  The contract of a bounded byte stream: a write appends the prefix it accepts, a read takes a
  prefix off the front.
\<close>

locale byte_stream =
  fixes inv :: "'s \<Rightarrow> bool"
    and content :: "'s \<Rightarrow> 'a list"
    and put :: "'a list \<Rightarrow> 's \<Rightarrow> nat \<times> 's"
    and get :: "nat \<Rightarrow> 's \<Rightarrow> 'a list \<times> 's"
  assumes put_inv: "inv s \<Longrightarrow> put xs s = (n, t) \<Longrightarrow> inv t"
    and put_content: "inv s \<Longrightarrow> put xs s = (n, t) \<Longrightarrow> content t = content s @ take n xs"
    and get_inv: "inv s \<Longrightarrow> get k s = (ys, t) \<Longrightarrow> inv t"
    and get_content: "inv s \<Longrightarrow> get k s = (ys, t) \<Longrightarrow> content s = ys @ content t"
begin

text \<open>No byte is lost, duplicated or reordered.\<close>

lemma stream_conserves:
  "inv s \<Longrightarrow> stream_run put get ops s = (acc, del, t) \<Longrightarrow>
   inv t \<and> content s @ acc = del @ content t"
proof (induction ops arbitrary: s acc del)
  case Nil
  then show ?case by simp
next
  case (Cons op ops)
  show ?case
  proof (cases op)
    case (Put xs)
    obtain n u where u: "put xs s = (n, u)" by fastforce
    obtain acc' where run: "stream_run put get ops u = (acc', del, t)" "acc = take n xs @ acc'"
      using Cons.prems(2) Put u by (auto split: prod.splits)
    from Cons.IH [OF put_inv [OF Cons.prems(1) u] run(1)] put_content [OF Cons.prems(1) u] run(2)
    show ?thesis by simp
  next
    case (Get k)
    obtain ys u where u: "get k s = (ys, u)" by fastforce
    obtain del' where run: "stream_run put get ops u = (acc, del', t)" "del = ys @ del'"
      using Cons.prems(2) Get u by (auto split: prod.splits)
    from Cons.IH [OF get_inv [OF Cons.prems(1) u] run(1)] get_content [OF Cons.prems(1) u] run(2)
    show ?thesis by simp
  qed
qed

end

end
