(* ===== verification/Scheduler.thy ===== *)
theory Scheduler
  imports Proc Fifo
begin

text \<open>
  The round-robin scheduler (\<^verbatim>\<open>kernel/scheduler/scheduler.c\<close>, \<^verbatim>\<open>context_switch.asm\<close>). The ready
  queue is the singly linked list through \<^verbatim>\<open>process.next\<close> with a head and a tail pointer, as in
  the source. \<open>rq s xs\<close> relates that linked list to the list \<open>xs\<close> of its slots; it is the
  abstraction under which \<^verbatim>\<open>scheduler_add\<close> and the dispatch of \<^verbatim>\<open>schedule\<close> are the operations
  of a FIFO queue.
\<close>

section \<open>Operations\<close>

definition scheduler_add :: "nat \<Rightarrow> sched \<Rightarrow> sched" where
  "scheduler_add i s =
     (let s1 = upd_proc i (\<lambda>p. p\<lparr>p_state := PROCESS_READY, p_next := None\<rparr>) s in
      case ready_queue_head s1 of
        None \<Rightarrow> s1\<lparr>ready_queue_head := Some i, ready_queue_tail := Some i\<rparr>
      | Some _ \<Rightarrow>
          (case ready_queue_tail s1 of
             None \<Rightarrow> s1
           | Some t \<Rightarrow> (upd_proc t (\<lambda>p. p\<lparr>p_next := Some i\<rparr>) s1)\<lparr>ready_queue_tail := Some i\<rparr>))"

text \<open>The dispatch at the head of \<^verbatim>\<open>schedule\<close>: unlink the first process of the queue.\<close>

definition rq_pop :: "sched \<Rightarrow> sched" where
  "rq_pop s =
     (case ready_queue_head s of
        None \<Rightarrow> s
      | Some nx \<Rightarrow>
          (let s1 = s\<lparr>ready_queue_head := p_next (procs s ! nx)\<rparr> in
           if ready_queue_head s1 = None then s1\<lparr>ready_queue_tail := None\<rparr> else s1))"

text \<open>
  \<^verbatim>\<open>context_switch(old, new)\<close>: save the callee-saved registers and the stack pointer, with the
  address of \<^verbatim>\<open>.return\<close> as resume point, and load those of \<open>new\<close>.
\<close>

definition context_switch :: "nat \<Rightarrow> nat \<Rightarrow> sched \<Rightarrow> sched" where
  "context_switch old new s =
     (let s1 = upd_proc old (\<lambda>p. p\<lparr>p_context := (cpu s)\<lparr>cx_rip := switch_return s\<rparr>\<rparr>) s in
      s1\<lparr>cpu := p_context (procs s1 ! new)\<rparr>)"

definition requeue_current :: "sched \<Rightarrow> sched" where
  "requeue_current s =
     (case current_process s of
        Some c \<Rightarrow>
          (if p_state (procs s ! c) = PROCESS_RUNNING
           then scheduler_add c (set_state c PROCESS_READY s) else s)
      | None \<Rightarrow> s)"

definition schedule :: "sched \<Rightarrow> sched" where
  "schedule s =
     (case ready_queue_head s of
        None \<Rightarrow> s
      | Some nx \<Rightarrow>
          (let s1 = requeue_current (rq_pop s);
               s2 = set_state nx PROCESS_RUNNING (s1\<lparr>current_process := Some nx\<rparr>);
               s3 = s2\<lparr>tss_rsp0 := p_kernel_stack (procs s2 ! nx),
                       cr3 := (if p_cr3 (procs s2 ! nx) \<noteq> 0 then p_cr3 (procs s2 ! nx)
                               else kernel_cr3 s2)\<rparr>
           in case current_process s of
                Some old \<Rightarrow> if old \<noteq> nx then context_switch old nx s3 else s3
              | None \<Rightarrow> s3))"

section \<open>The ready queue as a list\<close>

text \<open>\<open>rq_seg ps x xs y\<close>: following \<^verbatim>\<open>next\<close> from \<open>x\<close> visits exactly \<open>xs\<close> and arrives at \<open>y\<close>.\<close>

primrec rq_seg :: "process list \<Rightarrow> nat option \<Rightarrow> nat list \<Rightarrow> nat option \<Rightarrow> bool" where
  "rq_seg ps x [] y = (x = y)"
| "rq_seg ps x (a # as) y = (x = Some a \<and> a < length ps \<and> rq_seg ps (p_next (ps ! a)) as y)"

definition rq :: "sched \<Rightarrow> nat list \<Rightarrow> bool" where
  "rq s xs \<longleftrightarrow> rq_seg (procs s) (ready_queue_head s) xs None \<and> distinct xs \<and>
     ready_queue_tail s = (if xs = [] then None else Some (last xs)) \<and>
     (\<forall>i\<in>set xs. p_state (procs s ! i) = PROCESS_READY)"

definition rq_admits :: "sched \<Rightarrow> nat \<Rightarrow> nat list \<Rightarrow> bool" where
  "rq_admits s i xs \<longleftrightarrow> i < length (procs s) \<and> i \<notin> set xs"

lemma rq_seg_append:
  "rq_seg ps x (as @ bs) y \<longleftrightarrow> (\<exists>z. rq_seg ps x as z \<and> rq_seg ps z bs y)"
  by (induction as arbitrary: x) auto

lemma rq_seg_range: "rq_seg ps x xs y \<Longrightarrow> i \<in> set xs \<Longrightarrow> i < length ps"
  by (induction xs arbitrary: x) auto

lemma rq_seg_cong:
  "length ps = length qs \<Longrightarrow> (\<And>i. i \<in> set xs \<Longrightarrow> p_next (ps ! i) = p_next (qs ! i)) \<Longrightarrow>
   rq_seg ps x xs y = rq_seg qs x xs y"
  by (induction xs arbitrary: x) auto

lemma rq_seg_head: "rq_seg ps x xs None \<Longrightarrow> x = None \<longleftrightarrow> xs = []"
  by (cases xs) auto

lemma rq_seg_upd_other:
  assumes "i \<notin> set xs"
  shows "rq_seg (upd_nth i f ps) x xs y = rq_seg ps x xs y"
proof (rule rq_seg_cong)
  fix j assume "j \<in> set xs"
  with assms have "i \<noteq> j" by auto
  then show "p_next (upd_nth i f ps ! j) = p_next (ps ! j)" by simp
qed simp

lemma rq_range: "rq s xs \<Longrightarrow> i \<in> set xs \<Longrightarrow> i < length (procs s)"
  unfolding rq_def using rq_seg_range by blast

lemma rq_head: "rq s xs \<Longrightarrow> ready_queue_head s = (case xs of [] \<Rightarrow> None | x # _ \<Rightarrow> Some x)"
  by (cases xs) (auto simp: rq_def)

lemma length_scheduler_add [simp]: "length (procs (scheduler_add i s)) = length (procs s)"
  by (simp add: scheduler_add_def Let_def split: option.split)

text \<open>What \<^verbatim>\<open>scheduler_add\<close> does to a slot: links may change everywhere, the state only in slot \<open>i\<close>.\<close>

lemma scheduler_add_core [simp]:
  "p_core (procs (scheduler_add i s) ! j) = p_core (procs s ! j)"
  by (simp add: scheduler_add_def upd_proc_def upd_nth_proj Let_def split: option.split)

lemma scheduler_add_state [upd_simps]:
  "j < length (procs s) \<Longrightarrow>
   p_state (procs (scheduler_add i s) ! j)
   = (if j = i then PROCESS_READY else p_state (procs s ! j))"
  by (auto simp: scheduler_add_def Let_def upd_simps split: option.split)

lemma scheduler_add_frame [simp]:
  "next_pid (scheduler_add i s) = next_pid s"
  "current_process (scheduler_add i s) = current_process s"
  "tick_count (scheduler_add i s) = tick_count s"
  "scheduler_enabled (scheduler_add i s) = scheduler_enabled s"
  "kernel_cr3 (scheduler_add i s) = kernel_cr3 s"
  "cr3 (scheduler_add i s) = cr3 s"
  "tss_rsp0 (scheduler_add i s) = tss_rsp0 s"
  "cpu (scheduler_add i s) = cpu s"
  "switch_return (scheduler_add i s) = switch_return s"
  by (simp_all add: scheduler_add_def Let_def split: option.split)

lemma scheduler_add_empty:
  assumes "rq s []" "i < length (procs s)"
  shows "rq (scheduler_add i s) [i]"
  using assms by (simp add: rq_def scheduler_add_def upd_simps upd_proc_def)

lemma scheduler_add_link:
  assumes "rq s (as @ [t])" "rq_admits s i (as @ [t])"
  shows "rq (scheduler_add i s) (as @ [t, i])"
proof -
  have seg: "rq_seg (procs s) (ready_queue_head s) as (Some t)" "t < length (procs s)"
    and dist: "distinct (as @ [t])" and tl: "ready_queue_tail s = Some t"
    and rdy: "\<forall>j\<in>set (as @ [t]). p_state (procs s ! j) = PROCESS_READY"
    and hd: "ready_queue_head s \<noteq> None"
    using assms(1) by (cases as; auto simp: rq_def rq_seg_append)+
  have i: "i < length (procs s)" "i \<notin> set as" "i \<noteq> t" "t \<noteq> i"
    using assms(2) by (auto simp: rq_admits_def)
  have t: "t \<notin> set as" using dist by simp
  obtain h where h: "ready_queue_head s = Some h" using hd by blast
  have seg': "rq_seg (procs (scheduler_add i s)) (ready_queue_head s) as (Some t)"
    using seg(1) i t h tl by (simp add: scheduler_add_def upd_proc_def rq_seg_upd_other)
  have "\<forall>j\<in>set (as @ [t, i]). p_state (procs (scheduler_add i s) ! j) = PROCESS_READY"
    using rdy i seg rq_seg_range [OF seg(1)] by (simp add: scheduler_add_state)
  moreover have "rq_seg (procs (scheduler_add i s)) (Some t) [t, i] None"
    using i seg(2) h tl by (simp add: scheduler_add_def upd_proc_def)
  moreover have "ready_queue_head (scheduler_add i s) = ready_queue_head s"
    "ready_queue_tail (scheduler_add i s) = Some i"
    using h tl by (simp_all add: scheduler_add_def)
  ultimately show ?thesis
    unfolding rq_def using seg' i t dist by (auto simp: rq_seg_append)
qed

lemma scheduler_add_rq:
  assumes "rq s xs" "rq_admits s i xs"
  shows "rq (scheduler_add i s) (xs @ [i])"
proof (cases xs rule: rev_cases)
  case Nil
  with assms show ?thesis by (simp add: scheduler_add_empty rq_admits_def)
next
  case (snoc as t)
  with assms scheduler_add_link [of s as t i] show ?thesis by simp
qed

lemma rq_pop_rq:
  assumes "rq s (x # xs)"
  shows "rq (rq_pop s) xs"
proof -
  have "rq_seg (procs s) (p_next (procs s ! x)) xs None" using assms by (simp add: rq_def)
  from rq_seg_head [OF this] assms show ?thesis
    by (auto simp: rq_def rq_pop_def Let_def)
qed

interpretation readyq: fifo_queue rq rq_admits scheduler_add rq_pop ready_queue_head
  by unfold_locales (auto simp: rq_head scheduler_add_rq rq_pop_rq)

section \<open>Dispatching\<close>

text \<open>
  \<open>dispatched s c xs\<close>: process \<open>c\<close> has the CPU and \<open>xs\<close> is the ready queue. This is the view
  of the scheduler its clients have.
\<close>

definition dispatched :: "sched \<Rightarrow> nat \<Rightarrow> nat list \<Rightarrow> bool" where
  "dispatched s c xs \<longleftrightarrow> rq s xs \<and> current_process s = Some c \<and> c < length (procs s) \<and>
     c \<notin> set xs \<and> p_state (procs s ! c) = PROCESS_RUNNING"

lemma rq_cong:
  assumes "length (procs s) = length (procs s')"
    and "ready_queue_head s = ready_queue_head s'" "ready_queue_tail s = ready_queue_tail s'"
    and "\<And>i. i \<in> set xs \<Longrightarrow> p_next (procs s ! i) = p_next (procs s' ! i) \<and>
                            p_state (procs s ! i) = p_state (procs s' ! i)"
  shows "rq s xs = rq s' xs"
  unfolding rq_def using assms rq_seg_cong [of "procs s" "procs s'" xs] by auto

lemma rq_upd_proc_other:
  assumes "i \<notin> set xs"
  shows "rq (upd_proc i f s) xs = rq s xs"
proof (rule rq_cong)
  fix j assume "j \<in> set xs"
  with assms have "i \<noteq> j" by auto
  then show "p_next (procs (upd_proc i f s) ! j) = p_next (procs s ! j) \<and>
             p_state (procs (upd_proc i f s) ! j) = p_state (procs s ! j)"
    by (simp add: upd_proc_def)
qed simp_all

lemma rq_upd_proc_neutral:
  "(\<And>p. p_next (f p) = p_next p \<and> p_state (f p) = p_state p) \<Longrightarrow>
   rq (upd_proc i f s) xs = rq s xs"
  by (rule rq_cong) (simp_all add: upd_proc_def upd_nth_proj)

lemma rq_set_state_other: "i \<notin> set xs \<Longrightarrow> rq (set_state i st s) xs = rq s xs"
  unfolding set_state_def by (rule rq_upd_proc_other)

lemma rq_registers [simp]:
  "rq (s\<lparr>current_process := c\<rparr>) xs = rq s xs"
  "rq (s\<lparr>cr3 := v\<rparr>) xs = rq s xs"
  "rq (s\<lparr>tss_rsp0 := w\<rparr>) xs = rq s xs"
  "rq (s\<lparr>cpu := r\<rparr>) xs = rq s xs"
  "rq (s\<lparr>tick_count := t\<rparr>) xs = rq s xs"
  "rq (s\<lparr>next_pid := n\<rparr>) xs = rq s xs"
  by (rule rq_cong; simp)+

lemma set_state_frame [simp]:
  "current_process (set_state i st s) = current_process s"
  "ready_queue_head (set_state i st s) = ready_queue_head s"
  "length (procs (set_state i st s)) = length (procs s)"
  by (simp_all add: set_state_def)

lemma set_state_state [upd_simps]:
  "j < length (procs s) \<Longrightarrow>
   p_state (procs (set_state i st s) ! j) = (if i = j then st else p_state (procs s ! j))"
  by (simp add: set_state_def upd_simps)

lemma context_switch_frame [simp]:
  "current_process (context_switch a b s) = current_process s"
  "length (procs (context_switch a b s)) = length (procs s)"
  "rq (context_switch a b s) xs = rq s xs"
  by (simp_all add: context_switch_def Let_def rq_upd_proc_neutral)

lemma context_switch_state [upd_simps]:
  "j < length (procs s) \<Longrightarrow> p_state (procs (context_switch a b s) ! j) = p_state (procs s ! j)"
  by (simp add: context_switch_def Let_def upd_simps)

lemma rq_pop_frame [simp]:
  "procs (rq_pop s) = procs s" "current_process (rq_pop s) = current_process s"
  by (simp_all add: rq_pop_def Let_def split: option.split)

text \<open>The part of \<^verbatim>\<open>schedule\<close> after the queue has been updated: who runs and what stays queued.\<close>

lemma schedule_dispatch:
  assumes "rq s (x # xs)"
    and "rq (requeue_current (rq_pop s)) ys" "x \<notin> set ys"
    and "length (procs (requeue_current (rq_pop s))) = length (procs s)"
  shows "dispatched (schedule s) x ys"
proof -
  have x: "x < length (procs s)" "ready_queue_head s = Some x"
    using assms(1) rq_range [of s "x # xs" x] by (simp_all add: rq_head)
  show ?thesis
    unfolding dispatched_def schedule_def
    using assms(2-4) x
    by (auto simp: Let_def rq_set_state_other upd_simps split: option.split)
qed

lemma schedule_running:
  assumes "dispatched s c (x # xs)"
  shows "dispatched (schedule s) x (xs @ [c])"
proof -
  from assms have rq: "rq s (x # xs)" and c: "current_process s = Some c" "c < length (procs s)"
    "c \<noteq> x" "c \<notin> set xs" "p_state (procs s ! c) = PROCESS_RUNNING"
    by (auto simp: dispatched_def)
  have "rq (set_state c PROCESS_READY (rq_pop s)) xs"
    using c rq_pop_rq [OF rq] by (simp add: rq_set_state_other)
  then have "rq (requeue_current (rq_pop s)) (xs @ [c])"
    using c by (simp add: requeue_current_def scheduler_add_rq rq_admits_def)
  moreover have "x \<notin> set xs" using rq by (simp add: rq_def)
  ultimately show ?thesis
    using c by (intro schedule_dispatch [OF rq]) (auto simp: requeue_current_def)
qed

lemma schedule_not_running:
  assumes "rq s (x # xs)"
    and "\<And>c. current_process s = Some c \<Longrightarrow> p_state (procs s ! c) \<noteq> PROCESS_RUNNING"
  shows "dispatched (schedule s) x xs"
proof -
  have "requeue_current (rq_pop s) = rq_pop s"
    using assms(2) by (auto simp: requeue_current_def split: option.split)
  moreover have "x \<notin> set xs" using assms(1) by (simp add: rq_def)
  ultimately show ?thesis
    using rq_pop_rq [OF assms(1)] by (intro schedule_dispatch [OF assms(1)]) auto
qed

lemma schedule_rotate:
  "dispatched s c xs \<Longrightarrow> i \<le> length xs \<Longrightarrow>
   dispatched ((schedule ^^ i) s) ((c # xs) ! i) (drop (Suc i) (c # xs) @ take i (c # xs))"
proof (induction i)
  case 0
  then show ?case by simp
next
  case (Suc i)
  then have i: "i < length xs" by simp
  have "dispatched ((schedule ^^ i) s) ((c # xs) ! i) (drop i xs @ take i (c # xs))"
    using Suc.IH [OF Suc.prems(1)] i by simp
  then have "dispatched ((schedule ^^ i) s) ((c # xs) ! i)
               (xs ! i # drop (Suc i) xs @ take i (c # xs))"
    using i by (simp add: Cons_nth_drop_Suc [symmetric])
  from schedule_running [OF this]
  show ?case using i by (simp add: take_Suc_conv_app_nth [of i "c # xs", simplified])
qed

section \<open>Waking a blocked process\<close>

text \<open>A process that is not \<^verbatim>\<open>PROCESS_READY\<close> is not linked, so it may be queued.\<close>

lemma rq_not_ready: "rq s xs \<Longrightarrow> p_state (procs s ! i) \<noteq> PROCESS_READY \<Longrightarrow> i \<notin> set xs"
  by (auto simp: rq_def)

lemma scheduler_add_wake_rq:
  assumes "rq s xs" "i < length (procs s)" "p_state (procs s ! i) \<noteq> PROCESS_READY"
  shows "rq (scheduler_add i (set_state i st s)) (xs @ [i])"
proof -
  have "i \<notin> set xs" using assms by (auto dest: rq_not_ready)
  then show ?thesis
    using assms by (intro scheduler_add_rq) (simp_all add: rq_set_state_other rq_admits_def)
qed

text \<open>
  The invariant of the scheduler between operations: a well-formed queue, not containing the
  process that has the CPU, and the idle process (slot \<open>idle\<close>) always runnable.
\<close>

definition sched_inv :: "nat \<Rightarrow> sched \<Rightarrow> bool" where
  "sched_inv idle s \<longleftrightarrow>
     (\<exists>xs c. rq s xs \<and> current_process s = Some c \<and> c < length (procs s) \<and> c \<notin> set xs \<and>
             (c = idle \<and> p_state (procs s ! c) = PROCESS_RUNNING \<or> idle \<in> set xs))"

lemma sched_invI:
  "rq s xs \<Longrightarrow> current_process s = Some c \<Longrightarrow> c < length (procs s) \<Longrightarrow> c \<notin> set xs \<Longrightarrow>
   c = idle \<and> p_state (procs s ! c) = PROCESS_RUNNING \<or> idle \<in> set xs \<Longrightarrow> sched_inv idle s"
  unfolding sched_inv_def by blast

lemma dispatched_sched_inv: "dispatched s c xs \<Longrightarrow> idle = c \<or> idle \<in> set xs \<Longrightarrow> sched_inv idle s"
  unfolding dispatched_def by (rule sched_invI) auto

lemma schedule_nil [simp]: "rq s [] \<Longrightarrow> schedule s = s"
  by (simp add: schedule_def rq_head)

lemma schedule_sched_inv:
  assumes "sched_inv idle s"
  shows "sched_inv idle (schedule s)"
proof -
  from assms obtain xs c where inv: "rq s xs" "current_process s = Some c" "c < length (procs s)"
      "c \<notin> set xs" "c = idle \<and> p_state (procs s ! c) = PROCESS_RUNNING \<or> idle \<in> set xs"
    unfolding sched_inv_def by blast
  show ?thesis
  proof (cases xs)
    case Nil
    with inv assms show ?thesis by simp
  next
    case (Cons y ys)
    show ?thesis
    proof (cases "p_state (procs s ! c) = PROCESS_RUNNING")
      case True
      with inv Cons have "dispatched s c (y # ys)" by (simp add: dispatched_def)
      from dispatched_sched_inv [OF schedule_running [OF this], of idle] inv(5) Cons
      show ?thesis by auto
    next
      case False
      with inv Cons have "dispatched (schedule s) y ys"
        by (intro schedule_not_running) auto
      from dispatched_sched_inv [OF this, of idle] inv(5) Cons False show ?thesis by auto
    qed
  qed
qed

text \<open>Blocking is safe: the CPU always goes to another process.\<close>

lemma schedule_leaves_current:
  assumes "sched_inv idle s" "current_process s = Some c"
    and "p_state (procs s ! c) \<noteq> PROCESS_RUNNING"
  shows "\<exists>y ys. dispatched (schedule s) y ys \<and> y \<noteq> c \<and> c \<notin> set ys"
proof -
  from assms obtain xs where inv: "rq s xs" "c < length (procs s)" "c \<notin> set xs" "idle \<in> set xs"
    unfolding sched_inv_def by auto
  then obtain y ys where xs: "xs = y # ys" by (cases xs) auto
  with inv assms(2,3) have "dispatched (schedule s) y ys"
    by (intro schedule_not_running) auto
  with inv xs show ?thesis by auto
qed

lemma sched_inv_wake:
  assumes "sched_inv idle s" "i < length (procs s)" "p_state (procs s ! i) = PROCESS_BLOCKED"
    and "current_process s \<noteq> Some i"
  shows "sched_inv idle (scheduler_add i (set_state i PROCESS_READY s))"
proof -
  from assms(1) obtain xs c where inv: "rq s xs" "current_process s = Some c"
      "c < length (procs s)" "c \<notin> set xs"
      "c = idle \<and> p_state (procs s ! c) = PROCESS_RUNNING \<or> idle \<in> set xs"
    unfolding sched_inv_def by blast
  from scheduler_add_wake_rq [OF inv(1) assms(2), of PROCESS_READY] assms(3)
  have "rq (scheduler_add i (set_state i PROCESS_READY s)) (xs @ [i])" by simp
  then show ?thesis
    by (rule sched_invI) (use inv assms in \<open>auto simp: upd_simps\<close>)
qed

lemma sched_inv_upd_neutral:
  assumes "\<And>p. p_next (f p) = p_next p \<and> p_state (f p) = p_state p"
  shows "sched_inv idle (upd_proc i f s) = sched_inv idle s"
proof -
  have "p_state (procs (upd_proc i f s) ! c) = p_state (procs s ! c)" for c
    using upd_nth_proj [of p_state f i "procs s" c] assms by (simp add: upd_proc_def)
  then show ?thesis by (simp add: sched_inv_def rq_upd_proc_neutral assms)
qed

lemma sched_inv_current:
  "sched_inv idle s \<Longrightarrow> current_process s = Some c \<Longrightarrow> c < length (procs s)"
  unfolding sched_inv_def by auto

text \<open>Stopping the current process (it blocks or exits) keeps the queue; idle never stops.\<close>

lemma sched_inv_stop_current:
  assumes "sched_inv idle s" "current_process s = Some c" "c \<noteq> idle"
    and "\<And>p. p_next (f p) = p_next p"
  shows "sched_inv idle (upd_proc c f s)"
proof -
  from assms obtain xs where inv: "rq s xs" "c < length (procs s)" "c \<notin> set xs" "idle \<in> set xs"
    unfolding sched_inv_def by auto
  show ?thesis
    by (rule sched_invI [of _ xs c]) (use inv assms in \<open>simp_all add: rq_upd_proc_other\<close>)
qed

section \<open>What the scheduler guarantees\<close>

lemma requeue_current_core [simp]:
  "p_core (procs (requeue_current s) ! j) = p_core (procs s ! j)"
  by (simp add: requeue_current_def set_state_def upd_proc_def upd_nth_proj split: option.split)

lemma schedule_core [simp]: "p_core (procs (schedule s) ! j) = p_core (procs s ! j)"
  by (simp add: schedule_def context_switch_def set_state_def upd_proc_def upd_nth_proj Let_def
           split: option.split)

lemma requeue_current_context [simp]:
  "p_context (procs (requeue_current s) ! j) = p_context (procs s ! j)"
  by (simp add: requeue_current_def scheduler_add_def set_state_def upd_proc_def upd_nth_proj Let_def
           split: option.split)

lemma schedule_state_stopped:
  assumes "j < length (procs s)" "ready_queue_head s = Some y" "j \<noteq> y"
    and "p_state (procs s ! j) \<noteq> PROCESS_RUNNING"
  shows "p_state (procs (schedule s) ! j) = p_state (procs s ! j)"
proof -
  let ?s1 = "requeue_current (rq_pop s)"
  have "length (procs ?s1) = length (procs s)" "p_state (procs ?s1 ! j) = p_state (procs s ! j)"
    using assms by (auto simp: requeue_current_def upd_simps split: option.split)
  then show ?thesis
    using assms by (auto simp: schedule_def Let_def upd_simps split: option.split)
qed

lemma schedule_hardware:
  assumes "rq s (y # ys)" "current_process s = Some c" "c < length (procs s)" "c \<noteq> y"
  shows "tss_rsp0 (schedule s) = p_kernel_stack (procs s ! y)"
    and "cr3 (schedule s) = (if p_cr3 (procs s ! y) \<noteq> 0 then p_cr3 (procs s ! y) else kernel_cr3 s)"
    and "cpu (schedule s) = p_context (procs s ! y)"
    and "p_context (procs (schedule s) ! c) = (cpu s)\<lparr>cx_rip := switch_return s\<rparr>"
proof -
  have y: "y < length (procs s)" "ready_queue_head s = Some y"
    using assms(1) rq_range [of s "y # ys" y] by (simp_all add: rq_head)
  let ?s1 = "requeue_current (rq_pop s)"
  have len: "length (procs ?s1) = length (procs s)"
    by (simp add: requeue_current_def split: option.split)
  have regs: "kernel_cr3 ?s1 = kernel_cr3 s" "cpu ?s1 = cpu s" "switch_return ?s1 = switch_return s"
    by (auto simp: requeue_current_def rq_pop_def set_state_def Let_def split: option.split)
  have core: "p_core (procs ?s1 ! y) = p_core (procs s ! y)" by simp
  have sy: "p_kernel_stack (procs ?s1 ! y) = p_kernel_stack (procs s ! y)"
    "p_cr3 (procs ?s1 ! y) = p_cr3 (procs s ! y)"
    using core_fields [OF core] by simp_all
  note defs = schedule_def context_switch_def set_state_def Let_def upd_simps
  show "tss_rsp0 (schedule s) = p_kernel_stack (procs s ! y)"
    and "cr3 (schedule s) = (if p_cr3 (procs s ! y) \<noteq> 0 then p_cr3 (procs s ! y) else kernel_cr3 s)"
    and "cpu (schedule s) = p_context (procs s ! y)"
    and "p_context (procs (schedule s) ! c) = (cpu s)\<lparr>cx_rip := switch_return s\<rparr>"
    using y assms(2-4) len regs sy by (simp_all add: defs)
qed

lemma schedule_full_round:
  assumes "dispatched s c xs"
  shows "dispatched ((schedule ^^ Suc (length xs)) s) c xs"
proof -
  have "dispatched ((schedule ^^ length xs) s) ((c # xs) ! length xs) (take (length xs) (c # xs))"
    using schedule_rotate [OF assms, of "length xs"] by simp
  moreover have "take (length xs) (c # xs) = butlast (c # xs)"
    by (simp add: butlast_conv_take)
  moreover have "(c # xs) ! length xs = last (c # xs)" by (simp add: last_conv_nth)
  ultimately have d: "dispatched ((schedule ^^ length xs) s) (last (c # xs)) (butlast (c # xs))"
    by simp
  show ?thesis
  proof (cases "xs = []")
    case True
    with assms have "schedule s = s" by (simp add: dispatched_def)
    with True assms show ?thesis by simp
  next
    case False
    then have "butlast (c # xs) = c # butlast xs" "last (c # xs) = last xs" by simp_all
    with d have "dispatched ((schedule ^^ length xs) s) (last xs) (c # butlast xs)" by simp
    from schedule_running [OF this] False show ?thesis by simp
  qed
qed

text \<open>A concrete machine for the witnesses: slot 0 runs, slots 1 and 2 are queued, slot 3 is blocked.\<close>

definition demo_sched :: sched where
  "demo_sched = \<lparr>procs =
       [process_zero\<lparr>p_pid := 1, p_state := PROCESS_RUNNING, p_ppid := 4, p_is_user := True\<rparr>,
        process_zero\<lparr>p_pid := 2, p_state := PROCESS_READY, p_next := Some 2\<rparr>,
        process_zero\<lparr>p_pid := 3, p_state := PROCESS_READY\<rparr>,
        process_zero\<lparr>p_pid := 4, p_state := PROCESS_BLOCKED\<rparr>],
     next_pid = 5, current_process = Some 0, ready_queue_head = Some 1,
     ready_queue_tail = Some 2, tick_count = 0, scheduler_enabled = True, kernel_cr3 = 4096,
     cr3 = 4096, tss_rsp0 = 0, cpu = context_zero, switch_return = 0\<rparr>"

lemma demo_rq: "rq demo_sched [1, 2]"
  by (simp add: rq_def demo_sched_def process_zero_def)

lemma demo_dispatched: "dispatched demo_sched 0 [1, 2]"
  using demo_rq by (simp add: dispatched_def demo_sched_def)

lemma demo_inv: "sched_inv 2 demo_sched"
  using dispatched_sched_inv [OF demo_dispatched] by simp

text \<open>
  C1 (round robin). With \<open>c\<close> on the CPU and \<open>xs\<close> queued, the \<open>i\<close>-th following call of
  \<^verbatim>\<open>schedule()\<close> gives the CPU to the \<open>i\<close>-th process of \<open>c # xs\<close>, the queue is rotated by \<open>i\<close>, and
  after \<open>length xs + 1\<close> calls the machine is back at \<open>c\<close> with the queue \<open>xs\<close>: every runnable
  process runs exactly once per round, in queue order, and none is lost.
\<close>

theorem schedule_round_robin:
  assumes "dispatched s c xs" "i \<le> length xs"
  shows "dispatched ((schedule ^^ i) s) ((c # xs) ! i) (drop (Suc i) (c # xs) @ take i (c # xs)) \<and>
         dispatched ((schedule ^^ Suc (length xs)) s) c xs"
  using schedule_rotate [OF assms] schedule_full_round [OF assms(1)] by simp

theorem schedule_round_robin_witness:
  "dispatched ((schedule ^^ 2) demo_sched) 2 [0, 1] \<and> dispatched ((schedule ^^ 3) demo_sched) 0 [1, 2]"
proof -
  have "dispatched ((schedule ^^ 2) demo_sched) (([0, 1, 2] :: nat list) ! 2) (drop (Suc 2) [0, 1, 2] @ take 2 [0, 1, 2])
      \<and> dispatched ((schedule ^^ Suc (length [1, 2 :: nat])) demo_sched) 0 [1, 2]"
    by (rule schedule_round_robin [OF demo_dispatched, of 2]) simp
  then show ?thesis by (simp add: numeral_2_eq_2 numeral_3_eq_3)
qed

text \<open>
  C23 (a stopped process does not keep the CPU). When the current process, any but idle, stops
  running (it blocks, exits or is killed) and calls \<^verbatim>\<open>schedule()\<close>, the call does hand the CPU to
  another process: the scheduler invariant still holds, the stopped process is neither current nor
  queued, its registers are saved with the return point of \<^verbatim>\<open>context_switch\<close>, and the page-table
  root, the ring-0 stack of the TSS and the registers are those of the new process.
\<close>

theorem schedule_away_from_stopped:
  assumes "sched_inv idle s" "current_process s = Some c" "c \<noteq> idle"
    and "\<And>p. p_next (f p) = p_next p \<and> p_state (f p) \<noteq> PROCESS_RUNNING"
  shows "\<exists>y ys. let t = upd_proc c f s; u = schedule t in
           sched_inv idle u \<and> dispatched u y ys \<and> y \<noteq> c \<and> c \<notin> set ys \<and>
           p_context (procs u ! c) = (cpu s)\<lparr>cx_rip := switch_return s\<rparr> \<and>
           cpu u = p_context (procs s ! y) \<and> tss_rsp0 u = p_kernel_stack (procs s ! y) \<and>
           cr3 u = (if p_cr3 (procs s ! y) \<noteq> 0 then p_cr3 (procs s ! y) else kernel_cr3 s)"
proof -
  let ?t = "upd_proc c f s"
  have c: "c < length (procs s)" using assms(1,2) by (rule sched_inv_current)
  have inv: "sched_inv idle ?t" using assms by (intro sched_inv_stop_current) auto
  then obtain xs where t: "rq ?t xs" "c \<notin> set xs" "idle \<in> set xs"
    using assms(2,3) unfolding sched_inv_def by auto
  then obtain y ys where xs: "xs = y # ys" by (cases xs) auto
  have stopped: "p_state (procs ?t ! c) \<noteq> PROCESS_RUNNING" using assms(4) c by (simp add: upd_simps)
  have y: "y < length (procs s)" "y \<noteq> c" using t xs rq_range [of ?t xs y] by auto
  have d: "dispatched (schedule ?t) y ys"
    using t xs assms(2) stopped by (intro schedule_not_running) auto
  have hw: "cpu (schedule ?t) = p_context (procs s ! y)"
    "tss_rsp0 (schedule ?t) = p_kernel_stack (procs s ! y)"
    "cr3 (schedule ?t) = (if p_cr3 (procs s ! y) \<noteq> 0 then p_cr3 (procs s ! y) else kernel_cr3 s)"
    "p_context (procs (schedule ?t) ! c) = (cpu s)\<lparr>cx_rip := switch_return s\<rparr>"
    using schedule_hardware [of ?t y ys c] t xs assms(2) c y by (simp_all add: upd_simps)
  have "c \<notin> set ys" using t xs by simp
  with schedule_sched_inv [OF inv] d hw y show ?thesis unfolding Let_def by blast
qed

theorem schedule_away_from_stopped_witness:
  "\<exists>y ys. let u = schedule (upd_proc 0 (\<lambda>p. p\<lparr>p_state := PROCESS_ZOMBIE\<rparr>) demo_sched) in
     sched_inv 2 u \<and> dispatched u y ys \<and> y \<noteq> 0 \<and> 0 \<notin> set ys"
proof -
  have "current_process demo_sched = Some 0" by (simp add: demo_sched_def)
  from schedule_away_from_stopped
    [OF demo_inv this, of "\<lambda>p. p\<lparr>p_state := PROCESS_ZOMBIE\<rparr>"]
  show ?thesis by (auto simp: Let_def)
qed

lemma scheduler_add_linked:
  assumes "rq s (xs @ x # ys)" "ys \<noteq> []"
  shows "rq_seg (procs (scheduler_add x s)) (ready_queue_head (scheduler_add x s)) (xs @ [x]) None \<and>
         ready_queue_tail (scheduler_add x s) = Some x \<and>
         (\<forall>y\<in>set ys. y \<notin> set (xs @ [x]) \<and> p_state (procs (scheduler_add x s) ! y) = PROCESS_READY)"
proof -
  let ?l = "last ys"
  have d: "distinct (xs @ x # ys)" and seg: "rq_seg (procs s) (ready_queue_head s) xs (Some x)"
    and x: "x < length (procs s)" and tl: "ready_queue_tail s = Some ?l"
    and rdy: "\<forall>y\<in>set ys. p_state (procs s ! y) = PROCESS_READY"
    using assms by (auto simp: rq_def rq_seg_append)
  have l: "?l \<in> set ys" using assms(2) by simp
  then have ne: "?l \<noteq> x" "?l \<notin> set xs" "x \<notin> set xs" using d by auto
  obtain h where h: "ready_queue_head s = Some h"
    using seg by (cases xs) auto
  have rng: "y < length (procs s)" if "y \<in> set ys" for y
    using assms(1) that by (intro rq_range [of s "xs @ x # ys"]) auto
  have "rq_seg (procs (scheduler_add x s)) (ready_queue_head s) xs (Some x)"
    using seg ne h tl by (simp add: scheduler_add_def upd_proc_def rq_seg_upd_other)
  moreover have "p_next (procs (scheduler_add x s) ! x) = None"
    using h tl ne x by (simp add: scheduler_add_def upd_proc_def)
  moreover have "ready_queue_head (scheduler_add x s) = ready_queue_head s"
    "ready_queue_tail (scheduler_add x s) = Some x"
    using h tl by (simp_all add: scheduler_add_def)
  ultimately show ?thesis
    using x d rdy rng by (auto simp: rq_seg_append scheduler_add_state)
qed

text \<open>
  C24 (what goes wrong when a queued process is queued again). \<^verbatim>\<open>scheduler_add\<close> does not check that
  its argument is not already linked. If it is, and others are queued behind it, the queue is cut
  after it: the processes behind it are \<^verbatim>\<open>PROCESS_READY\<close> but can no longer be reached.
\<close>

theorem scheduler_add_twice_loses:
  assumes "rq s (xs @ x # ys)" "ys \<noteq> []"
  shows "rq_seg (procs (scheduler_add x s)) (ready_queue_head (scheduler_add x s)) (xs @ [x]) None \<and>
         ready_queue_tail (scheduler_add x s) = Some x \<and>
         (\<forall>y\<in>set ys. y \<notin> set (xs @ [x]) \<and> p_state (procs (scheduler_add x s) ! y) = PROCESS_READY)"
  using assms by (rule scheduler_add_linked)

theorem scheduler_add_twice_loses_witness:
  "rq_seg (procs (scheduler_add 1 demo_sched)) (ready_queue_head (scheduler_add 1 demo_sched)) [1] None
   \<and> p_state (procs (scheduler_add 1 demo_sched) ! 2) = PROCESS_READY"
proof -
  have "rq demo_sched ([] @ 1 # [2])" using demo_rq by simp
  from scheduler_add_twice_loses [OF this] show ?thesis by auto
qed

end
