(* ===== verification/Signal.thy ===== *)
theory Signal
  imports Scheduler
begin

text \<open>
  Signals (\<^verbatim>\<open>kernel/signal/signal.c\<close>) with the signal system calls of
  \<^verbatim>\<open>kernel/syscall/syscall.c\<close> (kill, sigaction, sigreturn). \<open>interrupt_frame\<close> is the register
  frame of \<^verbatim>\<open>kernel/arch/x86_64/isr.h\<close> (prefix \<open>f_\<close>).
\<close>

record interrupt_frame =
  f_r15 :: u64
  f_r14 :: u64
  f_r13 :: u64
  f_r12 :: u64
  f_r11 :: u64
  f_r10 :: u64
  f_r9 :: u64
  f_r8 :: u64
  f_rbp :: u64
  f_rdi :: u64
  f_rsi :: u64
  f_rdx :: u64
  f_rcx :: u64
  f_rbx :: u64
  f_rax :: u64
  f_int_no :: u64
  f_err_code :: u64
  f_rip :: u64
  f_cs :: u64
  f_rflags :: u64
  f_rsp :: u64
  f_ss :: u64

definition SIGINT :: nat where "SIGINT = 2"
definition SIGKILL :: nat where "SIGKILL = 9"
definition SIGPIPE :: nat where "SIGPIPE = 13"
definition SIGTERM :: nat where "SIGTERM = 15"
definition SIGCHLD :: nat where "SIGCHLD = 17"
definition SIGTSTP :: nat where "SIGTSTP = 20"
definition SIG_DFL :: u64 where "SIG_DFL = 0"
definition SIG_IGN :: u64 where "SIG_IGN = 1"

lemmas sig_numbers = SIGINT_def SIGKILL_def SIGPIPE_def SIGTERM_def SIGCHLD_def SIGTSTP_def

section \<open>Operations\<close>

definition signal_send :: "u32 \<Rightarrow> int \<Rightarrow> sched \<Rightarrow> sched" where
  "signal_send pid sig s =
     (if sig < 1 \<or> sig \<ge> 32 then s
      else case process_get_by_pid pid s of
        None \<Rightarrow> s
      | Some t \<Rightarrow>
          (if p_state (procs s ! t) = PROCESS_UNUSED \<or> p_state (procs s ! t) = PROCESS_TERMINATED
           then s
           else
             (let s1 = upd_proc t (\<lambda>p. p\<lparr>p_sig_pending :=
                         p_sig_pending p OR push_bit (nat sig) 1\<rparr>) s in
              if p_state (procs s1 ! t) = PROCESS_BLOCKED
              then scheduler_add t (set_state t PROCESS_READY s1) else s1)))"

text \<open>\<open>sig_pending & (1u << sig)\<close>\<close>

definition sig_is_pending :: "process \<Rightarrow> nat \<Rightarrow> bool" where
  "sig_is_pending p sig \<longleftrightarrow> p_sig_pending p AND push_bit sig 1 \<noteq> 0"

definition sig_clear :: "nat \<Rightarrow> process \<Rightarrow> process" where
  "sig_clear sig p = p\<lparr>p_sig_pending := p_sig_pending p AND NOT (push_bit sig 1)\<rparr>"

text \<open>Wake the parent if it waits for this process (shared with \<^verbatim>\<open>syscall_exit\<close>).\<close>

definition wake_waiting_parent :: "nat \<Rightarrow> sched \<Rightarrow> sched" where
  "wake_waiting_parent i s =
     (case process_get_by_pid (p_ppid (procs s ! i)) s of
        None \<Rightarrow> s
      | Some parent \<Rightarrow>
          (if p_state (procs s ! parent) = PROCESS_BLOCKED \<and>
              (p_wait_for_pid (procs s ! parent) = 0 \<or>
               p_wait_for_pid (procs s ! parent) = p_pid (procs s ! i))
           then scheduler_add parent (set_state parent PROCESS_READY s) else s))"

definition sig_terminate :: "nat \<Rightarrow> nat \<Rightarrow> sched \<Rightarrow> sched" where
  "sig_terminate i sig s =
     upd_proc i (\<lambda>p. p\<lparr>p_state := PROCESS_ZOMBIE, p_exit_code := 128 + int sig\<rparr>) s"

text \<open>Redirect the interrupted context to a user handler and remember it in the PCB.\<close>

definition sig_save :: "interrupt_frame \<Rightarrow> process \<Rightarrow> process" where
  "sig_save fr p = p\<lparr>p_sig_saved_rip := f_rip fr, p_sig_saved_rsp := f_rsp fr,
     p_sig_saved_rflags := f_rflags fr, p_sig_saved_rax := f_rax fr,
     p_sig_saved_rdi := f_rdi fr, p_sig_saved_rsi := f_rsi fr, p_sig_saved_rdx := f_rdx fr,
     p_in_signal_handler := True\<rparr>"

definition sig_redirect :: "nat \<Rightarrow> u64 \<Rightarrow> interrupt_frame \<Rightarrow> interrupt_frame" where
  "sig_redirect sig handler fr =
     fr\<lparr>f_rip := handler, f_rdi := of_nat sig, f_rsp := f_rsp fr - 8\<rparr>"

fun signal_loop :: "nat list \<Rightarrow> nat \<Rightarrow> interrupt_frame \<Rightarrow> sched \<Rightarrow> interrupt_frame \<times> sched" where
  "signal_loop [] i fr s = (fr, s)"
| "signal_loop (sig # sigs) i fr s =
     (if \<not> sig_is_pending (procs s ! i) sig then signal_loop sigs i fr s
      else
        (let s1 = upd_proc i (sig_clear sig) s;
             handler = p_sig_handlers (procs s1 ! i) ! sig
         in if handler = SIG_IGN then signal_loop sigs i fr s1
            else if handler = SIG_DFL then
              (if sig = SIGCHLD then signal_loop sigs i fr s1
               else if sig \<in> {SIGKILL, SIGTERM, SIGINT, SIGPIPE, SIGTSTP} then
                 (fr, schedule (wake_waiting_parent i (sig_terminate i sig s1)))
               else (fr, schedule (sig_terminate i sig s1)))
            else (sig_redirect sig handler fr, upd_proc i (sig_save fr) s1)))"

definition signal_check ::
  "nat option \<Rightarrow> interrupt_frame \<Rightarrow> sched \<Rightarrow> interrupt_frame \<times> sched" where
  "signal_check proc fr s =
     (case proc of
        None \<Rightarrow> (fr, s)
      | Some i \<Rightarrow>
          (if \<not> p_is_user (procs s ! i) \<or> p_in_signal_handler (procs s ! i) then (fr, s)
           else if p_sig_pending (procs s ! i) = 0 then (fr, s)
           else signal_loop [1..<32] i fr s))"

definition signal_has_fatal :: "nat option \<Rightarrow> sched \<Rightarrow> bool" where
  "signal_has_fatal proc s =
     (case proc of
        None \<Rightarrow> False
      | Some i \<Rightarrow>
          p_sig_pending (procs s ! i) AND
            (push_bit SIGINT 1 OR push_bit SIGKILL 1 OR push_bit SIGTERM 1) \<noteq> 0)"

section \<open>The signal system calls\<close>

text \<open>Each handler works on the slot \<open>cur\<close> of the current process; \<open>-1\<close> is the error value of \<open>rax\<close>.\<close>

definition sys_kill :: "u32 \<Rightarrow> int \<Rightarrow> interrupt_frame \<Rightarrow> sched \<Rightarrow> interrupt_frame \<times> sched" where
  "sys_kill pid sig fr s =
     (if sig < 1 \<or> sig \<ge> 32 then (fr\<lparr>f_rax := -1\<rparr>, s)
      else case process_get_by_pid pid s of
        None \<Rightarrow> (fr\<lparr>f_rax := -1\<rparr>, s)
      | Some t \<Rightarrow>
          (if p_state (procs s ! t) = PROCESS_UNUSED \<or> p_state (procs s ! t) = PROCESS_TERMINATED
           then (fr\<lparr>f_rax := -1\<rparr>, s)
           else (fr\<lparr>f_rax := 0\<rparr>, signal_send pid sig s)))"

definition sys_sigaction ::
  "nat \<Rightarrow> int \<Rightarrow> u64 \<Rightarrow> interrupt_frame \<Rightarrow> sched \<Rightarrow> interrupt_frame \<times> sched" where
  "sys_sigaction cur sig handler fr s =
     (if sig < 1 \<or> sig \<ge> 32 \<or> sig = 9 then (fr\<lparr>f_rax := -1\<rparr>, s)
      else (fr\<lparr>f_rax := 0\<rparr>,
            upd_proc cur (\<lambda>p. p\<lparr>p_sig_handlers := (p_sig_handlers p)[nat sig := handler]\<rparr>) s))"

definition sys_sigreturn :: "nat \<Rightarrow> interrupt_frame \<Rightarrow> sched \<Rightarrow> interrupt_frame \<times> sched" where
  "sys_sigreturn cur fr s =
     (let p = procs s ! cur in
      if \<not> p_in_signal_handler p then (fr\<lparr>f_rax := -1\<rparr>, s)
      else (fr\<lparr>f_rip := p_sig_saved_rip p, f_rsp := p_sig_saved_rsp p,
               f_rflags := p_sig_saved_rflags p, f_rax := p_sig_saved_rax p,
               f_rdi := p_sig_saved_rdi p, f_rsi := p_sig_saved_rsi p,
               f_rdx := p_sig_saved_rdx p\<rparr>,
            upd_proc cur (\<lambda>p. p\<lparr>p_in_signal_handler := False\<rparr>) s))"

section \<open>Which signal is delivered\<close>

text \<open>
  \<open>sig_acts p sig\<close>: the signal has an effect (it is neither ignored nor a defaulted SIGCHLD).
  \<open>sig_act\<close> is that effect. The loop consumes every pending signal up to the first one that acts
  and performs its effect.
\<close>

definition sig_acts :: "process \<Rightarrow> nat \<Rightarrow> bool" where
  "sig_acts p sig \<longleftrightarrow> p_sig_handlers p ! sig \<noteq> SIG_IGN \<and>
     \<not> (p_sig_handlers p ! sig = SIG_DFL \<and> sig = SIGCHLD)"

definition sig_act :: "nat \<Rightarrow> nat \<Rightarrow> interrupt_frame \<Rightarrow> sched \<Rightarrow> interrupt_frame \<times> sched" where
  "sig_act sig i fr s =
     (let handler = p_sig_handlers (procs s ! i) ! sig in
      if handler = SIG_DFL then
        (if sig \<in> {SIGKILL, SIGTERM, SIGINT, SIGPIPE, SIGTSTP}
         then (fr, schedule (wake_waiting_parent i (sig_terminate i sig s)))
         else (fr, schedule (sig_terminate i sig s)))
      else (sig_redirect sig handler fr, upd_proc i (sig_save fr) s))"

primrec clear_sigs :: "nat list \<Rightarrow> process \<Rightarrow> process" where
  "clear_sigs [] p = p"
| "clear_sigs (sig # sigs) p = clear_sigs sigs (sig_clear sig p)"

lemma sig_is_pending_bit: "sig_is_pending p sig = bit (p_sig_pending p) sig"
  by (simp add: sig_is_pending_def bit_iff_and_push_bit_not_eq_0)

lemma bit_sig_clear:
  "bit (p_sig_pending (sig_clear sig p)) k \<longleftrightarrow> bit (p_sig_pending p) k \<and> k \<noteq> sig"
  by (auto simp: sig_clear_def bit_simps dest: bit_imp_le_length)

lemma sig_clear_not_pending: "\<not> bit (p_sig_pending p) sig \<Longrightarrow> sig_clear sig p = p"
proof -
  assume "\<not> bit (p_sig_pending p) sig"
  then have "p_sig_pending p AND NOT (push_bit sig 1) = p_sig_pending p"
    by (intro bit_eqI) (auto simp: bit_simps)
  then show ?thesis by (simp add: sig_clear_def)
qed

lemma sig_clear_fields [simp]:
  "p_sig_handlers (sig_clear sig p) = p_sig_handlers p"
  "p_state (sig_clear sig p) = p_state p" "p_next (sig_clear sig p) = p_next p"
  by (simp_all add: sig_clear_def)

lemma clear_sigs_pending:
  "bit (p_sig_pending (clear_sigs sigs p)) k \<longleftrightarrow> bit (p_sig_pending p) k \<and> k \<notin> set sigs"
  by (induction sigs arbitrary: p) (auto simp: bit_sig_clear)

lemma clear_sigs_eq:
  "clear_sigs sigs p = p\<lparr>p_sig_pending := p_sig_pending (clear_sigs sigs p)\<rparr>"
proof (induction sigs arbitrary: p)
  case Nil
  then show ?case by simp
next
  case (Cons sig sigs)
  have "clear_sigs sigs (sig_clear sig p)
        = (sig_clear sig p)\<lparr>p_sig_pending := p_sig_pending (clear_sigs sigs (sig_clear sig p))\<rparr>"
    by (rule Cons.IH)
  then show ?case by (simp add: sig_clear_def)
qed

lemma clear_sigs_handlers [simp]: "p_sig_handlers (clear_sigs sigs p) = p_sig_handlers p"
  by (induction sigs arbitrary: p) auto

lemma clear_sigs_snoc: "clear_sigs (sigs @ [sig]) p = sig_clear sig (clear_sigs sigs p)"
  by (induction sigs arbitrary: p) auto

lemma clear_sigs_upto:
  "clear_sigs [1..<Suc sig] p
   = p\<lparr>p_sig_pending := p_sig_pending p AND NOT (mask (Suc sig) AND NOT 1)\<rparr>"
proof -
  have "p_sig_pending (clear_sigs [1..<Suc sig] p)
        = p_sig_pending p AND NOT (mask (Suc sig) AND NOT 1)"
    by (rule bit_eqI) (auto simp: clear_sigs_pending bit_simps simp del: mask_Suc_exp)
  then show ?thesis by (metis clear_sigs_eq)
qed

lemma signal_loop_skip:
  assumes "i < length (procs s)" "\<forall>sig\<in>set sigs. sig < 32 \<and> sig > 0" "distinct sigs"
    and "\<forall>k\<in>set sigs. sig_is_pending (procs s ! i) k \<longrightarrow> \<not> sig_acts (procs s ! i) k"
  shows "signal_loop (sigs @ rest) i fr s = signal_loop rest i fr (upd_proc i (clear_sigs sigs) s)"
  using assms
proof (induction sigs arbitrary: s)
  case Nil
  have "upd_proc i (\<lambda>p. p) s = s" by (rule upd_proc_id) simp
  then show ?case by simp
next
  case (Cons sig sigs)
  let ?s1 = "upd_proc i (sig_clear sig) s"
  have IH: "signal_loop (sigs @ rest) i fr ?s1
            = signal_loop rest i fr (upd_proc i (clear_sigs sigs) ?s1)"
    by (rule Cons.IH)
      (use Cons.prems in \<open>auto simp: upd_simps sig_is_pending_bit bit_sig_clear sig_acts_def\<close>)
  have upd: "upd_proc i (clear_sigs sigs) ?s1 = upd_proc i (clear_sigs (sig # sigs)) s"
    unfolding upd_proc_comp [OF Cons.prems(1)] by (rule upd_proc_cong) simp
  note eq = IH [unfolded upd]
  show ?case
  proof (cases "sig_is_pending (procs s ! i) sig")
    case True
    with Cons.prems have "\<not> sig_acts (procs s ! i) sig" by simp
    with True Cons.prems(1) have "signal_loop ((sig # sigs) @ rest) i fr s
        = signal_loop (sigs @ rest) i fr ?s1"
      by (auto simp: Let_def sig_acts_def upd_simps)
    then show ?thesis by (rule trans) (rule eq)
  next
    case False
    then have "?s1 = s"
      using Cons.prems by (intro upd_proc_id sig_clear_not_pending) (simp add: sig_is_pending_bit)
    with False have "signal_loop ((sig # sigs) @ rest) i fr s
        = signal_loop (sigs @ rest) i fr ?s1" by simp
    then show ?thesis by (rule trans) (rule eq)
  qed
qed

lemma signal_loop_acts:
  assumes "i < length (procs s)" "sig_is_pending (procs s ! i) sig" "sig_acts (procs s ! i) sig"
  shows "signal_loop (sig # rest) i fr s = sig_act sig i fr (upd_proc i (sig_clear sig) s)"
  using assms by (auto simp: sig_act_def Let_def sig_acts_def upd_simps)

lemma upt_split: "a \<le> k \<Longrightarrow> k < n \<Longrightarrow> [a..<n] = [a..<k] @ k # [Suc k..<n]"
  by (metis less_or_eq_imp_le upt_add_eq_append upt_conv_Cons le_add_diff_inverse)

text \<open>Closed form of \<^verbatim>\<open>signal_check\<close>: the lowest acting pending signal is the one that acts.\<close>

lemma signal_check_eq:
  assumes "i < length (procs s)" "p_is_user (procs s ! i)" "\<not> p_in_signal_handler (procs s ! i)"
    and "1 \<le> sig" "sig < 32" "sig_is_pending (procs s ! i) sig" "sig_acts (procs s ! i) sig"
    and "\<And>k. 1 \<le> k \<Longrightarrow> k < sig \<Longrightarrow> sig_is_pending (procs s ! i) k \<Longrightarrow> \<not> sig_acts (procs s ! i) k"
  shows "signal_check (Some i) fr s = sig_act sig i fr (upd_proc i (\<lambda>p. p\<lparr>p_sig_pending :=
           p_sig_pending p AND NOT (mask (Suc sig) AND NOT 1)\<rparr>) s)"
proof -
  let ?s1 = "upd_proc i (clear_sigs [1..<sig]) s"
  have nz: "p_sig_pending (procs s ! i) \<noteq> 0"
    using assms(6) by (auto simp: sig_is_pending_def)
  have fields: "sig_is_pending (procs ?s1 ! i) sig" "sig_acts (procs ?s1 ! i) sig"
    using assms by (auto simp: upd_simps sig_is_pending_bit clear_sigs_pending sig_acts_def)
  have "signal_check (Some i) fr s = signal_loop ([1..<sig] @ sig # [Suc sig..<32]) i fr s"
    using assms nz upt_split [of 1 sig 32] by (simp add: signal_check_def)
  also have "\<dots> = signal_loop (sig # [Suc sig..<32]) i fr ?s1"
    using assms by (intro signal_loop_skip) auto
  also have "\<dots> = sig_act sig i fr (upd_proc i (sig_clear sig) ?s1)"
    using assms fields by (intro signal_loop_acts) auto
  also have "upd_proc i (sig_clear sig) ?s1 = upd_proc i (clear_sigs [1..<Suc sig]) s"
    using assms by (simp add: upd_proc_comp clear_sigs_snoc [symmetric])
  also have "\<dots> = upd_proc i (\<lambda>p. p\<lparr>p_sig_pending :=
           p_sig_pending p AND NOT (mask (Suc sig) AND NOT 1)\<rparr>) s"
    by (rule upd_proc_cong) (rule clear_sigs_upto)
  finally show ?thesis .
qed

section \<open>Signals and the scheduler\<close>

lemma sig_terminate_frame [simp]:
  "current_process (sig_terminate i sig s) = current_process s"
  "length (procs (sig_terminate i sig s)) = length (procs s)"
  by (simp_all add: sig_terminate_def)

lemma sig_terminate_slot [upd_simps]:
  "j < length (procs s) \<Longrightarrow> procs (sig_terminate i sig s) ! j =
     (if i = j then (procs s ! j)\<lparr>p_state := PROCESS_ZOMBIE, p_exit_code := 128 + int sig\<rparr>
      else procs s ! j)"
  by (simp add: sig_terminate_def upd_simps)

lemma wake_waiting_parent_inv:
  assumes "sched_inv idle s" "current_process s = Some i" "p_state (procs s ! i) \<noteq> PROCESS_BLOCKED"
  shows "sched_inv idle (wake_waiting_parent i s)"
proof -
  have "sched_inv idle (scheduler_add j (set_state j PROCESS_READY s))"
    if "process_get_by_pid pid s = Some j" "p_state (procs s ! j) = PROCESS_BLOCKED" for j pid
    using assms that by (intro sched_inv_wake) (auto dest: process_get_by_pid_SomeD)
  with assms(1) show ?thesis
    by (auto simp: wake_waiting_parent_def split: option.split)
qed

lemma wake_waiting_parent_frame [simp]:
  "current_process (wake_waiting_parent i s) = current_process s"
  "length (procs (wake_waiting_parent i s)) = length (procs s)"
  by (simp_all add: wake_waiting_parent_def split: option.split)

lemma wake_waiting_parent_state:
  assumes "j < length (procs s)" "p_state (procs s ! j) \<noteq> PROCESS_BLOCKED"
  shows "p_state (procs (wake_waiting_parent i s) ! j) = p_state (procs s ! j)"
  using assms by (auto simp: wake_waiting_parent_def upd_simps split: option.split)

lemma signal_send_inv:
  assumes "sched_inv idle s"
    and "\<And>c. current_process s = Some c \<Longrightarrow> p_state (procs s ! c) \<noteq> PROCESS_BLOCKED"
  shows "sched_inv idle (signal_send pid sig s)"
proof (cases "process_get_by_pid pid s")
  case None
  with assms(1) show ?thesis by (simp add: signal_send_def)
next
  case (Some t)
  let ?s1 = "upd_proc t (\<lambda>p. p\<lparr>p_sig_pending := p_sig_pending p OR push_bit (nat sig) 1\<rparr>) s"
  from Some have t: "t < length (procs s)" by (simp add: process_get_by_pid_SomeD)
  have s1: "sched_inv idle ?s1" using assms(1) by (simp add: sched_inv_upd_neutral)
  have "sched_inv idle (scheduler_add t (set_state t PROCESS_READY ?s1))"
    if "p_state (procs ?s1 ! t) = PROCESS_BLOCKED"
    using s1 t that assms(2) by (intro sched_inv_wake) (auto simp: upd_simps)
  with s1 Some assms(1) show ?thesis by (simp add: signal_send_def Let_def)
qed

section \<open>What signal delivery guarantees\<close>

lemma sig_act_handler:
  "p_sig_handlers (procs s ! i) ! sig = h \<Longrightarrow> h \<noteq> SIG_DFL \<Longrightarrow>
   sig_act sig i fr s = (sig_redirect sig h fr, upd_proc i (sig_save fr) s)"
  by (simp add: sig_act_def)

definition demo_frame :: interrupt_frame where
  "demo_frame = \<lparr>f_r15 = 0, f_r14 = 0, f_r13 = 0, f_r12 = 0, f_r11 = 0, f_r10 = 0, f_r9 = 0,
     f_r8 = 0, f_rbp = 0, f_rdi = 7, f_rsi = 8, f_rdx = 9, f_rcx = 10, f_rbx = 0, f_rax = 11,
     f_int_no = 128, f_err_code = 0, f_rip = 4194304, f_cs = 27, f_rflags = 514,
     f_rsp = 34359738352, f_ss = 35\<rparr>"

text \<open>\<^verbatim>\<open>SIGINT\<close> caught by a handler at \<open>0x500000\<close>, \<^verbatim>\<open>SIGTERM\<close> also pending.\<close>

definition demo_caught :: sched where
  "demo_caught = upd_proc 0 (\<lambda>p. p\<lparr>p_sig_pending := 0x8004,
      p_sig_handlers := (replicate 32 0)[2 := 0x500000]\<rparr>) demo_sched"


lemma demo_caught_facts:
  "p_is_user (procs demo_caught ! 0)" "\<not> p_in_signal_handler (procs demo_caught ! 0)"
  "0 < length (procs demo_caught)" "p_sig_handlers (procs demo_caught ! 0) ! 2 = 0x500000"
  "p_sig_pending (procs demo_caught ! 0) = 0x8004"
  by (simp_all add: demo_caught_def demo_sched_def upd_proc_def process_zero_def)


text \<open>
  C26 (sigreturn undoes a delivery). After \<^verbatim>\<open>signal_check\<close> has redirected the frame \<open>fr\<close> to a user
  handler, \<^verbatim>\<open>sys_sigreturn\<close> called from the handler with any frame \<open>fr2\<close> gives back exactly the
  saved \<open>rip, rsp, rflags, rax, rdi, rsi, rdx\<close> of the interrupted context and re-enables delivery;
  all other registers keep the values the handler left in them.
\<close>

theorem sigreturn_restores_context:
  assumes "i < length (procs s)" "p_is_user (procs s ! i)" "\<not> p_in_signal_handler (procs s ! i)"
    and "1 \<le> sig" "sig < 32" "sig_is_pending (procs s ! i) sig"
    and "p_sig_handlers (procs s ! i) ! sig = h" "h \<noteq> SIG_DFL" "h \<noteq> SIG_IGN"
    and "\<And>k. 1 \<le> k \<Longrightarrow> k < sig \<Longrightarrow> sig_is_pending (procs s ! i) k \<Longrightarrow> \<not> sig_acts (procs s ! i) k"
  shows "fst (sys_sigreturn i fr2 (snd (signal_check (Some i) fr s))) =
           fr2\<lparr>f_rip := f_rip fr, f_rsp := f_rsp fr, f_rflags := f_rflags fr, f_rax := f_rax fr,
               f_rdi := f_rdi fr, f_rsi := f_rsi fr, f_rdx := f_rdx fr\<rparr> \<and>
         \<not> p_in_signal_handler (procs (snd (sys_sigreturn i fr2 (snd (signal_check (Some i) fr s)))) ! i)"
proof -
  have "sig_acts (procs s ! i) sig" using assms by (simp add: sig_acts_def)
  with assms have "signal_check (Some i) fr s = sig_act sig i fr (upd_proc i (\<lambda>p. p\<lparr>p_sig_pending :=
           p_sig_pending p AND NOT (mask (Suc sig) AND NOT 1)\<rparr>) s)"
    by (intro signal_check_eq) auto
  with assms show ?thesis
    by (simp add: sig_act_handler upd_simps sys_sigreturn_def sig_save_def)
qed

theorem sigreturn_restores_context_witness:
  "f_rip (fst (sys_sigreturn 0 (demo_frame\<lparr>f_rip := 1, f_rcx := 99\<rparr>)
      (snd (signal_check (Some 0) demo_frame demo_caught)))) = 4194304"
proof -
  have pend: "sig_is_pending (procs demo_caught ! 0) 2" "\<not> sig_is_pending (procs demo_caught ! 0) 1"
    using demo_caught_facts by (simp_all add: sig_is_pending_def)
  have "\<not> sig_acts (procs demo_caught ! 0) k"
    if "1 \<le> k" "k < 2" "sig_is_pending (procs demo_caught ! 0) k" for k
    using that pend(2) by (auto simp: less_2_cases_iff)
  with sigreturn_restores_context [of 0 demo_caught 2 "0x500000"
      "demo_frame\<lparr>f_rip := 1, f_rcx := 99\<rparr>" demo_frame] demo_caught_facts pend(1)
  show ?thesis by (simp add: SIG_DFL_def SIG_IGN_def demo_frame_def)
qed

definition sigactions :: "interrupt_frame \<Rightarrow> nat \<Rightarrow> (int \<times> u64) list \<Rightarrow> sched \<Rightarrow> sched" where
  "sigactions fr i acts s = foldl (\<lambda>s (sig, h). snd (sys_sigaction i sig h fr s)) s acts"

lemma sys_sigaction_keeps:
  "j < length (procs s) \<Longrightarrow> p_sig_handlers (procs (snd (sys_sigaction i sig h fr s)) ! j) ! 9
     = p_sig_handlers (procs s ! j) ! 9"
  "j < length (procs s) \<Longrightarrow> p_state (procs (snd (sys_sigaction i sig h fr s)) ! j) = p_state (procs s ! j)"
  "j < length (procs s) \<Longrightarrow> p_sig_pending (procs (snd (sys_sigaction i sig h fr s)) ! j) = p_sig_pending (procs s ! j)"
  "j < length (procs s) \<Longrightarrow> p_is_user (procs (snd (sys_sigaction i sig h fr s)) ! j) = p_is_user (procs s ! j)"
  "j < length (procs s) \<Longrightarrow> p_in_signal_handler (procs (snd (sys_sigaction i sig h fr s)) ! j)
     = p_in_signal_handler (procs s ! j)"
  "current_process (snd (sys_sigaction i sig h fr s)) = current_process s"
  "length (procs (snd (sys_sigaction i sig h fr s))) = length (procs s)"
  "sched_inv idle (snd (sys_sigaction i sig h fr s)) = sched_inv idle s"
  by (auto simp: sys_sigaction_def upd_simps sched_inv_upd_neutral nat_eq_iff)

lemma sigactions_keep:
  "j < length (procs s) \<Longrightarrow> p_sig_handlers (procs (sigactions fr i acts s) ! j) ! 9
     = p_sig_handlers (procs s ! j) ! 9"
  "j < length (procs s) \<Longrightarrow> p_state (procs (sigactions fr i acts s) ! j) = p_state (procs s ! j)"
  "j < length (procs s) \<Longrightarrow> p_sig_pending (procs (sigactions fr i acts s) ! j) = p_sig_pending (procs s ! j)"
  "j < length (procs s) \<Longrightarrow> p_is_user (procs (sigactions fr i acts s) ! j) = p_is_user (procs s ! j)"
  "j < length (procs s) \<Longrightarrow> p_in_signal_handler (procs (sigactions fr i acts s) ! j)
     = p_in_signal_handler (procs s ! j)"
  "current_process (sigactions fr i acts s) = current_process s"
  "length (procs (sigactions fr i acts s)) = length (procs s)"
  "sched_inv idle (sigactions fr i acts s) = sched_inv idle s"
  unfolding sigactions_def
  by (induction acts arbitrary: s) (auto simp: sys_sigaction_keeps)

text \<open>Termination by a default signal: the process is a zombie and has lost the CPU.\<close>

lemma sig_terminate_schedule:
  assumes "sched_inv idle s" "current_process s = Some i" "i \<noteq> idle"
    and "t = sig_terminate i sig s \<or> t = wake_waiting_parent i (sig_terminate i sig s)"
  shows "sched_inv idle (schedule t) \<and> current_process (schedule t) \<noteq> Some i \<and>
         p_state (procs (schedule t) ! i) = PROCESS_ZOMBIE"
proof -
  have i: "i < length (procs s)" using assms(1,2) by (rule sched_inv_current)
  have z: "sched_inv idle (sig_terminate i sig s)"
    unfolding sig_terminate_def using assms by (intro sched_inv_stop_current) auto
  have zs: "p_state (procs (sig_terminate i sig s) ! i) = PROCESS_ZOMBIE"
    using i by (simp add: upd_simps)
  have t: "sched_inv idle t" "current_process t = Some i" "p_state (procs t ! i) = PROCESS_ZOMBIE"
    "i < length (procs t)"
    using assms(2,4) z zs i wake_waiting_parent_inv [OF z, of i]
    by (auto simp: wake_waiting_parent_state)
  obtain y ys where d: "dispatched (schedule t) y ys" "y \<noteq> i"
    using schedule_leaves_current [OF t(1,2)] t(3) by auto
  obtain xs where rq: "rq t xs" "i \<notin> set xs" "idle \<in> set xs"
    using t assms(3) unfolding sched_inv_def by auto
  then obtain z zs where xs: "xs = z # zs" by (cases xs) auto
  have "p_state (procs (schedule t) ! i) = PROCESS_ZOMBIE"
    using schedule_state_stopped [of i t z] rq xs t by (auto simp: rq_head)
  with schedule_sched_inv [OF t(1)] d show ?thesis by (auto simp: dispatched_def)
qed



text \<open>
  Signals keep the scheduler sound: sending any signal to any process, blocked or not, keeps
  the scheduler invariant: a blocked target is queued exactly once and nothing is lost.
\<close>

theorem signal_send_keeps_invariant:
  assumes "sched_inv idle s"
    and "\<And>c. current_process s = Some c \<Longrightarrow> p_state (procs s ! c) \<noteq> PROCESS_BLOCKED"
  shows "sched_inv idle (signal_send pid sig s) \<and>
         (\<forall>t. process_get_by_pid pid s = Some t \<and> 1 \<le> sig \<and> sig < 32 \<and>
              p_state (procs s ! t) = PROCESS_BLOCKED \<longrightarrow>
              (\<forall>xs. rq s xs \<longrightarrow> rq (signal_send pid sig s) (xs @ [t])))"
proof (intro conjI allI impI)
  show "sched_inv idle (signal_send pid sig s)" using assms by (rule signal_send_inv)
next
  fix t xs
  assume t: "process_get_by_pid pid s = Some t \<and> 1 \<le> sig \<and> sig < 32 \<and>
              p_state (procs s ! t) = PROCESS_BLOCKED" and rq: "rq s xs"
  let ?s1 = "upd_proc t (\<lambda>p. p\<lparr>p_sig_pending := p_sig_pending p OR push_bit (nat sig) 1\<rparr>) s"
  have len: "t < length (procs s)" using t by (auto dest: process_get_by_pid_SomeD)
  have "rq ?s1 xs" using rq by (simp add: rq_upd_proc_neutral)
  then have "rq (scheduler_add t (set_state t PROCESS_READY ?s1)) (xs @ [t])"
    using t len by (intro scheduler_add_wake_rq) (simp_all add: upd_simps)
  with t len show "rq (signal_send pid sig s) (xs @ [t])"
    by (simp add: signal_send_def Let_def upd_simps)
qed

theorem signal_send_keeps_invariant_witness:
  "sched_inv 2 (signal_send 4 15 demo_sched) \<and> rq (signal_send 4 15 demo_sched) [1, 2, 3]"
proof -
  have "process_get_by_pid 4 demo_sched = Some 3" "p_state (procs demo_sched ! 3) = PROCESS_BLOCKED"
    by (simp_all add: demo_sched_def process_get_by_pid_def)
  with signal_send_keeps_invariant [OF demo_inv, of 4 15] demo_rq
  show ?thesis by (force simp: demo_sched_def)
qed

end
