(* ===== verification/Ring.thy ===== *)
theory Ring
  imports Main
begin

text \<open>
  The two ring-buffer idioms of the kernel, over the arrays and positions the source keeps:
  a ring with an element count (\<^verbatim>\<open>kernel/fs/pipe.c\<close>, the receive buffer of \<^verbatim>\<open>kernel/net/tcp.c\<close>)
  and a ring with a head and a tail index that leaves one slot free (\<^verbatim>\<open>kernel/drivers/keyboard.c\<close>,
  \<^verbatim>\<open>kernel/drivers/mouse.c\<close>, \<^verbatim>\<open>kernel/net/net.c\<close>). Both are related to the list of their elements.
\<close>

section \<open>The copy loops\<close>

text \<open>\<^verbatim>\<open>for (i..) { buf[pos] = data[i]; pos = (pos + 1) % SIZE; }\<close>\<close>

fun ring_put :: "'a list \<Rightarrow> nat \<Rightarrow> 'a list \<Rightarrow> 'a list \<times> nat" where
  "ring_put buf wp [] = (buf, wp)"
| "ring_put buf wp (b # bs) = ring_put (buf[wp := b]) ((wp + 1) mod length buf) bs"

text \<open>\<^verbatim>\<open>for (i..) { data[i] = buf[pos]; pos = (pos + 1) % SIZE; }\<close>\<close>

fun ring_get :: "'a list \<Rightarrow> nat \<Rightarrow> nat \<Rightarrow> 'a list \<times> nat" where
  "ring_get buf rp 0 = ([], rp)"
| "ring_get buf rp (Suc k) =
     (let (bs, rp') = ring_get buf ((rp + 1) mod length buf) k in (buf ! rp # bs, rp'))"

section \<open>The list a ring holds\<close>

definition ring_ok :: "'a list \<Rightarrow> nat \<Rightarrow> nat \<Rightarrow> nat \<Rightarrow> bool" where
  "ring_ok buf rp wp cnt \<longleftrightarrow> rp < length buf \<and> wp < length buf \<and> cnt \<le> length buf \<and>
     wp = (rp + cnt) mod length buf"

definition ring_list :: "'a list \<Rightarrow> nat \<Rightarrow> nat \<Rightarrow> 'a list" where
  "ring_list buf rp cnt = map (\<lambda>i. buf ! ((rp + i) mod length buf)) [0..<cnt]"

lemma length_ring_list [simp]: "length (ring_list buf rp cnt) = cnt"
  by (simp add: ring_list_def)

lemma ring_list_0 [simp]: "ring_list buf rp 0 = []"
  by (simp add: ring_list_def)

lemma nth_ring_list: "i < cnt \<Longrightarrow> ring_list buf rp cnt ! i = buf ! ((rp + i) mod length buf)"
  by (simp add: ring_list_def)

lemma ring_list_Suc: "ring_list buf rp (Suc cnt) = ring_list buf rp cnt @ [buf ! ((rp + cnt) mod length buf)]"
  by (simp add: ring_list_def)

lemma ring_list_Cons:
  assumes "rp < length buf"
  shows "ring_list buf rp (Suc cnt) = buf ! rp # ring_list buf ((rp + 1) mod length buf) cnt"
proof (rule nth_equalityI)
  fix i assume "i < length (ring_list buf rp (Suc cnt))"
  then show "ring_list buf rp (Suc cnt) ! i
             = (buf ! rp # ring_list buf ((rp + 1) mod length buf) cnt) ! i"
    using assms by (cases i) (simp_all add: nth_ring_list mod_add_left_eq)
qed simp

text \<open>Distinct elements of the ring sit in distinct cells.\<close>

lemma ring_cell_neq:
  assumes "i < cnt" "cnt < n"
  shows "(rp + i) mod n \<noteq> (rp + cnt) mod (n::nat)"
proof
  assume "(rp + i) mod n = (rp + cnt) mod n"
  then have "n dvd (rp + cnt) - (rp + i)"
    using assms by (metis add_le_cancel_left less_imp_le_nat mod_eq_dvd_iff_nat)
  with assms show False by (auto dest: dvd_imp_le)
qed

lemma ring_put1:
  assumes "ring_ok buf rp wp cnt" "cnt < length buf"
  shows "ring_ok (buf[wp := b]) rp ((wp + 1) mod length buf) (Suc cnt)"
    and "ring_list (buf[wp := b]) rp (Suc cnt) = ring_list buf rp cnt @ [b]"
proof -
  from assms have pos: "0 < length buf" and wp: "wp = (rp + cnt) mod length buf" "wp < length buf"
    by (auto simp: ring_ok_def)
  show "ring_ok (buf[wp := b]) rp ((wp + 1) mod length buf) (Suc cnt)"
    using assms pos by (auto simp: ring_ok_def mod_Suc_eq)
  have "ring_list (buf[wp := b]) rp cnt = ring_list buf rp cnt"
    by (rule nth_equalityI)
      (use assms(2) wp ring_cell_neq [of _ cnt "length buf" rp] in
        \<open>fastforce simp: nth_ring_list nth_list_update_neq\<close>)+
  then show "ring_list (buf[wp := b]) rp (Suc cnt) = ring_list buf rp cnt @ [b]"
    using wp by (simp add: ring_list_Suc)
qed

lemma ring_put_spec:
  "ring_ok buf rp wp cnt \<Longrightarrow> cnt + length bs \<le> length buf \<Longrightarrow> ring_put buf wp bs = (buf', wp') \<Longrightarrow>
   length buf' = length buf \<and> ring_ok buf' rp wp' (cnt + length bs) \<and>
   ring_list buf' rp (cnt + length bs) = ring_list buf rp cnt @ bs"
proof (induction bs arbitrary: buf wp cnt)
  case Nil
  then show ?case by simp
next
  case (Cons b bs)
  have lt: "cnt < length buf" using Cons.prems(2) by simp
  note one = ring_put1 [OF Cons.prems(1) lt, of b]
  have "length buf' = length (buf[wp := b]) \<and> ring_ok buf' rp wp' (Suc cnt + length bs) \<and>
        ring_list buf' rp (Suc cnt + length bs) = ring_list (buf[wp := b]) rp (Suc cnt) @ bs"
    by (rule Cons.IH) (use one Cons.prems in auto)
  with one(2) show ?case by simp
qed

lemma ring_get1:
  assumes "ring_ok buf rp wp (Suc cnt)"
  shows "ring_ok buf ((rp + 1) mod length buf) wp cnt"
proof -
  have "Suc rp mod length buf < length buf" using assms by (intro mod_less_divisor) (auto simp: ring_ok_def)
  with assms show ?thesis by (auto simp: ring_ok_def mod_add_left_eq mod_Suc_eq)
qed

lemma ring_get_spec:
  "ring_ok buf rp wp cnt \<Longrightarrow> k \<le> cnt \<Longrightarrow> ring_get buf rp k = (bs, rp') \<Longrightarrow>
   bs = take k (ring_list buf rp cnt) \<and> ring_ok buf rp' wp (cnt - k) \<and>
   ring_list buf rp' (cnt - k) = drop k (ring_list buf rp cnt)"
proof (induction k arbitrary: rp cnt bs)
  case 0
  then show ?case by simp
next
  case (Suc k)
  then obtain c where c: "cnt = Suc c" by (cases cnt) auto
  obtain cs where cs: "ring_get buf ((rp + 1) mod length buf) k = (cs, rp')" "bs = buf ! rp # cs"
    using Suc.prems(3) by (auto split: prod.splits)
  have rp: "rp < length buf" using Suc.prems(1) by (simp add: ring_ok_def)
  have "cs = take k (ring_list buf ((rp + 1) mod length buf) c) \<and> ring_ok buf rp' wp (c - k) \<and>
        ring_list buf rp' (c - k) = drop k (ring_list buf ((rp + 1) mod length buf) c)"
    by (rule Suc.IH) (use Suc.prems c cs ring_get1 in auto)
  with cs c rp show ?case by (simp add: ring_list_Cons)
qed

section \<open>The head/tail ring with one free slot\<close>

text \<open>The number of elements between \<open>head\<close> (oldest) and \<open>tail\<close> (next free) in a ring of \<open>n\<close> slots.\<close>

definition idx_count :: "nat \<Rightarrow> nat \<Rightarrow> nat \<Rightarrow> nat" where
  "idx_count n head tail = (if head \<le> tail then tail - head else tail + n - head)"

definition idx_list :: "'a list \<Rightarrow> nat \<Rightarrow> nat \<Rightarrow> 'a list" where
  "idx_list buf head tail = ring_list buf head (idx_count (length buf) head tail)"

lemma idx_ring_ok:
  "head < length buf \<Longrightarrow> tail < length buf \<Longrightarrow> ring_ok buf head tail (idx_count (length buf) head tail)"
  by (auto simp: ring_ok_def idx_count_def mod_if)

lemma idx_count_less: "head < n \<Longrightarrow> tail < n \<Longrightarrow> idx_count n head tail < n"
  by (auto simp: idx_count_def)

lemma idx_count_Suc:
  "head < n \<Longrightarrow> tail < n \<Longrightarrow> (tail + 1) mod n \<noteq> head \<Longrightarrow>
   idx_count n head ((tail + 1) mod n) = Suc (idx_count n head tail)"
  by (auto simp: idx_count_def mod_if)

lemma idx_full_iff:
  "head < n \<Longrightarrow> tail < n \<Longrightarrow> (tail + 1) mod n = head \<longleftrightarrow> idx_count n head tail = n - 1"
  by (auto simp: idx_count_def mod_if)

lemma idx_list_push:
  assumes "head < length buf" "tail < length buf" "(tail + 1) mod length buf \<noteq> head"
  shows "idx_list (buf[tail := b]) head ((tail + 1) mod length buf) = idx_list buf head tail @ [b]"
proof -
  note idx_count_Suc [OF assms, simplified, simp]
  have "idx_count (length buf) head tail < length buf" using assms by (simp add: idx_count_less)
  from ring_put1(2) [OF idx_ring_ok [OF assms(1,2)] this, of b] assms
  show ?thesis by (simp add: idx_list_def)
qed

lemma idx_list_empty_iff: "head < length buf \<Longrightarrow> tail < length buf \<Longrightarrow> idx_list buf head tail = [] \<longleftrightarrow> head = tail"
  by (auto simp: idx_list_def idx_count_def ring_list_def)

lemma idx_list_pop:
  assumes "head < length buf" "tail < length buf" "head \<noteq> tail"
  shows "idx_list buf head tail = buf ! head # idx_list buf ((head + 1) mod length buf) tail"
proof -
  have "idx_count (length buf) head tail
        = Suc (idx_count (length buf) ((head + 1) mod length buf) tail)"
    using assms by (auto simp: idx_count_def mod_if)
  with assms(1) show ?thesis by (simp add: idx_list_def ring_list_Cons)
qed

end
