(* ===== verification/Pipe.thy ===== *)
theory Pipe
  imports Signal Ring
begin

text \<open>
  Pipes (\<^verbatim>\<open>kernel/fs/pipe.c\<close>). A \<^verbatim>\<open>struct pipe *\<close> is an optional \<open>pipe\<close> record, \<open>None\<close> for
  \<^verbatim>\<open>NULL\<close>. \<^verbatim>\<open>pipe_read\<close> and \<^verbatim>\<open>pipe_write\<close> block in a loop around \<^verbatim>\<open>schedule()\<close>; one call of
  the model is one pass through that loop, and the result \<open>Blocks\<close> means that the caller has been
  descheduled and runs the operation again when it is woken.
\<close>

definition PIPE_BUF_SIZE :: nat where "PIPE_BUF_SIZE = 4096"

record pipe =
  pipe_buffer :: "u8 list"
  pipe_read_pos :: nat
  pipe_write_pos :: nat
  pipe_count :: nat
  pipe_readers :: u32
  pipe_writers :: u32
  pipe_blocked_reader :: "nat option"
  pipe_blocked_writer :: "nat option"

datatype 'a outcome = Blocks | Returns 'a

section \<open>Operations\<close>

text \<open>\<open>ok\<close> is whether \<^verbatim>\<open>kmalloc\<close> found memory for the structure.\<close>

definition pipe_create :: "bool \<Rightarrow> int \<times> pipe option" where
  "pipe_create ok =
     (if \<not> ok then (-1, None)
      else (0, Some \<lparr>pipe_buffer = replicate PIPE_BUF_SIZE 0, pipe_read_pos = 0,
        pipe_write_pos = 0, pipe_count = 0, pipe_readers = 1, pipe_writers = 1,
        pipe_blocked_reader = None, pipe_blocked_writer = None\<rparr>))"

definition pipe_wake :: "nat option \<Rightarrow> sched \<Rightarrow> sched" where
  "pipe_wake b s = (case b of None \<Rightarrow> s | Some i \<Rightarrow> scheduler_add i (set_state i PROCESS_READY s))"

text \<open>The current process blocks and gives up the CPU.\<close>

definition block_current :: "sched \<Rightarrow> sched" where
  "block_current s = schedule (set_state (the (current_process s)) PROCESS_BLOCKED s)"

definition pipe_read ::
  "pipe option \<Rightarrow> nat \<Rightarrow> sched \<Rightarrow> (int \<times> u8 list) outcome \<times> pipe option \<times> sched" where
  "pipe_read po count s =
     (case po of
        None \<Rightarrow> (Returns (-1, []), None, s)
      | Some p \<Rightarrow>
          (if pipe_count p = 0 then
             (if pipe_writers p = 0 then (Returns (0, []), Some p, s)
              else (Blocks, Some (p\<lparr>pipe_blocked_reader := current_process s\<rparr>), block_current s))
           else
             (let to_read = (if count < pipe_count p then count else pipe_count p);
                  (bs, rp) = ring_get (pipe_buffer p) (pipe_read_pos p) to_read;
                  p1 = p\<lparr>pipe_read_pos := rp, pipe_count := pipe_count p - to_read\<rparr>
              in (Returns (int to_read, bs), Some (p1\<lparr>pipe_blocked_writer := None\<rparr>),
                  pipe_wake (pipe_blocked_writer p1) s))))"

definition pipe_write ::
  "pipe option \<Rightarrow> u8 list \<Rightarrow> sched \<Rightarrow> int outcome \<times> pipe option \<times> sched" where
  "pipe_write po data s =
     (case po of
        None \<Rightarrow> (Returns (-1), None, s)
      | Some p \<Rightarrow>
          (if pipe_readers p = 0 then (Returns (-1), Some p, s)
           else if pipe_count p = PIPE_BUF_SIZE then
             (Blocks, Some (p\<lparr>pipe_blocked_writer := current_process s\<rparr>), block_current s)
           else
             (let space = PIPE_BUF_SIZE - pipe_count p;
                  to_write = (if length data < space then length data else space);
                  (buf, wp) = ring_put (pipe_buffer p) (pipe_write_pos p) (take to_write data);
                  p1 = p\<lparr>pipe_buffer := buf, pipe_write_pos := wp,
                         pipe_count := pipe_count p + to_write\<rparr>
              in (Returns (int to_write), Some (p1\<lparr>pipe_blocked_reader := None\<rparr>),
                  pipe_wake (pipe_blocked_reader p1) s))))"

definition pipe_close_read :: "pipe option \<Rightarrow> sched \<Rightarrow> pipe option \<times> sched" where
  "pipe_close_read po s =
     (case po of
        None \<Rightarrow> (None, s)
      | Some p \<Rightarrow>
          (let p1 = (if pipe_readers p > 0 then p\<lparr>pipe_readers := pipe_readers p - 1\<rparr> else p) in
           if pipe_readers p1 = 0 \<and> pipe_blocked_writer p1 \<noteq> None
           then (Some (p1\<lparr>pipe_blocked_writer := None\<rparr>), pipe_wake (pipe_blocked_writer p1) s)
           else (Some p1, s)))"

definition pipe_close_write :: "pipe option \<Rightarrow> sched \<Rightarrow> pipe option \<times> sched" where
  "pipe_close_write po s =
     (case po of
        None \<Rightarrow> (None, s)
      | Some p \<Rightarrow>
          (let p1 = (if pipe_writers p > 0 then p\<lparr>pipe_writers := pipe_writers p - 1\<rparr> else p) in
           if pipe_writers p1 = 0 \<and> pipe_blocked_reader p1 \<noteq> None
           then (Some (p1\<lparr>pipe_blocked_reader := None\<rparr>), pipe_wake (pipe_blocked_reader p1) s)
           else (Some p1, s)))"

definition pipe_inc_ref :: "pipe option \<Rightarrow> fd_type \<Rightarrow> pipe option" where
  "pipe_inc_ref po type =
     (case po of
        None \<Rightarrow> None
      | Some p \<Rightarrow>
          Some (if type = FD_PIPE_READ then p\<lparr>pipe_readers := pipe_readers p + 1\<rparr>
                else if type = FD_PIPE_WRITE then p\<lparr>pipe_writers := pipe_writers p + 1\<rparr>
                else p))"

section \<open>The pipe as a byte queue\<close>

definition pipe_inv :: "pipe \<Rightarrow> bool" where
  "pipe_inv p \<longleftrightarrow> length (pipe_buffer p) = PIPE_BUF_SIZE \<and>
     ring_ok (pipe_buffer p) (pipe_read_pos p) (pipe_write_pos p) (pipe_count p)"

definition pipe_bytes :: "pipe \<Rightarrow> u8 list" where
  "pipe_bytes p = ring_list (pipe_buffer p) (pipe_read_pos p) (pipe_count p)"

lemma length_pipe_bytes [simp]: "length (pipe_bytes p) = pipe_count p"
  by (simp add: pipe_bytes_def)

lemma pipe_create_inv: "pipe_create ok = (r, Some p) \<Longrightarrow> pipe_inv p \<and> pipe_bytes p = []"
  by (auto simp: pipe_create_def pipe_inv_def pipe_bytes_def ring_ok_def PIPE_BUF_SIZE_def
           split: if_splits)

text \<open>A read that returns data takes it off the front of the queue; every read keeps the invariant.\<close>

lemma pipe_read_refines:
  assumes "pipe_inv p" "pipe_read (Some p) count s = (r, Some q, t)"
  shows "pipe_inv q \<and> pipe_writers q = pipe_writers p \<and> pipe_readers q = pipe_readers p \<and>
     (case r of
        Blocks \<Rightarrow> pipe_bytes p = [] \<and> pipe_bytes q = [] \<and> pipe_writers p \<noteq> 0
      | Returns (n, bs) \<Rightarrow>
          bs = take count (pipe_bytes p) \<and> n = int (length bs) \<and>
          pipe_bytes q = drop count (pipe_bytes p) \<and>
          (pipe_bytes p = [] \<longrightarrow> pipe_writers p = 0))"
proof (cases "pipe_count p = 0")
  case True
  with assms show ?thesis
    by (auto simp: pipe_read_def pipe_inv_def pipe_bytes_def split: if_splits)
next
  case False
  define k where "k = (if count < pipe_count p then count else pipe_count p)"
  obtain bs rp where g: "ring_get (pipe_buffer p) (pipe_read_pos p) k = (bs, rp)" by fastforce
  have k: "k \<le> pipe_count p" by (simp add: k_def)
  have ok: "ring_ok (pipe_buffer p) (pipe_read_pos p) (pipe_write_pos p) (pipe_count p)"
    using assms(1) by (simp add: pipe_inv_def)
  note spec = ring_get_spec [OF ok k g]
  have tk: "take k (pipe_bytes p) = take count (pipe_bytes p)"
    "drop k (pipe_bytes p) = drop count (pipe_bytes p)" "length (take k (pipe_bytes p)) = k"
    using k by (auto simp: k_def)
  have ne: "pipe_bytes p \<noteq> []" using False length_pipe_bytes [of p] by fastforce
  have r: "r = Returns (int k, bs)" "q = p\<lparr>pipe_read_pos := rp, pipe_count := pipe_count p - k,
      pipe_blocked_writer := None\<rparr>"
    using assms(2) False g by (auto simp: pipe_read_def k_def [symmetric] Let_def)
  show ?thesis
    using spec tk ne assms(1) unfolding r by (simp add: pipe_inv_def pipe_bytes_def)
qed

lemma pipe_write_refines:
  assumes "pipe_inv p" "pipe_write (Some p) data s = (r, Some q, t)"
  shows "pipe_inv q \<and> pipe_writers q = pipe_writers p \<and> pipe_readers q = pipe_readers p \<and>
     (case r of
        Blocks \<Rightarrow> length (pipe_bytes p) = PIPE_BUF_SIZE \<and> pipe_bytes q = pipe_bytes p
      | Returns n \<Rightarrow>
          if pipe_readers p = 0 then n = -1 \<and> pipe_bytes q = pipe_bytes p
          else n = int (min (length data) (PIPE_BUF_SIZE - length (pipe_bytes p))) \<and>
               pipe_bytes q = pipe_bytes p @ take (nat n) data)"
proof (cases "pipe_readers p = 0 \<or> pipe_count p = PIPE_BUF_SIZE")
  case True
  with assms show ?thesis
    by (auto simp: pipe_write_def pipe_inv_def pipe_bytes_def split: if_splits)
next
  case False
  define k where "k = (if length data < PIPE_BUF_SIZE - pipe_count p then length data
                       else PIPE_BUF_SIZE - pipe_count p)"
  obtain buf wp where g: "ring_put (pipe_buffer p) (pipe_write_pos p) (take k data) = (buf, wp)"
    by fastforce
  have ok: "ring_ok (pipe_buffer p) (pipe_read_pos p) (pipe_write_pos p) (pipe_count p)"
    "length (pipe_buffer p) = PIPE_BUF_SIZE" "pipe_count p \<le> PIPE_BUF_SIZE"
    using assms(1) by (auto simp: pipe_inv_def ring_ok_def)
  have k: "length (take k data) = k" "pipe_count p + k \<le> PIPE_BUF_SIZE"
    "k = min (length data) (PIPE_BUF_SIZE - pipe_count p)"
    using ok by (auto simp: k_def)
  have spec: "length buf = PIPE_BUF_SIZE \<and> ring_ok buf (pipe_read_pos p) wp (pipe_count p + k) \<and>
      ring_list buf (pipe_read_pos p) (pipe_count p + k) = pipe_bytes p @ take k data"
    using ring_put_spec [OF ok(1) _ g] k ok by (simp add: pipe_bytes_def)
  have r: "r = Returns (int k)" "q = p\<lparr>pipe_buffer := buf, pipe_write_pos := wp,
      pipe_count := pipe_count p + k, pipe_blocked_reader := None\<rparr>"
    using assms(2) False g by (auto simp: pipe_write_def k_def [symmetric] Let_def)
  show ?thesis
    using spec False k(3) unfolding r by (simp add: pipe_inv_def pipe_bytes_def)
qed

section \<open>The pipe as a byte stream\<close>

text \<open>
  The pipe and the machine it runs on, as the two ends see it: a write reports how many bytes were
  accepted (none when the writer blocks or the pipe is broken), a read the bytes delivered.
\<close>

definition pipe_put :: "u8 list \<Rightarrow> pipe \<times> sched \<Rightarrow> nat \<times> pipe \<times> sched" where
  "pipe_put data ps =
     (case pipe_write (Some (fst ps)) data (snd ps) of
        (Returns n, Some q, t) \<Rightarrow> (nat n, q, t)
      | (Blocks, Some q, t) \<Rightarrow> (0, q, t)
      | (_, None, t) \<Rightarrow> (0, fst ps, t))"

definition pipe_get :: "nat \<Rightarrow> pipe \<times> sched \<Rightarrow> u8 list \<times> pipe \<times> sched" where
  "pipe_get count ps =
     (case pipe_read (Some (fst ps)) count (snd ps) of
        (Returns (n, bs), Some q, t) \<Rightarrow> (bs, q, t)
      | (Blocks, Some q, t) \<Rightarrow> ([], q, t)
      | (_, None, t) \<Rightarrow> ([], fst ps, t))"

lemma pipe_read_Some: "\<exists>r q t. pipe_read (Some p) count s = (r, Some q, t)"
  by (auto simp: pipe_read_def Let_def split: prod.split)

lemma pipe_write_Some: "\<exists>r q t. pipe_write (Some p) data s = (r, Some q, t)"
  by (auto simp: pipe_write_def Let_def split: prod.split)

lemma pipe_put_spec:
  assumes "pipe_inv p" "pipe_put data (p, s) = (n, q, t)"
  shows "pipe_inv q \<and> pipe_bytes q = pipe_bytes p @ take n data"
proof -
  obtain r q' t' where w: "pipe_write (Some p) data s = (r, Some q', t')"
    using pipe_write_Some by blast
  from pipe_write_refines [OF assms(1) w] assms(2) w show ?thesis
    by (cases r) (auto simp: pipe_put_def split: if_splits)
qed

lemma pipe_get_spec:
  assumes "pipe_inv p" "pipe_get k (p, s) = (bs, q, t)"
  shows "pipe_inv q \<and> pipe_bytes p = bs @ pipe_bytes q"
proof -
  obtain r q' t' where w: "pipe_read (Some p) k s = (r, Some q', t')"
    using pipe_read_Some by blast
  from pipe_read_refines [OF assms(1) w] assms(2) w show ?thesis
    by (cases r) (auto simp: pipe_get_def)
qed

interpretation pipe_stream:
  byte_stream "\<lambda>ps. pipe_inv (fst ps)" "\<lambda>ps. pipe_bytes (fst ps)" pipe_put pipe_get
  by unfold_locales (auto dest: pipe_put_spec pipe_get_spec)

section \<open>What a pipe guarantees\<close>

definition fresh_pipe :: pipe where
  "fresh_pipe = the (snd (pipe_create True))"

lemma fresh_pipe: "pipe_inv fresh_pipe" "pipe_bytes fresh_pipe = []"
  using pipe_create_inv [of True 0 fresh_pipe] by (simp_all add: fresh_pipe_def pipe_create_def)

text \<open>
  C4 (a pipe is a reliable byte stream). For every sequence of writes and reads on a freshly
  created pipe, with blocking and wake-ups of the processes at both ends, the bytes delivered
  followed by the bytes still in the buffer are exactly the bytes accepted: none is lost,
  duplicated or reordered, and the buffer never holds more than \<^verbatim>\<open>PIPE_BUF_SIZE\<close> bytes.
\<close>

theorem pipe_delivers_in_order:
  assumes "pipe_create ok = (0, Some p)"
    and "stream_run pipe_put pipe_get ops (p, s) = (acc, del, q, t)"
  shows "acc = del @ pipe_bytes q \<and> length (pipe_bytes q) \<le> PIPE_BUF_SIZE \<and> pipe_inv q"
proof -
  have p: "pipe_inv p" "pipe_bytes p = []" using pipe_create_inv [OF assms(1)] by simp_all
  have "pipe_inv q \<and> acc = del @ pipe_bytes q"
    using pipe_stream.stream_conserves [OF _ assms(2)] p by simp
  then show ?thesis by (auto simp: pipe_inv_def ring_ok_def)
qed

theorem pipe_delivers_in_order_witness:
  "\<exists>acc del q t. stream_run pipe_put pipe_get [Put [1, 2, 3], Get 2] (fresh_pipe, demo_sched) = (acc, del, q, t) \<and>
     acc = del @ pipe_bytes q"
proof -
  obtain acc del q t where
    run: "stream_run pipe_put pipe_get [Put [1, 2, 3], Get 2] (fresh_pipe, demo_sched) = (acc, del, q, t)"
    by (metis prod_cases4)
  have "pipe_create True = (0, Some fresh_pipe)" by (simp add: fresh_pipe_def pipe_create_def)
  from pipe_delivers_in_order [OF this run] run show ?thesis by blast
qed

text \<open>
  When a read blocks and what it returns: \<^verbatim>\<open>pipe_read\<close> blocks exactly when the pipe is empty
  and still has a writer, returns 0 (end of file) exactly when it is empty without writers (or 0
  bytes were asked for), and otherwise returns the oldest \<open>min count available\<close> bytes.
\<close>

theorem pipe_read_outcome:
  assumes "pipe_inv p" "pipe_read (Some p) count s = (r, Some q, t)"
  shows "(r = Blocks \<longleftrightarrow> pipe_bytes p = [] \<and> pipe_writers p \<noteq> 0) \<and>
         (r \<noteq> Blocks \<longrightarrow> r = Returns (int (min count (length (pipe_bytes p))), take count (pipe_bytes p))) \<and>
         pipe_bytes q = drop count (pipe_bytes p)"
  using pipe_read_refines [OF assms] by (cases r) auto

theorem pipe_read_outcome_witness:
  "\<exists>q t. pipe_read (Some (fresh_pipe\<lparr>pipe_writers := 0\<rparr>)) 5 demo_sched = (Returns (0, []), Some q, t)"
proof -
  obtain r q t where run: "pipe_read (Some (fresh_pipe\<lparr>pipe_writers := 0\<rparr>)) 5 demo_sched = (r, Some q, t)"
    using pipe_read_Some by blast
  have inv: "pipe_inv (fresh_pipe\<lparr>pipe_writers := 0\<rparr>)" "pipe_bytes (fresh_pipe\<lparr>pipe_writers := 0\<rparr>) = []"
    using fresh_pipe by (simp_all add: pipe_inv_def pipe_bytes_def)
  from pipe_read_outcome [OF inv(1) run] run inv(2) show ?thesis by auto
qed

lemma pipe_wake_linked:
  assumes "rq s (xs @ i # ys)" "ys \<noteq> []" "t = pipe_wake (Some i) s"
  shows "rq_seg (procs t) (ready_queue_head t) (xs @ [i]) None"
    and "\<forall>y\<in>set ys. y \<notin> set (xs @ [i]) \<and> p_state (procs t ! y) = PROCESS_READY"
proof -
  have "rq (set_state i PROCESS_READY s) (xs @ i # ys)"
  proof -
    have "set_state i PROCESS_READY s = s"
      unfolding set_state_def using assms(1) by (intro upd_proc_id) (auto simp: rq_def)
    with assms(1) show ?thesis by simp
  qed
  from scheduler_add_linked [OF this assms(2)] assms(3)
  show "rq_seg (procs t) (ready_queue_head t) (xs @ [i]) None"
    and "\<forall>y\<in>set ys. y \<notin> set (xs @ [i]) \<and> p_state (procs t ! y) = PROCESS_READY"
    by (simp_all add: pipe_wake_def)
qed



end
