(* ===== verification/Bytes.thy ===== *)
theory Bytes
  imports Prelude
begin

text \<open>
  Little-endian fields in byte buffers: what the source reads and writes when it casts a byte
  pointer to a pointer to an integer or to a packed structure. Reading is on a function from
  offsets to bytes, so that it serves memory, sectors and packets; \<open>at bs\<close> views a list as one.
\<close>

definition at :: "u8 list \<Rightarrow> nat \<Rightarrow> u8" where
  "at bs a = bs ! a"

definition le16 :: "(nat \<Rightarrow> u8) \<Rightarrow> nat \<Rightarrow> u16" where
  "le16 mb a = ucast (mb a) OR push_bit 8 (ucast (mb (a + 1)))"

definition le32 :: "(nat \<Rightarrow> u8) \<Rightarrow> nat \<Rightarrow> u32" where
  "le32 mb a = ucast (mb a) OR push_bit 8 (ucast (mb (a + 1))) OR
     push_bit 16 (ucast (mb (a + 2))) OR push_bit 24 (ucast (mb (a + 3)))"

definition le64 :: "(nat \<Rightarrow> u8) \<Rightarrow> nat \<Rightarrow> u64" where
  "le64 mb a = ucast (le32 mb a) OR push_bit 32 (ucast (le32 mb (a + 4)))"

definition enc16 :: "u16 \<Rightarrow> u8 list" where
  "enc16 w = [ucast w, ucast (drop_bit 8 w)]"

definition enc32 :: "u32 \<Rightarrow> u8 list" where
  "enc32 w = [ucast w, ucast (drop_bit 8 w), ucast (drop_bit 16 w), ucast (drop_bit 24 w)]"

definition enc64 :: "u64 \<Rightarrow> u8 list" where
  "enc64 w = enc32 (ucast w) @ enc32 (ucast (drop_bit 32 w))"

lemma length_enc [simp]: "length (enc16 v) = 2" "length (enc32 w) = 4" "length (enc64 x) = 8"
  by (simp_all add: enc16_def enc32_def enc64_def)

section \<open>Encoding and decoding are inverse\<close>

lemma join16: "ucast (ucast w :: u8) OR push_bit 8 (ucast (ucast (drop_bit 8 w) :: u8)) = w" for w :: u16
proof (rule bit_word_eqI)
  fix n assume n: "n < LENGTH(16)"
  show "bit (ucast (ucast w :: u8) OR push_bit 8 (ucast (ucast (drop_bit 8 w) :: u8)) :: u16) n = bit w n"
    using n by (cases "n < 8") (auto simp: bit_simps)
qed

lemma join32:
  "ucast (ucast w :: u8) OR push_bit 8 (ucast (ucast (drop_bit 8 w) :: u8)) OR
   push_bit 16 (ucast (ucast (drop_bit 16 w) :: u8)) OR
   push_bit 24 (ucast (ucast (drop_bit 24 w) :: u8)) = w" for w :: u32
proof (rule bit_word_eqI)
  fix n assume n: "n < LENGTH(32)"
  consider "n < 8" | "8 \<le> n" "n < 16" | "16 \<le> n" "n < 24" | "24 \<le> n" "n < 32"
    using n by fastforce
  then show "bit (ucast (ucast w :: u8) OR push_bit 8 (ucast (ucast (drop_bit 8 w) :: u8)) OR
     push_bit 16 (ucast (ucast (drop_bit 16 w) :: u8)) OR
     push_bit 24 (ucast (ucast (drop_bit 24 w) :: u8)) :: u32) n = bit w n"
    by cases (auto simp: bit_simps)
qed

lemma join64: "ucast (ucast w :: u32) OR push_bit 32 (ucast (ucast (drop_bit 32 w) :: u32)) = w" for w :: u64
proof (rule bit_word_eqI)
  fix n assume n: "n < LENGTH(64)"
  show "bit (ucast (ucast w :: u32) OR push_bit 32 (ucast (ucast (drop_bit 32 w) :: u32)) :: u64) n = bit w n"
    using n by (cases "n < 32") (auto simp: bit_simps)
qed

text \<open>Reading a field back out of a buffer it was encoded into.\<close>

lemma le16_enc: "length xs = a \<Longrightarrow> le16 (at (xs @ enc16 w @ ys)) a = w"
  using join16 [of w] by (simp add: le16_def at_def enc16_def nth_append)

lemma le32_enc: "length xs = a \<Longrightarrow> le32 (at (xs @ enc32 w @ ys)) a = w"
  using join32 [of w] by (simp add: le32_def at_def enc32_def nth_append)

lemma le32_at_append: "a + 4 \<le> length xs \<Longrightarrow> le32 (at (xs @ ys)) a = le32 (at xs) a"
  by (simp add: le32_def at_def nth_append)

lemma le32_at_skip: "length xs \<le> a \<Longrightarrow> le32 (at (xs @ ys)) a = le32 (at ys) (a - length xs)"
  by (simp add: le32_def at_def nth_append Suc_diff_le)

lemma le32_enc0 [simp]: "le32 (at (enc32 w @ ys)) 0 = w"
  using le32_enc [of "[]" 0 w ys] by simp

lemma le32_concat_enc:
  "i < length ws \<Longrightarrow> le32 (at (concat (map enc32 ws) @ ys)) (4 * i) = ws ! i"
proof (induction ws arbitrary: i)
  case Nil
  then show ?case by simp
next
  case (Cons w ws)
  show ?case
  proof (cases i)
    case 0
    then show ?thesis by simp
  next
    case (Suc k)
    with Cons show ?thesis by (simp add: le32_at_skip)
  qed
qed

lemma length_concat_enc32 [simp]: "length (concat (map enc32 ws)) = 4 * length ws"
  by (induction ws) auto

end
