(* ===== verification/Pool.thy ===== *)
theory Pool
  imports Main
begin

text \<open>
  The contract of an allocator of indivisible resources: physical page frames, swap slots, disk
  blocks, inodes, network buffers. An allocation hands out a free resource and takes it out of the
  free set, fails only when nothing is free, and a release puts a resource back. Each allocator of
  the model interprets this locale.
\<close>

fun alloc_many :: "('s \<Rightarrow> 'r option \<times> 's) \<Rightarrow> nat \<Rightarrow> 's \<Rightarrow> 'r list \<times> 's" where
  "alloc_many alloc 0 s = ([], s)"
| "alloc_many alloc (Suc n) s =
     (case alloc s of
        (None, t) \<Rightarrow> ([], t)
      | (Some r, t) \<Rightarrow> (let (rs, u) = alloc_many alloc n t in (r # rs, u)))"

locale resource_pool =
  fixes inv :: "'s \<Rightarrow> bool"
    and free :: "'s \<Rightarrow> 'r set"
    and alloc :: "'s \<Rightarrow> 'r option \<times> 's"
    and releasable :: "'r \<Rightarrow> 's \<Rightarrow> bool"
    and release :: "'r \<Rightarrow> 's \<Rightarrow> 's"
  assumes finite_free: "inv s \<Longrightarrow> finite (free s)"
    and alloc_Some: "inv s \<Longrightarrow> alloc s = (Some r, t) \<Longrightarrow> r \<in> free s \<and> free t = free s - {r} \<and> inv t"
    and alloc_None: "inv s \<Longrightarrow> alloc s = (None, t) \<Longrightarrow> free s = {} \<and> t = s"
    and release_inv: "inv s \<Longrightarrow> releasable r s \<Longrightarrow> inv (release r s)"
    and release_free: "inv s \<Longrightarrow> releasable r s \<Longrightarrow> free (release r s) = insert r (free s)"
begin

text \<open>
  Any number of allocations in a row hands out pairwise distinct resources, all of them free
  before, and serves as many requests as there are free resources.
\<close>

lemma alloc_many_distinct:
  "inv s \<Longrightarrow> alloc_many alloc n s = (rs, t) \<Longrightarrow>
   distinct rs \<and> set rs \<subseteq> free s \<and> free t = free s - set rs \<and>
   length rs = min n (card (free s)) \<and> inv t"
proof (induction n arbitrary: s rs)
  case 0
  then show ?case by simp
next
  case (Suc n)
  show ?case
  proof (cases "fst (alloc s)")
    case None
    then obtain u where u: "alloc s = (None, u)" by (cases "alloc s") auto
    from alloc_None [OF Suc.prems(1) u] Suc.prems u show ?thesis by simp
  next
    case (Some r)
    then obtain u where u: "alloc s = (Some r, u)" by (cases "alloc s") auto
    note step = alloc_Some [OF Suc.prems(1) u]
    obtain qs where qs: "alloc_many alloc n u = (qs, t)" "rs = r # qs"
      using Suc.prems(2) u by (auto split: prod.splits)
    have IH: "distinct qs \<and> set qs \<subseteq> free u \<and> free t = free u - set qs \<and>
              length qs = min n (card (free u)) \<and> inv t"
      using Suc.IH [OF _ qs(1)] step by blast
    have "card (free u) = card (free s) - 1" "card (free s) > 0"
      using step finite_free [OF Suc.prems(1)] by (auto simp: card_gt_0_iff)
    with IH step qs(2) show ?thesis by auto
  qed
qed

lemma alloc_succeeds: "inv s \<Longrightarrow> free s \<noteq> {} \<Longrightarrow> \<exists>r t. alloc s = (Some r, t)"
  by (metis alloc_None option.exhaust prod.exhaust)

lemma release_then_alloc: "inv s \<Longrightarrow> releasable r s \<Longrightarrow> \<exists>q t. alloc (release r s) = (Some q, t)"
  by (rule alloc_succeeds) (auto simp: release_inv release_free)

end

end
