(* ===== verification/Pmm.thy ===== *)
theory Pmm
  imports Bytes Pool
begin

text \<open>
  The physical memory manager (\<^verbatim>\<open>kernel/memory/pmm.c\<close>): a bitmap with one bit per page frame, a
  byte of reference count per frame for copy-on-write, and a next-fit hint. Page numbers and
  physical addresses are \<open>nat\<close>s; the bitmap bytes, the reference counts and the counter of free
  pages keep their machine width. \<^verbatim>\<open>pmm_init\<close> walks the Multiboot2 tags byte by byte; since a tag
  of size 0 makes that loop run forever, the walk is a partial function.
\<close>

definition PAGE_SIZE :: nat where "PAGE_SIZE = 4096"
definition SWAP_LOW_WATERMARK :: u64 where "SWAP_LOW_WATERMARK = 32"

record pmm =
  bitmap :: "u8 list"
  total_pages :: nat
  free_pages :: u64
  max_phys_addr :: nat
  alloc_hint :: nat
  page_refcount :: "u8 list"
  kernel_page_limit :: nat

section \<open>The bitmap\<close>

definition bitmap_set :: "nat \<Rightarrow> u8 list \<Rightarrow> u8 list" where
  "bitmap_set page bm = bm[page div 8 := bm ! (page div 8) OR push_bit (page mod 8) 1]"

definition bitmap_clear :: "nat \<Rightarrow> u8 list \<Rightarrow> u8 list" where
  "bitmap_clear page bm = bm[page div 8 := bm ! (page div 8) AND NOT (push_bit (page mod 8) 1)]"

definition bitmap_test :: "u8 list \<Rightarrow> nat \<Rightarrow> bool" where
  "bitmap_test bm page \<longleftrightarrow> bm ! (page div 8) AND push_bit (page mod 8) 1 \<noteq> 0"

section \<open>Reading the Multiboot2 memory map\<close>

text \<open>\<open>mb\<close> gives the bytes of the boot information from its start.\<close>

record mb2_mmap_entry =
  base_addr :: u64
  mmap_length :: u64
  mmap_type :: u32

definition mb2_entry_at :: "(nat \<Rightarrow> u8) \<Rightarrow> nat \<Rightarrow> mb2_mmap_entry" where
  "mb2_entry_at mb a =
     \<lparr>base_addr = le64 mb a, mmap_length = le64 mb (a + 8), mmap_type = le32 mb (a + 16)\<rparr>"

partial_function (option) mb2_entries ::
  "(nat \<Rightarrow> u8) \<Rightarrow> nat \<Rightarrow> nat \<Rightarrow> nat \<Rightarrow> mb2_mmap_entry list option" where
  "mb2_entries mb entry_ptr entries_end entry_size =
     (if entry_ptr < entries_end
      then Option.bind (mb2_entries mb (entry_ptr + entry_size) entries_end entry_size)
             (\<lambda>rest. Some (mb2_entry_at mb entry_ptr # rest))
      else Some [])"

definition mb2_tag_step :: "u32 \<Rightarrow> nat" where
  "mb2_tag_step sz = unat ((sz + 7) AND NOT 7)"

partial_function (option) mb2_walk ::
  "(nat \<Rightarrow> u8) \<Rightarrow> nat \<Rightarrow> nat \<Rightarrow> mb2_mmap_entry list option" where
  "mb2_walk mb tag_ptr mb_end =
     (if tag_ptr < mb_end then
        (if le32 mb tag_ptr = 0 then Some []
         else
           Option.bind
             (if le32 mb tag_ptr = 6
              then mb2_entries mb (tag_ptr + 16) (tag_ptr + unat (le32 mb (tag_ptr + 4)))
                     (unat (le32 mb (tag_ptr + 8)))
              else Some [])
             (\<lambda>es. Option.bind
                (mb2_walk mb (tag_ptr + mb2_tag_step (le32 mb (tag_ptr + 4))) mb_end)
                (\<lambda>rest. Some (es @ rest))))
      else Some [])"

section \<open>Initialisation\<close>

definition max_end :: "mb2_mmap_entry list \<Rightarrow> nat" where
  "max_end es = foldl (\<lambda>m e. let end = unat (base_addr e + mmap_length e) in if end > m then end else m) 0 es"

definition free_one :: "nat \<Rightarrow> pmm \<Rightarrow> pmm" where
  "free_one page s =
     (if bitmap_test (bitmap s) page
      then s\<lparr>bitmap := bitmap_clear page (bitmap s), free_pages := free_pages s + 1\<rparr> else s)"

definition reserve_one :: "nat \<Rightarrow> pmm \<Rightarrow> pmm" where
  "reserve_one page s =
     (if \<not> bitmap_test (bitmap s) page
      then s\<lparr>bitmap := bitmap_set page (bitmap s), free_pages := free_pages s - 1\<rparr> else s)"

function page_loop :: "(nat \<Rightarrow> 'a \<Rightarrow> 'a) \<Rightarrow> nat \<Rightarrow> nat \<Rightarrow> 'a \<Rightarrow> 'a" where
  "page_loop f addr lim s =
     (if addr < lim then page_loop f (addr + PAGE_SIZE) lim (f (addr div PAGE_SIZE) s) else s)"
  by pat_completeness auto
termination
  by (relation "measure (\<lambda>(f, addr, lim, s). lim - addr)") (auto simp: PAGE_SIZE_def)

declare page_loop.simps [simp del]

definition free_region :: "mb2_mmap_entry \<Rightarrow> pmm \<Rightarrow> pmm" where
  "free_region e s =
     (if mmap_type e = 1 then
        (let base = (base_addr e + 4095) AND NOT 4095;
             end = (base_addr e + mmap_length e) AND NOT 4095
         in page_loop free_one (unat base) (min (unat end) (max_phys_addr s)) s)
      else s)"

definition page_align_up :: "nat \<Rightarrow> nat" where
  "page_align_up a = (a + PAGE_SIZE - 1) div PAGE_SIZE * PAGE_SIZE"

text \<open>The bytes from the page-aligned end of the kernel image hold the bitmap and the counts.\<close>

definition pmm_reserve_end :: "nat \<Rightarrow> nat \<Rightarrow> nat" where
  "pmm_reserve_end kernel_phys_end npages =
     page_align_up (page_align_up (page_align_up kernel_phys_end + (npages + 7) div 8) + npages)"

definition pmm_setup :: "nat \<Rightarrow> mb2_mmap_entry list \<Rightarrow> pmm \<Rightarrow> pmm" where
  "pmm_setup kernel_phys_end es s =
     (let mx = (if max_end es > 512 * 1024 * 1024 then 512 * 1024 * 1024 else max_end es);
          npages = mx div PAGE_SIZE;
          s1 = s\<lparr>max_phys_addr := mx, total_pages := npages,
                 bitmap := replicate ((npages + 7) div 8) 0xFF,
                 page_refcount := replicate npages 0, free_pages := 0\<rparr>;
          s2 = foldl (\<lambda>s e. free_region e s) s1 es;
          s3 = page_loop reserve_one 0 0x100000 s2
      in page_loop reserve_one 0x100000 (pmm_reserve_end kernel_phys_end npages) s3)"

definition pmm_init :: "nat \<Rightarrow> (nat \<Rightarrow> u8) \<Rightarrow> pmm \<Rightarrow> pmm option" where
  "pmm_init kernel_phys_end mb s =
     Option.bind (mb2_walk mb 8 (unat (le32 mb 0))) (\<lambda>es. Some (pmm_setup kernel_phys_end es s))"

section \<open>Allocation and reference counts\<close>

definition pmm_scan :: "pmm \<Rightarrow> nat option" where
  "pmm_scan s = find (\<lambda>i. \<not> bitmap_test (bitmap s) i)
     (map (\<lambda>j. (alloc_hint s + j) mod total_pages s) [0..<total_pages s])"

text \<open>The scan of \<^verbatim>\<open>pmm_alloc_page\<close>, after the eviction of pages to swap; 0 is "out of memory".\<close>

definition pmm_alloc_scan :: "pmm \<Rightarrow> nat \<times> pmm" where
  "pmm_alloc_scan s =
     (case pmm_scan s of
        None \<Rightarrow> (0, s)
      | Some i \<Rightarrow>
          (i * PAGE_SIZE,
           s\<lparr>bitmap := bitmap_set i (bitmap s), free_pages := free_pages s - 1,
             page_refcount := (page_refcount s)[i := 1], alloc_hint := i + 1\<rparr>))"

definition pmm_free_page :: "nat \<Rightarrow> pmm \<Rightarrow> pmm" where
  "pmm_free_page phys s =
     (let page = phys div PAGE_SIZE in
      if page < total_pages s \<and> bitmap_test (bitmap s) page then
        (if kernel_page_limit s \<noteq> 0 \<and> page < kernel_page_limit s then s
         else s\<lparr>bitmap := bitmap_clear page (bitmap s),
                page_refcount := (page_refcount s)[page := 0], free_pages := free_pages s + 1\<rparr>)
      else s)"

definition pmm_set_kernel_end :: "pmm \<Rightarrow> pmm" where
  "pmm_set_kernel_end s =
     (case find (\<lambda>i. \<not> bitmap_test (bitmap s) i) [0..<total_pages s] of
        Some i \<Rightarrow> s\<lparr>kernel_page_limit := i\<rparr>
      | None \<Rightarrow> s\<lparr>kernel_page_limit := total_pages s\<rparr>)"

definition pmm_page_ref :: "nat \<Rightarrow> pmm \<Rightarrow> pmm" where
  "pmm_page_ref phys s =
     (let page = phys div PAGE_SIZE in
      if page < total_pages s \<and> page_refcount s ! page < 255
      then s\<lparr>page_refcount := (page_refcount s)[page := page_refcount s ! page + 1]\<rparr> else s)"

definition pmm_page_unref :: "nat \<Rightarrow> pmm \<Rightarrow> pmm" where
  "pmm_page_unref phys s =
     (let page = phys div PAGE_SIZE in
      if page < total_pages s \<and> page_refcount s ! page > 0 then
        (let s1 = s\<lparr>page_refcount := (page_refcount s)[page := page_refcount s ! page - 1]\<rparr> in
         if page_refcount s1 ! page = 0 then
           (if kernel_page_limit s1 \<noteq> 0 \<and> page < kernel_page_limit s1 then s1
            else s1\<lparr>bitmap := bitmap_clear page (bitmap s1), free_pages := free_pages s1 + 1\<rparr>)
         else s1)
      else s)"

definition pmm_page_refcount :: "nat \<Rightarrow> pmm \<Rightarrow> u8" where
  "pmm_page_refcount phys s =
     (if phys div PAGE_SIZE < total_pages s then page_refcount s ! (phys div PAGE_SIZE) else 0)"

section \<open>Facts about the bitmap\<close>

lemma bitmap_test_bit: "bitmap_test bm p = bit (bm ! (p div 8)) (p mod 8)"
  by (simp add: bitmap_test_def bit_iff_and_push_bit_not_eq_0)

lemma length_bitmap_set [simp]: "length (bitmap_set p bm) = length bm"
  by (simp add: bitmap_set_def)

lemma length_bitmap_clear [simp]: "length (bitmap_clear p bm) = length bm"
  by (simp add: bitmap_clear_def)

lemma div_mod_8_eq: "p div 8 = q div 8 \<Longrightarrow> p mod 8 = q mod 8 \<Longrightarrow> p = q" for p q :: nat
  by (metis div_mult_mod_eq)

lemma bit_set8: "k < 8 \<Longrightarrow> bit (w OR 2 ^ k) j \<longleftrightarrow> bit w j \<or> j = k" for w :: u8
  by (auto simp: bit_simps)

lemma bit_clear8: "bit (w AND NOT (2 ^ k)) j \<longleftrightarrow> bit w j \<and> j \<noteq> k" for w :: u8
  by (auto simp: bit_simps dest: bit_imp_le_length)

lemma bitmap_test_set:
  "p < 8 * length bm \<Longrightarrow> bitmap_test (bitmap_set p bm) q \<longleftrightarrow> bitmap_test bm q \<or> q = p"
  by (cases "p div 8 = q div 8")
    (auto simp: bitmap_test_bit bitmap_set_def bit_set8 less_mult_imp_div_less mult.commute dest: div_mod_8_eq)

lemma bitmap_test_clear:
  "p < 8 * length bm \<Longrightarrow> bitmap_test (bitmap_clear p bm) q \<longleftrightarrow> bitmap_test bm q \<and> q \<noteq> p"
  by (cases "p div 8 = q div 8")
    (auto simp: bitmap_test_bit bitmap_clear_def bit_clear8 less_mult_imp_div_less mult.commute dest: div_mod_8_eq)

lemma bitmap_test_full: "p < 8 * n \<Longrightarrow> bitmap_test (replicate n 0xFF) p"
proof -
  assume p: "p < 8 * n"
  have "bit (0xFF :: u8) k" if "k < 8" for k
  proof -
    have "(0xFF :: u8) = - 1" by simp
    then show ?thesis using that by (simp only: bit_minus_1_iff) simp
  qed
  with p show ?thesis by (simp add: bitmap_test_bit less_mult_imp_div_less mult.commute)
qed

section \<open>The invariant\<close>

definition free_frames :: "pmm \<Rightarrow> nat set" where
  "free_frames s = {p. p < total_pages s \<and> \<not> bitmap_test (bitmap s) p}"

text \<open>
  The counter counts the clear bits, a frame with references is marked used, frame 0 is reserved
  (0 is the error value of the allocator).
\<close>

definition pmm_inv :: "pmm \<Rightarrow> bool" where
  "pmm_inv s \<longleftrightarrow> length (bitmap s) = (total_pages s + 7) div 8 \<and>
     length (page_refcount s) = total_pages s \<and>
     free_pages s = of_nat (card (free_frames s)) \<and>
     (\<forall>p<total_pages s. page_refcount s ! p > 0 \<longrightarrow> bitmap_test (bitmap s) p) \<and>
     bitmap_test (bitmap s) 0"

lemma finite_free_frames [simp]: "finite (free_frames s)"
  by (simp add: free_frames_def)

lemma pmm_inv_range: "pmm_inv s \<Longrightarrow> p < total_pages s \<Longrightarrow> p < 8 * length (bitmap s)"
  by (auto simp: pmm_inv_def)

lemma card_insert_word: "finite A \<Longrightarrow> x \<notin> A \<Longrightarrow> of_nat (card (insert x A)) = (of_nat (card A) + 1 :: u64)"
  by simp

lemma card_remove_word:
  "finite A \<Longrightarrow> x \<in> A \<Longrightarrow> of_nat (card A - Suc 0) = (of_nat (card A) - 1 :: u64)"
  by (metis add_diff_cancel_left' card.remove card_Diff_singleton One_nat_def of_nat_Suc)

lemma free_frames_set:
  "pmm_inv s \<Longrightarrow> p < total_pages s \<Longrightarrow>
   free_frames (s\<lparr>bitmap := bitmap_set p (bitmap s)\<rparr>) = free_frames s - {p}"
  by (auto simp: free_frames_def bitmap_test_set pmm_inv_range)

lemma free_frames_clear:
  "pmm_inv s \<Longrightarrow> p < total_pages s \<Longrightarrow>
   free_frames (s\<lparr>bitmap := bitmap_clear p (bitmap s)\<rparr>) = insert p (free_frames s)"
  by (auto simp: free_frames_def bitmap_test_clear pmm_inv_range)

lemma free_frames_cong [simp]:
  "free_frames (s\<lparr>free_pages := a\<rparr>) = free_frames s"
  "free_frames (s\<lparr>page_refcount := b\<rparr>) = free_frames s"
  "free_frames (s\<lparr>alloc_hint := c\<rparr>) = free_frames s"
  "free_frames (s\<lparr>kernel_page_limit := d\<rparr>) = free_frames s"
  by (simp_all add: free_frames_def)

section \<open>Allocation\<close>

text \<open>The next-fit scan visits every frame once, so it finds a free one whenever there is one.\<close>

lemma scan_range: "set (map (\<lambda>j. (h + j) mod n) [0..<n]) = {..<n}" for n :: nat
proof (cases "n = 0")
  case False
  have "k \<in> (\<lambda>j. (h + j) mod n) ` {0..<n}" if "k < n" for k
  proof
    show "k = (h + (k + (n - h mod n)) mod n) mod n"
    proof -
      have "(h + (k + (n - h mod n)) mod n) mod n = (h mod n + (k + (n - h mod n))) mod n"
        by (simp add: mod_simps)
      also have "h mod n + (k + (n - h mod n)) = k + n"
        using mod_less_divisor [of n h] False by linarith
      finally show ?thesis using that by simp
    qed
  qed (use False in auto)
  then show ?thesis using False by auto
qed simp

lemma pmm_scan_Some: "pmm_scan s = Some i \<Longrightarrow> i \<in> free_frames s"
proof -
  assume "pmm_scan s = Some i"
  then have "i \<in> set (map (\<lambda>j. (alloc_hint s + j) mod total_pages s) [0..<total_pages s])"
    and "\<not> bitmap_test (bitmap s) i"
    unfolding pmm_scan_def find_Some_iff by (metis nth_mem)+
  then show ?thesis unfolding scan_range by (simp add: free_frames_def)
qed

lemma pmm_scan_None: "pmm_scan s = None \<longleftrightarrow> free_frames s = {}"
proof -
  have "pmm_scan s = None \<longleftrightarrow>
        (\<forall>i\<in>set (map (\<lambda>j. (alloc_hint s + j) mod total_pages s) [0..<total_pages s]). bitmap_test (bitmap s) i)"
    unfolding pmm_scan_def find_None_iff by blast
  also have "\<dots> \<longleftrightarrow> (\<forall>i<total_pages s. bitmap_test (bitmap s) i)"
    unfolding scan_range by auto
  finally show ?thesis by (auto simp: free_frames_def)
qed

lemma pmm_alloc_scan_inv:
  assumes "pmm_inv s" "pmm_alloc_scan s = (phys, t)"
  shows "pmm_inv t"
proof (cases "pmm_scan s")
  case None
  with assms show ?thesis by (simp add: pmm_alloc_scan_def)
next
  case (Some i)
  then have i: "i < total_pages s" "i \<in> free_frames s"
    using pmm_scan_Some by (auto simp: free_frames_def)
  have t: "t = s\<lparr>bitmap := bitmap_set i (bitmap s), free_pages := free_pages s - 1,
             page_refcount := (page_refcount s)[i := 1], alloc_hint := i + 1\<rparr>"
    using assms(2) Some by (simp add: pmm_alloc_scan_def)
  have "free_frames t = free_frames s - {i}"
    using free_frames_set [OF assms(1) i(1)] by (simp add: t free_frames_def)
  with assms(1) i pmm_inv_range [OF assms(1) i(1)] show ?thesis
    unfolding pmm_inv_def
    by (auto simp: t bitmap_test_set nth_list_update card_remove_word [symmetric])
qed

lemma pmm_alloc_scan_frames:
  assumes "pmm_inv s" "pmm_alloc_scan s = (phys, t)"
  shows "if phys = 0 then free_frames s = {} \<and> t = s
         else phys mod PAGE_SIZE = 0 \<and> phys div PAGE_SIZE \<in> free_frames s \<and>
              free_frames t = free_frames s - {phys div PAGE_SIZE} \<and>
              page_refcount t = (page_refcount s)[phys div PAGE_SIZE := 1]"
proof (cases "pmm_scan s")
  case None
  with assms pmm_scan_None [of s] show ?thesis by (auto simp: pmm_alloc_scan_def)
next
  case (Some i)
  then have i: "i < total_pages s" "i \<in> free_frames s" "i \<noteq> 0"
    using pmm_scan_Some [of s i] assms(1) by (cases "i = 0"; auto simp: free_frames_def pmm_inv_def)+
  have t: "phys = i * PAGE_SIZE" "t = s\<lparr>bitmap := bitmap_set i (bitmap s), free_pages := free_pages s - 1,
             page_refcount := (page_refcount s)[i := 1], alloc_hint := i + 1\<rparr>"
    using assms(2) Some by (simp_all add: pmm_alloc_scan_def)
  have "free_frames t = free_frames s - {i}"
    using free_frames_set [OF assms(1) i(1)] by (simp add: t free_frames_def)
  with i t show ?thesis by (simp add: PAGE_SIZE_def)
qed

section \<open>Release and reference counts\<close>

lemma pmm_free_page_inv: "pmm_inv s \<Longrightarrow> phys \<ge> PAGE_SIZE \<Longrightarrow> pmm_inv (pmm_free_page phys s)"
proof -
  assume inv: "pmm_inv s" and nz: "phys \<ge> PAGE_SIZE"
  let ?p = "phys div PAGE_SIZE"
  let ?t = "s\<lparr>bitmap := bitmap_clear ?p (bitmap s), page_refcount := (page_refcount s)[?p := 0],
              free_pages := free_pages s + 1\<rparr>"
  have p0: "?p \<noteq> 0" using nz by (simp add: PAGE_SIZE_def div_greater_zero_iff)
  have "pmm_inv ?t" if p: "?p < total_pages s" "bitmap_test (bitmap s) ?p"
  proof -
    have "free_frames ?t = insert ?p (free_frames s)"
      using free_frames_clear [OF inv p(1)] by (simp add: free_frames_def)
    moreover have "?p \<notin> free_frames s" using p by (simp add: free_frames_def)
    ultimately show ?thesis
      using inv p p0 pmm_inv_range [OF inv p(1)] unfolding pmm_inv_def
      by (auto simp: bitmap_test_clear nth_list_update)
  qed
  with inv show ?thesis by (simp add: pmm_free_page_def Let_def)
qed

lemma pmm_page_ref_inv:
  "pmm_inv s \<Longrightarrow> bitmap_test (bitmap s) (phys div PAGE_SIZE) \<Longrightarrow> pmm_inv (pmm_page_ref phys s)"
  unfolding pmm_inv_def pmm_page_ref_def
  by (auto simp: Let_def nth_list_update free_frames_def)

lemma pmm_page_unref_inv:
  assumes "pmm_inv s" "phys \<ge> PAGE_SIZE"
  shows "pmm_inv (pmm_page_unref phys s)"
proof -
  let ?p = "phys div PAGE_SIZE"
  have p0: "?p \<noteq> 0" using assms(2) by (simp add: PAGE_SIZE_def div_greater_zero_iff)
  let ?s1 = "s\<lparr>page_refcount := (page_refcount s)[?p := page_refcount s ! ?p - 1]\<rparr>"
  show ?thesis
  proof (cases "?p < total_pages s \<and> page_refcount s ! ?p > 0")
    case False
    with assms(1) show ?thesis by (auto simp: pmm_page_unref_def Let_def)
  next
    case True
    then have used: "bitmap_test (bitmap s) ?p" using assms(1) by (simp add: pmm_inv_def)
    have inv1: "pmm_inv ?s1"
      using assms(1) used True by (auto simp: pmm_inv_def free_frames_def nth_list_update)
    let ?t = "?s1\<lparr>bitmap := bitmap_clear ?p (bitmap ?s1), free_pages := free_pages ?s1 + 1\<rparr>"
    have "pmm_inv ?t" if z: "page_refcount ?s1 ! ?p = 0"
    proof -
      have "free_frames ?t = insert ?p (free_frames ?s1)"
        using free_frames_clear [OF inv1, of ?p] True by (simp add: free_frames_def)
      moreover have "?p \<notin> free_frames ?s1" using used by (simp add: free_frames_def)
      ultimately show ?thesis
        using inv1 True p0 z pmm_inv_range [OF inv1, of ?p] unfolding pmm_inv_def
        by (auto simp: bitmap_test_clear nth_list_update)
    qed
    with inv1 True show ?thesis by (simp add: pmm_page_unref_def Let_def)
  qed
qed

lemma pmm_set_kernel_end_inv: "pmm_inv s \<Longrightarrow> pmm_inv (pmm_set_kernel_end s)"
  by (auto simp: pmm_set_kernel_end_def pmm_inv_def split: option.split)

section \<open>Initialisation\<close>

text \<open>The address loop visits the frames whose start lies below the limit, in order.\<close>

lemma page_loop_fold:
  "page_loop f (k * PAGE_SIZE) lim s = foldl (\<lambda>s p. f p s) s [k..<(lim + (PAGE_SIZE - 1)) div PAGE_SIZE]"
proof (induction "lim - k * PAGE_SIZE" arbitrary: k s rule: less_induct)
  case less
  have bound: "k * PAGE_SIZE < lim \<longleftrightarrow> k < (lim + (PAGE_SIZE - 1)) div PAGE_SIZE"
    using less_eq_div_iff_mult_less_eq [of PAGE_SIZE "Suc k" "lim + (PAGE_SIZE - 1)"]
    by (auto simp: PAGE_SIZE_def Suc_le_eq)
  show ?case
  proof (cases "k * PAGE_SIZE < lim")
    case True
    have "page_loop f (k * PAGE_SIZE) lim s = page_loop f (Suc k * PAGE_SIZE) lim (f k s)"
      using True by (subst page_loop.simps) (simp add: PAGE_SIZE_def algebra_simps)
    also have "\<dots> = foldl (\<lambda>s p. f p s) (f k s) [Suc k..<(lim + (PAGE_SIZE - 1)) div PAGE_SIZE]"
      by (rule less) (use True in \<open>simp add: PAGE_SIZE_def\<close>)
    finally show ?thesis using True bound by (simp add: upt_conv_Cons)
  next
    case False
    with bound show ?thesis by (subst page_loop.simps) simp
  qed
qed

text \<open>The invariant while the map is read: frame 0 is not yet reserved, no frame has references.\<close>

definition boot_inv :: "pmm \<Rightarrow> bool" where
  "boot_inv s \<longleftrightarrow> length (bitmap s) = (total_pages s + 7) div 8 \<and>
     page_refcount s = replicate (total_pages s) 0 \<and>
     free_pages s = of_nat (card (free_frames s))"

lemma boot_range: "boot_inv s \<Longrightarrow> p < total_pages s \<Longrightarrow> p < 8 * length (bitmap s)"
  by (auto simp: boot_inv_def)

lemma free_one_boot:
  assumes "boot_inv s" "p < total_pages s"
  shows "boot_inv (free_one p s) \<and> free_frames (free_one p s) = insert p (free_frames s) \<and>
         total_pages (free_one p s) = total_pages s \<and> max_phys_addr (free_one p s) = max_phys_addr s"
proof (cases "bitmap_test (bitmap s) p")
  case True
  then have f: "free_frames (free_one p s) = insert p (free_frames s)"
    using assms boot_range by (auto simp: free_one_def free_frames_def bitmap_test_clear)
  moreover have "p \<notin> free_frames s" using True by (simp add: free_frames_def)
  ultimately show ?thesis
    using assms True by (auto simp: boot_inv_def free_one_def)
next
  case False
  then have "p \<in> free_frames s" using assms by (simp add: free_frames_def)
  with False assms show ?thesis by (auto simp: free_one_def)
qed

lemma reserve_one_boot:
  assumes "boot_inv s" "p < total_pages s"
  shows "boot_inv (reserve_one p s) \<and> free_frames (reserve_one p s) = free_frames s - {p} \<and>
         total_pages (reserve_one p s) = total_pages s"
proof (cases "bitmap_test (bitmap s) p")
  case False
  then have f: "free_frames (reserve_one p s) = free_frames s - {p}"
    using assms boot_range by (auto simp: reserve_one_def free_frames_def bitmap_test_set)
  moreover have p: "p \<in> free_frames s" using False assms by (simp add: free_frames_def)
  ultimately show ?thesis
    using assms False card_remove_word [OF _ p] by (auto simp: boot_inv_def reserve_one_def)
next
  case True
  then have "p \<notin> free_frames s" by (simp add: free_frames_def)
  with True assms show ?thesis by (auto simp: reserve_one_def)
qed

lemma free_list_boot:
  "boot_inv s \<Longrightarrow> \<forall>p\<in>set ps. p < total_pages s \<Longrightarrow>
   boot_inv (foldl (\<lambda>s p. free_one p s) s ps) \<and>
   free_frames (foldl (\<lambda>s p. free_one p s) s ps) = free_frames s \<union> set ps \<and>
   total_pages (foldl (\<lambda>s p. free_one p s) s ps) = total_pages s \<and>
   max_phys_addr (foldl (\<lambda>s p. free_one p s) s ps) = max_phys_addr s"
  by (induction ps arbitrary: s) (auto simp: free_one_boot)

lemma reserve_list_boot:
  "boot_inv s \<Longrightarrow> \<forall>p\<in>set ps. p < total_pages s \<Longrightarrow>
   boot_inv (foldl (\<lambda>s p. reserve_one p s) s ps) \<and>
   free_frames (foldl (\<lambda>s p. reserve_one p s) s ps) = free_frames s - set ps \<and>
   total_pages (foldl (\<lambda>s p. reserve_one p s) s ps) = total_pages s"
  by (induction ps arbitrary: s) (auto simp: reserve_one_boot)

lemma max_end_upper: "e \<in> set es \<Longrightarrow> unat (base_addr e + mmap_length e) \<le> max_end es"
proof -
  have mono: "m \<le> foldl (\<lambda>m e. let end = unat (base_addr e + mmap_length e) in if end > m then end else m) m es"
    for m es by (induction es arbitrary: m) (auto simp: Let_def intro: order_trans [OF less_imp_le])
  have "e \<in> set es \<Longrightarrow> unat (base_addr e + mmap_length e)
      \<le> foldl (\<lambda>m e. let end = unat (base_addr e + mmap_length e) in if end > m then end else m) m es" for m
  proof (induction es arbitrary: m)
    case (Cons a es)
    show ?case
    proof (cases "e = a")
      case True
      with mono [of "if unat (base_addr a + mmap_length a) > m then unat (base_addr a + mmap_length a) else m" es]
      show ?thesis by (auto simp: Let_def split: if_splits intro: order_trans)
    next
      case False
      with Cons show ?thesis by (simp add: Let_def)
    qed
  qed simp
  then show "e \<in> set es \<Longrightarrow> unat (base_addr e + mmap_length e) \<le> max_end es"
    unfolding max_end_def .
qed

text \<open>The frames an entry of the memory map makes available: those that lie entirely inside it.\<close>

definition region_frames :: "mb2_mmap_entry \<Rightarrow> nat \<Rightarrow> nat set" where
  "region_frames e mx = {p. mmap_type e = 1 \<and> unat (base_addr e) \<le> p * PAGE_SIZE \<and>
     Suc p * PAGE_SIZE \<le> unat (base_addr e) + unat (mmap_length e) \<and> p * PAGE_SIZE < mx}"

definition entry_ok :: "mb2_mmap_entry \<Rightarrow> bool" where
  "entry_ok e \<longleftrightarrow> unat (base_addr e) + unat (mmap_length e) + PAGE_SIZE < 2 ^ 64"

lemma entry_rounding:
  assumes "entry_ok e"
  shows "unat ((base_addr e + 4095) AND NOT 4095) = (unat (base_addr e) + 4095) div PAGE_SIZE * PAGE_SIZE"
    and "unat ((base_addr e + mmap_length e) AND NOT 4095)
         = (unat (base_addr e) + unat (mmap_length e)) div PAGE_SIZE * PAGE_SIZE"
    and "unat (base_addr e + mmap_length e) = unat (base_addr e) + unat (mmap_length e)"
proof -
  have nw: "unat (base_addr e) + unat (mmap_length e) < 2 ^ 64" "unat (base_addr e) + 4095 < 2 ^ 64"
    using assms by (simp_all add: entry_ok_def PAGE_SIZE_def)
  show sum: "unat (base_addr e + mmap_length e) = unat (base_addr e) + unat (mmap_length e)"
    using nw by (simp add: unat_word_ariths)
  show "unat ((base_addr e + 4095) AND NOT 4095) = (unat (base_addr e) + 4095) div PAGE_SIZE * PAGE_SIZE"
    unfolding PAGE_SIZE_def using nw(2) by (rule unat_align_up)
  show "unat ((base_addr e + mmap_length e) AND NOT 4095)
         = (unat (base_addr e) + unat (mmap_length e)) div PAGE_SIZE * PAGE_SIZE"
    unfolding unat_align_down sum PAGE_SIZE_def ..
qed

lemma ceil_le_iff: "0 < q \<Longrightarrow> (a + (q - 1)) div q \<le> p \<longleftrightarrow> a \<le> p * q" for a p q :: nat
  using less_eq_div_iff_mult_less_eq [of q "Suc p" "a + (q - 1)"] by (auto simp: not_less_eq_eq [symmetric])

lemma region_range:
  assumes "entry_ok e" "mmap_type e = 1"
  shows "set [(unat (base_addr e) + 4095) div PAGE_SIZE..<
              (min ((unat (base_addr e) + unat (mmap_length e)) div PAGE_SIZE * PAGE_SIZE) mx + (PAGE_SIZE - 1)) div PAGE_SIZE]
         = region_frames e mx"
proof -
  let ?b = "unat (base_addr e)" and ?e = "unat (base_addr e) + unat (mmap_length e)"
  have lo: "(?b + 4095) div PAGE_SIZE \<le> p \<longleftrightarrow> ?b \<le> p * PAGE_SIZE" for p
    using ceil_le_iff [of PAGE_SIZE ?b p] by (simp add: PAGE_SIZE_def)
  have hi: "p < (m + (PAGE_SIZE - 1)) div PAGE_SIZE \<longleftrightarrow> p * PAGE_SIZE < m" for p m
    using ceil_le_iff [of PAGE_SIZE m p] by (simp add: PAGE_SIZE_def not_le [symmetric])
  have dn: "p * PAGE_SIZE < ?e div PAGE_SIZE * PAGE_SIZE \<longleftrightarrow> Suc p * PAGE_SIZE \<le> ?e" for p
    using less_eq_div_iff_mult_less_eq [of PAGE_SIZE "Suc p" ?e] by (simp add: PAGE_SIZE_def Suc_le_eq)
  show ?thesis
    unfolding region_frames_def set_upt set_eq_iff atLeastLessThan_iff mem_Collect_eq lo hi
      min_less_iff_conj dn using assms(2) by blast
qed

lemma free_region_boot:
  assumes "boot_inv s" "entry_ok e" "\<forall>p\<in>region_frames e (max_phys_addr s). p < total_pages s"
  shows "boot_inv (free_region e s) \<and>
         free_frames (free_region e s) = free_frames s \<union> region_frames e (max_phys_addr s) \<and>
         total_pages (free_region e s) = total_pages s \<and>
         max_phys_addr (free_region e s) = max_phys_addr s"
proof (cases "mmap_type e = 1")
  case False
  with assms show ?thesis by (simp add: free_region_def region_frames_def)
next
  case True
  define ps where "ps = [(unat (base_addr e) + 4095) div PAGE_SIZE..<
      (min ((unat (base_addr e) + unat (mmap_length e)) div PAGE_SIZE * PAGE_SIZE) (max_phys_addr s) + (PAGE_SIZE - 1)) div PAGE_SIZE]"
  have "free_region e s = page_loop free_one ((unat (base_addr e) + 4095) div PAGE_SIZE * PAGE_SIZE)
      (min ((unat (base_addr e) + unat (mmap_length e)) div PAGE_SIZE * PAGE_SIZE) (max_phys_addr s)) s"
    unfolding free_region_def Let_def entry_rounding [OF assms(2)] using True by simp
  also have "\<dots> = foldl (\<lambda>s p. free_one p s) s ps"
    unfolding page_loop_fold ps_def ..
  finally have eq: "free_region e s = foldl (\<lambda>s p. free_one p s) s ps" .
  have "set ps = region_frames e (max_phys_addr s)"
    unfolding ps_def using assms(2) True by (rule region_range)
  with free_list_boot [OF assms(1), of ps] assms(3) show ?thesis unfolding eq by simp
qed

lemma free_regions_boot:
  "boot_inv s \<Longrightarrow> \<forall>e\<in>set es. entry_ok e \<and> (\<forall>p\<in>region_frames e (max_phys_addr s). p < total_pages s) \<Longrightarrow>
   boot_inv (foldl (\<lambda>s e. free_region e s) s es) \<and>
   free_frames (foldl (\<lambda>s e. free_region e s) s es) = free_frames s \<union> (\<Union>e\<in>set es. region_frames e (max_phys_addr s)) \<and>
   total_pages (foldl (\<lambda>s e. free_region e s) s es) = total_pages s"
proof (induction es arbitrary: s)
  case Nil
  then show ?case by simp
next
  case (Cons e es)
  have e: "boot_inv (free_region e s) \<and>
         free_frames (free_region e s) = free_frames s \<union> region_frames e (max_phys_addr s) \<and>
         total_pages (free_region e s) = total_pages s \<and> max_phys_addr (free_region e s) = max_phys_addr s"
    using Cons.prems by (intro free_region_boot) auto
  with Cons.IH [of "free_region e s"] Cons.prems(2) show ?case by auto
qed

definition usable_memory :: "mb2_mmap_entry list \<Rightarrow> nat" where
  "usable_memory es = (if max_end es > 512 * 1024 * 1024 then 512 * 1024 * 1024 else max_end es)"

lemma region_in_range:
  assumes "e \<in> set es" "entry_ok e" "p \<in> region_frames e (usable_memory es)"
  shows "p < usable_memory es div PAGE_SIZE"
proof -
  have "Suc p * PAGE_SIZE \<le> max_end es"
    using assms max_end_upper [OF assms(1)] entry_rounding(3) [OF assms(2)]
    unfolding region_frames_def by (auto intro: order_trans)
  moreover have "Suc p * PAGE_SIZE \<le> 512 * 1024 * 1024" if "p * PAGE_SIZE < 512 * 1024 * 1024"
    using that by (simp add: PAGE_SIZE_def)
  ultimately have "Suc p * PAGE_SIZE \<le> usable_memory es"
    using assms(3) by (auto simp: usable_memory_def region_frames_def split: if_splits)
  then show ?thesis
    using less_eq_div_iff_mult_less_eq [of PAGE_SIZE "Suc p" "usable_memory es"]
    by (simp add: PAGE_SIZE_def)
qed

lemma reserve_loop:
  assumes "boot_inv s" "lim \<le> total_pages s * PAGE_SIZE"
  shows "let t = page_loop reserve_one (k * PAGE_SIZE) lim s in
         boot_inv t \<and> total_pages t = total_pages s \<and>
         free_frames t = {p \<in> free_frames s. \<not> (k \<le> p \<and> p * PAGE_SIZE < lim)}"
proof -
  have hi: "p < (lim + (PAGE_SIZE - 1)) div PAGE_SIZE \<longleftrightarrow> p * PAGE_SIZE < lim" for p
    using ceil_le_iff [of PAGE_SIZE lim p] by (simp add: PAGE_SIZE_def not_le [symmetric])
  define ps where "ps = [k..<(lim + (PAGE_SIZE - 1)) div PAGE_SIZE]"
  have "p < total_pages s" if "p \<in> set ps" for p
  proof -
    have "p * PAGE_SIZE < lim" using that hi [of p] by (auto simp: ps_def)
    also note assms(2)
    finally show ?thesis by (simp only: mult_less_cancel2)
  qed
  moreover have "set ps = {p. k \<le> p \<and> p * PAGE_SIZE < lim}"
    unfolding ps_def set_upt set_eq_iff atLeastLessThan_iff mem_Collect_eq hi by blast
  ultimately show ?thesis
    using reserve_list_boot [OF assms(1), of ps]
    unfolding page_loop_fold ps_def [symmetric] Let_def by auto
qed

lemma pmm_setup_frames:
  assumes "\<forall>e\<in>set es. entry_ok e" "256 * PAGE_SIZE \<le> usable_memory es"
    and "pmm_reserve_end kend (usable_memory es div PAGE_SIZE) \<le> usable_memory es div PAGE_SIZE * PAGE_SIZE"
  shows "boot_inv (pmm_setup kend es s) \<and>
     total_pages (pmm_setup kend es s) = usable_memory es div PAGE_SIZE \<and>
     free_frames (pmm_setup kend es s) =
       {p. (\<exists>e\<in>set es. p \<in> region_frames e (usable_memory es)) \<and> 256 \<le> p \<and>
           pmm_reserve_end kend (usable_memory es div PAGE_SIZE) \<le> p * PAGE_SIZE}"
proof -
  let ?mx = "usable_memory es"
  let ?n = "?mx div PAGE_SIZE"
  let ?r = "pmm_reserve_end kend ?n"
  define s1 where "s1 = s\<lparr>max_phys_addr := ?mx, total_pages := ?n,
      bitmap := replicate ((?n + 7) div 8) 0xFF, page_refcount := replicate ?n 0, free_pages := 0\<rparr>"
  define s2 where "s2 = foldl (\<lambda>s e. free_region e s) s1 es"
  define s3 where "s3 = page_loop reserve_one 0 0x100000 s2"
  have f1: "free_frames s1 = {}"
    by (auto simp: s1_def free_frames_def bitmap_test_full)
  then have b1: "boot_inv s1" by (simp add: boot_inv_def) (simp add: s1_def)
  have s2: "boot_inv s2 \<and> free_frames s2 = (\<Union>e\<in>set es. region_frames e ?mx) \<and> total_pages s2 = ?n"
    using free_regions_boot [OF b1, of es] assms(1) region_in_range [of _ es] f1
    unfolding s2_def by (simp add: s1_def)
  have "256 \<le> ?n" using assms(2) less_eq_div_iff_mult_less_eq [of PAGE_SIZE 256 ?mx] by (simp add: PAGE_SIZE_def)
  then have l1: "0x100000 \<le> total_pages s2 * PAGE_SIZE" using s2 by (simp add: PAGE_SIZE_def)
  have s3: "boot_inv s3 \<and> total_pages s3 = ?n \<and> free_frames s3 = {p \<in> free_frames s2. 256 \<le> p}"
    using reserve_loop [OF _ l1, of 0] s2 unfolding s3_def Let_def by (auto simp: PAGE_SIZE_def)
  have "?r \<le> total_pages s3 * PAGE_SIZE" using assms(3) s3 by simp
  from reserve_loop [OF _ this, of 256] s3
  have t: "let t = page_loop reserve_one 0x100000 ?r s3 in
         boot_inv t \<and> total_pages t = ?n \<and> free_frames t = {p \<in> free_frames s3. \<not> (256 \<le> p \<and> p * PAGE_SIZE < ?r)}"
    by (simp add: PAGE_SIZE_def)
  have "pmm_setup kend es s = page_loop reserve_one 0x100000 ?r s3"
    unfolding pmm_setup_def Let_def s3_def s2_def s1_def usable_memory_def ..
  then have "boot_inv (pmm_setup kend es s)" "total_pages (pmm_setup kend es s) = ?n"
    and frames: "free_frames (pmm_setup kend es s) = {p \<in> free_frames s3. \<not> (256 \<le> p \<and> p * PAGE_SIZE < ?r)}"
    using t unfolding Let_def by simp_all
  moreover have "{p \<in> free_frames s3. \<not> (256 \<le> p \<and> p * PAGE_SIZE < ?r)}
      = {p. (\<exists>e\<in>set es. p \<in> region_frames e ?mx) \<and> 256 \<le> p \<and> ?r \<le> p * PAGE_SIZE}"
    using s3 s2 by (simp only: not_less de_Morgan_conj UN_iff mem_Collect_eq) (blast dest: not_less [THEN iffD2])
  ultimately show ?thesis by simp
qed

lemma boot_pmm_inv: "boot_inv s \<Longrightarrow> 0 \<notin> free_frames s \<Longrightarrow> 0 < total_pages s \<Longrightarrow> pmm_inv s"
  by (auto simp: boot_inv_def pmm_inv_def free_frames_def)

section \<open>The allocator as a pool of frames\<close>

definition frame_alloc :: "pmm \<Rightarrow> nat option \<times> pmm" where
  "frame_alloc s =
     (let (phys, t) = pmm_alloc_scan s in (if phys = 0 then None else Some (phys div PAGE_SIZE), t))"

definition frame_releasable :: "nat \<Rightarrow> pmm \<Rightarrow> bool" where
  "frame_releasable p s \<longleftrightarrow> 0 < p \<and> p < total_pages s \<and> bitmap_test (bitmap s) p \<and>
     \<not> (kernel_page_limit s \<noteq> 0 \<and> p < kernel_page_limit s)"

definition frame_release :: "nat \<Rightarrow> pmm \<Rightarrow> pmm" where
  "frame_release p s = pmm_free_page (p * PAGE_SIZE) s"

lemma frame_release_frames:
  "pmm_inv s \<Longrightarrow> frame_releasable p s \<Longrightarrow> free_frames (frame_release p s) = insert p (free_frames s)"
proof -
  assume inv: "pmm_inv s" and p: "frame_releasable p s"
  have "p * PAGE_SIZE div PAGE_SIZE = p" by (simp add: PAGE_SIZE_def)
  then have "frame_release p s = s\<lparr>bitmap := bitmap_clear p (bitmap s),
      page_refcount := (page_refcount s)[p := 0], free_pages := free_pages s + 1\<rparr>"
    using p by (auto simp: frame_release_def frame_releasable_def pmm_free_page_def Let_def)
  then have "free_frames (frame_release p s) = free_frames (s\<lparr>bitmap := bitmap_clear p (bitmap s)\<rparr>)"
    by (simp add: free_frames_def)
  with free_frames_clear [OF inv, of p] p show ?thesis by (simp add: frame_releasable_def)
qed

lemma frame_alloc_cases:
  assumes "pmm_inv s" "frame_alloc s = (r, t)"
  shows "pmm_inv t" "r = None \<Longrightarrow> free_frames s = {} \<and> t = s"
    "r = Some p \<Longrightarrow> p \<in> free_frames s \<and> free_frames t = free_frames s - {p}"
proof -
  obtain phys where phys: "pmm_alloc_scan s = (phys, t)" "r = (if phys = 0 then None else Some (phys div PAGE_SIZE))"
    using assms(2) by (auto simp: frame_alloc_def split: prod.splits)
  show "pmm_inv t" using assms(1) phys(1) by (rule pmm_alloc_scan_inv)
  show "r = None \<Longrightarrow> free_frames s = {} \<and> t = s"
    "r = Some p \<Longrightarrow> p \<in> free_frames s \<and> free_frames t = free_frames s - {p}"
    using pmm_alloc_scan_frames [OF assms(1) phys(1)] phys(2) by (auto split: if_splits)
qed

interpretation frames: resource_pool pmm_inv free_frames frame_alloc frame_releasable frame_release
proof
  fix s t r assume inv: "pmm_inv s"
  show "finite (free_frames s)" by simp
  show "r \<in> free_frames s \<and> free_frames t = free_frames s - {r} \<and> pmm_inv t" if "frame_alloc s = (Some r, t)"
    using frame_alloc_cases [OF inv that] by simp
  show "free_frames s = {} \<and> t = s" if "frame_alloc s = (None, t)"
    using frame_alloc_cases [OF inv that] by simp
  assume r: "frame_releasable r s"
  show "pmm_inv (frame_release r s)"
    unfolding frame_release_def using inv r by (intro pmm_free_page_inv) (auto simp: frame_releasable_def)
  show "free_frames (frame_release r s) = insert r (free_frames s)"
    using inv r by (rule frame_release_frames)
qed

section \<open>Reading the memory map ends\<close>

text \<open>The positions the tag walk visits.\<close>

inductive mb2_tag_at :: "(nat \<Rightarrow> u8) \<Rightarrow> nat \<Rightarrow> nat \<Rightarrow> nat \<Rightarrow> bool"
  for mb :: "nat \<Rightarrow> u8" and start :: nat and mb_end :: nat where
  tag_start: "mb2_tag_at mb start mb_end start"
| tag_next: "mb2_tag_at mb start mb_end p \<Longrightarrow> p < mb_end \<Longrightarrow> le32 mb p \<noteq> 0 \<Longrightarrow>
    mb2_tag_at mb start mb_end (p + mb2_tag_step (le32 mb (p + 4)))"

text \<open>
  What the Multiboot2 specification promises of every tag: the size field is not 0 (and not so large
  that the aligned size wraps to 0), and the entries of a memory map tag have a size.
\<close>

definition mb2_tag_ok :: "(nat \<Rightarrow> u8) \<Rightarrow> nat \<Rightarrow> bool" where
  "mb2_tag_ok mb p \<longleftrightarrow> mb2_tag_step (le32 mb (p + 4)) > 0 \<and> (le32 mb p = 6 \<longrightarrow> le32 mb (p + 8) \<noteq> 0)"

lemma mb2_entries_total: "0 < es \<Longrightarrow> \<exists>xs. mb2_entries mb p e es = Some xs"
proof (induction "e - p" arbitrary: p rule: less_induct)
  case less
  show ?case
  proof (cases "p < e")
    case True
    then have "e - (p + es) < e - p" using less.prems by linarith
    from less.hyps [OF this less.prems] obtain xs where "mb2_entries mb (p + es) e es = Some xs"
      by blast
    with True show ?thesis by (subst mb2_entries.simps) simp
  next
    case False
    then show ?thesis by (subst mb2_entries.simps) simp
  qed
qed

lemma mb2_walk_total:
  "(\<And>p. mb2_tag_at mb start mb_end p \<Longrightarrow> p < mb_end \<Longrightarrow> le32 mb p \<noteq> 0 \<Longrightarrow> mb2_tag_ok mb p) \<Longrightarrow>
   mb2_tag_at mb start mb_end q \<Longrightarrow> \<exists>es. mb2_walk mb q mb_end = Some es"
proof (induction "mb_end - q" arbitrary: q rule: less_induct)
  case less
  show ?case
  proof (cases "q < mb_end \<and> le32 mb q \<noteq> 0")
    case True
    then have ok: "mb2_tag_ok mb q" using less.prems by blast
    have "mb2_tag_at mb start mb_end (q + mb2_tag_step (le32 mb (q + 4)))"
      using True less.prems(2) by (auto intro: tag_next)
    moreover have "mb_end - (q + mb2_tag_step (le32 mb (q + 4))) < mb_end - q"
      using ok True unfolding mb2_tag_ok_def by linarith
    ultimately obtain rest where rest: "mb2_walk mb (q + mb2_tag_step (le32 mb (q + 4))) mb_end = Some rest"
      using less.hyps [OF _ less.prems(1)] by blast
    have "\<exists>xs. mb2_entries mb (q + 16) (q + unat (le32 mb (q + 4))) (unat (le32 mb (q + 8))) = Some xs"
      if "le32 mb q = 6"
      using ok that by (intro mb2_entries_total) (simp add: mb2_tag_ok_def unat_gt_0)
    with rest True show ?thesis by (subst mb2_walk.simps) auto
  next
    case False
    then show ?thesis by (subst mb2_walk.simps) auto
  qed
qed

section \<open>What the physical memory manager guarantees\<close>


definition demo_mb :: "nat \<Rightarrow> u8" where
  "demo_mb a = ([56,0,0,0, 0,0,0,0,  6,0,0,0, 40,0,0,0, 24,0,0,0, 0,0,0,0,
     0,0,0,0, 0,0,0,0,  0,0,0,0x20, 0,0,0,0,  1,0,0,0, 0,0,0,0,
     0,0,0,0, 8,0,0,0] @ replicate 40 0) ! a"

definition empty_pmm :: pmm where
  "empty_pmm = \<lparr>bitmap = [], total_pages = 0, free_pages = 0, max_phys_addr = 0, alloc_hint = 0,
     page_refcount = [], kernel_page_limit = 0\<rparr>"

lemma demo_mb_fields:
  "le32 demo_mb 0 = 56" "le32 demo_mb 8 = 6" "le32 demo_mb 12 = 40" "le32 demo_mb 16 = 24"
  "le32 demo_mb 48 = 0"
  by (simp_all add: le32_def demo_mb_def)

lemma demo_mb_tags: "mb2_tag_at demo_mb 8 56 p \<Longrightarrow> p = 8 \<or> p = 48"
  by (induction rule: mb2_tag_at.induct) (auto simp: demo_mb_fields mb2_tag_step_def)



lemma demo_mb_walk:
  "mb2_walk demo_mb 8 56 = Some [\<lparr>base_addr = 0, mmap_length = 0x20000000, mmap_type = 1\<rparr>]"
proof -
  have "mb2_entry_at demo_mb 24 = \<lparr>base_addr = 0, mmap_length = 0x20000000, mmap_type = 1\<rparr>"
    by (simp add: mb2_entry_at_def le64_def le32_def demo_mb_def)
  moreover have "mb2_entries demo_mb 48 48 24 = Some []" by (subst mb2_entries.simps) simp
  ultimately have "mb2_entries demo_mb 24 48 24
      = Some [\<lparr>base_addr = 0, mmap_length = 0x20000000, mmap_type = 1\<rparr>]"
    by (subst mb2_entries.simps) simp
  moreover have "mb2_walk demo_mb 48 56 = Some []" by (subst mb2_walk.simps) (simp add: demo_mb_fields)
  ultimately show ?thesis
    by (subst mb2_walk.simps) (simp add: demo_mb_fields mb2_tag_step_def)
qed


text \<open>
  No double allocation: however many pages are allocated in a row, the frames handed out are
  pairwise distinct, were all free before, and are exactly the frames that stop being free; as
  many requests succeed as there are free frames.
\<close>

theorem pmm_allocations_distinct:
  assumes "pmm_inv s" "alloc_many frame_alloc n s = (ps, t)"
  shows "distinct ps \<and> set ps \<subseteq> free_frames s \<and> free_frames t = free_frames s - set ps \<and>
         length ps = min n (card (free_frames s)) \<and> pmm_inv t"
  using assms by (rule frames.alloc_many_distinct)

definition tiny_pmm :: pmm where
  "tiny_pmm = \<lparr>bitmap = [0xF1], total_pages = 8, free_pages = 3, max_phys_addr = 8 * 4096,
     alloc_hint = 2, page_refcount = [0, 0, 0, 0, 1, 2, 3, 255], kernel_page_limit = 1\<rparr>"

lemma tiny_bits: "bitmap_test [0xF1] p = (p \<in> {0, 4, 5, 6, 7})" if "p < 8"
proof -
  have "p \<in> {0, 1, 2, 3, 4, 5, 6, 7}" using that by auto
  then show ?thesis by (auto simp: bitmap_test_def)
qed

lemma tiny_free: "free_frames tiny_pmm = {1, 2, 3}"
  unfolding free_frames_def tiny_pmm_def by (auto simp: tiny_bits)

lemma tiny_inv: "pmm_inv tiny_pmm"
proof -
  have "\<forall>p<8. ([0, 0, 0, 0, 1, 2, 3, 255] :: u8 list) ! p > 0 \<longrightarrow> bitmap_test [0xF1] p"
    by (auto simp: tiny_bits less_Suc_eq numeral_eq_Suc)
  then show ?thesis
    unfolding pmm_inv_def tiny_free by (simp add: tiny_pmm_def tiny_bits)
qed

theorem pmm_allocations_distinct_witness:
  "\<exists>ps t. alloc_many frame_alloc 5 tiny_pmm = (ps, t) \<and> distinct ps \<and> set ps = {1, 2, 3}"
proof -
  obtain ps t where run: "alloc_many frame_alloc 5 tiny_pmm = (ps, t)" by fastforce
  note r = pmm_allocations_distinct [OF tiny_inv run]
  have "card (set ps) = 3" using r tiny_free by (simp add: distinct_card)
  then have "set ps = {1, 2, 3}" using r tiny_free by (intro card_subset_eq) auto
  with run r show ?thesis by blast
qed

section \<open>Steps of the allocator\<close>

text \<open>
  What the rest of the kernel does with the allocator: allocate, free a frame, add a reference to a
  frame in use, drop a reference.
\<close>

inductive pmm_step :: "pmm \<Rightarrow> pmm \<Rightarrow> bool" where
  step_alloc: "pmm_alloc_scan s = (phys, t) \<Longrightarrow> pmm_step s t"
| step_free: "phys \<ge> PAGE_SIZE \<Longrightarrow> pmm_step s (pmm_free_page phys s)"
| step_ref: "bitmap_test (bitmap s) (phys div PAGE_SIZE) \<Longrightarrow> pmm_step s (pmm_page_ref phys s)"
| step_unref: "phys \<ge> PAGE_SIZE \<Longrightarrow> pmm_step s (pmm_page_unref phys s)"

lemma pmm_step_inv: "pmm_step s t \<Longrightarrow> pmm_inv s \<Longrightarrow> pmm_inv t"
  by (induction rule: pmm_step.induct)
    (auto intro: pmm_alloc_scan_inv pmm_free_page_inv pmm_page_ref_inv pmm_page_unref_inv)

lemma pmm_step_frame:
  assumes "pmm_step s t"
  shows "total_pages t = total_pages s \<and> kernel_page_limit t = kernel_page_limit s"
  using assms
  by (induction rule: pmm_step.induct)
    (auto simp: pmm_alloc_scan_def pmm_free_page_def pmm_page_ref_def pmm_page_unref_def Let_def
          split: option.splits)

lemma pmm_step_kernel:
  assumes "pmm_step s t" "pmm_inv s" "p < kernel_page_limit s" "p < total_pages s"
    and "bitmap_test (bitmap s) p"
  shows "bitmap_test (bitmap t) p"
  using assms
proof (induction rule: pmm_step.induct)
  case (step_alloc s phys t)
  then show ?case
    using pmm_scan_Some [of s] pmm_inv_range [of s]
    by (auto simp: pmm_alloc_scan_def bitmap_test_set free_frames_def split: option.splits)
next
  case (step_free phys s)
  then show ?case
    using pmm_inv_range [of s "phys div PAGE_SIZE"]
    by (auto simp: pmm_free_page_def Let_def bitmap_test_clear)
next
  case (step_ref s phys)
  then show ?case by (auto simp: pmm_page_ref_def Let_def)
next
  case (step_unref phys s)
  then show ?case
    using pmm_inv_range [of s "phys div PAGE_SIZE"]
    by (auto simp: pmm_page_unref_def Let_def bitmap_test_clear)
qed

text \<open>
  C5 (safety over every run). From a state that satisfies the invariant, after any sequence of
  allocations, frees and reference-count changes, the invariant holds again (the counter is exact,
  referenced frames are in use), the kernel's own frames are still in use, and the next allocation
  either reports that nothing is free or hands out a page-aligned frame that nobody references.
\<close>

theorem pmm_run_safe:
  assumes "pmm_inv s" "pmm_step\<^sup>*\<^sup>* s t"
    and "\<forall>p<kernel_page_limit s. p < total_pages s \<and> bitmap_test (bitmap s) p"
    and "pmm_alloc_scan t = (phys, u)"
  shows "pmm_inv t \<and> (\<forall>p<kernel_page_limit s. bitmap_test (bitmap t) p) \<and>
         (if phys = 0 then free_frames t = {}
          else phys mod PAGE_SIZE = 0 \<and> page_refcount t ! (phys div PAGE_SIZE) = 0 \<and>
               phys div PAGE_SIZE \<in> free_frames t \<and> page_refcount u ! (phys div PAGE_SIZE) = 1)"
proof -
  have run: "pmm_inv t \<and> total_pages t = total_pages s \<and> kernel_page_limit t = kernel_page_limit s \<and>
      (\<forall>p<kernel_page_limit s. bitmap_test (bitmap t) p)"
    using assms(2)
  proof (induction rule: rtranclp_induct)
    case base
    with assms(1,3) show ?case by blast
  next
    case (step y z)
    have "bitmap_test (bitmap z) p" if "p < kernel_page_limit s" for p
      by (rule pmm_step_kernel [OF step.hyps(2)]) (use step.IH assms(3) that in auto)
    with step pmm_step_inv pmm_step_frame [OF step.hyps(2)] show ?case by auto
  qed
  have "page_refcount t ! (phys div PAGE_SIZE) = 0" if "phys div PAGE_SIZE \<in> free_frames t"
    using run that unfolding pmm_inv_def free_frames_def by (auto simp: word_neq_0_conv [symmetric])
  with run pmm_alloc_scan_frames [OF _ assms(4)] show ?thesis
    by (auto simp: pmm_inv_def free_frames_def split: if_splits)
qed

theorem pmm_run_safe_witness:
  "\<exists>phys u. pmm_alloc_scan (pmm_page_unref (4 * PAGE_SIZE) tiny_pmm) = (phys, u) \<and>
     pmm_inv (pmm_page_unref (4 * PAGE_SIZE) tiny_pmm) \<and>
     bitmap_test (bitmap (pmm_page_unref (4 * PAGE_SIZE) tiny_pmm)) 0"
proof -
  let ?t = "pmm_page_unref (4 * PAGE_SIZE) tiny_pmm"
  obtain phys u where a: "pmm_alloc_scan ?t = (phys, u)" by fastforce
  have "pmm_step tiny_pmm ?t" by (rule step_unref) simp
  moreover have "\<forall>p<kernel_page_limit tiny_pmm. p < total_pages tiny_pmm \<and> bitmap_test (bitmap tiny_pmm) p"
    by (simp add: tiny_pmm_def tiny_bits)
  ultimately have "pmm_inv ?t \<and> (\<forall>p<kernel_page_limit tiny_pmm. bitmap_test (bitmap ?t) p)"
    using pmm_run_safe [OF tiny_inv _ _ a] by blast
  then show ?thesis using a by (auto simp: tiny_pmm_def)
qed

section \<open>Sharing a frame\<close>

lemma pmm_ref_many:
  assumes "p < total_pages s" "length (page_refcount s) = total_pages s"
    and "unat (page_refcount s ! p) + k \<le> 255"
  shows "(pmm_page_ref (p * PAGE_SIZE) ^^ k) s
         = s\<lparr>page_refcount := (page_refcount s)[p := page_refcount s ! p + of_nat k]\<rparr>"
  using assms(3)
proof (induction k)
  case 0
  then show ?case by simp
next
  case (Suc k)
  let ?c = "page_refcount s ! p + of_nat k"
  have u: "unat ?c = unat (page_refcount s ! p) + k"
    using Suc.prems by (simp add: unat_word_ariths unat_of_nat)
  have "?c < 255" using u Suc.prems by (simp add: word_less_nat_alt)
  moreover have "p * PAGE_SIZE div PAGE_SIZE = p" by (simp add: PAGE_SIZE_def)
  ultimately show ?case
    using Suc assms(1,2) by (simp add: pmm_page_ref_def Let_def algebra_simps)
qed

lemma pmm_unref_step:
  assumes "p < total_pages s" "length (page_refcount s) = total_pages s"
    and "page_refcount s ! p > 0" "page_refcount s ! p - 1 \<noteq> 0"
  shows "pmm_page_unref (p * PAGE_SIZE) s
         = s\<lparr>page_refcount := (page_refcount s)[p := page_refcount s ! p - 1]\<rparr>"
proof -
  have "p * PAGE_SIZE div PAGE_SIZE = p" by (simp add: PAGE_SIZE_def)
  with assms show ?thesis unfolding pmm_page_unref_def Let_def by simp
qed

lemma pmm_unref_many:
  assumes "p < total_pages s" "length (page_refcount s) = total_pages s"
    and "j < unat (page_refcount s ! p)"
  shows "(pmm_page_unref (p * PAGE_SIZE) ^^ j) s
         = s\<lparr>page_refcount := (page_refcount s)[p := page_refcount s ! p - of_nat j]\<rparr>"
  using assms(3)
proof (induction j)
  case 0
  then show ?case by simp
next
  case (Suc j)
  let ?c = "page_refcount s ! p - of_nat j"
  have "unat (page_refcount s ! p) < 256"
    using unsigned_less [where ?'a = nat, of "page_refcount s ! p"] by simp
  then have "unat (of_nat j :: u8) = j" using Suc.prems by (simp add: unat_of_nat)
  then have u: "unat ?c = unat (page_refcount s ! p) - j"
    using Suc.prems by (subst unat_sub) (simp_all add: word_le_nat_alt)
  have gt: "?c > 0" using u Suc.prems by (simp add: word_less_nat_alt)
  have nz: "?c - 1 \<noteq> 0"
  proof
    assume "?c - 1 = 0"
    then have "unat ?c = 1" by (metis eq_iff_diff_eq_0 unsigned_1)
    with u Suc.prems show False by simp
  qed
  let ?t = "s\<lparr>page_refcount := (page_refcount s)[p := ?c]\<rparr>"
  have "(pmm_page_unref (p * PAGE_SIZE) ^^ Suc j) s = pmm_page_unref (p * PAGE_SIZE) ?t"
    using Suc by simp
  also have "\<dots> = ?t\<lparr>page_refcount := (page_refcount ?t)[p := ?c - 1]\<rparr>"
    using pmm_unref_step [of p ?t] gt nz assms(1,2) by simp
  finally show ?case by (simp add: algebra_simps)
qed

text \<open>
  C31 (a shared frame lives as long as its last user). A frame in use with \<open>n\<close> references that gets
  \<open>k\<close> more, with at most 255 in all, stays allocated through the first \<open>n + k - 1\<close> calls of
  \<^verbatim>\<open>pmm_page_unref\<close> and is returned to the free frames by the next one.
\<close>

theorem pmm_shared_frame_lifetime:
  assumes "pmm_inv s" "kernel_page_limit s \<le> p" "p < total_pages s"
    and "n = unat (page_refcount s ! p)" "1 \<le> n" "n + k \<le> 255"
  shows "let t = (pmm_page_ref (p * PAGE_SIZE) ^^ k) s in
           (\<forall>j<n + k. p \<notin> free_frames ((pmm_page_unref (p * PAGE_SIZE) ^^ j) t)) \<and>
           p \<in> free_frames ((pmm_page_unref (p * PAGE_SIZE) ^^ (n + k)) t)"
proof -
  have len: "length (page_refcount s) = total_pages s" using assms(1) by (simp add: pmm_inv_def)
  have used: "bitmap_test (bitmap s) p"
    using assms(1,3-5) by (auto simp: pmm_inv_def word_less_nat_alt)
  define t where "t = (pmm_page_ref (p * PAGE_SIZE) ^^ k) s"
  have t: "t = s\<lparr>page_refcount := (page_refcount s)[p := page_refcount s ! p + of_nat k]\<rparr>"
    unfolding t_def using assms len by (intro pmm_ref_many) auto
  have rc: "unat (page_refcount t ! p) = n + k"
    using assms(3-6) len by (simp add: t unat_word_ariths unat_of_nat)
  have lt: "length (page_refcount t) = total_pages t" "p < total_pages t" "bitmap t = bitmap s"
    "kernel_page_limit t = kernel_page_limit s"
    using len assms(3) by (simp_all add: t)
  have many: "(pmm_page_unref (p * PAGE_SIZE) ^^ j) t
      = t\<lparr>page_refcount := (page_refcount t)[p := page_refcount t ! p - of_nat j]\<rparr>" if "j < n + k" for j
    using lt rc that by (intro pmm_unref_many) auto
  have keep: "p \<notin> free_frames ((pmm_page_unref (p * PAGE_SIZE) ^^ j) t)" if "j < n + k" for j
    using used lt by (simp add: many [OF that] free_frames_def)
  obtain m where m: "n + k = Suc m" using assms(5) by (cases "n + k") auto
  have one: "page_refcount t ! p - of_nat m = 1"
  proof -
    have "page_refcount t ! p = of_nat (n + k)" using rc by (metis of_nat_unat ucast_id)
    then show ?thesis by (simp add: m)
  qed
  have "p < 8 * length (bitmap s)" using assms(1,3) by (rule pmm_inv_range)
  moreover have "p * PAGE_SIZE div PAGE_SIZE = p" by (simp add: PAGE_SIZE_def)
  ultimately have "p \<in> free_frames (pmm_page_unref (p * PAGE_SIZE) ((pmm_page_unref (p * PAGE_SIZE) ^^ m) t))"
    using many [of m] m one lt assms(2,3)
    by (simp add: pmm_page_unref_def Let_def free_frames_def bitmap_test_clear)
  then have "p \<in> free_frames ((pmm_page_unref (p * PAGE_SIZE) ^^ (n + k)) t)" by (simp add: m)
  with keep show ?thesis unfolding Let_def t_def [symmetric] by blast
qed

theorem pmm_shared_frame_lifetime_witness:
  "let t = (pmm_page_ref (5 * PAGE_SIZE) ^^ 3) tiny_pmm in
     (\<forall>j<5. 5 \<notin> free_frames ((pmm_page_unref (5 * PAGE_SIZE) ^^ j) t)) \<and>
     5 \<in> free_frames ((pmm_page_unref (5 * PAGE_SIZE) ^^ 5) t)"
proof -
  have "let t = (pmm_page_ref (5 * PAGE_SIZE) ^^ 3) tiny_pmm in
     (\<forall>j<2 + 3. 5 \<notin> free_frames ((pmm_page_unref (5 * PAGE_SIZE) ^^ j) t)) \<and>
     5 \<in> free_frames ((pmm_page_unref (5 * PAGE_SIZE) ^^ (2 + 3)) t)"
    by (rule pmm_shared_frame_lifetime [OF tiny_inv]) (simp_all add: tiny_pmm_def)
  then show ?thesis by simp
qed

end
