(* ===== verification/Disk.thy ===== *)
theory Disk
  imports Bytes
begin

text \<open>
  The ATA disk as the storage code sees it through \<^verbatim>\<open>ata_read_sectors\<close> and
  \<^verbatim>\<open>ata_write_sectors\<close> (\<^verbatim>\<open>kernel/drivers/ata.c\<close>): 512-byte sectors, LBA28 addressing, a count
  of 0 meaning 256, sectors transferred one after the other, each flushed before the next.
  \<open>sector_ok\<close> says which sectors the drive can access (\<^verbatim>\<open>ata_poll\<close> reports an error on the
  others). \<open>power\<close> is the environment: \<open>Some k\<close> means that the supply fails after \<open>k\<close> more sector
  writes, so that every later write is lost; crash consistency is about such disks.
\<close>

record disk =
  primary_present :: bool
  sector_ok :: "nat \<Rightarrow> bool"
  sectors :: "nat \<Rightarrow> u8 list"
  power :: "nat option"

definition write_sector :: "nat \<Rightarrow> u8 list \<Rightarrow> disk \<Rightarrow> disk" where
  "write_sector a x d =
     (case power d of
        None \<Rightarrow> d\<lparr>sectors := (sectors d)(a := x)\<rparr>
      | Some k \<Rightarrow> if k = 0 then d else d\<lparr>sectors := (sectors d)(a := x), power := Some (k - 1)\<rparr>)"

definition lba28 :: "u32 \<Rightarrow> nat" where
  "lba28 lba = unat lba mod 2 ^ 28"

definition sector_count :: "u8 \<Rightarrow> nat" where
  "sector_count count = (if count = 0 then 256 else unat count)"

fun ata_read_loop :: "nat \<Rightarrow> nat \<Rightarrow> disk \<Rightarrow> int \<times> u8 list" where
  "ata_read_loop a 0 d = (0, [])"
| "ata_read_loop a (Suc n) d =
     (if \<not> sector_ok d a then (-1, [])
      else (let (r, bs) = ata_read_loop (a + 1) n d in (r, sectors d a @ bs)))"

definition ata_read_sectors :: "u32 \<Rightarrow> u8 \<Rightarrow> disk \<Rightarrow> int \<times> u8 list" where
  "ata_read_sectors lba count d =
     (if \<not> primary_present d then (-1, []) else ata_read_loop (lba28 lba) (sector_count count) d)"

fun ata_write_loop :: "nat \<Rightarrow> nat \<Rightarrow> u8 list \<Rightarrow> disk \<Rightarrow> int \<times> disk" where
  "ata_write_loop a 0 buf d = (0, d)"
| "ata_write_loop a (Suc n) buf d =
     (if \<not> sector_ok d a then (-1, d)
      else ata_write_loop (a + 1) n (drop 512 buf) (write_sector a (take 512 buf) d))"

definition ata_write_sectors :: "u32 \<Rightarrow> u8 \<Rightarrow> u8 list \<Rightarrow> disk \<Rightarrow> int \<times> disk" where
  "ata_write_sectors lba count buf d =
     (if \<not> primary_present d then (-1, d) else ata_write_loop (lba28 lba) (sector_count count) buf d)"

section \<open>Sequences of sector writes\<close>

definition disk_writes :: "(nat \<times> u8 list) list \<Rightarrow> disk \<Rightarrow> disk" where
  "disk_writes ws d = foldl (\<lambda>d (a, x). write_sector a x d) d ws"

definition apply_writes :: "(nat \<times> 'a) list \<Rightarrow> (nat \<Rightarrow> 'a) \<Rightarrow> nat \<Rightarrow> 'a" where
  "apply_writes ws f = foldl (\<lambda>f (a, x). f(a := x)) f ws"

definition sector_writes :: "nat \<Rightarrow> nat \<Rightarrow> u8 list \<Rightarrow> (nat \<times> u8 list) list" where
  "sector_writes a n buf = map (\<lambda>i. (a + i, take 512 (drop (512 * i) buf))) [0..<n]"

lemma write_sector_frame [simp]:
  "primary_present (write_sector a x d) = primary_present d"
  "sector_ok (write_sector a x d) = sector_ok d"
  by (auto simp: write_sector_def split: option.split)

lemma disk_writes_frame [simp]:
  "primary_present (disk_writes ws d) = primary_present d"
  "sector_ok (disk_writes ws d) = sector_ok d"
  by (induction ws arbitrary: d) (auto simp: disk_writes_def)

lemma disk_writes_append: "disk_writes (vs @ ws) d = disk_writes ws (disk_writes vs d)"
  by (simp add: disk_writes_def)

lemma disk_writes_Nil [simp]: "disk_writes [] d = d"
  by (simp add: disk_writes_def)

lemma sector_writes_Suc:
  "sector_writes a (Suc n) buf = (a, take 512 buf) # sector_writes (a + 1) n (drop 512 buf)"
proof -
  have "[0..<Suc n] = 0 # map Suc [0..<n]" by (simp add: map_Suc_upt upt_conv_Cons)
  then show ?thesis by (simp add: sector_writes_def add.commute del: upt_Suc)
qed

lemma upt_first: "[a..<a + Suc n] = a # [a + 1..<a + 1 + n]"
  by (simp add: upt_conv_Cons del: upt_Suc)

text \<open>On an intact drive the transfer loops perform exactly the listed sector writes and reads.\<close>

lemma ata_write_loop_eq:
  "\<forall>i<n. sector_ok d (a + i) \<Longrightarrow>
   ata_write_loop a n buf d = (0, disk_writes (sector_writes a n buf) d)"
proof (induction n arbitrary: a buf d)
  case 0
  then show ?case by (simp add: sector_writes_def)
next
  case (Suc n)
  have "\<forall>i<n. sector_ok (write_sector a (take 512 buf) d) (a + 1 + i)"
    using Suc.prems by auto
  from Suc.IH [OF this] Suc.prems show ?case
    by (auto simp: sector_writes_Suc disk_writes_def)
qed

lemma ata_read_loop_eq:
  "\<forall>i<n. sector_ok d (a + i) \<Longrightarrow>
   ata_read_loop a n d = (0, concat (map (sectors d) [a..<a + n]))"
proof (induction n arbitrary: a)
  case 0
  then show ?case by simp
next
  case (Suc n)
  have "\<forall>i<n. sector_ok d (a + 1 + i)" using Suc.prems by auto
  from Suc.IH [OF this] Suc.prems show ?case
    unfolding upt_first by (auto simp del: upt_Suc)
qed

definition intact :: "disk \<Rightarrow> bool" where
  "intact d \<longleftrightarrow> primary_present d \<and> (\<forall>a. sector_ok d a)"

lemma intact_disk_writes [simp]: "intact (disk_writes ws d) = intact d"
  by (simp add: intact_def)

lemma ata_write_sectors_eq:
  "intact d \<Longrightarrow> ata_write_sectors lba c buf d
     = (0, disk_writes (sector_writes (lba28 lba) (sector_count c) buf) d)"
  by (simp add: ata_write_sectors_def intact_def ata_write_loop_eq)

lemma ata_read_sectors_eq:
  "intact d \<Longrightarrow> ata_read_sectors lba c d
     = (0, concat (map (sectors d) [lba28 lba..<lba28 lba + sector_count c]))"
  by (simp add: ata_read_sectors_def intact_def ata_read_loop_eq)

section \<open>Power failure\<close>

text \<open>What survives: all writes with the power on, a prefix of them when it fails.\<close>

definition survive :: "nat option \<Rightarrow> 'a list \<Rightarrow> 'a list" where
  "survive p ws = (case p of None \<Rightarrow> ws | Some k \<Rightarrow> take k ws)"

lemma survive_addrs: "fst ` set (survive p ws) \<subseteq> fst ` set ws"
  by (auto simp: survive_def split: option.split dest: in_set_takeD)

lemma sectors_disk_writes: "sectors (disk_writes ws d) = apply_writes (survive (power d) ws) (sectors d)"
proof (induction ws arbitrary: d)
  case Nil
  then show ?case by (simp add: survive_def apply_writes_def split: option.split)
next
  case (Cons w ws)
  obtain a x where w: "w = (a, x)" by fastforce
  have "sectors (disk_writes (w # ws) d) = sectors (disk_writes ws (write_sector a x d))"
    by (simp add: disk_writes_def w)
  also have "\<dots> = apply_writes (survive (power (write_sector a x d)) ws) (sectors (write_sector a x d))"
    by (rule Cons.IH)
  also have "\<dots> = apply_writes (survive (power d) (w # ws)) (sectors d)"
    by (cases "power d")
      (auto simp: write_sector_def survive_def apply_writes_def w take_Cons' split: if_splits)
  finally show ?case .
qed

lemma apply_writes_append: "apply_writes (vs @ ws) f = apply_writes ws (apply_writes vs f)"
  by (simp add: apply_writes_def)

lemma apply_writes_Cons [simp]: "apply_writes ((a, x) # ws) f = apply_writes ws (f(a := x))"
  by (simp add: apply_writes_def)

lemma apply_writes_Nil [simp]: "apply_writes [] f = f"
  by (simp add: apply_writes_def)

lemma apply_writes_other: "a \<notin> fst ` set ws \<Longrightarrow> apply_writes ws f a = f a"
  by (induction ws arbitrary: f) auto

text \<open>The result of a list of writes depends on the old contents only where nothing is written.\<close>

lemma apply_writes_cong:
  "(a \<notin> fst ` set ws \<Longrightarrow> f a = g a) \<Longrightarrow> apply_writes ws f a = apply_writes ws g a"
proof (induction ws arbitrary: f g)
  case Nil
  then show ?case by simp
next
  case (Cons w ws)
  obtain b x where w: "w = (b, x)" by fastforce
  have "apply_writes ws (f(b := x)) a = apply_writes ws (g(b := x)) a"
    by (rule Cons.IH) (use Cons.prems w in auto)
  then show ?case by (simp add: w)
qed

lemma fst_sector_writes: "fst ` set (sector_writes a n buf) = {a..<a + n}"
proof -
  have "fst ` set (sector_writes a n buf) = (+) a ` {0..<n}"
    by (simp add: sector_writes_def image_image)
  then show ?thesis by (simp add: add.commute)
qed

text \<open>Writing a buffer of whole sectors and reading it back.\<close>

lemma apply_sector_writes:
  "i < n \<Longrightarrow> apply_writes (sector_writes a n buf) f (a + i) = take 512 (drop (512 * i) buf)"
proof (induction n arbitrary: a buf i f)
  case 0
  then show ?case by simp
next
  case (Suc n)
  note lt = Suc.prems
  have IH: "apply_writes (sector_writes (a + 1) n (drop 512 buf)) g (a + 1 + k)
      = take 512 (drop (512 * k) (drop 512 buf))" if "k < n" for k g
    using that by (rule Suc.IH)
  show ?case
  proof (cases i)
    case 0
    then show ?thesis by (simp add: sector_writes_Suc apply_writes_other fst_sector_writes)
  next
    case (Suc k)
    have "apply_writes (sector_writes (a + 1) n (drop 512 buf)) (f(a := take 512 buf)) (a + 1 + k)
        = take 512 (drop (512 * k) (drop 512 buf))"
      using lt Suc by (intro IH) simp
    with Suc show ?thesis by (simp add: sector_writes_Suc add.commute)
  qed
qed

lemma concat_sectors:
  "length buf = 512 * n \<Longrightarrow> (\<And>i. i < n \<Longrightarrow> f (a + i) = take 512 (drop (512 * i) buf)) \<Longrightarrow>
   concat (map f [a..<a + n]) = buf"
proof (induction n arbitrary: a buf)
  case 0
  then show ?case by simp
next
  case (Suc n)
  have "concat (map f [a + 1..<a + 1 + n]) = drop 512 buf"
  proof (rule Suc.IH)
    show "f (a + 1 + i) = take 512 (drop (512 * i) (drop 512 buf))" if "i < n" for i
      using Suc.prems(2) [of "Suc i"] that by (simp add: add.commute)
  qed (use Suc.prems in simp)
  moreover have "f a = take 512 buf" using Suc.prems(2) [of 0] by simp
  ultimately show ?case unfolding upt_first by (simp del: upt_Suc)
qed

end
