(* ===== verification/Journal.thy ===== *)
theory Journal
  imports Disk
begin

text \<open>
  The write-ahead journal (\<^verbatim>\<open>kernel/fs/journal.c\<close>): transactions of up to 16 blocks of 4 KB, a
  one-sector header at LBA 65536 that is written uncommitted, then committed, then applied, and the
  replay on boot. The on-disk header is its byte encoding. Disk writes go through the model of the
  ATA driver, so that a power failure may happen before any sector write.
\<close>

definition JOURNAL_MAGIC :: u32 where "JOURNAL_MAGIC = 0x4A524E4C"
definition JOURNAL_MAX_BLOCKS :: nat where "JOURNAL_MAX_BLOCKS = 16"
definition JOURNAL_START_LBA :: u32 where "JOURNAL_START_LBA = 65536"

record journal_txn =
  txn_target_blocks :: "u32 list"
  txn_block_data :: "u8 list list"
  txn_count :: nat
  txn_active :: bool

record journal_header =
  jh_magic :: u32
  jh_seq :: u32
  jh_block_count :: u32
  jh_committed :: u32
  jh_target_blocks :: "u32 list"

record journal =
  journal_seq :: u32
  journal_ready :: bool

section \<open>The on-disk header\<close>

definition journal_header_bytes :: "journal_header \<Rightarrow> u8 list" where
  "journal_header_bytes h =
     concat (map enc32 ([jh_magic h, jh_seq h, jh_block_count h, jh_committed h] @ jh_target_blocks h))
     @ replicate 432 0"

definition journal_header_at :: "u8 list \<Rightarrow> journal_header" where
  "journal_header_at bs =
     \<lparr>jh_magic = le32 (at bs) 0, jh_seq = le32 (at bs) 4, jh_block_count = le32 (at bs) 8,
      jh_committed = le32 (at bs) 12,
      jh_target_blocks = map (\<lambda>i. le32 (at bs) (16 + 4 * i)) [0..<16]\<rparr>"

section \<open>Operations\<close>

definition journal_init :: "journal \<Rightarrow> journal" where
  "journal_init j = j\<lparr>journal_seq := 0, journal_ready := True\<rparr>"

text \<open>A \<^verbatim>\<open>NULL\<close> transaction pointer is \<open>None\<close>.\<close>

definition journal_begin :: "journal \<Rightarrow> journal_txn option \<Rightarrow> int \<times> journal_txn option" where
  "journal_begin j t =
     (if t = None \<or> \<not> journal_ready j then (-1, t)
      else (0, Some \<lparr>txn_target_blocks = replicate 16 0, txn_block_data = replicate 16 [],
                     txn_count = 0, txn_active = True\<rparr>))"

definition journal_log :: "journal_txn option \<Rightarrow> u32 \<Rightarrow> u8 list \<Rightarrow> int \<times> journal_txn option" where
  "journal_log t block_no data =
     (case t of
        None \<Rightarrow> (-1, None)
      | Some txn \<Rightarrow>
          (if \<not> txn_active txn then (-1, t)
           else if txn_count txn \<ge> JOURNAL_MAX_BLOCKS then (-1, t)
           else (0, Some (txn\<lparr>txn_target_blocks := (txn_target_blocks txn)[txn_count txn := block_no],
                              txn_block_data := (txn_block_data txn)[txn_count txn := data],
                              txn_count := txn_count txn + 1\<rparr>))))"

definition txn_header :: "journal \<Rightarrow> journal_txn \<Rightarrow> u32 \<Rightarrow> journal_header" where
  "txn_header j txn committed =
     \<lparr>jh_magic = JOURNAL_MAGIC, jh_seq = journal_seq j, jh_block_count = of_nat (txn_count txn),
      jh_committed = committed,
      jh_target_blocks = take (txn_count txn) (txn_target_blocks txn)
                         @ replicate (16 - txn_count txn) 0\<rparr>"

text \<open>Step 2: the block data goes to the journal area, 8 sectors a block.\<close>

fun write_journal_blocks :: "u32 \<Rightarrow> u8 list list \<Rightarrow> disk \<Rightarrow> disk" where
  "write_journal_blocks lba [] d = d"
| "write_journal_blocks lba (b # bs) d = write_journal_blocks (lba + 8) bs (snd (ata_write_sectors lba 8 b d))"

text \<open>Step 4: the blocks go to their final places.\<close>

fun write_final_blocks :: "(u32 \<times> u8 list) list \<Rightarrow> disk \<Rightarrow> disk" where
  "write_final_blocks [] d = d"
| "write_final_blocks ((t, b) # tbs) d = write_final_blocks tbs (snd (ata_write_sectors (t * 8) 8 b d))"

definition journal_commit ::
  "journal \<Rightarrow> journal_txn option \<Rightarrow> disk \<Rightarrow> int \<times> journal \<times> journal_txn option \<times> disk" where
  "journal_commit j t d =
     (case t of
        None \<Rightarrow> (-1, j, t, d)
      | Some txn \<Rightarrow>
          (if \<not> txn_active txn \<or> txn_count txn = 0 then (-1, j, t, d)
           else
             (let hdr = (\<lambda>c. journal_header_bytes (txn_header j txn c));
                  n = txn_count txn;
                  d1 = snd (ata_write_sectors JOURNAL_START_LBA 1 (hdr 0) d);
                  d2 = write_journal_blocks (JOURNAL_START_LBA + 1) (take n (txn_block_data txn)) d1;
                  d3 = snd (ata_write_sectors JOURNAL_START_LBA 1 (hdr 1) d2);
                  d4 = write_final_blocks
                         (zip (take n (txn_target_blocks txn)) (take n (txn_block_data txn))) d3;
                  d5 = snd (ata_write_sectors JOURNAL_START_LBA 1 (hdr 2) d4)
              in (0, j\<lparr>journal_seq := journal_seq j + 1\<rparr>, Some (txn\<lparr>txn_active := False\<rparr>), d5))))"

text \<open>The replay loop; \<open>False\<close> is the early return after a failed read.\<close>

fun journal_replay :: "u32 list \<Rightarrow> u32 \<Rightarrow> disk \<Rightarrow> bool \<times> disk" where
  "journal_replay [] lba d = (True, d)"
| "journal_replay (t # ts) lba d =
     (let (r, data) = ata_read_sectors lba 8 d in
      if r < 0 then (False, d)
      else journal_replay ts (lba + 8) (snd (ata_write_sectors (t * 8) 8 data d)))"

definition journal_recover :: "journal \<Rightarrow> disk \<Rightarrow> int \<times> disk" where
  "journal_recover j d =
     (if \<not> journal_ready j then (-1, d)
      else
        (let (r, buf) = ata_read_sectors JOURNAL_START_LBA 1 d;
             h = journal_header_at buf
         in if r < 0 then (-1, d)
            else if jh_magic h \<noteq> JOURNAL_MAGIC then (0, d)
            else if jh_committed h = 1 then
              (case journal_replay (take (min (unat (jh_block_count h)) JOURNAL_MAX_BLOCKS) (jh_target_blocks h))
                      (JOURNAL_START_LBA + 1) d of
                 (False, d1) \<Rightarrow> (-1, d1)
               | (True, d1) \<Rightarrow>
                   (1, snd (ata_write_sectors JOURNAL_START_LBA 1
                              (take 12 buf @ enc32 2 @ drop 16 buf) d1)))
            else (0, d)))"

section \<open>The header round trip\<close>

lemma length_journal_header_bytes [simp]:
  "length (jh_target_blocks h) = 16 \<Longrightarrow> length (journal_header_bytes h) = 512"
  unfolding journal_header_bytes_def by simp

lemma journal_header_roundtrip:
  assumes "length (jh_target_blocks h) = 16"
  shows "journal_header_at (journal_header_bytes h) = h"
proof -
  let ?ws = "[jh_magic h, jh_seq h, jh_block_count h, jh_committed h] @ jh_target_blocks h"
  have field: "le32 (at (journal_header_bytes h)) (4 * i) = ?ws ! i" if "i < 20" for i
    unfolding journal_header_bytes_def using assms that by (intro le32_concat_enc) simp
  have "map (\<lambda>i. le32 (at (journal_header_bytes h)) (16 + 4 * i)) [0..<16] = jh_target_blocks h"
  proof (rule nth_equalityI)
    fix i assume "i < length (map (\<lambda>i. le32 (at (journal_header_bytes h)) (16 + 4 * i)) [0..<16])"
    then show "map (\<lambda>i. le32 (at (journal_header_bytes h)) (16 + 4 * i)) [0..<16] ! i = jh_target_blocks h ! i"
      using field [of "i + 4"] by (simp add: algebra_simps nth_append nth_Cons')
  qed (use assms in simp)
  with field [of 0] field [of 1] field [of 2] field [of 3] show ?thesis
    by (simp add: journal_header_at_def)
qed

lemma journal_header_set_committed:
  assumes "length (jh_target_blocks h) = 16"
  shows "take 12 (journal_header_bytes h) @ enc32 c @ drop 16 (journal_header_bytes h)
         = journal_header_bytes (h\<lparr>jh_committed := c\<rparr>)"
  unfolding journal_header_bytes_def by simp

section \<open>What a commit and a recovery write\<close>

definition txn_pairs :: "journal_txn \<Rightarrow> (u32 \<times> u8 list) list" where
  "txn_pairs txn = zip (take (txn_count txn) (txn_target_blocks txn)) (take (txn_count txn) (txn_block_data txn))"

fun final_writes :: "(u32 \<times> u8 list) list \<Rightarrow> (nat \<times> u8 list) list" where
  "final_writes [] = []"
| "final_writes ((t, b) # tbs) = sector_writes (lba28 (t * 8)) 8 b @ final_writes tbs"

fun area_writes :: "u32 \<Rightarrow> u8 list list \<Rightarrow> (nat \<times> u8 list) list" where
  "area_writes lba [] = []"
| "area_writes lba (b # bs) = sector_writes (lba28 lba) 8 b @ area_writes (lba + 8) bs"

definition header_write :: "journal_header \<Rightarrow> nat \<times> u8 list" where
  "header_write h = (lba28 JOURNAL_START_LBA, journal_header_bytes h)"

definition journal_area :: "nat set" where
  "journal_area = {65536..<65536 + 129}"

definition txn_ok :: "journal_txn \<Rightarrow> bool" where
  "txn_ok txn \<longleftrightarrow> txn_active txn \<and> 1 \<le> txn_count txn \<and> txn_count txn \<le> JOURNAL_MAX_BLOCKS \<and>
     length (txn_target_blocks txn) = 16 \<and> length (txn_block_data txn) = 16 \<and>
     (\<forall>b\<in>set (take (txn_count txn) (txn_block_data txn)). length b = 4096) \<and>
     (\<forall>t\<in>set (take (txn_count txn) (txn_target_blocks txn)).
        {lba28 (t * 8)..<lba28 (t * 8) + 8} \<inter> journal_area = {})"

lemma sector_counts [simp]: "sector_count 8 = 8" "sector_count 1 = 1"
  by (simp_all add: sector_count_def)

lemma write_journal_blocks_eq:
  "intact d \<Longrightarrow> write_journal_blocks lba bs d = disk_writes (area_writes lba bs) d"
  by (induction bs arbitrary: lba d) (auto simp: ata_write_sectors_eq disk_writes_append)

lemma write_final_blocks_eq:
  "intact d \<Longrightarrow> write_final_blocks tbs d = disk_writes (final_writes tbs) d"
  by (induction tbs arbitrary: d) (auto simp: ata_write_sectors_eq disk_writes_append)

lemma header_sector_write:
  "intact d \<Longrightarrow> length (jh_target_blocks h) = 16 \<Longrightarrow>
   snd (ata_write_sectors JOURNAL_START_LBA 1 (journal_header_bytes h) d) = disk_writes [header_write h] d"
  by (simp add: ata_write_sectors_eq header_write_def sector_writes_def)

lemma txn_header_targets [simp]:
  "txn_ok txn \<Longrightarrow> length (jh_target_blocks (txn_header j txn c)) = 16"
  by (simp add: txn_ok_def txn_header_def JOURNAL_MAX_BLOCKS_def)

definition commit_writes :: "journal \<Rightarrow> journal_txn \<Rightarrow> (nat \<times> u8 list) list" where
  "commit_writes j txn =
     header_write (txn_header j txn 0) #
     area_writes (JOURNAL_START_LBA + 1) (take (txn_count txn) (txn_block_data txn)) @
     header_write (txn_header j txn 1) # final_writes (txn_pairs txn) @ [header_write (txn_header j txn 2)]"

lemma journal_commit_writes:
  assumes "intact d" "txn_ok txn"
  shows "journal_commit j (Some txn) d = (0, j\<lparr>journal_seq := journal_seq j + 1\<rparr>,
           Some (txn\<lparr>txn_active := False\<rparr>), disk_writes (commit_writes j txn) d)"
proof -
  have "txn_active txn" "txn_count txn \<noteq> 0" using assms(2) by (auto simp: txn_ok_def)
  moreover have "disk_writes (commit_writes j txn) d
      = disk_writes [header_write (txn_header j txn 2)]
         (disk_writes (final_writes (txn_pairs txn))
           (disk_writes [header_write (txn_header j txn 1)]
             (disk_writes (area_writes (JOURNAL_START_LBA + 1) (take (txn_count txn) (txn_block_data txn)))
               (disk_writes [header_write (txn_header j txn 0)] d))))"
    unfolding commit_writes_def disk_writes_append [symmetric] by simp
  ultimately show ?thesis
    using assms
    by (simp add: journal_commit_def Let_def header_sector_write write_journal_blocks_eq
                  write_final_blocks_eq txn_pairs_def)
qed

section \<open>The journal area holds the blocks\<close>

fun stored :: "(nat \<Rightarrow> u8 list) \<Rightarrow> u32 \<Rightarrow> u8 list list \<Rightarrow> bool" where
  "stored f lba [] = True"
| "stored f lba (b # bs) =
     (concat (map f [lba28 lba..<lba28 lba + 8]) = b \<and> stored f (lba + 8) bs)"

lemma lba_next:
  assumes "unat lba + 8 * Suc n < 2 ^ 28"
  shows "lba28 lba = unat lba" "unat (lba + 8) = unat lba + 8" "unat (lba + 8) + 8 * n < 2 ^ 28"
proof -
  show "lba28 lba = unat lba" using assms by (simp add: lba28_def)
  have "unat lba + 8 < 2 ^ 32" using assms by simp
  then show u: "unat (lba + 8) = unat lba + 8" by (simp add: unat_word_ariths)
  show "unat (lba + 8) + 8 * n < 2 ^ 28" using assms by (simp add: u)
qed

lemma area_addrs:
  "unat lba + 8 * length bs < 2 ^ 28 \<Longrightarrow>
   fst ` set (area_writes lba bs) = {unat lba..<unat lba + 8 * length bs}"
proof (induction bs arbitrary: lba)
  case Nil
  then show ?case by simp
next
  case (Cons b bs)
  have pre: "unat lba + 8 * Suc (length bs) < 2 ^ 28" using Cons.prems by simp
  note l = lba_next [OF pre]
  have "fst ` set (area_writes lba (b # bs))
      = {unat lba..<unat lba + 8} \<union> {unat lba + 8..<unat lba + 8 + 8 * length bs}"
    using Cons.IH [OF l(3)] l by (simp add: image_Un fst_sector_writes)
  also have "\<dots> = {unat lba..<unat lba + 8 * length (b # bs)}" by auto
  finally show ?case .
qed

lemma stored_cong:
  "unat lba + 8 * length bs < 2 ^ 28 \<Longrightarrow>
   (\<And>a. unat lba \<le> a \<Longrightarrow> a < unat lba + 8 * length bs \<Longrightarrow> f a = g a) \<Longrightarrow>
   stored f lba bs = stored g lba bs"
proof (induction bs arbitrary: lba)
  case Nil
  then show ?case by simp
next
  case (Cons b bs)
  have pre: "unat lba + 8 * Suc (length bs) < 2 ^ 28" using Cons.prems(1) by simp
  note l = lba_next [OF pre]
  have "map f [lba28 lba..<lba28 lba + 8] = map g [lba28 lba..<lba28 lba + 8]"
    by (rule map_cong) (use Cons.prems(2) l in auto)
  moreover have "stored f (lba + 8) bs = stored g (lba + 8) bs"
    by (rule Cons.IH) (use Cons.prems(2) l in auto)
  ultimately show ?case by (simp only: stored.simps)
qed

lemma area_writes_stored:
  "unat lba + 8 * length bs < 2 ^ 28 \<Longrightarrow> \<forall>b\<in>set bs. length b = 4096 \<Longrightarrow>
   stored (apply_writes (area_writes lba bs) f) lba bs"
proof (induction bs arbitrary: lba f)
  case Nil
  then show ?case by simp
next
  case (Cons b bs)
  have pre: "unat lba + 8 * Suc (length bs) < 2 ^ 28" using Cons.prems(1) by simp
  note l = lba_next [OF pre]
  let ?g = "apply_writes (area_writes lba (b # bs)) f"
  have g: "?g = apply_writes (area_writes (lba + 8) bs) (apply_writes (sector_writes (lba28 lba) 8 b) f)"
    by (simp add: apply_writes_append)
  have "?g (lba28 lba + i) = take 512 (drop (512 * i) b)" if "i < 8" for i
  proof -
    have "?g (lba28 lba + i) = apply_writes (sector_writes (lba28 lba) 8 b) f (lba28 lba + i)"
      unfolding g by (rule apply_writes_other) (use area_addrs [OF l(3)] l that in auto)
    with that show ?thesis by (simp add: apply_sector_writes)
  qed
  then have "concat (map ?g [lba28 lba..<lba28 lba + 8]) = b"
    using Cons.prems(2) by (intro concat_sectors) auto
  moreover have "stored ?g (lba + 8) bs"
    unfolding g by (rule Cons.IH) (use Cons.prems l in auto)
  ultimately show ?case by simp
qed

lemma journal_replay_eq:
  "intact d \<Longrightarrow> length ts = length bs \<Longrightarrow> unat lba + 8 * length bs < 2 ^ 28 \<Longrightarrow>
   stored (sectors d) lba bs \<Longrightarrow>
   (\<And>t a. t \<in> set ts \<Longrightarrow> unat lba \<le> a \<Longrightarrow> a < unat lba + 8 * length bs \<Longrightarrow>
           a \<notin> {lba28 (t * 8)..<lba28 (t * 8) + 8}) \<Longrightarrow>
   journal_replay ts lba d = (True, disk_writes (final_writes (zip ts bs)) d)"
proof (induction ts arbitrary: bs lba d)
  case Nil
  then show ?case by simp
next
  case (Cons t ts)
  then obtain b cs where bs: "bs = b # cs" by (cases bs) auto
  have pre: "unat lba + 8 * Suc (length cs) < 2 ^ 28" using Cons.prems(3) bs by simp
  note l = lba_next [OF pre]
  let ?d = "disk_writes (sector_writes (lba28 (t * 8)) 8 b) d"
  have keep: "sectors ?d a = sectors d a" if "unat lba + 8 \<le> a" "a < unat lba + 8 * length bs" for a
  proof -
    have "a \<notin> {lba28 (t * 8)..<lba28 (t * 8) + 8}" using Cons.prems(5) [of t a] that by simp
    moreover have "fst ` set (survive (power d) (sector_writes (lba28 (t * 8)) 8 b))
        \<subseteq> {lba28 (t * 8)..<lba28 (t * 8) + 8}"
      by (rule order_trans [OF survive_addrs]) (simp add: fst_sector_writes)
    ultimately have "a \<notin> fst ` set (survive (power d) (sector_writes (lba28 (t * 8)) 8 b))"
      by (rule contra_subsetD [rotated])
    then show ?thesis by (simp add: sectors_disk_writes apply_writes_other)
  qed
  have "stored (sectors ?d) (lba + 8) cs"
  proof -
    have "stored (sectors ?d) (lba + 8) cs = stored (sectors d) (lba + 8) cs"
      by (rule stored_cong) (use l keep bs in auto)
    then show ?thesis using Cons.prems(4) bs by simp
  qed
  then have IH: "journal_replay ts (lba + 8) ?d = (True, disk_writes (final_writes (zip ts cs)) ?d)"
    by (intro Cons.IH) (use Cons.prems bs l in auto)
  have "ata_read_sectors lba 8 d = (0, b)"
    using Cons.prems(1,4) bs by (simp add: ata_read_sectors_eq)
  with IH show ?case
    using Cons.prems(1) bs by (simp add: ata_write_sectors_eq disk_writes_append)
qed

section \<open>Crash consistency\<close>

text \<open>
  The phases a disk goes through: nothing of the transaction is visible; the transaction is
  committed in the journal and its targets may hold anything; all of it is in place.
\<close>

definition jclean :: "(nat \<Rightarrow> u8 list) \<Rightarrow> bool" where
  "jclean f \<longleftrightarrow> \<not> (jh_magic (journal_header_at (f 65536)) = JOURNAL_MAGIC \<and>
                  jh_committed (journal_header_at (f 65536)) = 1)"

definition phase_old :: "(nat \<Rightarrow> u8 list) \<Rightarrow> (nat \<Rightarrow> u8 list) \<Rightarrow> bool" where
  "phase_old start f \<longleftrightarrow> jclean f \<and> (\<forall>a. a \<notin> journal_area \<longrightarrow> f a = start a)"

definition phase_committed ::
  "journal \<Rightarrow> journal_txn \<Rightarrow> (nat \<Rightarrow> u8 list) \<Rightarrow> (nat \<Rightarrow> u8 list) \<Rightarrow> bool" where
  "phase_committed j txn start f \<longleftrightarrow>
     f 65536 = journal_header_bytes (txn_header j txn 1) \<and>
     stored f (JOURNAL_START_LBA + 1) (take (txn_count txn) (txn_block_data txn)) \<and>
     (\<forall>a. a \<notin> journal_area \<longrightarrow> a \<notin> fst ` set (final_writes (txn_pairs txn)) \<longrightarrow> f a = start a)"

definition phase_new :: "journal_txn \<Rightarrow> (nat \<Rightarrow> u8 list) \<Rightarrow> (nat \<Rightarrow> u8 list) \<Rightarrow> bool" where
  "phase_new txn start f \<longleftrightarrow> jclean f \<and>
     (\<forall>a. a \<notin> journal_area \<longrightarrow> f a = apply_writes (final_writes (txn_pairs txn)) start a)"

lemma lba28_start [simp]: "lba28 JOURNAL_START_LBA = 65536" "unat (JOURNAL_START_LBA + 1) = 65537"
  by (simp_all add: lba28_def JOURNAL_START_LBA_def)

lemma txn_lengths:
  assumes "txn_ok txn"
  shows "length (take (txn_count txn) (txn_block_data txn)) = txn_count txn"
    "length (take (txn_count txn) (txn_target_blocks txn)) = txn_count txn"
    "txn_count txn \<le> 16"
  using assms by (auto simp: txn_ok_def JOURNAL_MAX_BLOCKS_def)

lemma UN_Int_empty: "(\<And>x. x \<in> C \<Longrightarrow> A x \<inter> B = {}) \<Longrightarrow> (\<Union>x\<in>C. A x) \<inter> B = {}"
  by blast

lemma final_addrs:
  assumes "txn_ok txn"
  shows "fst ` set (final_writes (txn_pairs txn)) \<inter> journal_area = {}"
proof -
  have addrs: "fst ` set (final_writes tbs) = (\<Union>(t, b)\<in>set tbs. {lba28 (t * 8)..<lba28 (t * 8) + 8})" for tbs
    by (induction tbs rule: final_writes.induct) (auto simp: image_Un fst_sector_writes)
  have disj: "{lba28 (t * 8)..<lba28 (t * 8) + 8} \<inter> journal_area = {}" if "(t, b) \<in> set (txn_pairs txn)" for t b
  proof -
    have "t \<in> set (take (txn_count txn) (txn_target_blocks txn))"
      using that unfolding txn_pairs_def by (rule set_zip_leftD)
    with assms show ?thesis unfolding txn_ok_def by simp
  qed
  show ?thesis
    unfolding addrs
  proof (rule UN_Int_empty)
    fix x assume "x \<in> set (txn_pairs txn)"
    moreover obtain t b where "x = (t, b)" by fastforce
    ultimately show "(case x of (t, b) \<Rightarrow> {lba28 (t * 8)..<lba28 (t * 8) + 8}) \<inter> journal_area = {}"
      using disj [of t b] by simp
  qed
qed

lemma area_write_addrs:
  assumes "txn_ok txn"
  shows "fst ` set (area_writes (JOURNAL_START_LBA + 1) (take (txn_count txn) (txn_block_data txn)))
         = {65537..<65537 + 8 * txn_count txn}"
proof -
  have "unat (JOURNAL_START_LBA + 1) + 8 * length (take (txn_count txn) (txn_block_data txn)) < 2 ^ 28"
    using txn_lengths [OF assms] by simp
  from area_addrs [OF this] txn_lengths [OF assms] show ?thesis by simp
qed

lemma jclean_txn_header: "txn_ok txn \<Longrightarrow> c \<noteq> 1 \<Longrightarrow> f 65536 = journal_header_bytes (txn_header j txn c) \<Longrightarrow> jclean f"
  by (simp add: jclean_def journal_header_roundtrip) (simp add: txn_header_def)

lemma read_header: "intact d \<Longrightarrow> ata_read_sectors JOURNAL_START_LBA 1 d = (0, sectors d 65536)"
  by (simp add: ata_read_sectors_eq)

lemma journal_recover_clean:
  assumes "intact d" "jclean (sectors d)" "journal_ready j"
  shows "journal_recover j d = (0, d)"
  using assms by (auto simp: journal_recover_def read_header jclean_def Let_def)

lemma journal_recover_committed:
  assumes "intact d" "txn_ok txn" "phase_committed j txn start (sectors d)" "journal_ready jb"
  shows "journal_recover jb d
         = (1, disk_writes (final_writes (txn_pairs txn) @ [header_write (txn_header j txn 2)]) d)"
proof -
  let ?n = "txn_count txn" and ?h = "txn_header j txn 1"
  have hdr: "sectors d 65536 = journal_header_bytes ?h" using assms(3) by (simp add: phase_committed_def)
  then have at: "journal_header_at (sectors d 65536) = ?h" using assms(2) by (simp add: journal_header_roundtrip)
  have "unat (of_nat ?n :: u32) = ?n" using txn_lengths(3) [OF assms(2)] by (simp add: unat_of_nat)
  then have ts: "take (min (unat (jh_block_count ?h)) JOURNAL_MAX_BLOCKS) (jh_target_blocks ?h)
      = take ?n (txn_target_blocks txn)"
    using assms(2) by (simp add: txn_header_def txn_ok_def JOURNAL_MAX_BLOCKS_def min_def)
  have disj: "a \<notin> {lba28 (t * 8)..<lba28 (t * 8) + 8}"
    if "t \<in> set (take ?n (txn_target_blocks txn))" "65537 \<le> a" "a < 65537 + 8 * ?n" for t a
  proof -
    have "a \<in> journal_area" using that txn_lengths(3) [OF assms(2)] by (simp add: journal_area_def)
    moreover have "{lba28 (t * 8)..<lba28 (t * 8) + 8} \<inter> journal_area = {}"
      using that(1) assms(2) unfolding txn_ok_def by simp
    ultimately show ?thesis by (metis IntI empty_iff)
  qed
  have "journal_replay (take ?n (txn_target_blocks txn)) (JOURNAL_START_LBA + 1) d
      = (True, disk_writes (final_writes (txn_pairs txn)) d)"
    unfolding txn_pairs_def
    by (rule journal_replay_eq)
      (use assms disj txn_lengths [OF assms(2)] in \<open>auto simp: phase_committed_def\<close>)
  moreover have "take 12 (sectors d 65536) @ enc32 2 @ drop 16 (sectors d 65536)
      = journal_header_bytes (txn_header j txn 2)"
    unfolding hdr using assms(2) by (simp add: journal_header_set_committed) (simp add: txn_header_def)
  ultimately show ?thesis
    using assms(1,2,4) at ts
    by (simp add: journal_recover_def read_header Let_def header_sector_write disk_writes_append)
      (simp add: txn_header_def)
qed

lemma survive_cases:
  "survive p (us @ v # vs @ [w]) = us @ v # vs @ [w] \<or>
   (\<exists>k. survive p (us @ v # vs @ [w]) = take k us) \<or>
   (\<exists>k. survive p (us @ v # vs @ [w]) = us @ v # take k vs)"
proof (cases p)
  case None
  then show ?thesis by (simp add: survive_def)
next
  case (Some k)
  consider "k \<le> length us" | "length us < k" "k \<le> length us + Suc (length vs)"
    | "length us + Suc (length vs) < k"
    by linarith
  then show ?thesis
  proof cases
    case 1
    with Some show ?thesis by (auto simp: survive_def)
  next
    case 2
    then have "take k (us @ v # vs @ [w]) = us @ v # take (k - length us - 1) vs"
      by (auto simp: take_Cons')
    with Some show ?thesis unfolding survive_def by auto
  next
    case 3
    with Some show ?thesis by (simp add: survive_def)
  qed
qed

lemma phase_committed_step:
  assumes "txn_ok txn" "phase_committed j txn start f"
  shows "phase_committed j txn start (apply_writes (take k (final_writes (txn_pairs txn))) f)"
proof -
  let ?g = "apply_writes (take k (final_writes (txn_pairs txn))) f"
  have sub: "fst ` set (take k (final_writes (txn_pairs txn))) \<subseteq> fst ` set (final_writes (txn_pairs txn))"
    by (intro image_mono set_take_subset)
  have area: "?g a = f a" if "a \<in> journal_area" for a
    by (rule apply_writes_other) (use final_addrs [OF assms(1)] sub that in blast)
  have "stored ?g (JOURNAL_START_LBA + 1) (take (txn_count txn) (txn_block_data txn))
      = stored f (JOURNAL_START_LBA + 1) (take (txn_count txn) (txn_block_data txn))"
    by (rule stored_cong) (use area txn_lengths [OF assms(1)] in \<open>auto simp: journal_area_def\<close>)
  moreover have "?g a = f a" if "a \<notin> fst ` set (final_writes (txn_pairs txn))" for a
    by (rule apply_writes_other) (use sub that in blast)
  moreover have "?g 65536 = f 65536" by (rule area) (simp add: journal_area_def)
  ultimately show ?thesis using assms(2) unfolding phase_committed_def by simp
qed

lemma phase_committed_done:
  assumes "txn_ok txn" "phase_committed j txn start f"
  shows "phase_new txn start
           (apply_writes (final_writes (txn_pairs txn) @ [header_write (txn_header j txn 2)]) f)"
proof -
  let ?ws = "final_writes (txn_pairs txn)"
  let ?g = "apply_writes (?ws @ [header_write (txn_header j txn 2)]) f"
  have g: "?g = (apply_writes ?ws f)(65536 := journal_header_bytes (txn_header j txn 2))"
    by (simp add: apply_writes_append header_write_def)
  have "jclean ?g" using assms(1) by (intro jclean_txn_header [where c = 2]) (auto simp: g)
  moreover have "?g a = apply_writes ?ws start a" if "a \<notin> journal_area" for a
  proof -
    have "a \<noteq> 65536" using that by (auto simp: journal_area_def)
    then have "?g a = apply_writes ?ws f a" by (simp add: g)
    also have "\<dots> = apply_writes ?ws start a"
      by (rule apply_writes_cong) (use assms(2) that in \<open>simp add: phase_committed_def\<close>)
    finally show ?thesis .
  qed
  ultimately show ?thesis by (simp add: phase_new_def)
qed

lemma phase_old_step:
  assumes "txn_ok txn" "jclean start"
  shows "phase_old start (apply_writes (take k (header_write (txn_header j txn 0) #
      area_writes (JOURNAL_START_LBA + 1) (take (txn_count txn) (txn_block_data txn)))) start)"
proof (cases k)
  case 0
  with assms show ?thesis by (simp add: phase_old_def)
next
  case (Suc m)
  let ?as = "area_writes (JOURNAL_START_LBA + 1) (take (txn_count txn) (txn_block_data txn))"
  let ?f = "start(65536 := journal_header_bytes (txn_header j txn 0))"
  let ?g = "apply_writes (take m ?as) ?f"
  have sub: "fst ` set (take m ?as) \<subseteq> {65537..<65537 + 8 * txn_count txn}"
    using area_write_addrs [OF assms(1)] set_take_subset [of m ?as] by (metis image_mono)
  have "?g 65536 = ?f 65536"
    by (rule apply_writes_other, rule contra_subsetD [OF sub]) simp
  then have "jclean ?g" using assms(1) by (intro jclean_txn_header [where c = 0]) auto
  moreover have "?g a = start a" if "a \<notin> journal_area" for a
  proof -
    have "?g a = ?f a"
      by (rule apply_writes_other, rule contra_subsetD [OF sub])
        (use that txn_lengths(3) [OF assms(1)] in \<open>auto simp: journal_area_def\<close>)
    then show ?thesis using that by (auto simp: journal_area_def)
  qed
  ultimately show ?thesis using Suc by (simp add: phase_old_def header_write_def)
qed

lemma phase_commit_point:
  assumes "txn_ok txn"
  shows "phase_committed j txn start (apply_writes ((header_write (txn_header j txn 0) #
      area_writes (JOURNAL_START_LBA + 1) (take (txn_count txn) (txn_block_data txn))) @
      [header_write (txn_header j txn 1)]) start)"
proof -
  let ?as = "area_writes (JOURNAL_START_LBA + 1) (take (txn_count txn) (txn_block_data txn))"
  let ?f = "apply_writes ?as (start(65536 := journal_header_bytes (txn_header j txn 0)))"
  let ?g = "?f(65536 := journal_header_bytes (txn_header j txn 1))"
  have len: "unat (JOURNAL_START_LBA + 1) + 8 * length (take (txn_count txn) (txn_block_data txn)) < 2 ^ 28"
    using txn_lengths [OF assms] by simp
  have "stored ?f (JOURNAL_START_LBA + 1) (take (txn_count txn) (txn_block_data txn))"
    using len by (rule area_writes_stored) (use assms in \<open>simp add: txn_ok_def\<close>)
  then have "stored ?g (JOURNAL_START_LBA + 1) (take (txn_count txn) (txn_block_data txn))"
    using stored_cong [OF len, of ?g ?f] by auto
  moreover have "?g a = start a" if "a \<notin> journal_area" for a
  proof -
    have "?f a = (start(65536 := journal_header_bytes (txn_header j txn 0))) a"
      by (rule apply_writes_other, unfold area_write_addrs [OF assms])
        (use that txn_lengths(3) [OF assms] in \<open>auto simp: journal_area_def\<close>)
    with that show ?thesis by (auto simp: journal_area_def)
  qed
  ultimately show ?thesis
    by (simp add: phase_committed_def apply_writes_append header_write_def)
qed

text \<open>One boot with recovery, during which the power may fail after \<open>p\<close> sector writes.\<close>

definition reboot :: "journal \<Rightarrow> disk \<Rightarrow> nat option \<Rightarrow> disk" where
  "reboot jb d p = snd (journal_recover (journal_init jb) (d\<lparr>power := p\<rparr>))"

definition disk_phase :: "journal \<Rightarrow> journal_txn \<Rightarrow> (nat \<Rightarrow> u8 list) \<Rightarrow> disk \<Rightarrow> bool" where
  "disk_phase j txn start d \<longleftrightarrow> intact d \<and>
     (phase_old start (sectors d) \<or> phase_committed j txn start (sectors d) \<or> phase_new txn start (sectors d))"

lemma intact_power [simp]: "intact (d\<lparr>power := p\<rparr>) = intact d"
  by (simp add: intact_def)

lemma journal_init_ready [simp]: "journal_ready (journal_init jb)"
  by (simp add: journal_init_def)

lemma reboot_phase:
  assumes "txn_ok txn" "disk_phase j txn start d"
  shows "disk_phase j txn start (reboot jb d p)"
    and "p = None \<Longrightarrow> phase_old start (sectors (reboot jb d p)) \<or> phase_new txn start (sectors (reboot jb d p))"
proof -
  let ?d = "d\<lparr>power := p\<rparr>"
  have intact: "intact ?d" using assms(2) by (simp add: disk_phase_def)
  have "disk_phase j txn start (reboot jb d p) \<and> (p = None \<longrightarrow>
      phase_old start (sectors (reboot jb d p)) \<or> phase_new txn start (sectors (reboot jb d p)))"
  proof (cases "phase_committed j txn start (sectors d)")
    case True
    let ?ws = "final_writes (txn_pairs txn)"
    have r: "reboot jb d p = disk_writes (?ws @ [header_write (txn_header j txn 2)]) ?d"
      unfolding reboot_def using journal_recover_committed [OF intact assms(1) _ journal_init_ready] True by simp
    have sec: "sectors (reboot jb d p)
        = apply_writes (survive p (?ws @ [header_write (txn_header j txn 2)])) (sectors d)"
      unfolding r by (simp add: sectors_disk_writes)
    have "survive p (?ws @ [header_write (txn_header j txn 2)]) = ?ws @ [header_write (txn_header j txn 2)] \<or>
        (p \<noteq> None \<and> (\<exists>k. survive p (?ws @ [header_write (txn_header j txn 2)]) = take k ?ws))"
      by (cases p) (auto simp: survive_def take_Cons')
    then show ?thesis
      using phase_committed_done [OF assms(1) True] phase_committed_step [OF assms(1) True] intact
      unfolding disk_phase_def sec by (auto simp: r)
  next
    case False
    then have "jclean (sectors ?d)"
      using assms(2) by (auto simp: disk_phase_def phase_old_def phase_new_def)
    then have "reboot jb d p = ?d"
      unfolding reboot_def using journal_recover_clean [OF intact _ journal_init_ready] by simp
    with assms(2) False intact show ?thesis by (auto simp: disk_phase_def)
  qed
  then show "disk_phase j txn start (reboot jb d p)"
    and "p = None \<Longrightarrow> phase_old start (sectors (reboot jb d p)) \<or> phase_new txn start (sectors (reboot jb d p))"
    by blast+
qed

lemma reboots_phase:
  "txn_ok txn \<Longrightarrow> disk_phase j txn start d \<Longrightarrow> disk_phase j txn start (foldl (reboot jb) d ps)"
  by (induction ps arbitrary: d) (auto simp: reboot_phase)

lemma commit_phase:
  assumes "txn_ok txn" "intact d" "jclean (sectors d)"
  shows "disk_phase j txn (sectors d) (disk_writes (commit_writes j txn) d)"
    and "power d = None \<Longrightarrow> phase_new txn (sectors d) (sectors (disk_writes (commit_writes j txn) d))"
proof -
  let ?us = "header_write (txn_header j txn 0) #
      area_writes (JOURNAL_START_LBA + 1) (take (txn_count txn) (txn_block_data txn))"
  let ?c = "header_write (txn_header j txn 1)" and ?ws = "final_writes (txn_pairs txn)"
  let ?e = "header_write (txn_header j txn 2)"
  have cw: "commit_writes j txn = ?us @ ?c # ?ws @ [?e]" by (simp add: commit_writes_def)
  have point: "phase_committed j txn (sectors d) (apply_writes (?us @ [?c]) (sectors d))"
    using assms(1) by (rule phase_commit_point)
  have all: "apply_writes (?us @ ?c # ?ws @ [?e]) (sectors d)
      = apply_writes (?ws @ [?e]) (apply_writes (?us @ [?c]) (sectors d))"
    by (simp only: apply_writes_append [symmetric] append_assoc append_Cons append_Nil)
  have new: "phase_new txn (sectors d) (apply_writes (?us @ ?c # ?ws @ [?e]) (sectors d))"
    unfolding all using assms(1) point by (rule phase_committed_done)
  have part: "phase_committed j txn (sectors d) (apply_writes (?us @ ?c # take k ?ws) (sectors d))" for k
  proof -
    have "apply_writes (?us @ ?c # take k ?ws) (sectors d)
        = apply_writes (take k ?ws) (apply_writes (?us @ [?c]) (sectors d))"
      by (simp only: apply_writes_append [symmetric] append_assoc append_Cons append_Nil)
    with phase_committed_step [OF assms(1) point] show ?thesis by simp
  qed
  have old: "phase_old (sectors d) (apply_writes (take k ?us) (sectors d))" for k
    using assms(1,3) by (rule phase_old_step)
  have sec: "sectors (disk_writes (commit_writes j txn) d)
      = apply_writes (survive (power d) (?us @ ?c # ?ws @ [?e])) (sectors d)"
    by (simp only: cw sectors_disk_writes)
  show "disk_phase j txn (sectors d) (disk_writes (commit_writes j txn) d)"
    unfolding disk_phase_def sec intact_disk_writes
    using survive_cases [of "power d" ?us ?c ?ws ?e] new part old assms(2) by (metis (no_types, lifting))
  show "phase_new txn (sectors d) (sectors (disk_writes (commit_writes j txn) d))" if "power d = None"
    unfolding sec using new that by (simp only: survive_def option.case)
qed

text \<open>
  C3 (a transaction is atomic across power failures). A valid transaction is committed on an
  intact disk whose journal holds no unapplied transaction; the power may fail before any sector
  write of the commit. Then the machine is rebooted any number of times, and each recovery may
  itself be cut off before any sector write. After a recovery that runs to its end, every sector
  outside the journal area holds either what it held before the transaction, for all sectors
  alike, or the result of all the block writes of the transaction; the journal is clean again. If
  the power never failed during the commit, it is the new state.
\<close>

theorem journal_commit_crash_atomic:
  assumes "intact d" "txn_ok txn" "jclean (sectors d)"
    and "journal_commit j (Some txn) d = (r, j', t', d1)"
    and "final = reboot jb (foldl (reboot jb) d1 ps) None"
  shows "r = 0 \<and> jclean (sectors final) \<and>
         ((\<forall>a. a \<notin> journal_area \<longrightarrow> sectors final a = sectors d a) \<or>
          (\<forall>a. a \<notin> journal_area \<longrightarrow>
               sectors final a = apply_writes (final_writes (txn_pairs txn)) (sectors d) a)) \<and>
         (power d = None \<longrightarrow>
            (\<forall>a. a \<notin> journal_area \<longrightarrow>
               sectors d1 a = apply_writes (final_writes (txn_pairs txn)) (sectors d) a))"
proof -
  have d1: "d1 = disk_writes (commit_writes j txn) d" "r = 0"
    using journal_commit_writes [OF assms(1,2)] assms(4) by auto
  have "disk_phase j txn (sectors d) (foldl (reboot jb) d1 ps)"
    unfolding d1 by (intro reboots_phase commit_phase assms)
  from reboot_phase(2) [OF assms(2) this] assms(5)
  have "phase_old (sectors d) (sectors final) \<or> phase_new txn (sectors d) (sectors final)" by simp
  moreover have "power d = None \<Longrightarrow> phase_new txn (sectors d) (sectors d1)"
    unfolding d1 using assms by (intro commit_phase)
  ultimately show ?thesis using d1(2) unfolding phase_old_def phase_new_def by blast
qed

definition demo_disk :: "nat option \<Rightarrow> disk" where
  "demo_disk p = \<lparr>primary_present = True, sector_ok = (\<lambda>_. True), sectors = (\<lambda>_. replicate 512 0), power = p\<rparr>"

definition demo_txn :: journal_txn where
  "demo_txn = \<lparr>txn_target_blocks = 100 # replicate 15 0, txn_block_data = replicate 4096 7 # replicate 15 [],
     txn_count = 1, txn_active = True\<rparr>"

theorem journal_commit_crash_atomic_witness:
  "let j = \<lparr>journal_seq = 0, journal_ready = True\<rparr>;
       d1 = snd (snd (snd (journal_commit j (Some demo_txn) (demo_disk (Some 12)))));
       final = reboot j (foldl (reboot j) d1 [Some 3, Some 0]) None
   in jclean (sectors final)"
proof -
  let ?j = "\<lparr>journal_seq = 0, journal_ready = True\<rparr>"
  have d: "intact (demo_disk (Some 12))" by (simp add: intact_def demo_disk_def)
  have t: "txn_ok demo_txn"
    by (simp add: txn_ok_def demo_txn_def JOURNAL_MAX_BLOCKS_def lba28_def journal_area_def)
  have c: "jclean (sectors (demo_disk (Some 12)))"
    by (simp add: jclean_def demo_disk_def journal_header_at_def le32_def at_def JOURNAL_MAGIC_def)
  obtain r j' t' d1 where run: "journal_commit ?j (Some demo_txn) (demo_disk (Some 12)) = (r, j', t', d1)"
    by (metis prod_cases4)
  from journal_commit_crash_atomic [OF d t c run refl, of ?j "[Some 3, Some 0]"] run
  show ?thesis by (simp add: Let_def)
qed

end
