(* ===== verification/KHeap.thy ===== *)
theory KHeap
  imports Prelude
begin

text \<open>
  The kernel heap (\<^verbatim>\<open>kernel/memory/kheap.c\<close>): a first-fit allocator with a singly linked free list
  kept in address order, splitting on allocation and coalescing on free. Addresses and sizes are
  \<^verbatim>\<open>uint64_t\<close> values as \<open>nat\<close> with the wrap-around of the source's additions and subtractions
  written out; \<open>kh_mem\<close> maps the address of a block to its header and 0 is \<^verbatim>\<open>NULL\<close>. The list walks
  follow pointers and may not end on a corrupted list, so they are partial functions.

  The abstract view is the list of tiles \<open>(size, free)\<close> that cover the heap from its start to its
  end without gaps; \<open>rep\<close> is the representation relation.
\<close>

record kheap_block =
  kb_size :: nat
  kb_next :: nat
  kb_magic :: nat

record kheap =
  kh_mem :: "nat \<Rightarrow> kheap_block"
  kh_free_list :: nat
  kh_start :: nat
  kh_end :: nat

definition KHEAP_START :: nat where "KHEAP_START = 0xFFFFFFFF90000000"
definition BLOCK_MAGIC_ALLOC :: nat where "BLOCK_MAGIC_ALLOC = 0xDEADBEEF"
definition BLOCK_MAGIC_FREE :: nat where "BLOCK_MAGIC_FREE = 0xFBEEBEEF"
definition BLOCK_HDR_SIZE :: nat where "BLOCK_HDR_SIZE = 24"
definition MIN_BLOCK_SIZE :: nat where "MIN_BLOCK_SIZE = 16"
definition HEAP_PAGE :: nat where "HEAP_PAGE = 4096"

section \<open>Operations\<close>

definition set_block :: "nat \<Rightarrow> kheap_block \<Rightarrow> kheap \<Rightarrow> kheap" where
  "set_block a b h = h\<lparr>kh_mem := (kh_mem h)(a := b)\<rparr>"

definition upd_block :: "nat \<Rightarrow> (kheap_block \<Rightarrow> kheap_block) \<Rightarrow> kheap \<Rightarrow> kheap" where
  "upd_block a f h = set_block a (f (kh_mem h a)) h"

text \<open>The end of \<^verbatim>\<open>kheap_init\<close>: one free block over the pages that could be mapped.\<close>

definition kheap_setup :: "nat \<Rightarrow> kheap \<Rightarrow> kheap" where
  "kheap_setup mapped_end h =
     set_block KHEAP_START
       \<lparr>kb_size = sub64 (sub64 mapped_end KHEAP_START) BLOCK_HDR_SIZE, kb_next = 0,
        kb_magic = BLOCK_MAGIC_FREE\<rparr>
       (h\<lparr>kh_start := KHEAP_START, kh_end := mapped_end, kh_free_list := KHEAP_START\<rparr>)"

text \<open>\<^verbatim>\<open>if (prev) prev->next = p; else free_list = p;\<close>\<close>

definition link_prev :: "nat \<Rightarrow> nat \<Rightarrow> kheap \<Rightarrow> kheap" where
  "link_prev prev p h =
     (if prev \<noteq> 0 then upd_block prev (\<lambda>b. b\<lparr>kb_next := p\<rparr>) h else h\<lparr>kh_free_list := p\<rparr>)"

partial_function (option) kmalloc_find ::
  "(nat \<Rightarrow> kheap_block) \<Rightarrow> nat \<Rightarrow> nat \<Rightarrow> nat \<Rightarrow> (nat \<times> nat) option option" where
  "kmalloc_find m sz prev cur =
     (if cur = 0 then Some None
      else if kb_magic (m cur) \<noteq> BLOCK_MAGIC_FREE then Some None
      else if kb_size (m cur) \<ge> sz then Some (Some (prev, cur))
      else kmalloc_find m sz cur (kb_next (m cur)))"

definition round_up :: "nat \<Rightarrow> nat \<Rightarrow> nat" where
  "round_up align sz = add64 sz (align - 1) div align * align"

text \<open>Take the block \<open>cur\<close> found by the walk: split it when the rest can hold a block.\<close>

definition take_block :: "nat \<Rightarrow> nat \<Rightarrow> nat \<Rightarrow> kheap \<Rightarrow> kheap" where
  "take_block sz prev cur h =
     (let b = kh_mem h cur in
      if kb_size b \<ge> add64 (add64 sz BLOCK_HDR_SIZE) MIN_BLOCK_SIZE then
        (let new_free = add64 (add64 cur BLOCK_HDR_SIZE) sz;
             h1 = set_block new_free
                    \<lparr>kb_size = sub64 (sub64 (kb_size b) sz) BLOCK_HDR_SIZE, kb_next = kb_next b,
                     kb_magic = BLOCK_MAGIC_FREE\<rparr> h;
             h2 = set_block cur \<lparr>kb_size = sz, kb_next = 0, kb_magic = BLOCK_MAGIC_ALLOC\<rparr> h1
         in link_prev prev new_free h2)
      else
        (let h1 = upd_block cur (\<lambda>b. b\<lparr>kb_magic := BLOCK_MAGIC_ALLOC\<rparr>) h;
             h2 = link_prev prev (kb_next (kh_mem h1 cur)) h1
         in upd_block cur (\<lambda>b. b\<lparr>kb_next := 0\<rparr>) h2))"

definition kmalloc :: "nat \<Rightarrow> kheap \<Rightarrow> (nat \<times> kheap) option" where
  "kmalloc sz0 h =
     (if sz0 = 0 then Some (0, h)
      else
        (let sz = round_up 16 sz0 in
         Option.bind (kmalloc_find (kh_mem h) sz 0 (kh_free_list h))
           (\<lambda>r. case r of
                  None \<Rightarrow> Some (0, h)
                | Some (prev, cur) \<Rightarrow> Some (add64 cur BLOCK_HDR_SIZE, take_block sz prev cur h))))"

text \<open>Where \<^verbatim>\<open>kmalloc_page_aligned\<close> would put the data in the free block \<open>cur\<close>, and the bytes before it.\<close>

definition aligned_waste :: "nat \<Rightarrow> nat \<times> nat" where
  "aligned_waste cur =
     (let data_start = add64 cur BLOCK_HDR_SIZE;
          aligned = round_up HEAP_PAGE data_start;
          waste = sub64 aligned data_start
      in if waste \<noteq> 0 \<and> waste < BLOCK_HDR_SIZE + MIN_BLOCK_SIZE
         then (add64 aligned HEAP_PAGE, sub64 (add64 aligned HEAP_PAGE) data_start)
         else (aligned, waste))"

definition fits_aligned :: "nat \<Rightarrow> nat \<Rightarrow> nat \<Rightarrow> bool" where
  "fits_aligned sz cur bsize =
     (let waste = snd (aligned_waste cur) in
      waste = 0 \<and> bsize \<ge> sz \<or>
      waste \<ge> BLOCK_HDR_SIZE + MIN_BLOCK_SIZE \<and> bsize \<ge> add64 waste sz)"

partial_function (option) kmalloc_page_find ::
  "(nat \<Rightarrow> kheap_block) \<Rightarrow> nat \<Rightarrow> nat \<Rightarrow> nat \<Rightarrow> (nat \<times> nat) option option" where
  "kmalloc_page_find m sz prev cur =
     (if cur = 0 then Some None
      else if kb_magic (m cur) \<noteq> BLOCK_MAGIC_FREE then Some None
      else if fits_aligned sz cur (kb_size (m cur)) then Some (Some (prev, cur))
      else kmalloc_page_find m sz cur (kb_next (m cur)))"

definition carve_aligned :: "nat \<Rightarrow> nat \<Rightarrow> nat \<Rightarrow> nat \<Rightarrow> kheap \<Rightarrow> kheap" where
  "carve_aligned sz aligned waste cur h =
     (let b = kh_mem h cur;
          ab = sub64 aligned BLOCK_HDR_SIZE;
          h1 = set_block ab \<lparr>kb_size = sz, kb_next = 0, kb_magic = BLOCK_MAGIC_ALLOC\<rparr> h;
          remaining = sub64 (sub64 (kb_size b) waste) sz;
          h2 = upd_block cur (\<lambda>b. b\<lparr>kb_size := sub64 waste BLOCK_HDR_SIZE\<rparr>) h1
      in if remaining \<ge> BLOCK_HDR_SIZE + MIN_BLOCK_SIZE then
           (let tail = add64 (add64 ab BLOCK_HDR_SIZE) sz;
                h3 = set_block tail \<lparr>kb_size = sub64 remaining BLOCK_HDR_SIZE,
                       kb_next = kb_next (kh_mem h2 cur), kb_magic = BLOCK_MAGIC_FREE\<rparr> h2
            in upd_block cur (\<lambda>b. b\<lparr>kb_next := tail\<rparr>) h3)
         else upd_block ab (\<lambda>b. b\<lparr>kb_size := add64 (kb_size b) remaining\<rparr>) h2)"

definition kmalloc_page_aligned :: "nat \<Rightarrow> kheap \<Rightarrow> (nat \<times> kheap) option" where
  "kmalloc_page_aligned sz0 h =
     (if sz0 = 0 then Some (0, h)
      else
        (let sz = round_up HEAP_PAGE sz0 in
         Option.bind (kmalloc_page_find (kh_mem h) sz 0 (kh_free_list h))
           (\<lambda>r. case r of
                  None \<Rightarrow> Some (0, h)
                | Some (prev, cur) \<Rightarrow>
                    (let (aligned, waste) = aligned_waste cur in
                     if waste = 0
                     then Some (add64 cur BLOCK_HDR_SIZE, take_block sz prev cur h)
                     else Some (aligned, carve_aligned sz aligned waste cur h)))))"

partial_function (option) kfree_find ::
  "(nat \<Rightarrow> kheap_block) \<Rightarrow> nat \<Rightarrow> nat \<Rightarrow> nat \<Rightarrow> (nat \<times> nat) option" where
  "kfree_find m block prev cur =
     (if cur \<noteq> 0 \<and> cur < block then kfree_find m block cur (kb_next (m cur)) else Some (prev, cur))"

definition coalesce_next :: "nat \<Rightarrow> kheap \<Rightarrow> kheap" where
  "coalesce_next block h =
     (let b = kh_mem h block; nx = kb_next b in
      if nx \<noteq> 0 \<and> add64 (add64 block BLOCK_HDR_SIZE) (kb_size b) = nx
      then set_block block (b\<lparr>kb_size := add64 (kb_size b) (add64 BLOCK_HDR_SIZE (kb_size (kh_mem h nx))),
                              kb_next := kb_next (kh_mem h nx)\<rparr>) h
      else h)"

definition coalesce_prev :: "nat \<Rightarrow> nat \<Rightarrow> kheap \<Rightarrow> kheap" where
  "coalesce_prev prev block h =
     (let p = kh_mem h prev in
      if prev \<noteq> 0 \<and> kb_magic p = BLOCK_MAGIC_FREE \<and>
         add64 (add64 prev BLOCK_HDR_SIZE) (kb_size p) = block
      then set_block prev (p\<lparr>kb_size := add64 (kb_size p) (add64 BLOCK_HDR_SIZE (kb_size (kh_mem h block))),
                             kb_next := kb_next (kh_mem h block)\<rparr>) h
      else h)"

definition kfree :: "nat \<Rightarrow> kheap \<Rightarrow> kheap option" where
  "kfree ptr h =
     (if ptr = 0 then Some h
      else
        (let block = sub64 ptr BLOCK_HDR_SIZE in
         if kb_magic (kh_mem h block) \<noteq> BLOCK_MAGIC_ALLOC then Some h
         else
           (let h1 = upd_block block (\<lambda>b. b\<lparr>kb_magic := BLOCK_MAGIC_FREE\<rparr>) h in
            Option.bind (kfree_find (kh_mem h1) block 0 (kh_free_list h1))
              (\<lambda>(prev, cur).
                 Some (coalesce_prev prev block
                   (coalesce_next block
                     (link_prev prev block (upd_block block (\<lambda>b. b\<lparr>kb_next := cur\<rparr>) h1))))))))"

section \<open>The heap as a list of tiles\<close>

type_synonym tile = "nat \<times> bool"

text \<open>
  \<open>tend a ts\<close>: the address after the tiles \<open>ts\<close> laid out from \<open>a\<close>; \<open>nextf a ts nx\<close>: the address of the
  first free tile, \<open>nx\<close> if there is none; \<open>lastf a ts p\<close>: that of the last free tile, \<open>p\<close> if none.
\<close>

fun tend :: "nat \<Rightarrow> tile list \<Rightarrow> nat" where
  "tend a [] = a"
| "tend a ((s, f) # ts) = tend (a + BLOCK_HDR_SIZE + s) ts"

fun nextf :: "nat \<Rightarrow> tile list \<Rightarrow> nat \<Rightarrow> nat" where
  "nextf a [] nx = nx"
| "nextf a ((s, f) # ts) nx = (if f then a else nextf (a + BLOCK_HDR_SIZE + s) ts nx)"

fun lastf :: "nat \<Rightarrow> tile list \<Rightarrow> nat \<Rightarrow> nat" where
  "lastf a [] p = p"
| "lastf a ((s, f) # ts) p = lastf (a + BLOCK_HDR_SIZE + s) ts (if f then a else p)"

text \<open>The headers in memory describe the tiles, and the free ones are linked in address order.\<close>

fun rep :: "(nat \<Rightarrow> kheap_block) \<Rightarrow> nat \<Rightarrow> tile list \<Rightarrow> nat \<Rightarrow> bool" where
  "rep m a [] nx = True"
| "rep m a ((s, f) # ts) nx \<longleftrightarrow>
     kb_size (m a) = s \<and> kb_magic (m a) = (if f then BLOCK_MAGIC_FREE else BLOCK_MAGIC_ALLOC) \<and>
     (f \<longrightarrow> kb_next (m a) = nextf (a + BLOCK_HDR_SIZE + s) ts nx) \<and>
     rep m (a + BLOCK_HDR_SIZE + s) ts nx"

definition heap_rep :: "kheap \<Rightarrow> tile list \<Rightarrow> bool" where
  "heap_rep h ts \<longleftrightarrow> rep (kh_mem h) (kh_start h) ts 0 \<and>
     kh_free_list h = nextf (kh_start h) ts 0 \<and> tend (kh_start h) ts = kh_end h \<and>
     0 < kh_start h \<and> kh_end h + 2 * HEAP_PAGE < 2 ^ 64"

lemma magic_neq [simp]: "BLOCK_MAGIC_ALLOC \<noteq> BLOCK_MAGIC_FREE" "BLOCK_MAGIC_FREE \<noteq> BLOCK_MAGIC_ALLOC"
  by (simp_all add: BLOCK_MAGIC_ALLOC_def BLOCK_MAGIC_FREE_def)

lemma tend_append [simp]: "tend a (xs @ ys) = tend (tend a xs) ys"
  by (induction a xs rule: tend.induct) auto

lemma tend_ge: "a \<le> tend a ts"
  by (induction a ts rule: tend.induct) auto

lemma tend_Cons_gt: "a < tend a (t # ts)"
proof -
  obtain s f where "t = (s, f)" by fastforce
  with tend_ge [of "a + BLOCK_HDR_SIZE + s" ts] show ?thesis by (simp add: BLOCK_HDR_SIZE_def)
qed

lemma nextf_append: "nextf a (xs @ ys) nx = nextf a xs (nextf (tend a xs) ys nx)"
  by (induction a xs nx rule: nextf.induct) auto

lemma lastf_append: "lastf a (xs @ ys) p = lastf (tend a xs) ys (lastf a xs p)"
  by (induction a xs p rule: lastf.induct) auto

lemma rep_append:
  "rep m a (xs @ ys) nx \<longleftrightarrow> rep m a xs (nextf (tend a xs) ys nx) \<and> rep m (tend a xs) ys nx"
  by (induction a xs rule: tend.induct) (auto simp: nextf_append)

lemma rep_cong:
  "(\<And>b. a \<le> b \<Longrightarrow> b < tend a ts \<Longrightarrow> m b = m' b) \<Longrightarrow> rep m a ts nx = rep m' a ts nx"
proof (induction a ts rule: tend.induct)
  case (1 a)
  then show ?case by simp
next
  case (2 a s f ts)
  have "m a = m' a" using 2(2) [of a] tend_Cons_gt [of a "(s, f)" ts] by simp
  moreover have "rep m (a + BLOCK_HDR_SIZE + s) ts nx = rep m' (a + BLOCK_HDR_SIZE + s) ts nx"
    by (rule 2(1)) (use 2(2) in auto)
  ultimately show ?case by simp
qed

lemma rep_upd_outside: "b < a \<or> tend a ts \<le> b \<Longrightarrow> rep (m(b := v)) a ts nx = rep m a ts nx"
  by (rule rep_cong) auto

lemma nextf_range: "nextf a ts nx = nx \<or> a \<le> nextf a ts nx \<and> nextf a ts nx < tend a ts"
proof (induction a ts nx rule: nextf.induct)
  case (1 a nx)
  then show ?case by simp
next
  case (2 a s f ts nx)
  then show ?case using tend_Cons_gt [of a "(s, f)" ts] by auto
qed

lemma no_free:
  assumes "\<forall>t\<in>set xs. \<not> snd t"
  shows "lastf a xs p = p" "nextf a xs nx = nx" "rep m a xs nx = rep m a xs nx'"
  using assms by (induction xs arbitrary: a) auto

lemma split_last_free:
  "(\<forall>t\<in>set xs. \<not> snd t) \<or> (\<exists>us s vs. xs = us @ (s, True) # vs \<and> (\<forall>t\<in>set vs. \<not> snd t))"
proof (cases "\<exists>t\<in>set xs. snd t")
  case True
  from split_list_last_prop [OF this] obtain us t vs where
    "xs = us @ t # vs" "snd t" "\<forall>t\<in>set vs. \<not> snd t" by auto
  then show ?thesis by (cases t) auto
qed auto

lemma lastf_last_free:
  "\<forall>t\<in>set vs. \<not> snd t \<Longrightarrow> lastf a (us @ (s, True) # vs) p = tend a us"
  by (simp add: lastf_append no_free(1))

text \<open>Relinking the free list after the tiles \<open>xs\<close>: the effect of \<open>link_prev\<close>.\<close>

lemma link_prev_rep:
  assumes "rep (kh_mem h) a xs nx" "0 < a" "kh_free_list h = nextf a xs nx"
  shows "rep (kh_mem (link_prev (lastf a xs 0) nx' h)) a xs nx'"
    and "kh_free_list (link_prev (lastf a xs 0) nx' h) = nextf a xs nx'"
    and "b < a \<or> tend a xs \<le> b \<Longrightarrow> kh_mem (link_prev (lastf a xs 0) nx' h) b = kh_mem h b"
proof -
  have "rep (kh_mem (link_prev (lastf a xs 0) nx' h)) a xs nx' \<and>
      kh_free_list (link_prev (lastf a xs 0) nx' h) = nextf a xs nx' \<and>
      (b < a \<or> tend a xs \<le> b \<longrightarrow> kh_mem (link_prev (lastf a xs 0) nx' h) b = kh_mem h b)"
    using split_last_free [of xs]
  proof (elim disjE exE conjE)
    assume nf: "\<forall>t\<in>set xs. \<not> snd t"
    with assms show ?thesis
      using no_free(3) [OF nf, of "kh_mem h" a nx nx'] by (simp add: link_prev_def no_free(1,2))
  next
    fix us s vs assume xs: "xs = us @ (s, True) # vs" and nf: "\<forall>t\<in>set vs. \<not> snd t"
    let ?p = "tend a us"
    have p: "lastf a xs 0 = ?p" "?p \<noteq> 0"
      using xs nf assms(2) tend_ge [of a us] by (simp_all add: lastf_last_free)
    have range: "a \<le> ?p" "?p < tend a xs"
      using tend_ge [of a us] tend_Cons_gt [of ?p "(s, True)" vs] by (simp_all add: xs)
    let ?m = "(kh_mem h)(?p := (kh_mem h ?p)\<lparr>kb_next := nx'\<rparr>)"
    have r: "rep (kh_mem h) a us ?p" "kb_size (kh_mem h ?p) = s" "kb_magic (kh_mem h ?p) = BLOCK_MAGIC_FREE"
      "rep (kh_mem h) (?p + BLOCK_HDR_SIZE + s) vs nx"
      using assms(1) by (simp_all add: xs rep_append)
    have "rep ?m a us ?p" using r(1) by (simp add: rep_upd_outside)
    moreover have "rep ?m (?p + BLOCK_HDR_SIZE + s) vs nx'"
      using r(4) no_free(3) [OF nf, of "kh_mem h" _ nx nx'] by (simp add: rep_upd_outside BLOCK_HDR_SIZE_def)
    ultimately have "rep ?m a xs nx'"
      using r nf by (simp add: xs rep_append no_free(2))
    moreover have "nextf a xs nx' = nextf a xs nx" by (simp add: xs nextf_append)
    ultimately show ?thesis
      using p range assms(3) by (auto simp: link_prev_def upd_block_def set_block_def)
  qed
  then show "rep (kh_mem (link_prev (lastf a xs 0) nx' h)) a xs nx'"
    and "kh_free_list (link_prev (lastf a xs 0) nx' h) = nextf a xs nx'"
    and "b < a \<or> tend a xs \<le> b \<Longrightarrow> kh_mem (link_prev (lastf a xs 0) nx' h) b = kh_mem h b"
    by blast+
qed

lemma link_prev_frame [simp]:
  "kh_start (link_prev p nx h) = kh_start h" "kh_end (link_prev p nx h) = kh_end h"
  by (simp_all add: link_prev_def upd_block_def set_block_def)

section \<open>The list walks\<close>

text \<open>First fit on tiles: the first free tile that satisfies \<open>P\<close>, with the free tile before it.\<close>

fun spec_find :: "(nat \<Rightarrow> nat \<Rightarrow> bool) \<Rightarrow> nat \<Rightarrow> tile list \<Rightarrow> nat \<Rightarrow> (nat \<times> nat) option" where
  "spec_find P a [] p = None"
| "spec_find P a ((s, f) # ts) p =
     (if f \<and> P a s then Some (p, a)
      else spec_find P (a + BLOCK_HDR_SIZE + s) ts (if f then a else p))"

lemma kmalloc_find_spec:
  "rep m a ts 0 \<Longrightarrow> 0 < a \<Longrightarrow>
   kmalloc_find m sz p (nextf a ts 0) = Some (spec_find (\<lambda>_ s. s \<ge> sz) a ts p)"
proof (induction ts arbitrary: a p)
  case Nil
  then show ?case by (simp add: kmalloc_find.simps)
next
  case (Cons t ts)
  obtain s f where t: "t = (s, f)" by fastforce
  show ?case
  proof (cases f)
    case True
    then show ?thesis
      using Cons t by (subst kmalloc_find.simps) auto
  next
    case False
    then show ?thesis using Cons t by simp
  qed
qed

lemma kmalloc_page_find_spec:
  "rep m a ts 0 \<Longrightarrow> 0 < a \<Longrightarrow>
   kmalloc_page_find m sz p (nextf a ts 0) = Some (spec_find (fits_aligned sz) a ts p)"
proof (induction ts arbitrary: a p)
  case Nil
  then show ?case by (simp add: kmalloc_page_find.simps)
next
  case (Cons t ts)
  obtain s f where t: "t = (s, f)" by fastforce
  show ?case
  proof (cases f)
    case True
    then show ?thesis
      using Cons t by (subst kmalloc_page_find.simps) auto
  next
    case False
    then show ?thesis using Cons t by simp
  qed
qed

lemma spec_find_Some:
  "spec_find P a ts p = Some (q, c) \<Longrightarrow>
   \<exists>xs s ys. ts = xs @ (s, True) # ys \<and> c = tend a xs \<and> q = lastf a xs p \<and> P c s"
proof (induction P a ts p rule: spec_find.induct)
  case (1 P a p)
  then show ?case by simp
next
  case (2 P a s f ts p)
  show ?case
  proof (cases "f \<and> P a s")
    case True
    with "2.prems" show ?thesis by (intro exI [of _ "[]"]) auto
  next
    case False
    with 2 obtain xs s' ys where "ts = xs @ (s', True) # ys" "c = tend (a + BLOCK_HDR_SIZE + s) xs"
      "q = lastf (a + BLOCK_HDR_SIZE + s) xs (if f then a else p)" "P c s'" by auto
    then show ?thesis by (intro exI [of _ "(s, f) # xs"] exI [of _ s'] exI [of _ ys]) simp
  qed
qed

lemma spec_find_None:
  "spec_find P a ts p = None \<Longrightarrow> ts = xs @ (s, True) # ys \<Longrightarrow> \<not> P (tend a xs) s"
proof (induction P a ts p arbitrary: xs rule: spec_find.induct)
  case (1 P a p)
  then show ?case by simp
next
  case (2 P a s' f ts p)
  show ?case
  proof (cases xs)
    case Nil
    with 2 show ?thesis by auto
  next
    case (Cons x xs')
    with 2 show ?thesis by (auto split: if_splits)
  qed
qed

lemma kfree_find_spec:
  assumes "rep m a xs nx" "\<And>c. nx = c \<Longrightarrow> c = 0 \<or> block \<le> c" "tend a xs \<le> block" "0 < a"
  shows "kfree_find m block p (nextf a xs nx) = Some (lastf a xs p, nx)"
  using assms
proof (induction xs arbitrary: a p)
  case Nil
  then show ?case by (subst kfree_find.simps) auto
next
  case (Cons t ts)
  obtain s f where t: "t = (s, f)" by fastforce
  have lt: "a < block" using tend_Cons_gt [of a t ts] Cons.prems(3) by simp
  show ?case
  proof (cases f)
    case True
    then show ?thesis
      using Cons t lt by (subst kfree_find.simps) simp
  next
    case False
    then show ?thesis using Cons t by simp
  qed
qed

section \<open>Allocation on tiles\<close>

lemma heap_bounds:
  assumes "heap_rep h (xs @ (s, f) # ys)"
  shows "0 < tend (kh_start h) xs" "tend (kh_start h) xs + BLOCK_HDR_SIZE + s \<le> kh_end h"
    "kh_start h \<le> tend (kh_start h) xs" "kh_end h < 2 ^ 64"
proof -
  have e: "tend (tend (kh_start h) xs + BLOCK_HDR_SIZE + s) ys = kh_end h" "0 < kh_start h"
    "kh_end h + 2 * HEAP_PAGE < 2 ^ 64"
    using assms by (simp_all add: heap_rep_def)
  show "kh_start h \<le> tend (kh_start h) xs" by (rule tend_ge)
  then show "0 < tend (kh_start h) xs" using e(2) by simp
  show "tend (kh_start h) xs + BLOCK_HDR_SIZE + s \<le> kh_end h"
    using tend_ge [of "tend (kh_start h) xs + BLOCK_HDR_SIZE + s" ys] e(1) by simp
  show "kh_end h < 2 ^ 64" using e(3) by simp
qed

text \<open>Taking a free tile: split off the rest if it can hold a block, else take it whole.\<close>

definition taken :: "nat \<Rightarrow> nat \<Rightarrow> tile list" where
  "taken sz s = (if s \<ge> sz + BLOCK_HDR_SIZE + MIN_BLOCK_SIZE
                 then [(sz, False), (s - sz - BLOCK_HDR_SIZE, True)] else [(s, False)])"

lemma heap_rep_split:
  "heap_rep h (xs @ (s, f) # ys) \<longleftrightarrow>
     (let a = kh_start h; c = tend a xs in
      rep (kh_mem h) a xs (if f then c else nextf (c + BLOCK_HDR_SIZE + s) ys 0) \<and>
      kb_size (kh_mem h c) = s \<and> kb_magic (kh_mem h c) = (if f then BLOCK_MAGIC_FREE else BLOCK_MAGIC_ALLOC) \<and>
      (f \<longrightarrow> kb_next (kh_mem h c) = nextf (c + BLOCK_HDR_SIZE + s) ys 0) \<and>
      rep (kh_mem h) (c + BLOCK_HDR_SIZE + s) ys 0 \<and>
      kh_free_list h = nextf a xs (if f then c else nextf (c + BLOCK_HDR_SIZE + s) ys 0) \<and>
      tend (c + BLOCK_HDR_SIZE + s) ys = kh_end h \<and> 0 < a \<and> kh_end h + 2 * HEAP_PAGE < 2 ^ 64)"
  by (auto simp: heap_rep_def rep_append nextf_append Let_def)

lemma take_block_rep:
  assumes "heap_rep h (xs @ (s, True) # ys)" "sz \<le> s"
  shows "heap_rep (take_block sz (lastf (kh_start h) xs 0) (tend (kh_start h) xs) h) (xs @ taken sz s @ ys)"
proof -
  define a where "a = kh_start h"
  define c where "c = tend a xs"
  note bnd = heap_bounds [OF assms(1), folded a_def, folded c_def]
  have H: "rep (kh_mem h) a xs c" "kb_size (kh_mem h c) = s" "kb_magic (kh_mem h c) = BLOCK_MAGIC_FREE"
    "kb_next (kh_mem h c) = nextf (c + BLOCK_HDR_SIZE + s) ys 0"
    "rep (kh_mem h) (c + BLOCK_HDR_SIZE + s) ys 0" "kh_free_list h = nextf a xs c"
    "tend (c + BLOCK_HDR_SIZE + s) ys = kh_end h" "0 < a" "kh_end h + 2 * HEAP_PAGE < 2 ^ 64"
    using assms(1) by (auto simp: heap_rep_split Let_def a_def c_def)
  have small: "c + 24 + s < 2 ^ 64" using bnd by (simp add: BLOCK_HDR_SIZE_def)
  note hsizes = BLOCK_HDR_SIZE_def MIN_BLOCK_SIZE_def
  show ?thesis
  proof (cases "s \<ge> sz + BLOCK_HDR_SIZE + MIN_BLOCK_SIZE")
    case True
    define n where "n = c + BLOCK_HDR_SIZE + sz"
    have ar: "add64 (add64 sz BLOCK_HDR_SIZE) MIN_BLOCK_SIZE = sz + BLOCK_HDR_SIZE + MIN_BLOCK_SIZE"
      "add64 (add64 c BLOCK_HDR_SIZE) sz = n"
      "sub64 (sub64 s sz) BLOCK_HDR_SIZE = s - sz - BLOCK_HDR_SIZE"
      using True small assms(2) by (simp_all add: n_def hsizes add64_eq sub64_eq)
    define nb where "nb = \<lparr>kb_size = s - sz - BLOCK_HDR_SIZE,
        kb_next = nextf (c + BLOCK_HDR_SIZE + s) ys 0, kb_magic = BLOCK_MAGIC_FREE\<rparr>"
    define ab where "ab = \<lparr>kb_size = sz, kb_next = 0, kb_magic = BLOCK_MAGIC_ALLOC\<rparr>"
    define g where "g = h\<lparr>kh_mem := (kh_mem h)(n := nb, c := ab)\<rparr>"
    have t: "take_block sz (lastf a xs 0) c h = link_prev (lastf a xs 0) n g"
      using True H by (simp add: take_block_def Let_def ar g_def set_block_def nb_def ab_def)
    have ge: "c \<le> n" "c < n" "n < c + BLOCK_HDR_SIZE + s"
      using True by (simp_all add: n_def hsizes)
    have gr: "rep (kh_mem g) a xs c" "kh_free_list g = nextf a xs c"
      using H(1,6) ge by (simp_all add: g_def rep_upd_outside c_def)
    note L = link_prev_rep [OF gr(1) H(8) gr(2), where nx' = n]
    let ?m = "kh_mem (link_prev (lastf a xs 0) n g)"
    have same: "?m b = kh_mem g b" if "c \<le> b" for b
      using L(3) [of b] that by (simp add: c_def)
    have gm: "kh_mem g b = kh_mem h b" if "b \<noteq> c" "b \<noteq> n" for b using that by (simp add: g_def)
    have ys: "rep ?m (c + BLOCK_HDR_SIZE + s) ys 0"
    proof -
      have "rep ?m (c + BLOCK_HDR_SIZE + s) ys 0 = rep (kh_mem h) (c + BLOCK_HDR_SIZE + s) ys 0"
      proof (rule rep_cong)
        fix b assume "c + BLOCK_HDR_SIZE + s \<le> b"
        with ge have "c \<le> b" "b \<noteq> c" "b \<noteq> n" by simp_all
        then show "?m b = kh_mem h b" by (simp add: same gm)
      qed
      with H(5) show ?thesis by simp
    qed
    have "kh_mem g c = ab" "kh_mem g n = nb" using ge by (simp_all add: g_def)
    then have cells: "?m c = ab" "?m n = nb" using same [of c] same [of n] ge by simp_all
    define r where "r = s - sz - BLOCK_HDR_SIZE"
    have gap: "n + BLOCK_HDR_SIZE + r = c + BLOCK_HDR_SIZE + s"
      using True by (simp add: n_def r_def hsizes)
    have tk: "taken sz s = [(sz, False), (r, True)]"
      using True by (simp add: taken_def r_def)
    have "rep ?m a (xs @ taken sz s @ ys) 0"
      unfolding tk rep_append c_def [symmetric] append_Cons append_Nil rep.simps nextf.simps
        n_def [symmetric] gap cells
      using L(1) ys by (simp add: nb_def ab_def r_def)
    moreover have "nextf a xs n = nextf a (xs @ taken sz s @ ys) 0"
      unfolding tk nextf_append c_def [symmetric] append_Cons append_Nil nextf.simps n_def [symmetric]
      by simp
    moreover have "tend a (xs @ taken sz s @ ys) = kh_end h"
      unfolding tk tend_append c_def [symmetric] append_Cons append_Nil tend.simps n_def [symmetric] gap
      by (rule H(7))
    moreover have "kh_start g = a" "kh_end g = kh_end h" by (simp_all add: g_def a_def)
    ultimately show ?thesis
      unfolding a_def [symmetric] c_def [symmetric] t heap_rep_def link_prev_frame
      using L(2) H(8,9) by simp
  next
    case False
    let ?nx = "nextf (c + BLOCK_HDR_SIZE + s) ys 0"
    have ar: "add64 (add64 sz BLOCK_HDR_SIZE) MIN_BLOCK_SIZE = sz + BLOCK_HDR_SIZE + MIN_BLOCK_SIZE"
    proof -
      have "sz + 40 < 2 ^ 64" using assms(2) H(9) bnd(2) by (simp add: hsizes HEAP_PAGE_def)
      then show ?thesis by (simp add: hsizes add64_eq)
    qed
    define g where "g = h\<lparr>kh_mem := (kh_mem h)(c := (kh_mem h c)\<lparr>kb_magic := BLOCK_MAGIC_ALLOC\<rparr>)\<rparr>"
    have t: "take_block sz (lastf a xs 0) c h
        = upd_block c (\<lambda>b. b\<lparr>kb_next := 0\<rparr>) (link_prev (lastf a xs 0) ?nx g)"
      using False H by (simp add: take_block_def Let_def ar g_def upd_block_def set_block_def)
    have gr: "rep (kh_mem g) a xs c" "kh_free_list g = nextf a xs c"
      using H(1,6) by (simp_all add: g_def rep_upd_outside c_def)
    note L = link_prev_rep [OF gr(1) H(8) gr(2), where nx' = ?nx]
    let ?k = "link_prev (lastf a xs 0) ?nx g"
    let ?m = "kh_mem (upd_block c (\<lambda>b. b\<lparr>kb_next := 0\<rparr>) ?k)"
    have m: "?m = (kh_mem ?k)(c := (kh_mem ?k c)\<lparr>kb_next := 0\<rparr>)"
      by (simp add: upd_block_def set_block_def)
    have same: "kh_mem ?k b = kh_mem g b" if "c \<le> b" for b
      using L(3) [of b] that by (simp add: c_def)
    have gm: "kh_mem g b = kh_mem h b" if "b \<noteq> c" for b using that by (simp add: g_def)
    have ys: "rep ?m (c + BLOCK_HDR_SIZE + s) ys 0"
    proof -
      have "rep ?m (c + BLOCK_HDR_SIZE + s) ys 0 = rep (kh_mem h) (c + BLOCK_HDR_SIZE + s) ys 0"
      proof (rule rep_cong)
        fix b assume "c + BLOCK_HDR_SIZE + s \<le> b"
        then have "c \<le> b" "b \<noteq> c" by (simp_all add: BLOCK_HDR_SIZE_def)
        then show "?m b = kh_mem h b" by (simp add: m same gm)
      qed
      with H(5) show ?thesis by simp
    qed
    have "tend a xs \<le> c" by (simp add: c_def)
    then have xs: "rep ?m a xs ?nx" using L(1) unfolding m by (simp only: rep_upd_outside simp_thms)
    have cells: "kb_size (?m c) = s" "kb_magic (?m c) = BLOCK_MAGIC_ALLOC"
      using same [of c] H by (simp_all add: m) (simp_all add: g_def)
    have tk: "taken sz s = [(s, False)]" using False by (simp add: taken_def)
    have "rep ?m a (xs @ taken sz s @ ys) 0"
      unfolding tk rep_append c_def [symmetric] append_Cons append_Nil rep.simps nextf.simps
      using xs ys cells by simp
    moreover have "nextf a xs ?nx = nextf a (xs @ taken sz s @ ys) 0"
      unfolding tk nextf_append c_def [symmetric] append_Cons append_Nil nextf.simps by simp
    moreover have "tend a (xs @ taken sz s @ ys) = kh_end h"
      unfolding tk tend_append c_def [symmetric] append_Cons append_Nil tend.simps by (rule H(7))
    moreover have "kh_start g = a" "kh_end g = kh_end h" by (simp_all add: g_def a_def)
    ultimately show ?thesis
      unfolding a_def [symmetric] c_def [symmetric] t heap_rep_def
      using L(2) H(8,9) by (simp add: upd_block_def set_block_def)
  qed
qed

section \<open>Page-aligned allocation on tiles\<close>

lemma round_up_props:
  assumes "a + n < 2 ^ 64" "0 < n"
  shows "round_up n a mod n = 0" "a \<le> round_up n a" "round_up n a < a + n"
proof -
  have eq: "round_up n a = (a + (n - 1)) div n * n"
    using assms by (simp add: round_up_def add64_eq)
  show "round_up n a mod n = 0" by (simp add: eq)
  have d: "(a + (n - 1)) div n * n + (a + (n - 1)) mod n = a + (n - 1)" by simp
  moreover have "(a + (n - 1)) mod n < n" using assms(2) by simp
  ultimately show "a \<le> round_up n a" "round_up n a < a + n"
    unfolding eq using assms(2) by linarith+
qed

lemma aligned_waste_props:
  assumes "c + BLOCK_HDR_SIZE + 2 * HEAP_PAGE < 2 ^ 64" "aligned_waste c = (al, w)"
  shows "al = c + BLOCK_HDR_SIZE + w" "al mod HEAP_PAGE = 0"
    "w = 0 \<or> w \<ge> BLOCK_HDR_SIZE + MIN_BLOCK_SIZE" "w < 2 * HEAP_PAGE"
proof -
  define d where "d = c + BLOCK_HDR_SIZE"
  define r where "r = round_up HEAP_PAGE d"
  have ds: "add64 c BLOCK_HDR_SIZE = d" using assms(1) by (simp add: add64_eq d_def)
  have r: "r mod HEAP_PAGE = 0" "d \<le> r" "r < d + HEAP_PAGE"
    using round_up_props [of d HEAP_PAGE] assms(1) unfolding r_def d_def by (simp_all add: HEAP_PAGE_def)
  have lim: "d + 2 * HEAP_PAGE < 2 ^ 64" using assms(1) by (simp add: d_def)
  have w0: "sub64 r d = r - d" using r lim by (intro sub64_eq) (auto simp: HEAP_PAGE_def)
  have r2: "add64 r HEAP_PAGE = r + HEAP_PAGE" using r lim by (intro add64_eq) (auto simp: HEAP_PAGE_def)
  have w2: "sub64 (r + HEAP_PAGE) d = r + HEAP_PAGE - d"
    using r lim by (intro sub64_eq) (auto simp: HEAP_PAGE_def)
  have aw: "(al, w) = (if r - d \<noteq> 0 \<and> r - d < BLOCK_HDR_SIZE + MIN_BLOCK_SIZE
      then (r + HEAP_PAGE, r + HEAP_PAGE - d) else (r, r - d))"
    unfolding assms(2) [symmetric] aligned_waste_def Let_def ds r_def [symmetric] w0 r2 w2 ..
  have "al = d + w \<and> al mod HEAP_PAGE = 0 \<and> (w = 0 \<or> w \<ge> BLOCK_HDR_SIZE + MIN_BLOCK_SIZE) \<and> w < 2 * HEAP_PAGE"
  proof (cases "r - d \<noteq> 0 \<and> r - d < BLOCK_HDR_SIZE + MIN_BLOCK_SIZE")
    case True
    then have "al = r + HEAP_PAGE" "w = r + HEAP_PAGE - d" using aw by simp_all
    with True r show ?thesis by (auto simp: HEAP_PAGE_def BLOCK_HDR_SIZE_def MIN_BLOCK_SIZE_def)
  next
    case False
    then have "al = r" "w = r - d" using aw by (auto split: if_splits)
    with False r show ?thesis by auto
  qed
  then show "al = c + BLOCK_HDR_SIZE + w" "al mod HEAP_PAGE = 0"
    "w = 0 \<or> w \<ge> BLOCK_HDR_SIZE + MIN_BLOCK_SIZE" "w < 2 * HEAP_PAGE"
    by (auto simp: d_def)
qed

definition carved :: "nat \<Rightarrow> nat \<Rightarrow> nat \<Rightarrow> tile list" where
  "carved sz w s =
     (let rem = s - w - sz in
      (w - BLOCK_HDR_SIZE, True) #
      (if rem \<ge> BLOCK_HDR_SIZE + MIN_BLOCK_SIZE
       then [(sz, False), (rem - BLOCK_HDR_SIZE, True)] else [(sz + rem, False)]))"

lemma carve_aligned_rep:
  assumes "heap_rep h (xs @ (s, True) # ys)" "c = tend (kh_start h) xs"
    and "al = c + BLOCK_HDR_SIZE + w" "w \<ge> BLOCK_HDR_SIZE + MIN_BLOCK_SIZE" "w + sz \<le> s"
  shows "heap_rep (carve_aligned sz al w c h) (xs @ carved sz w s @ ys)"
proof -
  define a where "a = kh_start h"
  have c: "c = tend a xs" using assms(2) by (simp add: a_def)
  note bnd = heap_bounds [OF assms(1), folded a_def, folded c]
  let ?nx = "nextf (c + BLOCK_HDR_SIZE + s) ys 0"
  have H: "rep (kh_mem h) a xs c" "kb_size (kh_mem h c) = s" "kb_magic (kh_mem h c) = BLOCK_MAGIC_FREE"
    "kb_next (kh_mem h c) = ?nx" "rep (kh_mem h) (c + BLOCK_HDR_SIZE + s) ys 0" "kh_free_list h = nextf a xs c"
    "tend (c + BLOCK_HDR_SIZE + s) ys = kh_end h" "0 < a" "kh_end h + 2 * HEAP_PAGE < 2 ^ 64"
    using assms(1) by (auto simp: heap_rep_split Let_def a_def c)
  note hsizes = BLOCK_HDR_SIZE_def MIN_BLOCK_SIZE_def
  define rem where "rem = s - w - sz"
  define ab where "ab = c + w"
  define tail where "tail = c + w + BLOCK_HDR_SIZE + sz"
  have small: "c + BLOCK_HDR_SIZE + s < 2 ^ 64" using bnd by simp
  have ar: "sub64 al BLOCK_HDR_SIZE = ab" "sub64 (sub64 s w) sz = rem"
    "sub64 w BLOCK_HDR_SIZE = w - BLOCK_HDR_SIZE" "add64 (add64 ab BLOCK_HDR_SIZE) sz = tail"
    "rem < 2 ^ 64" "add64 sz rem = sz + rem"
    using small assms(3-5) by (simp_all add: hsizes add64_eq sub64_eq rem_def ab_def tail_def)
  have ne: "ab \<noteq> c" "tail \<noteq> c" "tail \<noteq> ab" "c < ab" "ab < tail" "tail \<le> c + BLOCK_HDR_SIZE + s"
    using assms(4,5) by (simp_all add: ab_def tail_def hsizes)
  define m where "m = kh_mem (carve_aligned sz al w c h)"
  have frame: "kh_free_list (carve_aligned sz al w c h) = kh_free_list h"
    "kh_start (carve_aligned sz al w c h) = a" "kh_end (carve_aligned sz al w c h) = kh_end h"
    by (simp_all add: carve_aligned_def Let_def upd_block_def set_block_def a_def)
  have mc: "kb_size (m c) = w - BLOCK_HDR_SIZE" "kb_magic (m c) = BLOCK_MAGIC_FREE"
    and mab: "kb_magic (m ab) = BLOCK_MAGIC_ALLOC"
    using ne H by (auto simp: m_def carve_aligned_def Let_def ar upd_block_def set_block_def)
  have other: "m b = kh_mem h b" if "b \<noteq> c" "b \<noteq> ab" "b \<noteq> tail \<or> rem < BLOCK_HDR_SIZE + MIN_BLOCK_SIZE" for b
    using that H(2) ne by (auto simp: m_def carve_aligned_def Let_def ar upd_block_def set_block_def)
  have xs: "rep m a xs c"
  proof -
    have "rep m a xs c = rep (kh_mem h) a xs c"
      by (rule rep_cong) (use other ne c in auto)
    with H(1) show ?thesis by simp
  qed
  show ?thesis
  proof (cases "rem \<ge> BLOCK_HDR_SIZE + MIN_BLOCK_SIZE")
    case True
    have cells: "kb_next (m c) = tail" "kb_size (m ab) = sz" "kb_size (m tail) = rem - BLOCK_HDR_SIZE"
      "kb_next (m tail) = ?nx" "kb_magic (m tail) = BLOCK_MAGIC_FREE"
      using True ne H ar(5)
      by (simp_all add: m_def carve_aligned_def Let_def ar upd_block_def set_block_def sub64_eq)
    have gaps: "c + BLOCK_HDR_SIZE + (w - BLOCK_HDR_SIZE) = ab" "ab + BLOCK_HDR_SIZE + sz = tail"
      "tail + BLOCK_HDR_SIZE + (rem - BLOCK_HDR_SIZE) = c + BLOCK_HDR_SIZE + s"
      using True assms(4,5) by (simp_all add: ab_def tail_def rem_def hsizes)
    have "rep m (c + BLOCK_HDR_SIZE + s) ys 0 = rep (kh_mem h) (c + BLOCK_HDR_SIZE + s) ys 0"
      by (rule rep_cong) (use other ne gaps in \<open>auto simp: BLOCK_HDR_SIZE_def\<close>)
    with H(5) have ys: "rep m (c + BLOCK_HDR_SIZE + s) ys 0" by simp
    have tk: "carved sz w s = [(w - BLOCK_HDR_SIZE, True), (sz, False), (rem - BLOCK_HDR_SIZE, True)]"
      using True by (simp add: carved_def rem_def)
    have "rep m a (xs @ carved sz w s @ ys) 0"
      unfolding tk rep_append c [symmetric] append_Cons append_Nil rep.simps nextf.simps gaps
      using xs ys mc mab cells by simp
    moreover have "kh_free_list h = nextf a (xs @ carved sz w s @ ys) 0"
      unfolding tk nextf_append c [symmetric] append_Cons append_Nil nextf.simps using H(6) by simp
    moreover have "tend a (xs @ carved sz w s @ ys) = kh_end h"
      unfolding tk tend_append c [symmetric] append_Cons append_Nil tend.simps gaps by (rule H(7))
    ultimately show ?thesis
      unfolding heap_rep_def frame m_def [symmetric] using H(8,9) by simp
  next
    case False
    have cells: "kb_next (m c) = ?nx" "kb_size (m ab) = sz + rem"
      using False ne H by (simp_all add: m_def carve_aligned_def Let_def ar upd_block_def set_block_def)
    have gaps: "c + BLOCK_HDR_SIZE + (w - BLOCK_HDR_SIZE) = ab"
      "ab + BLOCK_HDR_SIZE + (sz + rem) = c + BLOCK_HDR_SIZE + s"
      using assms(4,5) by (simp_all add: ab_def rem_def hsizes)
    have "rep m (c + BLOCK_HDR_SIZE + s) ys 0 = rep (kh_mem h) (c + BLOCK_HDR_SIZE + s) ys 0"
      by (rule rep_cong) (use other ne gaps False in \<open>auto simp: BLOCK_HDR_SIZE_def\<close>)
    with H(5) have ys: "rep m (c + BLOCK_HDR_SIZE + s) ys 0" by simp
    have tk: "carved sz w s = [(w - BLOCK_HDR_SIZE, True), (sz + rem, False)]"
      using False by (simp add: carved_def rem_def)
    have "rep m a (xs @ carved sz w s @ ys) 0"
      unfolding tk rep_append c [symmetric] append_Cons append_Nil rep.simps nextf.simps gaps
      using xs ys mc mab cells by simp
    moreover have "kh_free_list h = nextf a (xs @ carved sz w s @ ys) 0"
      unfolding tk nextf_append c [symmetric] append_Cons append_Nil nextf.simps using H(6) by simp
    moreover have "tend a (xs @ carved sz w s @ ys) = kh_end h"
      unfolding tk tend_append c [symmetric] append_Cons append_Nil tend.simps gaps by (rule H(7))
    ultimately show ?thesis
      unfolding heap_rep_def frame m_def [symmetric] using H(8,9) by simp
  qed
qed

section \<open>Freeing on tiles\<close>

text \<open>Merge a freed tile with a free right and a free left neighbour.\<close>

fun merge_next :: "nat \<Rightarrow> tile list \<Rightarrow> tile list" where
  "merge_next s ((s2, True) # ys) = (s + BLOCK_HDR_SIZE + s2, True) # ys"
| "merge_next s ys = (s, True) # ys"

definition merge_prev :: "tile list \<Rightarrow> tile list \<Rightarrow> tile list" where
  "merge_prev xs ts =
     (case (rev xs, ts) of
        ((s1, True) # us, (s, True) # ys) \<Rightarrow> rev us @ (s1 + BLOCK_HDR_SIZE + s, True) # ys
      | _ \<Rightarrow> xs @ ts)"

text \<open>Step 1: mark the block free and link it in.\<close>

lemma link_free_rep:
  assumes "heap_rep h (xs @ (s, False) # ys)" "c = tend (kh_start h) xs"
    and "nx = nextf (c + BLOCK_HDR_SIZE + s) ys 0"
    and "g = upd_block c (\<lambda>b. b\<lparr>kb_next := nx\<rparr>) (upd_block c (\<lambda>b. b\<lparr>kb_magic := BLOCK_MAGIC_FREE\<rparr>) h)"
  shows "heap_rep (link_prev (lastf (kh_start h) xs 0) c g) (xs @ (s, True) # ys)"
proof -
  define a where "a = kh_start h"
  have c: "c = tend a xs" using assms(2) by (simp add: a_def)
  have H: "rep (kh_mem h) a xs nx" "kb_size (kh_mem h c) = s"
    "rep (kh_mem h) (c + BLOCK_HDR_SIZE + s) ys 0" "kh_free_list h = nextf a xs nx"
    "tend (c + BLOCK_HDR_SIZE + s) ys = kh_end h" "0 < a" "kh_end h + 2 * HEAP_PAGE < 2 ^ 64"
    using assms(1,3) by (auto simp: heap_rep_split Let_def a_def c)
  have g: "kh_mem g = (kh_mem h)(c := (kh_mem h c)\<lparr>kb_magic := BLOCK_MAGIC_FREE, kb_next := nx\<rparr>)"
    "kh_free_list g = kh_free_list h" "kh_start g = a" "kh_end g = kh_end h"
    by (simp_all add: assms(4) upd_block_def set_block_def a_def)
  have gr: "rep (kh_mem g) a xs nx" "kh_free_list g = nextf a xs nx"
    using H by (simp_all add: g rep_upd_outside c)
  note L = link_prev_rep [OF gr(1) H(6) gr(2), where nx' = c]
  let ?m = "kh_mem (link_prev (lastf a xs 0) c g)"
  have same: "?m b = kh_mem g b" if "c \<le> b" for b
    using L(3) [of b] that by (simp add: c)
  have "rep ?m (c + BLOCK_HDR_SIZE + s) ys 0 = rep (kh_mem h) (c + BLOCK_HDR_SIZE + s) ys 0"
    by (rule rep_cong) (simp add: same g BLOCK_HDR_SIZE_def)
  with H(3) have ys: "rep ?m (c + BLOCK_HDR_SIZE + s) ys 0" by simp
  have cells: "kb_size (?m c) = s" "kb_magic (?m c) = BLOCK_MAGIC_FREE" "kb_next (?m c) = nx"
    using same [of c] H(2) by (simp_all add: g)
  have "rep ?m a (xs @ (s, True) # ys) 0"
    unfolding rep_append c [symmetric] rep.simps nextf.simps using L(1) ys cells assms(3) by simp
  moreover have "nextf a xs c = nextf a (xs @ (s, True) # ys) 0"
    unfolding nextf_append c [symmetric] nextf.simps by simp
  moreover have "tend a (xs @ (s, True) # ys) = kh_end h"
    unfolding tend_append c [symmetric] tend.simps by (rule H(5))
  ultimately show ?thesis
    unfolding a_def [symmetric] heap_rep_def link_prev_frame g using L(2) H(6,7) by simp
qed

text \<open>Two adjacent free tiles and the header that covers both.\<close>

lemma merge_tiles_rep:
  assumes "heap_rep h (xs @ (s1, True) # (s2, True) # ys)" "c = tend (kh_start h) xs"
    and "d = c + BLOCK_HDR_SIZE + s1"
  shows "heap_rep (set_block c ((kh_mem h c)\<lparr>kb_size := add64 s1 (add64 BLOCK_HDR_SIZE s2),
            kb_next := kb_next (kh_mem h d)\<rparr>) h) (xs @ (s1 + BLOCK_HDR_SIZE + s2, True) # ys)"
proof -
  define a where "a = kh_start h"
  have c: "c = tend a xs" using assms(2) by (simp add: a_def)
  let ?e = "d + BLOCK_HDR_SIZE + s2"
  have H: "rep (kh_mem h) a xs c" "kb_magic (kh_mem h c) = BLOCK_MAGIC_FREE"
    "kb_next (kh_mem h d) = nextf ?e ys 0" "rep (kh_mem h) ?e ys 0" "kh_free_list h = nextf a xs c"
    "tend ?e ys = kh_end h" "0 < a" "kh_end h + 2 * HEAP_PAGE < 2 ^ 64"
    using assms(1,3) by (auto simp: heap_rep_split Let_def a_def c)
  have e: "?e \<le> kh_end h" using tend_ge [of ?e ys] H(6) by simp
  have "c + BLOCK_HDR_SIZE + s1 + BLOCK_HDR_SIZE + s2 < 2 ^ 64" using e H(8) assms(3) by simp
  then have ar: "add64 s1 (add64 BLOCK_HDR_SIZE s2) = s1 + BLOCK_HDR_SIZE + s2"
    by (simp add: add64_eq)
  have gap: "c + BLOCK_HDR_SIZE + (s1 + BLOCK_HDR_SIZE + s2) = ?e" using assms(3) by simp
  let ?m = "(kh_mem h)(c := (kh_mem h c)\<lparr>kb_size := s1 + BLOCK_HDR_SIZE + s2, kb_next := nextf ?e ys 0\<rparr>)"
  have "rep ?m a xs c" using H(1) by (simp add: rep_upd_outside c)
  moreover have "rep ?m ?e ys 0" using H(4) assms(3) by (simp add: rep_upd_outside BLOCK_HDR_SIZE_def)
  ultimately have "rep ?m a (xs @ (s1 + BLOCK_HDR_SIZE + s2, True) # ys) 0"
    unfolding rep_append c [symmetric] rep.simps nextf.simps gap using H(2) by simp
  moreover have "kh_free_list h = nextf a (xs @ (s1 + BLOCK_HDR_SIZE + s2, True) # ys) 0"
    unfolding nextf_append c [symmetric] nextf.simps using H(5) by simp
  moreover have "tend a (xs @ (s1 + BLOCK_HDR_SIZE + s2, True) # ys) = kh_end h"
    unfolding tend_append c [symmetric] tend.simps gap by (rule H(6))
  ultimately show ?thesis
    unfolding heap_rep_def set_block_def ar H(3) using H(7,8) by (simp add: a_def)
qed

lemma coalesce_next_rep:
  assumes "heap_rep h (xs @ (s, True) # ys)" "c = tend (kh_start h) xs"
  shows "heap_rep (coalesce_next c h) (xs @ merge_next s ys)"
proof -
  have H: "kb_size (kh_mem h c) = s" "kb_next (kh_mem h c) = nextf (c + BLOCK_HDR_SIZE + s) ys 0"
    using assms by (auto simp: heap_rep_split Let_def)
  have bnd: "c + BLOCK_HDR_SIZE + s \<le> kh_end h" "kh_end h < 2 ^ 64" "0 < c"
    using heap_bounds [OF assms(1)] assms(2) by simp_all
  have ar: "add64 (add64 c BLOCK_HDR_SIZE) s = c + BLOCK_HDR_SIZE + s" using bnd by (simp add: add64_eq)
  show ?thesis
  proof (cases "\<exists>s2 zs. ys = (s2, True) # zs")
    case True
    then obtain s2 zs where ys: "ys = (s2, True) # zs" by blast
    have d: "kb_size (kh_mem h (c + BLOCK_HDR_SIZE + s)) = s2"
      using assms ys by (auto simp: heap_rep_split Let_def)
    have "coalesce_next c h = set_block c ((kh_mem h c)\<lparr>kb_size := add64 s (add64 BLOCK_HDR_SIZE s2),
        kb_next := kb_next (kh_mem h (c + BLOCK_HDR_SIZE + s))\<rparr>) h"
      using H ys bnd ar d by (simp add: coalesce_next_def Let_def)
    with merge_tiles_rep [of h xs s s2 zs c] assms ys show ?thesis by simp
  next
    case False
    have "nextf (c + BLOCK_HDR_SIZE + s) ys 0 = 0 \<or> nextf (c + BLOCK_HDR_SIZE + s) ys 0 \<noteq> c + BLOCK_HDR_SIZE + s"
    proof (cases ys)
      case (Cons t zs)
      then obtain s2 where t: "t = (s2, False)" using False by (cases t) auto
      with Cons nextf_range [of "c + BLOCK_HDR_SIZE + s + BLOCK_HDR_SIZE + s2" zs 0] show ?thesis
        by (auto simp: BLOCK_HDR_SIZE_def)
    qed simp
    then have "coalesce_next c h = h" using H ar by (auto simp: coalesce_next_def Let_def)
    moreover have "merge_next s ys = (s, True) # ys"
      using False by (cases "(s, ys)" rule: merge_next.cases) auto
    ultimately show ?thesis using assms(1) by simp
  qed
qed

lemma merge_prev_snoc: "merge_prev (us @ [(s1, True)]) ((s, True) # ys) = us @ (s1 + BLOCK_HDR_SIZE + s, True) # ys"
  by (simp add: merge_prev_def)

lemma merge_prev_none: "xs = [] \<or> \<not> snd (last xs) \<Longrightarrow> merge_prev xs ts = xs @ ts"
  by (cases xs rule: rev_cases) (auto simp: merge_prev_def split: list.splits prod.splits)

lemma coalesce_prev_rep:
  assumes "heap_rep h (xs @ (s, True) # ys)" "c = tend (kh_start h) xs"
  shows "heap_rep (coalesce_prev (lastf (kh_start h) xs 0) c h) (merge_prev xs ((s, True) # ys))"
proof -
  define a where "a = kh_start h"
  have c: "c = tend a xs" using assms(2) by (simp add: a_def)
  have H: "rep (kh_mem h) a xs c" "kb_size (kh_mem h c) = s" "0 < a" "c < 2 ^ 64"
    using assms heap_bounds [OF assms(1)] by (auto simp: heap_rep_split Let_def a_def)
  show ?thesis
    unfolding a_def [symmetric] using split_last_free [of xs]
  proof (elim disjE exE conjE)
    assume nf: "\<forall>t\<in>set xs. \<not> snd t"
    then have "coalesce_prev (lastf a xs 0) c h = h" by (simp add: coalesce_prev_def no_free(1))
    moreover have "merge_prev xs ((s, True) # ys) = xs @ (s, True) # ys"
      by (rule merge_prev_none) (use nf in auto)
    ultimately show "heap_rep (coalesce_prev (lastf a xs 0) c h) (merge_prev xs ((s, True) # ys))"
      using assms(1) by simp
  next
    fix us q vs assume xs: "xs = us @ (q, True) # vs" and nf: "\<forall>t\<in>set vs. \<not> snd t"
    define p where "p = tend a us"
    have l: "lastf a xs 0 = p" using lastf_last_free [OF nf] by (simp add: xs p_def)
    have pc: "c = tend (p + BLOCK_HDR_SIZE + q) vs" by (simp add: c xs p_def)
    have p: "p \<noteq> 0" "kb_size (kh_mem h p) = q" "kb_magic (kh_mem h p) = BLOCK_MAGIC_FREE"
      using tend_ge [of a us] H by (simp_all add: xs p_def rep_append)
    have "p + BLOCK_HDR_SIZE + q \<le> c" unfolding pc by (rule tend_ge)
    with H(4) have ar: "add64 (add64 p BLOCK_HDR_SIZE) q = p + BLOCK_HDR_SIZE + q" by (simp add: add64_eq)
    show "heap_rep (coalesce_prev (lastf a xs 0) c h) (merge_prev xs ((s, True) # ys))"
    proof (cases vs)
      case Nil
      then have "coalesce_prev p c h = set_block p ((kh_mem h p)\<lparr>kb_size := add64 q (add64 BLOCK_HDR_SIZE s),
          kb_next := kb_next (kh_mem h c)\<rparr>) h"
        using p ar pc H(2) by (simp add: coalesce_prev_def Let_def)
      with merge_tiles_rep [of h us q s ys p c] assms(1) Nil show ?thesis
        unfolding l by (simp add: xs merge_prev_snoc p_def a_def c)
    next
      case (Cons t ws)
      then have "p + BLOCK_HDR_SIZE + q < c" unfolding pc Cons by (intro tend_Cons_gt)
      then have "coalesce_prev p c h = h" using p ar by (simp add: coalesce_prev_def Let_def)
      moreover have "merge_prev xs ((s, True) # ys) = xs @ (s, True) # ys"
        by (rule merge_prev_none) (use nf Cons xs in simp)
      ultimately show ?thesis using assms(1) by (simp add: l)
    qed
  qed
qed

lemma frame_start [simp]:
  "kh_start (coalesce_next c h) = kh_start h" "kh_start (upd_block c f h) = kh_start h"
  by (simp_all add: coalesce_next_def Let_def set_block_def upd_block_def)

lemma merge_next_head: "\<exists>s' ys'. merge_next s ys = (s', True) # ys'"
  by (cases "(s, ys)" rule: merge_next.cases) auto

lemma kfree_rep:
  assumes "heap_rep h (xs @ (s, False) # ys)"
  shows "\<exists>h'. kfree (tend (kh_start h) xs + BLOCK_HDR_SIZE) h = Some h' \<and>
           heap_rep h' (merge_prev xs (merge_next s ys)) \<and> kh_start h' = kh_start h"
proof -
  define a where "a = kh_start h"
  define c where "c = tend a xs"
  define nx where "nx = nextf (c + BLOCK_HDR_SIZE + s) ys 0"
  have H: "rep (kh_mem h) a xs nx" "kb_magic (kh_mem h c) = BLOCK_MAGIC_ALLOC" "kh_free_list h = nextf a xs nx" "0 < a"
    using assms by (auto simp: heap_rep_split Let_def a_def c_def nx_def)
  have blk: "sub64 (c + BLOCK_HDR_SIZE) BLOCK_HDR_SIZE = c"
    using heap_bounds [OF assms] by (subst sub64_eq) (auto simp: c_def a_def)
  define g where "g = upd_block c (\<lambda>b. b\<lparr>kb_magic := BLOCK_MAGIC_FREE\<rparr>) h"
  define g' where "g' = upd_block c (\<lambda>b. b\<lparr>kb_next := nx\<rparr>) g"
  define k where "k = link_prev (lastf a xs 0) c g'"
  have "nx = 0 \<or> c \<le> nx"
    using nextf_range [of "c + BLOCK_HDR_SIZE + s" ys 0] by (auto simp: nx_def)
  moreover have "rep (kh_mem g) a xs nx"
    using H(1) by (simp add: g_def upd_block_def set_block_def rep_upd_outside c_def)
  ultimately have f: "kfree_find (kh_mem g) c 0 (kh_free_list g) = Some (lastf a xs 0, nx)"
    using kfree_find_spec [of "kh_mem g" a xs nx c 0] H(3,4)
    by (simp add: c_def g_def upd_block_def set_block_def)
  have val: "kfree (c + BLOCK_HDR_SIZE) h = Some (coalesce_prev (lastf a xs 0) c (coalesce_next c k))"
    using f H(2) by (simp add: kfree_def Let_def blk g_def [symmetric] g'_def [symmetric] k_def)
      (simp add: BLOCK_HDR_SIZE_def)
  have ks: "kh_start k = a" by (simp add: k_def g'_def g_def a_def)
  have "heap_rep k (xs @ (s, True) # ys)"
    unfolding k_def a_def by (rule link_free_rep [OF assms]) (simp_all add: c_def a_def nx_def g'_def g_def)
  then have "heap_rep (coalesce_next c k) (xs @ merge_next s ys)"
    by (rule coalesce_next_rep) (simp add: c_def ks)
  moreover obtain s' ys' where m: "merge_next s ys = (s', True) # ys'" using merge_next_head by blast
  ultimately have "heap_rep (coalesce_prev (lastf a xs 0) c (coalesce_next c k)) (merge_prev xs (merge_next s ys))"
    using coalesce_prev_rep [of "coalesce_next c k" xs s' ys' c] by (simp add: ks c_def)
  then show ?thesis
    using val ks by (intro exI [of _ "coalesce_prev (lastf a xs 0) c (coalesce_next c k)"])
      (simp add: a_def c_def coalesce_prev_def Let_def set_block_def)
qed

section \<open>The allocator on tiles\<close>

text \<open>\<open>coalesced\<close>: no two neighbouring free tiles. The payload bytes and headers tile the heap.\<close>

fun coalesced :: "tile list \<Rightarrow> bool" where
  "coalesced (t # u # ts) \<longleftrightarrow> \<not> (snd t \<and> snd u) \<and> coalesced (u # ts)"
| "coalesced ts = True"

lemma coalesced_Cons: "coalesced (t # ts) \<longleftrightarrow> coalesced ts \<and> (ts = [] \<or> \<not> (snd t \<and> snd (hd ts)))"
  by (cases ts) auto

lemma coalesced_append:
  "coalesced (xs @ ys) \<longleftrightarrow> coalesced xs \<and> coalesced ys \<and>
     (xs = [] \<or> ys = [] \<or> \<not> (snd (last xs) \<and> snd (hd ys)))"
  by (induction xs) (auto simp: coalesced_Cons hd_append)

lemma coalesced_taken:
  assumes "coalesced (xs @ (s, True) # ys)"
  shows "coalesced (xs @ taken sz s @ ys)"
  using assms by (auto simp: taken_def coalesced_append coalesced_Cons)

lemma coalesced_carved:
  assumes "coalesced (xs @ (s, True) # ys)"
  shows "coalesced (xs @ carved sz w s @ ys)"
  using assms by (auto simp: carved_def Let_def coalesced_append coalesced_Cons)

lemma coalesced_merge_next:
  assumes "coalesced ys"
  shows "coalesced (merge_next s ys)"
  using assms by (cases "(s, ys)" rule: merge_next.cases) (auto simp: coalesced_Cons)

lemma coalesced_free:
  assumes "coalesced (xs @ (s, False) # ys)"
  shows "coalesced (merge_prev xs (merge_next s ys))"
proof -
  obtain s' ys' where m: "merge_next s ys = (s', True) # ys'" using merge_next_head by blast
  have c: "coalesced ((s', True) # ys')" "coalesced xs"
    using assms coalesced_merge_next [of ys s] by (simp_all add: m [symmetric] coalesced_append coalesced_Cons)
  show ?thesis
  proof (cases "\<exists>us q. xs = us @ [(q, True)]")
    case True
    then obtain us q where "xs = us @ [(q, True)]" by blast
    with c show ?thesis by (auto simp: m merge_prev_snoc coalesced_append coalesced_Cons)
  next
    case False
    have last: "xs = [] \<or> \<not> snd (last xs)"
    proof (cases xs rule: rev_cases)
      case (snoc us t)
      with False show ?thesis by (cases t) auto
    qed simp
    then show ?thesis using c by (auto simp: m merge_prev_none coalesced_append)
  qed
qed

lemma merge_prev_not_free:
  assumes "coalesced (xs @ (s, True) # ys)"
  shows "merge_prev xs ts = xs @ ts"
  by (rule merge_prev_none) (use assms in \<open>auto simp: coalesced_append\<close>)

text \<open>Freeing what was just taken gives the tiles back.\<close>

lemma free_taken:
  assumes "coalesced (xs @ (s, True) # ys)" "sz \<le> s" "taken sz s @ ys = (s', False) # zs"
  shows "merge_prev xs (merge_next s' zs) = xs @ (s, True) # ys"
proof -
  have "merge_next s ys = (s, True) # ys"
    using assms(1) by (cases "(s, ys)" rule: merge_next.cases) (auto simp: coalesced_append coalesced_Cons)
  then have "merge_next s' zs = (s, True) # ys"
    using assms(2,3) by (auto simp: taken_def split: if_splits)
  with merge_prev_not_free [OF assms(1)] show ?thesis by simp
qed

lemma kmalloc_rep:
  assumes "heap_rep h ts" "0 < sz" "n = round_up 16 sz"
  shows "(\<forall>t\<in>set ts. snd t \<longrightarrow> fst t < n) \<and> kmalloc sz h = Some (0, h) \<or>
    (\<exists>xs s ys h'. ts = xs @ (s, True) # ys \<and> n \<le> s \<and>
       kmalloc sz h = Some (tend (kh_start h) xs + BLOCK_HDR_SIZE, h') \<and>
       heap_rep h' (xs @ taken n s @ ys) \<and> kh_start h' = kh_start h)"
proof -
  let ?f = "spec_find (\<lambda>_ s. s \<ge> n) (kh_start h) ts 0"
  have f: "kmalloc_find (kh_mem h) n 0 (kh_free_list h) = Some ?f"
    using assms(1) kmalloc_find_spec [of "kh_mem h" "kh_start h" ts n 0] by (simp add: heap_rep_def)
  show ?thesis
  proof (cases ?f)
    case None
    have "fst t < n" if t: "t \<in> set ts" "snd t" for t
    proof -
      from split_list [OF t(1)] obtain xs ys where "ts = xs @ t # ys" by blast
      with spec_find_None [OF None, of xs "fst t" ys] t(2) show ?thesis by (cases t) auto
    qed
    moreover have "kmalloc sz h = Some (0, h)"
      using f None assms(2,3) by (simp add: kmalloc_def Let_def)
    ultimately show ?thesis by simp
  next
    case (Some r)
    obtain q c where r: "r = (q, c)" by fastforce
    from spec_find_Some [OF Some [unfolded r]] obtain xs s ys where
      x: "ts = xs @ (s, True) # ys" "c = tend (kh_start h) xs" "q = lastf (kh_start h) xs 0" "n \<le> s" by blast
    have "add64 c BLOCK_HDR_SIZE = c + BLOCK_HDR_SIZE"
      using heap_bounds [OF assms(1) [unfolded x(1)]] x(2) by (intro add64_eq) auto
    then have "kmalloc sz h = Some (c + BLOCK_HDR_SIZE, take_block n q c h)"
      using f Some r assms(2,3) by (simp add: kmalloc_def Let_def)
    moreover have "heap_rep (take_block n q c h) (xs @ taken n s @ ys)"
      using take_block_rep [OF assms(1) [unfolded x(1)] x(4)] by (simp add: x(2,3))
    moreover have "kh_start (take_block n q c h) = kh_start h"
      by (simp add: take_block_def Let_def set_block_def)
    ultimately show ?thesis using x by blast
  qed
qed

lemma kmalloc_page_rep:
  assumes "heap_rep h ts" "0 < sz" "n = round_up HEAP_PAGE sz" "n + 2 * HEAP_PAGE < 2 ^ 64"
    and "kmalloc_page_aligned sz h \<noteq> Some (0, h)"
  shows "\<exists>xs s ys h' w. ts = xs @ (s, True) # ys \<and> w + n \<le> s \<and>
       (w = 0 \<or> BLOCK_HDR_SIZE + MIN_BLOCK_SIZE \<le> w) \<and>
       (tend (kh_start h) xs + BLOCK_HDR_SIZE + w) mod HEAP_PAGE = 0 \<and>
       kmalloc_page_aligned sz h = Some (tend (kh_start h) xs + BLOCK_HDR_SIZE + w, h') \<and>
       heap_rep h' (xs @ (if w = 0 then taken n s else carved n w s) @ ys) \<and> kh_start h' = kh_start h"
proof -
  let ?f = "spec_find (fits_aligned n) (kh_start h) ts 0"
  have f: "kmalloc_page_find (kh_mem h) n 0 (kh_free_list h) = Some ?f"
    using assms(1) kmalloc_page_find_spec [of "kh_mem h" "kh_start h" ts n 0] by (simp add: heap_rep_def)
  show ?thesis
  proof (cases ?f)
    case None
    then show ?thesis using f assms(2,3,5) by (simp add: kmalloc_page_aligned_def Let_def)
  next
    case (Some r)
    obtain q c where r: "r = (q, c)" by fastforce
    from spec_find_Some [OF Some [unfolded r]] obtain xs s ys where
      x: "ts = xs @ (s, True) # ys" "c = tend (kh_start h) xs" "q = lastf (kh_start h) xs 0"
      and fit: "fits_aligned n c s" by blast
    note hr = assms(1) [unfolded x(1)]
    have lim: "c + BLOCK_HDR_SIZE + 2 * HEAP_PAGE < 2 ^ 64" "c + BLOCK_HDR_SIZE < 2 ^ 64"
      using heap_bounds [OF hr] hr x(2) by (auto simp: heap_rep_def)
    obtain al w where aw: "aligned_waste c = (al, w)" by fastforce
    note A = aligned_waste_props [OF lim(1) aw]
    have "add64 w n = w + n" using A(4) assms(4) by (intro add64_eq) simp
    then have wn: "w + n \<le> s" using fit aw by (auto simp: fits_aligned_def Let_def)
    define h' where "h' = (if w = 0 then take_block n q c h else carve_aligned n al w c h)"
    have "kmalloc_page_aligned sz h = Some (c + BLOCK_HDR_SIZE + w, h')"
      using f Some r assms(2,3) aw A(1) lim(2)
      by (simp add: kmalloc_page_aligned_def Let_def h'_def add64_eq)
    moreover have "heap_rep h' (xs @ (if w = 0 then taken n s else carved n w s) @ ys)"
      using take_block_rep [OF hr, of n] carve_aligned_rep [OF hr x(2) A(1), of n] A(3) wn x(3)
      by (auto simp: h'_def x(2))
    moreover have "kh_start h' = kh_start h"
      by (simp add: h'_def take_block_def carve_aligned_def Let_def set_block_def)
    ultimately show ?thesis
      using A(2,3) wn unfolding A(1) x(2) x(1)
      by (intro exI [of _ xs] exI [of _ s] exI [of _ ys] exI [of _ h'] exI [of _ w]) simp
  qed
qed

section \<open>Live blocks\<close>

fun live :: "nat \<Rightarrow> tile list \<Rightarrow> (nat \<times> nat) list" where
  "live a [] = []"
| "live a ((s, f) # ts) =
     (if f then [] else [(a + BLOCK_HDR_SIZE, s)]) @ live (a + BLOCK_HDR_SIZE + s) ts"

lemma live_append [simp]: "live a (xs @ ys) = live a xs @ live (tend a xs) ys"
  by (induction a xs rule: live.induct) auto

lemma live_range: "(p, s) \<in> set (live a ts) \<Longrightarrow> a + BLOCK_HDR_SIZE \<le> p \<and> p + s \<le> tend a ts"
proof (induction a ts rule: live.induct)
  case (2 a s' f ts)
  then show ?case using tend_ge [of "a + BLOCK_HDR_SIZE + s'" ts] by (auto split: if_splits)
qed simp

definition apart :: "nat \<times> nat \<Rightarrow> nat \<times> nat \<Rightarrow> bool" where
  "apart b c \<longleftrightarrow> fst b + snd b \<le> fst c \<or> fst c + snd c \<le> fst b"

lemma live_apart:
  "b \<in> set (live a ts) \<Longrightarrow> c \<in> set (live a ts) \<Longrightarrow> fst b \<noteq> fst c \<Longrightarrow> apart b c"
proof (induction a ts rule: live.induct)
  case (2 a s f ts)
  let ?rest = "set (live (a + BLOCK_HDR_SIZE + s) ts)"
  have r: "a + BLOCK_HDR_SIZE + s \<le> fst d" if "d \<in> ?rest" for d
    using live_range [of "fst d" "snd d"] that by fastforce
  have m: "b \<in> ?rest \<or> b = (a + BLOCK_HDR_SIZE, s)" "c \<in> ?rest \<or> c = (a + BLOCK_HDR_SIZE, s)"
    using "2.prems" by (auto split: if_splits)
  then consider "b \<in> ?rest" "c \<in> ?rest" | "b = (a + BLOCK_HDR_SIZE, s)" "c \<in> ?rest"
    | "b \<in> ?rest" "c = (a + BLOCK_HDR_SIZE, s)"
    using "2.prems"(3) by blast
  then show ?case
  proof cases
    case 1
    then show ?thesis using "2.IH" "2.prems"(3) by simp
  next
    case 2
    then show ?thesis using r [of c] by (simp add: apart_def)
  next
    case 3
    then show ?thesis using r [of b] by (simp add: apart_def)
  qed
qed simp

lemma live_taken:
  assumes "sz \<le> s"
  shows "\<exists>k. sz \<le> k \<and> live a (taken sz s) = [(a + BLOCK_HDR_SIZE, k)]" "tend a (taken sz s) = a + BLOCK_HDR_SIZE + s"
  using assms by (auto simp: taken_def MIN_BLOCK_SIZE_def)

lemma live_carved:
  assumes "w + sz \<le> s" "BLOCK_HDR_SIZE \<le> w"
  shows "\<exists>k. sz \<le> k \<and> live a (carved sz w s) = [(a + BLOCK_HDR_SIZE + w, k)]"
    "tend a (carved sz w s) = a + BLOCK_HDR_SIZE + s"
  using assms by (auto simp: carved_def Let_def MIN_BLOCK_SIZE_def)

lemma live_merge_next: "live a (merge_next s ys) = live (a + BLOCK_HDR_SIZE + s) ys"
  by (cases "(s, ys)" rule: merge_next.cases) (auto simp: add.assoc)

lemma live_merge_prev: "live a (merge_prev xs (merge_next s ys)) = live a xs @ live (tend a xs + BLOCK_HDR_SIZE + s) ys"
proof -
  obtain s' ys' where m: "merge_next s ys = (s', True) # ys'" using merge_next_head by blast
  have eq: "live (tend a xs) (merge_next s ys) = live (tend a xs + BLOCK_HDR_SIZE + s) ys" by (rule live_merge_next)
  show ?thesis
  proof (cases "\<exists>us q. xs = us @ [(q, True)]")
    case True
    then obtain us q where "xs = us @ [(q, True)]" by blast
    with eq show ?thesis by (simp add: m merge_prev_snoc add.assoc)
  next
    case False
    have "xs = [] \<or> \<not> snd (last xs)"
    proof (cases xs rule: rev_cases)
      case (snoc us t)
      with False show ?thesis by (cases t) auto
    qed simp
    then show ?thesis using eq by (simp add: merge_prev_none)
  qed
qed

lemma live_split:
  "(p, s) \<in> set (live a ts) \<Longrightarrow> \<exists>xs ys. ts = xs @ (s, False) # ys \<and> p = tend a xs + BLOCK_HDR_SIZE"
proof (induction a ts rule: live.induct)
  case (2 a s' f ts)
  show ?case
  proof (cases "(p, s) \<in> set (live (a + BLOCK_HDR_SIZE + s') ts)")
    case True
    with 2 obtain xs ys where "ts = xs @ (s, False) # ys" "p = tend (a + BLOCK_HDR_SIZE + s') xs + BLOCK_HDR_SIZE" by blast
    then show ?thesis by (intro exI [of _ "(s', f) # xs"] exI [of _ ys]) simp
  next
    case False
    with 2 show ?thesis by (intro exI [of _ "[]"] exI [of _ ts]) (auto split: if_splits)
  qed
qed simp

section \<open>Properties\<close>

text \<open>
  A client of the heap: it requests blocks and frees blocks it owns. \<open>L\<close> holds the pairs of the
  pointers the client owns and the sizes it asked for.
\<close>

definition request_ok :: "nat \<Rightarrow> bool" where
  "request_ok sz \<longleftrightarrow> 0 < sz \<and> sz + 4 * HEAP_PAGE \<le> 2 ^ 64"

inductive heap_client :: "nat \<Rightarrow> kheap \<Rightarrow> (nat \<times> nat) set \<Rightarrow> bool" for e where
  start: "heap_client e (kheap_setup e h) {}"
| alloc: "heap_client e h L \<Longrightarrow> request_ok sz \<Longrightarrow> kmalloc sz h = Some (p, h') \<Longrightarrow> p \<noteq> 0 \<Longrightarrow>
    heap_client e h' (insert (p, sz) L)"
| alloc_page: "heap_client e h L \<Longrightarrow> request_ok sz \<Longrightarrow> kmalloc_page_aligned sz h = Some (p, h') \<Longrightarrow> p \<noteq> 0 \<Longrightarrow>
    heap_client e h' (insert (p, sz) L)"
| free: "heap_client e h L \<Longrightarrow> (p, n) \<in> L \<Longrightarrow> kfree p h = Some h' \<Longrightarrow> heap_client e h' (L - {(p, n)})"

definition owns :: "kheap \<Rightarrow> tile list \<Rightarrow> (nat \<times> nat) set \<Rightarrow> bool" where
  "owns h ts L \<longleftrightarrow> inj_on fst L \<and> (\<forall>b\<in>L. \<exists>s. snd b \<le> s \<and> (fst b, s) \<in> set (live (kh_start h) ts))"

definition client_inv :: "kheap \<Rightarrow> (nat \<times> nat) set \<Rightarrow> bool" where
  "client_inv h L \<longleftrightarrow> (\<exists>ts. heap_rep h ts \<and> coalesced ts \<and> owns h ts L)"

lemma round_up_request:
  assumes "request_ok sz"
  shows "sz \<le> round_up 16 sz" "sz \<le> round_up HEAP_PAGE sz" "round_up HEAP_PAGE sz + 2 * HEAP_PAGE < 2 ^ 64"
proof -
  have "sz + 16 < 2 ^ 64" "sz + HEAP_PAGE < 2 ^ 64" "sz + 4 * HEAP_PAGE \<le> 2 ^ 64"
    using assms by (simp_all add: request_ok_def HEAP_PAGE_def)
  then show "sz \<le> round_up 16 sz" "sz \<le> round_up HEAP_PAGE sz" "round_up HEAP_PAGE sz + 2 * HEAP_PAGE < 2 ^ 64"
    using round_up_props [of sz 16] round_up_props [of sz HEAP_PAGE] by (simp_all add: HEAP_PAGE_def)
qed

lemma heap_setup_rep:
  assumes "KHEAP_START + BLOCK_HDR_SIZE \<le> e" "e + 2 * HEAP_PAGE < 2 ^ 64"
  shows "heap_rep (kheap_setup e h) [(e - KHEAP_START - BLOCK_HDR_SIZE, True)]"
  using assms by (simp add: heap_rep_def kheap_setup_def set_block_def sub64_eq KHEAP_START_def)

lemma extent_simps [simp]:
  "kh_start (set_block a b h) = kh_start h" "kh_end (set_block a b h) = kh_end h"
  "kh_end (upd_block a f h) = kh_end h"
  by (simp_all add: set_block_def upd_block_def)

lemma take_block_extent [simp]:
  "kh_start (take_block sz q c h) = kh_start h" "kh_end (take_block sz q c h) = kh_end h"
  by (simp_all add: take_block_def Let_def)

lemma carve_extent [simp]:
  "kh_start (carve_aligned sz al w c h) = kh_start h" "kh_end (carve_aligned sz al w c h) = kh_end h"
  by (simp_all add: carve_aligned_def Let_def)

lemma coalesce_extent [simp]:
  "kh_end (coalesce_next c h) = kh_end h"
  "kh_start (coalesce_prev q c h) = kh_start h" "kh_end (coalesce_prev q c h) = kh_end h"
  by (simp_all add: coalesce_next_def coalesce_prev_def Let_def)

lemma kmalloc_extent:
  "kmalloc sz h = Some (p, h') \<Longrightarrow> kh_start h' = kh_start h \<and> kh_end h' = kh_end h"
  by (cases "kmalloc_find (kh_mem h) (round_up 16 sz) 0 (kh_free_list h)")
    (auto simp: kmalloc_def Let_def split: if_splits option.splits prod.splits)

lemma kmalloc_page_extent:
  "kmalloc_page_aligned sz h = Some (p, h') \<Longrightarrow> kh_start h' = kh_start h \<and> kh_end h' = kh_end h"
  by (cases "kmalloc_page_find (kh_mem h) (round_up HEAP_PAGE sz) 0 (kh_free_list h)")
    (auto simp: kmalloc_page_aligned_def Let_def split: if_splits option.splits prod.splits)

lemma kfree_extent: "kfree p h = Some h' \<Longrightarrow> kh_start h' = kh_start h \<and> kh_end h' = kh_end h"
  by (auto simp: kfree_def Let_def bind_eq_Some_conv split: if_splits)

lemma heap_client_extent: "heap_client e h L \<Longrightarrow> kh_start h = KHEAP_START \<and> kh_end h = e"
proof (induction rule: heap_client.induct)
  case (start h)
  then show ?case by (simp add: kheap_setup_def set_block_def)
next
  case (alloc h L sz p h')
  then show ?case using kmalloc_extent [OF alloc(3)] by simp
next
  case (alloc_page h L sz p h')
  then show ?case using kmalloc_page_extent [OF alloc_page(3)] by simp
next
  case (free h L p n h')
  then show ?case using kfree_extent [OF free(3)] by simp
qed

text \<open>Replacing the free tile \<open>(s, True)\<close> by tiles with one live block keeps what the client owns.\<close>

lemma owns_insert:
  assumes "owns h (xs @ (s, True) # ys) L" "kh_start h' = kh_start h" "a = tend (kh_start h) xs"
    and "live a ms = [(p, k)]" "tend a ms = a + BLOCK_HDR_SIZE + s" "n \<le> k" "0 < n"
    and "a + BLOCK_HDR_SIZE \<le> p" "p + k \<le> a + BLOCK_HDR_SIZE + s"
  shows "owns h' (xs @ ms @ ys) (insert (p, n) L)"
proof -
  have old: "b \<in> L \<Longrightarrow> \<exists>r. snd b \<le> r \<and>
      ((fst b, r) \<in> set (live (kh_start h) xs) \<or> (fst b, r) \<in> set (live (a + BLOCK_HDR_SIZE + s) ys))" for b
    using assms(1,3) by (auto simp: owns_def)
  have new: "fst b \<noteq> p" if bL: "b \<in> L" for b
  proof -
    obtain r where "(fst b, r) \<in> set (live (kh_start h) xs) \<or> (fst b, r) \<in> set (live (a + BLOCK_HDR_SIZE + s) ys)"
      using old [OF bL] by blast
    then have "fst b + r \<le> a \<or> a + BLOCK_HDR_SIZE + s + BLOCK_HDR_SIZE \<le> fst b"
      using live_range [of "fst b" r] assms(3) by blast
    with assms(8,9) show ?thesis by (auto simp: BLOCK_HDR_SIZE_def)
  qed
  have "inj_on fst (insert (p, n) L)" using assms(1) new by (auto simp: owns_def inj_on_def)
  moreover have "\<exists>r. snd b \<le> r \<and> (fst b, r) \<in> set (live (kh_start h) (xs @ ms @ ys))" if "b \<in> insert (p, n) L" for b
    using that old [of b] assms(3-6) by auto
  ultimately show ?thesis by (auto simp: owns_def assms(2))
qed

lemma owns_free:
  assumes "owns h ts L" "(p, n) \<in> L" "heap_rep h ts"
  shows "\<exists>xs s ys. ts = xs @ (s, False) # ys \<and> n \<le> s \<and> p = tend (kh_start h) xs + BLOCK_HDR_SIZE"
proof -
  from assms(1,2) obtain s where "n \<le> s" "(p, s) \<in> set (live (kh_start h) ts)" by (force simp: owns_def)
  with live_split show ?thesis by blast
qed

lemma owns_remove:
  assumes "owns h (xs @ (s, False) # ys) L" "kh_start h' = kh_start h" "(p, n) \<in> L"
    and "p = tend (kh_start h) xs + BLOCK_HDR_SIZE"
  shows "owns h' (merge_prev xs (merge_next s ys)) (L - {(p, n)})"
proof -
  have inj: "inj_on fst L" using assms(1) by (simp add: owns_def)
  have "\<exists>r. snd b \<le> r \<and> (fst b, r) \<in> set (live (kh_start h) xs @ live (tend (kh_start h) xs + BLOCK_HDR_SIZE + s) ys)"
    if b: "b \<in> L - {(p, n)}" for b
  proof -
    have "fst b \<noteq> p" using b inj assms(3) by (auto simp: inj_on_def)
    moreover obtain r where "snd b \<le> r" "(fst b, r) \<in> set (live (kh_start h) (xs @ (s, False) # ys))"
      using b assms(1) by (auto simp: owns_def)
    ultimately show ?thesis using assms(4) by auto
  qed
  moreover have "inj_on fst (L - {(p, n)})" using inj by (rule inj_on_subset) auto
  ultimately show ?thesis by (auto simp: owns_def live_merge_prev assms(2))
qed

lemma client_inv_kmalloc:
  assumes "client_inv h L" "request_ok sz" "kmalloc sz h = Some (p, h')" "p \<noteq> 0"
  shows "client_inv h' (insert (p, sz) L)"
proof -
  obtain ts where ts: "heap_rep h ts" "coalesced ts" "owns h ts L" using assms(1) by (auto simp: client_inv_def)
  define n where "n = round_up 16 sz"
  have n: "sz \<le> n" "0 < sz" using assms(2) round_up_request by (auto simp: n_def request_ok_def)
  from kmalloc_rep [OF ts(1) n(2) n_def] assms(3,4) obtain xs s ys where
    x: "ts = xs @ (s, True) # ys" "n \<le> s" "p = tend (kh_start h) xs + BLOCK_HDR_SIZE"
    "heap_rep h' (xs @ taken n s @ ys)" "kh_start h' = kh_start h" by auto
  from live_taken(1) [OF x(2)] obtain k where
    k: "n \<le> k" "live (tend (kh_start h) xs) (taken n s) = [(p, k)]" by (auto simp: x(3))
  have "p + k \<le> tend (kh_start h) xs + BLOCK_HDR_SIZE + s"
    using live_range [of p k "tend (kh_start h) xs" "taken n s"] k(2) live_taken(2) [OF x(2)] by simp
  then have "owns h' (xs @ taken n s @ ys) (insert (p, sz) L)"
    using owns_insert [OF ts(3) [unfolded x(1)] x(5) refl k(2) live_taken(2) [OF x(2)], of sz] k(1) n x(3) by simp
  moreover have "coalesced (xs @ taken n s @ ys)" using ts(2) x(1) by (simp add: coalesced_taken)
  ultimately show ?thesis using x(4) by (auto simp: client_inv_def)
qed

lemma kmalloc_page_block:
  assumes "heap_rep h ts" "request_ok sz" "kmalloc_page_aligned sz h = Some (p, h')" "p \<noteq> 0"
  obtains xs s ys ms k where "ts = xs @ (s, True) # ys" "kh_start h' = kh_start h" "heap_rep h' (xs @ ms @ ys)"
    "tend (tend (kh_start h) xs) ms = tend (kh_start h) xs + BLOCK_HDR_SIZE + s"
    "live (tend (kh_start h) xs) ms = [(p, k)]" "sz \<le> k" "p mod HEAP_PAGE = 0"
    "tend (kh_start h) xs + BLOCK_HDR_SIZE \<le> p" "coalesced ts \<Longrightarrow> coalesced (xs @ ms @ ys)"
proof -
  define n where "n = round_up HEAP_PAGE sz"
  have n: "sz \<le> n" "0 < sz" "n + 2 * HEAP_PAGE < 2 ^ 64"
    using assms(2) round_up_request [OF assms(2)] by (auto simp: n_def request_ok_def)
  have "kmalloc_page_aligned sz h \<noteq> Some (0, h)" using assms(3,4) by simp
  from kmalloc_page_rep [OF assms(1) n(2) n_def n(3) this] obtain xs s ys h2 w where
    x: "ts = xs @ (s, True) # ys" "w + n \<le> s" "w = 0 \<or> BLOCK_HDR_SIZE + MIN_BLOCK_SIZE \<le> w"
      "(tend (kh_start h) xs + BLOCK_HDR_SIZE + w) mod HEAP_PAGE = 0"
      "kmalloc_page_aligned sz h = Some (tend (kh_start h) xs + BLOCK_HDR_SIZE + w, h2)"
      "heap_rep h2 (xs @ (if w = 0 then taken n s else carved n w s) @ ys)" "kh_start h2 = kh_start h"
    by (elim exE conjE)
  define a where "a = tend (kh_start h) xs"
  define ms where "ms = (if w = 0 then taken n s else carved n w s)"
  have h2: "h2 = h'" "p = a + BLOCK_HDR_SIZE + w" using x(5) assms(3) by (simp_all add: a_def)
  have T: "tend a ms = a + BLOCK_HDR_SIZE + s"
    using x(2,3) live_taken(2) [of n s a] live_carved(2) [of w n s a] by (auto simp: ms_def)
  have "\<exists>k. n \<le> k \<and> live a ms = [(p, k)]"
    using x(2,3) h2(2) live_taken(1) [of n s a] live_carved(1) [of w n s a] by (auto simp: ms_def)
  then obtain k where k: "n \<le> k" "live a ms = [(p, k)]" by blast
  show ?thesis
  proof (rule that [of xs s ys ms k, folded a_def])
    show "coalesced ts \<Longrightarrow> coalesced (xs @ ms @ ys)"
      unfolding x(1) by (simp add: ms_def coalesced_taken coalesced_carved)
    show "sz \<le> k" using n(1) k(1) by simp
    show "p mod HEAP_PAGE = 0" using x(4) by (simp add: h2(2) a_def)
  qed (use x h2 k T in \<open>simp_all add: ms_def\<close>)
qed

lemma client_inv_kmalloc_page:
  assumes "client_inv h L" "request_ok sz" "kmalloc_page_aligned sz h = Some (p, h')" "p \<noteq> 0"
  shows "client_inv h' (insert (p, sz) L)"
proof -
  obtain ts where ts: "heap_rep h ts" "coalesced ts" "owns h ts L" using assms(1) by (auto simp: client_inv_def)
  obtain xs s ys ms k where
    x: "ts = xs @ (s, True) # ys" "kh_start h' = kh_start h" "heap_rep h' (xs @ ms @ ys)"
    "tend (tend (kh_start h) xs) ms = tend (kh_start h) xs + BLOCK_HDR_SIZE + s"
    "live (tend (kh_start h) xs) ms = [(p, k)]" "sz \<le> k"
    "tend (kh_start h) xs + BLOCK_HDR_SIZE \<le> p" "coalesced (xs @ ms @ ys)"
    by (rule kmalloc_page_block [OF ts(1) assms(2-4)]) (use ts(2) in simp)
  have "p + k \<le> tend (kh_start h) xs + BLOCK_HDR_SIZE + s"
    using live_range [of p k "tend (kh_start h) xs" ms] x(4,5) by simp
  then have "owns h' (xs @ ms @ ys) (insert (p, sz) L)"
    using owns_insert [OF ts(3) [unfolded x(1)] x(2) refl x(5,4), of sz] x(6,7) assms(2) by (simp add: request_ok_def)
  then show ?thesis using x(3,8) by (auto simp: client_inv_def)
qed

lemma client_inv_kfree:
  assumes "client_inv h L" "(p, n) \<in> L"
  shows "\<exists>h'. kfree p h = Some h' \<and> client_inv h' (L - {(p, n)})"
proof -
  obtain ts where ts: "heap_rep h ts" "coalesced ts" "owns h ts L" using assms(1) by (auto simp: client_inv_def)
  from owns_free [OF ts(3) assms(2) ts(1)] obtain xs s ys where
    x: "ts = xs @ (s, False) # ys" "p = tend (kh_start h) xs + BLOCK_HDR_SIZE" by blast
  from kfree_rep [OF ts(1) [unfolded x(1)]] obtain h' where
    h: "kfree p h = Some h'" "heap_rep h' (merge_prev xs (merge_next s ys))" "kh_start h' = kh_start h"
    by (auto simp: x(2))
  have "owns h' (merge_prev xs (merge_next s ys)) (L - {(p, n)})"
    using owns_remove [OF ts(3) [unfolded x(1)] h(3) assms(2) x(2)] .
  moreover have "coalesced (merge_prev xs (merge_next s ys))"
    using coalesced_free ts(2) x(1) by simp
  ultimately show ?thesis using h by (auto simp: client_inv_def)
qed

lemma heap_client_inv:
  assumes "heap_client e h L" "KHEAP_START + BLOCK_HDR_SIZE \<le> e" "e + 2 * HEAP_PAGE < 2 ^ 64"
  shows "client_inv h L"
  using assms(1)
proof (induction rule: heap_client.induct)
  case (start h)
  have "heap_rep (kheap_setup e h) [(e - KHEAP_START - BLOCK_HDR_SIZE, True)]"
    by (rule heap_setup_rep [OF assms(2,3)])
  then show ?case by (force simp: client_inv_def owns_def)
next
  case (alloc h L sz p h')
  then show ?case by (intro client_inv_kmalloc)
next
  case (alloc_page h L sz p h')
  then show ?case by (intro client_inv_kmalloc_page)
next
  case (free h L p n h')
  then show ?case using client_inv_kfree by fastforce
qed

lemma heap_client_progress:
  assumes "client_inv h L" "request_ok sz"
  shows "kmalloc sz h \<noteq> None" "kmalloc_page_aligned sz h \<noteq> None"
proof -
  obtain ts where ts: "heap_rep h ts" using assms(1) by (auto simp: client_inv_def)
  have "0 < sz" using assms(2) by (simp add: request_ok_def)
  with kmalloc_rep [OF ts _ refl, of sz] show "kmalloc sz h \<noteq> None" by auto
  show "kmalloc_page_aligned sz h \<noteq> None"
  proof (cases "kmalloc_page_aligned sz h = Some (0, h)")
    case False
    from kmalloc_page_rep [OF ts \<open>0 < sz\<close> refl round_up_request(3) [OF assms(2)] False] show ?thesis by auto
  qed simp
qed

text \<open>
  C2 (the kernel heap is safe for its clients). After any sequence of \<^verbatim>\<open>kmalloc\<close>,
  \<^verbatim>\<open>kmalloc_page_aligned\<close> and \<^verbatim>\<open>kfree\<close> of owned blocks on the heap set up over
  \<^verbatim>\<open>[KHEAP_START, e)\<close>, every owned block lies inside the heap with the size that was asked for, any two
  owned blocks are disjoint, every further request returns and every free of an owned block returns:
  the free-list walks end.
\<close>

theorem heap_client_safe:
  assumes "heap_client e h L" "KHEAP_START + BLOCK_HDR_SIZE \<le> e" "e + 2 * HEAP_PAGE < 2 ^ 64"
  shows "(\<forall>b\<in>L. KHEAP_START \<le> fst b \<and> fst b + snd b \<le> e) \<and>
    (\<forall>b\<in>L. \<forall>c\<in>L. b \<noteq> c \<longrightarrow> apart b c) \<and>
    (\<forall>sz. request_ok sz \<longrightarrow> kmalloc sz h \<noteq> None \<and> kmalloc_page_aligned sz h \<noteq> None) \<and>
    (\<forall>b\<in>L. kfree (fst b) h \<noteq> None)"
proof -
  note inv = heap_client_inv [OF assms]
  then obtain ts where ts: "heap_rep h ts" "owns h ts L" by (auto simp: client_inv_def)
  have se: "kh_start h = KHEAP_START \<and> kh_end h = e" using heap_client_extent [OF assms(1)] .
  have blk: "\<exists>s. snd b \<le> s \<and> (fst b, s) \<in> set (live KHEAP_START ts)" if "b \<in> L" for b
    using ts(2) that se by (auto simp: owns_def)
  have tend: "tend KHEAP_START ts = e" using ts(1) se by (simp add: heap_rep_def)
  have "KHEAP_START \<le> fst b \<and> fst b + snd b \<le> e" if "b \<in> L" for b
    using blk [OF that] live_range [of "fst b" _ KHEAP_START ts] tend by fastforce
  moreover have "apart b c" if bc: "b \<in> L" "c \<in> L" "b \<noteq> c" for b c
  proof -
    have "fst b \<noteq> fst c" using ts(2) bc by (auto simp: owns_def inj_on_def)
    moreover obtain s t where "snd b \<le> s" "snd c \<le> t" "(fst b, s) \<in> set (live KHEAP_START ts)"
      "(fst c, t) \<in> set (live KHEAP_START ts)" using blk bc by blast
    ultimately show ?thesis
      using live_apart [of "(fst b, s)" KHEAP_START ts "(fst c, t)"] by (auto simp: apart_def)
  qed
  moreover have "kfree (fst b) h \<noteq> None" if "b \<in> L" for b
    using client_inv_kfree [OF inv, of "fst b" "snd b"] that by auto
  ultimately show ?thesis using heap_client_progress [OF inv] by blast
qed


text \<open>
  C33 (page alignment). A non-null result of \<^verbatim>\<open>kmalloc_page_aligned\<close> is a multiple of the page size,
  and the new heap is well formed with a block at that address of at least the requested size.
\<close>

theorem kmalloc_page_aligned_is_aligned:
  assumes "heap_rep h ts" "request_ok sz" "kmalloc_page_aligned sz h = Some (p, h')" "p \<noteq> 0"
  shows "p mod HEAP_PAGE = 0 \<and> (\<exists>ts' s. heap_rep h' ts' \<and> (p, s) \<in> set (live (kh_start h') ts') \<and> sz \<le> s)"
proof -
  obtain xs s ys ms k where
    "kh_start h' = kh_start h" "heap_rep h' (xs @ ms @ ys)" "live (tend (kh_start h) xs) ms = [(p, k)]"
    "sz \<le> k" "p mod HEAP_PAGE = 0" by (rule kmalloc_page_block [OF assms])
  then show ?thesis by (intro conjI exI [of _ "xs @ ms @ ys"] exI [of _ k]) simp_all
qed

text \<open>
  C34 (free undoes allocate). On a coalesced heap, freeing a block directly after it was allocated
  gives back exactly the heap layout from before: no memory is lost to fragmentation.
\<close>

theorem kfree_undoes_kmalloc:
  assumes "heap_rep h ts" "coalesced ts" "request_ok sz" "kmalloc sz h = Some (p, h')" "p \<noteq> 0"
  shows "\<exists>h''. kfree p h' = Some h'' \<and> heap_rep h'' ts"
proof -
  have z: "0 < sz" using assms(3) by (simp add: request_ok_def)
  let ?n = "round_up 16 sz"
  from kmalloc_rep [OF assms(1) z refl] assms(4,5) obtain xs s ys where
    x: "ts = xs @ (s, True) # ys" "?n \<le> s" "p = tend (kh_start h) xs + BLOCK_HDR_SIZE"
    "heap_rep h' (xs @ taken ?n s @ ys)" "kh_start h' = kh_start h" by auto
  obtain s' zs where t: "taken ?n s @ ys = (s', False) # zs"
    by (cases "s \<ge> ?n + BLOCK_HDR_SIZE + MIN_BLOCK_SIZE") (simp_all add: taken_def)
  have "merge_prev xs (merge_next s' zs) = ts"
    using free_taken [OF assms(2) [unfolded x(1)] x(2) t] by (simp add: x(1))
  with kfree_rep [of h' xs s' zs] x(3-5) t show ?thesis by auto
qed

text \<open>A heap of four pages, and the same heap after a request of 100 bytes.\<close>

definition small_heap :: kheap where
  "small_heap = kheap_setup (KHEAP_START + 0x4000)
     \<lparr>kh_mem = (\<lambda>_. \<lparr>kb_size = 0, kb_next = 0, kb_magic = 0\<rparr>), kh_free_list = 0, kh_start = 0, kh_end = 0\<rparr>"

definition small_heap_used :: kheap where
  "small_heap_used = take_block 112 0 KHEAP_START small_heap"

lemma small_heap_rep: "heap_rep small_heap [(16360, True)]"
  using heap_setup_rep [of "KHEAP_START + 0x4000"]
  by (simp add: small_heap_def BLOCK_HDR_SIZE_def HEAP_PAGE_def KHEAP_START_def)

lemma small_heap_kmalloc: "kmalloc 100 small_heap = Some (0xFFFFFFFF90000018, small_heap_used)"
proof -
  have "kmalloc_find (kh_mem small_heap) 112 0 (kh_free_list small_heap) = Some (Some (0, KHEAP_START))"
    by (subst kmalloc_find.simps)
      (simp add: small_heap_def kheap_setup_def set_block_def KHEAP_START_def BLOCK_HDR_SIZE_def sub64_eq)
  then show ?thesis
    by (simp add: kmalloc_def round_up_def add64_eq small_heap_used_def)
      (simp add: add64_eq KHEAP_START_def BLOCK_HDR_SIZE_def)
qed

lemma small_heap_page: "\<exists>h'. kmalloc_page_aligned 100 small_heap = Some (0xFFFFFFFF90001000, h')"
proof -
  have aw: "aligned_waste KHEAP_START = (0xFFFFFFFF90001000, 4072)"
    by (simp add: aligned_waste_def Let_def round_up_def KHEAP_START_def BLOCK_HDR_SIZE_def HEAP_PAGE_def
        MIN_BLOCK_SIZE_def add64_eq sub64_eq)
  have "kmalloc_page_find (kh_mem small_heap) 4096 0 (kh_free_list small_heap) = Some (Some (0, KHEAP_START))"
    by (subst kmalloc_page_find.simps)
      (simp add: small_heap_def kheap_setup_def set_block_def fits_aligned_def aw MIN_BLOCK_SIZE_def,
       simp add: KHEAP_START_def BLOCK_HDR_SIZE_def sub64_eq add64_eq)
  then show ?thesis
    by (simp add: kmalloc_page_aligned_def round_up_def add64_eq HEAP_PAGE_def aw)
qed

theorem heap_client_safe_witness:
  "heap_client (KHEAP_START + 0x4000) small_heap_used {(0xFFFFFFFF90000018, 100)} \<and>
   kfree 0xFFFFFFFF90000018 small_heap_used \<noteq> None"
proof -
  have "heap_client (KHEAP_START + 0x4000) small_heap {}"
    unfolding small_heap_def by (rule heap_client.start)
  from heap_client.alloc [OF this _ small_heap_kmalloc]
  have c: "heap_client (KHEAP_START + 0x4000) small_heap_used {(0xFFFFFFFF90000018, 100)}"
    by (simp add: request_ok_def HEAP_PAGE_def)
  from heap_client_safe [OF this] show ?thesis
    using c by (simp add: BLOCK_HDR_SIZE_def HEAP_PAGE_def KHEAP_START_def)
qed


theorem kmalloc_page_aligned_is_aligned_witness:
  "\<exists>p h'. kmalloc_page_aligned 100 small_heap = Some (p, h') \<and> p \<noteq> 0 \<and> p mod HEAP_PAGE = 0"
proof -
  have ok: "request_ok 100" by (simp add: request_ok_def HEAP_PAGE_def)
  from small_heap_page obtain h' where h: "kmalloc_page_aligned 100 small_heap = Some (0xFFFFFFFF90001000, h')" by blast
  from kmalloc_page_aligned_is_aligned [OF small_heap_rep ok h] h show ?thesis by auto
qed

theorem kfree_undoes_kmalloc_witness:
  "\<exists>h''. kfree 0xFFFFFFFF90000018 small_heap_used = Some h'' \<and> heap_rep h'' [(16360, True)]"
proof -
  have "request_ok 100" by (simp add: request_ok_def HEAP_PAGE_def)
  from kfree_undoes_kmalloc [OF small_heap_rep _ this small_heap_kmalloc] show ?thesis by simp
qed

end
