(* ===== verification/NetBase.thy ===== *)
theory NetBase
  imports Bytes
begin

text \<open>
  Byte order and the ones-complement checksum (\<^verbatim>\<open>kernel/net/net.h\<close>, \<^verbatim>\<open>ip_checksum\<close> of
  \<^verbatim>\<open>kernel/net/net.c\<close>). A packet in memory is a function from offsets to bytes. The sums are
  32-bit words, as in the source; the fold loop has its termination proof, and what it computes is
  characterised modulo 65535.
\<close>

lemma unat_bounds: "unat (b :: u8) < 256" "unat (h :: u16) < 65536" "unat (w :: u32) < 4294967296"
proof -
  have "unat b < 2 ^ LENGTH(8)" "unat h < 2 ^ LENGTH(16)" "unat w < 2 ^ LENGTH(32)" by (rule unsigned_less)+
  then show "unat b < 256" "unat h < 65536" "unat w < 4294967296" by simp_all
qed

section \<open>Byte order\<close>

definition htons :: "u16 \<Rightarrow> u16" where
  "htons v = drop_bit 8 v OR push_bit 8 v"

definition ntohs :: "u16 \<Rightarrow> u16" where
  "ntohs v = htons v"

definition htonl :: "u32 \<Rightarrow> u32" where
  "htonl v = (drop_bit 24 v AND 0xFF) OR (drop_bit 8 v AND 0xFF00) OR
     (push_bit 8 v AND 0xFF0000) OR (push_bit 24 v AND 0xFF000000)"

definition ntohl :: "u32 \<Rightarrow> u32" where
  "ntohl v = htonl v"

lemma ntohs_htons [simp]: "ntohs (htons v) = v"
proof (rule bit_word_eqI)
  fix n assume "n < LENGTH(16)"
  then show "bit (ntohs (htons v)) n = bit v n"
    by (cases "n < 8") (auto simp: ntohs_def htons_def bit_simps)
qed

lemma mask_FF: "(0xFF :: u32) = mask 8" "(0xFF00 :: u32) = push_bit 8 (mask 8)"
  "(0xFF0000 :: u32) = push_bit 16 (mask 8)" "(0xFF000000 :: u32) = push_bit 24 (mask 8)"
  by (simp_all add: mask_numeral)

lemma bit_htonl: "n < 32 \<Longrightarrow> bit (htonl v) n = bit v (8 * (3 - n div 8) + n mod 8)"
proof -
  assume n: "n < 32"
  have d: "n = 8 * (n div 8) + n mod 8" "n mod 8 < 8" by simp_all
  consider "n div 8 = 0" | "n div 8 = 1" | "n div 8 = 2" | "n div 8 = 3" using n by (auto; linarith)
  then show ?thesis
  proof cases
    case 1
    then show ?thesis using n d unfolding htonl_def mask_FF by (simp add: bit_simps)
  next
    case 2
    then have "8 \<le> n" "n < 16" using d by simp_all
    moreover have "n mod 8 = n - 8" using 2 d by simp
    ultimately show ?thesis using 2 unfolding htonl_def mask_FF by (auto simp: bit_simps)
  next
    case 3
    then have "16 \<le> n" "n < 24" using d by simp_all
    moreover have "n mod 8 = n - 16" using 3 d by simp
    ultimately show ?thesis using 3 unfolding htonl_def mask_FF by (auto simp: bit_simps)
  next
    case 4
    then have "24 \<le> n" "n < 32" using d by simp_all
    moreover have "n mod 8 = n - 24" using 4 d by simp
    ultimately show ?thesis using 4 unfolding htonl_def mask_FF by (auto simp: bit_simps)
  qed
qed

lemma ntohl_htonl [simp]: "ntohl (htonl v) = v"
proof (rule bit_word_eqI)
  fix n assume n: "n < LENGTH(32)"
  let ?m = "8 * (3 - n div 8) + n mod 8"
  have m: "?m < 32" by (simp add: less_eq_Suc_le)
  have "?m div 8 = 3 - n div 8" "?m mod 8 = n mod 8" by simp_all
  moreover have "n div 8 \<le> 3" using n by simp
  ultimately have "8 * (3 - ?m div 8) + ?m mod 8 = n" by simp
  then show "bit (ntohl (htonl v)) n = bit v n"
    using n m bit_htonl [of n "htonl v"] bit_htonl [of ?m v] by (simp add: ntohl_def)
qed

section \<open>The ones-complement sum\<close>

text \<open>\<^verbatim>\<open>while (len > 1) { sum += *ptr++; len -= 2; } if (len == 1) sum += *(const uint8_t *)ptr;\<close>\<close>

fun sum16 :: "(nat \<Rightarrow> u8) \<Rightarrow> nat \<Rightarrow> nat \<Rightarrow> u32 \<Rightarrow> u32" where
  "sum16 m p 0 acc = acc"
| "sum16 m p (Suc 0) acc = acc + ucast (m p)"
| "sum16 m p (Suc (Suc n)) acc = sum16 m (p + 2) n (acc + ucast (le16 m p))"

text \<open>\<^verbatim>\<open>while (sum >> 16) sum = (sum & 0xFFFF) + (sum >> 16);\<close>\<close>

lemma unat_halves: "unat (w AND 0xFFFF) = unat w mod 65536" "unat (drop_bit 16 w) = unat w div 65536" for w :: u32
proof -
  have e: "(0xFFFF :: u32) = mask 16" by (simp add: mask_numeral)
  show "unat (w AND 0xFFFF) = unat w mod 65536"
    unfolding e take_bit_eq_mask [symmetric] unsigned_take_bit_eq by (simp add: take_bit_eq_mod)
  show "unat (drop_bit 16 w) = unat w div 65536"
    unfolding unsigned_drop_bit_eq by (simp add: drop_bit_eq_div take_bit_nat_eq_self unat_bounds)
qed

lemma unat_fold_step: "unat ((w AND 0xFFFF) + drop_bit 16 w) = unat w mod 65536 + unat w div 65536" for w :: u32
proof -
  have "unat w < 2 ^ 32" using unat_bounds(3) [of w] by simp
  then have "unat (w AND 0xFFFF) + unat (drop_bit 16 w) < 2 ^ 32" by (simp add: unat_halves)
  then show ?thesis by (simp add: unat_word_ariths unat_halves)
qed

function fold16 :: "u32 \<Rightarrow> u32" where
  "fold16 w = (if drop_bit 16 w \<noteq> 0 then fold16 ((w AND 0xFFFF) + drop_bit 16 w) else w)"
  by pat_completeness auto
termination
proof (relation "measure unat")
  fix w :: u32 assume "drop_bit 16 w \<noteq> 0"
  then have "unat (drop_bit 16 w) \<noteq> 0" by (simp add: unat_eq_0)
  then have "unat w div 65536 > 0" by (simp add: unat_halves)
  then have "unat w mod 65536 + unat w div 65536 < unat w"
    using div_mult_mod_eq [of "unat w" 65536] by linarith
  then show "((w AND 0xFFFF) + drop_bit 16 w, w) \<in> measure unat" by (simp add: unat_fold_step)
qed simp

declare fold16.simps [simp del]

definition ip_checksum :: "(nat \<Rightarrow> u8) \<Rightarrow> nat \<Rightarrow> nat \<Rightarrow> u16" where
  "ip_checksum m p len = ucast (NOT (fold16 (sum16 m p len 0)))"

section \<open>What the checksum computes\<close>

text \<open>The folded sum is the residue of the sum modulo 65535, with 65535 for 0 unless the sum is 0.\<close>

lemma fold16_props:
  "unat (fold16 w) < 65536 \<and> unat (fold16 w) mod 65535 = unat w mod 65535 \<and> (fold16 w = 0 \<longleftrightarrow> w = 0)"
proof (induction w rule: fold16.induct)
  case (1 w)
  show ?case
  proof (cases "drop_bit 16 w = 0")
    case True
    then have "unat w div 65536 = 0" using unat_halves(2) [of w] by simp
    then show ?thesis using True by (subst (1 2 3) fold16.simps) simp
  next
    case False
    let ?v = "(w AND 0xFFFF) + drop_bit 16 w"
    have f: "fold16 w = fold16 ?v" using False by (subst fold16.simps) simp
    have v: "unat ?v = unat w mod 65536 + unat w div 65536" by (rule unat_fold_step)
    have "unat w = 65535 * (unat w div 65536) + unat ?v"
      using div_mult_mod_eq [of "unat w" 65536] unfolding v by linarith
    then have "unat w mod 65535 = unat ?v mod 65535" by (metis mod_mult_self4)
    moreover have "?v = 0 \<longleftrightarrow> w = 0"
    proof -
      have "?v = 0 \<longleftrightarrow> unat ?v = 0" by (simp add: unat_eq_0)
      also have "\<dots> \<longleftrightarrow> unat w = 0" unfolding v using div_mult_mod_eq [of "unat w" 65536] by auto
      finally show ?thesis by (simp add: unat_eq_0)
    qed
    ultimately show ?thesis using 1 False by (simp add: f)
  qed
qed

lemma fold16_max: "0 < unat w \<Longrightarrow> unat w mod 65535 = 0 \<Longrightarrow> fold16 w = 0xFFFF"
proof -
  assume a: "0 < unat w" "unat w mod 65535 = 0"
  have p: "unat (fold16 w) < 65536" "unat (fold16 w) mod 65535 = 0" "fold16 w \<noteq> 0"
    using fold16_props [of w] a by auto
  then have "unat (fold16 w) \<noteq> 0" by (simp add: unat_eq_0)
  with p have "unat (fold16 w) = 65535" by (auto simp: mod_eq_0_iff_dvd elim!: dvdE)
  then have "unat (fold16 w) = unat (0xFFFF :: u32)" by simp
  then show ?thesis by (rule unsigned_word_eqI)
qed

lemma ip_checksum_unat: "unat (ip_checksum m p len) = 65535 - unat (fold16 (sum16 m p len 0))"
proof -
  let ?f = "fold16 (sum16 m p len 0)"
  have lt: "unat ?f < 65536" using fold16_props by blast
  have "NOT ?f = - 1 - ?f" by (simp add: not_eq_complement)
  then have "unat (NOT ?f) = 2 ^ 32 - 1 - unat ?f"
    by (simp add: unat_sub unsigned_minus_1_eq_mask mask_eq_exp_minus_1)
  then have "unat (ip_checksum m p len) = (2 ^ 32 - 1 - unat ?f) mod 65536"
    by (simp add: ip_checksum_def unsigned_ucast_eq take_bit_eq_mod)
  also have "\<dots> = 65535 - unat ?f"
  proof -
    have e: "2 ^ 32 - 1 - unat ?f = 65536 * 65535 + (65535 - unat ?f)" using lt by simp
    show ?thesis unfolding e mod_mult_self4 by (rule mod_less) simp
  qed
  finally show ?thesis .
qed

text \<open>The sum of a block as a number, as long as it does not overflow.\<close>

fun nsum :: "(nat \<Rightarrow> u8) \<Rightarrow> nat \<Rightarrow> nat \<Rightarrow> nat" where
  "nsum m p 0 = 0"
| "nsum m p (Suc 0) = unat (m p)"
| "nsum m p (Suc (Suc n)) = unat (le16 m p) + nsum m (p + 2) n"

lemma unat_ucast32 [simp]: "unat (ucast (b :: u8) :: u32) = unat b" "unat (ucast (w :: u16) :: u32) = unat w"
proof -
  have "unat b < 2 ^ 32" "unat w < 2 ^ 32" using unat_bounds(1) [of b] unat_bounds(2) [of w] by simp_all
  then show "unat (ucast b :: u32) = unat b" "unat (ucast w :: u32) = unat w"
    by (simp_all add: unsigned_ucast_eq take_bit_nat_eq_self)
qed

lemma mod_add_cancel: "(a + f) mod m = f mod m \<Longrightarrow> a mod m = 0" for a f m :: nat
  using mod_eq_dvd_iff_nat [of f "a + f" m] by (simp add: mod_eq_0_iff_dvd)

lemma nsum_bound: "nsum m p n \<le> n * 65535"
proof (induction m p n rule: nsum.induct)
  case (2 m p)
  have "unat (m p) < 256" by (rule unat_bounds)
  then show ?case by simp
next
  case (3 m p n)
  then show ?case using unat_bounds(2) [of "le16 m p"] by simp
qed simp

lemma sum16_nsum: "unat acc + nsum m p n < 2 ^ 32 \<Longrightarrow> unat (sum16 m p n acc) = unat acc + nsum m p n"
proof (induction m p n acc rule: sum16.induct)
  case (2 m p acc)
  then show ?case by (simp add: unat_word_ariths)
next
  case (3 m p n acc)
  have "unat (acc + ucast (le16 m p)) = unat acc + unat (le16 m p)"
    using 3(2) by (simp add: unat_word_ariths)
  with 3 show ?case by simp
qed simp

lemma nsum_split: "nsum m p (2 * k + n) = nsum m p (2 * k) + nsum m (p + 2 * k) n"
  by (induction k arbitrary: p) (auto simp: add.assoc)

lemma nsum_cong: "(\<And>i. p \<le> i \<Longrightarrow> i < p + n \<Longrightarrow> m i = m' i) \<Longrightarrow> nsum m p n = nsum m' p n"
proof (induction m p n rule: nsum.induct)
  case (3 m p n)
  have "le16 m p = le16 m' p" using 3(2) by (simp add: le16_def)
  moreover have "nsum m (p + 2) n = nsum m' (p + 2) n" by (rule 3(1)) (use 3(2) in auto)
  ultimately show ?case by simp
qed auto

text \<open>
  A block whose checksum field, at an even offset, holds the checksum of the block with the field
  zeroed: its own checksum is 0. This is what the receivers test.
\<close>

lemma checksum_verifies:
  assumes field: "le16 m (p + 2 * k) = ip_checksum m' p n" "le16 m' (p + 2 * k) = 0"
    and same: "\<And>i. p \<le> i \<Longrightarrow> i < p + n \<Longrightarrow> i \<noteq> p + 2 * k \<Longrightarrow> i \<noteq> p + 2 * k + 1 \<Longrightarrow> m i = m' i"
    and range: "2 * k + 2 \<le> n" "n \<le> 65536"
  shows "ip_checksum m p n = 0"
proof -
  define r where "r = n - 2 * k - 2"
  have n: "n = 2 * k + (2 + r)" using range by (simp add: r_def)
  have split: "nsum f p n = nsum f p (2 * k) + (unat (le16 f (p + 2 * k)) + nsum f (p + 2 * k + 2) r)" for f
    unfolding n nsum_split by (simp add: numeral_2_eq_2)
  have rest: "nsum m p (2 * k) = nsum m' p (2 * k)" "nsum m (p + 2 * k + 2) r = nsum m' (p + 2 * k + 2) r"
    by (rule nsum_cong, rule same; use n in simp)+
  have lim: "nsum f p n < 2 ^ 32" for f
  proof -
    have "n * 65535 \<le> 65536 * 65535" using range(2) by simp
    with nsum_bound [of f p n] show ?thesis by simp
  qed
  have s: "unat (sum16 f p n 0) = nsum f p n" for f
    using sum16_nsum [of 0 f p n] lim [of f] by simp
  let ?w' = "sum16 m' p n 0" and ?w = "sum16 m p n 0"
  have F: "unat (fold16 ?w') < 65536" "unat (fold16 ?w') mod 65535 = unat ?w' mod 65535"
    using fold16_props by blast+
  have c: "unat (le16 m (p + 2 * k)) = 65535 - unat (fold16 ?w')"
    unfolding field(1) by (rule ip_checksum_unat)
  have w: "unat ?w = unat ?w' + (65535 - unat (fold16 ?w'))"
    unfolding s split [of m] split [of m'] rest c field(2) by simp
  have "unat ?w mod 65535 = 0"
  proof -
    have "(unat ?w + unat (fold16 ?w')) mod 65535 = unat ?w' mod 65535"
      unfolding w using F(1) by simp
    then have "(unat ?w + unat (fold16 ?w')) mod 65535 = unat (fold16 ?w') mod 65535" by (simp add: F(2))
    then show ?thesis by (rule mod_add_cancel)
  qed
  moreover have "0 < unat ?w"
  proof (cases "unat ?w' = 0")
    case True
    then have "fold16 ?w' = 0" using fold16_props [of ?w'] by (simp add: unat_eq_0)
    then show ?thesis unfolding w by simp
  qed (simp add: w)
  ultimately have "fold16 ?w = 0xFFFF" by (intro fold16_max)
  then have "unat (ip_checksum m p n) = 0" by (simp add: ip_checksum_unat)
  then show ?thesis by (simp add: unat_eq_0)
qed

end
