(* ===== verification/NetState.thy ===== *)
theory NetState
  imports NetBase Pipe
begin

text \<open>
  The state of the network stack: the data types of \<^verbatim>\<open>kernel/net/*.h\<close> and of the network card
  driver, and the record \<open>net\<close> of all the static variables of those modules together with the
  scheduler state they act on. A pointer to a packet buffer is the pool and the index in it, a
  pointer to a process its slot, an index of a connection or a socket a number.

  The bytes of a packet buffer are a function from offsets to bytes: offsets past the array stand
  for whatever lies behind it in memory, which some receive paths read when a length field lies.
\<close>

section \<open>Packet buffers\<close>

definition NETBUF_SMALL_SIZE :: nat where "NETBUF_SMALL_SIZE = 256"
definition NETBUF_LARGE_SIZE :: nat where "NETBUF_LARGE_SIZE = 2048"
definition NETBUF_SMALL_COUNT :: nat where "NETBUF_SMALL_COUNT = 128"
definition NETBUF_LARGE_COUNT :: nat where "NETBUF_LARGE_COUNT = 128"

record netbuf =
  nb_data :: "nat \<Rightarrow> u8"
  nb_len :: nat
  nb_offset :: nat
  nb_capacity :: nat
  nb_refcount :: nat
  nb_in_use :: bool
  nb_is_small :: bool

datatype nbref = Small nat | Large nat

section \<open>Protocol state\<close>

record arp_entry =
  ae_ip :: u32
  ae_mac :: "u8 list"
  ae_valid :: bool
  ae_timestamp :: u32

record ping_state =
  ps_waiter :: "nat option"
  ps_id :: u16
  ps_seq :: u16
  ps_received :: bool
  ps_send_tick :: u64
  ps_recv_tick :: u64

datatype tcp_state =
  TCP_CLOSED | TCP_LISTEN | TCP_SYN_SENT | TCP_SYN_RECEIVED | TCP_ESTABLISHED | TCP_FIN_WAIT_1 |
  TCP_FIN_WAIT_2 | TCP_CLOSE_WAIT | TCP_LAST_ACK | TCP_TIME_WAIT

record tcp_connection =
  tc_state :: tcp_state
  tc_local_ip :: u32
  tc_local_port :: u16
  tc_remote_ip :: u32
  tc_remote_port :: u16
  tc_snd_nxt :: u32
  tc_snd_una :: u32
  tc_rcv_nxt :: u32
  tc_rx_buf :: "u8 list"
  tc_rx_read_pos :: nat
  tc_rx_write_pos :: nat
  tc_rx_count :: nat
  tc_blocked_reader :: "nat option"
  tc_blocked_writer :: "nat option"
  tc_blocked_accepter :: "nat option"
  tc_accept_queue :: "nat list"
  tc_accept_head :: nat
  tc_accept_tail :: nat
  tc_accept_count :: nat
  tc_parent_idx :: int
  tc_retransmit_data :: "u8 list"
  tc_retransmit_len :: nat
  tc_retransmit_seq :: u32
  tc_retransmit_timer :: nat
  tc_retransmit_count :: nat
  tc_in_use :: bool
  tc_eof :: bool

record socket_udp_pkt =
  up_data :: "u8 list"
  up_len :: nat
  up_src_ip :: u32
  up_src_port :: u16
  up_valid :: bool

record socket =
  so_type :: int
  so_local_ip :: u32
  so_local_port :: u16
  so_remote_ip :: u32
  so_remote_port :: u16
  so_bound :: bool
  so_listening :: bool
  so_connected :: bool
  so_in_use :: bool
  so_nonblocking :: bool
  so_refcount :: int
  so_udp_queue :: "socket_udp_pkt list"
  so_udp_head :: nat
  so_udp_tail :: nat
  so_udp_count :: nat
  so_tcp_conn_idx :: int
  so_blocked_reader :: "nat option"
  so_blocked_writer :: "nat option"

section \<open>The network card\<close>

text \<open>
  \<open>rd_dd\<close> and \<open>nic_tx_dd\<close> are the descriptor-done bits, which the card sets; \<open>nic_drains\<close> says
  whether the card finishes a busy transmit descriptor within the polling limit of the driver;
  \<open>nic_tx_log\<close> is the sequence of frames handed to the card.
\<close>

record rx_desc =
  rd_dd :: bool
  rd_length :: nat
  rd_buffer :: "u8 list"

record nic =
  nic_initialized :: bool
  nic_mac :: "u8 list"
  nic_tx_dd :: "bool list"
  nic_tx_tail :: nat
  nic_drains :: bool
  nic_tx_log :: "u8 list list"
  nic_rx_ring :: "rx_desc list"
  nic_rx_tail :: nat

section \<open>The whole stack\<close>

record net =
  net_sched :: sched
  net_ticks :: u64
  small_pool :: "netbuf list"
  large_pool :: "netbuf list"
  our_ip :: u32
  our_netmask :: u32
  our_gateway :: u32
  rx_queue :: "nbref list"
  rx_head :: nat
  rx_tail :: nat
  net_worker_proc :: "nat option"
  arp_table :: "arp_entry list"
  arp_waiter :: "nat option"
  arp_waiter_ip :: u32
  ip_id_counter :: u16
  ip_packet :: "u8 list"
  ping_st :: ping_state
  conns :: "tcp_connection list"
  sockets :: "socket list"
  next_ephemeral_port :: u16
  the_nic :: nic
  net_fault :: bool

text \<open>
  \<open>net_fault\<close> records that a \<^verbatim>\<open>memcpy\<close> of the stack ran past the end of its destination: from
  there on the program has no defined behaviour. The model then keeps the part that fits.
\<close>

definition upd_sched :: "(sched \<Rightarrow> sched) \<Rightarrow> net \<Rightarrow> net" where
  "upd_sched f s = s\<lparr>net_sched := f (net_sched s)\<rparr>"

definition upd_conn :: "nat \<Rightarrow> (tcp_connection \<Rightarrow> tcp_connection) \<Rightarrow> net \<Rightarrow> net" where
  "upd_conn i f s = s\<lparr>conns := upd_nth i f (conns s)\<rparr>"

definition upd_sock :: "nat \<Rightarrow> (socket \<Rightarrow> socket) \<Rightarrow> net \<Rightarrow> net" where
  "upd_sock i f s = s\<lparr>sockets := upd_nth i f (sockets s)\<rparr>"

definition upd_nic :: "(nic \<Rightarrow> nic) \<Rightarrow> net \<Rightarrow> net" where
  "upd_nic f s = s\<lparr>the_nic := f (the_nic s)\<rparr>"

text \<open>\<^verbatim>\<open>p->state = PROCESS_READY; scheduler_add(p);\<close>: what every wake-up of the stack does.\<close>

definition wake :: "nat \<Rightarrow> net \<Rightarrow> net" where
  "wake p = upd_sched (\<lambda>sc. scheduler_add p (set_state p PROCESS_READY sc))"

text \<open>
  \<^verbatim>\<open>cur->state = PROCESS_BLOCKED; schedule();\<close> followed by the rest of the system running until the
  process is dispatched again. What the rest of the system does in between is not determined by the
  blocked code: it is the argument \<open>env\<close>.
\<close>

definition block_until :: "(net \<Rightarrow> net) \<Rightarrow> nat \<Rightarrow> net \<Rightarrow> net" where
  "block_until env cur s = env (upd_sched (\<lambda>sc. schedule (set_state cur PROCESS_BLOCKED sc)) s)"

section \<open>What the helpers leave alone\<close>

lemma upd_frame [simp]:
  "conns (upd_sched f s) = conns s" "sockets (upd_sched f s) = sockets s" "the_nic (upd_sched f s) = the_nic s"
  "conns (upd_sock i g s) = conns s" "sockets (upd_conn i h s) = sockets s" "the_nic (upd_conn i h s) = the_nic s"
  "small_pool (upd_sched f s) = small_pool s" "large_pool (upd_sched f s) = large_pool s"
  "small_pool (upd_conn i h s) = small_pool s" "large_pool (upd_conn i h s) = large_pool s"
  "small_pool (upd_sock i g s) = small_pool s" "large_pool (upd_sock i g s) = large_pool s"
  "small_pool (upd_nic k s) = small_pool s" "large_pool (upd_nic k s) = large_pool s"
  "conns (upd_nic k s) = conns s" "sockets (upd_nic k s) = sockets s"
  by (simp_all add: upd_sched_def upd_sock_def upd_conn_def upd_nic_def)

lemma wake_frame [simp]:
  "conns (wake p s) = conns s" "sockets (wake p s) = sockets s" "the_nic (wake p s) = the_nic s"
  "small_pool (wake p s) = small_pool s" "large_pool (wake p s) = large_pool s"
  by (simp_all add: wake_def)

end
