(* ===== verification/Netbuf.thy ===== *)
theory Netbuf
  imports NetState Pool
begin

text \<open>
  The two packet-buffer pools (\<^verbatim>\<open>kernel/net/netbuf.c\<close>) and the queue of received packets between
  the interrupt handler of the network card and the worker process (\<^verbatim>\<open>net_rx_enqueue\<close> of
  \<^verbatim>\<open>kernel/net/net.c\<close>, \<^verbatim>\<open>e1000_irq_handler\<close> and \<^verbatim>\<open>e1000_send_packet\<close> of
  \<^verbatim>\<open>kernel/drivers/e1000.c\<close>). Each pool is a \<open>resource_pool\<close>.
\<close>

section \<open>Operations\<close>

definition netbuf_zero :: netbuf where
  "netbuf_zero = \<lparr>nb_data = (\<lambda>_. 0), nb_len = 0, nb_offset = 0, nb_capacity = 0, nb_refcount = 0,
     nb_in_use = False, nb_is_small = False\<rparr>"

definition netbuf_init :: "net \<Rightarrow> net" where
  "netbuf_init s = s\<lparr>
     small_pool := replicate NETBUF_SMALL_COUNT (netbuf_zero\<lparr>nb_capacity := NETBUF_SMALL_SIZE, nb_is_small := True\<rparr>),
     large_pool := replicate NETBUF_LARGE_COUNT (netbuf_zero\<lparr>nb_capacity := NETBUF_LARGE_SIZE, nb_is_small := False\<rparr>)\<rparr>"

definition nb_get :: "nbref \<Rightarrow> net \<Rightarrow> netbuf" where
  "nb_get r s = (case r of Small i \<Rightarrow> small_pool s ! i | Large i \<Rightarrow> large_pool s ! i)"

definition nb_upd :: "nbref \<Rightarrow> (netbuf \<Rightarrow> netbuf) \<Rightarrow> net \<Rightarrow> net" where
  "nb_upd r f s =
     (case r of
        Small i \<Rightarrow> s\<lparr>small_pool := upd_nth i f (small_pool s)\<rparr>
      | Large i \<Rightarrow> s\<lparr>large_pool := upd_nth i f (large_pool s)\<rparr>)"

definition nb_claim :: "netbuf \<Rightarrow> netbuf" where
  "nb_claim b = b\<lparr>nb_in_use := True, nb_len := 0, nb_offset := 0, nb_refcount := 1\<rparr>"

definition netbuf_alloc_size :: "nat \<Rightarrow> net \<Rightarrow> nbref option \<times> net" where
  "netbuf_alloc_size min_size s =
     (case (if min_size \<le> NETBUF_SMALL_SIZE then first_idx (\<lambda>b. \<not> nb_in_use b) (small_pool s) else None) of
        Some i \<Rightarrow> (Some (Small i), nb_upd (Small i) nb_claim s)
      | None \<Rightarrow>
          (case first_idx (\<lambda>b. \<not> nb_in_use b) (large_pool s) of
             Some i \<Rightarrow> (Some (Large i), nb_upd (Large i) nb_claim s)
           | None \<Rightarrow> (None, s)))"

definition netbuf_alloc :: "net \<Rightarrow> nbref option \<times> net" where
  "netbuf_alloc = netbuf_alloc_size NETBUF_LARGE_SIZE"

definition netbuf_ref :: "nbref option \<Rightarrow> net \<Rightarrow> net" where
  "netbuf_ref ro s =
     (case ro of
        Some r \<Rightarrow> if nb_refcount (nb_get r s) < 255 then nb_upd r (\<lambda>b. b\<lparr>nb_refcount := nb_refcount b + 1\<rparr>) s else s
      | None \<Rightarrow> s)"

definition netbuf_free :: "nbref option \<Rightarrow> net \<Rightarrow> net" where
  "netbuf_free ro s =
     (case ro of
        None \<Rightarrow> s
      | Some r \<Rightarrow>
          if nb_refcount (nb_get r s) > 1 then nb_upd r (\<lambda>b. b\<lparr>nb_refcount := nb_refcount b - 1\<rparr>) s
          else nb_upd r (\<lambda>b. b\<lparr>nb_refcount := 0, nb_in_use := False\<rparr>) s)"

section \<open>The receive queue and the card\<close>

definition NET_RX_QUEUE_SIZE :: nat where "NET_RX_QUEUE_SIZE = 64"
definition E1000_NUM_TX_DESC :: nat where "E1000_NUM_TX_DESC = 32"
definition E1000_NUM_RX_DESC :: nat where "E1000_NUM_RX_DESC = 32"

definition net_rx_enqueue :: "nbref \<Rightarrow> net \<Rightarrow> net" where
  "net_rx_enqueue nb s =
     (let nxt = (rx_tail s + 1) mod NET_RX_QUEUE_SIZE in
      if nxt = rx_head s then netbuf_free (Some nb) s
      else
        (let s1 = s\<lparr>rx_queue := (rx_queue s)[rx_tail s := nb], rx_tail := nxt\<rparr> in
         case net_worker_proc s1 of
           Some w \<Rightarrow> if p_state (procs (net_sched s1) ! w) = PROCESS_BLOCKED then wake w s1 else s1
         | None \<Rightarrow> s1))"

text \<open>\<^verbatim>\<open>memcpy(nb->data, src, len)\<close>: offsets from \<open>len\<close> on keep what they held.\<close>

definition put_bytes :: "u8 list \<Rightarrow> (nat \<Rightarrow> u8) \<Rightarrow> nat \<Rightarrow> u8" where
  "put_bytes bs f i = (if i < length bs then bs ! i else f i)"

text \<open>One iteration of the receive loop of the interrupt handler, and the loop.\<close>

definition e1000_rx_one :: "net \<Rightarrow> net" where
  "e1000_rx_one s =
     (let cur = nic_rx_tail (the_nic s);
          d = nic_rx_ring (the_nic s) ! cur;
          len = rd_length d;
          s1 = (if len > 0 \<and> len \<le> NETBUF_LARGE_SIZE then
                  (case netbuf_alloc s of
                     (Some nb, t) \<Rightarrow>
                       net_rx_enqueue nb (nb_upd nb (\<lambda>b. b\<lparr>nb_data := put_bytes (take len (rd_buffer d)) (nb_data b),
                          nb_len := len, nb_offset := 0\<rparr>) t)
                   | (None, t) \<Rightarrow> t)
                else s)
      in upd_nic (\<lambda>n. n\<lparr>nic_rx_ring := upd_nth cur (\<lambda>x. x\<lparr>rd_dd := False\<rparr>) (nic_rx_ring n),
                        nic_rx_tail := (cur + 1) mod E1000_NUM_RX_DESC\<rparr>) s1)"

fun e1000_rx_loop :: "nat \<Rightarrow> net \<Rightarrow> net" where
  "e1000_rx_loop 0 s = s"
| "e1000_rx_loop (Suc n) s =
     (if rd_dd (nic_rx_ring (the_nic s) ! nic_rx_tail (the_nic s)) then e1000_rx_loop n (e1000_rx_one s) else s)"

text \<open>
  Every iteration clears a done bit that only the card sets, so the loop has at most as many
  iterations as there are descriptors, unless the card fills one meanwhile: \<open>n\<close> bounds those.
\<close>

definition e1000_irq_handler :: "nat \<Rightarrow> bool \<Rightarrow> net \<Rightarrow> net" where
  "e1000_irq_handler n rx_cause s = (if rx_cause then e1000_rx_loop n s else s)"

definition e1000_send_packet :: "u8 list \<Rightarrow> net \<Rightarrow> int \<times> net" where
  "e1000_send_packet frame s =
     (let n = the_nic s; cur = nic_tx_tail n in
      if \<not> nic_initialized n \<or> length frame = 0 \<or> length frame > 1518 then (-1, s)
      else if \<not> nic_tx_dd n ! cur \<and> \<not> nic_drains n then (-1, s)
      else (0, s\<lparr>the_nic := n\<lparr>nic_tx_dd := (nic_tx_dd n)[cur := False],
                              nic_tx_tail := (cur + 1) mod E1000_NUM_TX_DESC,
                              nic_tx_log := nic_tx_log n @ [frame]\<rparr>\<rparr>))"

section \<open>The pools\<close>

lemma nb_upd_frame [simp]:
  "conns (nb_upd r f s) = conns s" "sockets (nb_upd r f s) = sockets s" "net_sched (nb_upd r f s) = net_sched s"
  "the_nic (nb_upd r f s) = the_nic s" "rx_queue (nb_upd r f s) = rx_queue s" "rx_head (nb_upd r f s) = rx_head s"
  "rx_tail (nb_upd r f s) = rx_tail s" "net_worker_proc (nb_upd r f s) = net_worker_proc s"
  "length (small_pool (nb_upd r f s)) = length (small_pool s)" "length (large_pool (nb_upd r f s)) = length (large_pool s)"
  by (simp_all add: nb_upd_def split: nbref.splits)

definition nb_exists :: "nbref \<Rightarrow> net \<Rightarrow> bool" where
  "nb_exists r s = (case r of Small i \<Rightarrow> i < length (small_pool s) | Large i \<Rightarrow> i < length (large_pool s))"

definition free_bufs :: "net \<Rightarrow> nbref set" where
  "free_bufs s = {r. nb_exists r s \<and> \<not> nb_in_use (nb_get r s)}"

lemma nb_get_upd:
  "nb_exists r s \<Longrightarrow> nb_get q (nb_upd r f s) = (if q = r then f (nb_get r s) else nb_get q s)"
  by (auto simp: nb_get_def nb_upd_def nb_exists_def nth_upd_nth split: nbref.splits)

lemma nb_exists_upd [simp]: "nb_exists q (nb_upd r f s) = nb_exists q s"
  by (simp add: nb_exists_def split: nbref.splits)

lemma finite_free_bufs [simp]: "finite (free_bufs s)"
proof (rule finite_subset)
  show "free_bufs s \<subseteq> Small ` {..<length (small_pool s)} \<union> Large ` {..<length (large_pool s)}"
  proof
    fix r assume "r \<in> free_bufs s"
    then show "r \<in> Small ` {..<length (small_pool s)} \<union> Large ` {..<length (large_pool s)}"
      by (cases r) (auto simp: free_bufs_def nb_exists_def)
  qed
qed simp

lemma free_bufs_upd:
  "nb_exists r s \<Longrightarrow> free_bufs (nb_upd r f s) =
     (if nb_in_use (f (nb_get r s)) then free_bufs s - {r} else insert r (free_bufs s))"
  by (auto simp: free_bufs_def nb_get_upd split: if_splits)

definition large_free :: "net \<Rightarrow> nbref set" where
  "large_free s = {r \<in> free_bufs s. \<exists>i. r = Large i}"

definition nb_releasable :: "nbref \<Rightarrow> net \<Rightarrow> bool" where
  "nb_releasable r s \<longleftrightarrow> nb_exists r s \<and> nb_refcount (nb_get r s) \<le> 1"

definition nb_release :: "nbref \<Rightarrow> net \<Rightarrow> net" where
  "nb_release r = netbuf_free (Some r)"

lemma netbuf_alloc_size_Some:
  assumes "netbuf_alloc_size n s = (Some r, t)"
  shows "nb_exists r s" "\<not> nb_in_use (nb_get r s)" "t = nb_upd r nb_claim s"
    "n > NETBUF_SMALL_SIZE \<Longrightarrow> \<exists>i. r = Large i"
  using assms unfolding netbuf_alloc_size_def
  by (auto simp: nb_exists_def nb_get_def dest!: first_idx_SomeD split: option.splits if_splits)

lemma netbuf_alloc_size_None:
  assumes "netbuf_alloc_size n s = (None, t)"
  shows "t = s" "r \<in> free_bufs s \<Longrightarrow> n > NETBUF_SMALL_SIZE \<and> (\<exists>i. r = Small i)"
proof -
  show "t = s" using assms by (auto simp: netbuf_alloc_size_def split: option.splits if_splits)
  assume r: "r \<in> free_bufs s"
  have l: "first_idx (\<lambda>b. \<not> nb_in_use b) (large_pool s) = None"
    and m: "n \<le> NETBUF_SMALL_SIZE \<Longrightarrow> first_idx (\<lambda>b. \<not> nb_in_use b) (small_pool s) = None"
    using assms by (auto simp: netbuf_alloc_size_def split: option.splits if_splits)
  show "n > NETBUF_SMALL_SIZE \<and> (\<exists>i. r = Small i)"
  proof (cases r)
    case (Small i)
    then have i: "i < length (small_pool s)" "\<not> nb_in_use (small_pool s ! i)"
      using r by (auto simp: free_bufs_def nb_exists_def nb_get_def)
    then have "\<not> n \<le> NETBUF_SMALL_SIZE" using m by (auto simp: first_idx_None_iff)
    with Small show ?thesis by simp
  next
    case (Large i)
    then show ?thesis using r l by (auto simp: free_bufs_def nb_exists_def nb_get_def first_idx_None_iff)
  qed
qed

lemma free_claim: "nb_exists r s \<Longrightarrow> free_bufs (nb_upd r nb_claim s) = free_bufs s - {r}"
  by (simp add: free_bufs_upd nb_claim_def)

lemma free_release: "nb_releasable r s \<Longrightarrow> free_bufs (nb_release r s) = insert r (free_bufs s)"
  by (auto simp: nb_releasable_def nb_release_def netbuf_free_def free_bufs_upd)

text \<open>Requests for small packets use both pools, requests for large ones only the large one.\<close>

interpretation small_bufs: resource_pool "\<lambda>_. True" free_bufs "netbuf_alloc_size NETBUF_SMALL_SIZE" nb_releasable nb_release
proof
  fix s t r
  show "finite (free_bufs s)" by simp
  show "r \<in> free_bufs s \<and> free_bufs t = free_bufs s - {r} \<and> True"
    if "netbuf_alloc_size NETBUF_SMALL_SIZE s = (Some r, t)"
    using netbuf_alloc_size_Some [OF that] by (simp add: free_bufs_def [of s] free_claim)
  show "free_bufs s = {} \<and> t = s" if "netbuf_alloc_size NETBUF_SMALL_SIZE s = (None, t)"
    using netbuf_alloc_size_None [OF that] by auto
  show "nb_releasable r s \<Longrightarrow> free_bufs (nb_release r s) = insert r (free_bufs s)" by (rule free_release)
qed simp

definition large_releasable :: "nbref \<Rightarrow> net \<Rightarrow> bool" where
  "large_releasable r s \<longleftrightarrow> nb_releasable r s \<and> (\<exists>i. r = Large i)"

interpretation large_bufs: resource_pool "\<lambda>_. True" large_free netbuf_alloc large_releasable nb_release
proof
  fix s t r
  show "finite (large_free s)" by (simp add: large_free_def)
  show "r \<in> large_free s \<and> large_free t = large_free s - {r} \<and> True" if "netbuf_alloc s = (Some r, t)"
  proof -
    have big: "NETBUF_LARGE_SIZE > NETBUF_SMALL_SIZE" by (simp add: NETBUF_LARGE_SIZE_def NETBUF_SMALL_SIZE_def)
    note c = netbuf_alloc_size_Some [OF that [unfolded netbuf_alloc_def]]
    have "r \<in> free_bufs s" using c(1,2) by (simp add: free_bufs_def)
    moreover have "free_bufs t = free_bufs s - {r}" using c(1,3) by (simp add: free_claim)
    ultimately show ?thesis using c(4) [OF big] by (auto simp: large_free_def)
  qed
  show "large_free s = {} \<and> t = s" if "netbuf_alloc s = (None, t)"
    using netbuf_alloc_size_None [OF that [unfolded netbuf_alloc_def]] by (auto simp: large_free_def)
  show "large_releasable r s \<Longrightarrow> large_free (nb_release r s) = insert r (large_free s)"
    by (auto simp: large_releasable_def free_release large_free_def)
qed simp

end
