(* ===== verification/NetSend.thy ===== *)
theory NetSend
  imports Netbuf
begin

text \<open>
  The sending half of the stack: Ethernet frames (\<^verbatim>\<open>ethernet_send\<close>), the ARP cache and address
  resolution (\<^verbatim>\<open>kernel/net/arp.c\<close>) and IPv4 packets (\<^verbatim>\<open>ipv4_send\<close>). \<^verbatim>\<open>arp_resolve\<close> may put the
  caller to sleep; the argument \<open>env\<close> is what the rest of the system does meanwhile. The packet
  buffer of \<^verbatim>\<open>ipv4_send\<close> is static, so it is part of the state that \<open>env\<close> can change.
\<close>

definition ETH_HEADER_LEN :: nat where "ETH_HEADER_LEN = 14"
definition ETHERTYPE_ARP :: u16 where "ETHERTYPE_ARP = 0x0806"
definition ETHERTYPE_IPV4 :: u16 where "ETHERTYPE_IPV4 = 0x0800"
definition ARP_TABLE_SIZE :: nat where "ARP_TABLE_SIZE = 32"
definition ARP_OP_REQUEST :: u16 where "ARP_OP_REQUEST = 1"
definition ARP_OP_REPLY :: u16 where "ARP_OP_REPLY = 2"
definition IP_PROTO_ICMP :: u8 where "IP_PROTO_ICMP = 1"
definition IP_PROTO_TCP :: u8 where "IP_PROTO_TCP = 6"
definition IP_PROTO_UDP :: u8 where "IP_PROTO_UDP = 17"

section \<open>Ethernet\<close>

definition eth_header :: "u8 list \<Rightarrow> u8 list \<Rightarrow> u16 \<Rightarrow> u8 list" where
  "eth_header dst src ethertype = dst @ src @ enc16 (htons ethertype)"

definition ethernet_send :: "u8 list \<Rightarrow> u8 list \<Rightarrow> u16 \<Rightarrow> net \<Rightarrow> int \<times> net" where
  "ethernet_send data dst_mac ethertype s =
     (if ETH_HEADER_LEN + length data > 1518 then (-1, s)
      else e1000_send_packet (eth_header dst_mac (nic_mac (the_nic s)) ethertype @ data) s)"

section \<open>ARP\<close>

definition arp_entry_zero :: arp_entry where
  "arp_entry_zero = \<lparr>ae_ip = 0, ae_mac = replicate 6 0, ae_valid = False, ae_timestamp = 0\<rparr>"

definition arp_init :: "net \<Rightarrow> net" where
  "arp_init s = s\<lparr>arp_table := replicate ARP_TABLE_SIZE arp_entry_zero\<rparr>"

definition arp_lookup :: "u32 \<Rightarrow> net \<Rightarrow> nat option" where
  "arp_lookup ip s = first_idx (\<lambda>e. ae_valid e \<and> ae_ip e = ip) (arp_table s)"

definition arp_update :: "u32 \<Rightarrow> u8 list \<Rightarrow> net \<Rightarrow> net" where
  "arp_update ip mac s =
     (case first_idx (\<lambda>e. ae_valid e \<and> ae_ip e = ip) (arp_table s) of
        Some i \<Rightarrow> s\<lparr>arp_table := upd_nth i (\<lambda>e. e\<lparr>ae_mac := mac\<rparr>) (arp_table s)\<rparr>
      | None \<Rightarrow>
          (case first_idx (\<lambda>e. \<not> ae_valid e) (arp_table s) of
             Some i \<Rightarrow> s\<lparr>arp_table := upd_nth i (\<lambda>e. e\<lparr>ae_ip := ip, ae_mac := mac, ae_valid := True\<rparr>) (arp_table s)\<rparr>
           | None \<Rightarrow> s\<lparr>arp_table := upd_nth 0 (\<lambda>e. e\<lparr>ae_ip := ip, ae_mac := mac, ae_valid := True\<rparr>) (arp_table s)\<rparr>))"

definition arp_packet :: "u16 \<Rightarrow> u8 list \<Rightarrow> u32 \<Rightarrow> u8 list \<Rightarrow> u32 \<Rightarrow> u8 list" where
  "arp_packet opcode sender_mac sender_ip target_mac target_ip =
     enc16 (htons 1) @ enc16 (htons 0x0800) @ [6, 4] @ enc16 (htons opcode) @ sender_mac @
     enc32 (htonl sender_ip) @ target_mac @ enc32 (htonl target_ip)"

definition arp_send_request :: "u32 \<Rightarrow> net \<Rightarrow> net" where
  "arp_send_request target_ip s =
     snd (ethernet_send (arp_packet ARP_OP_REQUEST (nic_mac (the_nic s)) (our_ip s) (replicate 6 0) target_ip)
            (replicate 6 0xFF) ETHERTYPE_ARP s)"

definition arp_send_reply :: "u8 list \<Rightarrow> u32 \<Rightarrow> net \<Rightarrow> net" where
  "arp_send_reply dst_mac dst_ip s =
     snd (ethernet_send (arp_packet ARP_OP_REPLY (nic_mac (the_nic s)) (our_ip s) dst_mac dst_ip)
            dst_mac ETHERTYPE_ARP s)"

definition arp_receive :: "nbref \<Rightarrow> net \<Rightarrow> net" where
  "arp_receive buf s =
     (let b = nb_get buf s; m = (\<lambda>i. nb_data b (nb_offset b + i)) in
      if sub32 (nb_len b) (nb_offset b) < 28 then netbuf_free (Some buf) s
      else
        (let opcode = ntohs (le16 m 6);
             sender_mac = map m [8..<14];
             sender_ip = ntohl (le32 m 14);
             target_ip = ntohl (le32 m 24);
             s1 = arp_update sender_ip sender_mac s;
             s2 = (if opcode = ARP_OP_REQUEST \<and> target_ip = our_ip s1
                   then arp_send_reply sender_mac sender_ip s1 else s1);
             s3 = (case arp_waiter s2 of
                     Some w \<Rightarrow> if arp_waiter_ip s2 = sender_ip then (wake w s2)\<lparr>arp_waiter := None\<rparr> else s2
                   | None \<Rightarrow> s2)
         in netbuf_free (Some buf) s3))"

text \<open>The retry loop of \<^verbatim>\<open>arp_resolve\<close>: \<open>n\<close> attempts are left.\<close>

fun arp_wait :: "(net \<Rightarrow> net) \<Rightarrow> nat \<Rightarrow> u32 \<Rightarrow> nat \<Rightarrow> net \<Rightarrow> u8 list option \<times> net" where
  "arp_wait env cur ip 0 s = (None, s\<lparr>arp_waiter := None\<rparr>)"
| "arp_wait env cur ip (Suc n) s =
     (let s1 = block_until env cur s in
      case arp_lookup ip s1 of
        Some i \<Rightarrow> (Some (ae_mac (arp_table s1 ! i)), s1\<lparr>arp_waiter := None\<rparr>)
      | None \<Rightarrow> arp_wait env cur ip n (arp_send_request ip s1))"

definition arp_resolve :: "(net \<Rightarrow> net) \<Rightarrow> u32 \<Rightarrow> net \<Rightarrow> u8 list option \<times> net" where
  "arp_resolve env ip s =
     (let resolve_ip = (if (ip AND our_netmask s) \<noteq> (our_ip s AND our_netmask s) then our_gateway s else ip) in
      case arp_lookup resolve_ip s of
        Some i \<Rightarrow> (Some (ae_mac (arp_table s ! i)), s)
      | None \<Rightarrow>
          (let cur = the (current_process (net_sched s));
               s1 = arp_send_request resolve_ip (s\<lparr>arp_waiter := Some cur, arp_waiter_ip := resolve_ip\<rparr>)
           in arp_wait env cur resolve_ip 3 s1))"

section \<open>IPv4\<close>

definition ipv4_header :: "nat \<Rightarrow> u16 \<Rightarrow> u8 \<Rightarrow> u16 \<Rightarrow> u32 \<Rightarrow> u32 \<Rightarrow> u8 list" where
  "ipv4_header len ident proto checksum src dst =
     [0x45, 0] @ enc16 (htons (of_nat len)) @ enc16 (htons ident) @ enc16 (htons 0x4000) @
     [64, proto] @ enc16 checksum @ enc32 (htonl src) @ enc32 (htonl dst)"

definition ipv4_send ::
  "(net \<Rightarrow> net) \<Rightarrow> (nat \<Rightarrow> u8) \<Rightarrow> nat \<Rightarrow> u32 \<Rightarrow> u8 \<Rightarrow> net \<Rightarrow> int \<times> net" where
  "ipv4_send env data len dst_ip protocol s =
     (let tot = (20 + len) mod 2 ^ 32 in
      if tot > 1500 then (-1, s)
      else
        (let hdr = ipv4_header tot (ip_id_counter s) protocol;
             checksum = ip_checksum (at (hdr 0 (our_ip s) dst_ip)) 0 20;
             s1 = s\<lparr>ip_id_counter := ip_id_counter s + 1,
                    ip_packet := blit (ip_packet s) 0 (hdr checksum (our_ip s) dst_ip @ map data [0..<min len 1480]),
                    net_fault := (net_fault s \<or> len > 1480)\<rparr>
         in case arp_resolve env dst_ip s1 of
              (None, s2) \<Rightarrow> (-1, s2)
            | (Some dst_mac, s2) \<Rightarrow> ethernet_send (take tot (ip_packet s2)) dst_mac ETHERTYPE_IPV4 s2))"

section \<open>The state at boot\<close>

definition NET_IP :: u32 where "NET_IP = 0x0A00020F"
definition NET_NETMASK :: u32 where "NET_NETMASK = 0xFFFFFF00"
definition NET_GATEWAY :: u32 where "NET_GATEWAY = 0x0A000202"

definition socket_zero :: socket where
  "socket_zero = \<lparr>so_type = 0, so_local_ip = 0, so_local_port = 0, so_remote_ip = 0, so_remote_port = 0, so_bound = False,
     so_listening = False, so_connected = False, so_in_use = False, so_nonblocking = False, so_refcount = 0,
     so_udp_queue = replicate 8 \<lparr>up_data = replicate 1472 0, up_len = 0, up_src_ip = 0, up_src_port = 0, up_valid = False\<rparr>,
     so_udp_head = 0, so_udp_tail = 0, so_udp_count = 0, so_tcp_conn_idx = 0, so_blocked_reader = None,
     so_blocked_writer = None\<rparr>"

text \<open>The static initial values of the variables of the stack, on a machine with the card \<open>nc\<close>.\<close>

definition net_static :: "sched \<Rightarrow> nic \<Rightarrow> net" where
  "net_static sc nc = \<lparr>net_sched = sc, net_ticks = 0,
     small_pool = replicate NETBUF_SMALL_COUNT netbuf_zero, large_pool = replicate NETBUF_LARGE_COUNT netbuf_zero,
     our_ip = NET_IP, our_netmask = NET_NETMASK, our_gateway = NET_GATEWAY,
     rx_queue = replicate NET_RX_QUEUE_SIZE (Small 0), rx_head = 0, rx_tail = 0, net_worker_proc = None,
     arp_table = replicate ARP_TABLE_SIZE arp_entry_zero, arp_waiter = None, arp_waiter_ip = 0,
     ip_id_counter = 1, ip_packet = replicate 1500 0,
     ping_st = \<lparr>ps_waiter = None, ps_id = 0, ps_seq = 0, ps_received = False, ps_send_tick = 0, ps_recv_tick = 0\<rparr>,
     conns = [], sockets = replicate 32 socket_zero, next_ephemeral_port = 49152, the_nic = nc, net_fault = False\<rparr>"

definition nic_ready :: nic where
  "nic_ready = \<lparr>nic_initialized = True, nic_mac = [0x52, 0x54, 0, 0x12, 0x34, 0x56], nic_tx_dd = replicate 32 True,
     nic_tx_tail = 0, nic_drains = True, nic_tx_log = [], nic_rx_ring = replicate 32 \<lparr>rd_dd = False, rd_length = 0, rd_buffer = []\<rparr>,
     nic_rx_tail = 0\<rparr>"

section \<open>What sending changes\<close>

text \<open>A send to a host whose hardware address is cached touches only these four variables.\<close>

definition sends_only :: "net \<Rightarrow> net \<Rightarrow> bool" where
  "sends_only s t \<longleftrightarrow> (\<exists>a b c d. t = s\<lparr>ip_id_counter := a, ip_packet := b, net_fault := c, the_nic := d\<rparr>)"

definition next_hop :: "u32 \<Rightarrow> net \<Rightarrow> u32" where
  "next_hop ip s = (if (ip AND our_netmask s) \<noteq> (our_ip s AND our_netmask s) then our_gateway s else ip)"

definition mac_known :: "u32 \<Rightarrow> net \<Rightarrow> bool" where
  "mac_known ip s \<longleftrightarrow> arp_lookup (next_hop ip s) s \<noteq> None"

lemma sends_only_refl [simp]: "sends_only s s"
  unfolding sends_only_def
  by (intro exI [of _ "ip_id_counter s"] exI [of _ "ip_packet s"] exI [of _ "net_fault s"] exI [of _ "the_nic s"]) simp

lemma sends_only_trans: "sends_only s t \<Longrightarrow> sends_only t u \<Longrightarrow> sends_only s u"
  unfolding sends_only_def by (elim exE) (simp, intro exI, rule refl)

lemma sends_only_frame:
  assumes "sends_only s t"
  shows "conns t = conns s" "sockets t = sockets s" "small_pool t = small_pool s" "large_pool t = large_pool s"
    "arp_table t = arp_table s" "our_ip t = our_ip s" "our_netmask t = our_netmask s" "our_gateway t = our_gateway s"
    "net_sched t = net_sched s" "net_ticks t = net_ticks s" "rx_queue t = rx_queue s" "rx_head t = rx_head s" "rx_tail t = rx_tail s"
  using assms by (auto simp: sends_only_def)

lemma sends_only_mac_known: "sends_only s t \<Longrightarrow> mac_known ip t = mac_known ip s"
  by (simp add: mac_known_def next_hop_def arp_lookup_def sends_only_frame)

lemma e1000_send_only: "sends_only s (snd (e1000_send_packet f s))"
proof -
  have "sends_only s (s\<lparr>the_nic := n\<rparr>)" for n
    unfolding sends_only_def
    by (intro exI [of _ "ip_id_counter s"] exI [of _ "ip_packet s"] exI [of _ "net_fault s"] exI [of _ n]) simp
  then show ?thesis by (simp add: e1000_send_packet_def Let_def)
qed

lemma ethernet_send_only: "sends_only s (snd (ethernet_send data mac et s))"
  by (simp add: ethernet_send_def e1000_send_only)

lemma arp_resolve_known:
  assumes "mac_known ip s"
  shows "arp_resolve env ip s = (Some (ae_mac (arp_table s ! the (arp_lookup (next_hop ip s) s))), s)"
  using assms unfolding mac_known_def arp_resolve_def next_hop_def Let_def by (auto simp del: not_None_eq split: option.splits)

text \<open>The packet handed to the card by \<^verbatim>\<open>ipv4_send\<close>.\<close>

definition ip_datagram :: "net \<Rightarrow> (nat \<Rightarrow> u8) \<Rightarrow> nat \<Rightarrow> u32 \<Rightarrow> u8 \<Rightarrow> u8 list" where
  "ip_datagram s data len dst protocol =
     (let hdr = ipv4_header (20 + len) (ip_id_counter s) protocol
      in hdr (ip_checksum (at (hdr 0 (our_ip s) dst)) 0 20) (our_ip s) dst @ map data [0..<len])"

lemma length_ipv4_header [simp]: "length (ipv4_header n i p c a b) = 20"
  by (simp add: ipv4_header_def)

lemma ipv4_send_only:
  assumes "mac_known dst s"
  shows "sends_only s (snd (ipv4_send env data len dst proto s))"
proof -
  define tot where "tot = (20 + len) mod 2 ^ 32"
  show ?thesis
  proof (cases "tot > 1500")
    case True
    then show ?thesis by (simp add: ipv4_send_def Let_def tot_def)
  next
    case False
    define s1 where "s1 = s\<lparr>ip_id_counter := ip_id_counter s + 1,
        ip_packet := blit (ip_packet s) 0 (ipv4_header tot (ip_id_counter s) proto
           (ip_checksum (at (ipv4_header tot (ip_id_counter s) proto 0 (our_ip s) dst)) 0 20) (our_ip s) dst
           @ map data [0..<min len 1480]),
        net_fault := (net_fault s \<or> len > 1480)\<rparr>"
    have s1: "sends_only s s1"
      unfolding sends_only_def s1_def by (intro exI [of _ "the_nic s"] exI) simp
    with assms have known: "mac_known dst s1" by (simp add: sends_only_mac_known)
    obtain mac where mac: "arp_resolve env dst s1 = (Some mac, s1)"
      using arp_resolve_known [OF known] by blast
    have "ipv4_send env data len dst proto s = ethernet_send (take tot (ip_packet s1)) mac ETHERTYPE_IPV4 s1"
      unfolding ipv4_send_def Let_def tot_def [symmetric] s1_def [symmetric] using False by (simp add: mac)
    then show ?thesis using sends_only_trans [OF s1 ethernet_send_only] by simp
  qed
qed

end
