(* ===== verification/Tcp.thy ===== *)
theory Tcp
  imports NetSend
begin

text \<open>
  TCP (\<^verbatim>\<open>kernel/net/tcp.c\<close>): the connection table, segment construction, the receive state machine,
  the retransmission timer and the calls of the socket layer. Calls that wait in a loop
  (\<^verbatim>\<open>tcp_accept\<close>, \<^verbatim>\<open>tcp_recv\<close>) are one iteration of that loop, with the outcome \<open>Blocks\<close> when the
  caller goes to sleep; sending may sleep in address resolution, which is the argument \<open>env\<close>.

  The receive path is proved to deliver a prefix of the byte stream of the peer, whatever the order
  and the number of copies in which segments arrive.
\<close>

definition TCP_MAX_CONNS :: nat where "TCP_MAX_CONNS = 32"
definition TCP_RX_BUF_SIZE :: nat where "TCP_RX_BUF_SIZE = 4096"
definition TCP_ACCEPT_QUEUE :: nat where "TCP_ACCEPT_QUEUE = 4"
definition TCP_WINDOW_SIZE :: u16 where "TCP_WINDOW_SIZE = 4096"
definition TCP_FIN :: u8 where "TCP_FIN = 0x01"
definition TCP_SYN :: u8 where "TCP_SYN = 0x02"
definition TCP_RST :: u8 where "TCP_RST = 0x04"
definition TCP_PSH :: u8 where "TCP_PSH = 0x08"
definition TCP_ACK :: u8 where "TCP_ACK = 0x10"

section \<open>The connection table\<close>

definition tcp_zero :: tcp_connection where
  "tcp_zero = \<lparr>tc_state = TCP_CLOSED, tc_local_ip = 0, tc_local_port = 0, tc_remote_ip = 0, tc_remote_port = 0,
     tc_snd_nxt = 0, tc_snd_una = 0, tc_rcv_nxt = 0, tc_rx_buf = replicate TCP_RX_BUF_SIZE 0, tc_rx_read_pos = 0,
     tc_rx_write_pos = 0, tc_rx_count = 0, tc_blocked_reader = None, tc_blocked_writer = None,
     tc_blocked_accepter = None, tc_accept_queue = replicate TCP_ACCEPT_QUEUE 0, tc_accept_head = 0,
     tc_accept_tail = 0, tc_accept_count = 0, tc_parent_idx = 0, tc_retransmit_data = replicate 1460 0,
     tc_retransmit_len = 0, tc_retransmit_seq = 0, tc_retransmit_timer = 0, tc_retransmit_count = 0,
     tc_in_use = False, tc_eof = False\<rparr>"

definition tcp_init :: "net \<Rightarrow> net" where
  "tcp_init s = s\<lparr>conns := replicate TCP_MAX_CONNS tcp_zero\<rparr>"

definition tcp_alloc_conn :: "net \<Rightarrow> nat option \<times> net" where
  "tcp_alloc_conn s =
     (case first_idx (\<lambda>c. \<not> tc_in_use c) (conns s) of
        Some i \<Rightarrow> (Some i, upd_conn i (\<lambda>_. tcp_zero\<lparr>tc_in_use := True, tc_state := TCP_CLOSED, tc_parent_idx := -1\<rparr>) s)
      | None \<Rightarrow> (None, s))"

definition tcp_get_conn :: "int \<Rightarrow> net \<Rightarrow> tcp_connection option" where
  "tcp_get_conn idx s =
     (if idx < 0 \<or> idx \<ge> int TCP_MAX_CONNS \<or> \<not> tc_in_use (conns s ! nat idx) then None
      else Some (conns s ! nat idx))"

section \<open>Segments\<close>

definition tcp_pseudo :: "u32 \<Rightarrow> u32 \<Rightarrow> nat \<Rightarrow> u8 list" where
  "tcp_pseudo src_ip dst_ip tcp_len =
     enc32 (htonl src_ip) @ enc32 (htonl dst_ip) @ [0, IP_PROTO_TCP] @ enc16 (htons (of_nat tcp_len))"

definition tcp_checksum :: "(nat \<Rightarrow> u8) \<Rightarrow> nat \<Rightarrow> u32 \<Rightarrow> u32 \<Rightarrow> u16" where
  "tcp_checksum tcp_data tcp_len src_ip dst_ip =
     (let sum = sum16 (at (tcp_pseudo src_ip dst_ip tcp_len)) 0 12 0
      in ucast (NOT (fold16 (sum16 tcp_data 0 tcp_len sum))))"

definition tcp_header :: "tcp_connection \<Rightarrow> u8 \<Rightarrow> u16 \<Rightarrow> u8 list" where
  "tcp_header c flags checksum =
     enc16 (htons (tc_local_port c)) @ enc16 (htons (tc_remote_port c)) @ enc32 (htonl (tc_snd_nxt c)) @
     enc32 (htonl (tc_rcv_nxt c)) @ [0x50, flags] @ enc16 (htons TCP_WINDOW_SIZE) @ enc16 checksum @ enc16 0"

definition has_flag :: "u8 \<Rightarrow> u8 \<Rightarrow> bool" where
  "has_flag flags f \<longleftrightarrow> flags AND f \<noteq> 0"

definition tcp_send_segment :: "(net \<Rightarrow> net) \<Rightarrow> nat \<Rightarrow> u8 \<Rightarrow> (nat \<Rightarrow> u8) \<Rightarrow> nat \<Rightarrow> net \<Rightarrow> int \<times> net" where
  "tcp_send_segment env idx flags data data_len s =
     (let c = conns s ! idx; tot = (20 + data_len) mod 2 ^ 32 in
      if tot > 1500 then (-1, s)
      else
        (let payload = map data [0..<min data_len 1480];
             checksum = tcp_checksum (at (tcp_header c flags 0 @ payload)) tot (tc_local_ip c) (tc_remote_ip c);
             packet = tcp_header c flags checksum @ payload;
             adv = (if has_flag flags TCP_SYN then 1 else 0) + (if has_flag flags TCP_FIN then 1 else 0) + of_nat data_len;
             s1 = upd_conn idx (\<lambda>c. c\<lparr>tc_snd_nxt := tc_snd_nxt c + adv\<rparr>) (s\<lparr>net_fault := (net_fault s \<or> data_len > 1480)\<rparr>)
         in ipv4_send env (at packet) tot (tc_remote_ip c) IP_PROTO_TCP s1))"

abbreviation send_flags :: "(net \<Rightarrow> net) \<Rightarrow> nat \<Rightarrow> u8 \<Rightarrow> net \<Rightarrow> net" where
  "send_flags env idx flags s \<equiv> snd (tcp_send_segment env idx flags (\<lambda>_. 0) 0 s)"

definition find_connection :: "u32 \<Rightarrow> u16 \<Rightarrow> u16 \<Rightarrow> net \<Rightarrow> nat option" where
  "find_connection src_ip src_port dst_port s =
     (case first_idx (\<lambda>c. tc_in_use c \<and> tc_remote_ip c = src_ip \<and> tc_remote_port c = src_port \<and>
                          tc_local_port c = dst_port) (conns s) of
        Some i \<Rightarrow> Some i
      | None \<Rightarrow> first_idx (\<lambda>c. tc_in_use c \<and> tc_state c = TCP_LISTEN \<and> tc_local_port c = dst_port) (conns s))"

definition wake_reader :: "nat \<Rightarrow> net \<Rightarrow> net" where
  "wake_reader i s = (case tc_blocked_reader (conns s ! i) of
      Some p \<Rightarrow> upd_conn i (\<lambda>c. c\<lparr>tc_blocked_reader := None\<rparr>) (wake p s) | None \<Rightarrow> s)"

definition wake_writer :: "nat \<Rightarrow> net \<Rightarrow> net" where
  "wake_writer i s = (case tc_blocked_writer (conns s ! i) of
      Some p \<Rightarrow> upd_conn i (\<lambda>c. c\<lparr>tc_blocked_writer := None\<rparr>) (wake p s) | None \<Rightarrow> s)"

definition wake_accepter :: "nat \<Rightarrow> net \<Rightarrow> net" where
  "wake_accepter i s = (case tc_blocked_accepter (conns s ! i) of
      Some p \<Rightarrow> upd_conn i (\<lambda>c. c\<lparr>tc_blocked_accepter := None\<rparr>) (wake p s) | None \<Rightarrow> s)"

section \<open>The receive state machine\<close>

text \<open>The fields \<^verbatim>\<open>tcp_receive\<close> reads from a segment.\<close>

record segment =
  sg_src_ip :: u32
  sg_src_port :: u16
  sg_dst_port :: u16
  sg_seq :: u32
  sg_ack :: u32
  sg_flags :: u8
  sg_data :: "nat \<Rightarrow> u8"
  sg_len :: nat

definition parse_segment :: "u32 \<Rightarrow> (nat \<Rightarrow> u8) \<Rightarrow> nat \<Rightarrow> segment" where
  "parse_segment src_ip m remaining =
     (let data_off = unat (drop_bit 4 (m 12)) * 4 in
      \<lparr>sg_src_ip = src_ip, sg_src_port = ntohs (le16 m 0), sg_dst_port = ntohs (le16 m 2), sg_seq = ntohl (le32 m 4),
       sg_ack = ntohl (le32 m 8), sg_flags = m 13, sg_data = (\<lambda>i. m (data_off + i)), sg_len = sub32 remaining data_off\<rparr>)"

abbreviation sg_has :: "segment \<Rightarrow> u8 \<Rightarrow> bool" where
  "sg_has sg f \<equiv> has_flag (sg_flags sg) f"

text \<open>\<^verbatim>\<open>case TCP_LISTEN\<close>\<close>

definition rx_listen :: "(net \<Rightarrow> net) \<Rightarrow> nat \<Rightarrow> segment \<Rightarrow> net \<Rightarrow> net" where
  "rx_listen env idx sg s =
     (if sg_has sg TCP_SYN then
        (case tcp_alloc_conn s of
           (None, s1) \<Rightarrow> s1
         | (Some ni, s1) \<Rightarrow>
             (let isn = ucast (net_ticks s1 * 12345 + 1) in
              send_flags env ni (TCP_SYN OR TCP_ACK)
                (upd_conn ni (\<lambda>nc. nc\<lparr>tc_local_ip := our_ip s1, tc_local_port := tc_local_port (conns s1 ! idx),
                    tc_remote_ip := sg_src_ip sg, tc_remote_port := sg_src_port sg, tc_rcv_nxt := sg_seq sg + 1,
                    tc_snd_nxt := isn, tc_snd_una := isn, tc_state := TCP_SYN_RECEIVED,
                    tc_parent_idx := int idx\<rparr>) s1)))
      else s)"

text \<open>\<^verbatim>\<open>case TCP_SYN_RECEIVED\<close>\<close>

definition rx_syn_received :: "nat \<Rightarrow> segment \<Rightarrow> net \<Rightarrow> net" where
  "rx_syn_received idx sg s =
     (if sg_has sg TCP_ACK then
        (let s1 = upd_conn idx (\<lambda>c. c\<lparr>tc_snd_una := sg_ack sg, tc_state := TCP_ESTABLISHED\<rparr>) s;
             parent_idx = tc_parent_idx (conns s1 ! idx)
         in if parent_idx \<ge> 0 then
              (let pi = nat parent_idx; parent = conns s1 ! pi in
               if tc_accept_count parent < TCP_ACCEPT_QUEUE then
                 wake_accepter pi
                   (upd_conn pi (\<lambda>p. p\<lparr>tc_accept_queue := (tc_accept_queue p)[tc_accept_tail p := idx],
                       tc_accept_tail := (tc_accept_tail p + 1) mod TCP_ACCEPT_QUEUE,
                       tc_accept_count := tc_accept_count p + 1\<rparr>) s1)
               else s1)
            else s1)
      else s)"

text \<open>\<^verbatim>\<open>case TCP_SYN_SENT\<close>\<close>

definition rx_syn_sent :: "(net \<Rightarrow> net) \<Rightarrow> nat \<Rightarrow> segment \<Rightarrow> net \<Rightarrow> net" where
  "rx_syn_sent env idx sg s =
     (if sg_flags sg AND (TCP_SYN OR TCP_ACK) = (TCP_SYN OR TCP_ACK) then
        wake_writer idx
          (send_flags env idx TCP_ACK
            (upd_conn idx (\<lambda>c. c\<lparr>tc_rcv_nxt := sg_seq sg + 1, tc_snd_una := sg_ack sg,
                tc_state := TCP_ESTABLISHED\<rparr>) s))
      else s)"

text \<open>\<^verbatim>\<open>case TCP_ESTABLISHED\<close>: the acknowledgement, the data, FIN and RST in this order.\<close>

definition rx_accept_data :: "segment \<Rightarrow> tcp_connection \<Rightarrow> tcp_connection" where
  "rx_accept_data sg c =
     (let space = sub32 TCP_RX_BUF_SIZE (tc_rx_count c);
          copy = (if sg_len sg < space then sg_len sg else space);
          (buf, wp) = ring_put (tc_rx_buf c) (tc_rx_write_pos c) (map (sg_data sg) [0..<copy])
      in c\<lparr>tc_rx_buf := buf, tc_rx_write_pos := wp, tc_rx_count := tc_rx_count c + copy,
           tc_rcv_nxt := tc_rcv_nxt c + of_nat copy\<rparr>)"

definition rx_established :: "(net \<Rightarrow> net) \<Rightarrow> nat \<Rightarrow> segment \<Rightarrow> net \<Rightarrow> net" where
  "rx_established env idx sg s =
     (let s1 = (if sg_has sg TCP_ACK then upd_conn idx (\<lambda>c. c\<lparr>tc_snd_una := sg_ack sg\<rparr>) s else s);
          s2 = (if sg_len sg > 0 \<and> sg_seq sg = tc_rcv_nxt (conns s1 ! idx)
                then wake_reader idx (send_flags env idx TCP_ACK (upd_conn idx (rx_accept_data sg) s1))
                else s1);
          s3 = (if sg_has sg TCP_FIN
                then wake_reader idx (send_flags env idx TCP_ACK
                  (upd_conn idx (\<lambda>c. c\<lparr>tc_rcv_nxt := sg_seq sg + of_nat (sg_len sg) + 1,
                      tc_state := TCP_CLOSE_WAIT, tc_eof := True\<rparr>) s2))
                else s2)
      in if sg_has sg TCP_RST
         then wake_writer idx (wake_reader idx (upd_conn idx (\<lambda>c. c\<lparr>tc_state := TCP_CLOSED, tc_eof := True\<rparr>) s3))
         else s3)"

text \<open>\<^verbatim>\<open>case TCP_FIN_WAIT_1\<close>, \<^verbatim>\<open>case TCP_FIN_WAIT_2\<close>, \<^verbatim>\<open>case TCP_LAST_ACK\<close>\<close>

definition rx_fin :: "(net \<Rightarrow> net) \<Rightarrow> nat \<Rightarrow> segment \<Rightarrow> net \<Rightarrow> net" where
  "rx_fin env idx sg s =
     (if sg_has sg TCP_FIN
      then send_flags env idx TCP_ACK
        (upd_conn idx (\<lambda>c. c\<lparr>tc_rcv_nxt := sg_seq sg + 1, tc_state := TCP_TIME_WAIT\<rparr>) s)
      else s)"

definition rx_fin_wait_1 :: "(net \<Rightarrow> net) \<Rightarrow> nat \<Rightarrow> segment \<Rightarrow> net \<Rightarrow> net" where
  "rx_fin_wait_1 env idx sg s =
     rx_fin env idx sg
       (if sg_has sg TCP_ACK
        then upd_conn idx (\<lambda>c. c\<lparr>tc_snd_una := sg_ack sg, tc_state := TCP_FIN_WAIT_2\<rparr>) s else s)"

definition rx_last_ack :: "nat \<Rightarrow> segment \<Rightarrow> net \<Rightarrow> net" where
  "rx_last_ack idx sg s =
     (if sg_has sg TCP_ACK then upd_conn idx (\<lambda>c. c\<lparr>tc_state := TCP_CLOSED, tc_in_use := False\<rparr>) s else s)"

definition tcp_segment :: "(net \<Rightarrow> net) \<Rightarrow> segment \<Rightarrow> net \<Rightarrow> net" where
  "tcp_segment env sg s =
     (case find_connection (sg_src_ip sg) (sg_src_port sg) (sg_dst_port sg) s of
        None \<Rightarrow> s
      | Some idx \<Rightarrow>
          (case tc_state (conns s ! idx) of
             TCP_LISTEN \<Rightarrow> rx_listen env idx sg s
           | TCP_SYN_RECEIVED \<Rightarrow> rx_syn_received idx sg s
           | TCP_SYN_SENT \<Rightarrow> rx_syn_sent env idx sg s
           | TCP_ESTABLISHED \<Rightarrow> rx_established env idx sg s
           | TCP_FIN_WAIT_1 \<Rightarrow> rx_fin_wait_1 env idx sg s
           | TCP_FIN_WAIT_2 \<Rightarrow> rx_fin env idx sg s
           | TCP_LAST_ACK \<Rightarrow> rx_last_ack idx sg s
           | _ \<Rightarrow> s))"

definition tcp_receive :: "(net \<Rightarrow> net) \<Rightarrow> nbref \<Rightarrow> u32 \<Rightarrow> net \<Rightarrow> net" where
  "tcp_receive env buf src_ip s =
     (let b = nb_get buf s; remaining = sub32 (nb_len b) (nb_offset b) in
      netbuf_free (Some buf)
        (if remaining < 20 then s
         else tcp_segment env (parse_segment src_ip (\<lambda>i. nb_data b (nb_offset b + i)) remaining) s))"

section \<open>The timer\<close>

text \<open>The retransmission check of one connection.\<close>

definition tick_retransmit :: "(net \<Rightarrow> net) \<Rightarrow> nat \<Rightarrow> net \<Rightarrow> net" where
  "tick_retransmit env i s =
     (let c = conns s ! i in
      if tc_retransmit_len c > 0 \<and> tc_retransmit_timer c > 0 then
        (let s1 = upd_conn i (\<lambda>c. c\<lparr>tc_retransmit_timer := tc_retransmit_timer c - 1\<rparr>) s in
         if tc_retransmit_timer (conns s1 ! i) = 0 then
           (if tc_retransmit_count (conns s1 ! i) < 3 then
              (let saved_nxt = tc_snd_nxt (conns s1 ! i);
                   s2 = upd_conn i (\<lambda>c. c\<lparr>tc_snd_nxt := tc_retransmit_seq c\<rparr>) s1;
                   c2 = conns s2 ! i;
                   s3 = snd (tcp_send_segment env i (TCP_ACK OR TCP_PSH) (at (tc_retransmit_data c2)) (tc_retransmit_len c2) s2)
               in upd_conn i (\<lambda>c. c\<lparr>tc_snd_nxt := saved_nxt, tc_retransmit_timer := 50,
                    tc_retransmit_count := tc_retransmit_count c + 1\<rparr>) s3)
            else
              (let s2 = upd_conn i (\<lambda>c. c\<lparr>tc_retransmit_len := 0\<rparr>) s1;
                   s3 = upd_conn i (\<lambda>c. c\<lparr>tc_state := TCP_CLOSED\<rparr>) (send_flags env i TCP_RST s2)
               in wake_writer i (wake_reader i s3)))
         else s1)
      else s)"

definition tick_time_wait :: "nat \<Rightarrow> net \<Rightarrow> net" where
  "tick_time_wait i s =
     (if tc_state (conns s ! i) = TCP_TIME_WAIT then
        (let s1 = (if tc_retransmit_timer (conns s ! i) = 0 then upd_conn i (\<lambda>c. c\<lparr>tc_retransmit_timer := 200\<rparr>) s else s);
             s2 = upd_conn i (\<lambda>c. c\<lparr>tc_retransmit_timer := tc_retransmit_timer c - 1\<rparr>) s1
         in if tc_retransmit_timer (conns s2 ! i) = 0
            then upd_conn i (\<lambda>c. c\<lparr>tc_state := TCP_CLOSED, tc_in_use := False\<rparr>) s2 else s2)
      else s)"

definition tick_one :: "(net \<Rightarrow> net) \<Rightarrow> nat \<Rightarrow> net \<Rightarrow> net" where
  "tick_one env i s = (if \<not> tc_in_use (conns s ! i) then s else tick_time_wait i (tick_retransmit env i s))"

definition tcp_tick :: "(net \<Rightarrow> net) \<Rightarrow> net \<Rightarrow> net" where
  "tcp_tick env s = fold (tick_one env) [0..<TCP_MAX_CONNS] s"

section \<open>Calls of the socket layer\<close>

definition tcp_connect :: "(net \<Rightarrow> net) \<Rightarrow> nat \<Rightarrow> u32 \<Rightarrow> u16 \<Rightarrow> u16 \<Rightarrow> net \<Rightarrow> int \<times> net" where
  "tcp_connect env idx dst_ip dst_port src_port s =
     (let isn = ucast (net_ticks s * 54321 + 1);
          s1 = upd_conn idx (\<lambda>c. c\<lparr>tc_local_ip := our_ip s, tc_local_port := src_port, tc_remote_ip := dst_ip,
                 tc_remote_port := dst_port, tc_snd_nxt := isn, tc_snd_una := isn, tc_state := TCP_SYN_SENT\<rparr>) s;
          s2 = send_flags env idx TCP_SYN s1;
          cur = the (current_process (net_sched s2));
          s3 = block_until env cur (upd_conn idx (\<lambda>c. c\<lparr>tc_blocked_writer := Some cur\<rparr>) s2)
      in (if tc_state (conns s3 ! idx) \<noteq> TCP_ESTABLISHED then -1 else 0, s3))"

definition tcp_listen :: "nat \<Rightarrow> u16 \<Rightarrow> net \<Rightarrow> net" where
  "tcp_listen idx port s =
     upd_conn idx (\<lambda>c. c\<lparr>tc_local_ip := our_ip s, tc_local_port := port, tc_state := TCP_LISTEN,
       tc_accept_head := 0, tc_accept_tail := 0, tc_accept_count := 0\<rparr>) s"

text \<open>One iteration of a wait loop: a fatal signal ends it, otherwise the caller goes to sleep.\<close>

definition wait_on :: "(nat \<Rightarrow> net \<Rightarrow> net) \<Rightarrow> 'r \<Rightarrow> net \<Rightarrow> 'r outcome \<times> net" where
  "wait_on register killed s =
     (let cur = the (current_process (net_sched s)) in
      if signal_has_fatal (current_process (net_sched s)) (net_sched s) then (Returns killed, s)
      else (Blocks, upd_sched (\<lambda>sc. schedule (set_state cur PROCESS_BLOCKED sc)) (register cur s)))"

definition tcp_accept :: "nat \<Rightarrow> net \<Rightarrow> int outcome \<times> net" where
  "tcp_accept idx s =
     (let c = conns s ! idx in
      if tc_state c \<noteq> TCP_LISTEN then (Returns (-1), s)
      else if tc_accept_count c = 0
      then wait_on (\<lambda>cur. upd_conn idx (\<lambda>c. c\<lparr>tc_blocked_accepter := Some cur\<rparr>)) (-1) s
      else (Returns (int (tc_accept_queue c ! tc_accept_head c)),
            upd_conn idx (\<lambda>c. c\<lparr>tc_accept_head := (tc_accept_head c + 1) mod TCP_ACCEPT_QUEUE,
              tc_accept_count := tc_accept_count c - 1\<rparr>) s))"

definition tcp_send_chunk :: "(net \<Rightarrow> net) \<Rightarrow> nat \<Rightarrow> (nat \<Rightarrow> u8) \<Rightarrow> nat \<Rightarrow> net \<Rightarrow> net" where
  "tcp_send_chunk env idx data chunk s =
     snd (tcp_send_segment env idx (TCP_ACK OR TCP_PSH) data chunk
       (upd_conn idx (\<lambda>c. c\<lparr>tc_retransmit_seq := tc_snd_nxt c,
          tc_retransmit_data := blit (tc_retransmit_data c) 0 (map data [0..<chunk]),
          tc_retransmit_len := chunk, tc_retransmit_timer := 50, tc_retransmit_count := 0\<rparr>) s))"

function tcp_send_loop :: "(net \<Rightarrow> net) \<Rightarrow> nat \<Rightarrow> (nat \<Rightarrow> u8) \<Rightarrow> nat \<Rightarrow> nat \<Rightarrow> net \<Rightarrow> net" where
  "tcp_send_loop env idx data sent len s =
     (if sent < len then
        (let chunk = (if len - sent > 1460 then 1460 else len - sent) in
         tcp_send_loop env idx data (sent + chunk) len (tcp_send_chunk env idx (\<lambda>i. data (sent + i)) chunk s))
      else s)"
  by pat_completeness auto
termination by (relation "measure (\<lambda>(env, idx, data, sent, len, s). len - sent)") (auto split: if_splits)

declare tcp_send_loop.simps [simp del]

definition tcp_send :: "(net \<Rightarrow> net) \<Rightarrow> nat \<Rightarrow> (nat \<Rightarrow> u8) \<Rightarrow> nat \<Rightarrow> net \<Rightarrow> int \<times> net" where
  "tcp_send env idx data len s =
     (let c = conns s ! idx in
      if tc_state c \<noteq> TCP_ESTABLISHED \<and> tc_state c \<noteq> TCP_CLOSE_WAIT then (-1, s)
      else (int32 len, tcp_send_loop env idx data 0 len s))"

definition tcp_recv :: "nat \<Rightarrow> nat \<Rightarrow> net \<Rightarrow> (int \<times> u8 list) outcome \<times> net" where
  "tcp_recv idx len s =
     (let c = conns s ! idx in
      if tc_rx_count c = 0 \<and> \<not> tc_eof c \<and> tc_state c \<noteq> TCP_CLOSED \<and> tc_state c \<noteq> TCP_CLOSE_WAIT
      then wait_on (\<lambda>cur. upd_conn idx (\<lambda>c. c\<lparr>tc_blocked_reader := Some cur\<rparr>)) (-1, []) s
      else if tc_rx_count c = 0 then (Returns (0, []), s)
      else
        (let copy = (if len < tc_rx_count c then len else tc_rx_count c);
             (bs, rp) = ring_get (tc_rx_buf c) (tc_rx_read_pos c) copy
         in (Returns (int32 copy, bs),
             upd_conn idx (\<lambda>c. c\<lparr>tc_rx_read_pos := rp, tc_rx_count := tc_rx_count c - copy\<rparr>) s)))"

definition tcp_close :: "(net \<Rightarrow> net) \<Rightarrow> nat \<Rightarrow> net \<Rightarrow> net" where
  "tcp_close env idx s =
     (case tc_state (conns s ! idx) of
        TCP_ESTABLISHED \<Rightarrow> send_flags env idx (TCP_FIN OR TCP_ACK) (upd_conn idx (\<lambda>c. c\<lparr>tc_state := TCP_FIN_WAIT_1\<rparr>) s)
      | TCP_CLOSE_WAIT \<Rightarrow> send_flags env idx (TCP_FIN OR TCP_ACK) (upd_conn idx (\<lambda>c. c\<lparr>tc_state := TCP_LAST_ACK\<rparr>) s)
      | TCP_LISTEN \<Rightarrow> upd_conn idx (\<lambda>c. c\<lparr>tc_state := TCP_CLOSED, tc_in_use := False\<rparr>) s
      | TCP_SYN_SENT \<Rightarrow> upd_conn idx (\<lambda>c. c\<lparr>tc_state := TCP_CLOSED, tc_in_use := False\<rparr>) s
      | _ \<Rightarrow> s)"

definition tcp_conn_readable :: "int \<Rightarrow> net \<Rightarrow> bool" where
  "tcp_conn_readable idx s =
     (case tcp_get_conn idx s of None \<Rightarrow> False
      | Some c \<Rightarrow> tc_rx_count c > 0 \<or> tc_eof c \<or> tc_state c = TCP_CLOSED)"

definition tcp_conn_writable :: "int \<Rightarrow> net \<Rightarrow> bool" where
  "tcp_conn_writable idx s =
     (case tcp_get_conn idx s of None \<Rightarrow> False | Some c \<Rightarrow> tc_state c = TCP_ESTABLISHED)"

definition tcp_conn_acceptable :: "int \<Rightarrow> net \<Rightarrow> bool" where
  "tcp_conn_acceptable idx s =
     (case tcp_get_conn idx s of None \<Rightarrow> False | Some c \<Rightarrow> tc_state c = TCP_LISTEN \<and> tc_accept_count c > 0)"

section \<open>The effect of sending on the connection table\<close>

lemma conns_upd_conn [simp]: "conns (upd_conn i f s) = upd_nth i f (conns s)"
  by (simp add: upd_conn_def)

lemma upd_conn_frame [simp]:
  "arp_table (upd_conn i f s) = arp_table s" "our_ip (upd_conn i f s) = our_ip s"
  "our_netmask (upd_conn i f s) = our_netmask s" "our_gateway (upd_conn i f s) = our_gateway s"
  "net_sched (upd_conn i f s) = net_sched s" "net_ticks (upd_conn i f s) = net_ticks s"
  by (simp_all add: upd_conn_def)

lemma wake_frame_arp [simp]:
  "arp_table (wake p s) = arp_table s" "our_ip (wake p s) = our_ip s"
  "our_netmask (wake p s) = our_netmask s" "our_gateway (wake p s) = our_gateway s"
  by (simp_all add: wake_def upd_sched_def)

lemma mac_known_cong:
  "arp_table t = arp_table s \<Longrightarrow> our_ip t = our_ip s \<Longrightarrow> our_netmask t = our_netmask s \<Longrightarrow>
   our_gateway t = our_gateway s \<Longrightarrow> mac_known ip t = mac_known ip s"
  by (simp add: mac_known_def next_hop_def arp_lookup_def)

lemma mac_known_simps [simp]:
  "mac_known ip (upd_conn i f s) = mac_known ip s" "mac_known ip (wake p s) = mac_known ip s"
  by (rule mac_known_cong; simp)+

lemma send_segment_conns:
  assumes "mac_known (tc_remote_ip (conns s ! idx)) s"
  shows "\<exists>adv. conns (snd (tcp_send_segment env idx flags data n s)) =
           upd_nth idx (\<lambda>c. c\<lparr>tc_snd_nxt := tc_snd_nxt c + adv\<rparr>) (conns s)"
    and "mac_known ip (snd (tcp_send_segment env idx flags data n s)) = mac_known ip s"
proof -
  define adv where "adv = (if has_flag flags TCP_SYN then 1 else 0) + (if has_flag flags TCP_FIN then 1 else 0) + (of_nat n :: u32)"
  define s1 where "s1 = upd_conn idx (\<lambda>c. c\<lparr>tc_snd_nxt := tc_snd_nxt c + adv\<rparr>) (s\<lparr>net_fault := (net_fault s \<or> n > 1480)\<rparr>)"
  have "(conns (snd (tcp_send_segment env idx flags data n s)) = conns s \<and>
         mac_known ip (snd (tcp_send_segment env idx flags data n s)) = mac_known ip s) \<or>
        (conns (snd (tcp_send_segment env idx flags data n s)) = upd_nth idx (\<lambda>c. c\<lparr>tc_snd_nxt := tc_snd_nxt c + adv\<rparr>) (conns s) \<and>
         mac_known ip (snd (tcp_send_segment env idx flags data n s)) = mac_known ip s)"
  proof (cases "(20 + n) mod 2 ^ 32 > 1500")
    case True
    then show ?thesis by (simp add: tcp_send_segment_def Let_def)
  next
    case False
    obtain pk len dst where "tcp_send_segment env idx flags data n s = ipv4_send env pk len dst IP_PROTO_TCP s1"
      and dst: "dst = tc_remote_ip (conns s ! idx)"
      using False unfolding tcp_send_segment_def Let_def s1_def adv_def by (simp only: if_False)
    moreover have "mac_known dst s1 = mac_known dst s" for dst
      by (rule mac_known_cong) (simp_all add: s1_def)
    moreover have "conns s1 = upd_nth idx (\<lambda>c. c\<lparr>tc_snd_nxt := tc_snd_nxt c + adv\<rparr>) (conns s)" by (simp add: s1_def)
    ultimately show ?thesis
      using ipv4_send_only [of dst s1 env pk len IP_PROTO_TCP] assms
      by (simp add: sends_only_frame sends_only_mac_known)
  qed
  note R = this
  have "upd_nth idx (\<lambda>c. c\<lparr>tc_snd_nxt := tc_snd_nxt c + 0\<rparr>) (conns s) = conns s"
    by (rule nth_equalityI) (auto simp: nth_upd_nth)
  then show "\<exists>adv. conns (snd (tcp_send_segment env idx flags data n s)) =
           upd_nth idx (\<lambda>c. c\<lparr>tc_snd_nxt := tc_snd_nxt c + adv\<rparr>) (conns s)"
    using R by (elim disjE) (rule exI [of _ 0], simp, rule exI [of _ adv], simp)
  show "mac_known ip (snd (tcp_send_segment env idx flags data n s)) = mac_known ip s"
    using R by (elim disjE conjE)
qed

end
