(* ===== verification/Socket.thy ===== *)
theory Socket
  imports Tcp
begin

text \<open>
  Sockets and UDP sending (\<^verbatim>\<open>kernel/net/socket.c\<close>, \<^verbatim>\<open>udp_send\<close> of \<^verbatim>\<open>kernel/net/udp.c\<close>). A call that
  sleeps in a wait loop has the outcome \<open>Blocks\<close>; data pointers are functions from offsets to bytes,
  so that a length taken from the caller can be larger than any buffer.
\<close>

definition MAX_SOCKETS :: nat where "MAX_SOCKETS = 32"
definition SOCK_DGRAM :: int where "SOCK_DGRAM = 1"
definition SOCK_STREAM :: int where "SOCK_STREAM = 2"
definition SOCKET_UDP_QUEUE_SIZE :: nat where "SOCKET_UDP_QUEUE_SIZE = 8"
definition SOCKET_UDP_PKT_SIZE :: nat where "SOCKET_UDP_PKT_SIZE = 1472"
definition EAGAIN :: int where "EAGAIN = 11"

section \<open>UDP datagrams\<close>

definition udp_header :: "u16 \<Rightarrow> u16 \<Rightarrow> nat \<Rightarrow> u8 list" where
  "udp_header src_port dst_port len =
     enc16 (htons src_port) @ enc16 (htons dst_port) @ enc16 (htons (of_nat len)) @ enc16 0"

definition udp_send ::
  "(net \<Rightarrow> net) \<Rightarrow> u32 \<Rightarrow> u16 \<Rightarrow> u16 \<Rightarrow> (nat \<Rightarrow> u8) \<Rightarrow> nat \<Rightarrow> net \<Rightarrow> int \<times> net" where
  "udp_send env dst_ip src_port dst_port data len s =
     (let tot = (8 + len) mod 2 ^ 32 in
      if tot > 1480 then (-1, s)
      else
        (let packet = udp_header src_port dst_port tot @ map data [0..<min len 1472]
         in ipv4_send env (at packet) tot dst_ip IP_PROTO_UDP (s\<lparr>net_fault := (net_fault s \<or> len > 1472)\<rparr>)))"

section \<open>The socket table\<close>

definition socket_create :: "int \<Rightarrow> net \<Rightarrow> nat option \<times> net" where
  "socket_create type s =
     (case first_idx (\<lambda>so. \<not> so_in_use so) (sockets s) of
        Some i \<Rightarrow> (Some i, upd_sock i (\<lambda>_. socket_zero\<lparr>so_type := type, so_in_use := True, so_refcount := 1,
                     so_tcp_conn_idx := -1\<rparr>) s)
      | None \<Rightarrow> (None, s))"

definition socket_get :: "int \<Rightarrow> net \<Rightarrow> socket option" where
  "socket_get idx s =
     (if idx < 0 \<or> idx \<ge> int MAX_SOCKETS \<or> \<not> so_in_use (sockets s ! nat idx) then None
      else Some (sockets s ! nat idx))"

definition socket_bind :: "int \<Rightarrow> u32 \<Rightarrow> u16 \<Rightarrow> net \<Rightarrow> int \<times> net" where
  "socket_bind idx ip port s =
     (case socket_get idx s of
        None \<Rightarrow> (-1, s)
      | Some _ \<Rightarrow> (0, upd_sock (nat idx) (\<lambda>so. so\<lparr>so_local_ip := (if ip \<noteq> 0 then ip else our_ip s), so_local_port := port,
                        so_bound := True\<rparr>) s))"

definition socket_listen :: "int \<Rightarrow> net \<Rightarrow> int \<times> net" where
  "socket_listen idx s =
     (case socket_get idx s of
        None \<Rightarrow> (-1, s)
      | Some so \<Rightarrow>
          if so_type so \<noteq> SOCK_STREAM \<or> \<not> so_bound so then (-1, s)
          else (case tcp_alloc_conn s of
                  (None, s1) \<Rightarrow> (-1, s1)
                | (Some ti, s1) \<Rightarrow>
                    (0, upd_sock (nat idx) (\<lambda>so. so\<lparr>so_tcp_conn_idx := int ti, so_listening := True\<rparr>)
                          (tcp_listen ti (so_local_port so) s1))))"

definition socket_accept :: "int \<Rightarrow> net \<Rightarrow> int outcome \<times> net" where
  "socket_accept idx s =
     (case socket_get idx s of
        None \<Rightarrow> (Returns (-1), s)
      | Some so \<Rightarrow>
          if \<not> so_listening so then (Returns (-1), s)
          else if so_nonblocking so \<and> \<not> tcp_conn_acceptable (so_tcp_conn_idx so) s then (Returns (- EAGAIN), s)
          else (case tcp_accept (nat (so_tcp_conn_idx so)) s of
                  (Blocks, s1) \<Rightarrow> (Blocks, s1)
                | (Returns ti, s1) \<Rightarrow>
                    if ti < 0 then (Returns (-1), s1)
                    else (case socket_create SOCK_STREAM s1 of
                            (None, s2) \<Rightarrow> (Returns (-1), s2)
                          | (Some ns, s2) \<Rightarrow>
                              (let s3 = upd_sock ns (\<lambda>n. n\<lparr>so_tcp_conn_idx := ti, so_connected := True, so_bound := True\<rparr>) s2
                               in (Returns (int ns),
                                   case tcp_get_conn ti s2 of
                                     Some tc \<Rightarrow> upd_sock ns (\<lambda>n. n\<lparr>so_local_ip := tc_local_ip tc, so_local_port := tc_local_port tc,
                                        so_remote_ip := tc_remote_ip tc, so_remote_port := tc_remote_port tc\<rparr>) s3
                                   | None \<Rightarrow> s3)))))"

text \<open>The port of a socket that is not bound: the next ephemeral one.\<close>

definition take_ephemeral :: "nat \<Rightarrow> net \<Rightarrow> net" where
  "take_ephemeral i s =
     (if so_bound (sockets s ! i) then s
      else (upd_sock i (\<lambda>so. so\<lparr>so_local_port := next_ephemeral_port s, so_bound := True\<rparr>) s)
             \<lparr>next_ephemeral_port := next_ephemeral_port s + 1\<rparr>)"

definition socket_connect :: "(net \<Rightarrow> net) \<Rightarrow> int \<Rightarrow> u32 \<Rightarrow> u16 \<Rightarrow> net \<Rightarrow> int \<times> net" where
  "socket_connect env idx ip port s =
     (case socket_get idx s of
        None \<Rightarrow> (-1, s)
      | Some so \<Rightarrow>
          if so_type so = SOCK_STREAM then
            (case tcp_alloc_conn s of
               (None, s1) \<Rightarrow> (-1, s1)
             | (Some ti, s1) \<Rightarrow>
                 (let s2 = take_ephemeral (nat idx) s1;
                      src_port = so_local_port (sockets s2 ! nat idx);
                      s3 = upd_sock (nat idx) (\<lambda>so. so\<lparr>so_tcp_conn_idx := int ti, so_remote_ip := ip, so_remote_port := port\<rparr>) s2
                  in case tcp_connect env ti ip port src_port s3 of
                       (r, s4) \<Rightarrow> if r < 0 then (-1, s4)
                                 else (0, upd_sock (nat idx) (\<lambda>so. so\<lparr>so_connected := True\<rparr>) s4)))
          else if so_type so = SOCK_DGRAM then
            (0, take_ephemeral (nat idx)
                  (upd_sock (nat idx) (\<lambda>so. so\<lparr>so_remote_ip := ip, so_remote_port := port, so_connected := True\<rparr>) s))
          else (-1, s))"

definition socket_send :: "(net \<Rightarrow> net) \<Rightarrow> int \<Rightarrow> (nat \<Rightarrow> u8) \<Rightarrow> nat \<Rightarrow> net \<Rightarrow> int \<times> net" where
  "socket_send env idx data len s =
     (case socket_get idx s of
        None \<Rightarrow> (-1, s)
      | Some so \<Rightarrow>
          if so_type so = SOCK_STREAM then
            (if so_tcp_conn_idx so < 0 then (-1, s)
             else if so_nonblocking so \<and> \<not> tcp_conn_writable (so_tcp_conn_idx so) s then (- EAGAIN, s)
             else tcp_send env (nat (so_tcp_conn_idx so)) data len s)
          else if so_type so = SOCK_DGRAM then
            (if \<not> so_connected so then (-1, s)
             else udp_send env (so_remote_ip so) (so_local_port so) (so_remote_port so) data len s)
          else (-1, s))"

definition socket_recv :: "int \<Rightarrow> nat \<Rightarrow> net \<Rightarrow> (int \<times> u8 list) outcome \<times> net" where
  "socket_recv idx len s =
     (case socket_get idx s of
        None \<Rightarrow> (Returns (-1, []), s)
      | Some so \<Rightarrow>
          if so_type so = SOCK_STREAM then
            (if so_tcp_conn_idx so < 0 then (Returns (-1, []), s)
             else if so_nonblocking so \<and> \<not> tcp_conn_readable (so_tcp_conn_idx so) s then (Returns (- EAGAIN, []), s)
             else tcp_recv (nat (so_tcp_conn_idx so)) len s)
          else if so_type so = SOCK_DGRAM then
            (if so_nonblocking so \<and> so_udp_count so = 0 then (Returns (- EAGAIN, []), s)
             else if so_udp_count so = 0 then
               wait_on (\<lambda>cur. upd_sock (nat idx) (\<lambda>so. so\<lparr>so_blocked_reader := Some cur\<rparr>)) (-1, []) s
             else
               (let pkt = so_udp_queue so ! so_udp_head so;
                    copy = (if len < up_len pkt then len else up_len pkt)
                in (Returns (int32 copy, take copy (up_data pkt)),
                    upd_sock (nat idx) (\<lambda>so. so\<lparr>so_udp_queue := upd_nth (so_udp_head so) (\<lambda>p. p\<lparr>up_valid := False\<rparr>) (so_udp_queue so),
                      so_udp_head := (so_udp_head so + 1) mod SOCKET_UDP_QUEUE_SIZE, so_udp_count := so_udp_count so - 1\<rparr>) s)))
          else (Returns (-1, []), s))"

definition socket_close :: "(net \<Rightarrow> net) \<Rightarrow> int \<Rightarrow> net \<Rightarrow> int \<times> net" where
  "socket_close env idx s =
     (case socket_get idx s of
        None \<Rightarrow> (-1, s)
      | Some so \<Rightarrow>
          (let s1 = upd_sock (nat idx) (\<lambda>so. so\<lparr>so_refcount := so_refcount so - 1\<rparr>) s in
           if so_refcount so - 1 > 0 then (0, s1)
           else (0, upd_sock (nat idx) (\<lambda>so. so\<lparr>so_in_use := False\<rparr>)
                      (if so_type so = SOCK_STREAM \<and> so_tcp_conn_idx so \<ge> 0
                       then tcp_close env (nat (so_tcp_conn_idx so)) s1 else s1))))"

definition socket_inc_ref :: "int \<Rightarrow> net \<Rightarrow> net" where
  "socket_inc_ref idx s =
     (case socket_get idx s of None \<Rightarrow> s
      | Some _ \<Rightarrow> upd_sock (nat idx) (\<lambda>so. so\<lparr>so_refcount := so_refcount so + 1\<rparr>) s)"

definition socket_readable :: "int \<Rightarrow> net \<Rightarrow> bool" where
  "socket_readable idx s =
     (case socket_get idx s of None \<Rightarrow> False
      | Some so \<Rightarrow>
          if so_type so = SOCK_STREAM then
            (if so_listening so then tcp_conn_acceptable (so_tcp_conn_idx so) s
             else so_tcp_conn_idx so \<ge> 0 \<and> tcp_conn_readable (so_tcp_conn_idx so) s)
          else if so_type so = SOCK_DGRAM then so_udp_count so > 0
          else False)"

definition socket_writable :: "int \<Rightarrow> net \<Rightarrow> bool" where
  "socket_writable idx s =
     (case socket_get idx s of None \<Rightarrow> False
      | Some so \<Rightarrow>
          if so_type so = SOCK_STREAM then so_tcp_conn_idx so \<ge> 0 \<and> tcp_conn_writable (so_tcp_conn_idx so) s
          else True)"

section \<open>Delivery of datagrams\<close>

text \<open>Store a datagram at the tail of the queue of a socket.\<close>

definition udp_enqueue :: "u32 \<Rightarrow> u16 \<Rightarrow> (nat \<Rightarrow> u8) \<Rightarrow> nat \<Rightarrow> socket \<Rightarrow> socket" where
  "udp_enqueue src_ip src_port data len so =
     (let copy = (if len < SOCKET_UDP_PKT_SIZE then len else SOCKET_UDP_PKT_SIZE) in
      so\<lparr>so_udp_queue := upd_nth (so_udp_tail so) (\<lambda>p. p\<lparr>up_data := blit (up_data p) 0 (map data [0..<copy]), up_len := copy,
           up_src_ip := src_ip, up_src_port := src_port, up_valid := True\<rparr>) (so_udp_queue so),
         so_udp_tail := (so_udp_tail so + 1) mod SOCKET_UDP_QUEUE_SIZE, so_udp_count := so_udp_count so + 1\<rparr>)"

definition wake_sock_reader :: "nat \<Rightarrow> net \<Rightarrow> net" where
  "wake_sock_reader i s =
     (case so_blocked_reader (sockets s ! i) of
        Some p \<Rightarrow> upd_sock i (\<lambda>so. so\<lparr>so_blocked_reader := None\<rparr>) (wake p s)
      | None \<Rightarrow> s)"

definition socket_udp_deliver :: "u16 \<Rightarrow> u32 \<Rightarrow> u16 \<Rightarrow> (nat \<Rightarrow> u8) \<Rightarrow> nat \<Rightarrow> net \<Rightarrow> net" where
  "socket_udp_deliver dst_port src_ip src_port data len s =
     (case first_idx (\<lambda>so. so_in_use so \<and> so_type so = SOCK_DGRAM \<and> so_bound so \<and> so_local_port so = dst_port) (sockets s) of
        Some i \<Rightarrow>
          if so_udp_count (sockets s ! i) < SOCKET_UDP_QUEUE_SIZE
          then wake_sock_reader i (upd_sock i (udp_enqueue src_ip src_port data len) s) else s
      | None \<Rightarrow> s)"

end
