(* ===== verification/TcpStream.thy ===== *)
theory TcpStream
  imports Tcp
begin

text \<open>
  The receiving side of a TCP connection as a byte stream: whatever segments of a peer's stream
  arrive, in any order and any number of times, what the connection has delivered and buffered is a
  prefix of that stream.
\<close>

section \<open>The receive buffer\<close>

definition rx_ok :: "tcp_connection \<Rightarrow> bool" where
  "rx_ok c \<longleftrightarrow> length (tc_rx_buf c) = TCP_RX_BUF_SIZE \<and>
     ring_ok (tc_rx_buf c) (tc_rx_read_pos c) (tc_rx_write_pos c) (tc_rx_count c)"

definition rx_pending :: "tcp_connection \<Rightarrow> u8 list" where
  "rx_pending c = ring_list (tc_rx_buf c) (tc_rx_read_pos c) (tc_rx_count c)"

lemma length_rx_pending [simp]: "length (rx_pending c) = tc_rx_count c"
  by (simp add: rx_pending_def)

text \<open>Two connections agree on the receive buffer.\<close>

definition rx_same :: "tcp_connection \<Rightarrow> tcp_connection \<Rightarrow> bool" where
  "rx_same c d \<longleftrightarrow> tc_rx_buf d = tc_rx_buf c \<and> tc_rx_read_pos d = tc_rx_read_pos c \<and>
     tc_rx_write_pos d = tc_rx_write_pos c \<and> tc_rx_count d = tc_rx_count c"

lemma rx_same_facts: "rx_same c d \<Longrightarrow> rx_ok d = rx_ok c \<and> rx_pending d = rx_pending c"
  by (simp add: rx_same_def rx_ok_def rx_pending_def)

lemma accept_data:
  assumes "rx_ok c"
  shows "\<exists>k. k \<le> sg_len sg \<and> rx_pending (rx_accept_data sg c) = rx_pending c @ map (sg_data sg) [0..<k] \<and>
    rx_ok (rx_accept_data sg c) \<and> tc_rcv_nxt (rx_accept_data sg c) = tc_rcv_nxt c + of_nat k \<and>
    tc_state (rx_accept_data sg c) = tc_state c \<and> tc_eof (rx_accept_data sg c) = tc_eof c \<and>
    tc_remote_ip (rx_accept_data sg c) = tc_remote_ip c"
proof -
  have cnt: "tc_rx_count c \<le> TCP_RX_BUF_SIZE" using assms by (auto simp: rx_ok_def ring_ok_def)
  then have sp: "sub32 TCP_RX_BUF_SIZE (tc_rx_count c) = TCP_RX_BUF_SIZE - tc_rx_count c"
    by (intro sub32_eq) (simp_all add: TCP_RX_BUF_SIZE_def)
  define k where "k = (if sg_len sg < TCP_RX_BUF_SIZE - tc_rx_count c then sg_len sg else TCP_RX_BUF_SIZE - tc_rx_count c)"
  obtain buf wp where p: "ring_put (tc_rx_buf c) (tc_rx_write_pos c) (map (sg_data sg) [0..<k]) = (buf, wp)" by fastforce
  have d: "rx_accept_data sg c = c\<lparr>tc_rx_buf := buf, tc_rx_write_pos := wp, tc_rx_count := tc_rx_count c + k,
      tc_rcv_nxt := tc_rcv_nxt c + of_nat k\<rparr>"
    unfolding rx_accept_data_def Let_def sp k_def [symmetric] p by simp
  have "tc_rx_count c + k \<le> TCP_RX_BUF_SIZE" using cnt by (auto simp: k_def)
  then have "length buf = TCP_RX_BUF_SIZE \<and> ring_ok buf (tc_rx_read_pos c) wp (tc_rx_count c + k) \<and>
      ring_list buf (tc_rx_read_pos c) (tc_rx_count c + k) = rx_pending c @ map (sg_data sg) [0..<k]"
    using ring_put_spec [OF _ _ p, of "tc_rx_read_pos c" "tc_rx_count c"] assms by (simp add: rx_ok_def rx_pending_def)
  moreover have "k \<le> sg_len sg" by (simp add: k_def)
  ultimately show ?thesis unfolding d by (intro exI [of _ k]) (simp add: rx_ok_def rx_pending_def)
qed

section \<open>What an established connection does with a segment\<close>

lemma upd_nth_same: "f (xs ! i) = xs ! i \<Longrightarrow> upd_nth i f xs = xs"
  by (simp add: upd_nth_def)

lemma wake_reader_conns: "conns (wake_reader i s) = upd_nth i (\<lambda>c. c\<lparr>tc_blocked_reader := None\<rparr>) (conns s)"
proof (cases "tc_blocked_reader (conns s ! i)")
  case None
  have "(conns s ! i)\<lparr>tc_blocked_reader := tc_blocked_reader (conns s ! i)\<rparr> = conns s ! i" by simp
  then show ?thesis unfolding None by (simp add: wake_reader_def None upd_nth_same)
qed (simp add: wake_reader_def)

lemma wake_writer_conns: "conns (wake_writer i s) = upd_nth i (\<lambda>c. c\<lparr>tc_blocked_writer := None\<rparr>) (conns s)"
proof (cases "tc_blocked_writer (conns s ! i)")
  case None
  have "(conns s ! i)\<lparr>tc_blocked_writer := tc_blocked_writer (conns s ! i)\<rparr> = conns s ! i" by simp
  then show ?thesis unfolding None by (simp add: wake_writer_def None upd_nth_same)
qed (simp add: wake_writer_def)

lemma wake_mac_known [simp]: "mac_known ip (wake_reader i s) = mac_known ip s"
  by (auto simp: wake_reader_def split: option.splits)

text \<open>An acknowledgement with a wake-up of the reader, as it occurs twice.\<close>

lemma ack_and_wake:
  assumes "idx < length (conns s)" "mac_known (tc_remote_ip (conns s ! idx)) s"
    and t_def: "t = wake_reader idx (send_flags env idx TCP_ACK s)"
  shows "length (conns t) = length (conns s)" "mac_known ip t = mac_known ip s"
    "rx_same (conns s ! idx) (conns t ! idx)" "tc_state (conns t ! idx) = tc_state (conns s ! idx)"
    "tc_rcv_nxt (conns t ! idx) = tc_rcv_nxt (conns s ! idx)" "tc_eof (conns t ! idx) = tc_eof (conns s ! idx)"
    "tc_remote_ip (conns t ! idx) = tc_remote_ip (conns s ! idx)"
proof -
  obtain adv where "conns (send_flags env idx TCP_ACK s) = upd_nth idx (\<lambda>c. c\<lparr>tc_snd_nxt := tc_snd_nxt c + adv\<rparr>) (conns s)"
    using send_segment_conns(1) [OF assms(2)] by blast
  then have t: "conns t = upd_nth idx (\<lambda>c. c\<lparr>tc_blocked_reader := None\<rparr>)
      (upd_nth idx (\<lambda>c. c\<lparr>tc_snd_nxt := tc_snd_nxt c + adv\<rparr>) (conns s))"
    by (simp add: t_def wake_reader_conns)
  show "length (conns t) = length (conns s)" by (simp add: t)
  show "mac_known ip t = mac_known ip s" using send_segment_conns(2) [OF assms(2)] by (simp add: t_def)
  have "conns t ! idx = (conns s ! idx)\<lparr>tc_snd_nxt := tc_snd_nxt (conns s ! idx) + adv, tc_blocked_reader := None\<rparr>"
    using assms(1) by (simp add: t nth_upd_nth)
  then show "rx_same (conns s ! idx) (conns t ! idx)" "tc_state (conns t ! idx) = tc_state (conns s ! idx)"
    "tc_rcv_nxt (conns t ! idx) = tc_rcv_nxt (conns s ! idx)" "tc_eof (conns t ! idx) = tc_eof (conns s ! idx)"
    "tc_remote_ip (conns t ! idx) = tc_remote_ip (conns s ! idx)"
    by (simp_all add: rx_same_def)
qed

text \<open>
  The view of one connection: the buffered bytes, the next sequence number expected and the state
  after a segment.
\<close>

lemma rx_established_view:
  assumes idx: "idx < length (conns s)" and c: "c = conns s ! idx"
    and known: "mac_known (tc_remote_ip c) s"
    and d_def: "d = conns (rx_established env idx sg s) ! idx"
    and e_def: "e = (if sg_len sg > 0 \<and> sg_seq sg = tc_rcv_nxt c then rx_accept_data sg c else c)"
    and ok: "rx_ok c"
  shows "rx_same e d" "tc_state d = (if sg_has sg TCP_RST then TCP_CLOSED else if sg_has sg TCP_FIN then TCP_CLOSE_WAIT else tc_state c)"
    "\<not> sg_has sg TCP_FIN \<Longrightarrow> tc_rcv_nxt d = tc_rcv_nxt e" "tc_eof d = (tc_eof c \<or> sg_has sg TCP_FIN \<or> sg_has sg TCP_RST)"
    "length (conns (rx_established env idx sg s)) = length (conns s)"
proof -
  define s1 where "s1 = (if sg_has sg TCP_ACK then upd_conn idx (\<lambda>c. c\<lparr>tc_snd_una := sg_ack sg\<rparr>) s else s)"
  define s2 where "s2 = (if sg_len sg > 0 \<and> sg_seq sg = tc_rcv_nxt (conns s1 ! idx)
      then wake_reader idx (send_flags env idx TCP_ACK (upd_conn idx (rx_accept_data sg) s1)) else s1)"
  define s3 where "s3 = (if sg_has sg TCP_FIN then wake_reader idx (send_flags env idx TCP_ACK
      (upd_conn idx (\<lambda>c. c\<lparr>tc_rcv_nxt := sg_seq sg + of_nat (sg_len sg) + 1, tc_state := TCP_CLOSE_WAIT, tc_eof := True\<rparr>) s2))
      else s2)"
  have d: "d = conns (if sg_has sg TCP_RST
      then wake_writer idx (wake_reader idx (upd_conn idx (\<lambda>c. c\<lparr>tc_state := TCP_CLOSED, tc_eof := True\<rparr>) s3)) else s3) ! idx"
    unfolding d_def rx_established_def Let_def s1_def [symmetric] s2_def [symmetric] s3_def [symmetric] ..
  have c1: "length (conns s1) = length (conns s)" "mac_known ip s1 = mac_known ip s"
    "conns s1 ! idx = (if sg_has sg TCP_ACK then c\<lparr>tc_snd_una := sg_ack sg\<rparr> else c)" for ip
    using idx by (simp_all add: s1_def nth_upd_nth c)
  note len = c1(1)
  have acc: "rx_accept_data sg (c\<lparr>tc_snd_una := a\<rparr>) = (rx_accept_data sg c)\<lparr>tc_snd_una := a\<rparr>" for a
    by (simp add: rx_accept_data_def Let_def split: prod.splits)
  obtain k where A: "tc_state (rx_accept_data sg c) = tc_state c" "tc_eof (rx_accept_data sg c) = tc_eof c"
    "tc_remote_ip (rx_accept_data sg c) = tc_remote_ip c"
    using accept_data [OF ok] by blast
  have c2: "length (conns s2) = length (conns s) \<and> mac_known (tc_remote_ip c) s2 \<and>
    rx_same e (conns s2 ! idx) \<and> tc_state (conns s2 ! idx) = tc_state c \<and> tc_rcv_nxt (conns s2 ! idx) = tc_rcv_nxt e \<and>
    tc_eof (conns s2 ! idx) = tc_eof c \<and> tc_remote_ip (conns s2 ! idx) = tc_remote_ip c"
  proof (cases "sg_len sg > 0 \<and> sg_seq sg = tc_rcv_nxt c")
    case True
    define u where "u = upd_conn idx (rx_accept_data sg) s1"
    have u: "conns u ! idx = (if sg_has sg TCP_ACK then (rx_accept_data sg c)\<lparr>tc_snd_una := sg_ack sg\<rparr> else rx_accept_data sg c)"
      using idx len by (simp add: u_def nth_upd_nth c1(3) acc)
    then have e: "rx_same e (conns u ! idx)" "tc_state (conns u ! idx) = tc_state c" "tc_rcv_nxt (conns u ! idx) = tc_rcv_nxt e"
      "tc_eof (conns u ! idx) = tc_eof c" "tc_remote_ip (conns u ! idx) = tc_remote_ip c"
      using True A by (simp_all add: e_def rx_same_def)
    have s2: "s2 = wake_reader idx (send_flags env idx TCP_ACK u)"
      using True by (simp add: s2_def u_def c1(3))
    have iu: "idx < length (conns u)" "mac_known (tc_remote_ip (conns u ! idx)) u" "length (conns u) = length (conns s)"
      using idx len known by (simp_all add: e(5)) (simp_all add: u_def c1(2))
    note W = ack_and_wake [OF iu(1,2) s2]
    have "mac_known (tc_remote_ip c) s2" using W(2) iu(2) e(5) by simp
    with W e iu(3) show ?thesis by (simp add: rx_same_def)
  next
    case False
    then have "s2 = s1" "e = c" by (auto simp: s2_def e_def c1(3))
    then show ?thesis using c1 known by (simp add: rx_same_def)
  qed
  have c3: "length (conns s3) = length (conns s) \<and> rx_same e (conns s3 ! idx) \<and>
    tc_state (conns s3 ! idx) = (if sg_has sg TCP_FIN then TCP_CLOSE_WAIT else tc_state c) \<and>
    (\<not> sg_has sg TCP_FIN \<longrightarrow> tc_rcv_nxt (conns s3 ! idx) = tc_rcv_nxt e) \<and>
    tc_eof (conns s3 ! idx) = (tc_eof c \<or> sg_has sg TCP_FIN)"
  proof (cases "sg_has sg TCP_FIN")
    case True
    define u where "u = upd_conn idx (\<lambda>c. c\<lparr>tc_rcv_nxt := sg_seq sg + of_nat (sg_len sg) + 1,
        tc_state := TCP_CLOSE_WAIT, tc_eof := True\<rparr>) s2"
    have u: "conns u ! idx = (conns s2 ! idx)\<lparr>tc_rcv_nxt := sg_seq sg + of_nat (sg_len sg) + 1,
        tc_state := TCP_CLOSE_WAIT, tc_eof := True\<rparr>"
      using idx c2 by (simp add: u_def nth_upd_nth)
    have s3: "s3 = wake_reader idx (send_flags env idx TCP_ACK u)" using True by (simp add: s3_def u_def)
    have iu: "idx < length (conns u)" "mac_known (tc_remote_ip (conns u ! idx)) u" "length (conns u) = length (conns s)"
      using idx c2 by (simp_all add: u) (simp_all add: u_def)
    note W = ack_and_wake [OF iu(1,2) s3]
    show ?thesis
      using W u c2 iu(3) True by (simp add: rx_same_def)
  next
    case False
    then show ?thesis
      using c2 by (simp add: s3_def)
  qed
  have "d = (if sg_has sg TCP_RST then (conns s3 ! idx)\<lparr>tc_state := TCP_CLOSED, tc_eof := True,
      tc_blocked_reader := None, tc_blocked_writer := None\<rparr> else conns s3 ! idx)"
    using idx c3 by (simp add: d wake_writer_conns wake_reader_conns nth_upd_nth)
  moreover have "length (conns (rx_established env idx sg s)) = length (conns s3)"
    unfolding rx_established_def Let_def s1_def [symmetric] s2_def [symmetric] s3_def [symmetric]
    by (simp add: wake_writer_conns wake_reader_conns)
  ultimately show "length (conns (rx_established env idx sg s)) = length (conns s)" "rx_same e d"
    "tc_state d = (if sg_has sg TCP_RST then TCP_CLOSED else if sg_has sg TCP_FIN then TCP_CLOSE_WAIT else tc_state c)"
    "\<not> sg_has sg TCP_FIN \<Longrightarrow> tc_rcv_nxt d = tc_rcv_nxt e" "tc_eof d = (tc_eof c \<or> sg_has sg TCP_FIN \<or> sg_has sg TCP_RST)"
    using c3 by (simp_all add: rx_same_def)
qed

section \<open>Every handler of an open connection\<close>

definition data_state :: "tcp_state \<Rightarrow> bool" where
  "data_state st \<longleftrightarrow> st \<notin> {TCP_LISTEN, TCP_SYN_SENT, TCP_SYN_RECEIVED}"

lemma send_flags_conn:
  assumes "idx < length (conns s)" "mac_known (tc_remote_ip (conns s ! idx)) s"
  shows "rx_same (conns s ! idx) (conns (send_flags env idx f s) ! idx) \<and>
    tc_state (conns (send_flags env idx f s) ! idx) = tc_state (conns s ! idx) \<and>
    length (conns (send_flags env idx f s)) = length (conns s)"
proof -
  obtain adv where "conns (send_flags env idx f s) = upd_nth idx (\<lambda>c. c\<lparr>tc_snd_nxt := tc_snd_nxt c + adv\<rparr>) (conns s)"
    using send_segment_conns(1) [OF assms(2)] by blast
  then show ?thesis using assms(1) by (simp add: nth_upd_nth rx_same_def)
qed

lemma rx_fin_view:
  assumes "idx < length (conns s)" "mac_known (tc_remote_ip (conns s ! idx)) s"
  shows "rx_same (conns s ! idx) (conns (rx_fin env idx sg s) ! idx) \<and>
    tc_state (conns (rx_fin env idx sg s) ! idx) \<in> {TCP_TIME_WAIT, tc_state (conns s ! idx)} \<and>
    length (conns (rx_fin env idx sg s)) = length (conns s)"
proof (cases "sg_has sg TCP_FIN")
  case True
  let ?u = "upd_conn idx (\<lambda>c. c\<lparr>tc_rcv_nxt := sg_seq sg + 1, tc_state := TCP_TIME_WAIT\<rparr>) s"
  have u: "conns ?u ! idx = (conns s ! idx)\<lparr>tc_rcv_nxt := sg_seq sg + 1, tc_state := TCP_TIME_WAIT\<rparr>"
    using assms(1) by (simp add: nth_upd_nth)
  have "idx < length (conns ?u)" "mac_known (tc_remote_ip (conns ?u ! idx)) ?u"
    using assms u by simp_all
  from send_flags_conn [OF this, of env TCP_ACK] show ?thesis
    unfolding rx_fin_def u using True by (simp add: rx_same_def)
qed (simp add: rx_fin_def rx_same_def)

lemma rx_fin_wait_1_view:
  assumes "idx < length (conns s)" "mac_known (tc_remote_ip (conns s ! idx)) s"
  shows "rx_same (conns s ! idx) (conns (rx_fin_wait_1 env idx sg s) ! idx) \<and>
    tc_state (conns (rx_fin_wait_1 env idx sg s) ! idx) \<in> {TCP_TIME_WAIT, TCP_FIN_WAIT_2, tc_state (conns s ! idx)} \<and>
    length (conns (rx_fin_wait_1 env idx sg s)) = length (conns s)"
proof -
  define u where "u = (if sg_has sg TCP_ACK
      then upd_conn idx (\<lambda>c. c\<lparr>tc_snd_una := sg_ack sg, tc_state := TCP_FIN_WAIT_2\<rparr>) s else s)"
  have u: "rx_same (conns s ! idx) (conns u ! idx)" "tc_state (conns u ! idx) \<in> {TCP_FIN_WAIT_2, tc_state (conns s ! idx)}"
    "length (conns u) = length (conns s)" "mac_known (tc_remote_ip (conns u ! idx)) u"
    using assms by (simp_all add: u_def nth_upd_nth rx_same_def)
  have "idx < length (conns u)" using assms(1) u(3) by simp
  from rx_fin_view [OF this u(4), of env sg] u show ?thesis
    unfolding rx_fin_wait_1_def u_def [symmetric] by (auto simp: rx_same_def)
qed

lemma tcp_segment_view:
  assumes "find_connection (sg_src_ip sg) (sg_src_port sg) (sg_dst_port sg) s = Some idx"
    and idx: "idx < length (conns s)" and c: "c = conns s ! idx" and known: "mac_known (tc_remote_ip c) s"
    and ok: "rx_ok c" and st: "data_state (tc_state c)" "tc_state c \<noteq> TCP_ESTABLISHED"
    and d: "d = conns (tcp_segment env sg s) ! idx"
  shows "rx_same c d \<and> data_state (tc_state d) \<and> tc_state d \<noteq> TCP_ESTABLISHED \<and> length (conns (tcp_segment env sg s)) = length (conns s)"
proof (cases "tc_state c")
  case TCP_FIN_WAIT_1
  then have "tcp_segment env sg s = rx_fin_wait_1 env idx sg s" using assms(1) c by (simp add: tcp_segment_def)
  with rx_fin_wait_1_view [OF idx known [unfolded c], of env sg] d c TCP_FIN_WAIT_1 show ?thesis
    by (auto simp: data_state_def)
next
  case TCP_FIN_WAIT_2
  then have "tcp_segment env sg s = rx_fin env idx sg s" using assms(1) c by (simp add: tcp_segment_def)
  with rx_fin_view [OF idx known [unfolded c], of env sg] d c TCP_FIN_WAIT_2 show ?thesis
    by (auto simp: data_state_def)
next
  case TCP_LAST_ACK
  then have "tcp_segment env sg s = rx_last_ack idx sg s" using assms(1) c by (simp add: tcp_segment_def)
  with d c idx TCP_LAST_ACK show ?thesis by (simp add: rx_last_ack_def nth_upd_nth rx_same_def data_state_def)
qed (use assms in \<open>simp_all add: tcp_segment_def data_state_def rx_same_def\<close>)

section \<open>The stream\<close>

text \<open>
  A segment of the peer's stream \<open>str\<close>: its data sits at position \<open>k\<close> of the stream, its sequence
  number is that position counted from \<open>irs\<close>, and \<open>k\<close> is within half the sequence space of the
  position \<open>n\<close> the receiver has reached.
\<close>

definition genuine :: "(nat \<Rightarrow> u8) \<Rightarrow> u32 \<Rightarrow> nat \<Rightarrow> segment \<Rightarrow> bool" where
  "genuine str irs n sg \<longleftrightarrow> (\<exists>k. sg_seq sg = irs + of_nat k \<and> (\<forall>i < sg_len sg. sg_data sg i = str (k + i)) \<and>
     k < n + 2 ^ 31 \<and> n < k + 2 ^ 31)"

lemma same_position:
  assumes "(of_nat k :: u32) = of_nat n" "k < n + 2 ^ 31" "n < k + 2 ^ 31"
  shows "k = n"
proof -
  have m: "k mod 2 ^ 32 = n mod 2 ^ 32"
    using assms(1) by (simp add: word_of_nat_eq_iff take_bit_eq_mod)
  show ?thesis
  proof (cases "n \<le> k")
    case True
    then have "2 ^ 32 dvd k - n" using m mod_eq_dvd_iff_nat [of n k "2 ^ 32"] by simp
    with assms(2) True show ?thesis by (auto dest: dvd_imp_le)
  next
    case False
    then have "2 ^ 32 dvd n - k" using m mod_eq_dvd_iff_nat [of k n "2 ^ 32"] by simp
    with assms(3) False show ?thesis by (auto dest: dvd_imp_le)
  qed
qed

text \<open>
  Runs of the system around one connection. \<open>rd\<close> collects what its user has read. Besides segments
  for the connection and reads, anything else may happen that neither touches the receive buffer
  nor makes the connection established again.
\<close>

inductive tcp_trace :: "(net \<Rightarrow> net) \<Rightarrow> nat \<Rightarrow> (nat \<Rightarrow> u8) \<Rightarrow> u32 \<Rightarrow> net \<Rightarrow> u8 list \<Rightarrow> bool"
  for env idx str irs where
  opened: "idx < length (conns s) \<Longrightarrow> tc_state (conns s ! idx) = TCP_ESTABLISHED \<Longrightarrow> rx_ok (conns s ! idx) \<Longrightarrow>
    tc_rx_count (conns s ! idx) = 0 \<Longrightarrow> tc_rcv_nxt (conns s ! idx) = irs \<Longrightarrow> tcp_trace env idx str irs s []"
| segment: "tcp_trace env idx str irs s rd \<Longrightarrow>
    find_connection (sg_src_ip sg) (sg_src_port sg) (sg_dst_port sg) s = Some idx \<Longrightarrow>
    mac_known (tc_remote_ip (conns s ! idx)) s \<Longrightarrow> genuine str irs (length rd + tc_rx_count (conns s ! idx)) sg \<Longrightarrow>
    tcp_trace env idx str irs (tcp_segment env sg s) rd"
| read: "tcp_trace env idx str irs s rd \<Longrightarrow> tcp_recv idx len s = (Returns (r, bs), t) \<Longrightarrow>
    tcp_trace env idx str irs t (rd @ bs)"
| other: "tcp_trace env idx str irs s rd \<Longrightarrow> idx < length (conns t) \<Longrightarrow> rx_same (conns s ! idx) (conns t ! idx) \<Longrightarrow>
    data_state (tc_state (conns t ! idx)) \<Longrightarrow>
    (tc_state (conns t ! idx) = TCP_ESTABLISHED \<Longrightarrow> tc_state (conns s ! idx) = TCP_ESTABLISHED \<and>
       tc_rcv_nxt (conns t ! idx) = tc_rcv_nxt (conns s ! idx)) \<Longrightarrow> tcp_trace env idx str irs t rd"

definition stream_inv :: "nat \<Rightarrow> (nat \<Rightarrow> u8) \<Rightarrow> u32 \<Rightarrow> net \<Rightarrow> u8 list \<Rightarrow> bool" where
  "stream_inv idx str irs s rd \<longleftrightarrow>
     (let c = conns s ! idx; n = length rd + tc_rx_count c in
      idx < length (conns s) \<and> rx_ok c \<and> data_state (tc_state c) \<and> rd @ rx_pending c = map str [0..<n] \<and>
      (tc_state c = TCP_ESTABLISHED \<longrightarrow> tc_rcv_nxt c = irs + of_nat n))"

lemma tcp_recv_view:
  assumes "tcp_recv idx len s = (Returns (r, bs), t)" "rx_ok (conns s ! idx)" "idx < length (conns s)"
  shows "rx_ok (conns t ! idx) \<and> bs @ rx_pending (conns t ! idx) = rx_pending (conns s ! idx) \<and>
    length bs + tc_rx_count (conns t ! idx) = tc_rx_count (conns s ! idx) \<and>
    tc_state (conns t ! idx) = tc_state (conns s ! idx) \<and> tc_rcv_nxt (conns t ! idx) = tc_rcv_nxt (conns s ! idx) \<and>
    length (conns t) = length (conns s)"
proof (cases "tc_rx_count (conns s ! idx) = 0")
  case True
  then have "bs = [] \<and> t = s"
    using assms(1) by (auto simp: tcp_recv_def Let_def wait_on_def split: if_splits)
  with assms show ?thesis by simp
next
  case False
  define c where "c = conns s ! idx"
  define k where "k = (if len < tc_rx_count c then len else tc_rx_count c)"
  obtain cs rp where g: "ring_get (tc_rx_buf c) (tc_rx_read_pos c) k = (cs, rp)" by fastforce
  have t: "bs = cs" "t = upd_conn idx (\<lambda>c. c\<lparr>tc_rx_read_pos := rp, tc_rx_count := tc_rx_count c - k\<rparr>) s"
    using assms(1) False unfolding tcp_recv_def Let_def c_def [symmetric] k_def [symmetric] g by auto
  have k: "k \<le> tc_rx_count c" by (simp add: k_def)
  have ok: "ring_ok (tc_rx_buf c) (tc_rx_read_pos c) (tc_rx_write_pos c) (tc_rx_count c)" "length (tc_rx_buf c) = TCP_RX_BUF_SIZE"
    using assms(2) by (simp_all add: rx_ok_def c_def)
  note G = ring_get_spec [OF ok(1) k g]
  have d: "conns t ! idx = c\<lparr>tc_rx_read_pos := rp, tc_rx_count := tc_rx_count c - k\<rparr>"
    using assms(3) by (simp add: t(2) nth_upd_nth c_def)
  have "length cs = k" using G k by simp
  with G ok(2) k show ?thesis
    unfolding d c_def [symmetric] t(1) by (simp add: rx_ok_def rx_pending_def t(2))
qed

lemma stream_inv_segment:
  assumes inv: "stream_inv idx str irs s rd"
    and fc: "find_connection (sg_src_ip sg) (sg_src_port sg) (sg_dst_port sg) s = Some idx"
    and known: "mac_known (tc_remote_ip (conns s ! idx)) s"
    and gen: "genuine str irs (length rd + tc_rx_count (conns s ! idx)) sg"
  shows "stream_inv idx str irs (tcp_segment env sg s) rd"
proof -
  define c where "c = conns s ! idx"
  define n where "n = length rd + tc_rx_count c"
  define t where "t = tcp_segment env sg s"
  define d where "d = conns t ! idx"
  have I: "idx < length (conns s)" "rx_ok c" "data_state (tc_state c)" "rd @ rx_pending c = map str [0..<n]"
    "tc_state c = TCP_ESTABLISHED \<Longrightarrow> tc_rcv_nxt c = irs + of_nat n"
    using inv by (simp_all add: stream_inv_def Let_def c_def n_def)
  show ?thesis
  proof (cases "tc_state c = TCP_ESTABLISHED")
    case False
    from tcp_segment_view [OF fc I(1) c_def known [folded c_def] I(2,3) False d_def [unfolded t_def]]
    have V: "rx_same c d" "data_state (tc_state d)" "tc_state d \<noteq> TCP_ESTABLISHED" "length (conns t) = length (conns s)"
      by (simp_all add: t_def)
    then show ?thesis
      using I rx_same_facts [OF V(1)] unfolding stream_inv_def t_def [symmetric] d_def [symmetric] Let_def n_def
      by (simp add: rx_same_def)
  next
    case True
    have t: "t = rx_established env idx sg s" using fc True by (simp add: t_def tcp_segment_def c_def)
    define e where "e = (if sg_len sg > 0 \<and> sg_seq sg = tc_rcv_nxt c then rx_accept_data sg c else c)"
    note V = rx_established_view [OF I(1) c_def known [folded c_def] d_def [unfolded t] e_def I(2)]
    have len: "length (conns t) = length (conns s)" using V(5) by (simp add: t)
    obtain k where k: "rx_pending e = rx_pending c @ map str [n..<n + k]" "rx_ok e" "tc_rcv_nxt e = tc_rcv_nxt c + of_nat k"
    proof (cases "sg_len sg > 0 \<and> sg_seq sg = tc_rcv_nxt c")
      case acc: True
      obtain m where m: "m \<le> sg_len sg" "rx_pending e = rx_pending c @ map (sg_data sg) [0..<m]" "rx_ok e"
        "tc_rcv_nxt e = tc_rcv_nxt c + of_nat m"
        using accept_data [OF I(2), of sg] acc by (auto simp: e_def)
      from gen obtain p where p: "sg_seq sg = irs + of_nat p" "\<forall>i < sg_len sg. sg_data sg i = str (p + i)"
        "p < n + 2 ^ 31" "n < p + 2 ^ 31" by (auto simp: genuine_def n_def c_def)
      have "p = n" by (rule same_position) (use p acc I(5) True in simp_all)
      have "map (sg_data sg) [0..<m] = map str [n..<n + m]"
        by (rule nth_equalityI) (use p(2) m(1) \<open>p = n\<close> in auto)
      with m that [of m] show ?thesis by simp
    next
      case False
      have "e = c" unfolding e_def using False by (simp only: if_False)
      then show ?thesis using that [of 0] I(2) by simp
    qed
    have cnt: "tc_rx_count e = tc_rx_count c + k"
      using arg_cong [OF k(1), of length] by simp
    have "map str [0..<n] @ map str [n..<n + k] = map str [0..<n + k]"
      unfolding map_append [symmetric] by (subst upt_add_eq_append [of 0 n k]) simp_all
    then have pre: "rd @ rx_pending e = map str [0..<n + k]" unfolding k(1) append_assoc [symmetric] I(4) .
    have "tc_state d = TCP_ESTABLISHED \<Longrightarrow> tc_rcv_nxt d = irs + of_nat (n + k)"
      using V(2,3) k(3) I(5) True by (auto split: if_splits)
    moreover have "data_state (tc_state d)" using V(2) I(3) by (simp add: data_state_def)
    ultimately show ?thesis
      using I(1) len pre cnt k(2) rx_same_facts [OF V(1)] V(1)
      unfolding stream_inv_def t_def [symmetric] d_def [symmetric] Let_def n_def by (simp add: rx_same_def add.assoc)
  qed
qed

lemma tcp_trace_inv: "tcp_trace env idx str irs s rd \<Longrightarrow> stream_inv idx str irs s rd"
proof (induction rule: tcp_trace.induct)
  case (opened s)
  have "rx_pending (conns s ! idx) = []" using opened(4) by (simp add: rx_pending_def)
  with opened show ?case by (simp add: stream_inv_def Let_def data_state_def)
next
  case (segment s rd sg)
  then show ?case by (intro stream_inv_segment)
next
  case (read s rd len r bs t)
  then have I: "rx_ok (conns s ! idx)" "idx < length (conns s)" by (simp_all add: stream_inv_def Let_def)
  note V = tcp_recv_view [OF read(2) I]
  have e: "length (rd @ bs) + tc_rx_count (conns t ! idx) = length rd + tc_rx_count (conns s ! idx)" using V by simp
  show ?case using V read(3) unfolding stream_inv_def Let_def e by simp
next
  case (other s rd t)
  then show ?case using rx_same_facts [OF other(3)] by (simp add: stream_inv_def Let_def rx_same_def)
qed


text \<open>A machine with one established connection to the gateway, and a segment with five bytes for it.\<close>

definition demo_conn :: tcp_connection where
  "demo_conn = tcp_zero\<lparr>tc_state := TCP_ESTABLISHED, tc_local_ip := NET_IP, tc_local_port := 80,
     tc_remote_ip := NET_GATEWAY, tc_remote_port := 4000, tc_rcv_nxt := 0xFFFFFFFE, tc_in_use := True\<rparr>"

definition demo_net :: net where
  "demo_net = (net_static demo_sched nic_ready)\<lparr>conns := [demo_conn],
     arp_table := [\<lparr>ae_ip = NET_GATEWAY, ae_mac = [1, 2, 3, 4, 5, 6], ae_valid = True, ae_timestamp = 0\<rparr>]\<rparr>"

definition demo_segment :: segment where
  "demo_segment = \<lparr>sg_src_ip = NET_GATEWAY, sg_src_port = 4000, sg_dst_port = 80, sg_seq = 0xFFFFFFFE, sg_ack = 0,
     sg_flags = TCP_ACK, sg_data = (\<lambda>i. of_nat i + 65), sg_len = 5\<rparr>"

lemma demo_net_facts:
  "find_connection (sg_src_ip demo_segment) (sg_src_port demo_segment) (sg_dst_port demo_segment) demo_net = Some 0"
  "mac_known (tc_remote_ip (conns demo_net ! 0)) demo_net" "conns demo_net = [demo_conn]" "rx_ok demo_conn"
  "tc_rx_count demo_conn = 0" "tc_state demo_conn = TCP_ESTABLISHED" "tc_rcv_nxt demo_conn = 0xFFFFFFFE"
proof -
  show "conns demo_net = [demo_conn]" by (simp add: demo_net_def)
  then show "find_connection (sg_src_ip demo_segment) (sg_src_port demo_segment) (sg_dst_port demo_segment) demo_net = Some 0"
    by (simp add: find_connection_def demo_segment_def demo_conn_def)
  have "arp_table demo_net = [\<lparr>ae_ip = NET_GATEWAY, ae_mac = [1, 2, 3, 4, 5, 6], ae_valid = True, ae_timestamp = 0\<rparr>]"
    "our_gateway demo_net = NET_GATEWAY" by (simp_all add: demo_net_def net_static_def)
  then show "mac_known (tc_remote_ip (conns demo_net ! 0)) demo_net"
    by (simp add: mac_known_def next_hop_def arp_lookup_def demo_net_def demo_conn_def)
qed (simp_all add: demo_conn_def tcp_zero_def rx_ok_def ring_ok_def TCP_RX_BUF_SIZE_def)


text \<open>
  C35 (a FIN that overtakes data truncates the stream). An established connection accepts a FIN whatever
  its sequence number. If \<open>g\<close> bytes before the FIN are still missing, the connection goes to
  \<^verbatim>\<open>CLOSE_WAIT\<close> with end-of-file set and its buffer unchanged, and from then on every segment for it,
  in particular the missing bytes, is ignored: the reader sees a regular end of the stream.
\<close>

theorem tcp_fin_gap_truncates:
  assumes "idx < length (conns s)" "tc_state (conns s ! idx) = TCP_ESTABLISHED" "rx_ok (conns s ! idx)"
    and "mac_known (tc_remote_ip (conns s ! idx)) s"
    and "find_connection (sg_src_ip sg) (sg_src_port sg) (sg_dst_port sg) s = Some idx"
    and "sg_has sg TCP_FIN" "\<not> sg_has sg TCP_RST" "sg_seq sg = tc_rcv_nxt (conns s ! idx) + of_nat g" "0 < g" "g < 2 ^ 31"
    and t: "t = tcp_segment env sg s"
  shows "tc_state (conns t ! idx) = TCP_CLOSE_WAIT \<and> tc_eof (conns t ! idx) \<and>
    rx_pending (conns t ! idx) = rx_pending (conns s ! idx) \<and>
    (\<forall>sg'. find_connection (sg_src_ip sg') (sg_src_port sg') (sg_dst_port sg') t = Some idx \<longrightarrow>
       tcp_segment env sg' t = t)"
proof -
  have "(of_nat g :: u32) \<noteq> 0"
    using same_position [of g 0] assms(9,10) by auto
  then have ne: "\<not> (sg_len sg > 0 \<and> sg_seq sg = tc_rcv_nxt (conns s ! idx))" using assms(8) by simp
  have t': "t = rx_established env idx sg s" using assms(2,5) by (simp add: t tcp_segment_def)
  have e: "conns s ! idx = (if sg_len sg > 0 \<and> sg_seq sg = tc_rcv_nxt (conns s ! idx)
      then rx_accept_data sg (conns s ! idx) else conns s ! idx)" using ne by (simp only: if_False)
  note V = rx_established_view [OF assms(1) refl assms(4) refl e assms(3), of env, folded t']
  have st: "tc_state (conns t ! idx) = TCP_CLOSE_WAIT" using V(2) assms(6,7) by simp
  then show ?thesis
    using V(4) assms(6) rx_same_facts [OF V(1)] by (simp add: tcp_segment_def)
qed

theorem tcp_fin_gap_truncates_witness:
  "tc_state (conns (tcp_segment id (demo_segment\<lparr>sg_flags := TCP_FIN, sg_seq := 2, sg_len := 0\<rparr>) demo_net) ! 0) = TCP_CLOSE_WAIT"
proof -
  let ?sg = "demo_segment\<lparr>sg_flags := TCP_FIN, sg_seq := 2, sg_len := 0\<rparr>"
  have "find_connection (sg_src_ip ?sg) (sg_src_port ?sg) (sg_dst_port ?sg) demo_net = Some 0"
    using demo_net_facts(1) by simp
  moreover have "sg_has ?sg TCP_FIN" "\<not> sg_has ?sg TCP_RST" "sg_seq ?sg = tc_rcv_nxt (conns demo_net ! 0) + of_nat 4"
    by (simp_all add: has_flag_def TCP_FIN_def TCP_RST_def demo_net_facts)
  ultimately show ?thesis
    using tcp_fin_gap_truncates [of 0 demo_net ?sg 4, OF _ _ _ demo_net_facts(2)] by (simp add: demo_net_facts)
qed

end
