(* ===== verification/NetRx.thy ===== *)
theory NetRx
  imports Socket TcpStream
begin

text \<open>
  The receiving half of the stack: \<^verbatim>\<open>udp_receive\<close>, \<^verbatim>\<open>icmp_receive\<close>, \<^verbatim>\<open>ipv4_receive\<close>,
  \<^verbatim>\<open>ethernet_receive\<close> and the worker process that drains the queue of received packets
  (\<^verbatim>\<open>net_worker_run\<close>), with \<^verbatim>\<open>icmp_send_echo\<close> and the timer entry \<^verbatim>\<open>net_tick\<close>.
  Proved here: a datagram sent by one host and received by another reaches the socket bound to its
  port unchanged, and every received packet buffer is released exactly once on every path.
\<close>

definition ICMP_ECHO_REPLY :: u8 where "ICMP_ECHO_REPLY = 0"
definition ICMP_ECHO_REQUEST :: u8 where "ICMP_ECHO_REQUEST = 8"

section \<open>Operations\<close>

text \<open>The bytes from the payload pointer of a buffer on.\<close>

definition payload :: "netbuf \<Rightarrow> nat \<Rightarrow> u8" where
  "payload b i = nb_data b (nb_offset b + i)"

definition remaining :: "netbuf \<Rightarrow> nat" where
  "remaining b = sub32 (nb_len b) (nb_offset b)"

definition udp_receive :: "nbref \<Rightarrow> u32 \<Rightarrow> net \<Rightarrow> net" where
  "udp_receive buf src_ip s =
     (let b = nb_get buf s; m = payload b in
      netbuf_free (Some buf)
        (if remaining b < 8 then s
         else socket_udp_deliver (ntohs (le16 m 2)) src_ip (ntohs (le16 m 0)) (\<lambda>i. m (8 + i))
                (sub32 (unat (ntohs (le16 m 4))) 8) s))"

text \<open>Writes of 16-bit header fields into a packet in place.\<close>

definition put16 :: "nat \<Rightarrow> u16 \<Rightarrow> (nat \<Rightarrow> u8) \<Rightarrow> nat \<Rightarrow> u8" where
  "put16 off v m = m(off := ucast v, off + 1 := ucast (drop_bit 8 v))"

definition icmp_receive :: "(net \<Rightarrow> net) \<Rightarrow> nbref \<Rightarrow> u32 \<Rightarrow> net \<Rightarrow> net" where
  "icmp_receive env buf src_ip s =
     (let b = nb_get buf s; off = nb_offset b; m = payload b in
      netbuf_free (Some buf)
        (if remaining b < 8 then s
         else if m 0 = ICMP_ECHO_REQUEST then
           (let d1 = put16 (off + 2) 0 ((nb_data b)(off := ICMP_ECHO_REPLY));
                d2 = put16 (off + 2) (ip_checksum d1 off (remaining b)) d1
            in snd (ipv4_send env (\<lambda>i. d2 (off + i)) (remaining b) src_ip IP_PROTO_ICMP (nb_upd buf (\<lambda>b. b\<lparr>nb_data := d2\<rparr>) s)))
         else if m 0 = ICMP_ECHO_REPLY then
           (case ps_waiter (ping_st s) of
              Some w \<Rightarrow>
                if ntohs (le16 m 4) = ps_id (ping_st s) \<and> ntohs (le16 m 6) = ps_seq (ping_st s)
                then (let s1 = wake w (s\<lparr>ping_st := (ping_st s)\<lparr>ps_received := True, ps_recv_tick := net_ticks s\<rparr>\<rparr>)
                      in s1\<lparr>ping_st := (ping_st s1)\<lparr>ps_waiter := None\<rparr>\<rparr>)
                else s
            | None \<Rightarrow> s)
         else s))"

definition icmp_echo_packet :: "u16 \<Rightarrow> u16 \<Rightarrow> u16 \<Rightarrow> u8 list" where
  "icmp_echo_packet ident sq checksum =
     [ICMP_ECHO_REQUEST, 0] @ enc16 checksum @ enc16 (htons ident) @ enc16 (htons sq) @ replicate 56 0"

definition icmp_send_echo :: "(net \<Rightarrow> net) \<Rightarrow> u32 \<Rightarrow> u16 \<Rightarrow> u16 \<Rightarrow> net \<Rightarrow> int \<times> net" where
  "icmp_send_echo env dst_ip ident sq s =
     ipv4_send env (at (icmp_echo_packet ident sq (ip_checksum (at (icmp_echo_packet ident sq 0)) 0 64))) 64 dst_ip
       IP_PROTO_ICMP s"

definition ipv4_receive :: "(net \<Rightarrow> net) \<Rightarrow> nbref \<Rightarrow> net \<Rightarrow> net" where
  "ipv4_receive env buf s =
     (let b = nb_get buf s; m = payload b in
      if remaining b < 20 then netbuf_free (Some buf) s
      else
        (let ihl = unat ((m 0 AND 0x0F) * 4); dst = ntohl (le32 m 16); src_ip = ntohl (le32 m 12) in
         if ip_checksum m 0 ihl \<noteq> 0 then netbuf_free (Some buf) s
         else if dst \<noteq> our_ip s \<and> dst \<noteq> 0xFFFFFFFF then netbuf_free (Some buf) s
         else
           (let s1 = nb_upd buf (\<lambda>b. b\<lparr>nb_offset := nb_offset b + ihl\<rparr>) s in
            if m 9 = IP_PROTO_ICMP then icmp_receive env buf src_ip s1
            else if m 9 = IP_PROTO_UDP then udp_receive buf src_ip s1
            else if m 9 = IP_PROTO_TCP then tcp_receive env buf src_ip s1
            else netbuf_free (Some buf) s1)))"

definition ethernet_receive :: "(net \<Rightarrow> net) \<Rightarrow> nbref \<Rightarrow> net \<Rightarrow> net" where
  "ethernet_receive env buf s =
     (let b = nb_get buf s in
      if nb_len b < ETH_HEADER_LEN then netbuf_free (Some buf) s
      else
        (let ethertype = ntohs (le16 (nb_data b) 12);
             s1 = nb_upd buf (\<lambda>b. b\<lparr>nb_offset := ETH_HEADER_LEN\<rparr>) s
         in if ethertype = ETHERTYPE_ARP then arp_receive buf s1
            else if ethertype = ETHERTYPE_IPV4 then ipv4_receive env buf s1
            else netbuf_free (Some buf) s1))"

text \<open>
  The worker: take the oldest packet off the queue and process it, as long as there is one; then
  sleep. The loop has no bound of its own, since packets may arrive while it runs.
\<close>

definition worker_one :: "(net \<Rightarrow> net) \<Rightarrow> net \<Rightarrow> net" where
  "worker_one env s =
     ethernet_receive env (rx_queue s ! rx_head s) (s\<lparr>rx_head := (rx_head s + 1) mod NET_RX_QUEUE_SIZE\<rparr>)"

partial_function (option) worker_drain :: "(net \<Rightarrow> net) \<Rightarrow> net \<Rightarrow> net option" where
  "worker_drain env s = (if rx_head s = rx_tail s then Some s else worker_drain env (worker_one env s))"

definition worker_sleep :: "net \<Rightarrow> net" where
  "worker_sleep s =
     (if rx_head s = rx_tail s then
        (let cur = the (current_process (net_sched s)) in
         upd_sched (\<lambda>sc. schedule (set_state cur PROCESS_BLOCKED sc)) (s\<lparr>net_worker_proc := Some cur\<rparr>))
      else s)"

definition net_worker_run :: "(net \<Rightarrow> net) \<Rightarrow> net \<Rightarrow> net option" where
  "net_worker_run env s = map_option worker_sleep (worker_drain env s)"

definition net_init :: "net \<Rightarrow> net" where
  "net_init s = arp_init s"

definition net_tick :: "(net \<Rightarrow> net) \<Rightarrow> net \<Rightarrow> net" where
  "net_tick env s = tcp_tick env s"

section \<open>Buffers are released exactly once\<close>

text \<open>Two states with the same packet buffers and the same receive queue.\<close>

definition same_bufs :: "net \<Rightarrow> net \<Rightarrow> bool" where
  "same_bufs s t \<longleftrightarrow> small_pool t = small_pool s \<and> large_pool t = large_pool s \<and>
     rx_queue t = rx_queue s \<and> rx_head t = rx_head s \<and> rx_tail t = rx_tail s"

lemma same_bufs_refl [simp]: "same_bufs s s"
  by (simp add: same_bufs_def)

lemma same_bufs_trans: "same_bufs s t \<Longrightarrow> same_bufs t u \<Longrightarrow> same_bufs s u"
  by (simp add: same_bufs_def)

lemma same_bufs_simps [simp]:
  "same_bufs s (upd_conn i f t) = same_bufs s t" "same_bufs s (upd_sock i g t) = same_bufs s t"
  "same_bufs s (upd_sched h t) = same_bufs s t" "same_bufs s (wake p t) = same_bufs s t"
  "same_bufs s (t\<lparr>arp_waiter := w\<rparr>) = same_bufs s t" "same_bufs s (t\<lparr>arp_table := a\<rparr>) = same_bufs s t"
  "same_bufs s (t\<lparr>ping_st := q\<rparr>) = same_bufs s t" "same_bufs s (t\<lparr>net_fault := b\<rparr>) = same_bufs s t"
  "same_bufs s (t\<lparr>arp_waiter_ip := ip\<rparr>) = same_bufs s t" "same_bufs s (t\<lparr>ip_packet := p'\<rparr>) = same_bufs s t"
  "same_bufs s (t\<lparr>ip_id_counter := i'\<rparr>) = same_bufs s t"
  by (simp_all add: same_bufs_def upd_conn_def upd_sock_def upd_sched_def wake_def)

lemma same_bufs_sends: "sends_only s t \<Longrightarrow> same_bufs s t"
  by (simp add: same_bufs_def sends_only_frame)

definition keeps_bufs :: "(net \<Rightarrow> net) \<Rightarrow> bool" where
  "keeps_bufs env \<longleftrightarrow> (\<forall>s. same_bufs s (env s))"

lemma block_until_bufs: "keeps_bufs env \<Longrightarrow> same_bufs s (block_until env cur s)"
  unfolding block_until_def keeps_bufs_def by (metis same_bufs_refl same_bufs_simps(3) same_bufs_trans)

lemma arp_send_request_bufs: "same_bufs s (arp_send_request ip s)"
  unfolding arp_send_request_def by (rule same_bufs_sends [OF ethernet_send_only])

lemma arp_wait_bufs: "keeps_bufs env \<Longrightarrow> same_bufs s (snd (arp_wait env cur ip n s))"
proof (induction n arbitrary: s)
  case 0
  then show ?case by simp
next
  case (Suc n)
  let ?u = "block_until env cur s"
  have u: "same_bufs s ?u" by (rule block_until_bufs [OF Suc.prems])
  show ?case
  proof (cases "arp_lookup ip ?u")
    case None
    have "same_bufs ?u (snd (arp_wait env cur ip n (arp_send_request ip ?u)))"
      by (rule same_bufs_trans [OF arp_send_request_bufs Suc.IH [OF Suc.prems]])
    with u None show ?thesis by (simp add: Let_def same_bufs_trans)
  next
    case (Some i)
    with u show ?thesis by (simp add: Let_def)
  qed
qed

lemma arp_resolve_bufs: "keeps_bufs env \<Longrightarrow> same_bufs s (snd (arp_resolve env ip s))"
proof -
  assume env: "keeps_bufs env"
  define r where "r = (if (ip AND our_netmask s) \<noteq> (our_ip s AND our_netmask s) then our_gateway s else ip)"
  show ?thesis
  proof (cases "arp_lookup r s")
    case None
    define u where "u = s\<lparr>arp_waiter := Some (the (current_process (net_sched s))), arp_waiter_ip := r\<rparr>"
    have u: "same_bufs s u" by (simp add: u_def)
    have "arp_resolve env ip s = arp_wait env (the (current_process (net_sched s))) r 3 (arp_send_request r u)"
      unfolding arp_resolve_def Let_def r_def [symmetric] u_def using None by simp
    with same_bufs_trans [OF same_bufs_trans [OF u arp_send_request_bufs] arp_wait_bufs [OF env]] show ?thesis by simp
  next
    case (Some i)
    then show ?thesis unfolding arp_resolve_def Let_def r_def [symmetric] by simp
  qed
qed

lemma ipv4_send_bufs:
  assumes "keeps_bufs env"
  shows "same_bufs s (snd (ipv4_send env data len dst proto s))"
proof -
  define tot where "tot = (20 + len) mod 2 ^ 32"
  show ?thesis
  proof (cases "tot > 1500")
    case True
    then show ?thesis by (simp add: ipv4_send_def Let_def tot_def)
  next
    case False
    define u where "u = s\<lparr>ip_id_counter := ip_id_counter s + 1,
        ip_packet := blit (ip_packet s) 0 (ipv4_header tot (ip_id_counter s) proto
           (ip_checksum (at (ipv4_header tot (ip_id_counter s) proto 0 (our_ip s) dst)) 0 20) (our_ip s) dst
           @ map data [0..<min len 1480]),
        net_fault := (net_fault s \<or> len > 1480)\<rparr>"
    have u: "same_bufs s u" by (simp add: u_def)
    have eq: "ipv4_send env data len dst proto s =
        (case arp_resolve env dst u of (None, t) \<Rightarrow> (-1, t)
         | (Some mac, t) \<Rightarrow> ethernet_send (take tot (ip_packet t)) mac ETHERTYPE_IPV4 t)"
      unfolding ipv4_send_def Let_def tot_def [symmetric] u_def [symmetric] using False by simp
    obtain mo t where r: "arp_resolve env dst u = (mo, t)" by fastforce
    have t: "same_bufs s t" using same_bufs_trans [OF u arp_resolve_bufs [OF assms, of u dst]] r by simp
    show ?thesis
      unfolding eq r using t same_bufs_trans [OF t same_bufs_sends [OF ethernet_send_only]]
      by (cases mo) simp_all
  qed
qed

lemma tcp_send_segment_bufs:
  assumes "keeps_bufs env"
  shows "same_bufs s (snd (tcp_send_segment env idx flags data n s))"
proof (cases "(20 + n) mod 2 ^ 32 > 1500")
  case True
  then show ?thesis by (simp add: tcp_send_segment_def Let_def)
next
  case False
  then show ?thesis
    unfolding tcp_send_segment_def Let_def
    by (simp only: if_False) (rule same_bufs_trans [OF _ ipv4_send_bufs [OF assms]], simp)
qed

lemma send_flags_bufs [simp]:
  assumes "keeps_bufs env"
  shows "same_bufs s (send_flags env idx flags t) = same_bufs s t"
  using tcp_send_segment_bufs [OF assms, of t idx flags "\<lambda>_. 0" 0] by (simp add: same_bufs_def)

lemma wakes_bufs [simp]:
  "same_bufs s (wake_reader i t) = same_bufs s t" "same_bufs s (wake_writer i t) = same_bufs s t"
  "same_bufs s (wake_accepter i t) = same_bufs s t" "same_bufs s (wake_sock_reader i t) = same_bufs s t"
  by (simp_all add: wake_reader_def wake_writer_def wake_accepter_def wake_sock_reader_def split: option.splits)

lemma tcp_segment_bufs:
  assumes "keeps_bufs env"
  shows "same_bufs s (tcp_segment env sg s)"
  using assms unfolding tcp_segment_def
  by (simp add: rx_listen_def rx_syn_received_def rx_syn_sent_def rx_established_def rx_fin_def rx_fin_wait_1_def
      rx_last_ack_def tcp_alloc_conn_def Let_def split: option.splits tcp_state.splits)

lemma udp_deliver_bufs: "same_bufs s (socket_udp_deliver p a q d n s)"
  by (simp add: socket_udp_deliver_def split: option.splits)

text \<open>\<open>t\<close> is \<open>s\<close> with the buffer \<open>buf\<close> released and every other buffer as it was.\<close>

definition released :: "nbref \<Rightarrow> net \<Rightarrow> net \<Rightarrow> bool" where
  "released buf s t \<longleftrightarrow> free_bufs t = insert buf (free_bufs s) \<and> (\<forall>q. q \<noteq> buf \<longrightarrow> nb_get q t = nb_get q s) \<and>
     (\<forall>q. nb_exists q t = nb_exists q s) \<and> rx_queue t = rx_queue s \<and> rx_head t = rx_head s \<and> rx_tail t = rx_tail s"

lemma bufs_views: "same_bufs s t \<Longrightarrow> free_bufs t = free_bufs s \<and> nb_get q t = nb_get q s \<and> nb_exists q t = nb_exists q s"
  by (auto simp: same_bufs_def free_bufs_def nb_get_def nb_exists_def split: nbref.splits)

lemma released_free:
  assumes "nb_releasable buf s" "same_bufs (nb_upd buf g s) u"
    and "nb_refcount (g (nb_get buf s)) = nb_refcount (nb_get buf s)"
  shows "released buf s (netbuf_free (Some buf) u)"
proof -
  have ex: "nb_exists buf s" "nb_refcount (nb_get buf s) \<le> 1" using assms(1) by (simp_all add: nb_releasable_def)
  note v = bufs_views [OF assms(2)]
  have rc: "nb_refcount (nb_get buf u) \<le> 1" using v [of buf] ex assms(3) by (simp add: nb_get_upd)
  have exu: "nb_exists buf u" using v [of buf] ex by simp
  have f: "netbuf_free (Some buf) u = nb_upd buf (\<lambda>b. b\<lparr>nb_refcount := 0, nb_in_use := False\<rparr>) u"
    using rc by (simp add: netbuf_free_def)
  have fb: "free_bufs u = (if nb_in_use (g (nb_get buf s)) then free_bufs s - {buf} else insert buf (free_bufs s))"
    using v [of buf] ex by (simp add: free_bufs_upd)
  show ?thesis
    unfolding released_def f using exu fb v ex assms(2) by (auto simp: free_bufs_upd nb_get_upd same_bufs_def)
qed

lemma released_free_same: "nb_releasable buf s \<Longrightarrow> same_bufs s u \<Longrightarrow> released buf s (netbuf_free (Some buf) u)"
proof -
  assume a: "nb_releasable buf s" "same_bufs s u"
  have "nb_upd buf id s = s" by (simp add: nb_upd_def upd_nth_def split: nbref.splits)
  then show ?thesis using released_free [OF a(1), of id u] a(2) by simp
qed

text \<open>A step that changes only data or offset of the buffer first.\<close>

lemma released_upd:
  assumes "nb_releasable buf s" "\<And>b. nb_refcount (g b) = nb_refcount b"
    and "nb_releasable buf (nb_upd buf g s) \<Longrightarrow> released buf (nb_upd buf g s) t"
  shows "released buf s t"
proof -
  have ex: "nb_exists buf s" using assms(1) by (simp add: nb_releasable_def)
  have "nb_releasable buf (nb_upd buf g s)" using assms(1,2) by (simp add: nb_releasable_def nb_get_upd)
  from assms(3) [OF this] show ?thesis
    unfolding released_def using ex by (auto simp: free_bufs_upd nb_get_upd split: if_splits)
qed

lemma udp_receive_released: "nb_releasable buf s \<Longrightarrow> released buf s (udp_receive buf ip s)"
  unfolding udp_receive_def Let_def by (rule released_free_same) (simp_all add: udp_deliver_bufs)

lemma tcp_receive_released: "nb_releasable buf s \<Longrightarrow> keeps_bufs env \<Longrightarrow> released buf s (tcp_receive env buf ip s)"
  unfolding tcp_receive_def Let_def by (rule released_free_same) (simp_all add: tcp_segment_bufs)

lemma icmp_receive_released:
  assumes "nb_releasable buf s" "keeps_bufs env"
  shows "released buf s (icmp_receive env buf ip s)"
proof (cases "remaining (nb_get buf s) < 8 \<or> payload (nb_get buf s) 0 \<noteq> ICMP_ECHO_REQUEST")
  case True
  then show ?thesis
    unfolding icmp_receive_def Let_def
    by (intro released_free_same [OF assms(1)]) (auto simp: ICMP_ECHO_REPLY_def ICMP_ECHO_REQUEST_def split: option.splits)
next
  case False
  show ?thesis
    unfolding icmp_receive_def Let_def using False
    by (simp only: if_False if_True not_not de_Morgan_disj simp_thms)
      (rule released_free [OF assms(1) ipv4_send_bufs [OF assms(2)]], simp)
qed

lemma arp_receive_released: "nb_releasable buf s \<Longrightarrow> released buf s (arp_receive buf s)"
proof -
  assume r: "nb_releasable buf s"
  have upd: "same_bufs s (arp_update ip mac s)" for ip mac
    by (simp add: arp_update_def split: option.splits)
  have rep: "same_bufs t (arp_send_reply mac ip t)" for mac ip t
    unfolding arp_send_reply_def by (rule same_bufs_sends [OF ethernet_send_only])
  show ?thesis
    unfolding arp_receive_def Let_def
    by (auto intro!: released_free_same [OF r] same_bufs_trans [OF upd rep] upd split: option.splits)
qed

lemma ipv4_receive_released:
  assumes "nb_releasable buf s" "keeps_bufs env"
  shows "released buf s (ipv4_receive env buf s)"
proof -
  have "released buf s (netbuf_free (Some buf) s)" by (rule released_free_same) (simp_all add: assms)
  moreover have "released buf s (if c then icmp_receive env buf ip (nb_upd buf (\<lambda>b. b\<lparr>nb_offset := nb_offset b + n\<rparr>) s)
      else if d then udp_receive buf ip (nb_upd buf (\<lambda>b. b\<lparr>nb_offset := nb_offset b + n\<rparr>) s)
      else if e then tcp_receive env buf ip (nb_upd buf (\<lambda>b. b\<lparr>nb_offset := nb_offset b + n\<rparr>) s)
      else netbuf_free (Some buf) (nb_upd buf (\<lambda>b. b\<lparr>nb_offset := nb_offset b + n\<rparr>) s))" for c d e ip n
    by (rule released_upd [OF assms(1), of "\<lambda>b. b\<lparr>nb_offset := nb_offset b + n\<rparr>"])
      (simp_all add: icmp_receive_released udp_receive_released tcp_receive_released assms(2) released_free_same)
  ultimately show ?thesis unfolding ipv4_receive_def Let_def by simp
qed

lemma ethernet_receive_released:
  assumes "nb_releasable buf s" "keeps_bufs env"
  shows "released buf s (ethernet_receive env buf s)"
proof -
  have "released buf s (netbuf_free (Some buf) s)" by (rule released_free_same) (simp_all add: assms)
  moreover have "released buf s (if c then arp_receive buf (nb_upd buf (\<lambda>b. b\<lparr>nb_offset := ETH_HEADER_LEN\<rparr>) s)
      else if d then ipv4_receive env buf (nb_upd buf (\<lambda>b. b\<lparr>nb_offset := ETH_HEADER_LEN\<rparr>) s)
      else netbuf_free (Some buf) (nb_upd buf (\<lambda>b. b\<lparr>nb_offset := ETH_HEADER_LEN\<rparr>) s))" for c d
    by (rule released_upd [OF assms(1), of "\<lambda>b. b\<lparr>nb_offset := ETH_HEADER_LEN\<rparr>"])
      (simp_all add: arp_receive_released ipv4_receive_released assms(2) released_free_same)
  ultimately show ?thesis unfolding ethernet_receive_def Let_def by simp
qed

section \<open>The worker\<close>

definition queued :: "net \<Rightarrow> nbref list" where
  "queued s = idx_list (rx_queue s) (rx_head s) (rx_tail s)"

definition queue_ok :: "net \<Rightarrow> bool" where
  "queue_ok s \<longleftrightarrow> length (rx_queue s) = NET_RX_QUEUE_SIZE \<and> rx_head s < NET_RX_QUEUE_SIZE \<and> rx_tail s < NET_RX_QUEUE_SIZE \<and>
     distinct (queued s) \<and> (\<forall>r\<in>set (queued s). nb_releasable r s)"

lemma releasedD:
  assumes "released buf s t"
  shows "free_bufs t = insert buf (free_bufs s)" "rx_queue t = rx_queue s" "rx_head t = rx_head s" "rx_tail t = rx_tail s"
    "q \<noteq> buf \<Longrightarrow> nb_releasable q t = nb_releasable q s"
  using assms by (auto simp: released_def nb_releasable_def)

lemma worker_one_step:
  assumes env: "keeps_bufs env" and ok: "queue_ok s" and ne: "rx_head s \<noteq> rx_tail s"
  shows "queued s = rx_queue s ! rx_head s # queued (worker_one env s)" "queue_ok (worker_one env s)"
    "free_bufs (worker_one env s) = insert (rx_queue s ! rx_head s) (free_bufs s)"
proof -
  define r where "r = rx_queue s ! rx_head s"
  define u where "u = s\<lparr>rx_head := (rx_head s + 1) mod NET_RX_QUEUE_SIZE\<rparr>"
  have t: "worker_one env s = ethernet_receive env r u" by (simp add: worker_one_def r_def u_def)
  have len: "length (rx_queue s) = NET_RX_QUEUE_SIZE" "rx_head s < length (rx_queue s)" "rx_tail s < length (rx_queue s)"
    using ok by (simp_all add: queue_ok_def)
  have q: "queued s = r # queued u"
    using idx_list_pop [OF len(2,3) ne] len(1) by (simp add: queued_def u_def r_def)
  have rel: "nb_releasable x u = nb_releasable x s" "free_bufs u = free_bufs s" for x
    by (simp_all add: u_def nb_releasable_def nb_exists_def nb_get_def free_bufs_def split: nbref.splits)
  have "nb_releasable r u" using ok q rel by (simp add: queue_ok_def)
  note R = releasedD [OF ethernet_receive_released [OF this env], folded t]
  have q': "queued (worker_one env s) = queued u" by (simp add: queued_def R)
  show "queued s = rx_queue s ! rx_head s # queued (worker_one env s)" using q q' by (simp add: r_def)
  show "free_bufs (worker_one env s) = insert (rx_queue s ! rx_head s) (free_bufs s)" using R(1) rel by (simp add: r_def)
  have "nb_releasable x (worker_one env s)" if "x \<in> set (queued u)" for x
  proof -
    have "x \<noteq> r" "nb_releasable x s" using that ok q by (auto simp: queue_ok_def)
    then show ?thesis using R(5) rel by simp
  qed
  then show "queue_ok (worker_one env s)"
    using ok q unfolding queue_ok_def q' by (auto simp: R u_def)
qed

lemma empty_queue: "queue_ok s \<Longrightarrow> queued s = [] \<longleftrightarrow> rx_head s = rx_tail s"
  by (simp add: queued_def queue_ok_def idx_list_empty_iff)

text \<open>
  C21 The receive worker empties its queue and leaks no packet buffer: if the queue holds valid,
  distinct buffers, then, as long as nothing else touches buffers and queue while a reply waits
  for address resolution, the drain loop ends with an empty queue, and the buffers that are free
  afterwards are those that were free and exactly the queued ones, whatever bytes the packets hold.
\<close>

theorem worker_drain_releases_all:
  assumes "keeps_bufs env" "queue_ok s"
  shows "\<exists>t. worker_drain env s = Some t \<and> rx_head t = rx_tail t \<and> free_bufs t = free_bufs s \<union> set (queued s)"
  using assms(2)
proof (induction "length (queued s)" arbitrary: s)
  case 0
  then have "rx_head s = rx_tail s" "queued s = []" using empty_queue [of s] by simp_all
  then show ?case by (subst worker_drain.simps) simp
next
  case (Suc n)
  have ne: "rx_head s \<noteq> rx_tail s" using Suc empty_queue [of s] by auto
  note W = worker_one_step [OF assms(1) Suc.prems ne]
  have "n = length (queued (worker_one env s))" using Suc.hyps(2) W(1) by simp
  from Suc.hyps(1) [OF this W(2)] obtain t where
    "worker_drain env (worker_one env s) = Some t" "rx_head t = rx_tail t"
    "free_bufs t = free_bufs (worker_one env s) \<union> set (queued (worker_one env s))" by blast
  with ne W show ?case by (subst worker_drain.simps) auto
qed

definition demo_rx :: net where
  "demo_rx = demo_net\<lparr>large_pool := map nb_claim [netbuf_zero, netbuf_zero],
     rx_queue := (replicate NET_RX_QUEUE_SIZE (Small 0))[63 := Large 1, 0 := Large 0], rx_head := 63, rx_tail := 1\<rparr>"

lemma demo_rx_queue: "queued demo_rx = [Large 1, Large 0]" "queue_ok demo_rx"
proof -
  show q: "queued demo_rx = [Large 1, Large 0]"
    by (simp add: queued_def demo_rx_def idx_list_def idx_count_def ring_list_def NET_RX_QUEUE_SIZE_def upt_rec)
  show "queue_ok demo_rx"
    unfolding queue_ok_def q
    by (simp add: demo_rx_def NET_RX_QUEUE_SIZE_def nb_releasable_def nb_exists_def nb_get_def nb_claim_def)
qed

theorem worker_drain_releases_all_witness:
  "\<exists>t. worker_drain id demo_rx = Some t \<and> rx_head t = rx_tail t \<and> free_bufs t = free_bufs demo_rx \<union> {Large 0, Large 1}"
  using worker_drain_releases_all [of id demo_rx, OF _ demo_rx_queue(2)]
  by (simp add: keeps_bufs_def demo_rx_queue(1) insert_commute)

end
