(* ===== verification/NetUdp.thy ===== *)
theory NetUdp
  imports NetRx
begin

text \<open>
  From one host to the other: the frame \<^verbatim>\<open>udp_send\<close> hands to the card of the sender, received by
  \<^verbatim>\<open>ethernet_receive\<close> of another machine, appends the sender's data with its address and port to the
  queue of the bound socket, and \<^verbatim>\<open>socket_recv\<close> takes the queue's packets in order. The headers built
  on one side are parsed on the other, the header checksum verifies.
\<close>

section \<open>The frame that is sent\<close>

definition udp_packet :: "u16 \<Rightarrow> u16 \<Rightarrow> (nat \<Rightarrow> u8) \<Rightarrow> nat \<Rightarrow> u8 list" where
  "udp_packet sport dport data len = udp_header sport dport (8 + len) @ map data [0..<len]"

definition route_mac :: "u32 \<Rightarrow> net \<Rightarrow> u8 list" where
  "route_mac ip s = ae_mac (arp_table s ! the (arp_lookup (next_hop ip s) s))"

lemma route_frame [simp]:
  "mac_known ip (s\<lparr>ip_id_counter := i\<rparr>) = mac_known ip s" "mac_known ip (s\<lparr>ip_packet := p\<rparr>) = mac_known ip s"
  "mac_known ip (s\<lparr>net_fault := b\<rparr>) = mac_known ip s"
  unfolding mac_known_def next_hop_def arp_lookup_def by simp_all

lemma length_udp_header [simp]: "length (udp_header a b n) = 8"
  by (simp add: udp_header_def)

lemma length_ip_datagram [simp]: "length (ip_datagram s data len dst proto) = 20 + len"
  by (simp add: ip_datagram_def Let_def)

lemma ipv4_send_known:
  assumes known: "mac_known dst s" and len: "len \<le> 1480" and buf: "length (ip_packet s) = 1500"
  shows "ipv4_send env data len dst proto s = ethernet_send (ip_datagram s data len dst proto) (route_mac dst s) ETHERTYPE_IPV4
    (s\<lparr>ip_id_counter := ip_id_counter s + 1, ip_packet := blit (ip_packet s) 0 (ip_datagram s data len dst proto),
       net_fault := (net_fault s \<or> len > 1480)\<rparr>)"
proof -
  define D where "D = ip_datagram s data len dst proto"
  define u where "u = s\<lparr>ip_id_counter := ip_id_counter s + 1, ip_packet := blit (ip_packet s) 0 D,
      net_fault := (net_fault s \<or> len > 1480)\<rparr>"
  have tot: "(20 + len) mod 2 ^ 32 = 20 + len" using len by (intro mod_less) simp
  have ku: "mac_known dst u" using known by (simp add: u_def)
  have mac: "arp_resolve env dst u = (Some (route_mac dst s), u)"
    unfolding arp_resolve_known [OF ku] by (simp add: route_mac_def u_def next_hop_def arp_lookup_def)
  have pk: "take (20 + len) (ip_packet u) = D"
  proof -
    have "length D = 20 + len" by (simp add: D_def)
    then show ?thesis by (simp add: u_def blit_def)
  qed
  show ?thesis
    unfolding ipv4_send_def tot using len mac pk
    by (simp add: Let_def u_def D_def ip_datagram_def min_def)
qed

lemma ipv4_send_frame:
  assumes "mac_known dst s" "len \<le> 1480" "length (ip_packet s) = 1500" "ipv4_send env data len dst proto s = (0, t)"
  shows "nic_tx_log (the_nic t) = nic_tx_log (the_nic s) @
     [eth_header (route_mac dst s) (nic_mac (the_nic s)) ETHERTYPE_IPV4 @ ip_datagram s data len dst proto]"
  using assms(4) unfolding ipv4_send_known [OF assms(1-3)]
  by (auto simp: ethernet_send_def e1000_send_packet_def Let_def split: if_splits)

lemma udp_send_frame:
  assumes "mac_known dst s" "len \<le> 1472" "length (ip_packet s) = 1500"
    and "udp_send env dst sport dport data len s = (0, t)"
  shows "nic_tx_log (the_nic t) = nic_tx_log (the_nic s) @
     [eth_header (route_mac dst s) (nic_mac (the_nic s)) ETHERTYPE_IPV4 @
      ip_datagram s (at (udp_packet sport dport data len)) (8 + len) dst IP_PROTO_UDP]"
proof -
  define u where "u = s\<lparr>net_fault := (net_fault s \<or> len > 1472)\<rparr>"
  have tot: "(8 + len) mod 2 ^ 32 = 8 + len" using assms(2) by (intro mod_less) simp
  have "udp_send env dst sport dport data len s =
      ipv4_send env (at (udp_packet sport dport data len)) (8 + len) dst IP_PROTO_UDP u"
    unfolding udp_send_def tot using assms(2) by (simp add: Let_def udp_packet_def min_def u_def)
  with assms(4) have send: "ipv4_send env (at (udp_packet sport dport data len)) (8 + len) dst IP_PROTO_UDP u = (0, t)" by simp
  have k: "mac_known dst u" using assms(1) by (simp add: u_def)
  have "route_mac dst u = route_mac dst s" "ip_datagram u d n dst p = ip_datagram s d n dst p" for d n p
    by (simp_all add: u_def route_mac_def next_hop_def arp_lookup_def ip_datagram_def)
  then show ?thesis using ipv4_send_frame [OF k _ _ send] assms(2,3) by (simp add: u_def)
qed

section \<open>The fields of the headers\<close>

lemma le16_cong: "m a = m' a \<Longrightarrow> m (a + 1) = m' (a + 1) \<Longrightarrow> le16 m a = le16 m' a"
  by (simp add: le16_def)

lemma le32_cong:
  "m a = m' a \<Longrightarrow> m (a + 1) = m' (a + 1) \<Longrightarrow> m (a + 2) = m' (a + 2) \<Longrightarrow> m (a + 3) = m' (a + 3) \<Longrightarrow> le32 m a = le32 m' a"
  by (simp add: le32_def)

lemma ipv4_header_fields:
  fixes n ident proto c src dst ys
  defines "h \<equiv> at (ipv4_header n ident proto c src dst @ ys)"
  shows "h 0 = 0x45" "h 9 = proto" "le16 h 10 = c" "le32 h 12 = htonl src" "le32 h 16 = htonl dst"
proof -
  let ?a = "[0x45, 0] @ enc16 (htons (of_nat n)) @ enc16 (htons ident) @ enc16 (htons 0x4000) @ [64, proto]"
  show "h 0 = 0x45" "h 9 = proto" by (simp_all add: h_def ipv4_header_def at_def enc16_def)
  show "le16 h 10 = c" using le16_enc [of ?a 10 c "enc32 (htonl src) @ enc32 (htonl dst) @ ys"]
    by (simp add: h_def ipv4_header_def)
  show "le32 h 12 = htonl src" using le32_enc [of "?a @ enc16 c" 12 "htonl src" "enc32 (htonl dst) @ ys"]
    by (simp add: h_def ipv4_header_def)
  show "le32 h 16 = htonl dst" using le32_enc [of "?a @ enc16 c @ enc32 (htonl src)" 16 "htonl dst" ys]
    by (simp add: h_def ipv4_header_def)
qed

lemma ipv4_header_other_bytes:
  assumes "i < 20" "i \<noteq> 10" "i \<noteq> 11"
  shows "ipv4_header n ident proto c src dst ! i = ipv4_header n ident proto c' src dst ! i"
proof -
  have "i < 10 \<or> (12 \<le> i \<and> i < 20)" using assms by linarith
  then show ?thesis by (auto simp: ipv4_header_def enc16_def nth_append nth_Cons')
qed

lemma udp_header_fields:
  fixes sport dport n ys
  defines "h \<equiv> at (udp_header sport dport n @ ys)"
  shows "le16 h 0 = htons sport" "le16 h 2 = htons dport" "le16 h 4 = htons (of_nat n)"
proof -
  show "le16 h 0 = htons sport"
    using le16_enc [of "[]" 0 "htons sport" "enc16 (htons dport) @ enc16 (htons (of_nat n)) @ enc16 0 @ ys"]
    by (simp add: h_def udp_header_def)
  show "le16 h 2 = htons dport"
    using le16_enc [of "enc16 (htons sport)" 2 "htons dport" "enc16 (htons (of_nat n)) @ enc16 0 @ ys"]
    by (simp add: h_def udp_header_def)
  show "le16 h 4 = htons (of_nat n)"
    using le16_enc [of "enc16 (htons sport) @ enc16 (htons dport)" 4 "htons (of_nat n)" "enc16 0 @ ys"]
    by (simp add: h_def udp_header_def)
qed

section \<open>Receiving the frame\<close>

text \<open>
  A buffer that holds the frame at its start, possibly followed by padding (a card pads short
  frames to 60 bytes).
\<close>

definition holds_frame :: "nbref \<Rightarrow> u8 list \<Rightarrow> net \<Rightarrow> bool" where
  "holds_frame buf f s \<longleftrightarrow> nb_exists buf s \<and> length f \<le> nb_len (nb_get buf s) \<and> nb_len (nb_get buf s) < 2 ^ 32 \<and>
     (\<forall>i < length f. nb_data (nb_get buf s) i = f ! i)"

lemma nb_upd_upd: "nb_upd r f (nb_upd r g s) = nb_upd r (\<lambda>b. f (g b)) s"
proof -
  have "upd_nth i f (upd_nth i g xs) = upd_nth i (\<lambda>b. f (g b)) xs" for i xs
    by (cases "i < length xs") (simp_all add: upd_nth_def list_update_beyond)
  then show ?thesis by (simp add: nb_upd_def split: nbref.splits)
qed

lemma udp_receive_packet:
  assumes ex: "nb_exists buf s" and len: "len \<le> 1472" "off + 8 + len \<le> nb_len (nb_get buf s)" "nb_len (nb_get buf s) < 2 ^ 32"
    and off: "nb_offset (nb_get buf s) = off"
    and bytes: "\<And>i. i < 8 + len \<Longrightarrow> nb_data (nb_get buf s) (off + i) = udp_packet sport dport data len ! i"
  shows "\<exists>d. udp_receive buf ip s = netbuf_free (Some buf) (socket_udp_deliver dport ip sport d len s) \<and> (\<forall>i<len. d i = data i)"
proof (intro exI conjI allI impI)
  let ?m = "payload (nb_get buf s)" and ?d = "\<lambda>i. payload (nb_get buf s) (8 + i)"
  have m: "?m i = at (udp_packet sport dport data len) i" if "i < 8 + len" for i
    using bytes [OF that] by (simp add: payload_def off at_def)
  note F = udp_header_fields [of sport dport "8 + len" "map data [0..<len]", folded udp_packet_def]
  have f: "le16 ?m 0 = htons sport" "le16 ?m 2 = htons dport" "le16 ?m 4 = htons (of_nat (8 + len))"
    by (subst le16_cong [of _ _ "at (udp_packet sport dport data len)"]; simp add: m F)+
  have n: "unat (of_nat (8 + len) :: u16) = 8 + len" using len(1) by (simp add: unat_of_nat take_bit_nat_eq_self del: of_nat_add)
  have "\<not> remaining (nb_get buf s) < 8" using len off by (simp add: remaining_def sub32_eq)
  then show "udp_receive buf ip s = netbuf_free (Some buf) (socket_udp_deliver dport ip sport ?d len s)"
    unfolding udp_receive_def Let_def f ntohs_htons n using len by (simp add: sub32_eq)
  show "?d i = data i" if "i < len" for i
    using m [of "8 + i"] that by (simp add: udp_packet_def at_def nth_append)
qed

lemma ipv4_header_checksum:
  assumes c: "c = ip_checksum (at (ipv4_header n ident proto 0 src dst)) 0 20"
    and m: "\<And>i. i < 20 \<Longrightarrow> m i = ipv4_header n ident proto c src dst ! i"
  shows "ip_checksum m 0 20 = 0"
proof (rule checksum_verifies [where k = 5 and m' = "at (ipv4_header n ident proto 0 src dst)"])
  note F = ipv4_header_fields [of _ _ _ _ _ _ "[]", simplified]
  show "le16 m (0 + 2 * 5) = ip_checksum (at (ipv4_header n ident proto 0 src dst)) 0 20"
    by (subst le16_cong [of _ _ "at (ipv4_header n ident proto c src dst)"]) (simp_all add: F m c at_def)
  show "le16 (at (ipv4_header n ident proto 0 src dst)) (0 + 2 * 5) = 0" by (simp add: F)
  show "m i = at (ipv4_header n ident proto 0 src dst) i" if "i < 0 + 20" "i \<noteq> 0 + 2 * 5" "i \<noteq> 0 + 2 * 5 + 1" for i
    using that m [of i] ipv4_header_other_bytes [of i n ident proto c src dst 0] by (simp add: at_def)
qed simp_all

lemma ethernet_receive_datagram:
  assumes frame: "holds_frame buf (eth_header dmac smac ETHERTYPE_IPV4 @ D) s" and macs: "length dmac = 6" "length smac = 6"
    and D: "D = ipv4_header n ident IP_PROTO_UDP c src (our_ip s) @ udp_packet sport dport data len"
    and c: "c = ip_checksum (at (ipv4_header n ident IP_PROTO_UDP 0 src (our_ip s))) 0 20" and len: "len \<le> 1472"
  shows "\<exists>d. ethernet_receive env buf s = netbuf_free (Some buf)
      (socket_udp_deliver dport src sport d len (nb_upd buf (\<lambda>b. b\<lparr>nb_offset := 34\<rparr>) s)) \<and> (\<forall>i<len. d i = data i)"
proof -
  define b where "b = nb_get buf s"
  define m where "m i = nb_data b (14 + i)" for i
  have H: "length (eth_header dmac smac ETHERTYPE_IPV4) = 14" using macs by (simp add: eth_header_def)
  have lD: "length D = 28 + len" by (simp add: D udp_packet_def)
  have ex: "nb_exists buf s" and bl: "42 + len \<le> nb_len b" "nb_len b < 2 ^ 32"
    and fb: "\<And>i. i < 42 + len \<Longrightarrow> nb_data b i = (eth_header dmac smac ETHERTYPE_IPV4 @ D) ! i"
    using frame H lD by (auto simp: holds_frame_def b_def)
  have et: "le16 (nb_data b) 12 = htons ETHERTYPE_IPV4"
    by (subst le16_cong [of _ _ "at ((dmac @ smac) @ enc16 (htons ETHERTYPE_IPV4) @ D)"])
      (use fb [of 12] fb [of 13] macs le16_enc [of "dmac @ smac" 12 "htons ETHERTYPE_IPV4" D] in
        \<open>simp_all add: eth_header_def at_def\<close>)
  have m: "m i = D ! i" if "i < 28 + len" for i
    using fb [of "14 + i"] that H by (simp add: m_def nth_append)
  note F = ipv4_header_fields [of n ident IP_PROTO_UDP c src "our_ip s" "udp_packet sport dport data len", folded D]
  have f: "m 0 = 0x45" "m 9 = IP_PROTO_UDP" "le32 m 12 = htonl src" "le32 m 16 = htonl (our_ip s)"
    using F(1,2) by (simp_all add: m at_def)
      (subst le32_cong [of _ _ "at D"]; simp add: m at_def F)+
  have ck: "ip_checksum m 0 20 = 0" by (rule ipv4_header_checksum [OF c]) (simp add: m, simp add: D nth_append)
  define s1 where "s1 = nb_upd buf (\<lambda>b. b\<lparr>nb_offset := 14\<rparr>) s"
  have b1: "nb_get buf s1 = b\<lparr>nb_offset := 14\<rparr>" using ex by (simp add: s1_def b_def nb_get_upd)
  have s2: "nb_upd buf (\<lambda>b. b\<lparr>nb_offset := nb_offset b + 20\<rparr>) s1 = nb_upd buf (\<lambda>b. b\<lparr>nb_offset := 34\<rparr>) s"
    by (simp add: s1_def nb_upd_upd)
  have e: "ethernet_receive env buf s = ipv4_receive env buf s1"
    using bl et by (simp add: ethernet_receive_def Let_def b_def [symmetric] s1_def ETH_HEADER_LEN_def ETHERTYPE_IPV4_def ETHERTYPE_ARP_def)
  have pm: "payload (nb_get buf s1) = m" by (rule ext) (simp add: payload_def b1 m_def)
  have ihl: "unat ((m 0 AND 0x0F) * 4) = 20" by (simp add: f)
  have ip: "our_ip s1 = our_ip s" by (simp add: s1_def nb_upd_def split: nbref.splits)
  have "\<not> remaining (nb_get buf s1) < 20" using bl by (simp add: b1 remaining_def sub32_eq)
  then have r: "ipv4_receive env buf s1 = udp_receive buf src (nb_upd buf (\<lambda>b. b\<lparr>nb_offset := 34\<rparr>) s)"
    unfolding ipv4_receive_def Let_def pm ihl ip
    by (simp add: ck f s2 ntohl_htonl IP_PROTO_UDP_def IP_PROTO_ICMP_def IP_PROTO_TCP_def)
  let ?t = "nb_upd buf (\<lambda>b. b\<lparr>nb_offset := 34\<rparr>) s"
  have bt: "nb_get buf ?t = b\<lparr>nb_offset := 34\<rparr>" using ex by (simp add: nb_get_upd b_def)
  have "nb_data (nb_get buf ?t) (34 + i) = udp_packet sport dport data len ! i" if "i < 8 + len" for i
    using m [of "20 + i"] that by (simp add: bt m_def D nth_append)
  from udp_receive_packet [of buf ?t len 34, OF _ len _ _ _ this, of src] ex bl
  show ?thesis unfolding e r by (simp add: bt)
qed

section \<open>The socket's queue\<close>

definition udp_sock_ok :: "socket \<Rightarrow> bool" where
  "udp_sock_ok so \<longleftrightarrow> length (so_udp_queue so) = SOCKET_UDP_QUEUE_SIZE \<and>
     ring_ok (so_udp_queue so) (so_udp_head so) (so_udp_tail so) (so_udp_count so) \<and>
     (\<forall>p\<in>set (so_udp_queue so). length (up_data p) = SOCKET_UDP_PKT_SIZE \<and> up_len p \<le> SOCKET_UDP_PKT_SIZE)"

definition pkt_view :: "socket_udp_pkt \<Rightarrow> u32 \<times> u16 \<times> u8 list" where
  "pkt_view p = (up_src_ip p, up_src_port p, take (up_len p) (up_data p))"

definition udp_pending :: "socket \<Rightarrow> (u32 \<times> u16 \<times> u8 list) list" where
  "udp_pending so = map pkt_view (ring_list (so_udp_queue so) (so_udp_head so) (so_udp_count so))"

definition port_socket :: "u16 \<Rightarrow> net \<Rightarrow> nat option" where
  "port_socket port s =
     first_idx (\<lambda>so. so_in_use so \<and> so_type so = SOCK_DGRAM \<and> so_bound so \<and> so_local_port so = port) (sockets s)"

lemma udp_enqueue_pending:
  assumes ok: "udp_sock_ok so" and room: "so_udp_count so < SOCKET_UDP_QUEUE_SIZE" and len: "len \<le> SOCKET_UDP_PKT_SIZE"
  shows "udp_sock_ok (udp_enqueue ip port d len so)"
    "udp_pending (udp_enqueue ip port d len so) = udp_pending so @ [(ip, port, map d [0..<len])]"
proof -
  let ?q = "so_udp_queue so" and ?t = "so_udp_tail so"
  have q: "length ?q = SOCKET_UDP_QUEUE_SIZE" "ring_ok ?q (so_udp_head so) ?t (so_udp_count so)" "?t < length ?q"
    using ok by (simp_all add: udp_sock_ok_def ring_ok_def)
  define p where "p = ?q ! ?t"
  define p' where "p' = p\<lparr>up_data := blit (up_data p) 0 (map d [0..<len]), up_len := len, up_src_ip := ip, up_src_port := port,
      up_valid := True\<rparr>"
  have "p \<in> set ?q" using q(3) by (simp add: p_def)
  then have lp: "length (up_data p) = SOCKET_UDP_PKT_SIZE" using ok by (simp add: udp_sock_ok_def)
  have copy: "(if len < SOCKET_UDP_PKT_SIZE then len else SOCKET_UDP_PKT_SIZE) = len" using len by auto
  have e: "udp_enqueue ip port d len so = so\<lparr>so_udp_queue := ?q[?t := p'], so_udp_tail := (?t + 1) mod length ?q,
      so_udp_count := Suc (so_udp_count so)\<rparr>"
    unfolding udp_enqueue_def Let_def copy upd_nth_def q(1) p'_def p_def by simp
  note P = ring_put1 [OF q(2), of p'] room q(1)
  have v: "pkt_view p' = (ip, port, map d [0..<len])" "length (up_data p') = SOCKET_UDP_PKT_SIZE" "up_len p' \<le> SOCKET_UDP_PKT_SIZE"
    using len lp by (simp_all add: pkt_view_def p'_def blit_def)
  show "udp_sock_ok (udp_enqueue ip port d len so)"
    using ok P v(2,3) unfolding e udp_sock_ok_def by (auto dest: subsetD [OF set_update_subset_insert])
  show "udp_pending (udp_enqueue ip port d len so) = udp_pending so @ [(ip, port, map d [0..<len])]"
    using P v(1) unfolding e udp_pending_def by simp
qed

lemma udp_deliver_pending:
  assumes k: "port_socket port s = Some k" and ok: "udp_sock_ok (sockets s ! k)"
    and room: "so_udp_count (sockets s ! k) < SOCKET_UDP_QUEUE_SIZE" and len: "len \<le> SOCKET_UDP_PKT_SIZE"
  shows "udp_pending (sockets (socket_udp_deliver port ip sport d len s) ! k) =
      udp_pending (sockets s ! k) @ [(ip, sport, map d [0..<len])]"
proof -
  have kl: "k < length (sockets s)" using k by (simp add: port_socket_def first_idx_Some_length)
  define t where "t = upd_sock k (udp_enqueue ip sport d len) s"
  have tk: "sockets t ! k = udp_enqueue ip sport d len (sockets s ! k)" "k < length (sockets t)"
    using kl by (simp_all add: t_def upd_sock_def)
  have "udp_pending (sockets (wake_sock_reader k t) ! k) = udp_pending (sockets t ! k)"
    using tk(2) by (auto simp: wake_sock_reader_def upd_sock_def udp_pending_def split: option.splits)
  moreover have "socket_udp_deliver port ip sport d len s = wake_sock_reader k t"
    using k room by (simp add: socket_udp_deliver_def port_socket_def t_def)
  ultimately show ?thesis using udp_enqueue_pending(2) [OF ok room len] tk(1) by simp
qed

lemma map_ring_list: "0 < length q \<Longrightarrow> map f (ring_list q h c) = ring_list (map f q) h c"
  by (simp add: ring_list_def)

text \<open>
  C20 A datagram arrives as it was sent: host \<open>A\<close> calls \<^verbatim>\<open>udp_send\<close> for at most 1472 bytes to the
  address of host \<open>B\<close>, with the hardware address of the next hop cached; the card of \<open>A\<close> accepts the
  frame; \<open>B\<close> receives that frame, padded or not, in a packet buffer and hands it to
  \<^verbatim>\<open>ethernet_receive\<close>. Then exactly one entry, with the address of \<open>A\<close>, the source port and exactly
  the bytes of the caller, is appended to the queue of the socket of \<open>B\<close> bound to the port.
\<close>

theorem udp_datagram_delivered:
  assumes send: "udp_send env (our_ip B) sport dport data len A = (0, A')"
    and route: "mac_known (our_ip B) A" "length (route_mac (our_ip B) A) = 6" "length (nic_mac (the_nic A)) = 6"
    and len: "len \<le> 1472" and buf: "length (ip_packet A) = 1500"
    and recv: "holds_frame nb (last (nic_tx_log (the_nic A'))) B"
    and sock: "port_socket dport B = Some k" "udp_sock_ok (sockets B ! k)" "so_udp_count (sockets B ! k) < SOCKET_UDP_QUEUE_SIZE"
  shows "udp_pending (sockets (ethernet_receive env' nb B) ! k) =
      udp_pending (sockets B ! k) @ [(our_ip A, sport, map data [0..<len])]"
proof -
  let ?h = "ipv4_header (28 + len) (ip_id_counter A) IP_PROTO_UDP"
  define c where "c = ip_checksum (at (?h 0 (our_ip A) (our_ip B))) 0 20"
  define D where "D = ?h c (our_ip A) (our_ip B) @ udp_packet sport dport data len"
  have "map (at (udp_packet sport dport data len)) [0..<8 + len] = udp_packet sport dport data len"
    by (rule nth_equalityI) (simp_all add: udp_packet_def at_def)
  then have "ip_datagram A (at (udp_packet sport dport data len)) (8 + len) (our_ip B) IP_PROTO_UDP = D"
    by (simp add: ip_datagram_def D_def c_def Let_def)
  then have "last (nic_tx_log (the_nic A')) = eth_header (route_mac (our_ip B) A) (nic_mac (the_nic A)) ETHERTYPE_IPV4 @ D"
    using udp_send_frame [OF route(1) len buf send] by simp
  then obtain d where
    r: "ethernet_receive env' nb B = netbuf_free (Some nb)
      (socket_udp_deliver dport (our_ip A) sport d len (nb_upd nb (\<lambda>b. b\<lparr>nb_offset := 34\<rparr>) B))"
    and d: "\<forall>i<len. d i = data i"
    using ethernet_receive_datagram [OF _ route(2,3) D_def c_def len] recv by metis
  let ?t = "nb_upd nb (\<lambda>b. b\<lparr>nb_offset := 34\<rparr>) B"
  have fr: "sockets (netbuf_free (Some nb) u) = sockets u" for u by (simp add: netbuf_free_def)
  have "port_socket dport ?t = Some k" using sock(1) by (simp add: port_socket_def)
  from udp_deliver_pending [OF this, of len "our_ip A" sport d] sock(2,3) len
  have "udp_pending (sockets (ethernet_receive env' nb B) ! k) =
      udp_pending (sockets B ! k) @ [(our_ip A, sport, map d [0..<len])]"
    unfolding r fr by (simp add: SOCKET_UDP_PKT_SIZE_def)
  moreover have "map d [0..<len] = map data [0..<len]" using d by simp
  ultimately show ?thesis by simp
qed

text \<open>
  C36 \<^verbatim>\<open>socket_recv\<close> takes datagrams in order: on a datagram socket with a non-empty queue it returns at
  once with the first \<open>n\<close> bytes of the oldest datagram and removes that datagram, whole, from the queue.
\<close>

theorem socket_recv_takes_oldest:
  assumes "socket_get (int k) s = Some so" "k < length (sockets s)" "so_type so = SOCK_DGRAM" "udp_sock_ok so"
    and "udp_pending so = (ip, port, d) # rest"
  shows "\<exists>t. socket_recv (int k) n s = (Returns (int (min n (length d)), take n d), t) \<and>
      udp_pending (sockets t ! k) = rest \<and> udp_sock_ok (sockets t ! k)"
proof -
  have so: "so = sockets s ! k" using assms(1) by (simp add: socket_get_def split: if_splits)
  let ?q = "so_udp_queue so" and ?h = "so_udp_head so"
  have q: "length ?q = SOCKET_UDP_QUEUE_SIZE" "ring_ok ?q ?h (so_udp_tail so) (so_udp_count so)" "?h < length ?q"
    using assms(4) by (simp_all add: udp_sock_ok_def ring_ok_def)
  obtain c where c: "so_udp_count so = Suc c" using assms(5) by (cases "so_udp_count so") (simp_all add: udp_pending_def)
  define p where "p = ?q ! ?h"
  have pq: "p \<in> set ?q" using q(3) by (simp add: p_def)
  then have lp: "length (up_data p) = SOCKET_UDP_PKT_SIZE" "up_len p \<le> SOCKET_UDP_PKT_SIZE"
    using assms(4) by (auto simp: udp_sock_ok_def)
  have pend: "pkt_view p = (ip, port, d)" "rest = map pkt_view (ring_list ?q ((?h + 1) mod length ?q) c)"
    using assms(5) by (simp_all add: udp_pending_def c ring_list_Cons [OF q(3)] p_def)
  define copy where "copy = (if n < up_len p then n else up_len p)"
  have d: "d = take (up_len p) (up_data p)" using pend(1) by (simp add: pkt_view_def)
  have cp: "copy = min n (length d)" "take copy (up_data p) = take n d" "copy < 2 ^ 31"
    using lp by (auto simp: d copy_def SOCKET_UDP_PKT_SIZE_def)
  define so' where "so' = so\<lparr>so_udp_queue := upd_nth ?h (\<lambda>p. p\<lparr>up_valid := False\<rparr>) ?q,
      so_udp_head := (?h + 1) mod SOCKET_UDP_QUEUE_SIZE, so_udp_count := c\<rparr>"
  define t where "t = s\<lparr>sockets := (sockets s)[k := so']\<rparr>"
  have "socket_recv (int k) n s = (Returns (int32 copy, take copy (up_data p)), t)"
    unfolding socket_recv_def assms(1) option.case Let_def p_def [symmetric] copy_def [symmetric]
    using assms(3) c so by (simp add: SOCK_DGRAM_def SOCK_STREAM_def upd_sock_def upd_nth_def t_def so'_def)
  moreover have tk: "sockets t ! k = so'" using assms(2) by (simp add: t_def)
  have "map pkt_view (upd_nth ?h (\<lambda>p. p\<lparr>up_valid := False\<rparr>) ?q) = map pkt_view ?q"
    using q(3) by (intro nth_equalityI) (auto simp: nth_upd_nth pkt_view_def)
  then have "udp_pending so' = rest"
    using q by (simp add: udp_pending_def so'_def pend(2) map_ring_list ring_ok_def)
  moreover have "udp_sock_ok so'"
    using assms(4) q ring_get1 [of ?q ?h _ c] c pq
    by (auto simp: udp_sock_ok_def so'_def upd_nth_def ring_ok_def p_def dest!: subsetD [OF set_update_subset_insert])
  ultimately show ?thesis using int32_small [OF cp(3)] cp(1,2) tk by simp
qed

section \<open>Two machines\<close>

definition demo_sock :: socket where
  "demo_sock = socket_zero\<lparr>so_type := SOCK_DGRAM, so_in_use := True, so_bound := True, so_local_port := 53\<rparr>"

definition host_b :: "u8 list \<Rightarrow> net" where
  "host_b f = demo_net\<lparr>our_ip := NET_GATEWAY, sockets := [demo_sock],
     large_pool := [(nb_claim netbuf_zero)\<lparr>nb_data := (!) f, nb_len := length f\<rparr>]\<rparr>"

lemma udp_sock_ok_demo: "udp_sock_ok demo_sock" "udp_pending demo_sock = []"
  by (simp_all add: udp_sock_ok_def udp_pending_def demo_sock_def socket_zero_def ring_ok_def SOCKET_UDP_QUEUE_SIZE_def
      SOCKET_UDP_PKT_SIZE_def)

lemma demo_route:
  "mac_known NET_GATEWAY demo_net" "route_mac NET_GATEWAY demo_net = [1, 2, 3, 4, 5, 6]" "length (ip_packet demo_net) = 1500"
  "the_nic demo_net = nic_ready"
proof -
  have t: "arp_table demo_net = [\<lparr>ae_ip = NET_GATEWAY, ae_mac = [1, 2, 3, 4, 5, 6], ae_valid = True, ae_timestamp = 0\<rparr>]"
    "our_gateway demo_net = NET_GATEWAY" by (simp_all add: demo_net_def net_static_def)
  show "mac_known NET_GATEWAY demo_net" "route_mac NET_GATEWAY demo_net = [1, 2, 3, 4, 5, 6]"
    by (simp_all add: mac_known_def route_mac_def next_hop_def arp_lookup_def t)
  show "length (ip_packet demo_net) = 1500" "the_nic demo_net = nic_ready" by (simp_all add: demo_net_def net_static_def)
qed

lemma udp_send_accepted:
  assumes "mac_known dst s" "len \<le> 1472" "length (ip_packet s) = 1500" "nic_initialized (the_nic s)"
    and "nic_tx_dd (the_nic s) ! nic_tx_tail (the_nic s)" "length (route_mac dst s) = 6" "length (nic_mac (the_nic s)) = 6"
  shows "fst (udp_send env dst sport dport data len s) = 0"
proof -
  define u where "u = s\<lparr>net_fault := (net_fault s \<or> len > 1472)\<rparr>"
  have tot: "(8 + len) mod 2 ^ 32 = 8 + len" using assms(2) by (intro mod_less) simp
  have e: "udp_send env dst sport dport data len s =
      ipv4_send env (at (udp_packet sport dport data len)) (8 + len) dst IP_PROTO_UDP u"
    unfolding udp_send_def tot using assms(2) by (simp add: Let_def udp_packet_def min_def u_def)
  have "route_mac dst u = route_mac dst s" by (simp add: u_def route_mac_def next_hop_def arp_lookup_def)
  with assms show ?thesis
    unfolding e by (subst ipv4_send_known) (simp_all add: u_def ethernet_send_def e1000_send_packet_def Let_def
      ETH_HEADER_LEN_def eth_header_def)
qed

theorem udp_datagram_delivered_witness:
  "udp_pending (sockets (ethernet_receive id (Large 0)
      (host_b (last (nic_tx_log (the_nic (snd (udp_send id NET_GATEWAY 4000 53 (\<lambda>i. of_nat i + 65) 3 demo_net))))))) ! 0)
    = [(NET_IP, 4000, [65, 66, 67])]"
proof -
  let ?d = "\<lambda>i. of_nat i + 65 :: u8"
  obtain A' where send: "udp_send id NET_GATEWAY 4000 53 ?d 3 demo_net = (0, A')"
    using udp_send_accepted [OF demo_route(1) _ demo_route(3), of 3 id 4000 53 ?d] demo_route
    by (cases "udp_send id NET_GATEWAY 4000 53 ?d 3 demo_net") (simp add: nic_ready_def)
  let ?f = "last (nic_tx_log (the_nic A'))"
  have "length ?f = 45"
    using udp_send_frame [OF demo_route(1) _ demo_route(3) send] by (simp add: demo_route nic_ready_def eth_header_def)
  then have h: "holds_frame (Large 0) ?f (host_b ?f)"
    by (simp add: holds_frame_def host_b_def nb_exists_def nb_get_def)
  have B: "our_ip (host_b ?f) = NET_GATEWAY" "sockets (host_b ?f) = [demo_sock]" "port_socket 53 (host_b ?f) = Some 0"
    by (simp_all add: host_b_def port_socket_def demo_sock_def)
  have "our_ip demo_net = NET_IP" "map ?d [0..<3] = [65, 66, 67]" by (simp_all add: demo_net_def net_static_def upt_rec)
  moreover have "so_udp_count demo_sock = 0" by (simp add: demo_sock_def socket_zero_def)
  ultimately show ?thesis
    using udp_datagram_delivered [of id "host_b ?f" 4000 53 ?d 3 demo_net A' "Large 0" 0 id, OF _ _ _ _ _ demo_route(3) h B(3)]
      send demo_route udp_sock_ok_demo B by (auto simp: nic_ready_def SOCKET_UDP_QUEUE_SIZE_def)
qed

definition demo_full_sock :: socket where
  "demo_full_sock = udp_enqueue NET_IP 5 (\<lambda>_. 9) 2 (udp_enqueue NET_IP 4 (\<lambda>_. 7) 3 demo_sock)"

theorem socket_recv_takes_oldest_witness:
  "\<exists>t. socket_recv 0 2 (demo_net\<lparr>sockets := replicate 32 demo_full_sock\<rparr>) = (Returns (2, [7, 7]), t) \<and>
      udp_pending (sockets t ! 0) = [(NET_IP, 5, [9, 9])]"
proof -
  have c: "so_udp_count demo_sock = 0" by (simp add: demo_sock_def socket_zero_def)
  note one = udp_enqueue_pending [OF udp_sock_ok_demo(1), of 3 NET_IP 4 "\<lambda>_. 7", simplified c udp_sock_ok_demo(2)]
  have c1: "so_udp_count (udp_enqueue NET_IP 4 (\<lambda>_. 7) 3 demo_sock) = 1" by (simp add: udp_enqueue_def Let_def c)
  have two: "udp_sock_ok demo_full_sock" "udp_pending demo_full_sock = [(NET_IP, 4, [7, 7, 7]), (NET_IP, 5, [9, 9])]"
    using udp_enqueue_pending [of "udp_enqueue NET_IP 4 (\<lambda>_. 7) 3 demo_sock" 2 NET_IP 5 "\<lambda>_. 9"] one
    by (simp_all add: c1 demo_full_sock_def SOCKET_UDP_QUEUE_SIZE_def SOCKET_UDP_PKT_SIZE_def upt_rec)
  have t: "so_type demo_full_sock = SOCK_DGRAM" "so_in_use demo_full_sock"
    by (simp_all add: demo_full_sock_def udp_enqueue_def Let_def demo_sock_def)
  show ?thesis
    using socket_recv_takes_oldest [of 0 "demo_net\<lparr>sockets := replicate 32 demo_full_sock\<rparr>" demo_full_sock, OF _ _ t(1) two, of 2]
    by (simp add: socket_get_def MAX_SOCKETS_def t(2)) blast
qed

end
