(* ===== verification/CString.thy ===== *)
theory CString
  imports Prelude "HOL-Library.Monad_Syntax"
begin

text \<open>
  The string and memory routines of \<^verbatim>\<open>kernel/string.c\<close>. Memory is a function from addresses to
  bytes. A routine that only reads takes its pointers as functions from offsets to bytes; a routine
  that writes takes the memory and addresses, so that overlapping arguments behave as in the source.
  A loop that runs to a terminating zero byte need not end in every memory: it is a partial
  function, with the value \<open>None\<close> when it does not.
\<close>

type_synonym mem = "nat \<Rightarrow> u8"

section \<open>Operations\<close>

partial_function (option) strlen_loop :: "mem \<Rightarrow> nat \<Rightarrow> nat option" where
  "strlen_loop s len = (if s len \<noteq> 0 then strlen_loop s (len + 1) else Some len)"

definition strlen :: "mem \<Rightarrow> nat option" where
  "strlen s = strlen_loop s 0"

definition byte_diff :: "u8 \<Rightarrow> u8 \<Rightarrow> int" where
  "byte_diff a b = int (unat a) - int (unat b)"

partial_function (option) strcmp_loop :: "mem \<Rightarrow> mem \<Rightarrow> nat \<Rightarrow> int option" where
  "strcmp_loop s1 s2 i = (if s1 i \<noteq> 0 \<and> s1 i = s2 i then strcmp_loop s1 s2 (i + 1) else Some (byte_diff (s1 i) (s2 i)))"

definition strcmp :: "mem \<Rightarrow> mem \<Rightarrow> int option" where
  "strcmp s1 s2 = strcmp_loop s1 s2 0"

text \<open>The last argument is the number of iterations left.\<close>

fun strncmp_loop :: "mem \<Rightarrow> mem \<Rightarrow> nat \<Rightarrow> nat \<Rightarrow> int" where
  "strncmp_loop s1 s2 i 0 = 0"
| "strncmp_loop s1 s2 i (Suc k) =
     (if s1 i \<noteq> s2 i then byte_diff (s1 i) (s2 i) else if s1 i = 0 then 0 else strncmp_loop s1 s2 (i + 1) k)"

definition strncmp :: "mem \<Rightarrow> mem \<Rightarrow> nat \<Rightarrow> int" where
  "strncmp s1 s2 n = strncmp_loop s1 s2 0 n"

partial_function (option) strcpy :: "nat \<Rightarrow> nat \<Rightarrow> mem \<Rightarrow> mem option" where
  "strcpy d s m = (let m1 = m(d := m s) in if m s \<noteq> 0 then strcpy (d + 1) (s + 1) m1 else Some m1)"

fun strncpy_pad :: "nat \<Rightarrow> nat \<Rightarrow> mem \<Rightarrow> mem" where
  "strncpy_pad d 0 m = m"
| "strncpy_pad d (Suc k) m = strncpy_pad (d + 1) k (m(d := 0))"

fun strncpy :: "nat \<Rightarrow> nat \<Rightarrow> nat \<Rightarrow> mem \<Rightarrow> mem" where
  "strncpy d s 0 m = m"
| "strncpy d s (Suc k) m = (if m s \<noteq> 0 then strncpy (d + 1) (s + 1) k (m(d := m s)) else strncpy_pad d (Suc k) m)"

fun memset :: "nat \<Rightarrow> u8 \<Rightarrow> nat \<Rightarrow> mem \<Rightarrow> mem" where
  "memset p c 0 m = m"
| "memset p c (Suc k) m = memset (p + 1) c k (m(p := c))"

fun memcpy :: "nat \<Rightarrow> nat \<Rightarrow> nat \<Rightarrow> mem \<Rightarrow> mem" where
  "memcpy d s 0 m = m"
| "memcpy d s (Suc k) m = memcpy (d + 1) (s + 1) k (m(d := m s))"

text \<open>The second loop of \<^verbatim>\<open>memmove\<close>, from the last byte down.\<close>

fun memmove_down :: "nat \<Rightarrow> nat \<Rightarrow> nat \<Rightarrow> mem \<Rightarrow> mem" where
  "memmove_down d s 0 m = m"
| "memmove_down d s (Suc k) m = memmove_down d s k (m(d + k := m (s + k)))"

definition memmove :: "nat \<Rightarrow> nat \<Rightarrow> nat \<Rightarrow> mem \<Rightarrow> mem" where
  "memmove d s n m = (if d < s then memcpy d s n m else memmove_down d s n m)"

fun memcmp_loop :: "mem \<Rightarrow> mem \<Rightarrow> nat \<Rightarrow> nat \<Rightarrow> int" where
  "memcmp_loop a b i 0 = 0"
| "memcmp_loop a b i (Suc k) = (if a i \<noteq> b i then byte_diff (a i) (b i) else memcmp_loop a b (i + 1) k)"

definition memcmp :: "mem \<Rightarrow> mem \<Rightarrow> nat \<Rightarrow> int" where
  "memcmp a b n = memcmp_loop a b 0 n"

text \<open>
  \<^verbatim>\<open>strtok\<close>: the inner loop over the delimiters, the loop that skips them, the loop that looks for
  the end of the token, and the function, with its static \<^verbatim>\<open>strtok_state\<close>. The result is the token,
  the new state and the memory, in which the delimiter after the token is overwritten with 0.
\<close>

partial_function (option) is_delim :: "mem \<Rightarrow> nat \<Rightarrow> u8 \<Rightarrow> bool option" where
  "is_delim m d c = (if m d \<noteq> 0 then (if c = m d then Some True else is_delim m (d + 1) c) else Some False)"

partial_function (option) skip_delims :: "mem \<Rightarrow> nat \<Rightarrow> nat \<Rightarrow> nat option" where
  "skip_delims m d p =
     (if m p \<noteq> 0 then do { b \<leftarrow> is_delim m d (m p); if b then skip_delims m d (p + 1) else Some p } else Some p)"

partial_function (option) token_end :: "mem \<Rightarrow> nat \<Rightarrow> nat \<Rightarrow> nat option option" where
  "token_end m d p =
     (if m p \<noteq> 0 then do { b \<leftarrow> is_delim m d (m p); if b then Some (Some p) else token_end m d (p + 1) }
      else Some None)"

definition strtok :: "nat option \<Rightarrow> nat \<Rightarrow> nat option \<times> mem \<Rightarrow> (nat option \<times> nat option \<times> mem) option" where
  "strtok str delim st =
     (let (state, m) = st in
      case (if str \<noteq> None then str else state) of
        None \<Rightarrow> Some (None, None, m)
      | Some p \<Rightarrow>
          do { q \<leftarrow> skip_delims m delim p;
               if m q = 0 then Some (None, None, m)
               else do { e \<leftarrow> token_end m delim q;
                         Some (case e of Some p' \<Rightarrow> (Some q, Some (p' + 1), m(p' := 0)) | None \<Rightarrow> (Some q, None, m)) } })"

text \<open>The loop \<^verbatim>\<open>for (t = strtok(NULL, d); t; t = strtok(NULL, d))\<close> of the callers, collecting the tokens.\<close>

partial_function (option) strtok_rest :: "nat \<Rightarrow> nat option \<times> mem \<Rightarrow> (nat list \<times> mem) option" where
  "strtok_rest d st =
     do { (t, state, m) \<leftarrow> strtok None d st;
          (case t of None \<Rightarrow> Some ([], m)
           | Some a \<Rightarrow> do { (as, m') \<leftarrow> strtok_rest d (state, m); Some (a # as, m') }) }"

section \<open>Strings in memory\<close>

text \<open>A memory that holds a list of bytes from address 0 on and zeros behind it.\<close>

definition at0 :: "u8 list \<Rightarrow> mem" where
  "at0 bs a = (if a < length bs then bs ! a else 0)"

definition cstr :: "mem \<Rightarrow> nat \<Rightarrow> u8 list \<Rightarrow> bool" where
  "cstr m p xs \<longleftrightarrow> (\<forall>i < length xs. m (p + i) = xs ! i) \<and> m (p + length xs) = 0 \<and> 0 \<notin> set xs"

lemma cstr_Nil [simp]: "cstr m p [] \<longleftrightarrow> m p = 0"
  by (simp add: cstr_def)

lemma cstr_Cons: "cstr m p (x # xs) \<longleftrightarrow> m p = x \<and> x \<noteq> 0 \<and> cstr m (p + 1) xs"
  by (auto simp: cstr_def nth_Cons' less_Suc_eq_0_disj)

lemma cstr_append: "cstr m p (xs @ ys) \<longleftrightarrow> (\<forall>i < length xs. m (p + i) = xs ! i) \<and> 0 \<notin> set xs \<and> cstr m (p + length xs) ys"
  by (induction xs arbitrary: p) (auto simp: cstr_Cons less_Suc_eq_0_disj nth_Cons')

lemma strlen_cstr: "cstr m 0 xs \<Longrightarrow> strlen m = Some (length xs)"
proof -
  have "cstr m p xs \<Longrightarrow> strlen_loop m p = Some (p + length xs)" for p
    by (induction xs arbitrary: p; subst strlen_loop.simps) (auto simp: cstr_Cons)
  then show "cstr m 0 xs \<Longrightarrow> ?thesis" by (simp add: strlen_def)
qed

section \<open>Copying\<close>

text \<open>The memory after \<open>n\<close> bytes at \<open>s\<close> have been copied to \<open>d\<close>, all read before any is written.\<close>

definition copied :: "nat \<Rightarrow> nat \<Rightarrow> nat \<Rightarrow> mem \<Rightarrow> mem" where
  "copied d s n m a = (if d \<le> a \<and> a < d + n then m (s + (a - d)) else m a)"

lemma memcpy_up: "d \<le> s \<or> s + n \<le> d \<Longrightarrow> memcpy d s n m = copied d s n m"
proof (induction n arbitrary: d s m)
  case 0
  show ?case by (auto simp: copied_def fun_eq_iff)
next
  case (Suc k)
  have "memcpy (d + 1) (s + 1) k (m(d := m s)) = copied (d + 1) (s + 1) k (m(d := m s))"
    by (rule Suc.IH) (use Suc.prems in auto)
  also have "\<dots> = copied d s (Suc k) m"
  proof
    fix a
    show "copied (d + 1) (s + 1) k (m(d := m s)) a = copied d s (Suc k) m a"
    proof (cases "d < a \<and> a < d + Suc k")
      case True
      then have "Suc (s + (a - Suc d)) = s + (a - d)" "s + (a - d) \<noteq> d" using Suc.prems by auto
      with True show ?thesis by (simp add: copied_def)
    qed (auto simp: copied_def)
  qed
  finally show ?case by simp
qed

lemma memmove_down_eq: "s \<le> d \<Longrightarrow> memmove_down d s n m = copied d s n m"
proof (induction n arbitrary: m)
  case 0
  show ?case by (auto simp: copied_def fun_eq_iff)
next
  case (Suc k)
  have "memmove_down d s k (m(d + k := m (s + k))) = copied d s k (m(d + k := m (s + k)))" using Suc by blast
  also have "\<dots> = copied d s (Suc k) m"
    using Suc.prems by (auto simp: copied_def fun_eq_iff less_Suc_eq)
  finally show ?case by simp
qed


lemma memset_eq: "memset p c n m = (\<lambda>a. if p \<le> a \<and> a < p + n then c else m a)"
proof (induction n arbitrary: p m)
  case 0
  show ?case by (auto simp: fun_eq_iff)
next
  case (Suc k)
  show ?case unfolding memset.simps Suc by (auto simp: fun_eq_iff)
qed

section \<open>Comparison\<close>

lemma byte_diff_simps [simp]: "byte_diff a b = 0 \<longleftrightarrow> a = b" "byte_diff a b < 0 \<longleftrightarrow> a < b"
  by (simp_all add: byte_diff_def word_uint_eq_iff word_less_def)

lemma strcmp_loop_spec:
  "cstr s1 i xs \<Longrightarrow> cstr s2 i ys \<Longrightarrow> \<exists>r. strcmp_loop s1 s2 i = Some r \<and> (r = 0 \<longleftrightarrow> xs = ys) \<and> (r < 0 \<longleftrightarrow> ord_class.lexordp xs ys)"
proof (induction xs ys arbitrary: i rule: list_induct2')
  case 1
  then show ?case by (subst strcmp_loop.simps) simp
next
  case (2 x xs)
  then show ?case by (subst strcmp_loop.simps) (auto simp: cstr_Cons)
next
  case (3 y ys)
  then show ?case by (subst strcmp_loop.simps) (auto simp: cstr_Cons word_gt_0)
next
  case (4 x xs y ys)
  show ?case
  proof (cases "x = y")
    case True
    with 4 have "\<exists>r. strcmp_loop s1 s2 (i + 1) = Some r \<and> (r = 0 \<longleftrightarrow> xs = ys) \<and> (r < 0 \<longleftrightarrow> ord_class.lexordp xs ys)"
      by (simp add: cstr_Cons)
    with True 4(2,3) show ?thesis by (subst strcmp_loop.simps) (auto simp: cstr_Cons)
  next
    case False
    with 4(2,3) show ?thesis by (subst strcmp_loop.simps) (auto simp: cstr_Cons)
  qed
qed

lemma strncmp_loop_0_iff:
  "\<forall>j < k. s2 (i + j) \<noteq> 0 \<Longrightarrow> strncmp_loop s1 s2 i k = 0 \<longleftrightarrow> (\<forall>j < k. s1 (i + j) = s2 (i + j))"
proof (induction k arbitrary: i)
  case 0
  show ?case by simp
next
  case (Suc k)
  have nz: "s2 i \<noteq> 0" "\<forall>j < k. s2 (i + 1 + j) \<noteq> 0" using Suc.prems by (simp_all add: All_less_Suc2)
  have "strncmp_loop s1 s2 i (Suc k) = 0 \<longleftrightarrow> s1 i = s2 i \<and> strncmp_loop s1 s2 (i + 1) k = 0"
    using nz(1) by simp
  also have "\<dots> \<longleftrightarrow> (\<forall>j < Suc k. s1 (i + j) = s2 (i + j))" unfolding Suc.IH [OF nz(2)] by (simp add: All_less_Suc2)
  finally show ?case .
qed

text \<open>
  C39 \<^verbatim>\<open>strcmp\<close> decides the lexicographic order of byte strings: on two terminated strings it returns,
  0 exactly when they are equal and a negative number exactly when the first is smaller.
\<close>

theorem strcmp_is_lexicographic:
  assumes "cstr s1 0 xs" "cstr s2 0 ys"
  shows "\<exists>r. strcmp s1 s2 = Some r \<and> (r = 0 \<longleftrightarrow> xs = ys) \<and> (r < 0 \<longleftrightarrow> ord_class.lexordp xs ys)"
  using strcmp_loop_spec [OF assms] by (simp add: strcmp_def)

theorem strcmp_is_lexicographic_witness:
  "\<exists>r. strcmp (\<lambda>i. if i = 0 then 97 else 0) (\<lambda>i. if i < 2 then 97 else 0) = Some r \<and> r < 0"
proof -
  have "cstr (\<lambda>i. if i = 0 then 97 else 0) 0 [97]" "cstr (\<lambda>i. if i < 2 then 97 else 0) 0 [97, 97]"
    by (simp_all add: cstr_Cons)
  from strcmp_is_lexicographic [OF this] show ?thesis by auto
qed

section \<open>Tokens\<close>

function tokens :: "('a \<Rightarrow> bool) \<Rightarrow> 'a list \<Rightarrow> 'a list list" where
  "tokens P xs =
     (let ys = dropWhile P xs in
      if ys = [] then [] else takeWhile (\<lambda>x. \<not> P x) ys # tokens P (dropWhile (\<lambda>x. \<not> P x) ys))"
  by pat_completeness auto
termination
proof (relation "measure (length \<circ> snd)")
  fix P and xs ys :: "'a list" assume ys: "ys = dropWhile P xs" "ys \<noteq> []"
  then have "\<not> P (hd ys)" by (simp add: hd_dropWhile)
  then have "length (dropWhile (\<lambda>x. \<not> P x) ys) < length ys"
    using ys(2) by (cases ys) (auto simp: le_imp_less_Suc length_dropWhile_le)
  moreover have "length ys \<le> length xs" by (simp add: ys(1) length_dropWhile_le)
  ultimately show "((P, dropWhile (\<lambda>x. \<not> P x) ys), P, xs) \<in> measure (length \<circ> snd)" by simp
qed simp

declare tokens.simps [simp del]

lemma is_delim_cstr: "cstr m d ds \<Longrightarrow> is_delim m d c = Some (c \<in> set ds)"
  by (induction ds arbitrary: d; subst is_delim.simps) (auto simp: cstr_Cons)

lemma skip_delims_cstr:
  assumes d: "cstr m d ds"
  shows "cstr m p xs \<Longrightarrow> skip_delims m d p = Some (p + length (takeWhile (\<lambda>x. x \<in> set ds) xs))"
  by (induction xs arbitrary: p; subst skip_delims.simps) (auto simp: cstr_Cons is_delim_cstr [OF d])

lemma token_end_cstr:
  assumes d: "cstr m d ds"
  shows "cstr m p xs \<Longrightarrow> token_end m d p =
    Some (if \<exists>x\<in>set xs. x \<in> set ds then Some (p + length (takeWhile (\<lambda>x. x \<notin> set ds) xs)) else None)"
  by (induction xs arbitrary: p; subst token_end.simps) (auto simp: cstr_Cons is_delim_cstr [OF d])

text \<open>One call, on a string split into leading delimiters, a token and the rest.\<close>

lemma strtok_step:
  assumes d: "cstr m d ds" and s: "cstr m p (pre @ tok @ rest)"
    and pre: "set pre \<subseteq> set ds" and tok: "tok \<noteq> []" "set tok \<inter> set ds = {}" and rest: "rest = [] \<or> hd rest \<in> set ds"
  shows "strtok None d (Some p, m) = Some (Some (p + length pre),
     if rest = [] then (None, m) else (Some (p + length pre + length tok + 1), m(p + length pre + length tok := 0)))"
proof -
  let ?q = "p + length pre"
  have q: "cstr m ?q (tok @ rest)" "m ?q \<noteq> 0"
    using s tok(1) by (auto simp: cstr_append neq_Nil_conv cstr_Cons)
  have "takeWhile (\<lambda>x. x \<in> set ds) (pre @ tok @ rest) = pre"
    using pre tok by (cases tok) (auto simp: takeWhile_append2 subset_iff)
  then have skip: "skip_delims m d p = Some ?q" using skip_delims_cstr [OF d s] by simp
  have all: "\<And>x. x \<in> set tok \<Longrightarrow> x \<notin> set ds" using tok(2) by blast
  have "token_end m d ?q = Some (if rest = [] then None else Some (?q + length tok))"
  proof (cases rest)
    case Nil
    then show ?thesis using token_end_cstr [OF d q(1)] all by auto
  next
    case (Cons r rs)
    then have "takeWhile (\<lambda>x. x \<notin> set ds) (tok @ rest) = tok" using rest all by (simp add: takeWhile_append2)
    then show ?thesis using token_end_cstr [OF d q(1)] rest Cons by auto
  qed
  then show ?thesis using q(2) by (simp add: strtok_def skip)
qed

lemma token_split:
  assumes "dropWhile P xs \<noteq> []"
  obtains pre tok rest where "xs = pre @ tok @ rest" "\<forall>x\<in>set pre. P x" "tok \<noteq> []" "\<forall>x\<in>set tok. \<not> P x"
    "rest = [] \<or> P (hd rest)" "tokens P xs = tok # tokens P rest"
proof
  let ?ys = "dropWhile P xs" and ?Q = "\<lambda>x. \<not> P x"
  show "xs = takeWhile P xs @ takeWhile ?Q ?ys @ dropWhile ?Q ?ys" by simp
  show "\<forall>x\<in>set (takeWhile P xs). P x" "\<forall>x\<in>set (takeWhile ?Q ?ys). \<not> P x" by (auto dest: set_takeWhileD)
  have "\<not> P (hd ?ys)" using assms by (rule hd_dropWhile)
  then show "takeWhile ?Q ?ys \<noteq> []" using assms by (cases ?ys) auto
  show "dropWhile ?Q ?ys = [] \<or> P (hd (dropWhile ?Q ?ys))" using hd_dropWhile [of ?Q ?ys] by auto
  show "tokens P xs = takeWhile ?Q ?ys # tokens P (dropWhile ?Q ?ys)" using assms by (subst tokens.simps) (auto simp: Let_def)
qed

lemma cstr_frame: "cstr m p xs \<Longrightarrow> (\<And>a. p \<le> a \<Longrightarrow> a \<le> p + length xs \<Longrightarrow> m' a = m a) \<Longrightarrow> cstr m' p xs"
  by (simp add: cstr_def)

lemma strtok_none: "cstr m d ds \<Longrightarrow> cstr m p xs \<Longrightarrow> set xs \<subseteq> set ds \<Longrightarrow> strtok None d (Some p, m) = Some (None, None, m)"
proof -
  assume a: "cstr m d ds" "cstr m p xs" "set xs \<subseteq> set ds"
  have "takeWhile (\<lambda>x. x \<in> set ds) xs = xs" using a(3) by (auto intro: takeWhile_eq_all_conv [THEN iffD2])
  from skip_delims_cstr [OF a(1,2), unfolded this] show ?thesis using a(2) by (simp add: strtok_def cstr_def)
qed

lemma strtok_rest_tokens:
  assumes "cstr m d ds" "cstr m p xs" "d + length ds < p \<or> p + length xs < d"
  shows "\<exists>as m'. strtok_rest d (Some p, m) = Some (as, m') \<and> list_all2 (cstr m') as (tokens (\<lambda>x. x \<in> set ds) xs) \<and>
     (\<forall>a. a < p \<or> p + length xs < a \<longrightarrow> m' a = m a)"
  using assms
proof (induction "length xs" arbitrary: xs p m rule: less_induct)
  case less
  let ?P = "\<lambda>x. x \<in> set ds"
  show ?case
  proof (cases "dropWhile ?P xs = []")
    case True
    then have "tokens ?P xs = []" "set xs \<subseteq> set ds" by (subst tokens.simps, simp) (use True in auto)
    with strtok_none [OF less.prems(1,2)] show ?thesis by (subst strtok_rest.simps) simp
  next
    case False
    then obtain pre tok rest where xs: "xs = pre @ tok @ rest" and pre: "\<forall>x\<in>set pre. ?P x" and tok: "tok \<noteq> []" "\<forall>x\<in>set tok. \<not> ?P x"
      and rest: "rest = [] \<or> ?P (hd rest)" and tk: "tokens ?P xs = tok # tokens ?P rest" by (rule token_split)
    let ?q = "p + length pre" and ?e = "p + length pre + length tok"
    have step: "strtok None d (Some p, m) = Some (Some ?q, if rest = [] then (None, m) else (Some (?e + 1), m(?e := 0)))"
      by (rule strtok_step [OF less.prems(1)]) (use less.prems(2) xs pre tok rest in auto)
    have tq: "\<forall>i < length tok. m (?q + i) = tok ! i" "0 \<notin> set tok" "cstr m ?e rest"
      using less.prems(2) by (auto simp: xs cstr_append add.assoc)
    show ?thesis
    proof (cases rest)
      case Nil
      have "strtok_rest d (None, m) = Some ([], m)" by (subst strtok_rest.simps) (simp add: strtok_def)
      moreover have "tokens ?P rest = []" by (subst tokens.simps) (simp add: Nil)
      moreover have "cstr m ?q tok" using tq Nil by (auto simp: cstr_def)
      ultimately show ?thesis using step Nil tk by (subst strtok_rest.simps) simp
    next
      case (Cons r rs)
      define m1 where "m1 = m(?e := 0)"
      have rs: "cstr m (?e + 1) rs" "?P r" using tq(3) rest Cons by (simp_all add: cstr_Cons)
      have "tokens ?P rest = tokens ?P rs" using rs(2) Cons by (subst (1 2) tokens.simps) simp
      note tk' = tk [unfolded this]
      have c: "cstr m1 d ds" "cstr m1 (?e + 1) rs"
        using less.prems(1,3) rs(1) by (auto simp: m1_def xs Cons elim!: cstr_frame)
      have "\<exists>as m'. strtok_rest d (Some (?e + 1), m1) = Some (as, m') \<and> list_all2 (cstr m') as (tokens ?P rs) \<and>
          (\<forall>a. a < ?e + 1 \<or> ?e + 1 + length rs < a \<longrightarrow> m' a = m1 a)"
        by (rule less.hyps [OF _ c]) (use less.prems(3) xs Cons in auto)
      then obtain as m' where r: "strtok_rest d (Some (?e + 1), m1) = Some (as, m')" "list_all2 (cstr m') as (tokens ?P rs)"
        "\<forall>a. a < ?e + 1 \<or> ?e + 1 + length rs < a \<longrightarrow> m' a = m1 a" by blast
      have "cstr m' ?q tok" using tq(1,2) r(3) by (simp add: cstr_def m1_def)
      moreover have "\<forall>a. a < p \<or> p + length xs < a \<longrightarrow> m' a = m a" using r(3) by (auto simp: m1_def xs Cons)
      ultimately show ?thesis using step Cons r(1,2) tk' by (subst strtok_rest.simps) (auto simp: m1_def)
    qed
  qed
qed

text \<open>The whole loop of a caller: the first call passes the string, the others \<^verbatim>\<open>NULL\<close>.\<close>

definition strtok_all :: "nat \<Rightarrow> nat \<Rightarrow> nat option \<times> mem \<Rightarrow> (nat list \<times> mem) option" where
  "strtok_all str d st =
     do { (t, state, m) \<leftarrow> strtok (Some str) d st;
          (case t of None \<Rightarrow> Some ([], m)
           | Some a \<Rightarrow> do { (as, m') \<leftarrow> strtok_rest d (state, m); Some (a # as, m') }) }"

lemma strtok_all_rest: "strtok_all p d (st, m) = strtok_rest d (Some p, m)"
  unfolding strtok_all_def by (subst (2) strtok_rest.simps) (simp add: strtok_def)

text \<open>
  C37 \<^verbatim>\<open>strtok\<close> tokenises: on a terminated string that does not overlap the string of delimiters, whatever
  the static state was before, the loop of calls ends, and the addresses it yields hold, in order and as
  terminated strings of the final memory, exactly the maximal delimiter-free pieces of the string; no
  byte outside the string changes.
\<close>

theorem strtok_yields_tokens:
  assumes "cstr m d ds" "cstr m p xs" "d + length ds < p \<or> p + length xs < d"
  shows "\<exists>as m'. strtok_all p d (st, m) = Some (as, m') \<and> list_all2 (cstr m') as (tokens (\<lambda>x. x \<in> set ds) xs) \<and>
     (\<forall>a. a < p \<or> p + length xs < a \<longrightarrow> m' a = m a)"
  unfolding strtok_all_rest by (rule strtok_rest_tokens [OF assms])

theorem strtok_yields_tokens_witness:
  "\<exists>as m'. strtok_all 10 0 (None, at0 [32, 0, 0, 0, 0, 0, 0, 0, 0, 0, 32, 97, 98, 32, 32, 99]) = Some (as, m') \<and>
     list_all2 (cstr m') as [[97, 98], [99]]"
proof -
  let ?m = "at0 [32, 0, 0, 0, 0, 0, 0, 0, 0, 0, 32, 97, 98, 32, 32, 99]"
  have "cstr ?m 0 [32]" "cstr ?m 10 [32, 97, 98, 32, 32, 99]" by (simp_all add: cstr_Cons at0_def)
  moreover have "tokens (\<lambda>x. x \<in> set [32 :: u8]) [32, 97, 98, 32, 32, 99] = [[97, 98], [99]]"
    by (simp add: tokens.simps Let_def)
  ultimately show ?thesis
    using strtok_yields_tokens [of ?m 0 "[32]" 10 "[32, 97, 98, 32, 32, 99]" None] by (auto split: if_splits)
qed

end
