(* ===== verification/Ext2.thy ===== *)
theory Ext2
  imports Disk CString Pmm
begin

text \<open>
  The ext2 file system (\<^verbatim>\<open>kernel/fs/ext2.c\<close>), reading side: the structures on disk, mounting,
  inodes, block mapping, reading files, directory and path lookup.

  The record \<open>ext2\<close> holds the static variables of the module and the disk. The scratch buffers
  \<^verbatim>\<open>block_buf\<close> and \<^verbatim>\<open>ind_buf\<close> are filled by every function before it uses them, so they are
  local values here; a byte read past the end of a block is an index out of the list, about which
  nothing is known. A C string is the list of its bytes without the terminating zero.

  The loops over directories advance by the record length found on disk; one of length 0 at the
  start of the scan makes the outer loop spin forever, so those loops are partial functions.
\<close>

section \<open>Structures on disk\<close>

definition EXT2_MAGIC :: u16 where "EXT2_MAGIC = 0xEF53"
definition EXT2_S_IFREG :: u16 where "EXT2_S_IFREG = 0x8000"
definition EXT2_S_IFDIR :: u16 where "EXT2_S_IFDIR = 0x4000"
definition EXT2_FT_REG_FILE :: u8 where "EXT2_FT_REG_FILE = 1"
definition EXT2_FT_DIR :: u8 where "EXT2_FT_DIR = 2"
definition EXT2_ROOT_INODE :: u32 where "EXT2_ROOT_INODE = 2"

record ext2_superblock =
  s_inodes_count :: u32
  s_blocks_count :: u32
  s_r_blocks_count :: u32
  s_free_blocks_count :: u32
  s_free_inodes_count :: u32
  s_first_data_block :: u32
  s_log_block_size :: u32
  s_log_frag_size :: u32
  s_blocks_per_group :: u32
  s_frags_per_group :: u32
  s_inodes_per_group :: u32
  s_mtime :: u32
  s_wtime :: u32
  s_mnt_count :: u16
  s_max_mnt_count :: u16
  s_magic :: u16
  s_state :: u16
  s_errors :: u16
  s_minor_rev_level :: u16
  s_lastcheck :: u32
  s_checkinterval :: u32
  s_creator_os :: u32
  s_rev_level :: u32
  s_def_resuid :: u16
  s_def_resgid :: u16
  s_first_ino :: u32
  s_inode_size :: u16
  s_block_group_nr :: u16
  s_feature_compat :: u32
  s_feature_incompat :: u32
  s_feature_ro_compat :: u32
  s_uuid :: "u8 list"
  s_volume_name :: "u8 list"
  s_last_mounted :: "u8 list"
  s_algo_bitmap :: u32

record ext2_block_group_desc =
  bg_block_bitmap :: u32
  bg_inode_bitmap :: u32
  bg_inode_table :: u32
  bg_free_blocks_count :: u16
  bg_free_inodes_count :: u16
  bg_used_dirs_count :: u16
  bg_pad :: u16
  bg_reserved :: "u8 list"

record ext2_inode =
  i_mode :: u16
  i_uid :: u16
  i_size :: u32
  i_atime :: u32
  i_ctime :: u32
  i_mtime :: u32
  i_dtime :: u32
  i_gid :: u16
  i_links_count :: u16
  i_blocks :: u32
  i_flags :: u32
  i_osd1 :: u32
  i_block :: "u32 list"
  i_generation :: u32
  i_file_acl :: u32
  i_dir_acl :: u32
  i_faddr :: u32
  i_osd2 :: "u8 list"

record ext2_dir_entry =
  de_inode :: u32
  de_rec_len :: u16
  de_name_len :: u8
  de_file_type :: u8

text \<open>The casts and copies between these structures and bytes.\<close>

definition slice :: "nat \<Rightarrow> nat \<Rightarrow> 'a list \<Rightarrow> 'a list" where
  "slice off n xs = take n (drop off xs)"

definition dec_superblock :: "u8 list \<Rightarrow> ext2_superblock" where
  "dec_superblock b =
     \<lparr>s_inodes_count = le32 (at b) 0, s_blocks_count = le32 (at b) 4, s_r_blocks_count = le32 (at b) 8,
      s_free_blocks_count = le32 (at b) 12, s_free_inodes_count = le32 (at b) 16, s_first_data_block = le32 (at b) 20,
      s_log_block_size = le32 (at b) 24, s_log_frag_size = le32 (at b) 28, s_blocks_per_group = le32 (at b) 32,
      s_frags_per_group = le32 (at b) 36, s_inodes_per_group = le32 (at b) 40, s_mtime = le32 (at b) 44,
      s_wtime = le32 (at b) 48, s_mnt_count = le16 (at b) 52, s_max_mnt_count = le16 (at b) 54, s_magic = le16 (at b) 56,
      s_state = le16 (at b) 58, s_errors = le16 (at b) 60, s_minor_rev_level = le16 (at b) 62, s_lastcheck = le32 (at b) 64,
      s_checkinterval = le32 (at b) 68, s_creator_os = le32 (at b) 72, s_rev_level = le32 (at b) 76,
      s_def_resuid = le16 (at b) 80, s_def_resgid = le16 (at b) 82, s_first_ino = le32 (at b) 84,
      s_inode_size = le16 (at b) 88, s_block_group_nr = le16 (at b) 90, s_feature_compat = le32 (at b) 92,
      s_feature_incompat = le32 (at b) 96, s_feature_ro_compat = le32 (at b) 100, s_uuid = slice 104 16 b,
      s_volume_name = slice 120 16 b, s_last_mounted = slice 136 64 b, s_algo_bitmap = le32 (at b) 200\<rparr>"

definition enc_superblock :: "ext2_superblock \<Rightarrow> u8 list" where
  "enc_superblock sb = concat [
     enc32 (s_inodes_count sb), enc32 (s_blocks_count sb), enc32 (s_r_blocks_count sb), enc32 (s_free_blocks_count sb),
     enc32 (s_free_inodes_count sb), enc32 (s_first_data_block sb), enc32 (s_log_block_size sb), enc32 (s_log_frag_size sb),
     enc32 (s_blocks_per_group sb), enc32 (s_frags_per_group sb), enc32 (s_inodes_per_group sb), enc32 (s_mtime sb),
     enc32 (s_wtime sb), enc16 (s_mnt_count sb), enc16 (s_max_mnt_count sb), enc16 (s_magic sb), enc16 (s_state sb),
     enc16 (s_errors sb), enc16 (s_minor_rev_level sb), enc32 (s_lastcheck sb), enc32 (s_checkinterval sb),
     enc32 (s_creator_os sb), enc32 (s_rev_level sb), enc16 (s_def_resuid sb), enc16 (s_def_resgid sb),
     enc32 (s_first_ino sb), enc16 (s_inode_size sb), enc16 (s_block_group_nr sb), enc32 (s_feature_compat sb),
     enc32 (s_feature_incompat sb), enc32 (s_feature_ro_compat sb), s_uuid sb, s_volume_name sb, s_last_mounted sb,
     enc32 (s_algo_bitmap sb)]"

definition dec_bgd :: "u8 list \<Rightarrow> ext2_block_group_desc" where
  "dec_bgd b =
     \<lparr>bg_block_bitmap = le32 (at b) 0, bg_inode_bitmap = le32 (at b) 4, bg_inode_table = le32 (at b) 8,
      bg_free_blocks_count = le16 (at b) 12, bg_free_inodes_count = le16 (at b) 14, bg_used_dirs_count = le16 (at b) 16,
      bg_pad = le16 (at b) 18, bg_reserved = slice 20 12 b\<rparr>"

definition enc_bgd :: "ext2_block_group_desc \<Rightarrow> u8 list" where
  "enc_bgd g =
     enc32 (bg_block_bitmap g) @ enc32 (bg_inode_bitmap g) @ enc32 (bg_inode_table g) @ enc16 (bg_free_blocks_count g) @
     enc16 (bg_free_inodes_count g) @ enc16 (bg_used_dirs_count g) @ enc16 (bg_pad g) @ bg_reserved g"

definition dec_inode :: "u8 list \<Rightarrow> ext2_inode" where
  "dec_inode b =
     \<lparr>i_mode = le16 (at b) 0, i_uid = le16 (at b) 2, i_size = le32 (at b) 4, i_atime = le32 (at b) 8,
      i_ctime = le32 (at b) 12, i_mtime = le32 (at b) 16, i_dtime = le32 (at b) 20, i_gid = le16 (at b) 24,
      i_links_count = le16 (at b) 26, i_blocks = le32 (at b) 28, i_flags = le32 (at b) 32, i_osd1 = le32 (at b) 36,
      i_block = map (\<lambda>i. le32 (at b) (40 + 4 * i)) [0..<15], i_generation = le32 (at b) 100, i_file_acl = le32 (at b) 104,
      i_dir_acl = le32 (at b) 108, i_faddr = le32 (at b) 112, i_osd2 = slice 116 12 b\<rparr>"

definition enc_inode :: "ext2_inode \<Rightarrow> u8 list" where
  "enc_inode n =
     enc16 (i_mode n) @ enc16 (i_uid n) @ enc32 (i_size n) @ enc32 (i_atime n) @ enc32 (i_ctime n) @ enc32 (i_mtime n) @
     enc32 (i_dtime n) @ enc16 (i_gid n) @ enc16 (i_links_count n) @ enc32 (i_blocks n) @ enc32 (i_flags n) @
     enc32 (i_osd1 n) @ concat (map enc32 (i_block n)) @ enc32 (i_generation n) @ enc32 (i_file_acl n) @
     enc32 (i_dir_acl n) @ enc32 (i_faddr n) @ i_osd2 n"

definition inode_zero :: ext2_inode where
  "inode_zero = \<lparr>i_mode = 0, i_uid = 0, i_size = 0, i_atime = 0, i_ctime = 0, i_mtime = 0, i_dtime = 0, i_gid = 0,
     i_links_count = 0, i_blocks = 0, i_flags = 0, i_osd1 = 0, i_block = replicate 15 0, i_generation = 0,
     i_file_acl = 0, i_dir_acl = 0, i_faddr = 0, i_osd2 = replicate 12 0\<rparr>"

definition dec_dir_entry :: "u8 list \<Rightarrow> nat \<Rightarrow> ext2_dir_entry" where
  "dec_dir_entry b off =
     \<lparr>de_inode = le32 (at b) off, de_rec_len = le16 (at b) (off + 4), de_name_len = at b (off + 6),
      de_file_type = at b (off + 7)\<rparr>"

section \<open>The module's state\<close>

record ext2 =
  e2_disk :: disk
  ext2_mounted :: bool
  e2_sb :: ext2_superblock
  bgdt :: "ext2_block_group_desc list"
  block_size :: nat
  num_block_groups :: nat
  inode_size :: nat

text \<open>\<open>read_blk\<close> is the call with its test \<^verbatim>\<open>< 0\<close>: \<open>None\<close> when the read fails.\<close>

definition ext2_read_block :: "u32 \<Rightarrow> ext2 \<Rightarrow> int \<times> u8 list" where
  "ext2_read_block block_no s =
     (let sectors_per_block = block_size s div 512; lba = block_no * of_nat sectors_per_block
      in ata_read_sectors lba (of_nat sectors_per_block) (e2_disk s))"

definition read_blk :: "u32 \<Rightarrow> ext2 \<Rightarrow> u8 list option" where
  "read_blk b s = (case ext2_read_block b s of (r, bs) \<Rightarrow> if r < 0 then None else Some bs)"

definition dec_bgdt :: "nat \<Rightarrow> u8 list \<Rightarrow> ext2_block_group_desc list" where
  "dec_bgdt n bs = map (\<lambda>i. dec_bgd (slice (32 * i) 32 bs)) [0..<n]"

text \<open>
  \<open>heap\<close> is what \<^verbatim>\<open>kmalloc(bgdt_size)\<close> returns: \<open>None\<close> on failure, else the bytes that are in the new
  block. Only the first block of the descriptor table is copied over them.
\<close>

definition ext2_init :: "u8 list option \<Rightarrow> ext2 \<Rightarrow> int \<times> ext2" where
  "ext2_init heap s =
     (if \<not> primary_present (e2_disk s) then (-1, s)
      else
        (case ata_read_sectors 2 2 (e2_disk s) of (r, sb_buf) \<Rightarrow>
           if r < 0 then (-1, s)
           else
             (let sb = dec_superblock sb_buf; s1 = s\<lparr>e2_sb := sb\<rparr> in
              if s_magic sb \<noteq> EXT2_MAGIC then (-1, s1)
              else
                (let s2 = s1\<lparr>block_size := unat (push_bit (unat (s_log_block_size sb)) (1024 :: u32)),
                       inode_size := (if s_rev_level sb \<ge> 1 then unat (s_inode_size sb) else 128),
                       num_block_groups := unat ((s_blocks_count sb + s_blocks_per_group sb - 1) div s_blocks_per_group sb)\<rparr>
                 in if block_size s2 > 4096 then (-1, s2)
                    else
                      (let bgdt_block = (if block_size s2 = 1024 then 2 else 1);
                           n = num_block_groups s2; bgdt_size = (n * 32) mod 2 ^ 32
                       in case heap of
                            None \<Rightarrow> (-1, s2\<lparr>bgdt := []\<rparr>)
                          | Some h \<Rightarrow>
                              (case read_blk bgdt_block s2 of
                                 None \<Rightarrow> (-1, s2\<lparr>bgdt := dec_bgdt n h\<rparr>)
                               | Some b \<Rightarrow>
                                   (0, s2\<lparr>bgdt := dec_bgdt n (blit h 0 (take (min bgdt_size (block_size s2)) b)),
                                          ext2_mounted := True\<rparr>)))))))"

section \<open>Inodes and blocks\<close>

text \<open>The block of the inode table that holds an inode, and the offset in it.\<close>

definition inode_loc :: "u32 \<Rightarrow> ext2 \<Rightarrow> u32 \<times> nat" where
  "inode_loc ino s =
     (let bg = unat ((ino - 1) div s_inodes_per_group (e2_sb s));
          idx = unat ((ino - 1) mod s_inodes_per_group (e2_sb s));
          offset_in_table = (idx * inode_size s) mod 2 ^ 32
      in (bg_inode_table (bgdt s ! bg) + of_nat (offset_in_table div block_size s), offset_in_table mod block_size s))"

definition ext2_read_inode :: "u32 \<Rightarrow> ext2 \<Rightarrow> ext2_inode option" where
  "ext2_read_inode ino s =
     (if \<not> ext2_mounted s \<or> ino = 0 then None
      else (case inode_loc ino s of (b, off) \<Rightarrow> map_option (\<lambda>bs. dec_inode (slice off 128 bs)) (read_blk b s)))"

text \<open>An entry of an indirect block; 0 when the block is absent or unreadable.\<close>

definition indirect :: "u32 \<Rightarrow> nat \<Rightarrow> ext2 \<Rightarrow> u32" where
  "indirect b i s = (if b = 0 then 0 else case read_blk b s of None \<Rightarrow> 0 | Some bs \<Rightarrow> le32 (at bs) (4 * i))"

definition ext2_get_block :: "ext2_inode \<Rightarrow> nat \<Rightarrow> ext2 \<Rightarrow> u32" where
  "ext2_get_block inode block_idx s =
     (let ptrs = block_size s div 4 in
      if block_idx < 12 then i_block inode ! block_idx
      else if block_idx - 12 < ptrs then indirect (i_block inode ! 12) (block_idx - 12) s
      else if block_idx - 12 - ptrs < ptrs * ptrs then
        (let i = block_idx - 12 - ptrs in indirect (indirect (i_block inode ! 13) (i div ptrs) s) (i mod ptrs) s)
      else 0)"

text \<open>
  The copy loop of \<^verbatim>\<open>ext2_read_file\<close>. \<open>acc\<close> is what is in the caller's buffer so far. A block size
  of 0 would be a division by zero; the model stops there.
\<close>

definition chunk_len :: "nat \<Rightarrow> nat \<Rightarrow> nat \<Rightarrow> nat" where
  "chunk_len bs pos left = (let n = bs - pos mod bs in if n > left then left else n)"

lemma chunk_len_pos: "0 < bs \<Longrightarrow> 0 < left \<Longrightarrow> 0 < chunk_len bs pos left"
  by (simp add: chunk_len_def Let_def)

lemma chunk_len_le: "chunk_len bs pos left \<le> left" "0 < bs \<Longrightarrow> pos mod bs + chunk_len bs pos left \<le> bs"
proof -
  show "chunk_len bs pos left \<le> left" by (simp add: chunk_len_def Let_def)
  assume "0 < bs"
  then have "pos mod bs < bs" by simp
  then show "pos mod bs + chunk_len bs pos left \<le> bs" unfolding chunk_len_def Let_def by (split if_split) linarith
qed

function read_loop :: "ext2_inode \<Rightarrow> nat \<Rightarrow> nat \<Rightarrow> nat \<Rightarrow> u8 list \<Rightarrow> ext2 \<Rightarrow> int \<times> u8 list" where
  "read_loop inode offset sz bytes_read acc s =
     (if bytes_read < sz \<and> block_size s > 0 then
        (let pos = offset + bytes_read;
             to_read = chunk_len (block_size s) pos (sz - bytes_read);
             disk_block = ext2_get_block inode (pos div block_size s mod 2 ^ 32) s
         in if disk_block = 0 then read_loop inode offset sz (bytes_read + to_read) (acc @ replicate to_read 0) s
            else (case read_blk disk_block s of
                    None \<Rightarrow> (-1, acc)
                  | Some b \<Rightarrow> read_loop inode offset sz (bytes_read + to_read) (acc @ slice (pos mod block_size s) to_read b) s))
      else (int32 bytes_read, acc))"
  by pat_completeness auto
termination
proof (relation "measure (\<lambda>(n, off, sz, r, acc, s). sz - r)")
  fix sz bytes_read pos to_read and s :: ext2
  assume "bytes_read < sz \<and> 0 < block_size s" "to_read = chunk_len (block_size s) pos (sz - bytes_read)"
  then have "0 < to_read" "to_read \<le> sz - bytes_read" by (simp_all add: chunk_len_pos chunk_len_le)
  then have "sz - (bytes_read + to_read) < sz - bytes_read" by simp
  then show "((inode, off, sz, bytes_read + to_read, acc', s), inode, off, sz, bytes_read, acc, s)
      \<in> measure (\<lambda>(n, off, sz, r, acc, s). sz - r)" for inode off acc' acc by simp
  then show "((inode, off, sz, bytes_read + to_read, acc', s), inode, off, sz, bytes_read, acc, s)
      \<in> measure (\<lambda>(n, off, sz, r, acc, s). sz - r)" for inode off acc' acc by simp
qed simp

declare read_loop.simps [simp del]

definition ext2_read_file :: "ext2_inode \<Rightarrow> nat \<Rightarrow> nat \<Rightarrow> ext2 \<Rightarrow> int \<times> u8 list" where
  "ext2_read_file inode offset sz s =
     (let file_size = unat (i_size inode) in
      if offset \<ge> file_size then (0, [])
      else read_loop inode offset (if sz > file_size - offset then file_size - offset else sz) 0 [] s)"

section \<open>Directories and paths\<close>

text \<open>Does the entry at offset \<open>off\<close> of the block have this name?\<close>

definition entry_matches :: "u8 list \<Rightarrow> u8 list \<Rightarrow> nat \<Rightarrow> bool" where
  "entry_matches name b off \<longleftrightarrow>
     (let de = dec_dir_entry b off in
      de_inode de \<noteq> 0 \<and> unat (de_name_len de) = length name \<and>
      strncmp (\<lambda>i. at b (off + 8 + i)) (at0 name) (length name) = 0)"

text \<open>
  The inner loop of \<^verbatim>\<open>ext2_lookup\<close>: the inode of the entry if it is in this block, and the offset in the
  directory at which the loop ended.
\<close>

function lookup_scan :: "u8 list \<Rightarrow> u8 list \<Rightarrow> nat \<Rightarrow> nat \<Rightarrow> nat \<Rightarrow> nat \<Rightarrow> u32 option \<times> nat" where
  "lookup_scan name b bsize dir_size offset block_offset =
     (if block_offset < bsize \<and> offset < dir_size then
        (let de = dec_dir_entry b block_offset; rec_len = unat (de_rec_len de) in
         if rec_len = 0 then (None, offset)
         else if entry_matches name b block_offset then (Some (de_inode de), offset)
         else lookup_scan name b bsize dir_size ((offset + rec_len) mod 2 ^ 32) (block_offset + rec_len))
      else (None, offset))"
  by pat_completeness auto
termination
  by (relation "measure (\<lambda>(n, b, bsize, d, off, boff). bsize - boff)") auto

declare lookup_scan.simps [simp del]

partial_function (option) lookup_loop :: "ext2_inode \<Rightarrow> u8 list \<Rightarrow> nat \<Rightarrow> ext2 \<Rightarrow> u32 option" where
  "lookup_loop dir name offset s =
     (if offset < unat (i_size dir) then
        (let disk_block = ext2_get_block dir (offset div block_size s) s in
         if disk_block = 0 then Some 0
         else (case read_blk disk_block s of
                 None \<Rightarrow> Some 0
               | Some b \<Rightarrow>
                   (case lookup_scan name b (block_size s) (unat (i_size dir)) offset (offset mod block_size s) of
                      (Some ino, _) \<Rightarrow> Some ino
                    | (None, offset') \<Rightarrow> lookup_loop dir name offset' s)))
      else Some 0)"

definition ext2_lookup :: "u32 \<Rightarrow> u8 list \<Rightarrow> ext2 \<Rightarrow> u32 option" where
  "ext2_lookup parent_ino name s =
     (case ext2_read_inode parent_ino s of
        None \<Rightarrow> Some 0
      | Some dir \<Rightarrow> if i_mode dir AND EXT2_S_IFDIR = 0 then Some 0 else lookup_loop dir name 0 s)"

text \<open>
  The loop over the components of a path. An empty component, as in \<^verbatim>\<open>a//b\<close>, ends the loop with the
  inode reached so far.
\<close>

definition SLASH :: u8 where "SLASH = 0x2F"

function path_loop :: "u8 list \<Rightarrow> u32 \<Rightarrow> ext2 \<Rightarrow> u32 option" where
  "path_loop path cur_ino s =
     (if path = [] then Some cur_ino
      else
        (let component = takeWhile (\<lambda>c. c \<noteq> SLASH) path; rest = dropWhile (\<lambda>c. c \<noteq> SLASH) path in
         if component = [] then Some cur_ino
         else (case ext2_lookup cur_ino component s of
                 None \<Rightarrow> None
               | Some ino \<Rightarrow> if ino = 0 then Some 0 else if rest \<noteq> [] then path_loop (tl rest) ino s else Some ino)))"
  by pat_completeness auto
termination
proof (relation "measure (\<lambda>(p, i, s). length p)")
  fix path rest :: "u8 list" and i j :: u32 and s :: ext2
  assume r: "rest = dropWhile (\<lambda>c. c \<noteq> SLASH) path" "rest \<noteq> []"
  have "length rest \<le> length path" unfolding r(1) by (rule length_dropWhile_le)
  moreover have "0 < length rest" using r(2) by simp
  ultimately have "length (tl rest) < length path" unfolding length_tl by linarith
  then show "((tl rest, i, s), path, j, s) \<in> measure (\<lambda>(p, i, s). length p)" by simp
qed simp

declare path_loop.simps [simp del]

definition ext2_path_lookup :: "u8 list \<Rightarrow> ext2 \<Rightarrow> u32 option" where
  "ext2_path_lookup path s =
     (if \<not> ext2_mounted s then Some 0
      else
        (let p = (if path \<noteq> [] \<and> hd path = SLASH then tl path else path) in
         if p = [] then Some EXT2_ROOT_INODE else path_loop (take 255 p) EXT2_ROOT_INODE s))"

definition ext2_read_path :: "u8 list \<Rightarrow> nat \<Rightarrow> ext2 \<Rightarrow> (int \<times> u8 list) option" where
  "ext2_read_path path buf_size s =
     map_option (\<lambda>ino. if ino = 0 then (-1, [])
                       else (case ext2_read_inode ino s of None \<Rightarrow> (-1, []) | Some inode \<Rightarrow> ext2_read_file inode 0 buf_size s))
       (ext2_path_lookup path s)"

end
