(* ===== verification/Ext2Write.thy ===== *)
theory Ext2Write
  imports Ext2
begin

text \<open>
  The ext2 file system, writing side: the block and inode bitmaps, writing inodes and metadata,
  writing files, directory entries, creation, removal and renaming (\<^verbatim>\<open>kernel/fs/ext2.c\<close> from
  \<^verbatim>\<open>ext2_write_block\<close> on). Where a function calls a directory scan that may not return, its
  result is an option. The results of writes that the source ignores are ignored here.
\<close>

section \<open>Blocks and bitmaps\<close>

definition ext2_write_block :: "u32 \<Rightarrow> u8 list \<Rightarrow> ext2 \<Rightarrow> int \<times> ext2" where
  "ext2_write_block block_no buf s =
     (let sectors_per_block = block_size s div 512; lba = block_no * of_nat sectors_per_block
      in case ata_write_sectors lba (of_nat sectors_per_block) buf (e2_disk s) of (r, d) \<Rightarrow> (r, s\<lparr>e2_disk := d\<rparr>))"

text \<open>
  The search of both allocators: the first group with a non-zero count whose bitmap has a clear bit
  among the first \<open>per\<close>; the bit is set on disk.
\<close>

definition find_clear :: "u8 list \<Rightarrow> nat \<Rightarrow> nat option" where
  "find_clear bm per = find (\<lambda>i. \<not> bitmap_test bm i) [0..<per]"

fun alloc_groups ::
  "(ext2_block_group_desc \<Rightarrow> u16) \<Rightarrow> (ext2_block_group_desc \<Rightarrow> u32) \<Rightarrow> nat \<Rightarrow> nat list \<Rightarrow> ext2 \<Rightarrow> (nat \<times> nat) option \<times> ext2" where
  "alloc_groups cnt bmp per [] s = (None, s)"
| "alloc_groups cnt bmp per (bg # bgs) s =
     (if cnt (bgdt s ! bg) = 0 then alloc_groups cnt bmp per bgs s
      else (case read_blk (bmp (bgdt s ! bg)) s of
              None \<Rightarrow> alloc_groups cnt bmp per bgs s
            | Some bm \<Rightarrow>
                (case find_clear bm per of
                   None \<Rightarrow> alloc_groups cnt bmp per bgs s
                 | Some i \<Rightarrow> (Some (bg, i), snd (ext2_write_block (bmp (bgdt s ! bg)) (bitmap_set i bm) s)))))"

definition upd_bgd :: "nat \<Rightarrow> (ext2_block_group_desc \<Rightarrow> ext2_block_group_desc) \<Rightarrow> ext2 \<Rightarrow> ext2" where
  "upd_bgd bg f s = s\<lparr>bgdt := upd_nth bg f (bgdt s)\<rparr>"

definition upd_sb :: "(ext2_superblock \<Rightarrow> ext2_superblock) \<Rightarrow> ext2 \<Rightarrow> ext2" where
  "upd_sb f s = s\<lparr>e2_sb := f (e2_sb s)\<rparr>"

definition ext2_alloc_block :: "ext2 \<Rightarrow> u32 \<times> ext2" where
  "ext2_alloc_block s =
     (case alloc_groups bg_free_blocks_count bg_block_bitmap (unat (s_blocks_per_group (e2_sb s))) [0..<num_block_groups s] s of
        (None, t) \<Rightarrow> (0, t)
      | (Some (bg, i), t) \<Rightarrow>
          (of_nat bg * s_blocks_per_group (e2_sb s) + of_nat i + s_first_data_block (e2_sb s),
           upd_sb (\<lambda>sb. sb\<lparr>s_free_blocks_count := s_free_blocks_count sb - 1\<rparr>)
             (upd_bgd bg (\<lambda>g. g\<lparr>bg_free_blocks_count := bg_free_blocks_count g - 1\<rparr>) t)))"

definition ext2_free_block :: "u32 \<Rightarrow> ext2 \<Rightarrow> ext2" where
  "ext2_free_block block_no s =
     (if block_no = 0 then s
      else
        (let adjusted = block_no - s_first_data_block (e2_sb s);
             bg = unat (adjusted div s_blocks_per_group (e2_sb s));
             idx = unat (adjusted mod s_blocks_per_group (e2_sb s))
         in if bg \<ge> num_block_groups s then s
            else (case read_blk (bg_block_bitmap (bgdt s ! bg)) s of
                    None \<Rightarrow> s
                  | Some bm \<Rightarrow>
                      upd_sb (\<lambda>sb. sb\<lparr>s_free_blocks_count := s_free_blocks_count sb + 1\<rparr>)
                        (upd_bgd bg (\<lambda>g. g\<lparr>bg_free_blocks_count := bg_free_blocks_count g + 1\<rparr>)
                          (snd (ext2_write_block (bg_block_bitmap (bgdt s ! bg)) (bitmap_clear idx bm) s))))))"

definition ext2_alloc_inode :: "ext2 \<Rightarrow> u32 \<times> ext2" where
  "ext2_alloc_inode s =
     (case alloc_groups bg_free_inodes_count bg_inode_bitmap (unat (s_inodes_per_group (e2_sb s))) [0..<num_block_groups s] s of
        (None, t) \<Rightarrow> (0, t)
      | (Some (bg, i), t) \<Rightarrow>
          (of_nat bg * s_inodes_per_group (e2_sb s) + of_nat i + 1,
           upd_sb (\<lambda>sb. sb\<lparr>s_free_inodes_count := s_free_inodes_count sb - 1\<rparr>)
             (upd_bgd bg (\<lambda>g. g\<lparr>bg_free_inodes_count := bg_free_inodes_count g - 1\<rparr>) t)))"

definition ext2_free_inode :: "u32 \<Rightarrow> ext2 \<Rightarrow> ext2" where
  "ext2_free_inode ino s =
     (if ino = 0 then s
      else
        (let bg = unat ((ino - 1) div s_inodes_per_group (e2_sb s));
             idx = unat ((ino - 1) mod s_inodes_per_group (e2_sb s))
         in if bg \<ge> num_block_groups s then s
            else (case read_blk (bg_inode_bitmap (bgdt s ! bg)) s of
                    None \<Rightarrow> s
                  | Some bm \<Rightarrow>
                      upd_sb (\<lambda>sb. sb\<lparr>s_free_inodes_count := s_free_inodes_count sb + 1\<rparr>)
                        (upd_bgd bg (\<lambda>g. g\<lparr>bg_free_inodes_count := bg_free_inodes_count g + 1\<rparr>)
                          (snd (ext2_write_block (bg_inode_bitmap (bgdt s ! bg)) (bitmap_clear idx bm) s))))))"

section \<open>Inodes and metadata\<close>

definition ext2_write_inode :: "u32 \<Rightarrow> ext2_inode \<Rightarrow> ext2 \<Rightarrow> int \<times> ext2" where
  "ext2_write_inode ino inode s =
     (if \<not> ext2_mounted s \<or> ino = 0 then (-1, s)
      else (case inode_loc ino s of (b, off) \<Rightarrow>
              (case read_blk b s of
                 None \<Rightarrow> (-1, s)
               | Some bs \<Rightarrow> ext2_write_block b (blit bs off (enc_inode inode)) s)))"

definition ext2_flush_metadata :: "ext2 \<Rightarrow> ext2" where
  "ext2_flush_metadata s =
     (let sb_buf = enc_superblock (e2_sb s) @ replicate (1024 - 204) 0;
          s1 = s\<lparr>e2_disk := snd (ata_write_sectors 2 2 sb_buf (e2_disk s))\<rparr>;
          bgdt_block = (if block_size s = 1024 then 2 else 1);
          bgdt_size = (num_block_groups s * 32) mod 2 ^ 32
      in case read_blk bgdt_block s1 of
           None \<Rightarrow> s1
         | Some b \<Rightarrow>
             snd (ext2_write_block bgdt_block
                    (blit b 0 (take (min bgdt_size (block_size s)) (concat (map enc_bgd (bgdt s))))) s1))"

section \<open>Writing files\<close>

definition ext2_set_block :: "ext2_inode \<Rightarrow> nat \<Rightarrow> u32 \<Rightarrow> ext2 \<Rightarrow> int \<times> ext2_inode \<times> ext2" where
  "ext2_set_block inode block_idx disk_block s =
     (let ptrs = block_size s div 4 in
      if block_idx < 12 then (0, inode\<lparr>i_block := (i_block inode)[block_idx := disk_block]\<rparr>, s)
      else if block_idx - 12 < ptrs then
        (case (if i_block inode ! 12 = 0 then
                 (case ext2_alloc_block s of (ind, t) \<Rightarrow>
                    if ind = 0 then None
                    else Some (inode\<lparr>i_block := (i_block inode)[12 := ind]\<rparr>,
                               snd (ext2_write_block ind (replicate (block_size s) 0) t)))
               else Some (inode, s)) of
           None \<Rightarrow> (-1, inode, snd (ext2_alloc_block s))
         | Some (inode', s') \<Rightarrow>
             (case read_blk (i_block inode' ! 12) s' of
                None \<Rightarrow> (-1, inode', s')
              | Some b \<Rightarrow>
                  (case ext2_write_block (i_block inode' ! 12) (blit b (4 * (block_idx - 12)) (enc32 disk_block)) s' of
                     (r, t) \<Rightarrow> (r, inode', t))))
      else (-1, inode, s))"

text \<open>
  The part of an iteration of \<^verbatim>\<open>ext2_write_file\<close> that makes sure the block exists: the block, the inode
  and the state, \<open>None\<close> when no block is free. The result of \<^verbatim>\<open>ext2_set_block\<close> is not looked at.
\<close>

definition ensure_block :: "ext2_inode \<Rightarrow> nat \<Rightarrow> ext2 \<Rightarrow> u32 option \<times> ext2_inode \<times> ext2" where
  "ensure_block inode block_idx s =
     (let disk_block = ext2_get_block inode block_idx s in
      if disk_block \<noteq> 0 then (Some disk_block, inode, s)
      else
        (case ext2_alloc_block s of (b, s1) \<Rightarrow>
           if b = 0 then (None, inode, s1)
           else
             (case ext2_set_block inode block_idx b s1 of (_, inode1, s2) \<Rightarrow>
                (Some b, inode1\<lparr>i_blocks := i_blocks inode1 + of_nat (block_size s div 512)\<rparr>,
                 snd (ext2_write_block b (replicate (block_size s) 0) s2)))))"

text \<open>
  One iteration: \<open>data\<close> is written at position \<open>pos\<close> of the file, within one block. The first component is
  \<open>False\<close> when the function returns early. A full block is not read first; the bytes of the buffer are
  then all overwritten.
\<close>

definition write_chunk :: "ext2_inode \<Rightarrow> nat \<Rightarrow> u8 list \<Rightarrow> ext2 \<Rightarrow> bool \<times> ext2_inode \<times> ext2" where
  "write_chunk inode pos data s =
     (case ensure_block inode (pos div block_size s mod 2 ^ 32) s of
        (None, inode1, s1) \<Rightarrow> (False, inode1, s1)
      | (Some b, inode1, s1) \<Rightarrow>
          (let off = pos mod block_size s in
           case (if off \<noteq> 0 \<or> length data \<noteq> block_size s then read_blk b s1 else Some (replicate (block_size s) 0)) of
             None \<Rightarrow> (False, inode1, s1)
           | Some old \<Rightarrow>
               (case ext2_write_block b (blit old off data) s1 of (r, s2) \<Rightarrow> (\<not> r < 0, inode1, s2))))"

text \<open>The loop; the first component of the result is \<open>Some r\<close> when the function returned \<open>r\<close> early.\<close>

function write_loop :: "ext2_inode \<Rightarrow> nat \<Rightarrow> u8 list \<Rightarrow> nat \<Rightarrow> ext2 \<Rightarrow> int option \<times> ext2_inode \<times> ext2" where
  "write_loop inode offset buf bytes_written s =
     (if bytes_written < length buf \<and> block_size s > 0 then
        (let pos = offset + bytes_written;
             to_write = chunk_len (block_size s) pos (length buf - bytes_written)
         in case write_chunk inode pos (slice bytes_written to_write buf) s of
              (False, inode1, s1) \<Rightarrow> (Some (if bytes_written > 0 then int32 bytes_written else -1), inode1, s1)
            | (True, inode1, s1) \<Rightarrow> write_loop inode1 offset buf (bytes_written + to_write) s1)
      else (None, inode, s))"
  by pat_completeness auto
termination
proof (relation "measure (\<lambda>(n, off, buf, w, s). length buf - w)")
  fix buf :: "u8 list" and w pos to_write and s t :: ext2 and i j off
  assume "w < length buf \<and> 0 < block_size s" "to_write = chunk_len (block_size s) pos (length buf - w)"
  then have "0 < to_write" "to_write \<le> length buf - w" by (simp_all add: chunk_len_pos chunk_len_le)
  then show "((i, off, buf, w + to_write, t), j, off, buf, w, s) \<in> measure (\<lambda>(n, off, buf, w, s). length buf - w)" by simp
qed simp

declare write_loop.simps [simp del]

definition ext2_write_file :: "u32 \<Rightarrow> ext2_inode \<Rightarrow> nat \<Rightarrow> u8 list \<Rightarrow> ext2 \<Rightarrow> int \<times> ext2_inode \<times> ext2" where
  "ext2_write_file ino inode offset buf s =
     (if \<not> ext2_mounted s then (-1, inode, s)
      else
        (case write_loop inode offset buf 0 s of
           (Some r, inode1, s1) \<Rightarrow> (r, inode1, s1)
         | (None, inode1, s1) \<Rightarrow>
             (let new_end = offset + length buf;
                  inode2 = (if new_end > unat (i_size inode1) then inode1\<lparr>i_size := of_nat new_end\<rparr> else inode1);
                  s2 = ext2_flush_metadata (snd (ext2_write_inode ino inode2 s1))
              in (int32 (length buf), inode2, s2))))"

section \<open>Directory entries\<close>

definition round4 :: "nat \<Rightarrow> nat" where
  "round4 n = (n + 3) div 4 * 4"

definition new_entry :: "u32 \<Rightarrow> u16 \<Rightarrow> u8 list \<Rightarrow> u8 \<Rightarrow> u8 list" where
  "new_entry ino rec_len name file_type = enc32 ino @ enc16 rec_len @ [of_nat (length name), file_type] @ name"

text \<open>
  The inner loop of \<^verbatim>\<open>ext2_add_dir_entry\<close>: the block with the new entry, or the offset at which the loop
  ended. The free space behind an entry is an unsigned difference.
\<close>

function add_scan :: "u32 \<Rightarrow> u8 list \<Rightarrow> u8 \<Rightarrow> u8 list \<Rightarrow> nat \<Rightarrow> nat \<Rightarrow> nat \<Rightarrow> nat \<Rightarrow> u8 list + nat" where
  "add_scan ino name ft b bsize dir_size offset block_offset =
     (if block_offset < bsize \<and> offset < dir_size then
        (let de = dec_dir_entry b block_offset; rec_len = unat (de_rec_len de);
             actual = round4 (8 + unat (de_name_len de)); free_space = sub32 rec_len actual
         in if rec_len = 0 then Inr offset
            else if free_space \<ge> round4 (8 + length name) then
              Inl (blit (blit b (block_offset + 4) (enc16 (of_nat actual))) (block_offset + actual)
                     (new_entry ino (de_rec_len de - of_nat actual) name ft))
            else add_scan ino name ft b bsize dir_size ((offset + rec_len) mod 2 ^ 32) (block_offset + rec_len))
      else Inr offset)"
  by pat_completeness auto
termination
  by (relation "measure (\<lambda>(i, n, ft, b, bsize, d, off, boff). bsize - boff)") auto

declare add_scan.simps [simp del]

text \<open>The outer loop: \<open>Some (Some r)\<close> when the function returned \<open>r\<close>, \<open>Some None\<close> when no block has room.\<close>

partial_function (option) add_loop ::
  "ext2_inode \<Rightarrow> u32 \<Rightarrow> u8 list \<Rightarrow> u8 \<Rightarrow> nat \<Rightarrow> ext2 \<Rightarrow> (int \<times> ext2) option option" where
  "add_loop dir ino name ft offset s =
     (if offset < unat (i_size dir) then
        (let disk_block = ext2_get_block dir (offset div block_size s) s in
         if disk_block = 0 then Some None
         else (case read_blk disk_block s of
                 None \<Rightarrow> Some (Some (-1, s))
               | Some b \<Rightarrow>
                   (case add_scan ino name ft b (block_size s) (unat (i_size dir)) offset (offset mod block_size s) of
                      Inl b' \<Rightarrow> Some (Some (0, snd (ext2_write_block disk_block b' s)))
                    | Inr offset' \<Rightarrow> add_loop dir ino name ft offset' s)))
      else Some None)"

definition add_dir_block :: "u32 \<Rightarrow> ext2_inode \<Rightarrow> u32 \<Rightarrow> u8 list \<Rightarrow> u8 \<Rightarrow> ext2 \<Rightarrow> int \<times> ext2" where
  "add_dir_block dir_ino dir ino name ft s =
     (case ext2_alloc_block s of (new_block, s1) \<Rightarrow>
        if new_block = 0 then (-1, s1)
        else
          (case ext2_set_block dir (unat (i_size dir) div block_size s) new_block s1 of (_, dir1, s2) \<Rightarrow>
             (let dir2 = dir1\<lparr>i_blocks := i_blocks dir1 + of_nat (block_size s div 512),
                              i_size := i_size dir1 + of_nat (block_size s)\<rparr>;
                  b = blit (replicate (block_size s) 0) 0 (new_entry ino (of_nat (block_size s)) name ft);
                  s3 = snd (ext2_write_block new_block b s2);
                  s4 = snd (ext2_write_inode dir_ino dir2 s3)
              in (0, ext2_flush_metadata s4))))"

definition ext2_add_dir_entry :: "u32 \<Rightarrow> u32 \<Rightarrow> u8 list \<Rightarrow> u8 \<Rightarrow> ext2 \<Rightarrow> (int \<times> ext2) option" where
  "ext2_add_dir_entry dir_ino ino name file_type s =
     (case ext2_read_inode dir_ino s of
        None \<Rightarrow> Some (-1, s)
      | Some dir \<Rightarrow>
          do { res \<leftarrow> add_loop dir ino name file_type 0 s;
               Some (case res of Some r \<Rightarrow> r | None \<Rightarrow> add_dir_block dir_ino dir ino name file_type s) })"

text \<open>The inner loop of \<^verbatim>\<open>ext2_remove_dir_entry\<close>: the block without the entry, if it is there.\<close>

function remove_scan :: "u8 list \<Rightarrow> u8 list \<Rightarrow> nat \<Rightarrow> nat \<Rightarrow> nat option \<Rightarrow> u8 list option" where
  "remove_scan name b bsize block_offset prev =
     (if block_offset < bsize then
        (let de = dec_dir_entry b block_offset; rec_len = unat (de_rec_len de) in
         if rec_len = 0 then None
         else if entry_matches name b block_offset then
           Some (case prev of
                   Some p \<Rightarrow> blit b (p + 4) (enc16 (de_rec_len (dec_dir_entry b p) + de_rec_len de))
                 | None \<Rightarrow> blit b block_offset (enc32 0))
         else remove_scan name b bsize (block_offset + rec_len) (Some block_offset))
      else None)"
  by pat_completeness auto
termination
  by (relation "measure (\<lambda>(n, b, bsize, boff, p). bsize - boff)") auto

declare remove_scan.simps [simp del]

partial_function (option) remove_loop :: "ext2_inode \<Rightarrow> u8 list \<Rightarrow> nat \<Rightarrow> ext2 \<Rightarrow> (int \<times> ext2) option" where
  "remove_loop dir name offset s =
     (if offset < unat (i_size dir) then
        (let disk_block = ext2_get_block dir (offset div block_size s) s in
         if disk_block = 0 then Some (-1, s)
         else (case read_blk disk_block s of
                 None \<Rightarrow> Some (-1, s)
               | Some b \<Rightarrow>
                   (case remove_scan name b (block_size s) 0 None of
                      Some b' \<Rightarrow> Some (0, snd (ext2_write_block disk_block b' s))
                    | None \<Rightarrow> remove_loop dir name ((offset + block_size s) mod 2 ^ 32) s)))
      else Some (-1, s))"

definition ext2_remove_dir_entry :: "u32 \<Rightarrow> u8 list \<Rightarrow> ext2 \<Rightarrow> (int \<times> ext2) option" where
  "ext2_remove_dir_entry dir_ino name s =
     (case ext2_read_inode dir_ino s of None \<Rightarrow> Some (-1, s) | Some dir \<Rightarrow> remove_loop dir name 0 s)"

section \<open>Files and directories\<close>

definition ext2_create :: "u32 \<Rightarrow> u8 list \<Rightarrow> u16 \<Rightarrow> ext2 \<Rightarrow> (u32 \<times> ext2) option" where
  "ext2_create parent_ino name mode s =
     (if \<not> ext2_mounted s then Some (0, s)
      else do {
        old \<leftarrow> ext2_lookup parent_ino name s;
        if old \<noteq> 0 then Some (0, s)
        else (case ext2_alloc_inode s of (ino, s1) \<Rightarrow>
          if ino = 0 then Some (0, s1)
          else (case ext2_write_inode ino (inode_zero\<lparr>i_mode := mode, i_links_count := 1\<rparr>) s1 of (r, s2) \<Rightarrow>
            if r < 0 then Some (0, ext2_free_inode ino s2)
            else do {
              (r', s3) \<leftarrow> ext2_add_dir_entry parent_ino ino name
                 (if mode AND EXT2_S_IFDIR \<noteq> 0 then EXT2_FT_DIR else EXT2_FT_REG_FILE) s2;
              Some (if r' < 0 then (0, ext2_free_inode ino s3) else (ino, ext2_flush_metadata s3)) })) })"

text \<open>The block of a new directory, with the entries for itself and its parent.\<close>

definition dot_block :: "u32 \<Rightarrow> u32 \<Rightarrow> nat \<Rightarrow> u8 list" where
  "dot_block ino parent_ino bsize =
     blit (blit (replicate bsize 0) 0 (new_entry ino 12 [0x2E] EXT2_FT_DIR)) 12
       (new_entry parent_ino (of_nat (bsize - 12)) [0x2E, 0x2E] EXT2_FT_DIR)"

definition ext2_mkdir :: "u32 \<Rightarrow> u8 list \<Rightarrow> ext2 \<Rightarrow> (u32 \<times> ext2) option" where
  "ext2_mkdir parent_ino name s =
     (if \<not> ext2_mounted s then Some (0, s)
      else do {
        old \<leftarrow> ext2_lookup parent_ino name s;
        if old \<noteq> 0 then Some (0, s)
        else (case ext2_alloc_inode s of (ino, s1) \<Rightarrow>
          if ino = 0 then Some (0, s1)
          else (case ext2_alloc_block s1 of (dir_block, s2) \<Rightarrow>
            if dir_block = 0 then Some (0, ext2_free_inode ino s2)
            else
              (let inode = inode_zero\<lparr>i_mode := EXT2_S_IFDIR OR 0x1ED, i_links_count := 2, i_size := of_nat (block_size s),
                     i_blocks := of_nat (block_size s div 512), i_block := (replicate 15 0)[0 := dir_block]\<rparr>;
                   s3 = snd (ext2_write_block dir_block (dot_block ino parent_ino (block_size s)) s2);
                   s4 = snd (ext2_write_inode ino inode s3)
               in do {
                 (r, s5) \<leftarrow> ext2_add_dir_entry parent_ino ino name EXT2_FT_DIR s4;
                 Some (if r < 0 then (0, ext2_free_inode ino (ext2_free_block dir_block s5))
                       else
                         (let s6 = (case ext2_read_inode parent_ino s5 of
                                      None \<Rightarrow> s5
                                    | Some p \<Rightarrow> snd (ext2_write_inode parent_ino (p\<lparr>i_links_count := i_links_count p + 1\<rparr>) s5));
                              bg = unat ((ino - 1) div s_inodes_per_group (e2_sb s6))
                          in (ino, ext2_flush_metadata
                                (upd_bgd bg (\<lambda>g. g\<lparr>bg_used_dirs_count := bg_used_dirs_count g + 1\<rparr>) s6)))) }))) })"

text \<open>The blocks of a file that \<^verbatim>\<open>ext2_unlink\<close> frees, in order; 0 entries are skipped.\<close>

definition free_blocks :: "u32 list \<Rightarrow> ext2 \<Rightarrow> ext2" where
  "free_blocks bs s = fold (\<lambda>b s. if b \<noteq> 0 then ext2_free_block b s else s) bs s"

definition free_inode_blocks :: "ext2_inode \<Rightarrow> ext2 \<Rightarrow> ext2" where
  "free_inode_blocks inode s =
     (let num_blocks = unat (i_size inode + of_nat (block_size s) - 1) div block_size s;
          s1 = free_blocks (take (min num_blocks 12) (i_block inode)) s;
          ind = i_block inode ! 12
      in if ind = 0 then s1
         else
           (let s2 = (case read_blk ind s1 of
                        None \<Rightarrow> s1
                      | Some b \<Rightarrow> free_blocks (map (\<lambda>i. le32 (at b) (4 * i)) [0..<block_size s div 4]) s1)
            in ext2_free_block ind s2))"

definition ext2_unlink :: "u32 \<Rightarrow> u8 list \<Rightarrow> ext2 \<Rightarrow> (int \<times> ext2) option" where
  "ext2_unlink parent_ino name s =
     (if \<not> ext2_mounted s then Some (-1, s)
      else do {
        ino \<leftarrow> ext2_lookup parent_ino name s;
        if ino = 0 then Some (-1, s)
        else do {
          (r, s1) \<leftarrow> ext2_remove_dir_entry parent_ino name s;
          Some (if r < 0 then (-1, s1)
                else (case ext2_read_inode ino s1 of
                        None \<Rightarrow> (-1, s1)
                      | Some inode0 \<Rightarrow>
                          (let inode = inode0\<lparr>i_links_count := i_links_count inode0 - 1\<rparr>;
                               (inode', s2) = (if i_links_count inode = 0
                                               then (inode_zero, ext2_free_inode ino (free_inode_blocks inode s1)) else (inode, s1))
                           in (0, ext2_flush_metadata (snd (ext2_write_inode ino inode' s2)))))) } })"

text \<open>The part before the last slash and the part behind it, cut to the sizes of the buffers.\<close>

definition ext2_path_split :: "u8 list \<Rightarrow> u8 list \<times> u8 list" where
  "ext2_path_split path =
     (let name = rev (takeWhile (\<lambda>c. c \<noteq> SLASH) (rev path));
          slash = int (length path) - int (length name) - 1
      in if slash \<le> 0 then ([SLASH], take 127 name)
         else (take (if slash < 127 then nat slash else 127) path, take 127 name))"

definition ext2_rename :: "u8 list \<Rightarrow> u8 list \<Rightarrow> ext2 \<Rightarrow> (int \<times> ext2) option" where
  "ext2_rename old_path new_path s =
     (if \<not> ext2_mounted s then Some (-1, s)
      else do {
        old_ino \<leftarrow> ext2_path_lookup old_path s;
        if old_ino = 0 then Some (-1, s)
        else
          (let (old_parent, old_name) = ext2_path_split old_path; (new_parent, new_name) = ext2_path_split new_path in
           do {
             old_dir_ino \<leftarrow> ext2_path_lookup old_parent s;
             new_dir_ino \<leftarrow> ext2_path_lookup new_parent s;
             if old_dir_ino = 0 \<or> new_dir_ino = 0 then Some (-1, s)
             else (case ext2_read_inode old_ino s of
                     None \<Rightarrow> Some (-1, s)
                   | Some old_inode \<Rightarrow>
                       (let ftype = (if i_mode old_inode AND EXT2_S_IFDIR \<noteq> 0 then EXT2_FT_DIR else EXT2_FT_REG_FILE) in
                        do {
                          dst_ino \<leftarrow> ext2_lookup new_dir_ino new_name s;
                          (_, s1) \<leftarrow> (if dst_ino \<noteq> 0 then ext2_unlink new_dir_ino new_name s else Some (0, s));
                          (r, s2) \<leftarrow> ext2_add_dir_entry new_dir_ino old_ino new_name ftype s1;
                          if r < 0 then Some (-1, s2)
                          else do {
                            (r', s3) \<leftarrow> ext2_remove_dir_entry old_dir_ino old_name s2;
                            if r' < 0 then do { (_, s4) \<leftarrow> ext2_remove_dir_entry new_dir_ino new_name s3; Some (-1, s4) }
                            else Some (0, ext2_flush_metadata s3) } })) }) })"

record ext2_stats =
  st_total_blocks :: u32
  st_free_blocks :: u32
  st_total_inodes :: u32
  st_free_inodes :: u32
  st_block_size :: nat

definition ext2_get_stats :: "ext2 \<Rightarrow> ext2_stats option" where
  "ext2_get_stats s =
     (if \<not> ext2_mounted s then None
      else Some \<lparr>st_total_blocks = s_blocks_count (e2_sb s), st_free_blocks = s_free_blocks_count (e2_sb s),
                 st_total_inodes = s_inodes_count (e2_sb s), st_free_inodes = s_free_inodes_count (e2_sb s),
                 st_block_size = block_size s\<rparr>)"

end
