(* ===== verification/Ext2Blocks.thy ===== *)
theory Ext2Blocks
  imports Ext2Write
begin

text \<open>
  The disk as a store of blocks, as the file system sees it through \<^verbatim>\<open>ext2_read_block\<close> and
  \<^verbatim>\<open>ext2_write_block\<close>, and the block bitmap as a pool of free blocks.
\<close>

section \<open>The block store\<close>

definition spb :: "ext2 \<Rightarrow> nat" where
  "spb s = block_size s div 512"

definition blk :: "ext2 \<Rightarrow> u32 \<Rightarrow> u8 list" where
  "blk s b = concat (map (sectors (e2_disk s)) [unat b * spb s..<unat b * spb s + spb s])"

text \<open>A working disk of whole sectors; a block whose sectors have 28-bit addresses.\<close>

definition disk_ok :: "ext2 \<Rightarrow> bool" where
  "disk_ok s \<longleftrightarrow> intact (e2_disk s) \<and> power (e2_disk s) = None \<and> (\<forall>a. length (sectors (e2_disk s) a) = 512) \<and>
     block_size s \<in> {1024, 2048, 4096}"

definition blk_ok :: "ext2 \<Rightarrow> u32 \<Rightarrow> bool" where
  "blk_ok s b \<longleftrightarrow> unat b * spb s + spb s \<le> 2 ^ 28"

definition put_blk :: "u32 \<Rightarrow> u8 list \<Rightarrow> ext2 \<Rightarrow> ext2" where
  "put_blk b x s = snd (ext2_write_block b x s)"

lemma disk_ok_spb: "disk_ok s \<Longrightarrow> spb s \<in> {2, 4, 8} \<and> block_size s = 512 * spb s"
  by (auto simp: disk_ok_def spb_def)

lemma lba_ok:
  assumes "disk_ok s" "blk_ok s b"
  shows "lba28 (b * of_nat (spb s)) = unat b * spb s" "sector_count (of_nat (spb s)) = spb s"
proof -
  have sp: "spb s \<in> {2, 4, 8}" using disk_ok_spb [OF assms(1)] by blast
  have lt: "unat b * spb s < 2 ^ 28" using assms(2) sp by (auto simp: blk_ok_def)
  have "unat (of_nat (spb s) :: u32) = spb s" using sp by auto
  then have "unat (b * of_nat (spb s)) = unat b * spb s" using lt by (simp add: unat_word_ariths)
  then show "lba28 (b * of_nat (spb s)) = unat b * spb s" using lt by (simp add: lba28_def)
  show "sector_count (of_nat (spb s)) = spb s" using sp by (auto simp: sector_count_def)
qed

lemma length_concat_512: "(\<And>a. length (f a) = 512) \<Longrightarrow> length (concat (map f xs)) = 512 * length xs"
  by (induction xs) auto

lemma length_blk: "disk_ok s \<Longrightarrow> length (blk s b) = block_size s"
proof -
  assume ok: "disk_ok s"
  have "length (blk s b) = 512 * length [unat b * spb s..<unat b * spb s + spb s]"
    unfolding blk_def by (rule length_concat_512) (use ok in \<open>simp add: disk_ok_def\<close>)
  then show ?thesis using disk_ok_spb [OF ok] by simp
qed

lemma read_blk_ok: "disk_ok s \<Longrightarrow> blk_ok s b \<Longrightarrow> read_blk b s = Some (blk s b)"
  using lba_ok [of s b]
  by (simp add: read_blk_def ext2_read_block_def Let_def spb_def [symmetric] ata_read_sectors_eq blk_def disk_ok_def)

lemma write_blk_eq:
  assumes "disk_ok s" "blk_ok s b"
  shows "ext2_write_block b x s = (0, put_blk b x s)"
    "put_blk b x s = s\<lparr>e2_disk := disk_writes (sector_writes (unat b * spb s) (spb s) x) (e2_disk s)\<rparr>"
proof -
  have "ext2_write_block b x s = (0, s\<lparr>e2_disk := disk_writes (sector_writes (unat b * spb s) (spb s) x) (e2_disk s)\<rparr>)"
    using assms lba_ok [OF assms]
    by (simp add: ext2_write_block_def Let_def spb_def [symmetric] ata_write_sectors_eq disk_ok_def)
  then show "ext2_write_block b x s = (0, put_blk b x s)"
    "put_blk b x s = s\<lparr>e2_disk := disk_writes (sector_writes (unat b * spb s) (spb s) x) (e2_disk s)\<rparr>"
    by (simp_all add: put_blk_def)
qed

lemma power_disk_writes: "power d = None \<Longrightarrow> power (disk_writes ws d) = None"
  by (induction ws arbitrary: d) (auto simp: disk_writes_def write_sector_def)

lemma put_blk_frame [simp]:
  "ext2_mounted (put_blk b x s) = ext2_mounted s" "e2_sb (put_blk b x s) = e2_sb s" "bgdt (put_blk b x s) = bgdt s"
  "block_size (put_blk b x s) = block_size s" "num_block_groups (put_blk b x s) = num_block_groups s"
  "inode_size (put_blk b x s) = inode_size s" "spb (put_blk b x s) = spb s" "blk_ok (put_blk b x s) = blk_ok s"
  by (auto simp: put_blk_def ext2_write_block_def Let_def spb_def blk_ok_def fun_eq_iff split: prod.splits)

text \<open>Writing sectors that make up whole blocks of data.\<close>

lemma sectors_written:
  assumes ok: "disk_ok s" and len: "length x = 512 * n"
    and t: "t = s\<lparr>e2_disk := disk_writes (sector_writes a n x) (e2_disk s)\<rparr>"
  shows "disk_ok t" "\<And>i. i < n \<Longrightarrow> sectors (e2_disk t) (a + i) = slice (512 * i) 512 x"
    "\<And>c. c < a \<or> a + n \<le> c \<Longrightarrow> sectors (e2_disk t) c = sectors (e2_disk s) c"
proof -
  let ?d = "e2_disk s" and ?ws = "sector_writes a n x"
  have sec: "sectors (e2_disk t) = apply_writes ?ws (sectors ?d)"
    using ok by (simp add: t sectors_disk_writes survive_def disk_ok_def)
  show one: "sectors (e2_disk t) (a + i) = slice (512 * i) 512 x" if "i < n" for i
    using apply_sector_writes [OF that] by (simp add: sec slice_def)
  show two: "sectors (e2_disk t) c = sectors ?d c" if "c < a \<or> a + n \<le> c" for c
    using that apply_writes_other [of c ?ws] by (auto simp: sec fst_sector_writes)
  have "length (sectors (e2_disk t) c) = 512" for c
  proof (cases "a \<le> c \<and> c < a + n")
    case True
    then obtain i where "c = a + i" "i < n" by (metis le_Suc_ex nat_add_left_cancel_less)
    then show ?thesis using one [of i] len by (simp add: slice_def)
  next
    case False
    then show ?thesis using two [of c] ok by (simp add: disk_ok_def not_le not_less)
  qed
  then show "disk_ok t" using ok by (simp add: disk_ok_def t power_disk_writes)
qed

lemma put_blk_ok:
  assumes ok: "disk_ok s" "blk_ok s b" and len: "length x = block_size s"
  shows "disk_ok (put_blk b x s)" "blk (put_blk b x s) = (blk s)(b := x)"
proof -
  let ?t = "put_blk b x s" and ?a = "unat b * spb s"
  note W = sectors_written [OF ok(1) _ write_blk_eq(2) [OF ok], of x]
  have l: "length x = 512 * spb s" using len disk_ok_spb [OF ok(1)] by simp
  show "disk_ok ?t" by (rule W(1) [OF l])
  show "blk ?t = (blk s)(b := x)"
  proof
    fix b'
    show "blk ?t b' = ((blk s)(b := x)) b'"
    proof (cases "b' = b")
      case True
      have "concat (map (sectors (e2_disk ?t)) [?a..<?a + spb s]) = x"
        by (rule concat_sectors [OF l]) (use W(2) [OF l] in \<open>simp add: slice_def\<close>)
      with True show ?thesis by (simp add: blk_def)
    next
      case False
      then have "unat b' \<noteq> unat b" using unsigned_word_eqI by blast
      then have "unat b' + 1 \<le> unat b \<or> unat b + 1 \<le> unat b'" by linarith
      then have dis: "unat b' * spb s + spb s \<le> ?a \<or> ?a + spb s \<le> unat b' * spb s"
        using mult_le_mono1 [of "unat b' + 1" "unat b" "spb s"] mult_le_mono1 [of "unat b + 1" "unat b'" "spb s"] by auto
      have "map (sectors (e2_disk ?t)) [unat b' * spb s..<unat b' * spb s + spb s]
          = map (sectors (e2_disk s)) [unat b' * spb s..<unat b' * spb s + spb s]"
        by (rule map_cong [OF refl]) (use dis in \<open>auto intro!: W(3) [OF l]\<close>)
      then have "blk ?t b' = blk s b'" unfolding blk_def put_blk_frame by (rule arg_cong)
      with False show ?thesis by simp
    qed
  qed
qed

section \<open>Free blocks\<close>

definition bmap :: "ext2 \<Rightarrow> nat \<Rightarrow> u32" where
  "bmap s bg = bg_block_bitmap (bgdt s ! bg)"

definition bpg :: "ext2 \<Rightarrow> nat" where
  "bpg s = unat (s_blocks_per_group (e2_sb s))"

definition fdb :: "ext2 \<Rightarrow> nat" where
  "fdb s = unat (s_first_data_block (e2_sb s))"

definition free_bits :: "ext2 \<Rightarrow> (nat \<times> nat) set" where
  "free_bits s = {(bg, i). bg < num_block_groups s \<and> i < bpg s \<and> \<not> bitmap_test (blk s (bmap s bg)) i}"

definition group_free :: "ext2 \<Rightarrow> nat \<Rightarrow> nat set" where
  "group_free s bg = {i. (bg, i) \<in> free_bits s}"

definition block_no :: "ext2 \<Rightarrow> nat \<times> nat \<Rightarrow> u32" where
  "block_no s p = of_nat (fst p) * s_blocks_per_group (e2_sb s) + of_nat (snd p) + s_first_data_block (e2_sb s)"

definition free_set :: "ext2 \<Rightarrow> u32 set" where
  "free_set s = block_no s ` free_bits s"

text \<open>
  The geometry of a sound file system: a bitmap block per group, all addresses in range, the counters
  of the group descriptors agree with the bitmaps, and block 0, whose number is the error value of the
  allocator, is not free.
\<close>

definition geo :: "ext2 \<Rightarrow> bool" where
  "geo s \<longleftrightarrow> length (bgdt s) = num_block_groups s \<and> 0 < bpg s \<and> bpg s \<le> 8 * block_size s \<and>
     num_block_groups s * bpg s + fdb s < 2 ^ 32 \<and> (\<forall>bg < num_block_groups s. blk_ok s (bmap s bg)) \<and>
     inj_on (bmap s) {..<num_block_groups s} \<and>
     (\<forall>bg < num_block_groups s. bg_free_blocks_count (bgdt s ! bg) = of_nat (card (group_free s bg))) \<and>
     (fdb s = 0 \<longrightarrow> (0, 0) \<notin> free_bits s)"

definition e2_inv :: "ext2 \<Rightarrow> bool" where
  "e2_inv s \<longleftrightarrow> disk_ok s \<and> geo s"

lemma finite_group_free [simp]: "finite (group_free s bg)"
  by (rule finite_subset [of _ "{..<bpg s}"]) (auto simp: group_free_def free_bits_def)

lemma finite_free_bits [simp]: "finite (free_bits s)"
  by (rule finite_subset [of _ "{..<num_block_groups s} \<times> {..<bpg s}"]) (auto simp: free_bits_def)

lemma card_group_free: "card (group_free s bg) \<le> bpg s"
  using card_mono [of "{..<bpg s}" "group_free s bg"] by (auto simp: group_free_def free_bits_def)

lemma unat_block_no:
  assumes "geo s" "bg < num_block_groups s" "i < bpg s"
  shows "unat (block_no s (bg, i)) = bg * bpg s + i + fdb s"
proof -
  have "(bg + 1) * bpg s \<le> num_block_groups s * bpg s" using assms(2) by (intro mult_le_mono1) simp
  then have lt: "bg * bpg s + i + fdb s < 2 ^ 32" using assms by (simp add: geo_def)
  have "0 < bpg s" using assms(3) by simp
  then have "bg \<le> bg * bpg s" by simp
  then have "bg < 2 ^ 32" using lt by linarith
  then have b: "unat (of_nat bg :: u32) = bg" by (simp add: unat_of_nat take_bit_nat_eq_self)
  have i: "unat (of_nat i :: u32) = i" using lt by (simp add: unat_of_nat take_bit_nat_eq_self)
  show ?thesis using lt by (simp add: block_no_def unat_word_ariths b i bpg_def [symmetric] fdb_def [symmetric])
qed

lemma block_no_inj:
  assumes "geo s" "(bg, i) \<in> free_bits s \<or> (bg < num_block_groups s \<and> i < bpg s)" "bg' < num_block_groups s" "i' < bpg s"
    and "block_no s (bg, i) = block_no s (bg', i')"
  shows "bg = bg'" "i = i'"
proof -
  have r: "bg < num_block_groups s" "i < bpg s" using assms(2) by (auto simp: free_bits_def)
  have "bg * bpg s + i = bg' * bpg s + i'"
    using unat_block_no [OF assms(1) r] unat_block_no [OF assms(1,3,4)] assms(5) by simp
  then have "(bg * bpg s + i) div bpg s = (bg' * bpg s + i') div bpg s" "(bg * bpg s + i) mod bpg s = (bg' * bpg s + i') mod bpg s"
    by simp_all
  then show "bg = bg'" "i = i'" using r(2) assms(4) by simp_all
qed

section \<open>Allocation\<close>

lemma find_clear_Some: "find_clear bm n = Some i \<Longrightarrow> i < n \<and> \<not> bitmap_test bm i"
  by (auto simp: find_clear_def find_Some_iff)

lemma find_clear_None: "find_clear bm n = None \<longleftrightarrow> (\<forall>i<n. bitmap_test bm i)"
  by (auto simp: find_clear_def find_None_iff)

text \<open>What the search of the allocators does on a sound disk, for any of the two bitmaps.\<close>

lemma alloc_groups_spec:
  assumes ok: "disk_ok s" and bs: "\<forall>bg\<in>set bgs. blk_ok s (bmp (bgdt s ! bg))"
  shows "(\<exists>bg i. bg \<in> set bgs \<and> i < per \<and> \<not> bitmap_test (blk s (bmp (bgdt s ! bg))) i \<and>
        alloc_groups cnt bmp per bgs s = (Some (bg, i), put_blk (bmp (bgdt s ! bg)) (bitmap_set i (blk s (bmp (bgdt s ! bg)))) s)) \<or>
     (alloc_groups cnt bmp per bgs s = (None, s) \<and>
        (\<forall>bg\<in>set bgs. cnt (bgdt s ! bg) = 0 \<or> (\<forall>i<per. bitmap_test (blk s (bmp (bgdt s ! bg))) i)))"
  using bs
proof (induction bgs)
  case Nil
  show ?case by simp
next
  case (Cons bg bgs)
  have r: "read_blk (bmp (bgdt s ! bg)) s = Some (blk s (bmp (bgdt s ! bg)))" using ok Cons.prems by (simp add: read_blk_ok)
  have IH: "(\<exists>bg i. bg \<in> set bgs \<and> i < per \<and> \<not> bitmap_test (blk s (bmp (bgdt s ! bg))) i \<and>
        alloc_groups cnt bmp per bgs s = (Some (bg, i), put_blk (bmp (bgdt s ! bg)) (bitmap_set i (blk s (bmp (bgdt s ! bg)))) s)) \<or>
     (alloc_groups cnt bmp per bgs s = (None, s) \<and>
        (\<forall>bg\<in>set bgs. cnt (bgdt s ! bg) = 0 \<or> (\<forall>i<per. bitmap_test (blk s (bmp (bgdt s ! bg))) i)))"
    using Cons by simp
  show ?case
  proof (cases "cnt (bgdt s ! bg) = 0 \<or> find_clear (blk s (bmp (bgdt s ! bg))) per = None")
    case True
    then have "alloc_groups cnt bmp per (bg # bgs) s = alloc_groups cnt bmp per bgs s" using r by auto
    moreover have "cnt (bgdt s ! bg) = 0 \<or> (\<forall>i<per. bitmap_test (blk s (bmp (bgdt s ! bg))) i)"
      using True find_clear_None by blast
    ultimately show ?thesis using IH by auto
  next
    case False
    then obtain i where i: "find_clear (blk s (bmp (bgdt s ! bg))) per = Some i" by auto
    have "alloc_groups cnt bmp per (bg # bgs) s =
        (Some (bg, i), put_blk (bmp (bgdt s ! bg)) (bitmap_set i (blk s (bmp (bgdt s ! bg)))) s)"
      using False r i by (simp add: put_blk_def)
    then show ?thesis using find_clear_Some [OF i] by auto
  qed
qed

text \<open>Everything but the disk contents and the counters of free objects.\<close>

definition bgd_base :: "ext2_block_group_desc \<Rightarrow> ext2_block_group_desc" where
  "bgd_base g = g\<lparr>bg_free_blocks_count := 0, bg_free_inodes_count := 0, bg_used_dirs_count := 0\<rparr>"

definition sb_base :: "ext2_superblock \<Rightarrow> ext2_superblock" where
  "sb_base sb = sb\<lparr>s_free_blocks_count := 0, s_free_inodes_count := 0\<rparr>"

definition same_geo :: "ext2 \<Rightarrow> ext2 \<Rightarrow> bool" where
  "same_geo s t \<longleftrightarrow> ext2_mounted t = ext2_mounted s \<and> block_size t = block_size s \<and> num_block_groups t = num_block_groups s \<and>
     inode_size t = inode_size s \<and> map bgd_base (bgdt t) = map bgd_base (bgdt s) \<and> sb_base (e2_sb t) = sb_base (e2_sb s)"

lemma same_geo_refl [simp]: "same_geo s s"
  by (simp add: same_geo_def)

lemma same_geo_trans: "same_geo s t \<Longrightarrow> same_geo t u \<Longrightarrow> same_geo s u"
  by (simp add: same_geo_def)

lemma same_geo_put [simp]: "same_geo s (put_blk b x t) = same_geo s t"
  by (simp add: same_geo_def)

lemma same_geo_upd [simp]:
  "(\<And>g. bgd_base (f g) = bgd_base g) \<Longrightarrow> same_geo s (upd_bgd bg f t) = same_geo s t"
  "(\<And>sb. sb_base (h sb) = sb_base sb) \<Longrightarrow> same_geo s (upd_sb h t) = same_geo s t"
proof -
  assume f: "\<And>g. bgd_base (f g) = bgd_base g"
  have "map bgd_base (upd_nth bg f (bgdt t)) = map bgd_base (bgdt t)"
    by (rule nth_equalityI) (simp_all add: nth_upd_nth f)
  then show "same_geo s (upd_bgd bg f t) = same_geo s t" by (simp add: same_geo_def upd_bgd_def)
qed (simp add: same_geo_def upd_sb_def)

lemma upd_frame_ext2 [simp]:
  "e2_disk (upd_bgd bg f s) = e2_disk s" "e2_disk (upd_sb h s) = e2_disk s" "block_size (upd_bgd bg f s) = block_size s"
  "block_size (upd_sb h s) = block_size s" "bgdt (upd_sb h s) = bgdt s" "e2_sb (upd_bgd bg f s) = e2_sb s"
  "num_block_groups (upd_bgd bg f s) = num_block_groups s" "num_block_groups (upd_sb h s) = num_block_groups s"
  "blk (upd_bgd bg f s) = blk s" "blk (upd_sb h s) = blk s" "disk_ok (upd_bgd bg f s) = disk_ok s" "disk_ok (upd_sb h s) = disk_ok s"
  "length (bgdt (upd_bgd bg f s)) = length (bgdt s)"
  by (auto simp: upd_bgd_def upd_sb_def blk_def spb_def disk_ok_def fun_eq_iff)

lemma bgd_base_bmap:
  assumes "bgd_base g = bgd_base g'"
  shows "bg_block_bitmap g = bg_block_bitmap g'" "bg_inode_bitmap g = bg_inode_bitmap g'" "bg_inode_table g = bg_inode_table g'"
  using arg_cong [OF assms, of bg_block_bitmap] arg_cong [OF assms, of bg_inode_bitmap] arg_cong [OF assms, of bg_inode_table]
  by (simp_all add: bgd_base_def)

lemma sb_base_eq:
  assumes "sb_base a = sb_base b"
  shows "s_blocks_per_group a = s_blocks_per_group b" "s_first_data_block a = s_first_data_block b"
    "s_inodes_per_group a = s_inodes_per_group b"
  using arg_cong [OF assms, of s_blocks_per_group] arg_cong [OF assms, of s_first_data_block]
    arg_cong [OF assms, of s_inodes_per_group]
  by (simp_all add: sb_base_def)

lemma same_geo_views:
  assumes "same_geo s t"
  shows "spb t = spb s" "blk_ok t = blk_ok s" "bpg t = bpg s" "fdb t = fdb s" "block_no t = block_no s"
    "num_block_groups t = num_block_groups s" "block_size t = block_size s" "length (bgdt t) = length (bgdt s)"
    "bg < length (bgdt s) \<Longrightarrow> bmap t bg = bmap s bg" "s_inodes_per_group (e2_sb t) = s_inodes_per_group (e2_sb s)"
proof -
  have sb: "sb_base (e2_sb t) = sb_base (e2_sb s)" using assms by (simp add: same_geo_def)
  note S = sb_base_eq [OF sb]
  show "spb t = spb s" "blk_ok t = blk_ok s" "num_block_groups t = num_block_groups s" "block_size t = block_size s"
    using assms by (auto simp: same_geo_def spb_def blk_ok_def fun_eq_iff)
  show "bpg t = bpg s" "fdb t = fdb s" "block_no t = block_no s" "s_inodes_per_group (e2_sb t) = s_inodes_per_group (e2_sb s)"
    using S by (simp_all add: bpg_def fdb_def block_no_def fun_eq_iff)
  have m: "map bgd_base (bgdt t) = map bgd_base (bgdt s)" using assms by (simp add: same_geo_def)
  then show len: "length (bgdt t) = length (bgdt s)" using map_eq_imp_length_eq by blast
  assume "bg < length (bgdt s)"
  then have bl: "bg < length (bgdt s)" "bg < length (bgdt t)" using len by simp_all
  have "map bgd_base (bgdt t) ! bg = map bgd_base (bgdt s) ! bg" by (simp only: m)
  then have "bgd_base (bgdt t ! bg) = bgd_base (bgdt s ! bg)" unfolding nth_map [OF bl(1)] nth_map [OF bl(2)] .
  from bgd_base_bmap(1) [OF this] show "bmap t bg = bmap s bg" by (simp add: bmap_def)
qed

lemma of_nat_u16_eq: "a \<le> 65535 \<Longrightarrow> (of_nat a :: u16) = 0 \<longleftrightarrow> a = 0"
  by (simp add: word_unat_eq_iff unat_of_nat take_bit_nat_eq_self)

lemma bpg_bound: "disk_ok s \<Longrightarrow> geo s \<Longrightarrow> bpg s \<le> 32768"
  by (auto simp: disk_ok_def geo_def)

text \<open>
  Changing one bit of one bitmap, with the counter of its group: the free bits change at this place
  only, and the invariant is kept.
\<close>

lemma set_bitmap:
  assumes inv: "e2_inv s" and bg: "bg < num_block_groups s" and i: "i < bpg s"
    and bm: "length bm = block_size s" "\<And>j. bitmap_test bm j = (if j = i then v else bitmap_test (blk s (bmap s bg)) j)"
    and t: "disk_ok t" "same_geo s t" "blk t = (blk s)(bmap s bg := bm)"
    and cnt: "\<And>k. k < num_block_groups s \<Longrightarrow> bg_free_blocks_count (bgdt t ! k) =
      (if k = bg then of_nat (card (group_free t bg)) else bg_free_blocks_count (bgdt s ! k))"
    and z: "(bg, i) = (0, 0) \<Longrightarrow> fdb s = 0 \<Longrightarrow> v"
  shows "free_bits t = (if v then free_bits s - {(bg, i)} else insert (bg, i) (free_bits s))" "e2_inv t"
proof -
  have g: "geo s" "disk_ok s" using inv by (simp_all add: e2_inv_def)
  have len: "length (bgdt s) = num_block_groups s" using g(1) by (simp add: geo_def)
  note V = same_geo_views [OF t(2)]
  have B: "bmap t k = bmap s k" if "k < num_block_groups s" for k using V(9) that len by simp
  have other: "blk t (bmap s k) = blk s (bmap s k)" if "k < num_block_groups s" "k \<noteq> bg" for k
  proof -
    have "bmap s k \<noteq> bmap s bg" using g(1) that bg by (auto simp: geo_def dest: inj_onD)
    then show ?thesis by (simp add: t(3))
  qed
  have mem: "(k, j) \<in> free_bits t \<longleftrightarrow> (if (k, j) = (bg, i) then \<not> v else (k, j) \<in> free_bits s)" for k j
  proof (cases "k < num_block_groups s")
    case True
    show ?thesis
    proof (cases "k = bg")
      case True
      then show ?thesis using bg i B [OF bg] V(3,6) by (auto simp: free_bits_def t(3) bm(2))
    next
      case False
      then show ?thesis using True B [OF True] other [OF True False] V(3,6) by (simp add: free_bits_def)
    qed
  next
    case False
    then show ?thesis using bg V(6) by (auto simp: free_bits_def)
  qed
  show fb: "free_bits t = (if v then free_bits s - {(bg, i)} else insert (bg, i) (free_bits s))"
    using mem by (auto split: if_splits)
  have gf: "group_free t k = group_free s k" if "k \<noteq> bg" for k
    using that by (simp add: group_free_def mem)
  have "bg_free_blocks_count (bgdt t ! k) = of_nat (card (group_free t k))" if "k < num_block_groups t" for k
    using that cnt [of k] V(6) g(1) gf [of k] by (auto simp: geo_def)
  moreover have "inj_on (bmap t) {..<num_block_groups t}"
    using g(1) B V(6) by (auto simp: geo_def inj_on_def)
  moreover have "fdb t = 0 \<longrightarrow> (0, 0) \<notin> free_bits t" using z g(1) mem [of 0 0] V(4) by (auto simp: geo_def)
  moreover have "\<forall>k < num_block_groups t. blk_ok t (bmap t k)" using g(1) B V(2,6) by (simp add: geo_def)
  moreover have "length (bgdt t) = num_block_groups t" "0 < bpg t" "bpg t \<le> 8 * block_size t"
    "num_block_groups t * bpg t + fdb t < 2 ^ 32"
    using g(1) V(3,4,6,7,8) by (simp_all add: geo_def)
  ultimately show "e2_inv t" using t(1) unfolding e2_inv_def geo_def by blast
qed

lemma card_remove_u16: "finite A \<Longrightarrow> x \<in> A \<Longrightarrow> (of_nat (card A) :: u16) - 1 = of_nat (card (A - {x}))"
proof -
  assume a: "finite A" "x \<in> A"
  then have "card A = Suc (card (A - {x}))" by (rule card.remove)
  then show ?thesis by simp
qed

lemma ext2_alloc_block_cases:
  assumes inv: "e2_inv s" and alloc: "ext2_alloc_block s = (b, t)"
  obtains "b = 0" "t = s" "free_bits s = {}"
  | bg i where "(bg, i) \<in> free_bits s" "b = block_no s (bg, i)" "b \<noteq> 0" "e2_inv t" "free_bits t = free_bits s - {(bg, i)}"
      "blk t = (blk s)(bmap s bg := bitmap_set i (blk s (bmap s bg)))" "same_geo s t"
proof -
  have g: "geo s" "disk_ok s" using inv by (simp_all add: e2_inv_def)
  let ?al = "alloc_groups bg_free_blocks_count bg_block_bitmap (bpg s) [0..<num_block_groups s] s"
  have ok: "\<forall>bg\<in>set [0..<num_block_groups s]. blk_ok s (bg_block_bitmap (bgdt s ! bg))"
    using g(1) by (simp add: geo_def bmap_def)
  from alloc_groups_spec [where bmp = bg_block_bitmap and cnt = bg_free_blocks_count and per = "bpg s", OF g(2) ok, folded bmap_def]
  consider bg i where "bg < num_block_groups s" "i < bpg s" "\<not> bitmap_test (blk s (bmap s bg)) i"
      "?al = (Some (bg, i), put_blk (bmap s bg) (bitmap_set i (blk s (bmap s bg))) s)"
    | "?al = (None, s)" "\<forall>bg < num_block_groups s. bg_free_blocks_count (bgdt s ! bg) = 0 \<or> (\<forall>i < bpg s. bitmap_test (blk s (bmap s bg)) i)"
    by (auto simp: bmap_def)
  then show ?thesis
  proof cases
    case (1 bg i)
    let ?bm = "bitmap_set i (blk s (bmap s bg))"
    define u where "u = put_blk (bmap s bg) ?bm s"
    have fr: "(bg, i) \<in> free_bits s" using 1(1-3) by (simp add: free_bits_def)
    have bt: "b = block_no s (bg, i)" "t = upd_sb (\<lambda>sb. sb\<lparr>s_free_blocks_count := s_free_blocks_count sb - 1\<rparr>)
         (upd_bgd bg (\<lambda>g. g\<lparr>bg_free_blocks_count := bg_free_blocks_count g - 1\<rparr>) u)"
      using alloc 1(4) by (simp_all add: ext2_alloc_block_def bpg_def block_no_def u_def)
    have bok: "blk_ok s (bmap s bg)" using g(1) 1(1) by (simp add: geo_def)
    have lb: "length (blk s (bmap s bg)) = block_size s" by (rule length_blk [OF g(2)])
    have u: "disk_ok u" "blk u = (blk s)(bmap s bg := ?bm)"
      unfolding u_def by (rule put_blk_ok [OF g(2) bok]; simp add: lb)+
    have i8: "i < 8 * length (blk s (bmap s bg))" using 1(2) g(1) lb by (simp add: geo_def)
    have geo_t: "same_geo s t" unfolding bt(2) u_def by (simp add: bgd_base_def sb_base_def)
    have test: "bitmap_test ?bm j = (if j = i then True else bitmap_test (blk s (bmap s bg)) j)" for j
      by (auto simp: bitmap_test_set [OF i8])
    have bl: "blk t = (blk s)(bmap s bg := ?bm)" using u(2) by (simp add: bt(2))
    have lenb: "bg < length (bgdt s)" using g(1) 1(1) by (simp add: geo_def)
    have gf: "group_free t bg = group_free s bg - {i}"
      using same_geo_views(3,6) [OF geo_t] same_geo_views(9) [OF geo_t lenb] 1(1)
      by (auto simp: group_free_def free_bits_def bl test split: if_splits)
    have bgt: "bgdt t = upd_nth bg (\<lambda>g. g\<lparr>bg_free_blocks_count := bg_free_blocks_count g - 1\<rparr>) (bgdt s)"
      by (simp add: bt(2) upd_bgd_def u_def)
    have cnt: "bg_free_blocks_count (bgdt t ! k) =
      (if k = bg then of_nat (card (group_free t bg)) else bg_free_blocks_count (bgdt s ! k))" if "k < num_block_groups s" for k
    proof (cases "k = bg")
      case True
      have "bg_free_blocks_count (bgdt s ! bg) = of_nat (card (group_free s bg))" using g(1) 1(1) by (simp add: geo_def)
      moreover have "i \<in> group_free s bg" using fr by (simp add: group_free_def)
      ultimately show ?thesis using True lenb card_remove_u16 [of "group_free s bg" i] by (simp add: bgt gf)
    next
      case False
      then show ?thesis by (simp add: bgt)
    qed
    have S: "free_bits t = (if True then free_bits s - {(bg, i)} else insert (bg, i) (free_bits s))" "e2_inv t"
      by (rule set_bitmap [OF inv 1(1,2) _ test _ geo_t bl cnt]; use u(1) lb bt in simp)+
    have "b \<noteq> 0"
    proof
      assume "b = 0"
      then have "bg * bpg s + i + fdb s = 0" using unat_block_no [OF g(1) 1(1,2)] bt(1) by simp
      then have "fdb s = 0" "(bg, i) = (0, 0)" using 1(2) by auto
      then show False using g(1) fr by (simp add: geo_def)
    qed
    then show ?thesis using that(2) [OF fr bt(1) _ S(2) _ bl geo_t] S(1) by simp
  next
    case 2
    have "b = 0" "t = s" using alloc 2(1) by (simp_all add: ext2_alloc_block_def bpg_def)
    moreover have "free_bits s = {}"
    proof (rule ccontr)
      assume "free_bits s \<noteq> {}"
      then obtain bg i where f: "(bg, i) \<in> free_bits s" by auto
      then have r: "bg < num_block_groups s" "i < bpg s" "\<not> bitmap_test (blk s (bmap s bg)) i" by (auto simp: free_bits_def)
      then have "bg_free_blocks_count (bgdt s ! bg) = 0" using 2(2) by blast
      then have "(of_nat (card (group_free s bg)) :: u16) = 0" using g(1) r(1) by (simp add: geo_def)
      moreover have "card (group_free s bg) \<le> 65535" using card_group_free [of s bg] bpg_bound [OF g(2,1)] by simp
      ultimately have "card (group_free s bg) = 0" using of_nat_u16_eq by blast
      then have "group_free s bg = {}" by simp
      then show False using f by (auto simp: group_free_def)
    qed
    ultimately show ?thesis by (rule that(1))
  qed
qed

lemma card_add_u16: "finite A \<Longrightarrow> x \<notin> A \<Longrightarrow> (of_nat (card A) :: u16) + 1 = of_nat (card (insert x A))"
  by simp

text \<open>The inverse of \<open>block_no\<close> that \<^verbatim>\<open>ext2_free_block\<close> computes.\<close>

lemma block_no_split:
  assumes "geo s" "bg < num_block_groups s" "i < bpg s"
  defines "a \<equiv> block_no s (bg, i) - s_first_data_block (e2_sb s)"
  shows "unat (a div s_blocks_per_group (e2_sb s)) = bg" "unat (a mod s_blocks_per_group (e2_sb s)) = i"
proof -
  have "s_first_data_block (e2_sb s) \<le> block_no s (bg, i)"
    unfolding word_le_nat_alt using unat_block_no [OF assms(1-3)] by (simp add: fdb_def)
  then have "unat a = bg * bpg s + i"
    using unat_block_no [OF assms(1-3)] by (simp add: a_def unat_sub fdb_def)
  then show "unat (a div s_blocks_per_group (e2_sb s)) = bg" "unat (a mod s_blocks_per_group (e2_sb s)) = i"
    using assms(3) by (simp_all add: unat_div unat_mod bpg_def [symmetric])
qed

lemma ext2_free_block_spec:
  assumes inv: "e2_inv s" and r: "bg < num_block_groups s" "i < bpg s" and used: "bitmap_test (blk s (bmap s bg)) i"
    and nz: "block_no s (bg, i) \<noteq> 0"
  defines "t \<equiv> ext2_free_block (block_no s (bg, i)) s"
  shows "e2_inv t" "free_bits t = insert (bg, i) (free_bits s)" "same_geo s t"
    "blk t = (blk s)(bmap s bg := bitmap_clear i (blk s (bmap s bg)))"
proof -
  have g: "geo s" "disk_ok s" using inv by (simp_all add: e2_inv_def)
  let ?bm = "bitmap_clear i (blk s (bmap s bg))"
  define u where "u = put_blk (bmap s bg) ?bm s"
  have bok: "blk_ok s (bmap s bg)" using g(1) r(1) by (simp add: geo_def)
  have t: "t = upd_sb (\<lambda>sb. sb\<lparr>s_free_blocks_count := s_free_blocks_count sb + 1\<rparr>)
         (upd_bgd bg (\<lambda>g. g\<lparr>bg_free_blocks_count := bg_free_blocks_count g + 1\<rparr>) u)"
    using nz r(1) read_blk_ok [OF g(2) bok]
    by (simp add: t_def ext2_free_block_def Let_def block_no_split [OF g(1) r] u_def bmap_def put_blk_def)
  have lb: "length (blk s (bmap s bg)) = block_size s" by (rule length_blk [OF g(2)])
  have u: "disk_ok u" "blk u = (blk s)(bmap s bg := ?bm)"
    unfolding u_def by (rule put_blk_ok [OF g(2) bok]; simp add: lb)+
  have i8: "i < 8 * length (blk s (bmap s bg))" using r(2) g(1) lb by (simp add: geo_def)
  show geo_t: "same_geo s t" unfolding t u_def by (simp add: bgd_base_def sb_base_def)
  have test: "bitmap_test ?bm j = (if j = i then False else bitmap_test (blk s (bmap s bg)) j)" for j
    by (auto simp: bitmap_test_clear [OF i8])
  show bl: "blk t = (blk s)(bmap s bg := ?bm)" using u(2) by (simp add: t)
  have lenb: "bg < length (bgdt s)" using g(1) r(1) by (simp add: geo_def)
  have gf: "group_free t bg = insert i (group_free s bg)"
    using same_geo_views(3,6) [OF geo_t] same_geo_views(9) [OF geo_t lenb] r
    by (auto simp: group_free_def free_bits_def bl test split: if_splits)
  have bgt: "bgdt t = upd_nth bg (\<lambda>g. g\<lparr>bg_free_blocks_count := bg_free_blocks_count g + 1\<rparr>) (bgdt s)"
    by (simp add: t upd_bgd_def u_def)
  have cnt: "bg_free_blocks_count (bgdt t ! k) =
      (if k = bg then of_nat (card (group_free t bg)) else bg_free_blocks_count (bgdt s ! k))" if "k < num_block_groups s" for k
  proof (cases "k = bg")
    case True
    have "bg_free_blocks_count (bgdt s ! bg) = of_nat (card (group_free s bg))" using g(1) r(1) by (simp add: geo_def)
    moreover have "i \<notin> group_free s bg" using used by (simp add: group_free_def free_bits_def)
    ultimately show ?thesis using True lenb card_add_u16 [of "group_free s bg" i] by (simp add: bgt gf)
  next
    case False
    then show ?thesis by (simp add: bgt)
  qed
  have z: "(bg, i) = (0, 0) \<Longrightarrow> fdb s = 0 \<Longrightarrow> False"
    using nz unat_block_no [OF g(1) r] by (simp add: unat_eq_0)
  have S: "free_bits t = (if False then free_bits s - {(bg, i)} else insert (bg, i) (free_bits s))" "e2_inv t"
    by (rule set_bitmap [OF inv r _ test _ geo_t bl cnt z]; use u(1) lb t in simp)+
  then show "e2_inv t" "free_bits t = insert (bg, i) (free_bits s)" by simp_all
qed

definition block_alloc :: "ext2 \<Rightarrow> u32 option \<times> ext2" where
  "block_alloc s = (case ext2_alloc_block s of (b, t) \<Rightarrow> (if b = 0 then None else Some b, t))"

definition block_releasable :: "u32 \<Rightarrow> ext2 \<Rightarrow> bool" where
  "block_releasable b s \<longleftrightarrow> b \<noteq> 0 \<and>
     (\<exists>bg i. bg < num_block_groups s \<and> i < bpg s \<and> bitmap_test (blk s (bmap s bg)) i \<and> b = block_no s (bg, i))"

interpretation disk_blocks: resource_pool e2_inv free_set block_alloc block_releasable ext2_free_block
proof
  fix s t :: ext2 and b :: u32 assume inv: "e2_inv s"
  then have g: "geo s" by (simp add: e2_inv_def)
  show "finite (free_set s)" by (simp add: free_set_def)
  show "b \<in> free_set s \<and> free_set t = free_set s - {b} \<and> e2_inv t" if "block_alloc s = (Some b, t)"
  proof -
    have al: "ext2_alloc_block s = (b, t)" "b \<noteq> 0" using that by (auto simp: block_alloc_def split: prod.splits if_splits)
    show ?thesis
    proof (rule ext2_alloc_block_cases [OF inv al(1)])
      fix bg i assume a: "(bg, i) \<in> free_bits s" "b = block_no s (bg, i)" "e2_inv t" "free_bits t = free_bits s - {(bg, i)}" "same_geo s t"
      have "block_no s ` (free_bits s - {(bg, i)}) = block_no s ` free_bits s - {b}"
      proof (rule inj_on_image_set_diff [of _ "free_bits s", THEN trans])
        show "inj_on (block_no s) (free_bits s)"
          by (rule inj_onI) (use block_no_inj [OF g] in \<open>fastforce simp: free_bits_def\<close>)
      qed (use a in auto)
      then show ?thesis using a same_geo_views(5) [OF a(5)] by (auto simp: free_set_def)
    qed (use al(2) in simp)
  qed
  show "free_set s = {} \<and> t = s" if "block_alloc s = (None, t)"
  proof -
    have al: "ext2_alloc_block s = (0, t)" using that by (auto simp: block_alloc_def split: prod.splits if_splits)
    show ?thesis by (rule ext2_alloc_block_cases [OF inv al]) (simp_all add: free_set_def)
  qed
  assume "block_releasable b s"
  then obtain bg i where r: "bg < num_block_groups s" "i < bpg s" "bitmap_test (blk s (bmap s bg)) i" "b = block_no s (bg, i)" "b \<noteq> 0"
    by (auto simp: block_releasable_def)
  note F = ext2_free_block_spec [OF inv r(1-3) r(5) [unfolded r(4)], folded r(4)]
  show "e2_inv (ext2_free_block b s)" by (rule F(1))
  show "free_set (ext2_free_block b s) = insert b (free_set s)"
    using F(2) same_geo_views(5) [OF F(3)] r(4) by (simp add: free_set_def)
qed

end
