(* ===== verification/Ext2File.thy ===== *)
theory Ext2File
  imports Ext2Blocks
begin

text \<open>
  Files of the ext2 file system: what \<^verbatim>\<open>ext2_write_file\<close> writes, \<^verbatim>\<open>ext2_read_file\<close> reads back, through
  the inode re-read from the disk, and no other byte of the file changes. The file is seen as a
  function from positions to bytes; positions in blocks that are not allocated read as zero.
\<close>

section \<open>Inodes in bytes\<close>

definition inode_wf :: "ext2_inode \<Rightarrow> bool" where
  "inode_wf n \<longleftrightarrow> length (i_block n) = 15 \<and> length (i_osd2 n) = 12"

lemma length_enc_inode: "inode_wf n \<Longrightarrow> length (enc_inode n) = 128"
  by (simp add: enc_inode_def inode_wf_def)

lemma le16_at_skip: "length xs \<le> a \<Longrightarrow> le16 (at (xs @ ys)) a = le16 (at ys) (a - length xs)"
  by (simp add: le16_def at_def nth_append Suc_diff_le)

lemma le16_enc0 [simp]: "le16 (at (enc16 w @ ys)) 0 = w"
  using le16_enc [of "[]" 0 w ys] by simp

lemma dec_enc_inode:
  assumes "inode_wf n"
  shows "dec_inode (enc_inode n) = n"
proof -
  have l: "length (i_block n) = 15" "length (i_osd2 n) = 12" using assms by (simp_all add: inode_wf_def)
  let ?m = "at (enc_inode n)"
  have f16: "le16 ?m 0 = i_mode n" "le16 ?m 2 = i_uid n" "le16 ?m 24 = i_gid n" "le16 ?m 26 = i_links_count n"
    by (simp_all add: enc_inode_def le16_at_skip)
  have f32: "le32 ?m 4 = i_size n" "le32 ?m 8 = i_atime n" "le32 ?m 12 = i_ctime n" "le32 ?m 16 = i_mtime n" "le32 ?m 20 = i_dtime n"
    "le32 ?m 28 = i_blocks n" "le32 ?m 32 = i_flags n" "le32 ?m 36 = i_osd1 n" "le32 ?m 100 = i_generation n"
    "le32 ?m 104 = i_file_acl n" "le32 ?m 108 = i_dir_acl n" "le32 ?m 112 = i_faddr n"
    by (simp_all add: enc_inode_def le32_at_skip l)
  have b: "map (\<lambda>i. le32 ?m (40 + 4 * i)) [0..<15] = i_block n"
  proof (rule nth_equalityI)
    fix i assume "i < length (map (\<lambda>i. le32 ?m (40 + 4 * i)) [0..<15])"
    then have "i < length (i_block n)" by (simp add: l)
    then show "map (\<lambda>i. le32 ?m (40 + 4 * i)) [0..<15] ! i = i_block n ! i"
      using le32_concat_enc [of i "i_block n"] by (simp add: enc_inode_def le32_at_skip l)
  qed (simp add: l)
  have o: "slice 116 12 (enc_inode n) = i_osd2 n" by (simp add: slice_def enc_inode_def l)
  show ?thesis unfolding dec_inode_def f16 f32 b o by simp
qed

section \<open>The file as bytes\<close>

definition ptrs :: "ext2 \<Rightarrow> nat" where
  "ptrs s = block_size s div 4"

definition max_blocks :: "ext2 \<Rightarrow> nat" where
  "max_blocks s = 12 + ptrs s"

definition file_byte :: "ext2 \<Rightarrow> ext2_inode \<Rightarrow> nat \<Rightarrow> u8" where
  "file_byte s n p = (let b = ext2_get_block n (p div block_size s) s in if b = 0 then 0 else blk s b ! (p mod block_size s))"

text \<open>The blocks of a file, and the blocks of metadata that writing a file touches.\<close>

definition owned :: "ext2_inode \<Rightarrow> ext2 \<Rightarrow> u32 set" where
  "owned n s = insert (i_block n ! 12) ((\<lambda>k. ext2_get_block n k s) ` {..<max_blocks s}) - {0}"

definition bgdt_blk :: "ext2 \<Rightarrow> u32" where
  "bgdt_blk s = (if block_size s = 1024 then 2 else 1)"

definition sb_blk :: "ext2 \<Rightarrow> u32" where
  "sb_blk s = (if block_size s = 1024 then 1 else 0)"

definition meta :: "u32 \<Rightarrow> ext2 \<Rightarrow> u32 set" where
  "meta ino s = {fst (inode_loc ino s), bgdt_blk s, sb_blk s}"

definition bitmaps :: "ext2 \<Rightarrow> u32 set" where
  "bitmaps s = bmap s ` {..<num_block_groups s}"

definition sb_wf :: "ext2 \<Rightarrow> bool" where
  "sb_wf s \<longleftrightarrow> length (s_uuid (e2_sb s)) = 16 \<and> length (s_volume_name (e2_sb s)) = 16 \<and> length (s_last_mounted (e2_sb s)) = 64"

text \<open>
  The part of soundness that concerns the layout, and the part that concerns one file: its blocks are
  in range, used, pairwise different and different from every metadata block.
\<close>

definition layout_ok :: "u32 \<Rightarrow> ext2 \<Rightarrow> bool" where
  "layout_ok ino s \<longleftrightarrow> e2_inv s \<and> ext2_mounted s \<and> ino \<noteq> 0 \<and> sb_wf s \<and>
     blk_ok s (fst (inode_loc ino s)) \<and> snd (inode_loc ino s) + 128 \<le> block_size s \<and> num_block_groups s < 2 ^ 27 \<and>
     fst (inode_loc ino s) \<notin> {bgdt_blk s, sb_blk s} \<and>
     bitmaps s \<inter> meta ino s = {} \<and> free_set s \<inter> (bitmaps s \<union> meta ino s) = {} \<and> (\<forall>b\<in>free_set s. blk_ok s b) \<and>
     unat ((ino - 1) div s_inodes_per_group (e2_sb s)) < num_block_groups s"

definition file_ok :: "u32 \<Rightarrow> ext2_inode \<Rightarrow> ext2 \<Rightarrow> bool" where
  "file_ok ino n s \<longleftrightarrow> inode_wf n \<and> (\<forall>b\<in>owned n s. blk_ok s b) \<and>
     owned n s \<inter> (bitmaps s \<union> meta ino s \<union> free_set s) = {} \<and>
     (\<forall>k < max_blocks s. ext2_get_block n k s \<noteq> 0 \<longrightarrow> ext2_get_block n k s \<noteq> i_block n ! 12) \<and>
     (\<forall>k < max_blocks s. \<forall>l < max_blocks s. ext2_get_block n k s = ext2_get_block n l s \<longrightarrow> ext2_get_block n k s \<noteq> 0 \<longrightarrow> k = l)"

lemma disk_ok_ptrs: "disk_ok s \<Longrightarrow> ptrs s \<in> {256, 512, 1024} \<and> block_size s = 4 * ptrs s"
  by (auto simp: disk_ok_def ptrs_def)

lemma get_block_eq:
  assumes "disk_ok s" "k < max_blocks s" "i_block n ! 12 \<noteq> 0 \<Longrightarrow> blk_ok s (i_block n ! 12)"
  shows "ext2_get_block n k s =
    (if k < 12 then i_block n ! k
     else if i_block n ! 12 = 0 then 0 else le32 (at (blk s (i_block n ! 12))) (4 * (k - 12)))"
  using assms by (auto simp: ext2_get_block_def Let_def indirect_def read_blk_ok max_blocks_def ptrs_def)

lemma owned_ind: "i_block n ! 12 \<noteq> 0 \<Longrightarrow> i_block n ! 12 \<in> owned n s"
  by (simp add: owned_def)

lemma owned_get: "k < max_blocks s \<Longrightarrow> ext2_get_block n k s \<noteq> 0 \<Longrightarrow> ext2_get_block n k s \<in> owned n s"
  by (auto simp: owned_def)

lemma file_ok_ind: "file_ok ino n s \<Longrightarrow> i_block n ! 12 \<noteq> 0 \<Longrightarrow> blk_ok s (i_block n ! 12)"
  using owned_ind [of n s] by (simp add: file_ok_def)

text \<open>The file does not depend on blocks it does not own.\<close>

lemma owned_frame:
  assumes ok: "disk_ok s" "file_ok ino n s" and t: "disk_ok t" "same_geo s t" "\<And>b. b \<in> owned n s \<Longrightarrow> blk t b = blk s b"
  shows "k < max_blocks s \<Longrightarrow> ext2_get_block n k t = ext2_get_block n k s" "owned n t = owned n s" "max_blocks t = max_blocks s"
    "p < max_blocks s * block_size s \<Longrightarrow> file_byte t n p = file_byte s n p"
proof -
  have bs: "block_size t = block_size s" "blk_ok t = blk_ok s" using same_geo_views [OF t(2)] by simp_all
  show m: "max_blocks t = max_blocks s" using bs by (simp add: max_blocks_def ptrs_def)
  show gb: "ext2_get_block n k t = ext2_get_block n k s" if "k < max_blocks s" for k
    using get_block_eq [OF ok(1) that, of n] get_block_eq [OF t(1), of k n] file_ok_ind [OF ok(2)] t(3) [OF owned_ind] that m bs
    by auto
  then show "owned n t = owned n s" by (auto simp: owned_def m)
  assume p: "p < max_blocks s * block_size s"
  then have "p div block_size s < max_blocks s" by (simp add: less_mult_imp_div_less)
  with gb [of "p div block_size s"] t(3) [OF owned_get, of "p div block_size s"] show "file_byte t n p = file_byte s n p"
    by (simp add: file_byte_def Let_def bs)
qed

section \<open>Reading\<close>

lemma div_mod_chunk:
  assumes "0 < bs" "pos mod bs + n \<le> bs" "j < n"
  shows "(pos + j) div bs = pos div (bs :: nat)" "(pos + j) mod bs = pos mod bs + j"
proof -
  have lt: "pos mod bs + j < bs" using assms by simp
  have e: "pos + j = pos div bs * bs + (pos mod bs + j)" by simp
  show "(pos + j) div bs = pos div bs" by (subst e, subst div_mult_self3) (use lt assms(1) in simp_all)
  show "(pos + j) mod bs = pos mod bs + j" by (subst e, subst mod_mult_self3) (use lt in simp)
qed

lemma chunk_bytes:
  fixes nd :: ext2_inode and pos n :: nat and s :: ext2
  assumes ok: "disk_ok s" and fit: "pos mod block_size s + n \<le> block_size s"
  defines "b \<equiv> ext2_get_block nd (pos div block_size s) s"
  shows "map (file_byte s nd) [pos..<pos + n] = (if b = 0 then replicate n 0 else slice (pos mod block_size s) n (blk s b))"
proof (rule nth_equalityI)
  have bs: "0 < block_size s" using ok by (auto simp: disk_ok_def)
  have len: "length (blk s b) = block_size s" by (rule length_blk [OF ok])
  show "length (map (file_byte s nd) [pos..<pos + n]) = length (if b = 0 then replicate n 0 else slice (pos mod block_size s) n (blk s b))"
    using fit len by (simp add: slice_def)
  fix j assume "j < length (map (file_byte s nd) [pos..<pos + n])"
  then have j: "j < n" by simp
  show "map (file_byte s nd) [pos..<pos + n] ! j = (if b = 0 then replicate n 0 else slice (pos mod block_size s) n (blk s b)) ! j"
    using j len fit div_mod_chunk [OF bs fit j]
    by (simp add: file_byte_def b_def [symmetric] Let_def slice_def)
qed

lemma read_loop_spec:
  assumes ok: "disk_ok s" "file_ok ino nd s" and lim: "off + n \<le> max_blocks s * block_size s" and r: "r \<le> n"
  shows "read_loop nd off n r (map (file_byte s nd) [off..<off + r]) s = (int32 n, map (file_byte s nd) [off..<off + n])"
  using r
proof (induction "n - r" arbitrary: r rule: less_induct)
  case less
  have bs: "0 < block_size s" using ok(1) by (auto simp: disk_ok_def)
  show ?case
  proof (cases "r < n")
    case False
    with less.prems show ?thesis by (subst read_loop.simps) simp
  next
    case True
    define pos where "pos = off + r"
    define k where "k = chunk_len (block_size s) pos (n - r)"
    define b where "b = ext2_get_block nd (pos div block_size s) s"
    have k: "0 < k" "k \<le> n - r" "pos mod block_size s + k \<le> block_size s"
      using True bs by (simp_all add: k_def chunk_len_pos chunk_len_le)
    have "pos < max_blocks s * block_size s" using lim True by (simp add: pos_def)
    then have idx: "pos div block_size s < max_blocks s" by (simp add: less_mult_imp_div_less)
    have "max_blocks s \<le> 2000" using disk_ok_ptrs [OF ok(1)] by (auto simp: max_blocks_def)
    then have m: "pos div block_size s mod 4294967296 = pos div block_size s" using idx by simp
    have bok: "b \<noteq> 0 \<Longrightarrow> read_blk b s = Some (blk s b)"
      using ok owned_get [OF idx, of nd] by (simp add: b_def file_ok_def read_blk_ok)
    have acc: "map (file_byte s nd) [off..<off + r] @ map (file_byte s nd) [pos..<pos + k] = map (file_byte s nd) [off..<off + (r + k)]"
      using upt_add_eq_append [of off "off + r" k] by (simp add: pos_def add.assoc)
    have "read_loop nd off n r (map (file_byte s nd) [off..<off + r]) s =
        read_loop nd off n (r + k) (map (file_byte s nd) [off..<off + (r + k)]) s"
      using True bs bok chunk_bytes [OF ok(1) k(3), of nd]
      by (subst read_loop.simps) (simp add: Let_def pos_def [symmetric] k_def [symmetric] m b_def [symmetric] acc [symmetric])
    also have "\<dots> = (int32 n, map (file_byte s nd) [off..<off + n])"
      by (rule less.hyps) (use True k in auto)
    finally show ?thesis .
  qed
qed

lemma read_file_spec:
  assumes "disk_ok s" "file_ok ino nd s" "off + n \<le> max_blocks s * block_size s" "off + n \<le> unat (i_size nd)" "0 < n"
  shows "ext2_read_file nd off n s = (int32 n, map (file_byte s nd) [off..<off + n])"
proof -
  have "\<not> off \<ge> unat (i_size nd)" "\<not> n > unat (i_size nd) - off" using assms(4,5) by linarith+
  then show ?thesis using read_loop_spec [OF assms(1-3), of 0] by (simp add: ext2_read_file_def Let_def)
qed

section \<open>What keeps the file system sound\<close>

lemma sb_base_wf: "sb_base a = sb_base b \<Longrightarrow> s_uuid a = s_uuid b \<and> s_volume_name a = s_volume_name b \<and> s_last_mounted a = s_last_mounted b"
proof -
  assume e: "sb_base a = sb_base b"
  show ?thesis using arg_cong [OF e, of s_uuid] arg_cong [OF e, of s_volume_name] arg_cong [OF e, of s_last_mounted]
    by (simp add: sb_base_def)
qed

lemma same_geo_meta:
  assumes "same_geo s t" "layout_ok ino s"
  shows "inode_loc ino t = inode_loc ino s" "meta ino t = meta ino s" "bitmaps t = bitmaps s" "sb_wf t = sb_wf s"
    "bgdt_blk t = bgdt_blk s" "sb_blk t = sb_blk s" "ext2_mounted t"
proof -
  note V = same_geo_views [OF assms(1)]
  let ?bg = "unat ((ino - 1) div s_inodes_per_group (e2_sb s))"
  have len: "length (bgdt s) = num_block_groups s" "?bg < length (bgdt s)"
    using assms(2) by (simp_all add: layout_ok_def e2_inv_def geo_def)
  have "map bgd_base (bgdt t) ! ?bg = map bgd_base (bgdt s) ! ?bg" using assms(1) by (simp add: same_geo_def)
  then have "bgd_base (bgdt t ! ?bg) = bgd_base (bgdt s ! ?bg)" using len(2) V(8) by simp
  from bgd_base_bmap(3) [OF this] show l: "inode_loc ino t = inode_loc ino s"
    using V(7,10) assms(1) by (simp add: inode_loc_def Let_def same_geo_def)
  show b: "bgdt_blk t = bgdt_blk s" "sb_blk t = sb_blk s" using V(7) by (simp_all add: bgdt_blk_def sb_blk_def)
  show "meta ino t = meta ino s" by (simp add: meta_def l b)
  show "bitmaps t = bitmaps s" using V(6,9) len(1) by (simp add: bitmaps_def)
  show "sb_wf t = sb_wf s" using assms(1) sb_base_wf [of "e2_sb t" "e2_sb s"] by (simp add: same_geo_def sb_wf_def)
  show "ext2_mounted t" using assms by (simp add: same_geo_def layout_ok_def)
qed

lemma layout_same:
  assumes "layout_ok ino s" "same_geo s t" "e2_inv t" "free_set t \<subseteq> free_set s"
  shows "layout_ok ino t"
  using assms same_geo_meta [OF assms(2,1)] same_geo_views [OF assms(2)] unfolding layout_ok_def by auto

lemma file_same:
  assumes F: "file_ok ino n s" and L: "layout_ok ino s" and t: "same_geo s t" "disk_ok t" "free_set t \<subseteq> free_set s"
    and b: "\<And>b. b \<in> owned n s \<Longrightarrow> blk t b = blk s b"
  shows "file_ok ino n t"
proof -
  have ok: "disk_ok s" using L by (simp add: layout_ok_def e2_inv_def)
  have gb: "\<forall>k < max_blocks s. ext2_get_block n k t = ext2_get_block n k s"
    and o: "owned n t = owned n s" "max_blocks t = max_blocks s"
    using owned_frame(1-3) [OF ok F t(2,1) b] by blast+
  show ?thesis
    using F t(3) gb unfolding file_ok_def o same_geo_meta(2,3) [OF t(1) L] same_geo_views(2) [OF t(1)] by auto
qed

text \<open>Writing a block that is no bitmap.\<close>

lemma put_inv:
  assumes "e2_inv s" "blk_ok s b" "b \<notin> bitmaps s" "length x = block_size s"
  shows "e2_inv (put_blk b x s)" "free_set (put_blk b x s) = free_set s" "free_bits (put_blk b x s) = free_bits s"
proof -
  have g: "disk_ok s" "geo s" using assms(1) by (simp_all add: e2_inv_def)
  let ?t = "put_blk b x s"
  note P = put_blk_ok [OF g(1) assms(2,4)]
  have bm: "bmap ?t = bmap s" "bpg ?t = bpg s" "fdb ?t = fdb s" "block_no ?t = block_no s"
    by (auto simp: bmap_def bpg_def fdb_def block_no_def fun_eq_iff)
  have "blk ?t (bmap s k) = blk s (bmap s k)" if "k < num_block_groups s" for k
    using that assms(3) by (auto simp: P(2) bitmaps_def)
  then show f: "free_bits ?t = free_bits s" by (auto simp: free_bits_def bm)
  then show "free_set ?t = free_set s" by (simp add: free_set_def bm)
  show "e2_inv ?t" using g P(1) by (simp add: e2_inv_def geo_def bm group_free_def f)
qed

definition fresh :: "u32 \<Rightarrow> ext2_inode \<Rightarrow> ext2 \<Rightarrow> u32 \<Rightarrow> bool" where
  "fresh ino n s b \<longleftrightarrow> b \<noteq> 0 \<and> blk_ok s b \<and> b \<notin> owned n s \<union> bitmaps s \<union> meta ino s \<union> free_set s"

lemma alloc_fresh:
  assumes L: "layout_ok ino s" and F: "file_ok ino n s" and al: "ext2_alloc_block s = (b, t)" and ne: "free_set s \<noteq> {}"
  shows "layout_ok ino t" "file_ok ino n t" "same_geo s t" "fresh ino n t b" "free_set t = free_set s - {b}" "b \<in> free_set s"
    "\<And>c. c \<notin> bitmaps s \<Longrightarrow> blk t c = blk s c"
proof -
  have inv: "e2_inv s" using L by (simp add: layout_ok_def)
  obtain bg i where a: "(bg, i) \<in> free_bits s" "b = block_no s (bg, i)" "b \<noteq> 0" "e2_inv t"
    "blk t = (blk s)(bmap s bg := bitmap_set i (blk s (bmap s bg)))" and g: "same_geo s t"
    using ne by (rule_tac ext2_alloc_block_cases [OF inv al]) (auto simp: free_set_def)
  have "block_alloc s = (Some b, t)" using al a(3) by (simp add: block_alloc_def)
  from disk_blocks.alloc_Some [OF inv this] show fs: "free_set t = free_set s - {b}" "b \<in> free_set s" by auto
  show "same_geo s t" by (rule g)
  have "bmap s bg \<in> bitmaps s" using a(1) by (auto simp: bitmaps_def free_bits_def)
  then show c: "blk t c = blk s c" if "c \<notin> bitmaps s" for c using that by (auto simp: a(5))
  show Lt: "layout_ok ino t" by (rule layout_same [OF L g a(4)]) (use fs in auto)
  have d: "disk_ok t" using a(4) by (simp add: e2_inv_def)
  have oc: "blk t x = blk s x" if "x \<in> owned n s" for x using c that F by (auto simp: file_ok_def)
  show "file_ok ino n t" by (rule file_same [OF F L g d _ oc]) (use fs in auto)
  have "owned n t = owned n s" using owned_frame(2) [OF _ F d g oc] inv by (simp add: e2_inv_def)
  moreover have "b \<notin> owned n s" using F fs(2) by (auto simp: file_ok_def)
  moreover have "b \<notin> bitmaps s \<union> meta ino s" "blk_ok s b" using L fs(2) by (auto simp: layout_ok_def)
  ultimately show "fresh ino n t b"
    using a(3) fs(1) same_geo_meta [OF g L] same_geo_views(2) [OF g] by (simp add: fresh_def)
qed

text \<open>Writing a block the file does not own.\<close>

lemma put_fresh:
  assumes L: "layout_ok ino s" and F: "file_ok ino n s" and b: "blk_ok s b" "b \<notin> owned n s \<union> bitmaps s" and len: "length x = block_size s"
  shows "layout_ok ino (put_blk b x s)" "file_ok ino n (put_blk b x s)" "free_set (put_blk b x s) = free_set s"
    "blk (put_blk b x s) = (blk s)(b := x)" "owned n (put_blk b x s) = owned n s"
proof -
  have inv: "e2_inv s" and d: "disk_ok s" using L by (simp_all add: layout_ok_def e2_inv_def)
  note P = put_inv [OF inv b(1) _ len]
  note B = put_blk_ok [OF d b(1) len]
  have g: "same_geo s (put_blk b x s)" by simp
  show "free_set (put_blk b x s) = free_set s" using P(2) b by simp
  show "blk (put_blk b x s) = (blk s)(b := x)" by (rule B(2))
  show "layout_ok ino (put_blk b x s)" by (rule layout_same [OF L g P(1)]) (use P(2) b in auto)
  have oc: "blk (put_blk b x s) c = blk s c" if "c \<in> owned n s" for c using that b by (auto simp: B(2))
  show "file_ok ino n (put_blk b x s)" by (rule file_same [OF F L g B(1) _ oc]) (use P(2) b in auto)
  show "owned n (put_blk b x s) = owned n s" by (rule owned_frame(2) [OF d F B(1) g oc])
qed

end
