(* ===== verification/Ext2Store.thy ===== *)
theory Ext2Store
  imports Ext2File
begin

text \<open>
  Writing files: a write that fits into the direct and singly indirect blocks, with enough free blocks
  on the disk, succeeds, is read back through the inode on the disk, and leaves the rest of the file alone.
\<close>

section \<open>Attaching a block to a file\<close>

lemma le32_blit:
  assumes "4 * i + 4 \<le> length xs"
  shows "le32 (at (blit xs (4 * i) (enc32 w))) (4 * i) = w"
  using assms by (simp add: blit_def le32_at_skip)

lemma le32_blit_other:
  assumes "4 * i + 4 \<le> length xs" "j \<noteq> i" "4 * j + 4 \<le> length xs"
  shows "le32 (at (blit xs (4 * i) (enc32 w))) (4 * j) = le32 (at xs) (4 * j)"
proof -
  have "blit xs (4 * i) (enc32 w) ! (4 * j + d) = xs ! (4 * j + d)" if "d < 4" for d
  proof -
    have "\<not> (4 * i \<le> 4 * j + d \<and> 4 * j + d < 4 * i + 4)" using assms(2) that by linarith
    then show ?thesis using assms that by (subst nth_blit) auto
  qed
  from this [of 0] this [of 1] this [of 2] this [of 3] show ?thesis by (simp add: le32_def at_def)
qed

lemma fresh_not_mapped:
  "fresh ino n s b \<Longrightarrow> k < max_blocks s \<Longrightarrow> ext2_get_block n k s \<noteq> b" "fresh ino n s b \<Longrightarrow> i_block n ! 12 \<noteq> b"
  by (auto simp: fresh_def owned_def)

text \<open>A new state and inode in which block \<open>k\<close> of the file is a fresh block and the others are as before.\<close>

lemma file_extend:
  assumes F: "file_ok ino n s" and L: "layout_ok ino s" and g: "same_geo s t" and fs: "free_set t \<subseteq> free_set s"
    and b: "fresh ino n s b" and k: "k < max_blocks s" and wf: "inode_wf n'" and ind: "i_block n' ! 12 = i_block n ! 12"
    and gb: "\<And>l. l < max_blocks s \<Longrightarrow> ext2_get_block n' l t = (if l = k then b else ext2_get_block n l s)"
    and z: "ext2_get_block n k s = 0"
  shows "file_ok ino n' t" "owned n' t = insert b (owned n s)"
proof -
  have m: "max_blocks t = max_blocks s" using same_geo_views [OF g] by (simp add: max_blocks_def ptrs_def)
  have im: "(\<lambda>l. ext2_get_block n' l t) ` {..<max_blocks s} - {0} = insert b ((\<lambda>l. ext2_get_block n l s) ` {..<max_blocks s}) - {0}"
    using gb k z by (auto simp: image_iff split: if_splits)
  have "b \<noteq> 0" using b by (simp add: fresh_def)
  with im show o: "owned n' t = insert b (owned n s)" unfolding owned_def m ind by auto
  have G: "ext2_get_block n' l t \<noteq> 0 \<longrightarrow> ext2_get_block n' l t \<noteq> i_block n' ! 12" if "l < max_blocks s" for l
    using that F fresh_not_mapped(2) [OF b] by (auto simp: gb ind file_ok_def)
  have I: "l = l'" if "l < max_blocks s" "l' < max_blocks s" "ext2_get_block n' l t = ext2_get_block n' l' t" "ext2_get_block n' l t \<noteq> 0" for l l'
    using that F fresh_not_mapped(1) [OF b] fresh_not_mapped(1) [OF b, THEN not_sym] unfolding file_ok_def
    by (auto simp: gb split: if_splits)
  have D: "insert b (owned n s) \<inter> (bitmaps s \<union> meta ino s \<union> free_set t) = {}" "\<forall>c\<in>insert b (owned n s). blk_ok s c"
    using F b fs by (auto simp: file_ok_def fresh_def)
  show "file_ok ino n' t"
    unfolding file_ok_def o m same_geo_meta(2,3) [OF g L] same_geo_views(2) [OF g] using G I D wf by blast
qed

text \<open>\<^verbatim>\<open>ext2_set_block\<close> when the block that holds the number exists.\<close>

lemma set_block_spec:
  assumes F: "file_ok ino n s" and L: "layout_ok ino s" and b: "fresh ino n s b" and k: "k < max_blocks s"
    and z: "ext2_get_block n k s = 0" and ind: "k < 12 \<or> i_block n ! 12 \<noteq> 0"
  obtains n' t where "ext2_set_block n k b s = (0, n', t)" "layout_ok ino t" "file_ok ino n' t" "same_geo s t"
    "free_set t = free_set s" "owned n' t = insert b (owned n s)" "i_block n' ! 12 = i_block n ! 12" "i_size n' = i_size n"
    "\<And>l. l < max_blocks s \<Longrightarrow> ext2_get_block n' l t = (if l = k then b else ext2_get_block n l s)"
    "\<And>c. c = 0 \<or> c \<noteq> i_block n ! 12 \<Longrightarrow> blk t c = blk s c"
proof (cases "k < 12")
  case True
  let ?n = "n\<lparr>i_block := (i_block n)[k := b]\<rparr>"
  have wf: "inode_wf ?n" "length (i_block n) = 15" using F by (simp_all add: file_ok_def inode_wf_def)
  have d: "disk_ok s" using L by (simp add: layout_ok_def e2_inv_def)
  have i: "i_block ?n ! 12 = i_block n ! 12" using True by simp
  have gb: "ext2_get_block ?n l s = (if l = k then b else ext2_get_block n l s)" if "l < max_blocks s" for l
    using True wf(2) get_block_eq [OF d that, of n] get_block_eq [OF d that, of ?n] file_ok_ind [OF F]
    by (simp add: nth_list_update)
  note E = file_extend [OF F L same_geo_refl subset_refl b k wf(1) i gb z]
  show ?thesis by (rule that [of ?n s]) (use True E L gb i in \<open>simp_all add: ext2_set_block_def Let_def\<close>)
next
  case False
  let ?i = "i_block n ! 12"
  have d: "disk_ok s" and inv: "e2_inv s" using L by (simp_all add: layout_ok_def e2_inv_def)
  have i0: "?i \<noteq> 0" using ind False by simp
  have io: "blk_ok s ?i" by (rule file_ok_ind [OF F i0])
  have ib: "?i \<notin> bitmaps s" using F owned_ind [OF i0, of s] by (auto simp: file_ok_def)
  have len: "length (blk s ?i) = 4 * ptrs s" using length_blk [OF d] disk_ok_ptrs [OF d] by simp
  have kp: "4 * (k - 12) + 4 \<le> 4 * ptrs s" using k False by (simp add: max_blocks_def)
  define x where "x = blit (blk s ?i) (4 * (k - 12)) (enc32 b)"
  have xl: "length x = block_size s" using len kp disk_ok_ptrs [OF d] by (simp add: x_def)
  let ?t = "put_blk ?i x s"
  note P = put_inv [OF inv io ib xl]
  note B = put_blk_ok [OF d io xl]
  have "k - 12 < ptrs s" using k False by (simp add: max_blocks_def)
  then have e: "ext2_set_block n k b s = (0, n, ?t)"
    using False i0 read_blk_ok [OF d io] write_blk_eq(1) [OF d io] by (simp add: ext2_set_block_def Let_def x_def ptrs_def)
  have g: "same_geo s ?t" by simp
  have m: "max_blocks ?t = max_blocks s" by (simp add: max_blocks_def ptrs_def)
  have gb: "ext2_get_block n l ?t = (if l = k then b else ext2_get_block n l s)" if l: "l < max_blocks s" for l
  proof -
    have t: "ext2_get_block n l ?t = (if l < 12 then i_block n ! l else le32 (at x) (4 * (l - 12)))"
      using get_block_eq [OF B(1), of l n] l io i0 by (simp add: m B(2))
    have s: "ext2_get_block n l s = (if l < 12 then i_block n ! l else le32 (at (blk s ?i)) (4 * (l - 12)))"
      using get_block_eq [OF d l, of n] io i0 by simp
    show ?thesis
    proof (cases "l < 12")
      case True
      with False show ?thesis by (simp add: s t)
    next
      case l12: False
      have "4 * (l - 12) + 4 \<le> 4 * ptrs s" using l l12 by (simp add: max_blocks_def)
      then show ?thesis
        unfolding s t
        using l12 False kp len le32_blit [of "k - 12" "blk s ?i" b] le32_blit_other [of "k - 12" "blk s ?i" "l - 12" b]
        by (cases "l = k") (auto simp: x_def)
    qed
  qed
  have wf: "inode_wf n" using F by (simp add: file_ok_def)
  have Lt: "layout_ok ino ?t" by (rule layout_same [OF L g P(1)]) (simp add: P(2))
  note E = file_extend [OF F L g _ b k wf refl gb z]
  show ?thesis by (rule that [OF e Lt E(1) g P(2) E(2) refl refl gb]) (use i0 in \<open>auto simp: P(2) B(2)\<close>)
qed

lemma file_ok_cong:
  assumes F: "file_ok ino n s" and L: "layout_ok ino s" and g: "same_geo s t" and fs: "free_set t \<subseteq> free_set s"
    and wf: "inode_wf n'" and ind: "i_block n' ! 12 = i_block n ! 12"
    and gb: "\<And>l. l < max_blocks s \<Longrightarrow> ext2_get_block n' l t = ext2_get_block n l s"
  shows "file_ok ino n' t" "owned n' t = owned n s"
proof -
  have m: "max_blocks t = max_blocks s" using same_geo_views [OF g] by (simp add: max_blocks_def ptrs_def)
  have "(\<lambda>l. ext2_get_block n' l t) ` {..<max_blocks s} = (\<lambda>l. ext2_get_block n l s) ` {..<max_blocks s}"
    by (rule image_cong) (simp_all add: gb)
  then show o: "owned n' t = owned n s" by (simp only: owned_def m ind)
  show "file_ok ino n' t"
    using F fs wf gb unfolding file_ok_def o m ind same_geo_meta(2,3) [OF g L] same_geo_views(2) [OF g] by auto
qed

lemma mapped_inj:
  assumes "file_ok ino n s" "k < max_blocks s" "l < max_blocks s" "ext2_get_block n k s = ext2_get_block n l s" "ext2_get_block n k s \<noteq> 0"
  shows "k = l"
  using assms by (simp add: file_ok_def)

text \<open>Writing a data block of the file.\<close>

lemma put_data:
  assumes F: "file_ok ino n s" and L: "layout_ok ino s" and k: "k < max_blocks s" and b: "ext2_get_block n k s = b" "b \<noteq> 0"
    and len: "length x = block_size s"
  shows "layout_ok ino (put_blk b x s)" "file_ok ino n (put_blk b x s)" "free_set (put_blk b x s) = free_set s"
    "\<And>l. l < max_blocks s \<Longrightarrow> ext2_get_block n l (put_blk b x s) = ext2_get_block n l s"
    "\<And>p. p < max_blocks s * block_size s \<Longrightarrow>
       file_byte (put_blk b x s) n p = (if p div block_size s = k then x ! (p mod block_size s) else file_byte s n p)"
    "read_blk b s = Some (blk s b)" "ext2_write_block b x s = (0, put_blk b x s)"
proof -
  let ?t = "put_blk b x s"
  have d: "disk_ok s" and inv: "e2_inv s" using L by (simp_all add: layout_ok_def e2_inv_def)
  have o: "b \<in> owned n s" using owned_get [OF k, of n] b by simp
  have bo: "blk_ok s b" "b \<notin> bitmaps s" using F o by (auto simp: file_ok_def)
  have bi: "b \<noteq> i_block n ! 12" using F k b by (auto simp: file_ok_def)
  note P = put_inv [OF inv bo len]
  note B = put_blk_ok [OF d bo(1) len]
  have m: "max_blocks ?t = max_blocks s" by (simp add: max_blocks_def ptrs_def)
  have g: "same_geo s ?t" by simp
  show gb: "ext2_get_block n l ?t = ext2_get_block n l s" if "l < max_blocks s" for l
    using get_block_eq [OF d that, of n] get_block_eq [OF B(1), of l n] that file_ok_ind [OF F] bi by (simp add: m B(2))
  show "layout_ok ino ?t" by (rule layout_same [OF L g P(1)]) (simp add: P(2))
  show "free_set ?t = free_set s" by (rule P(2))
  show "file_ok ino n ?t" by (rule file_ok_cong [OF F L g _ _ refl gb]) (use F P(2) in \<open>simp_all add: file_ok_def\<close>)
  show "read_blk b s = Some (blk s b)" "ext2_write_block b x s = (0, ?t)"
    using read_blk_ok [OF d bo(1)] write_blk_eq(1) [OF d bo(1)] by simp_all
  fix p assume "p < max_blocks s * block_size s"
  then have l: "p div block_size s < max_blocks s" by (simp add: less_mult_imp_div_less)
  have j: "p div block_size s = k" if "ext2_get_block n (p div block_size s) s = b"
    by (rule mapped_inj [OF F l k]) (use that b in simp_all)
  show "file_byte ?t n p = (if p div block_size s = k then x ! (p mod block_size s) else file_byte s n p)"
  proof (cases "p div block_size s = k")
    case True
    then show ?thesis using b gb [OF l] by (simp add: file_byte_def Let_def B(2))
  next
    case False
    then have "ext2_get_block n (p div block_size s) s \<noteq> b" using j by blast
    then show ?thesis using False gb [OF l] by (simp add: file_byte_def Let_def B(2))
  qed
qed

text \<open>A new indirect block changes nothing in the file.\<close>

lemma new_indirect:
  assumes F: "file_ok ino n s" and L: "layout_ok ino s" and i0: "i_block n ! 12 = 0" and b: "fresh ino n s b"
    and ne: "free_set s \<noteq> {}" and al: "ext2_alloc_block s = (ind, t0)"
  defines "n' \<equiv> n\<lparr>i_block := (i_block n)[12 := ind]\<rparr>" and "t \<equiv> put_blk ind (replicate (block_size s) 0) t0"
  shows "layout_ok ino t" "file_ok ino n' t" "same_geo s t" "free_set t = free_set s - {ind}" "ind \<in> free_set s" "fresh ino n' t b"
    "\<And>l. l < max_blocks s \<Longrightarrow> ext2_get_block n' l t = ext2_get_block n l s" "owned n' t = insert ind (owned n s)"
    "\<And>c. c \<notin> bitmaps s \<Longrightarrow> c \<noteq> ind \<Longrightarrow> blk t c = blk s c" "ind \<noteq> 0" "i_block n' ! 12 = ind"
    "ext2_write_block ind (replicate (block_size s) 0) t0 = (0, t)"
proof -
  note A = alloc_fresh [OF L F al ne]
  note V = same_geo_views [OF A(3)]
  have fr: "ind \<noteq> 0" "blk_ok t0 ind" "ind \<notin> owned n t0 \<union> bitmaps t0 \<union> meta ino t0 \<union> free_set t0"
    using A(4) by (auto simp: fresh_def)
  have l0: "length (replicate (block_size s) (0::u8)) = block_size t0" by (simp add: V(7))
  have d: "disk_ok s" "disk_ok t0" using L A(1) by (simp_all add: layout_ok_def e2_inv_def)
  have fr': "ind \<notin> owned n t0 \<union> bitmaps t0" using fr(3) by blast
  note P = put_fresh [OF A(1,2) fr(2) fr' l0, folded t_def]
  have dt: "disk_ok t" using P(1) by (simp add: layout_ok_def e2_inv_def)
  show "layout_ok ino t" by (rule P(1))
  show g: "same_geo s t" using A(3) by (simp add: t_def)
  note Vt = same_geo_views [OF g]
  show "free_set t = free_set s - {ind}" "ind \<in> free_set s" using P(3) A(5,6) by simp_all
  show ni: "ind \<noteq> 0" by (rule fr(1))
  show bl: "blk t c = blk s c" if "c \<notin> bitmaps s" "c \<noteq> ind" for c using that A(7) by (simp add: P(4))
  show "ext2_write_block ind (replicate (block_size s) 0) t0 = (0, t)"
    using write_blk_eq(1) [OF d(2) fr(2)] by (simp add: t_def)
  have wf: "length (i_block n) = 15" using F by (simp add: file_ok_def inode_wf_def)
  show i12: "i_block n' ! 12 = ind" using wf by (simp add: n'_def)
  have m: "max_blocks t = max_blocks s" by (simp add: max_blocks_def ptrs_def Vt(7))
  show gb: "ext2_get_block n' l t = ext2_get_block n l s" if l: "l < max_blocks s" for l
  proof (cases "l < 12")
    case True
    then show ?thesis using get_block_eq [OF d(1) l, of n] get_block_eq [OF dt, of l n'] l i12 ni i0 fr(2) Vt(2) V(2)
      by (simp add: m n'_def)
  next
    case False
    have "4 * (l - 12) + 3 < block_size s" using False l disk_ok_ptrs [OF d(1)] by (auto simp: max_blocks_def)
    then have "le32 (at (replicate (block_size s) 0)) (4 * (l - 12)) = 0" by (simp add: le32_def at_def)
    then show ?thesis using False get_block_eq [OF d(1) l, of n] get_block_eq [OF dt, of l n'] l i12 ni i0 fr(2) Vt(2) V(2)
      by (simp add: m P(4))
  qed
  have im: "(\<lambda>l. ext2_get_block n' l t) ` {..<max_blocks s} = (\<lambda>l. ext2_get_block n l s) ` {..<max_blocks s}"
    by (rule image_cong) (simp_all add: gb)
  show o: "owned n' t = insert ind (owned n s)" using ni i0 by (auto simp: owned_def m i12 im)
  have on: "ind \<notin> owned n s" using F A(6) by (auto simp: file_ok_def)
  note M = same_geo_meta [OF g L]
  have fb: "ind \<notin> bitmaps s \<union> meta ino s \<union> free_set t" "blk_ok s ind"
    using fr same_geo_meta [OF A(3) L] P(3) V(2) by auto
  have sub: "free_set t \<subseteq> free_set s" using P(3) A(5) by auto
  show "file_ok ino n' t"
    unfolding file_ok_def o m i12 M(2,3) Vt(2)
  proof (intro conjI allI impI)
    show "inode_wf n'" using F by (simp add: file_ok_def inode_wf_def n'_def)
    show "\<forall>b\<in>insert ind (owned n s). blk_ok s b" using F fb by (simp add: file_ok_def)
    show "insert ind (owned n s) \<inter> (bitmaps s \<union> meta ino s \<union> free_set t) = {}" using F fb sub by (auto simp: file_ok_def)
    fix k assume k: "k < max_blocks s" "ext2_get_block n' k t \<noteq> 0"
    then show "ext2_get_block n' k t \<noteq> ind" using owned_get [of k s n] on by (auto simp: gb)
    fix l assume "l < max_blocks s" "ext2_get_block n' k t = ext2_get_block n' l t"
    then show "k = l" using mapped_inj [OF F k(1), of l] k by (simp add: gb)
  qed
  have "b \<noteq> ind" using b A(6) by (auto simp: fresh_def)
  then show "fresh ino n' t b" using b sub unfolding fresh_def o M(2,3) Vt(2) by auto
qed

text \<open>Room for \<open>r\<close> more data blocks and the indirect block, where there is none yet.\<close>

definition room :: "ext2_inode \<Rightarrow> ext2 \<Rightarrow> nat \<Rightarrow> bool" where
  "room n s r \<longleftrightarrow> r + (if i_block n ! 12 = 0 then 1 else 0) \<le> card (free_set s)"

lemma finite_free_set [simp]: "finite (free_set s)"
  by (simp add: free_set_def)

lemma attach_block:
  assumes F: "file_ok ino n s" and L: "layout_ok ino s" and b: "fresh ino n s b" and k: "k < max_blocks s"
    and z: "ext2_get_block n k s = 0" and rm: "room n s r"
  obtains n' t e where "ext2_set_block n k b s = (e, n', t)" "layout_ok ino t" "file_ok ino n' t" "same_geo s t"
    "room n' t r" "i_size n' = i_size n"
    "\<And>l. l < max_blocks s \<Longrightarrow> ext2_get_block n' l t = (if l = k then b else ext2_get_block n l s)"
    "\<And>c. c \<notin> bitmaps s \<union> free_set s \<Longrightarrow> c = 0 \<or> c \<noteq> i_block n ! 12 \<Longrightarrow> blk t c = blk s c"
proof (cases "12 \<le> k \<and> i_block n ! 12 = 0")
  case False
  then have i0: "k < 12 \<or> i_block n ! 12 \<noteq> 0" by auto
  obtain n' t where S: "ext2_set_block n k b s = (0, n', t)" "layout_ok ino t" "file_ok ino n' t" "same_geo s t"
    "free_set t = free_set s" "owned n' t = insert b (owned n s)" "i_block n' ! 12 = i_block n ! 12" "i_size n' = i_size n"
    "\<And>l. l < max_blocks s \<Longrightarrow> ext2_get_block n' l t = (if l = k then b else ext2_get_block n l s)"
    "\<And>c. c = 0 \<or> c \<noteq> i_block n ! 12 \<Longrightarrow> blk t c = blk s c"
    by (rule set_block_spec [OF F L b k z i0]) (rule that)
  show ?thesis by (rule that [OF S(1-4) _ S(8,9) S(10)]) (use rm S(5,7) in \<open>simp_all add: room_def\<close>)
next
  case True
  have ne: "free_set s \<noteq> {}" using rm True by (auto simp: room_def)
  obtain ind t0 where al: "ext2_alloc_block s = (ind, t0)" by fastforce
  have i0: "i_block n ! 12 = 0" using True by simp
  define n1 where "n1 = n\<lparr>i_block := (i_block n)[12 := ind]\<rparr>"
  define t1 where "t1 = put_blk ind (replicate (block_size s) 0) t0"
  note N = new_indirect [OF F L i0 b ne al, folded n1_def t1_def]
  have m: "max_blocks t1 = max_blocks s" by (simp add: max_blocks_def ptrs_def same_geo_views(7) [OF N(3)])
  have k1: "k < max_blocks t1" "ext2_get_block n1 k t1 = 0" "k < 12 \<or> i_block n1 ! 12 \<noteq> 0" using k z N(7,10,11) by (simp_all add: m)
  obtain n' t where S: "ext2_set_block n1 k b t1 = (0, n', t)" "layout_ok ino t" "file_ok ino n' t" "same_geo t1 t"
    "free_set t = free_set t1" "owned n' t = insert b (owned n1 t1)" "i_block n' ! 12 = i_block n1 ! 12" "i_size n' = i_size n1"
    "\<And>l. l < max_blocks t1 \<Longrightarrow> ext2_get_block n' l t = (if l = k then b else ext2_get_block n1 l t1)"
    "\<And>c. c = 0 \<or> c \<noteq> i_block n1 ! 12 \<Longrightarrow> blk t c = blk t1 c"
    by (rule set_block_spec [OF N(2,1,6) k1]) (rule that)
  have bs: "block_size t1 = block_size s" by (rule same_geo_views(7) [OF N(3)])
  have kp: "k - 12 < block_size s div 4" using k True unfolding max_blocks_def ptrs_def by linarith
  have e: "ext2_set_block n k b s = ext2_set_block n1 k b t1"
    using True al N(10-12) kp by (simp add: ext2_set_block_def [of n] ext2_set_block_def [of n1] Let_def bs n1_def [symmetric])
  have "card (free_set t) = card (free_set s) - 1" by (simp add: S(5) N(4,5))
  then have rt: "room n' t r" using rm True N(10,11) S(7) by (simp add: room_def)
  have gb: "ext2_get_block n' l t = (if l = k then b else ext2_get_block n l s)" if "l < max_blocks s" for l
    using S(9) [of l] that by (simp add: m N(7))
  have bl: "blk t c = blk s c" if "c \<notin> bitmaps s \<union> free_set s" for c
  proof -
    have "c \<noteq> ind" using that N(5) by blast
    then show ?thesis using that N(9) [of c] S(10) [of c] by (simp add: N(11))
  qed
  show ?thesis by (rule that [OF e [unfolded S(1)] S(2,3) same_geo_trans [OF N(3) S(4)] rt _ gb bl]) (simp_all add: S(8) n1_def)
qed

text \<open>Only the block numbers of the inode matter.\<close>

lemma inode_upd:
  assumes "i_block n' = i_block n"
  shows "ext2_get_block n' k s = ext2_get_block n k s" "file_byte s n' p = file_byte s n p" "room n' s r = room n s r"
    "i_osd2 n' = i_osd2 n \<Longrightarrow> file_ok ino n' s = file_ok ino n s"
proof -
  show g: "ext2_get_block n' k s = ext2_get_block n k s" for k using assms by (simp add: ext2_get_block_def Let_def)
  then show "file_byte s n' p = file_byte s n p" by (simp add: file_byte_def)
  show "room n' s r = room n s r" using assms by (simp add: room_def)
  have "owned n' s = owned n s" using assms by (simp add: owned_def g)
  then show "i_osd2 n' = i_osd2 n \<Longrightarrow> file_ok ino n' s = file_ok ino n s" using assms by (simp add: file_ok_def inode_wf_def g)
qed

text \<open>A new block \<open>k\<close> of the file, filled with \<open>x\<close>.\<close>

lemma grow_file:
  assumes F: "file_ok ino n s" and L: "layout_ok ino s" and k: "k < max_blocks s" and z: "ext2_get_block n k s = 0"
    and rm: "room n s (Suc r)" and len: "length x = block_size s"
  obtains b s1 e n2 s2 where "ext2_alloc_block s = (b, s1)" "b \<noteq> 0" "ext2_set_block n k b s1 = (e, n2, s2)"
    "layout_ok ino (put_blk b x s2)" "file_ok ino n2 (put_blk b x s2)" "same_geo s (put_blk b x s2)" "room n2 (put_blk b x s2) r"
    "i_size n2 = i_size n" "block_size s2 = block_size s" "ext2_write_block b x s2 = (0, put_blk b x s2)"
    "\<And>l. l < max_blocks s \<Longrightarrow> ext2_get_block n2 l (put_blk b x s2) = (if l = k then b else ext2_get_block n l s)"
    "\<And>p. p < max_blocks s * block_size s \<Longrightarrow>
       file_byte (put_blk b x s2) n2 p = (if p div block_size s = k then x ! (p mod block_size s) else file_byte s n p)"
proof -
  have ne: "free_set s \<noteq> {}" using rm by (auto simp: room_def)
  obtain b s1 where al: "ext2_alloc_block s = (b, s1)" by fastforce
  note A = alloc_fresh [OF L F al ne]
  note V = same_geo_views [OF A(3)]
  have d: "disk_ok s" "disk_ok s1" using L A(1) by (simp_all add: layout_ok_def e2_inv_def)
  have ob: "blk s1 c = blk s c" if "c \<in> owned n s" for c using A(7) that F by (auto simp: file_ok_def)
  have O: "max_blocks s1 = max_blocks s" "\<And>l. l < max_blocks s \<Longrightarrow> ext2_get_block n l s1 = ext2_get_block n l s"
    using owned_frame(1,3) [OF d(1) F d(2) A(3) ob] by blast+
  have k1: "k < max_blocks s1" "ext2_get_block n k s1 = 0" using k z O by simp_all
  have "card (free_set s1) = card (free_set s) - 1" by (simp add: A(5,6))
  then have rm1: "room n s1 r" using rm by (simp add: room_def)
  obtain n2 s2 e where S: "ext2_set_block n k b s1 = (e, n2, s2)" "layout_ok ino s2" "file_ok ino n2 s2" "same_geo s1 s2"
    "room n2 s2 r" "i_size n2 = i_size n"
    "\<And>l. l < max_blocks s1 \<Longrightarrow> ext2_get_block n2 l s2 = (if l = k then b else ext2_get_block n l s1)"
    "\<And>c. c \<notin> bitmaps s1 \<union> free_set s1 \<Longrightarrow> c = 0 \<or> c \<noteq> i_block n ! 12 \<Longrightarrow> blk s2 c = blk s1 c"
    by (rule attach_block [OF A(2,1,4) k1 rm1]) (rule that)
  have g2: "same_geo s s2" by (rule same_geo_trans [OF A(3) S(4)])
  have m2: "max_blocks s2 = max_blocks s" "block_size s2 = block_size s"
    using same_geo_views(7) [OF g2] by (simp_all add: max_blocks_def ptrs_def)
  have b0: "b \<noteq> 0" using A(4) by (simp add: fresh_def)
  have kb: "ext2_get_block n2 k s2 = b" using S(7) [of k] k1 by simp
  have k2: "k < max_blocks s2" "length x = block_size s2" using k len m2 by simp_all
  note P = put_data [OF S(3,2) k2(1) kb b0 k2(2)]
  have fb: "file_byte (put_blk b x s2) n2 p = (if p div block_size s = k then x ! (p mod block_size s) else file_byte s n p)"
    if p: "p < max_blocks s * block_size s" for p
  proof (cases "p div block_size s = k")
    case True
    then show ?thesis using P(5) [of p] p by (simp add: m2)
  next
    case False
    have l: "p div block_size s < max_blocks s" using p by (simp add: less_mult_imp_div_less)
    let ?c = "ext2_get_block n (p div block_size s) s"
    have "blk s2 ?c = blk s ?c" if c: "?c \<noteq> 0"
    proof -
      have o: "?c \<in> owned n s" by (rule owned_get [OF l c])
      then have "?c \<notin> bitmaps s1 \<union> free_set s1" "?c \<noteq> i_block n ! 12"
        using F l c A(5) same_geo_meta(3) [OF A(3) L] by (auto simp: file_ok_def)
      then show ?thesis using S(8) [of ?c] ob [OF o] by simp
    qed
    then show ?thesis using False P(5) [of p] p S(7) [of "p div block_size s"] l O by (simp add: m2 file_byte_def Let_def)
  qed
  have gb: "ext2_get_block n2 l (put_blk b x s2) = (if l = k then b else ext2_get_block n l s)" if "l < max_blocks s" for l
    using P(4) [of l] S(7) [of l] O that m2 by simp
  have rt: "room n2 (put_blk b x s2) r" using S(5) P(3) by (simp add: room_def)
  show ?thesis by (rule that [OF al b0 S(1) P(1,2) _ rt S(6) m2(2) P(7) gb fb]) (use g2 in simp)
qed

lemma ensure_block_spec:
  assumes F: "file_ok ino n s" and L: "layout_ok ino s" and k: "k < max_blocks s" and rm: "room n s (Suc r)"
  obtains b n' t where "ensure_block n k s = (Some b, n', t)" "layout_ok ino t" "file_ok ino n' t" "same_geo s t"
    "room n' t r" "i_size n' = i_size n" "ext2_get_block n' k t = b" "b \<noteq> 0"
    "\<And>p. p < max_blocks s * block_size s \<Longrightarrow> file_byte t n' p = file_byte s n p"
proof (cases "ext2_get_block n k s = 0")
  case False
  show ?thesis by (rule that [of "ext2_get_block n k s" n s]) (use False F L rm in \<open>simp_all add: ensure_block_def room_def\<close>)
next
  case z: True
  let ?x = "replicate (block_size s) (0::u8)"
  obtain b s1 e n2 s2 where G: "ext2_alloc_block s = (b, s1)" "b \<noteq> 0" "ext2_set_block n k b s1 = (e, n2, s2)"
    "layout_ok ino (put_blk b ?x s2)" "file_ok ino n2 (put_blk b ?x s2)" "same_geo s (put_blk b ?x s2)" "room n2 (put_blk b ?x s2) r"
    "i_size n2 = i_size n" "block_size s2 = block_size s" "ext2_write_block b ?x s2 = (0, put_blk b ?x s2)"
    "\<And>l. l < max_blocks s \<Longrightarrow> ext2_get_block n2 l (put_blk b ?x s2) = (if l = k then b else ext2_get_block n l s)"
    "\<And>p. p < max_blocks s * block_size s \<Longrightarrow>
       file_byte (put_blk b ?x s2) n2 p = (if p div block_size s = k then ?x ! (p mod block_size s) else file_byte s n p)"
    by (rule grow_file [OF F L k z rm length_replicate]) (rule that)
  define n3 where "n3 = n2\<lparr>i_blocks := i_blocks n2 + of_nat (block_size s div 512)\<rparr>"
  have i: "i_block n3 = i_block n2" "i_osd2 n3 = i_osd2 n2" by (simp_all add: n3_def)
  note U = inode_upd [OF i(1)] inode_upd(4) [OF i]
  have en: "ensure_block n k s = (Some b, n3, put_blk b ?x s2)" using z G(1-3,10) by (simp add: ensure_block_def Let_def n3_def)
  have "0 < block_size s" using L by (auto simp: layout_ok_def e2_inv_def disk_ok_def)
  then have "file_byte (put_blk b ?x s2) n3 p = file_byte s n p" if "p < max_blocks s * block_size s" for p
    using G(12) [OF that] z by (auto simp: U file_byte_def [of s])
  then show ?thesis
    by (rule_tac that [OF en G(4) _ G(6) _ _ _ G(2)]) (use G(5,7,8) G(11) [OF k] in \<open>simp_all add: U\<close>, simp add: n3_def)
qed

section \<open>The loop\<close>

lemma power32: "(2::nat) ^ 32 = 4294967296"
  by simp

lemma write_chunk_spec:
  assumes F: "file_ok ino n s" and L: "layout_ok ino s" and fit: "pos mod block_size s + length data \<le> block_size s" "0 < length data"
    and k: "pos div block_size s < max_blocks s" and rm: "room n s (Suc r)"
  obtains n' t where "write_chunk n pos data s = (True, n', t)" "layout_ok ino t" "file_ok ino n' t" "same_geo s t"
    "room n' t r" "i_size n' = i_size n"
    "\<And>p. p < max_blocks s * block_size s \<Longrightarrow>
       file_byte t n' p = (if pos \<le> p \<and> p < pos + length data then data ! (p - pos) else file_byte s n p)"
proof -
  let ?bs = "block_size s" and ?k = "pos div block_size s" and ?o = "pos mod block_size s"
  have d: "disk_ok s" using L by (simp add: layout_ok_def e2_inv_def)
  have bs: "0 < ?bs" using d by (auto simp: disk_ok_def)
  have "max_blocks s \<le> 2000" using disk_ok_ptrs [OF d] by (auto simp: max_blocks_def)
  then have m: "?k mod 4294967296 = ?k" using k by simp
  obtain b n' s1 where E: "ensure_block n ?k s = (Some b, n', s1)" "layout_ok ino s1" "file_ok ino n' s1" "same_geo s s1"
    "room n' s1 r" "i_size n' = i_size n" "ext2_get_block n' ?k s1 = b" "b \<noteq> 0"
    "\<And>p. p < max_blocks s * ?bs \<Longrightarrow> file_byte s1 n' p = file_byte s n p"
    by (rule ensure_block_spec [OF F L k rm]) (rule that)
  have m1: "max_blocks s1 = max_blocks s" "block_size s1 = ?bs"
    using same_geo_views(7) [OF E(4)] by (simp_all add: max_blocks_def ptrs_def)
  have k1: "?k < max_blocks s1" using k m1 by simp
  have d1: "disk_ok s1" using E(2) by (simp add: layout_ok_def e2_inv_def)
  define old where "old = (if ?o \<noteq> 0 \<or> length data \<noteq> ?bs then blk s1 b else replicate ?bs 0)"
  have ol: "length old = ?bs" using length_blk [OF d1] by (simp add: old_def m1)
  define x where "x = blit old ?o data"
  have xl: "length x = block_size s1" using ol fit by (simp add: x_def m1)
  define t where "t = put_blk b x s1"
  note P = put_data [OF E(3,2) k1 E(7,8) xl, folded t_def]
  have rd: "(if ?o \<noteq> 0 \<or> length data \<noteq> ?bs then read_blk b s1 else Some (replicate ?bs 0)) = Some old"
    using P(6) by (simp add: old_def)
  have w: "write_chunk n pos data s = (True, n', t)"
    unfolding write_chunk_def Let_def power32 m E(1) prod.case option.case rd using P(7) by (simp add: x_def)
  have by1: "file_byte t n' p = (if pos \<le> p \<and> p < pos + length data then data ! (p - pos) else file_byte s n p)"
    if p: "p < max_blocks s * ?bs" for p
  proof (cases "p div ?bs = ?k")
    case False
    have "\<not> (pos \<le> p \<and> p < pos + length data)"
    proof
      assume a: "pos \<le> p \<and> p < pos + length data"
      then have "p - pos < length data" by linarith
      with a show False using div_mod_chunk(1) [OF bs fit(1), of "p - pos"] False by simp
    qed
    then show ?thesis using False P(5) [of p] E(9) [of p] p by (auto simp: m1)
  next
    case True
    have pm: "p mod ?bs < ?bs" using bs by simp
    have e: "p = ?k * ?bs + p mod ?bs" "pos = ?k * ?bs + ?o" using True div_mult_mod_eq [of p ?bs] by simp_all
    have iff: "pos \<le> p \<and> p < pos + length data \<longleftrightarrow> ?o \<le> p mod ?bs \<and> p mod ?bs < ?o + length data" "p - pos = p mod ?bs - ?o"
      using e by linarith+
    have ob: "old ! (p mod ?bs) = file_byte s n p" if "\<not> (?o \<le> p mod ?bs \<and> p mod ?bs < ?o + length data)"
      using that pm E(7,8) E(9) [of p] p True by (auto simp: old_def file_byte_def m1 Let_def)
    have "x ! (p mod ?bs) = (if ?o \<le> p mod ?bs \<and> p mod ?bs < ?o + length data then data ! (p mod ?bs - ?o) else old ! (p mod ?bs))"
      unfolding x_def by (rule nth_blit) (use fit ol pm in simp_all)
    then show ?thesis using P(5) [of p] p True ob by (simp add: m1 iff)
  qed
  have rt: "room n' t r" using E(5) P(3) by (simp add: room_def)
  show ?thesis by (rule that [OF w P(1,2) _ rt E(6) by1]) (use E(4) in \<open>simp add: t_def\<close>)
qed

text \<open>The number of blocks that the rest of the write touches.\<close>

definition blocks_left :: "nat \<Rightarrow> nat \<Rightarrow> nat \<Rightarrow> nat" where
  "blocks_left bs pos lim = (if pos < lim then Suc ((lim - 1) div bs) - pos div bs else 0)"

lemma blocks_left_step:
  assumes "0 < bs" "pos < lim" "c = chunk_len bs pos (lim - pos)"
  shows "blocks_left bs pos lim = Suc (blocks_left bs (pos + c) lim)"
proof -
  have le: "pos div bs \<le> (lim - 1) div bs" by (rule div_le_mono) (use assms(2) in simp)
  have lt: "pos mod bs < bs" using assms(1) by simp
  show ?thesis
  proof (cases "pos + c < lim")
    case True
    then have c: "c = bs - pos mod bs" using assms(3) by (auto simp: chunk_len_def Let_def split: if_splits)
    have "pos + c = pos div bs * bs + (pos mod bs + c)" by simp
    also have "\<dots> = bs * Suc (pos div bs)" using c lt by simp
    finally have "(pos + c) div bs = Suc (pos div bs)" using assms(1) by simp
    moreover have "(pos + c) div bs \<le> (lim - 1) div bs" by (rule div_le_mono) (use True in simp)
    ultimately show ?thesis using True assms(2) by (simp add: blocks_left_def)
  next
    case False
    have "0 < c" using assms by (simp add: chunk_len_pos)
    have "c \<le> bs - pos mod bs" "c \<le> lim - pos" using assms(3) by (auto simp: chunk_len_def Let_def)
    then have "lim - 1 - pos < c" "pos mod bs + c \<le> bs" using False lt \<open>0 < c\<close> assms(2) by linarith+
    then have "(lim - 1) div bs = pos div bs" using div_mod_chunk(1) [OF assms(1), of pos c "lim - 1 - pos"] assms(2) by simp
    then show ?thesis using False assms(2) by (simp add: blocks_left_def)
  qed
qed

lemma write_loop_spec:
  assumes "file_ok ino n s" "layout_ok ino s" "off + length buf \<le> max_blocks s * block_size s" "w \<le> length buf"
    and "room n s (blocks_left (block_size s) (off + w) (off + length buf))"
  shows "\<exists>n' t. write_loop n off buf w s = (None, n', t) \<and> layout_ok ino t \<and> file_ok ino n' t \<and> same_geo s t \<and> i_size n' = i_size n \<and>
     (\<forall>p < max_blocks s * block_size s.
        file_byte t n' p = (if off + w \<le> p \<and> p < off + length buf then buf ! (p - off) else file_byte s n p))"
  using assms
proof (induction "length buf - w" arbitrary: w n s rule: less_induct)
  case less
  let ?bs = "block_size s"
  have bs: "0 < ?bs" using less.prems(2) by (auto simp: layout_ok_def e2_inv_def disk_ok_def)
  show ?case
  proof (cases "w < length buf")
    case False
    then have "w = length buf" using less.prems(4) by simp
    then show ?thesis using less.prems by (subst write_loop.simps) auto
  next
    case True
    define pos where "pos = off + w"
    define c where "c = chunk_len ?bs pos (length buf - w)"
    define data where "data = slice w c buf"
    have c: "0 < c" "c \<le> length buf - w" "pos mod ?bs + c \<le> ?bs" using True bs by (simp_all add: c_def chunk_len_pos chunk_len_le)
    have dl: "length data = c" using c True by (simp add: data_def slice_def)
    have lim: "pos < off + length buf" using True by (simp add: pos_def)
    have k: "pos div ?bs < max_blocks s" by (rule less_mult_imp_div_less) (use lim less.prems(3) in linarith)
    have cl: "c = chunk_len ?bs pos (off + length buf - pos)" by (simp add: c_def pos_def)
    have rm: "room n s (Suc (blocks_left ?bs (pos + c) (off + length buf)))"
      using less.prems(5) unfolding pos_def [symmetric] blocks_left_step [OF bs lim cl] .
    obtain n1 s1 where W: "write_chunk n pos data s = (True, n1, s1)" "layout_ok ino s1" "file_ok ino n1 s1" "same_geo s s1"
      "room n1 s1 (blocks_left ?bs (pos + c) (off + length buf))" "i_size n1 = i_size n"
      "\<And>p. p < max_blocks s * ?bs \<Longrightarrow> file_byte s1 n1 p = (if pos \<le> p \<and> p < pos + length data then data ! (p - pos) else file_byte s n p)"
      by (rule write_chunk_spec [OF less.prems(1,2) _ _ k rm, of data]) (use c dl in \<open>auto intro: that\<close>)
    have m: "max_blocks s1 = max_blocks s" "block_size s1 = ?bs"
      using same_geo_views(7) [OF W(4)] by (simp_all add: max_blocks_def ptrs_def)
    have "\<exists>n' t. write_loop n1 off buf (w + c) s1 = (None, n', t) \<and> layout_ok ino t \<and> file_ok ino n' t \<and> same_geo s1 t \<and> i_size n' = i_size n1 \<and>
       (\<forall>p < max_blocks s1 * block_size s1.
          file_byte t n' p = (if off + (w + c) \<le> p \<and> p < off + length buf then buf ! (p - off) else file_byte s1 n1 p))"
      by (rule less.hyps) (use True c W(2,3,5) less.prems(3) in \<open>simp_all add: m pos_def add.assoc\<close>)
    then obtain n' t where T: "write_loop n1 off buf (w + c) s1 = (None, n', t)" "layout_ok ino t" "file_ok ino n' t" "same_geo s1 t"
      "i_size n' = i_size n1"
      "\<And>p. p < max_blocks s * ?bs \<Longrightarrow>
         file_byte t n' p = (if pos + c \<le> p \<and> p < off + length buf then buf ! (p - off) else file_byte s1 n1 p)"
      unfolding m pos_def add.assoc by blast
    have "write_loop n off buf w s = (None, n', t)"
      using True bs W(1) T(1) by (subst write_loop.simps) (simp add: Let_def pos_def [symmetric] c_def [symmetric] data_def [symmetric])
    moreover have "file_byte t n' p = (if off + w \<le> p \<and> p < off + length buf then buf ! (p - off) else file_byte s n p)"
      if p: "p < max_blocks s * ?bs" for p
    proof -
      have "data ! (p - pos) = buf ! (p - off)" if "pos \<le> p" "p < pos + c"
      proof -
        have "p - pos < c" "w + (p - pos) = p - off" using that by (auto simp: pos_def)
        then show ?thesis using c True by (simp add: data_def slice_def)
      qed
      then show ?thesis using T(6) [OF p] W(7) [OF p] c(1,2) by (auto simp: dl pos_def)
    qed
    ultimately show ?thesis using T(2,3,5) W(6) same_geo_trans [OF W(4) T(4)] by auto
  qed
qed

section \<open>Metadata\<close>

text \<open>A change of the disk outside the file and the bitmaps.\<close>

lemma disk_change:
  assumes L: "layout_ok ino s" and F: "file_ok ino n s" and t: "t = s\<lparr>e2_disk := d\<rparr>" "disk_ok t"
    and b: "\<And>c. c \<in> owned n s \<union> bitmaps s \<Longrightarrow> blk t c = blk s c"
  shows "layout_ok ino t" "file_ok ino n t" "same_geo s t"
    "\<And>p. p < max_blocks s * block_size s \<Longrightarrow> file_byte t n p = file_byte s n p"
proof -
  have inv: "disk_ok s" "geo s" using L by (simp_all add: layout_ok_def e2_inv_def)
  show g: "same_geo s t" by (simp add: t(1) same_geo_def)
  have bm: "bmap t = bmap s" "bpg t = bpg s" "fdb t = fdb s" "block_no t = block_no s" "num_block_groups t = num_block_groups s"
    "bgdt t = bgdt s" "blk_ok t = blk_ok s" "block_size t = block_size s"
    by (auto simp: t(1) bmap_def bpg_def fdb_def block_no_def blk_ok_def spb_def fun_eq_iff)
  have "blk t (bmap s k) = blk s (bmap s k)" if "k < num_block_groups s" for k
    by (rule b) (use that in \<open>simp add: bitmaps_def\<close>)
  then have f: "free_bits t = free_bits s" by (auto simp: free_bits_def bm)
  then have "geo t" using inv(2) by (simp add: geo_def bm group_free_def)
  then have i: "e2_inv t" using t(2) by (simp add: e2_inv_def)
  have fs: "free_set t \<subseteq> free_set s" by (simp add: free_set_def bm f)
  show "layout_ok ino t" by (rule layout_same [OF L g i fs])
  show "file_ok ino n t" by (rule file_same [OF F L g t(2) fs b]) simp
  show "file_byte t n p = file_byte s n p" if "p < max_blocks s * block_size s" for p
    by (rule owned_frame(4) [OF inv(1) F t(2) g b that]) simp
qed

lemma put_disk: "put_blk b x s = s\<lparr>e2_disk := e2_disk (put_blk b x s)\<rparr>"
  by (simp add: put_blk_def ext2_write_block_def Let_def split: prod.splits)

lemma write_inode_spec:
  assumes L: "layout_ok ino s" and F: "file_ok ino n s"
  defines "t \<equiv> snd (ext2_write_inode ino n s)"
  shows "layout_ok ino t" "file_ok ino n t" "same_geo s t"
    "\<And>p. p < max_blocks s * block_size s \<Longrightarrow> file_byte t n p = file_byte s n p"
    "slice (snd (inode_loc ino s)) 128 (blk t (fst (inode_loc ino s))) = enc_inode n"
    "\<And>c. c \<in> owned n s \<Longrightarrow> blk t c = blk s c"
proof -
  let ?b = "fst (inode_loc ino s)" and ?o = "snd (inode_loc ino s)"
  have d: "disk_ok s" using L by (simp add: layout_ok_def e2_inv_def)
  have b: "blk_ok s ?b" "?o + 128 \<le> block_size s" "?b \<in> meta ino s" "ext2_mounted s" "ino \<noteq> 0"
    using L by (simp_all add: layout_ok_def meta_def)
  have e: "length (enc_inode n) = 128" by (rule length_enc_inode) (use F in \<open>simp add: file_ok_def\<close>)
  let ?x = "blit (blk s ?b) ?o (enc_inode n)"
  have xl: "length ?x = block_size s" using length_blk [OF d] e b(2) by simp
  have t: "t = put_blk ?b ?x s"
    using b read_blk_ok [OF d b(1)] by (simp add: t_def ext2_write_inode_def put_blk_def case_prod_beta)
  note B = put_blk_ok [OF d b(1) xl, folded t]
  have dis: "?b \<notin> owned n s \<union> bitmaps s" using F L b(3) by (auto simp: file_ok_def layout_ok_def)
  have c: "blk t c = blk s c" if "c \<in> owned n s \<union> bitmaps s" for c using that dis by (auto simp: B(2))
  note C = disk_change [OF L F _ B(1) c]
  show "layout_ok ino t" "file_ok ino n t" "same_geo s t" "\<And>p. p < max_blocks s * block_size s \<Longrightarrow> file_byte t n p = file_byte s n p"
    using C put_disk t by blast+
  show "blk t c = blk s c" if "c \<in> owned n s" for c by (rule c) (simp add: that)
  show "slice ?o 128 (blk t ?b) = enc_inode n"
    using take_drop_blit [of ?o "enc_inode n" "blk s ?b"] e b(2) length_blk [OF d] by (simp add: B(2) slice_def)
qed

lemma length_enc_superblock: "sb_wf s \<Longrightarrow> length (enc_superblock (e2_sb s)) = 204"
  by (simp add: enc_superblock_def sb_wf_def)

text \<open>The two sectors of the superblock lie in one block.\<close>

lemma write_superblock:
  assumes d: "disk_ok s" and len: "length x = 1024"
  defines "t \<equiv> s\<lparr>e2_disk := snd (ata_write_sectors 2 2 x (e2_disk s))\<rparr>"
  shows "disk_ok t" "\<And>c. c \<noteq> sb_blk s \<Longrightarrow> blk t c = blk s c"
proof -
  have "lba28 2 = 2" "sector_count 2 = 2" by (simp_all add: lba28_def sector_count_def)
  then have t: "t = s\<lparr>e2_disk := disk_writes (sector_writes 2 2 x) (e2_disk s)\<rparr>"
    using d by (simp add: t_def ata_write_sectors_eq disk_ok_def)
  have l: "length x = 512 * 2" using len by simp
  note W = sectors_written [OF d l t]
  show "disk_ok t" by (rule W(1))
  have sp: "spb t = spb s" by (simp add: t spb_def)
  fix c assume c: "c \<noteq> sb_blk s"
  have bs: "block_size s \<in> {1024, 2048, 4096}" using d by (simp add: disk_ok_def)
  have "unat c \<noteq> unat (sb_blk s)" using c unsigned_word_eqI by blast
  then have dis: "unat c * spb s + spb s \<le> 2 \<or> 4 \<le> unat c * spb s" using bs by (auto simp: sb_blk_def spb_def)
  have "map (sectors (e2_disk t)) [unat c * spb s..<unat c * spb s + spb s] = map (sectors (e2_disk s)) [unat c * spb s..<unat c * spb s + spb s]"
    by (rule map_cong [OF refl]) (use dis in \<open>auto intro!: W(3)\<close>)
  then show "blk t c = blk s c" unfolding blk_def sp by (rule arg_cong)
qed

lemma flush_spec:
  assumes L: "layout_ok ino s" and F: "file_ok ino n s"
  defines "t \<equiv> ext2_flush_metadata s"
  shows "layout_ok ino t" "file_ok ino n t" "same_geo s t"
    "\<And>p. p < max_blocks s * block_size s \<Longrightarrow> file_byte t n p = file_byte s n p"
    "blk t (fst (inode_loc ino s)) = blk s (fst (inode_loc ino s))"
    "\<And>c. c \<in> owned n s \<Longrightarrow> blk t c = blk s c"
proof -
  have d: "disk_ok s" and sw: "sb_wf s" using L by (simp_all add: layout_ok_def e2_inv_def)
  define x where "x = enc_superblock (e2_sb s) @ replicate (1024 - 204) 0"
  define s1 where "s1 = s\<lparr>e2_disk := snd (ata_write_sectors 2 2 x (e2_disk s))\<rparr>"
  have xl: "length x = 1024" by (simp add: x_def length_enc_superblock [OF sw])
  note S = write_superblock [OF d xl, folded s1_def]
  have me: "sb_blk s \<notin> owned n s \<union> bitmaps s" "bgdt_blk s \<notin> owned n s \<union> bitmaps s" "fst (inode_loc ino s) \<notin> {bgdt_blk s, sb_blk s}"
    using L F by (auto simp: layout_ok_def file_ok_def meta_def)
  have c1: "blk s1 c = blk s c" if "c \<in> owned n s \<union> bitmaps s" for c by (rule S(2)) (use that me in auto)
  note C = disk_change [OF L F s1_def S(1) c1]
  have L1: "layout_ok ino s1" and F1: "file_ok ino n s1" and g1: "same_geo s s1" using C(1-3) by blast+
  note V = same_geo_views [OF g1]
  have d1: "disk_ok s1" by (rule S(1))
  have bo: "blk_ok s1 (bgdt_blk s)" using disk_ok_spb [OF d1] by (auto simp: blk_ok_def bgdt_blk_def)
  have rd: "read_blk (bgdt_blk s) s1 = Some (blk s1 (bgdt_blk s))" by (rule read_blk_ok [OF d1 bo])
  define y where "y = blit (blk s1 (bgdt_blk s)) 0 (take (min ((num_block_groups s * 32) mod 2 ^ 32) (block_size s)) (concat (map enc_bgd (bgdt s))))"
  have yl: "length y = block_size s1"
    unfolding y_def using length_blk [OF d1] V(7) by (subst length_blit) simp_all
  have t: "t = put_blk (bgdt_blk s) y s1"
    using rd unfolding t_def ext2_flush_metadata_def Let_def x_def [symmetric] s1_def [symmetric] bgdt_blk_def [symmetric]
    by (simp add: put_blk_def y_def)
  note B = put_blk_ok [OF d1 bo yl, folded t]
  have o1: "owned n s1 = owned n s" "bitmaps s1 = bitmaps s"
    using owned_frame(2) [OF d F d1 g1 c1] same_geo_meta(3) [OF g1 L] by blast+
  have c2: "blk t c = blk s1 c" if "c \<in> owned n s1 \<union> bitmaps s1" for c using that me by (auto simp: B(2) o1)
  note D = disk_change [OF L1 F1 _ B(1) c2]
  have pd: "t = s1\<lparr>e2_disk := e2_disk t\<rparr>" using put_disk t by blast
  have m1: "max_blocks s1 = max_blocks s" "block_size s1 = block_size s" using V(7) by (simp_all add: max_blocks_def ptrs_def)
  show "layout_ok ino t" "file_ok ino n t" using D(1,2) [OF pd] by blast+
  show "same_geo s t" using same_geo_trans [OF g1] D(3) [OF pd] by blast
  show "file_byte t n p = file_byte s n p" if "p < max_blocks s * block_size s" for p
    using D(4) [OF pd, of p] C(4) [of p] that m1 by simp
  show "blk t (fst (inode_loc ino s)) = blk s (fst (inode_loc ino s))" using me S(2) by (auto simp: B(2))
  show "blk t c = blk s c" if "c \<in> owned n s" for c using c1 [of c] c2 [of c] that by (simp add: o1)
qed

text \<open>Writing the inode and flushing, the end of every operation on a file.\<close>

lemma persist_spec:
  assumes L: "layout_ok ino s" and F: "file_ok ino n s"
  defines "t \<equiv> ext2_flush_metadata (snd (ext2_write_inode ino n s))"
  shows "layout_ok ino t" "file_ok ino n t" "same_geo s t" "ext2_read_inode ino t = Some n"
    "\<And>p. p < max_blocks s * block_size s \<Longrightarrow> file_byte t n p = file_byte s n p"
    "\<And>k. k < max_blocks s \<Longrightarrow> ext2_get_block n k t = ext2_get_block n k s"
proof -
  let ?u = "snd (ext2_write_inode ino n s)"
  note I = write_inode_spec [OF L F]
  note E = flush_spec [OF I(1,2), folded t_def]
  have m: "max_blocks ?u = max_blocks s" "block_size ?u = block_size s"
    using same_geo_views(7) [OF I(3)] by (simp_all add: max_blocks_def ptrs_def)
  show "layout_ok ino t" "file_ok ino n t" by (rule E(1,2))+
  show g: "same_geo s t" by (rule same_geo_trans [OF I(3) E(3)])
  show "file_byte t n p = file_byte s n p" if "p < max_blocks s * block_size s" for p
    using that E(4) [of p] I(4) [of p] by (simp add: m)
  have dt: "disk_ok t" "blk_ok t (fst (inode_loc ino t))" "ext2_mounted t" "ino \<noteq> 0" using E(1) by (simp_all add: layout_ok_def e2_inv_def)
  have ds: "disk_ok s" "disk_ok ?u" using L I(1) by (simp_all add: layout_ok_def e2_inv_def)
  have "owned n ?u = owned n s" by (rule owned_frame(2) [OF ds(1) F ds(2) I(3,6)])
  then have c: "blk t c = blk s c" if "c \<in> owned n s" for c using that I(6) E(6) by simp
  show "ext2_get_block n k t = ext2_get_block n k s" if "k < max_blocks s" for k
    by (rule owned_frame(1) [OF ds(1) F dt(1) g c that])
  have il: "inode_loc ino t = inode_loc ino s" "inode_loc ino ?u = inode_loc ino s"
    using same_geo_meta(1) [OF g L] same_geo_meta(1) [OF I(3) L] by simp_all
  have "dec_inode (enc_inode n) = n" by (rule dec_enc_inode) (use F in \<open>simp add: file_ok_def\<close>)
  then show "ext2_read_inode ino t = Some n"
    using dt read_blk_ok [OF dt(1,2)] E(5) I(5) by (simp add: ext2_read_inode_def case_prod_beta il)
qed

lemma set_block_frame:
  "ext2_set_block n k b s = (e, n', t) \<Longrightarrow> i_mode n' = i_mode n \<and> i_osd2 n' = i_osd2 n"
  by (auto simp: ext2_set_block_def Let_def split: if_splits option.splits prod.splits)

section \<open>Writing and reading back\<close>

lemma write_file_spec:
  assumes L: "layout_ok ino s" and F: "file_ok ino n s" and lim: "off + length buf \<le> max_blocks s * block_size s"
    and rm: "room n s (blocks_left (block_size s) off (off + length buf))"
  obtains n' t where "ext2_write_file ino n off buf s = (int (length buf), n', t)" "layout_ok ino t" "file_ok ino n' t"
    "same_geo s t" "ext2_read_inode ino t = Some n'" "unat (i_size n') = max (unat (i_size n)) (off + length buf)"
    "\<And>p. p < max_blocks s * block_size s \<Longrightarrow>
       file_byte t n' p = (if off \<le> p \<and> p < off + length buf then buf ! (p - off) else file_byte s n p)"
proof -
  have d: "disk_ok s" using L by (simp add: layout_ok_def e2_inv_def)
  have mx: "max_blocks s * block_size s < 2 ^ 31" using disk_ok_ptrs [OF d] by (auto simp: max_blocks_def)
  obtain n1 s1 where W: "write_loop n off buf 0 s = (None, n1, s1)" "layout_ok ino s1" "file_ok ino n1 s1" "same_geo s s1"
    "i_size n1 = i_size n"
    "\<And>p. p < max_blocks s * block_size s \<Longrightarrow> file_byte s1 n1 p = (if off \<le> p \<and> p < off + length buf then buf ! (p - off) else file_byte s n p)"
    using write_loop_spec [OF F L lim, of 0] rm by auto
  define n2 where "n2 = (if off + length buf > unat (i_size n1) then n1\<lparr>i_size := of_nat (off + length buf)\<rparr> else n1)"
  have gi: "ext2_get_block n2 l u = ext2_get_block n1 l u" for l u by (simp add: n2_def ext2_get_block_def Let_def)
  have wf: "inode_wf n2" "i_block n2 ! 12 = i_block n1 ! 12" using W(3) by (simp_all add: n2_def file_ok_def inode_wf_def)
  have F2: "file_ok ino n2 s1" by (rule file_ok_cong(1) [OF W(3,2) same_geo_refl subset_refl wf gi])
  note E = persist_spec [OF W(2) F2]
  let ?t = "ext2_flush_metadata (snd (ext2_write_inode ino n2 s1))"
  have m: "max_blocks s1 = max_blocks s" "block_size s1 = block_size s"
    using same_geo_views(7) [OF W(4)] by (simp_all add: max_blocks_def ptrs_def)
  have "off + length buf < 2 ^ 32" using lim mx by simp
  then have "unat (of_nat (off + length buf) :: u32) = off + length buf"
    by (simp add: unat_of_nat take_bit_nat_eq_self del: of_nat_add)
  then have sz: "unat (i_size n2) = max (unat (i_size n)) (off + length buf)" by (simp add: n2_def W(5) max_def)
  have len: "length buf < 2 ^ 31" using lim mx by linarith
  have e: "ext2_write_file ino n off buf s = (int (length buf), n2, ?t)"
    using L W(1) len by (simp add: ext2_write_file_def layout_ok_def Let_def n2_def int32_small)
  have "file_byte ?t n2 p = (if off \<le> p \<and> p < off + length buf then buf ! (p - off) else file_byte s n p)"
    if p: "p < max_blocks s * block_size s" for p
    using E(5) [of p] W(6) [OF p] p by (simp add: m file_byte_def gi)
  then show ?thesis by (rule_tac that [OF e E(1,2) same_geo_trans [OF W(4) E(3)] E(4) sz])
qed

section \<open>A small file system\<close>

text \<open>One group of 32 blocks of 1024 bytes: superblock 1, descriptors 2, bitmap 3, inode table from 5; blocks 11 to 32 are free.\<close>

definition small_fs :: ext2 where
  "small_fs =
     \<lparr>e2_disk = \<lparr>primary_present = True, sector_ok = (\<lambda>_. True),
        sectors = (\<lambda>a. if a = 6 then [255, 3] @ replicate 510 0 else replicate 512 0), power = None\<rparr>,
      ext2_mounted = True,
      e2_sb = (dec_superblock (replicate 1024 0))
        \<lparr>s_first_data_block := 1, s_blocks_per_group := 32, s_inodes_per_group := 16, s_free_blocks_count := 22\<rparr>,
      bgdt = [\<lparr>bg_block_bitmap = 3, bg_inode_bitmap = 4, bg_inode_table = 5, bg_free_blocks_count = 22,
               bg_free_inodes_count = 5, bg_used_dirs_count = 1, bg_pad = 0, bg_reserved = replicate 12 0\<rparr>],
      block_size = 1024, num_block_groups = 1, inode_size = 128\<rparr>"

lemma small_fs_disk: "disk_ok small_fs"
  by (simp add: small_fs_def disk_ok_def intact_def)

lemma small_fs_sel [simp]:
  "block_size small_fs = 1024" "num_block_groups small_fs = 1" "spb small_fs = 2" "ext2_mounted small_fs" "bpg small_fs = 32"
  "fdb small_fs = 1" "bmap small_fs 0 = 3" "max_blocks small_fs = 268" "inode_loc 2 small_fs = (5, 128)"
  by (simp_all add: small_fs_def spb_def bpg_def fdb_def bmap_def max_blocks_def ptrs_def inode_loc_def)

lemma small_fs_bitmap: "blk small_fs 3 = [255, 3] @ replicate 1022 0"
proof -
  have "[6..<8] = [6, 7 :: nat]" by (simp add: upt_rec)
  then show ?thesis by (simp add: blk_def) (simp add: small_fs_def replicate_add [symmetric])
qed

lemma small_fs_free: "free_bits small_fs = {0} \<times> {10..<32}"
proof -
  have "\<not> bitmap_test (blk small_fs 3) i \<longleftrightarrow> 10 \<le> i" if "i < 32" for i
  proof -
    have "list_all (\<lambda>i. (\<not> bitmap_test ([255, 3] @ replicate 1022 0) i) = (10 \<le> i)) [0..<32]" by code_simp
    then show ?thesis using that by (simp add: list_all_iff small_fs_bitmap)
  qed
  then show ?thesis by (force simp: free_bits_def)
qed

lemma small_fs_inv: "e2_inv small_fs" "free_set small_fs = of_nat ` {11..<33}" "card (free_set small_fs) = 22"
proof -
  have "group_free small_fs 0 = {10..<32}" by (auto simp: group_free_def small_fs_free)
  then have c: "card (group_free small_fs 0) = 22" by simp
  have b1: "length (bgdt small_fs) = 1" "bg_free_blocks_count (bgdt small_fs ! 0) = 22" "inj_on (bmap small_fs) {..<Suc 0}"
    by (simp_all add: small_fs_def inj_on_def)
  have "geo small_fs"
    unfolding geo_def using c b1 by (simp add: small_fs_free blk_ok_def)
  then show inv: "e2_inv small_fs" by (simp add: e2_inv_def small_fs_disk)
  have b: "block_no small_fs (0, i) = of_nat (Suc i)" for i by (simp add: block_no_def small_fs_def)
  have "free_set small_fs = (\<lambda>i. of_nat (Suc i)) ` {10..<32}" by (force simp: free_set_def small_fs_free b image_iff)
  also have "\<dots> = of_nat ` Suc ` {10..<32}" by (simp only: image_image)
  finally show f: "free_set small_fs = of_nat ` {11..<33}" by (simp add: image_Suc_atLeastLessThan)
  have "inj_on (of_nat :: nat \<Rightarrow> u32) {11..<33}"
    by (rule inj_onI) (simp add: word_of_nat_eq_iff take_bit_nat_eq_self)
  then show "card (free_set small_fs) = 22" by (simp add: f card_image)
qed

lemma small_fs_layout: "layout_ok 2 small_fs"
proof -
  have z: "(of_nat i :: u32) \<noteq> of_nat j" if "i \<in> {11..<33}" "j < 11" for i j
    using that by (simp add: word_of_nat_eq_iff take_bit_nat_eq_self)
  have f: "b \<notin> {1, 2, 3, 5}" "unat b < 33" if "b \<in> free_set small_fs" for b
  proof -
    obtain i where i: "b = of_nat i" "i \<in> {11..<33}" using \<open>b \<in> free_set small_fs\<close> by (auto simp: small_fs_inv(2))
    then show "unat b < 33" by (simp add: unat_of_nat take_bit_nat_eq_self)
    show "b \<notin> {1, 2, 3, 5}" using z [OF i(2), of 1] z [OF i(2), of 2] z [OF i(2), of 3] z [OF i(2), of 5] by (simp add: i(1))
  qed
  have w: "sb_wf small_fs" by (simp add: sb_wf_def small_fs_def dec_superblock_def slice_def)
  have p: "(2 - 1) div s_inodes_per_group (e2_sb small_fs) = 0" by (simp add: small_fs_def)
  have bm: "bitmaps small_fs = {3}" "bgdt_blk small_fs = 2" "sb_blk small_fs = 1"
    by (auto simp: bitmaps_def bgdt_blk_def sb_blk_def)
  have "\<forall>b\<in>free_set small_fs. blk_ok small_fs b" using f(2) by (fastforce simp: blk_ok_def)
  then show ?thesis using w p f(1) by (auto simp: layout_ok_def small_fs_inv(1) bm meta_def blk_ok_def)
qed

lemma small_fs_file: "file_ok 2 inode_zero small_fs"
proof -
  have "ext2_get_block inode_zero k small_fs = 0" if "k < 268" for k
    using get_block_eq [OF small_fs_disk, of k inode_zero] that by (simp add: inode_zero_def)
  moreover have "owned inode_zero small_fs = {}" using calculation by (auto simp: owned_def inode_zero_def)
  ultimately show ?thesis by (simp add: file_ok_def inode_wf_def inode_zero_def)
qed

text \<open>
  C6 Writing to a file and reading it back: on a sound file system with a block free for every block
  written and for the indirect block, a write within the reach of the direct and singly indirect blocks
  succeeds with its full length, the inode on the disk is the updated one, reading through it returns the
  bytes written, every other byte of the file is unchanged, and the file system stays sound.
\<close>

theorem ext2_write_then_read:
  assumes "layout_ok ino s" "file_ok ino inode s" "0 < length buf" "offset + length buf \<le> max_blocks s * block_size s"
    and "room inode s (blocks_left (block_size s) offset (offset + length buf))"
  shows "\<exists>inode' t. ext2_write_file ino inode offset buf s = (int (length buf), inode', t) \<and>
     ext2_read_inode ino t = Some inode' \<and> ext2_read_file inode' offset (length buf) t = (int (length buf), buf) \<and>
     (\<forall>p < max_blocks s * block_size s. \<not> (offset \<le> p \<and> p < offset + length buf) \<longrightarrow> file_byte t inode' p = file_byte s inode p) \<and>
     layout_ok ino t \<and> file_ok ino inode' t"
proof -
  obtain n' t where W: "ext2_write_file ino inode offset buf s = (int (length buf), n', t)" "layout_ok ino t" "file_ok ino n' t"
    "same_geo s t" "ext2_read_inode ino t = Some n'" "unat (i_size n') = max (unat (i_size inode)) (offset + length buf)"
    "\<And>p. p < max_blocks s * block_size s \<Longrightarrow>
       file_byte t n' p = (if offset \<le> p \<and> p < offset + length buf then buf ! (p - offset) else file_byte s inode p)"
    by (rule write_file_spec [OF assms(1,2,4,5)]) (rule that)
  have d: "disk_ok s" "disk_ok t" using assms(1) W(2) by (simp_all add: layout_ok_def e2_inv_def)
  have m: "max_blocks t * block_size t = max_blocks s * block_size s"
    using same_geo_views(7) [OF W(4)] by (simp add: max_blocks_def ptrs_def)
  have "max_blocks s * block_size s < 2 ^ 31" using disk_ok_ptrs [OF d(1)] by (auto simp: max_blocks_def)
  then have len: "length buf < 2 ^ 31" using assms(4) by linarith
  have "map (file_byte t n') [offset..<offset + length buf] = buf"
    by (rule nth_equalityI) (use assms(4) W(7) in auto)
  then have "ext2_read_file n' offset (length buf) t = (int (length buf), buf)"
    using read_file_spec [OF d(2) W(3), of offset "length buf"] assms(3,4) m W(6) len by (simp add: int32_small)
  then show ?thesis using W by auto
qed

theorem ext2_write_then_read_witness:
  "\<exists>inode' t. ext2_write_file 2 inode_zero 12000 (replicate 1500 7) small_fs = (1500, inode', t) \<and>
     ext2_read_inode 2 t = Some inode' \<and> ext2_read_file inode' 12000 1500 t = (1500, replicate 1500 7)"
proof -
  have r: "room inode_zero small_fs (blocks_left 1024 12000 13500)"
    by (simp add: room_def blocks_left_def small_fs_inv(3))
  have e: "int (length (replicate 1500 (7::u8))) = 1500" by (simp only: length_replicate of_nat_numeral)
  show ?thesis
    using ext2_write_then_read [OF small_fs_layout small_fs_file, of "replicate 1500 7" 12000] r
    unfolding e by (simp only: length_replicate small_fs_sel) auto
qed

end
