(* ===== verification/Ext2Dir.thy ===== *)
theory Ext2Dir
  imports Ext2Store
begin

text \<open>
  Directories: the blocks of a sound directory are lists of entries that fill them, and a directory is
  a finite map from names to inode numbers. Lookup, insertion and removal of the code implement lookup,
  update and deletion of the map.
\<close>

section \<open>Directory blocks as lists of entries\<close>

record dent =
  d_ino :: u32
  d_type :: u8
  d_name :: "u8 list"
  d_pad :: "u8 list"

definition ent_len :: "dent \<Rightarrow> nat" where
  "ent_len e = 8 + length (d_name e) + length (d_pad e)"

definition ent_bytes :: "dent \<Rightarrow> u8 list" where
  "ent_bytes e = enc32 (d_ino e) @ enc16 (of_nat (ent_len e)) @ [of_nat (length (d_name e)), d_type e] @ d_name e @ d_pad e"

definition ent_ok :: "dent \<Rightarrow> bool" where
  "ent_ok e \<longleftrightarrow> length (d_name e) \<le> 255 \<and> round4 (8 + length (d_name e)) \<le> ent_len e"

definition name_ok :: "u8 list \<Rightarrow> bool" where
  "name_ok name \<longleftrightarrow> length name \<le> 255 \<and> 0 \<notin> set name"

definition block_of :: "dent list \<Rightarrow> u8 list" where
  "block_of es = concat (map ent_bytes es)"

definition named :: "u8 list \<Rightarrow> dent \<Rightarrow> bool" where
  "named name e \<longleftrightarrow> d_ino e \<noteq> 0 \<and> d_name e = name"

lemma length_ent_bytes [simp]: "length (ent_bytes e) = ent_len e"
  by (simp add: ent_bytes_def ent_len_def)

lemma ent_len_ge: "8 \<le> ent_len e"
  by (simp add: ent_len_def)

lemma block_of_simps [simp]: "block_of [] = []" "block_of (e # es) = ent_bytes e @ block_of es" "block_of (xs @ ys) = block_of xs @ block_of ys"
  by (simp_all add: block_of_def)

lemma round4_ge: "n \<le> round4 n" "round4 n \<le> n + 3"
  by (simp_all add: round4_def)

lemma dec_entry:
  assumes "length A = off"
  shows "dec_dir_entry (A @ ent_bytes e @ B) off =
    \<lparr>de_inode = d_ino e, de_rec_len = of_nat (ent_len e), de_name_len = of_nat (length (d_name e)), de_file_type = d_type e\<rparr>"
proof -
  have "le32 (at (A @ ent_bytes e @ B)) off = d_ino e" using assms by (simp add: ent_bytes_def le32_at_skip)
  moreover have "le16 (at (A @ ent_bytes e @ B)) (off + 4) = of_nat (ent_len e)"
    using assms by (simp add: ent_bytes_def le16_at_skip del: of_nat_add)
  moreover have "at (A @ ent_bytes e @ B) (off + 6) = of_nat (length (d_name e))" "at (A @ ent_bytes e @ B) (off + 7) = d_type e"
    using assms by (simp_all add: ent_bytes_def at_def nth_append)
  ultimately show ?thesis by (simp add: dec_dir_entry_def)
qed

lemma entry_matches_named:
  assumes "length A = off" "ent_ok e" "name_ok name"
  shows "entry_matches name (A @ ent_bytes e @ B) off = named name e"
proof -
  let ?b = "A @ ent_bytes e @ B"
  have l: "unat (of_nat (length (d_name e)) :: u8) = length (d_name e)"
    using assms(2) by (simp add: ent_ok_def unat_of_nat take_bit_nat_eq_self)
  have nz: "\<forall>j < length name. at0 name (0 + j) \<noteq> 0" using assms(3) by (auto simp: at0_def name_ok_def in_set_conv_nth)
  have n: "at ?b (off + 8 + j) = d_name e ! j" if "j < length (d_name e)" for j
    using that assms(1) by (simp add: at_def ent_bytes_def nth_append)
  have "strncmp (\<lambda>i. at ?b (off + 8 + i)) (at0 name) (length name) = 0 \<longleftrightarrow> d_name e = name" if ll: "length (d_name e) = length name"
    unfolding strncmp_def strncmp_loop_0_iff [OF nz] using n ll by (auto simp: at0_def list_eq_iff_nth_eq)
  then show ?thesis
    unfolding entry_matches_def dec_entry [OF assms(1)] Let_def by (auto simp: l named_def)
qed

text \<open>A sound list of entries fills a block.\<close>

definition ents_ok :: "nat \<Rightarrow> dent list \<Rightarrow> bool" where
  "ents_ok bs es \<longleftrightarrow> (\<forall>e\<in>set es. ent_ok e) \<and> length (block_of es) = bs \<and> bs \<le> 4096"

lemma unat_ent_len: "ent_len e \<le> 4096 \<Longrightarrow> unat (of_nat (ent_len e) :: u16) = ent_len e"
  by (simp add: unat_of_nat take_bit_nat_eq_self)

lemma ents_ok_split:
  assumes "ents_ok bs (pre @ e # post)"
  shows "ent_ok e" "length (block_of pre) + ent_len e + length (block_of post) = bs" "ent_len e \<le> 4096" "bs \<le> 4096"
    "unat (of_nat (ent_len e) :: u16) = ent_len e" "length (block_of pre) < bs"
  using assms ent_len_ge [of e] by (auto simp: ents_ok_def intro!: unat_ent_len)

section \<open>The scans of a block\<close>

lemma lookup_scan_spec:
  assumes "ents_ok bs (pre @ es)" "name_ok name" "off = base + length (block_of pre)" "base + bs \<le> dsz" "dsz < 2 ^ 32"
  shows "\<exists>o'. lookup_scan name (block_of (pre @ es)) bs dsz off (length (block_of pre)) =
     (case find (named name) es of None \<Rightarrow> (None, base + bs) | Some e \<Rightarrow> (Some (d_ino e), o'))"
  using assms
proof (induction es arbitrary: pre off)
  case Nil
  then show ?case by (simp add: lookup_scan.simps ents_ok_def)
next
  case (Cons e es)
  note S = ents_ok_split [OF Cons.prems(1)]
  have b: "block_of (pre @ e # es) = block_of pre @ ent_bytes e @ block_of es" by simp
  have nz: "ent_len e \<noteq> 0" using ent_len_ge [of e] by simp
  have o: "off < dsz" "off + ent_len e < 4294967296" using Cons.prems(3-5) S(2,6) by auto
  have IH: "\<exists>o'. lookup_scan name (block_of ((pre @ [e]) @ es)) bs dsz (off + ent_len e) (length (block_of (pre @ [e]))) =
     (case find (named name) es of None \<Rightarrow> (None, base + bs) | Some e' \<Rightarrow> (Some (d_ino e'), o'))"
    by (rule Cons.IH) (use Cons.prems in simp_all)
  have st: "lookup_scan name (block_of (pre @ e # es)) bs dsz off (length (block_of pre)) =
      (if named name e then (Some (d_ino e), off)
       else lookup_scan name (block_of ((pre @ [e]) @ es)) bs dsz (off + ent_len e) (length (block_of (pre @ [e]))))"
    unfolding b using S(5,6) nz o entry_matches_named [OF refl S(1) Cons.prems(2), of "block_of pre" "block_of es"]
    by (subst lookup_scan.simps) (simp add: dec_entry Let_def)
  show ?case unfolding st using IH by (cases "named name e") simp_all
qed

text \<open>Room behind an entry, and what the insertion makes of it.\<close>

definition has_room :: "u8 list \<Rightarrow> dent \<Rightarrow> bool" where
  "has_room name e \<longleftrightarrow> round4 (8 + length (d_name e)) + round4 (8 + length name) \<le> ent_len e"

definition shrunk :: "dent \<Rightarrow> dent" where
  "shrunk e = e\<lparr>d_pad := take (round4 (8 + length (d_name e)) - (8 + length (d_name e))) (d_pad e)\<rparr>"

definition inserted :: "u32 \<Rightarrow> u8 list \<Rightarrow> u8 \<Rightarrow> dent \<Rightarrow> dent" where
  "inserted ino name ft e =
     \<lparr>d_ino = ino, d_type = ft, d_name = name,
      d_pad = drop (8 + length name) (drop (round4 (8 + length (d_name e)) - (8 + length (d_name e))) (d_pad e))\<rparr>"

lemma split_entry:
  assumes "ent_ok e" "has_room name e" "ent_len e \<le> 4096" "length name \<le> 255"
  shows "ent_len (shrunk e) = round4 (8 + length (d_name e))" "ent_len (inserted ino name ft e) = ent_len e - round4 (8 + length (d_name e))"
    "ent_ok (shrunk e)" "ent_ok (inserted ino name ft e)"
    "blit (blit (A @ ent_bytes e @ B) (length A + 4) (enc16 (of_nat (round4 (8 + length (d_name e))))))
       (length A + round4 (8 + length (d_name e))) (new_entry ino (of_nat (ent_len e) - of_nat (round4 (8 + length (d_name e)))) name ft)
     = A @ ent_bytes (shrunk e) @ ent_bytes (inserted ino name ft e) @ B"
proof -
  let ?a = "round4 (8 + length (d_name e))"
  have a: "8 + length (d_name e) \<le> ?a" "?a + round4 (8 + length name) \<le> ent_len e" "8 + length name \<le> round4 (8 + length name)"
    using assms(2) round4_ge by (simp_all add: has_room_def)
  show l1: "ent_len (shrunk e) = ?a" using a by (simp add: ent_len_def shrunk_def)
  show l2: "ent_len (inserted ino name ft e) = ent_len e - ?a" using a by (simp add: ent_len_def inserted_def)
  show "ent_ok (shrunk e)" using assms(1) l1 by (simp add: ent_ok_def shrunk_def)
  show "ent_ok (inserted ino name ft e)" using assms(4) a l2 by (simp add: ent_ok_def) (simp add: inserted_def)
  have w: "(of_nat (ent_len e) :: u16) - of_nat ?a = of_nat (ent_len e - ?a)" using a by (simp add: of_nat_diff)
  define k where "k = ?a - (8 + length (d_name e))"
  have k: "?a = 8 + length (d_name e) + k" "k + (8 + length name) \<le> length (d_pad e)" using a by (simp_all add: k_def ent_len_def)
  show "blit (blit (A @ ent_bytes e @ B) (length A + 4) (enc16 (of_nat ?a))) (length A + ?a) (new_entry ino (of_nat (ent_len e) - of_nat ?a) name ft)
     = A @ ent_bytes (shrunk e) @ ent_bytes (inserted ino name ft e) @ B"
    unfolding w ent_bytes_def [of "shrunk e"] ent_bytes_def [of "inserted ino name ft e"] l1 l2
    using k by (simp add: blit_def new_entry_def ent_bytes_def shrunk_def inserted_def k_def [symmetric] ac_simps drop_Cons')
qed

lemma add_scan_spec:
  assumes "ents_ok bs (pre @ es)" "name_ok name" "off = base + length (block_of pre)" "base + bs \<le> dsz" "dsz < 2 ^ 32"
  shows "((\<forall>e\<in>set es. \<not> has_room name e) \<and>
        add_scan ino name ft (block_of (pre @ es)) bs dsz off (length (block_of pre)) = Inr (base + bs)) \<or>
     (\<exists>xs e ys. es = xs @ e # ys \<and> has_room name e \<and>
        add_scan ino name ft (block_of (pre @ es)) bs dsz off (length (block_of pre)) =
          Inl (block_of (pre @ xs @ shrunk e # inserted ino name ft e # ys)))"
  using assms
proof (induction es arbitrary: pre off)
  case Nil
  then show ?case by (simp add: add_scan.simps ents_ok_def)
next
  case (Cons e es)
  note S = ents_ok_split [OF Cons.prems(1)]
  let ?a = "round4 (8 + length (d_name e))"
  have b: "block_of (pre @ e # es) = block_of pre @ ent_bytes e @ block_of es" by simp
  have nz: "ent_len e \<noteq> 0" using ent_len_ge [of e] by simp
  have o: "off < dsz" "off + ent_len e < 4294967296" using Cons.prems(3-5) S(2,6) by auto
  have l: "unat (of_nat (length (d_name e)) :: u8) = length (d_name e)"
    using S(1) by (simp add: ent_ok_def unat_of_nat take_bit_nat_eq_self)
  have f: "sub32 (ent_len e) ?a = ent_len e - ?a" by (rule sub32_eq) (use S(1,3) in \<open>simp_all add: ent_ok_def\<close>)
  have r: "round4 (8 + length name) \<le> ent_len e - ?a \<longleftrightarrow> has_room name e" using S(1) by (auto simp: has_room_def ent_ok_def)
  note U = add_scan.simps [of ino name ft "block_of pre @ ent_bytes e @ block_of es" bs dsz off "length (block_of pre)"]
  show ?case
  proof (cases "has_room name e")
    case True
    have nl: "length name \<le> 255" using Cons.prems(2) by (simp add: name_ok_def)
    have "add_scan ino name ft (block_of (pre @ e # es)) bs dsz off (length (block_of pre)) =
        Inl (block_of (pre @ [] @ shrunk e # inserted ino name ft e # es))"
      unfolding b U using S(5,6) nz o True r f l split_entry(5) [OF S(1) True S(3) nl, of "block_of pre" "block_of es" ino ft]
      by (simp add: dec_entry Let_def)
    then show ?thesis using True by blast
  next
    case False
    have st: "add_scan ino name ft (block_of (pre @ e # es)) bs dsz off (length (block_of pre)) =
        add_scan ino name ft (block_of ((pre @ [e]) @ es)) bs dsz (off + ent_len e) (length (block_of (pre @ [e])))"
      unfolding b U using S(5,6) nz o False r f l by (simp add: dec_entry Let_def)
    have IH: "((\<forall>e\<in>set es. \<not> has_room name e) \<and>
          add_scan ino name ft (block_of ((pre @ [e]) @ es)) bs dsz (off + ent_len e) (length (block_of (pre @ [e]))) = Inr (base + bs)) \<or>
       (\<exists>xs x ys. es = xs @ x # ys \<and> has_room name x \<and>
          add_scan ino name ft (block_of ((pre @ [e]) @ es)) bs dsz (off + ent_len e) (length (block_of (pre @ [e]))) =
            Inl (block_of ((pre @ [e]) @ xs @ shrunk x # inserted ino name ft x # ys)))"
      by (rule Cons.IH) (use Cons.prems in simp_all)
    then show ?thesis
    proof (elim disjE exE conjE)
      assume "\<forall>e\<in>set es. \<not> has_room name e"
        "add_scan ino name ft (block_of ((pre @ [e]) @ es)) bs dsz (off + ent_len e) (length (block_of (pre @ [e]))) = Inr (base + bs)"
      then show ?thesis unfolding st using False by (intro disjI1) simp
    next
      fix xs x ys assume x: "es = xs @ x # ys" "has_room name x"
        "add_scan ino name ft (block_of ((pre @ [e]) @ es)) bs dsz (off + ent_len e) (length (block_of (pre @ [e]))) =
            Inl (block_of ((pre @ [e]) @ xs @ shrunk x # inserted ino name ft x # ys))"
      show ?thesis unfolding st x(3) using x(1,2) by (intro disjI2 exI [of _ "e # xs"] exI [of _ x] exI [of _ ys]) simp
    qed
  qed
qed

text \<open>Removal: the entry before takes over the space, or the first entry loses its inode.\<close>

definition absorb :: "dent list \<Rightarrow> dent \<Rightarrow> dent list" where
  "absorb zs e = (if zs = [] then [e\<lparr>d_ino := 0\<rparr>] else butlast zs @ [(last zs)\<lparr>d_pad := d_pad (last zs) @ ent_bytes e\<rparr>])"

lemma block_of_absorb: "length (block_of (absorb zs e)) = length (block_of (zs @ [e]))"
proof (cases zs rule: rev_cases)
  case Nil
  then show ?thesis by (simp add: absorb_def) (simp add: ent_len_def)
next
  case (snoc ys y)
  have "ent_len (y\<lparr>d_pad := d_pad y @ ent_bytes e\<rparr>) = ent_len y + length (ent_bytes e)" by (simp add: ent_len_def)
  with snoc show ?thesis by (simp add: absorb_def)
qed

lemma absorb_bytes:
  assumes "ents_ok bs (zs @ e # ys)"
  shows "(case (if zs = [] then None else Some (length (block_of (butlast zs)))) of
      Some p \<Rightarrow> blit (block_of (zs @ e # ys)) (p + 4)
                  (enc16 (de_rec_len (dec_dir_entry (block_of (zs @ e # ys)) p) + of_nat (ent_len e)))
    | None \<Rightarrow> blit (block_of (zs @ e # ys)) (length (block_of zs)) (enc32 0)) = block_of (absorb zs e @ ys)"
proof (cases zs rule: rev_cases)
  case Nil
  then show ?thesis by (simp add: absorb_def blit_def ent_bytes_def ent_len_def)
next
  case (snoc xs y)
  have d: "dec_dir_entry (block_of xs @ ent_bytes y @ ent_bytes e @ block_of ys) (length (block_of xs)) =
    \<lparr>de_inode = d_ino y, de_rec_len = of_nat (ent_len y), de_name_len = of_nat (length (d_name y)), de_file_type = d_type y\<rparr>"
    by (rule dec_entry) simp
  let ?y = "y\<lparr>d_pad := d_pad y @ ent_bytes e\<rparr>"
  have l: "ent_len ?y = ent_len y + ent_len e" by (simp add: ent_len_def [of ?y] ent_len_def [of y])
  have "blit (block_of xs @ ent_bytes y @ ent_bytes e @ block_of ys) (length (block_of xs) + 4) (enc16 (of_nat (ent_len y) + of_nat (ent_len e)))
      = block_of xs @ ent_bytes ?y @ block_of ys"
    unfolding ent_bytes_def [of ?y] l by (simp add: blit_def ent_bytes_def [of y])
  then show ?thesis using snoc d by (simp add: absorb_def)
qed

lemma remove_scan_spec:
  assumes "ents_ok bs (pre @ es)" "name_ok name"
  shows "(find (named name) es = None \<and>
        remove_scan name (block_of (pre @ es)) bs (length (block_of pre)) (if pre = [] then None else Some (length (block_of (butlast pre)))) = None) \<or>
     (\<exists>xs e ys. es = xs @ e # ys \<and> named name e \<and> \<not> (\<exists>x\<in>set xs. named name x) \<and>
        remove_scan name (block_of (pre @ es)) bs (length (block_of pre)) (if pre = [] then None else Some (length (block_of (butlast pre)))) =
          Some (block_of (absorb (pre @ xs) e @ ys)))"
  using assms
proof (induction es arbitrary: pre)
  case Nil
  then show ?case by (simp add: remove_scan.simps ents_ok_def)
next
  case (Cons e es)
  note S = ents_ok_split [OF Cons.prems(1)]
  let ?p = "\<lambda>pre. if pre = [] then None else Some (length (block_of (butlast pre)))"
  have b: "block_of (pre @ e # es) = block_of pre @ ent_bytes e @ block_of es" by simp
  have nz: "ent_len e \<noteq> 0" using ent_len_ge [of e] by simp
  have m: "entry_matches name (block_of (pre @ e # es)) (length (block_of pre)) = named name e"
    unfolding b by (rule entry_matches_named [OF refl S(1) Cons.prems(2)])
  have d: "dec_dir_entry (block_of (pre @ e # es)) (length (block_of pre)) =
    \<lparr>de_inode = d_ino e, de_rec_len = of_nat (ent_len e), de_name_len = of_nat (length (d_name e)), de_file_type = d_type e\<rparr>"
    unfolding b by (rule dec_entry) simp
  note U = remove_scan.simps [of name "block_of (pre @ e # es)" bs "length (block_of pre)" "?p pre"]
  show ?case
  proof (cases "named name e")
    case True
    have "remove_scan name (block_of (pre @ e # es)) bs (length (block_of pre)) (?p pre) = Some (block_of (absorb (pre @ []) e @ es))"
      unfolding U d Let_def m using True S(5,6) nz absorb_bytes [OF Cons.prems(1)] by (cases "pre = []") simp_all
    with True show ?thesis by (intro disjI2 exI [of _ "[]"] exI [of _ e] exI [of _ es]) simp
  next
    case False
    have st: "remove_scan name (block_of (pre @ e # es)) bs (length (block_of pre)) (?p pre) =
        remove_scan name (block_of ((pre @ [e]) @ es)) bs (length (block_of (pre @ [e]))) (?p (pre @ [e]))"
      unfolding U d Let_def m using False S(5,6) nz by simp
    have "(find (named name) es = None \<and> remove_scan name (block_of ((pre @ [e]) @ es)) bs (length (block_of (pre @ [e]))) (?p (pre @ [e])) = None) \<or>
       (\<exists>xs x ys. es = xs @ x # ys \<and> named name x \<and> \<not> (\<exists>x\<in>set xs. named name x) \<and>
          remove_scan name (block_of ((pre @ [e]) @ es)) bs (length (block_of (pre @ [e]))) (?p (pre @ [e])) =
            Some (block_of (absorb ((pre @ [e]) @ xs) x @ ys)))"
      by (rule Cons.IH) (use Cons.prems in simp_all)
    then show ?thesis
    proof (elim disjE exE conjE)
      assume "find (named name) es = None" "remove_scan name (block_of ((pre @ [e]) @ es)) bs (length (block_of (pre @ [e]))) (?p (pre @ [e])) = None"
      then show ?thesis unfolding st using False by (intro disjI1) simp
    next
      fix xs x ys assume x: "es = xs @ x # ys" "named name x" "\<not> (\<exists>x\<in>set xs. named name x)"
        "remove_scan name (block_of ((pre @ [e]) @ es)) bs (length (block_of (pre @ [e]))) (?p (pre @ [e])) =
            Some (block_of (absorb ((pre @ [e]) @ xs) x @ ys))"
      show ?thesis unfolding st x(4) using x(1-3) False by (intro disjI2 exI [of _ "e # xs"] exI [of _ x] exI [of _ ys]) simp
    qed
  qed
qed

section \<open>Directories as maps\<close>

text \<open>The live entries of the blocks of a directory.\<close>

definition live :: "dent list \<Rightarrow> (u8 list \<times> u32) list" where
  "live es = map (\<lambda>e. (d_name e, d_ino e)) (filter (\<lambda>e. d_ino e \<noteq> 0) es)"

lemma live_simps [simp]: "live [] = []" "live (xs @ ys) = live xs @ live ys"
  "live (e # es) = (if d_ino e \<noteq> 0 then [(d_name e, d_ino e)] else []) @ live es"
  by (simp_all add: live_def)

lemma live_split_ent [simp]: "live [shrunk e] = live [e]" "ino \<noteq> 0 \<Longrightarrow> live [inserted ino name ft e] = [(name, ino)]"
  by (simp_all add: shrunk_def inserted_def)

lemma live_absorb: "live (absorb zs e) = live zs"
  by (cases zs rule: rev_cases) (simp_all add: absorb_def)

lemma find_live: "map_of (live es) name = map_option d_ino (find (named name) es)"
  by (induction es) (auto simp: named_def)

lemma named_live: "named name e \<Longrightarrow> live [e] = [(name, d_ino e)]"
  by (simp add: named_def)

definition dir_blocks :: "u32 \<Rightarrow> ext2_inode \<Rightarrow> dent list list \<Rightarrow> ext2 \<Rightarrow> bool" where
  "dir_blocks d dir ess s \<longleftrightarrow>
     layout_ok d s \<and> file_ok d dir s \<and> unat (i_size dir) = length ess * block_size s \<and> length ess \<le> max_blocks s \<and>
     (\<forall>k < length ess. ext2_get_block dir k s \<noteq> 0 \<and> blk s (ext2_get_block dir k s) = block_of (ess ! k) \<and> ents_ok (block_size s) (ess ! k)) \<and>
     (\<forall>k. length ess \<le> k \<and> k < max_blocks s \<longrightarrow> ext2_get_block dir k s = 0)"

text \<open>The directory with inode number \<open>d\<close> is the map \<open>m\<close>.\<close>

definition dir_view :: "u32 \<Rightarrow> ext2 \<Rightarrow> (u8 list \<rightharpoonup> u32) \<Rightarrow> bool" where
  "dir_view d s m \<longleftrightarrow>
     (\<exists>dir ess. ext2_read_inode d s = Some dir \<and> i_mode dir AND EXT2_S_IFDIR \<noteq> 0 \<and> dir_blocks d dir ess s \<and>
        distinct (map fst (live (concat ess))) \<and> m = map_of (live (concat ess)))"

lemma dir_block_read:
  assumes "dir_blocks d dir ess s" "k < length ess"
  shows "read_blk (ext2_get_block dir k s) s = Some (block_of (ess ! k))" "ents_ok (block_size s) (ess ! k)"
    "ext2_get_block dir k s \<noteq> 0" "k * block_size s + block_size s \<le> unat (i_size dir)" "unat (i_size dir) < 2 ^ 32" "0 < block_size s"
    "k < max_blocks s"
proof -
  have d: "disk_ok s" using assms by (simp add: dir_blocks_def layout_ok_def e2_inv_def)
  show k: "k < max_blocks s" using assms by (simp add: dir_blocks_def)
  show nz: "ext2_get_block dir k s \<noteq> 0" using assms by (simp add: dir_blocks_def)
  have "blk_ok s (ext2_get_block dir k s)" using assms owned_get [OF k nz] by (simp add: dir_blocks_def file_ok_def)
  from read_blk_ok [OF d this] show "read_blk (ext2_get_block dir k s) s = Some (block_of (ess ! k))"
    using assms by (simp add: dir_blocks_def)
  show "ents_ok (block_size s) (ess ! k)" using assms by (simp add: dir_blocks_def)
  have "(k + 1) * block_size s \<le> length ess * block_size s" by (rule mult_le_mono1) (use assms(2) in simp)
  then show "k * block_size s + block_size s \<le> unat (i_size dir)" using assms(1) by (simp add: dir_blocks_def)
  show "unat (i_size dir) < 2 ^ 32" using unsigned_less [of "i_size dir"] by simp
  show "0 < block_size s" using d by (auto simp: disk_ok_def)
qed

lemma lookup_loop_spec:
  assumes D: "dir_blocks d dir ess s" and n: "name_ok name"
  shows "k \<le> length ess \<Longrightarrow> lookup_loop dir name (k * block_size s) s =
    Some (case map_of (live (concat (drop k ess))) name of None \<Rightarrow> 0 | Some i \<Rightarrow> i)"
proof (induction "length ess - k" arbitrary: k)
  case 0
  then have "k = length ess" by simp
  then show ?case using D by (subst lookup_loop.simps) (simp add: dir_blocks_def)
next
  case (Suc m)
  have k: "k < length ess" using Suc.hyps(2) by simp
  note R = dir_block_read [OF D k]
  have dr: "drop k ess = ess ! k # drop (Suc k) ess" by (rule Cons_nth_drop_Suc [symmetric, OF k])
  have IH: "lookup_loop dir name (Suc k * block_size s) s =
      Some (case map_of (live (concat (drop (Suc k) ess))) name of None \<Rightarrow> 0 | Some i \<Rightarrow> i)"
    by (rule Suc.hyps(1)) (use Suc.hyps(2) k in simp_all)
  obtain o' where sc: "lookup_scan name (block_of (ess ! k)) (block_size s) (unat (i_size dir)) (k * block_size s) 0 =
     (case find (named name) (ess ! k) of None \<Rightarrow> (None, k * block_size s + block_size s) | Some e \<Rightarrow> (Some (d_ino e), o'))"
    using lookup_scan_spec [of "block_size s" "[]" "ess ! k" name "k * block_size s" "k * block_size s" "unat (i_size dir)"] R n by auto
  have lt: "k * block_size s < unat (i_size dir)" using R(4,6) by linarith
  show ?case
  proof (cases "find (named name) (ess ! k)")
    case None
    have "lookup_loop dir name (k * block_size s) s = lookup_loop dir name (Suc k * block_size s) s"
      using lt R(1,3,6) sc None by (subst lookup_loop.simps) (simp add: Let_def add.commute)
    then show ?thesis using IH None by (simp add: dr map_add_def find_live)
  next
    case (Some e)
    then have "d_ino e \<noteq> 0" by (auto simp: find_Some_iff named_def)
    show ?thesis using lt R(1,3,6) sc Some by (subst lookup_loop.simps) (simp add: Let_def dr map_add_def find_live)
  qed
qed

section \<open>Insertion\<close>

lemma add_loop_spec:
  assumes D: "dir_blocks d dir ess s" and n: "name_ok name"
  shows "k \<le> length ess \<Longrightarrow> add_loop dir ino name ft (k * block_size s) s = Some None \<or>
    (\<exists>j xs e ys. j < length ess \<and> ess ! j = xs @ e # ys \<and> has_room name e \<and>
       add_loop dir ino name ft (k * block_size s) s =
         Some (Some (0, put_blk (ext2_get_block dir j s) (block_of (xs @ shrunk e # inserted ino name ft e # ys)) s)))"
proof (induction "length ess - k" arbitrary: k)
  case 0
  then have "k = length ess" by simp
  then show ?case using D by (subst add_loop.simps) (simp add: dir_blocks_def)
next
  case (Suc m)
  have k: "k < length ess" using Suc.hyps(2) by simp
  note R = dir_block_read [OF D k]
  have IH: "add_loop dir ino name ft (Suc k * block_size s) s = Some None \<or>
    (\<exists>j xs e ys. j < length ess \<and> ess ! j = xs @ e # ys \<and> has_room name e \<and>
       add_loop dir ino name ft (Suc k * block_size s) s =
         Some (Some (0, put_blk (ext2_get_block dir j s) (block_of (xs @ shrunk e # inserted ino name ft e # ys)) s)))"
    by (rule Suc.hyps(1)) (use Suc.hyps(2) k in simp_all)
  have lt: "k * block_size s < unat (i_size dir)" using R(4,6) by linarith
  have st: "add_loop dir ino name ft (k * block_size s) s =
      (case add_scan ino name ft (block_of (ess ! k)) (block_size s) (unat (i_size dir)) (k * block_size s) 0 of
         Inl b' \<Rightarrow> Some (Some (0, put_blk (ext2_get_block dir k s) b' s))
       | Inr offset' \<Rightarrow> add_loop dir ino name ft offset' s)"
    using lt R(1,3,6) by (subst add_loop.simps) (simp add: Let_def put_blk_def split: sum.split)
  have "(add_scan ino name ft (block_of (ess ! k)) (block_size s) (unat (i_size dir)) (k * block_size s) 0 = Inr (k * block_size s + block_size s)) \<or>
     (\<exists>xs e ys. ess ! k = xs @ e # ys \<and> has_room name e \<and>
        add_scan ino name ft (block_of (ess ! k)) (block_size s) (unat (i_size dir)) (k * block_size s) 0 =
          Inl (block_of (xs @ shrunk e # inserted ino name ft e # ys)))"
    using add_scan_spec [of "block_size s" "[]" "ess ! k" name "k * block_size s" "k * block_size s" "unat (i_size dir)" ino ft] R n by auto
  then show ?case
  proof (elim disjE exE conjE)
    assume "add_scan ino name ft (block_of (ess ! k)) (block_size s) (unat (i_size dir)) (k * block_size s) 0 = Inr (k * block_size s + block_size s)"
    then have "add_loop dir ino name ft (k * block_size s) s = add_loop dir ino name ft (Suc k * block_size s) s"
      unfolding st by (simp add: add.commute)
    with IH show ?thesis by simp
  next
    fix xs e ys assume "ess ! k = xs @ e # ys" "has_room name e"
      "add_scan ino name ft (block_of (ess ! k)) (block_size s) (unat (i_size dir)) (k * block_size s) 0 =
          Inl (block_of (xs @ shrunk e # inserted ino name ft e # ys))"
    then show ?thesis using k unfolding st by (intro disjI2 exI [of _ k] exI [of _ xs] exI [of _ e] exI [of _ ys]) simp
  qed
qed

lemma read_inode_frame:
  assumes L: "layout_ok ino s" "layout_ok ino t" and g: "same_geo s t" and b: "blk t (fst (inode_loc ino s)) = blk s (fst (inode_loc ino s))"
  shows "ext2_read_inode ino t = ext2_read_inode ino s"
proof -
  have d: "disk_ok s" "disk_ok t" "blk_ok s (fst (inode_loc ino s))" "ext2_mounted s" "ext2_mounted t"
    using L by (simp_all add: layout_ok_def e2_inv_def)
  have l: "inode_loc ino t = inode_loc ino s" by (rule same_geo_meta(1) [OF g L(1)])
  have "blk_ok t (fst (inode_loc ino s))" using d(3) same_geo_views(2) [OF g] by simp
  with d b show ?thesis by (simp add: ext2_read_inode_def l case_prod_beta read_blk_ok)
qed

text \<open>The contents of a mapped block, as bytes of the file.\<close>

lemma blk_bytes:
  assumes "disk_ok s" "ext2_get_block n k s = b" "b \<noteq> 0"
  shows "blk s b = map (file_byte s n) [k * block_size s..<k * block_size s + block_size s]"
proof -
  have bs: "0 < block_size s" using assms(1) by (auto simp: disk_ok_def)
  have "map (file_byte s n) [k * block_size s..<k * block_size s + block_size s] = slice 0 (block_size s) (blk s b)"
    using chunk_bytes [OF assms(1), of "k * block_size s" "block_size s" n] assms(2,3) bs by simp
  then show ?thesis using length_blk [OF assms(1)] by (simp add: slice_def)
qed

text \<open>Replacing the entries of one block.\<close>

lemma dir_put:
  assumes D: "dir_blocks d dir ess s" and j: "j < length ess" and es: "ents_ok (block_size s) es"
  defines "t \<equiv> put_blk (ext2_get_block dir j s) (block_of es) s"
  shows "dir_blocks d dir (ess[j := es]) t" "ext2_read_inode d t = ext2_read_inode d s"
proof -
  note R = dir_block_read [OF D j]
  have L: "layout_ok d s" and F: "file_ok d dir s" using D by (simp_all add: dir_blocks_def)
  have len: "length (block_of es) = block_size s" using es by (simp add: ents_ok_def)
  note P = put_data [OF F L R(7) refl R(3) len, folded t_def]
  have d: "disk_ok s" using L by (simp add: layout_ok_def e2_inv_def)
  have o: "ext2_get_block dir j s \<in> owned dir s" by (rule owned_get [OF R(7,3)])
  have bo: "blk_ok s (ext2_get_block dir j s)" using F o by (simp add: file_ok_def)
  note B = put_blk_ok(2) [OF d bo len, folded t_def]
  have fr: "block_size t = block_size s" "max_blocks t = max_blocks s" by (simp_all add: t_def max_blocks_def ptrs_def)
  have bl: "blk t (ext2_get_block dir k t) = block_of (ess[j := es] ! k)" if k: "k < length ess" for k
  proof (cases "k = j")
    case True
    then show ?thesis using P(4) [OF R(7)] j by (simp add: B)
  next
    case False
    note K = dir_block_read [OF D k]
    have "ext2_get_block dir k s \<noteq> ext2_get_block dir j s" using mapped_inj [OF F K(7) R(7)] K(3) False by blast
    then show ?thesis using P(4) [OF K(7)] D k False by (simp add: B dir_blocks_def)
  qed
  have ok: "\<forall>k < length ess. ents_ok (block_size s) (ess[j := es] ! k)" using D es j by (simp add: dir_blocks_def nth_list_update)
  have gb: "ext2_get_block dir k t = ext2_get_block dir k s" if "k < max_blocks s" for k by (rule P(4) [OF that])
  have le: "length ess \<le> max_blocks s" using D by (simp add: dir_blocks_def)
  have nz: "ext2_get_block dir k t \<noteq> 0" if "k < length ess" for k using dir_block_read(3) [OF D that] gb that le by simp
  show "dir_blocks d dir (ess[j := es]) t"
    unfolding dir_blocks_def fr length_list_update using P(1,2) D bl ok nz gb by (auto simp: dir_blocks_def)
  have "fst (inode_loc d s) \<noteq> ext2_get_block dir j s" using F o by (auto simp: file_ok_def meta_def)
  then have "blk t (fst (inode_loc d s)) = blk s (fst (inode_loc d s))" by (simp add: B)
  then show "ext2_read_inode d t = ext2_read_inode d s" by (intro read_inode_frame [OF L P(1)]) (simp_all add: t_def)
qed

text \<open>A directory that gets a new block.\<close>

definition lone :: "nat \<Rightarrow> u32 \<Rightarrow> u8 list \<Rightarrow> u8 \<Rightarrow> dent" where
  "lone bs ino name ft = \<lparr>d_ino = ino, d_type = ft, d_name = name, d_pad = replicate (bs - (8 + length name)) 0\<rparr>"

lemma lone_block:
  assumes "name_ok name" "1024 \<le> bs" "bs \<le> 4096"
  shows "blit (replicate bs 0) 0 (new_entry ino (of_nat bs) name ft) = block_of [lone bs ino name ft]" "ents_ok bs [lone bs ino name ft]"
proof -
  have n: "8 + length name \<le> bs" using assms by (simp add: name_ok_def)
  then have l: "ent_len (lone bs ino name ft) = bs" by (simp add: ent_len_def lone_def)
  show "blit (replicate bs 0) 0 (new_entry ino (of_nat bs) name ft) = block_of [lone bs ino name ft]"
    unfolding block_of_simps ent_bytes_def l using n by (simp add: blit_def new_entry_def lone_def)
  have "round4 (8 + length name) \<le> bs" using round4_ge(2) [of "8 + length name"] assms by (simp add: name_ok_def)
  then show "ents_ok bs [lone bs ino name ft]" using assms l by (simp add: ents_ok_def ent_ok_def) (simp add: lone_def name_ok_def)
qed

lemma add_dir_block_spec:
  assumes D: "dir_blocks d dir ess s" and n: "name_ok name" and mx: "length ess < max_blocks s" and rm: "room dir s 1"
  obtains t dir' where "add_dir_block d dir ino name ft s = (0, t)" "ext2_read_inode d t = Some dir'" "i_mode dir' = i_mode dir"
    "dir_blocks d dir' (ess @ [[lone (block_size s) ino name ft]]) t"
proof -
  let ?bs = "block_size s" and ?k = "length ess"
  have L: "layout_ok d s" and F: "file_ok d dir s" and sz: "unat (i_size dir) = ?k * ?bs"
    and z: "ext2_get_block dir ?k s = 0" using D mx by (simp_all add: dir_blocks_def)
  have dk: "disk_ok s" using L by (simp add: layout_ok_def e2_inv_def)
  have bs: "1024 \<le> ?bs" "?bs \<le> 4096" using dk by (auto simp: disk_ok_def)
  have kd: "unat (i_size dir) div ?bs = ?k" using sz bs by simp
  define x where "x = blit (replicate ?bs 0) 0 (new_entry ino (of_nat ?bs) name ft)"
  note LB = lone_block [OF n bs, of ino ft, folded x_def]
  have xl: "length x = ?bs" using LB by (simp add: ents_ok_def)
  have rm1: "room dir s (Suc 0)" using rm by simp
  obtain b s1 e n2 s2 where G: "ext2_alloc_block s = (b, s1)" "b \<noteq> 0" "ext2_set_block dir ?k b s1 = (e, n2, s2)"
    "layout_ok d (put_blk b x s2)" "file_ok d n2 (put_blk b x s2)" "same_geo s (put_blk b x s2)" "room n2 (put_blk b x s2) 0"
    "i_size n2 = i_size dir" "block_size s2 = ?bs" "ext2_write_block b x s2 = (0, put_blk b x s2)"
    "\<And>l. l < max_blocks s \<Longrightarrow> ext2_get_block n2 l (put_blk b x s2) = (if l = ?k then b else ext2_get_block dir l s)"
    "\<And>p. p < max_blocks s * ?bs \<Longrightarrow> file_byte (put_blk b x s2) n2 p = (if p div ?bs = ?k then x ! (p mod ?bs) else file_byte s dir p)"
    by (rule grow_file [OF F L mx z rm1 xl]) (rule that)
  define n3 where "n3 = n2\<lparr>i_blocks := i_blocks n2 + of_nat (?bs div 512), i_size := i_size n2 + of_nat ?bs\<rparr>"
  have i: "i_block n3 = i_block n2" "i_osd2 n3 = i_osd2 n2" by (simp_all add: n3_def)
  note U = inode_upd [OF i(1)] inode_upd(4) [OF i]
  have F3: "file_ok d n3 (put_blk b x s2)" using G(5) by (simp add: U)
  note E = persist_spec [OF G(4) F3]
  define t where "t = ext2_flush_metadata (snd (ext2_write_inode d n3 (put_blk b x s2)))"
  have g: "same_geo s t" using same_geo_trans [OF G(6) E(3)] by (simp add: t_def)
  have m: "max_blocks t = max_blocks s" "block_size t = ?bs" using same_geo_views(7) [OF g] by (simp_all add: max_blocks_def ptrs_def)
  have m2: "max_blocks (put_blk b x s2) = max_blocks s" "block_size (put_blk b x s2) = ?bs"
    using same_geo_views(7) [OF G(6)] by (simp_all add: max_blocks_def ptrs_def)
  have ad: "add_dir_block d dir ino name ft s = (0, t)"
    using G(1-3,10) kd by (simp add: add_dir_block_def Let_def t_def n3_def x_def)
  have md: "i_mode n3 = i_mode dir" using set_block_frame [OF G(3)] by (simp add: n3_def)
  have dt: "disk_ok t" using E(1) by (simp add: t_def layout_ok_def e2_inv_def)
  have gb: "ext2_get_block n3 l t = (if l = ?k then b else ext2_get_block dir l s)" if l: "l < max_blocks s" for l
    using E(6) [of l] G(11) [OF l] l by (simp add: t_def m2 U)
  have fb: "file_byte t n3 p = (if p div ?bs = ?k then x ! (p mod ?bs) else file_byte s dir p)" if "p < max_blocks s * ?bs" for p
    using E(5) [of p] G(12) [OF that] that by (simp add: t_def m2 G(9) U)
  have mu: "max_blocks s * ?bs < 2 ^ 31" using disk_ok_ptrs [OF dk] by (auto simp: max_blocks_def)
  have kl: "?k * ?bs + ?bs \<le> max_blocks s * ?bs" using mult_le_mono1 [of "?k + 1" "max_blocks s" ?bs] mx by simp
  have "unat (of_nat ?bs :: u32) = ?bs" using bs by (simp add: unat_of_nat take_bit_nat_eq_self)
  then have "unat (i_size n2 + of_nat ?bs) = unat (i_size n2) + ?bs" using G(8) sz kl mu by (simp add: unat_word_ariths)
  then have sz3: "unat (i_size n3) = Suc ?k * ?bs" using G(8) sz by (simp add: n3_def)
  let ?ess = "ess @ [[lone ?bs ino name ft]]"
  have bl: "ext2_get_block n3 l t \<noteq> 0 \<and> blk t (ext2_get_block n3 l t) = block_of (?ess ! l) \<and> ents_ok ?bs (?ess ! l)" if l: "l < Suc ?k" for l
  proof -
    have lm: "l < max_blocks s" using l mx by simp
    have nz: "ext2_get_block n3 l t \<noteq> 0"
      using gb [OF lm] G(2) dir_block_read(3) [OF D, of l] l by (auto simp: less_Suc_eq)
    have dv: "(l * ?bs + j) div ?bs = l" "(l * ?bs + j) mod ?bs = j" if "j < ?bs" for j using that by simp_all
    have rg: "l * ?bs + j < max_blocks s * ?bs" if "j < ?bs" for j
      using mult_le_mono1 [of "l + 1" "max_blocks s" ?bs] lm that by simp
    have bt: "blk t (ext2_get_block n3 l t) = map (file_byte t n3) [l * ?bs..<l * ?bs + ?bs]"
      using blk_bytes [OF dt refl nz] by (simp add: m)
    have "blk t (ext2_get_block n3 l t) = block_of (?ess ! l) \<and> ents_ok ?bs (?ess ! l)"
    proof (cases "l = ?k")
      case True
      have "map (file_byte t n3) [l * ?bs..<l * ?bs + ?bs] = x"
        by (rule nth_equalityI) (use rg dv xl True in \<open>simp_all add: fb\<close>)
      then show ?thesis using True LB bt by simp
    next
      case False
      then have l2: "l < ?k" using l by simp
      note K = dir_block_read [OF D l2]
      have "map (file_byte t n3) [l * ?bs..<l * ?bs + ?bs] = map (file_byte s dir) [l * ?bs..<l * ?bs + ?bs]"
        by (rule nth_equalityI) (use rg dv False in \<open>simp_all add: fb\<close>)
      then have "blk t (ext2_get_block n3 l t) = blk s (ext2_get_block dir l s)" using bt blk_bytes [OF dk refl K(3)] by simp
      then show ?thesis using l2 D by (simp add: nth_append dir_blocks_def)
    qed
    with nz show ?thesis by simp
  qed
  have "dir_blocks d n3 ?ess t"
    unfolding dir_blocks_def m using E(1,2) sz3 mx bl gb D by (simp add: t_def [symmetric]) (simp add: dir_blocks_def)
  then show ?thesis using that [OF ad _ md] E(4) by (simp add: t_def)
qed

section \<open>Directories refine maps\<close>

lemma ents_ok_insert:
  assumes "ents_ok bs (xs @ e # ys)" "has_room name e" "name_ok name"
  shows "ents_ok bs (xs @ shrunk e # inserted ino name ft e # ys)"
proof -
  note S = ents_ok_split [OF assms(1)]
  have nl: "length name \<le> 255" using assms(3) by (simp add: name_ok_def)
  note P = split_entry [OF S(1) assms(2) S(3) nl]
  have "round4 (8 + length (d_name e)) \<le> ent_len e" using S(1) by (simp add: ent_ok_def)
  then show ?thesis using assms(1) P(3,4) S(2) by (auto simp: ents_ok_def P(1,2))
qed

lemma ents_ok_absorb:
  assumes "ents_ok bs (xs @ e # ys)"
  shows "ents_ok bs (absorb xs e @ ys)"
proof -
  note S = ents_ok_split [OF assms]
  have l: "length (block_of (absorb xs e @ ys)) = bs" using block_of_absorb [of xs e] S(2) by simp
  have "ent_ok z" if "z \<in> set (absorb xs e)" for z
  proof (cases xs rule: rev_cases)
    case Nil
    then show ?thesis using that S(1) by (simp add: absorb_def ent_ok_def) (simp add: ent_len_def)
  next
    case (snoc zs y)
    have y: "ent_ok y" using assms snoc by (simp add: ents_ok_def)
    have "ent_ok (y\<lparr>d_pad := d_pad y @ ent_bytes e\<rparr>)" using y by (simp add: ent_ok_def ent_len_def)
    then show ?thesis using that snoc assms by (auto simp: absorb_def ents_ok_def)
  qed
  then show ?thesis using l assms by (auto simp: ents_ok_def)
qed

lemma concat_upd:
  assumes "j < length ess" "ess ! j = xs @ e # ys"
  shows "concat (ess[j := zs]) = concat (take j ess) @ zs @ concat (drop (Suc j) ess)"
    "concat ess = concat (take j ess) @ xs @ e # ys @ concat (drop (Suc j) ess)"
proof -
  have "ess = take j ess @ (xs @ e # ys) # drop (Suc j) ess" using id_take_nth_drop [OF assms(1)] assms(2) by simp
  then have "concat ess = concat (take j ess @ (xs @ e # ys) # drop (Suc j) ess)" by (rule arg_cong)
  then show "concat ess = concat (take j ess) @ xs @ e # ys @ concat (drop (Suc j) ess)" by simp
  show "concat (ess[j := zs]) = concat (take j ess) @ zs @ concat (drop (Suc j) ess)"
    using assms(1) by (simp add: upd_conv_take_nth_drop)
qed

lemma map_of_insert:
  assumes "n \<notin> fst ` set (xs @ ys)"
  shows "map_of (xs @ (n, i) # ys) = (map_of (xs @ ys))(n \<mapsto> i)"
  using assms by (auto simp: fun_eq_iff map_add_def split: option.splits dest!: map_of_SomeD intro: rev_image_eqI)

lemma map_of_delete:
  assumes "distinct (map fst (xs @ (n, i) # ys))"
  shows "map_of (xs @ ys) = (map_of (xs @ (n, i) # ys))(n := None)"
proof -
  have n: "n \<notin> fst ` set (xs @ ys)" using assms by auto
  then have "map_of (xs @ ys) n = None" by (simp only: map_of_eq_None_iff not_False_eq_True)
  then show ?thesis unfolding map_of_insert [OF n] by (auto simp: fun_eq_iff)
qed

lemma live_insert:
  assumes "ino \<noteq> 0"
  shows "live (A @ xs @ shrunk e # inserted ino name ft e # ys @ B) = live (A @ xs @ [e]) @ (name, ino) # live (ys @ B)"
    "live (A @ xs @ e # ys @ B) = live (A @ xs @ [e]) @ live (ys @ B)"
  using assms by (simp_all add: shrunk_def inserted_def)

definition dir_room :: "u32 \<Rightarrow> ext2 \<Rightarrow> bool" where
  "dir_room d s \<longleftrightarrow> (case ext2_read_inode d s of None \<Rightarrow> False
     | Some dir \<Rightarrow> unat (i_size dir) < max_blocks s * block_size s \<and> room dir s 1)"

lemma dir_lookup:
  assumes "dir_view d s m" "name_ok name"
  shows "ext2_lookup d name s = Some (case m name of None \<Rightarrow> 0 | Some i \<Rightarrow> i)"
proof -
  obtain dir ess where V: "ext2_read_inode d s = Some dir" "i_mode dir AND EXT2_S_IFDIR \<noteq> 0" "dir_blocks d dir ess s"
    "m = map_of (live (concat ess))"
    using assms(1) by (auto simp: dir_view_def)
  show ?thesis using V lookup_loop_spec [OF V(3) assms(2), of 0] by (simp add: ext2_lookup_def)
qed

lemma dir_insert:
  assumes "dir_view d s m" "name_ok name" "m name = None" "ino \<noteq> 0" "dir_room d s"
  shows "\<exists>t. ext2_add_dir_entry d ino name ft s = Some (0, t) \<and> dir_view d t (m(name \<mapsto> ino))"
proof -
  obtain dir ess where V: "ext2_read_inode d s = Some dir" "i_mode dir AND EXT2_S_IFDIR \<noteq> 0" "dir_blocks d dir ess s"
    "distinct (map fst (live (concat ess)))" "m = map_of (live (concat ess))"
    using assms(1) by (auto simp: dir_view_def)
  have nm: "name \<notin> fst ` set (live (concat ess))" using assms(3) unfolding V(5) by (simp only: map_of_eq_None_iff not_False_eq_True)
  have upd: "distinct (map fst ys) \<and> m(name \<mapsto> ino) = map_of ys" if "live (concat ess) = A @ B" "ys = A @ (name, ino) # B" for A B ys
    using V(4,5) nm map_of_insert [of name A B ino] unfolding that(1) that(2) by auto
  have al: "add_loop dir ino name ft 0 s = Some None \<or>
    (\<exists>j xs e ys. j < length ess \<and> ess ! j = xs @ e # ys \<and> has_room name e \<and> add_loop dir ino name ft 0 s =
         Some (Some (0, put_blk (ext2_get_block dir j s) (block_of (xs @ shrunk e # inserted ino name ft e # ys)) s)))"
    using add_loop_spec [OF V(3) assms(2), of 0 ino ft] by simp
  then show ?thesis
  proof (elim disjE exE conjE)
    assume no: "add_loop dir ino name ft 0 s = Some None"
    have bs: "0 < block_size s" using V(3) by (auto simp: dir_blocks_def layout_ok_def e2_inv_def disk_ok_def)
    have r: "length ess < max_blocks s" "room dir s 1" using assms(5) V(1,3) bs by (simp_all add: dir_room_def dir_blocks_def)
    obtain t dir' where T: "add_dir_block d dir ino name ft s = (0, t)" "ext2_read_inode d t = Some dir'" "i_mode dir' = i_mode dir"
      "dir_blocks d dir' (ess @ [[lone (block_size s) ino name ft]]) t"
      by (rule add_dir_block_spec [OF V(3) assms(2) r]) (rule that)
    have lv: "live (concat (ess @ [[lone (block_size s) ino name ft]])) = live (concat ess) @ [(name, ino)]"
      using assms(4) by (simp add: lone_def)
    have "dir_view d t (m(name \<mapsto> ino))"
      unfolding dir_view_def using T V(2) lv upd [of "live (concat ess)" "[]"]
      by (intro exI [of _ dir'] exI [of _ "ess @ [[lone (block_size s) ino name ft]]"]) simp
    then show ?thesis using V(1) no T(1) by (simp add: ext2_add_dir_entry_def)
  next
    fix j xs e ys
    assume j: "j < length ess" "ess ! j = xs @ e # ys" "has_room name e" "add_loop dir ino name ft 0 s =
         Some (Some (0, put_blk (ext2_get_block dir j s) (block_of (xs @ shrunk e # inserted ino name ft e # ys)) s))"
    let ?es = "xs @ shrunk e # inserted ino name ft e # ys"
    have ok: "ents_ok (block_size s) ?es"
      by (rule ents_ok_insert [OF _ j(3) assms(2)]) (use dir_block_read(2) [OF V(3) j(1)] j(2) in simp)
    note P = dir_put [OF V(3) j(1) ok]
    have lv: "live (concat (ess[j := ?es])) = live (concat (take j ess) @ xs @ [e]) @ (name, ino) # live (ys @ concat (drop (Suc j) ess))"
      "live (concat ess) = live (concat (take j ess) @ xs @ [e]) @ live (ys @ concat (drop (Suc j) ess))"
      unfolding concat_upd(1) [OF j(1,2)] unfolding concat_upd(2) [OF j(1,2)]
      using live_insert(1) [OF assms(4), of "concat (take j ess)" xs e name ft ys "concat (drop (Suc j) ess)"]
        live_insert(2) [OF assms(4), of "concat (take j ess)" xs e ys "concat (drop (Suc j) ess)"] by simp_all
    have "dir_view d (put_blk (ext2_get_block dir j s) (block_of ?es) s) (m(name \<mapsto> ino))"
      unfolding dir_view_def using P V(1,2) upd [OF lv(2,1)] by (intro exI [of _ dir] exI [of _ "ess[j := ?es]"]) simp
    then show ?thesis using V(1) j(4) by (simp add: ext2_add_dir_entry_def)
  qed
qed

lemma remove_loop_spec:
  assumes D: "dir_blocks d dir ess s" and n: "name_ok name"
  shows "k \<le> length ess \<Longrightarrow> (remove_loop dir name (k * block_size s) s = Some (-1, s) \<and> find (named name) (concat (drop k ess)) = None) \<or>
    (\<exists>j xs e ys. j < length ess \<and> ess ! j = xs @ e # ys \<and> named name e \<and>
       remove_loop dir name (k * block_size s) s = Some (0, put_blk (ext2_get_block dir j s) (block_of (absorb xs e @ ys)) s))"
proof (induction "length ess - k" arbitrary: k)
  case 0
  then have "k = length ess" by simp
  then show ?case using D by (subst remove_loop.simps) (simp add: dir_blocks_def)
next
  case (Suc m)
  have k: "k < length ess" using Suc.hyps(2) by simp
  note R = dir_block_read [OF D k]
  have dr: "drop k ess = ess ! k # drop (Suc k) ess" by (rule Cons_nth_drop_Suc [symmetric, OF k])
  have IH: "(remove_loop dir name (Suc k * block_size s) s = Some (-1, s) \<and> find (named name) (concat (drop (Suc k) ess)) = None) \<or>
    (\<exists>j xs e ys. j < length ess \<and> ess ! j = xs @ e # ys \<and> named name e \<and>
       remove_loop dir name (Suc k * block_size s) s = Some (0, put_blk (ext2_get_block dir j s) (block_of (absorb xs e @ ys)) s))"
    by (rule Suc.hyps(1)) (use Suc.hyps(2) k in simp_all)
  have lt: "k * block_size s < unat (i_size dir)" using R(4,6) by linarith
  have "k * block_size s + block_size s < 4294967296" using D R(4) disk_ok_ptrs [of s] k mult_le_mono1 [of "Suc k" "max_blocks s" "block_size s"]
    by (auto simp: dir_blocks_def layout_ok_def e2_inv_def max_blocks_def)
  then have st: "remove_loop dir name (k * block_size s) s =
      (case remove_scan name (block_of (ess ! k)) (block_size s) 0 None of
         Some b' \<Rightarrow> Some (0, put_blk (ext2_get_block dir k s) b' s)
       | None \<Rightarrow> remove_loop dir name (Suc k * block_size s) s)"
    using lt R(1,3,6) by (subst remove_loop.simps) (simp add: Let_def put_blk_def add.commute split: option.split)
  have "(find (named name) (ess ! k) = None \<and> remove_scan name (block_of (ess ! k)) (block_size s) 0 None = None) \<or>
     (\<exists>xs e ys. ess ! k = xs @ e # ys \<and> named name e \<and>
        remove_scan name (block_of (ess ! k)) (block_size s) 0 None = Some (block_of (absorb xs e @ ys)))"
    using remove_scan_spec [of "block_size s" "[]" "ess ! k" name] R n by auto
  then show ?case
  proof (elim disjE exE conjE)
    assume no: "find (named name) (ess ! k) = None" "remove_scan name (block_of (ess ! k)) (block_size s) 0 None = None"
    have st': "remove_loop dir name (k * block_size s) s = remove_loop dir name (Suc k * block_size s) s" unfolding st using no(2) by simp
    have f: "find (named name) (concat (drop (Suc k) ess)) = None \<Longrightarrow> find (named name) (concat (drop k ess)) = None"
      using no(1) by (auto simp: dr find_None_iff)
    show ?thesis unfolding st' using IH f by blast
  next
    fix xs e ys assume "ess ! k = xs @ e # ys" "named name e" "remove_scan name (block_of (ess ! k)) (block_size s) 0 None = Some (block_of (absorb xs e @ ys))"
    then show ?thesis using k unfolding st by (intro disjI2 exI [of _ k] exI [of _ xs] exI [of _ e] exI [of _ ys]) simp
  qed
qed

lemma dir_delete:
  assumes "dir_view d s m" "name_ok name"
  shows "m name = None \<Longrightarrow> ext2_remove_dir_entry d name s = Some (-1, s)"
    "m name \<noteq> None \<Longrightarrow> \<exists>t. ext2_remove_dir_entry d name s = Some (0, t) \<and> dir_view d t (m(name := None))"
proof -
  obtain dir ess where V: "ext2_read_inode d s = Some dir" "i_mode dir AND EXT2_S_IFDIR \<noteq> 0" "dir_blocks d dir ess s"
    "distinct (map fst (live (concat ess)))" "m = map_of (live (concat ess))"
    using assms(1) by (auto simp: dir_view_def)
  have rl: "(remove_loop dir name 0 s = Some (-1, s) \<and> m name = None) \<or>
    (\<exists>j xs e ys. j < length ess \<and> ess ! j = xs @ e # ys \<and> named name e \<and>
       remove_loop dir name 0 s = Some (0, put_blk (ext2_get_block dir j s) (block_of (absorb xs e @ ys)) s))"
    using remove_loop_spec [OF V(3) assms(2), of 0] by (simp add: V(5) find_live)
  have hit: "m name \<noteq> None \<and> dir_view d (put_blk (ext2_get_block dir j s) (block_of (absorb xs e @ ys)) s) (m(name := None))"
    if j: "j < length ess" "ess ! j = xs @ e # ys" "named name e" for j xs e ys
  proof -
    let ?es = "absorb xs e @ ys" and ?A = "concat (take j ess)" and ?B = "concat (drop (Suc j) ess)"
    have ok: "ents_ok (block_size s) ?es" by (rule ents_ok_absorb) (use dir_block_read(2) [OF V(3) j(1)] j(2) in simp)
    note P = dir_put [OF V(3) j(1) ok]
    have lv: "live (concat (ess[j := ?es])) = live (?A @ xs) @ live (ys @ ?B)"
      "live (concat ess) = live (?A @ xs) @ (name, d_ino e) # live (ys @ ?B)"
      unfolding concat_upd(1) [OF j(1,2)] unfolding concat_upd(2) [OF j(1,2)] using j(3) by (simp_all add: live_absorb named_def)
    have "map_of (live (concat (ess[j := ?es]))) = m(name := None)"
      unfolding V(5) lv by (rule map_of_delete) (use V(4) lv in simp)
    moreover have "distinct (map fst (live (concat (ess[j := ?es]))))" using V(4) unfolding lv by auto
    moreover have "m name \<noteq> None" unfolding V(5) lv(2) by (simp add: map_of_eq_None_iff)
    ultimately show ?thesis unfolding dir_view_def using P V(1,2) by (intro conjI exI [of _ dir] exI [of _ "ess[j := ?es]"]) simp_all
  qed
  show "m name = None \<Longrightarrow> ext2_remove_dir_entry d name s = Some (-1, s)"
    using rl hit V(1) by (fastforce simp: ext2_remove_dir_entry_def)
  show "\<exists>t. ext2_remove_dir_entry d name s = Some (0, t) \<and> dir_view d t (m(name := None))" if "m name \<noteq> None"
    using rl hit V(1) that by (fastforce simp: ext2_remove_dir_entry_def)
qed

text \<open>An empty directory on the small file system.\<close>

definition small_dir :: ext2 where
  "small_dir = snd (ext2_write_inode 2 (inode_zero\<lparr>i_mode := 0x41ED\<rparr>) small_fs)"

lemma small_dir_view: "dir_view 2 small_dir Map.empty" "dir_room 2 small_dir"
proof -
  let ?n = "inode_zero\<lparr>i_mode := 0x41ED\<rparr>"
  have F: "file_ok 2 ?n small_fs" using small_fs_file inode_upd(4) [of ?n inode_zero 2 small_fs] by simp
  note I = write_inode_spec [OF small_fs_layout F, folded small_dir_def]
  have wf: "inode_wf ?n" by (simp add: inode_wf_def inode_zero_def)
  have dk: "disk_ok small_dir" "blk_ok small_dir (fst (inode_loc 2 small_dir))" "ext2_mounted small_dir"
    using I(1) by (simp_all add: layout_ok_def e2_inv_def)
  have il: "inode_loc 2 small_dir = (5, 128)" using same_geo_meta(1) [OF I(3) small_fs_layout] by simp
  have rd: "ext2_read_inode 2 small_dir = Some ?n"
    using dk read_blk_ok [OF dk(1,2)] I(5) dec_enc_inode [OF wf] by (simp add: ext2_read_inode_def il)
  have bs: "block_size small_dir = 1024" "max_blocks small_dir = 268"
    using same_geo_views(7) [OF I(3)] by (simp_all add: max_blocks_def ptrs_def)
  have z: "ext2_get_block ?n k small_dir = 0" if "k < 268" for k
    using get_block_eq [OF dk(1), of k ?n] that bs(2) by (simp add: inode_zero_def)
  have "dir_blocks 2 ?n [] small_dir" using I(1,2) z by (simp add: dir_blocks_def bs) (simp add: inode_zero_def)
  then show "dir_view 2 small_dir Map.empty"
    unfolding dir_view_def using rd by (intro exI [of _ ?n] exI [of _ "[]"]) (simp add: EXT2_S_IFDIR_def)
  have dis: "(5::u32) \<notin> owned ?n small_fs \<union> bitmaps small_fs"
    using F small_fs_layout by (auto simp: file_ok_def layout_ok_def meta_def)
  have b5: "blk_ok small_fs 5" by (simp add: blk_ok_def)
  have x: "length (blit (blk small_fs 5) 128 (enc_inode ?n)) = block_size small_fs"
    using length_blk [OF small_fs_disk, of 5] length_enc_inode [OF wf] by simp
  have "small_dir = put_blk 5 (blit (blk small_fs 5) 128 (enc_inode ?n)) small_fs"
    using read_blk_ok [OF small_fs_disk b5] by (simp add: small_dir_def ext2_write_inode_def put_blk_def)
  then have "free_set small_dir = free_set small_fs" using put_fresh(3) [OF small_fs_layout F b5 dis x] by simp
  then show "dir_room 2 small_dir" using rd small_fs_inv(3) by (simp add: dir_room_def bs room_def) (simp add: inode_zero_def)
qed

text \<open>
  C7 A sound directory is a finite map from names to inode numbers, and its operations are those of the
  map: \<^verbatim>\<open>ext2_lookup\<close> returns the number of a name, or 0; \<^verbatim>\<open>ext2_remove_dir_entry\<close> fails and changes
  nothing if the name is absent and deletes exactly this name otherwise; \<^verbatim>\<open>ext2_add_dir_entry\<close> adds an
  absent name, in the space behind an entry or in a new block. All three return.
\<close>

theorem ext2_directory_is_map:
  assumes "dir_view d s m" "name_ok name"
  shows "ext2_lookup d name s = Some (case m name of None \<Rightarrow> 0 | Some i \<Rightarrow> i) \<and>
    (m name = None \<longrightarrow> ext2_remove_dir_entry d name s = Some (-1, s)) \<and>
    (m name \<noteq> None \<longrightarrow> (\<exists>t. ext2_remove_dir_entry d name s = Some (0, t) \<and> dir_view d t (m(name := None)))) \<and>
    (m name = None \<and> ino \<noteq> 0 \<and> dir_room d s \<longrightarrow>
       (\<exists>t. ext2_add_dir_entry d ino name ft s = Some (0, t) \<and> dir_view d t (m(name \<mapsto> ino))))"
  using dir_lookup [OF assms] dir_delete [OF assms] dir_insert [OF assms] by blast

theorem ext2_directory_is_map_witness:
  "ext2_lookup 2 [0x61] small_dir = Some 0 \<and> ext2_remove_dir_entry 2 [0x61] small_dir = Some (-1, small_dir) \<and>
   (\<exists>t. ext2_add_dir_entry 2 12 [0x61] EXT2_FT_REG_FILE small_dir = Some (0, t) \<and> ext2_lookup 2 [0x61] t = Some 12 \<and>
      (\<exists>u. ext2_remove_dir_entry 2 [0x61] t = Some (0, u)))"
proof -
  have n: "name_ok [0x61]" by (simp add: name_ok_def)
  note W = ext2_directory_is_map [OF small_dir_view(1) n, of 12 EXT2_FT_REG_FILE]
  obtain t where t: "ext2_add_dir_entry 2 12 [0x61] EXT2_FT_REG_FILE small_dir = Some (0, t)" "dir_view 2 t (Map.empty([0x61] \<mapsto> 12))"
    using W small_dir_view(2) by auto
  from ext2_directory_is_map [OF t(2) n] t(1) W show ?thesis by auto
qed

section \<open>A damaged directory\<close>

text \<open>An entry of length zero at a place where the scan of a block starts.\<close>

definition stuck_at :: "ext2_inode \<Rightarrow> nat \<Rightarrow> ext2 \<Rightarrow> bool" where
  "stuck_at dir offset s \<longleftrightarrow> offset < unat (i_size dir) \<and> 0 < block_size s \<and>
     (case read_blk (ext2_get_block dir (offset div block_size s) s) s of
        None \<Rightarrow> False
      | Some b \<Rightarrow> ext2_get_block dir (offset div block_size s) s \<noteq> 0 \<and> de_rec_len (dec_dir_entry b (offset mod block_size s)) = 0)"

lemma lookup_loop_stuck:
  assumes "lookup_loop dir name offset s = Some i"
  shows "\<not> stuck_at dir offset s"
proof (rule lookup_loop.raw_induct [OF _ assms, of "\<lambda>dir name offset s i. \<not> stuck_at dir offset s"])
  fix f dir name offset s i
  assume IH: "\<And>dir name offset s i. f dir name offset s = Some i \<Longrightarrow> \<not> stuck_at dir offset s"
    and eq: "(if offset < unat (i_size dir) then
        (let disk_block = ext2_get_block dir (offset div block_size s) s in
         if disk_block = 0 then Some 0
         else (case read_blk disk_block s of
                 None \<Rightarrow> Some 0
               | Some b \<Rightarrow>
                   (case lookup_scan name b (block_size s) (unat (i_size dir)) offset (offset mod block_size s) of
                      (Some ino, _) \<Rightarrow> Some ino
                    | (None, offset') \<Rightarrow> f dir name offset' s)))
      else Some 0) = Some i"
  show "\<not> stuck_at dir offset s"
  proof
    assume st: "stuck_at dir offset s"
    then obtain b where b: "offset < unat (i_size dir)" "0 < block_size s" "ext2_get_block dir (offset div block_size s) s \<noteq> 0"
      "read_blk (ext2_get_block dir (offset div block_size s) s) s = Some b" "de_rec_len (dec_dir_entry b (offset mod block_size s)) = 0"
      by (auto simp: stuck_at_def split: option.splits)
    have "lookup_scan name b (block_size s) (unat (i_size dir)) offset (offset mod block_size s) = (None, offset)"
      using b(1,5) by (subst lookup_scan.simps) (simp add: Let_def)
    then have "f dir name offset s = Some i" using eq b by (simp add: Let_def)
    with IH st show False by blast
  qed
qed

text \<open>
  C40 A directory whose first block starts with an entry of length zero makes \<^verbatim>\<open>ext2_lookup\<close> loop for
  ever, whatever name is looked up.
\<close>

theorem ext2_lookup_never_returns:
  assumes "ext2_read_inode d s = Some dir" "i_mode dir AND EXT2_S_IFDIR \<noteq> 0" "stuck_at dir 0 s"
  shows "ext2_lookup d name s = None"
  using assms lookup_loop_stuck [of dir name 0 s] by (cases "lookup_loop dir name 0 s") (auto simp: ext2_lookup_def)

text \<open>A directory of one block of zeros.\<close>

definition zero_dir :: ext2 where
  "zero_dir = snd (ext2_write_inode 2 (inode_zero\<lparr>i_mode := 0x41ED, i_size := 1024, i_block := 11 # replicate 14 0\<rparr>) small_fs)"

lemma zero_dir_stuck:
  defines "n \<equiv> inode_zero\<lparr>i_mode := 0x41ED, i_size := 1024, i_block := 11 # replicate 14 0\<rparr>"
  shows "ext2_read_inode 2 zero_dir = Some n" "stuck_at n 0 zero_dir"
proof -
  let ?x = "blit (blk small_fs 5) 128 (enc_inode n)"
  have wf: "inode_wf n" by (simp add: n_def inode_wf_def inode_zero_def)
  have b5: "blk_ok small_fs 5" "blk_ok small_fs 11" by (simp_all add: blk_ok_def)
  have l: "length (blk small_fs 5) = 1024" "length (enc_inode n) = 128"
    using length_blk [OF small_fs_disk, of 5] length_enc_inode [OF wf] by simp_all
  have x: "length ?x = block_size small_fs" using l by simp
  have t: "zero_dir = put_blk 5 ?x small_fs"
    using read_blk_ok [OF small_fs_disk b5(1)] by (simp add: zero_dir_def n_def ext2_write_inode_def put_blk_def)
  note P = put_blk_ok [OF small_fs_disk b5(1) x, folded t]
  have il: "inode_loc 2 zero_dir = (5, 128)"
    unfolding t using small_fs_sel(9) by (simp add: inode_loc_def)
  have ok: "blk_ok zero_dir 5" "blk_ok zero_dir 11" "ext2_mounted zero_dir" "block_size zero_dir = 1024" using b5 by (simp_all add: t)
  have "slice 128 128 ?x = enc_inode n" using take_drop_blit [of 128 "enc_inode n" "blk small_fs 5"] l by (simp add: slice_def)
  then show "ext2_read_inode 2 zero_dir = Some n"
    using ok read_blk_ok [OF P(1) ok(1)] dec_enc_inode [OF wf] by (simp add: ext2_read_inode_def il P(2))
  have "[22..<24] = [22, 23 :: nat]" by (simp add: upt_rec)
  then have z: "blk small_fs 11 = replicate 1024 0" by (simp add: blk_def) (simp add: small_fs_def replicate_add [symmetric])
  have g: "ext2_get_block n 0 zero_dir = 11" by (simp add: ext2_get_block_def n_def)
  show "stuck_at n 0 zero_dir"
    using read_blk_ok [OF P(1) ok(2)] by (simp add: stuck_at_def g ok(4) P(2) z dec_dir_entry_def le16_def at_def) (simp add: n_def)
qed

theorem ext2_lookup_never_returns_witness: "ext2_lookup 2 [0x61] zero_dir = None"
  using ext2_lookup_never_returns [OF zero_dir_stuck(1) _ zero_dir_stuck(2), of "[0x61]"] by (simp add: EXT2_S_IFDIR_def)

end
