(* ===== verification/Vm.thy ===== *)
theory Vm
  imports Scheduler Ext2 "HOL-Library.Monad_Syntax"
begin

text \<open>
  Virtual memory, part one (\<^verbatim>\<open>kernel/memory/vmm.c\<close>, \<^verbatim>\<open>rmap.c\<close>, \<^verbatim>\<open>swap.c\<close>, the walk of
  \<^verbatim>\<open>user_vm.c\<close> and the whole of \<^verbatim>\<open>pmm_alloc_page\<close>). Physical memory is a function from
  addresses to bytes; page tables live in it, four levels deep, and a \<^verbatim>\<open>uint64_t *\<close> into a table is
  the physical address of the entry (the direct map adds a constant). \<^verbatim>\<open>CR3\<close> is a field of the
  scheduler state. The TLB is not modelled: every access walks the tables.
\<close>

section \<open>State\<close>

definition PTE_PRESENT :: u64 where "PTE_PRESENT = 0x1"
definition PTE_WRITABLE :: u64 where "PTE_WRITABLE = 0x2"
definition PTE_USER :: u64 where "PTE_USER = 0x4"
definition PTE_NOCACHE :: u64 where "PTE_NOCACHE = 0x10"
definition PTE_ACCESSED :: u64 where "PTE_ACCESSED = 0x20"
definition PTE_HUGE :: u64 where "PTE_HUGE = 0x80"
definition PTE_COW :: u64 where "PTE_COW = 0x200"
definition PTE_SWAPPED :: u64 where "PTE_SWAPPED = 0x400"
definition PTE_ADDR_MASK :: u64 where "PTE_ADDR_MASK = 0x000FFFFFFFFFF000"
definition KERNEL_VMA :: u64 where "KERNEL_VMA = 0xFFFFFFFF80000000"
definition RMAP_MAX_PAGES :: nat where "RMAP_MAX_PAGES = 131072"
definition SWAP_MAX_PAGES :: nat where "SWAP_MAX_PAGES = 4096"
definition SWAP_START_LBA :: u32 where "SWAP_START_LBA = 32768"

record rmap_entry =
  rm_pid :: u32
  rm_virt_addr :: u64

record vm =
  vm_sched :: sched
  vm_pmm :: pmm
  vm_mem :: mem
  rmap_table :: "nat \<Rightarrow> rmap_entry"
  swap_slots :: "nat \<Rightarrow> bool"
  swap_used :: u64
  swap_ready :: bool
  clock_hand :: nat
  vm_fs :: ext2

text \<open>Bytes stored at an address, and 64-bit accesses.\<close>

definition mem_put :: "nat \<Rightarrow> u8 list \<Rightarrow> mem \<Rightarrow> mem" where
  "mem_put a bs m = (\<lambda>x. if a \<le> x \<and> x < a + length bs then bs ! (x - a) else m x)"

definition get64 :: "nat \<Rightarrow> vm \<Rightarrow> u64" where
  "get64 a s = le64 (vm_mem s) a"

definition set64 :: "nat \<Rightarrow> u64 \<Rightarrow> vm \<Rightarrow> vm" where
  "set64 a w s = s\<lparr>vm_mem := mem_put a (enc64 w) (vm_mem s)\<rparr>"

definition page_bytes :: "nat \<Rightarrow> vm \<Rightarrow> u8 list" where
  "page_bytes phys s = map (vm_mem s) [phys..<phys + PAGE_SIZE]"

definition on_pmm :: "(pmm \<Rightarrow> pmm) \<Rightarrow> vm \<Rightarrow> vm" where
  "on_pmm f s = s\<lparr>vm_pmm := f (vm_pmm s)\<rparr>"

definition PML4_INDEX :: "u64 \<Rightarrow> nat" where "PML4_INDEX v = unat (drop_bit 39 v AND 0x1FF)"
definition PDPT_INDEX :: "u64 \<Rightarrow> nat" where "PDPT_INDEX v = unat (drop_bit 30 v AND 0x1FF)"
definition PD_INDEX :: "u64 \<Rightarrow> nat" where "PD_INDEX v = unat (drop_bit 21 v AND 0x1FF)"
definition PT_INDEX :: "u64 \<Rightarrow> nat" where "PT_INDEX v = unat (drop_bit 12 v AND 0x1FF)"

definition pte_phys :: "u64 \<Rightarrow> nat" where
  "pte_phys e = unat (e AND PTE_ADDR_MASK)"

definition present :: "u64 \<Rightarrow> bool" where
  "present e \<longleftrightarrow> e AND PTE_PRESENT \<noteq> 0"

section \<open>Walking page tables\<close>

definition user_vm_get_pte :: "nat \<Rightarrow> u64 \<Rightarrow> vm \<Rightarrow> nat option" where
  "user_vm_get_pte pml4 virt s =
     (let e4 = get64 (pml4 + 8 * PML4_INDEX virt) s in
      if \<not> present e4 then None
      else (let e3 = get64 (pte_phys e4 + 8 * PDPT_INDEX virt) s in
        if \<not> present e3 \<or> e3 AND PTE_HUGE \<noteq> 0 then None
        else (let e2 = get64 (pte_phys e3 + 8 * PD_INDEX virt) s in
          if \<not> present e2 \<or> e2 AND PTE_HUGE \<noteq> 0 then None
          else Some (pte_phys e2 + 8 * PT_INDEX virt))))"

section \<open>Reverse map\<close>

definition rmap_init :: "vm \<Rightarrow> vm" where
  "rmap_init s = s\<lparr>rmap_table := (\<lambda>_. \<lparr>rm_pid = 0, rm_virt_addr = 0\<rparr>)\<rparr>"

definition rmap_set :: "nat \<Rightarrow> u32 \<Rightarrow> u64 \<Rightarrow> vm \<Rightarrow> vm" where
  "rmap_set phys pid virt s =
     (let idx = phys div PAGE_SIZE in
      if idx < RMAP_MAX_PAGES
      then s\<lparr>rmap_table := (rmap_table s)(idx := \<lparr>rm_pid = pid, rm_virt_addr = virt\<rparr>)\<rparr> else s)"

definition rmap_clear :: "nat \<Rightarrow> vm \<Rightarrow> vm" where
  "rmap_clear phys s =
     (let idx = phys div PAGE_SIZE in
      if idx < RMAP_MAX_PAGES
      then s\<lparr>rmap_table := (rmap_table s)(idx := \<lparr>rm_pid = 0, rm_virt_addr = 0\<rparr>)\<rparr> else s)"

definition rmap_get :: "nat \<Rightarrow> vm \<Rightarrow> rmap_entry option" where
  "rmap_get phys s =
     (let idx = phys div PAGE_SIZE in
      if idx < RMAP_MAX_PAGES \<and> rm_pid (rmap_table s idx) \<noteq> 0 then Some (rmap_table s idx) else None)"

section \<open>Swap\<close>

definition swap_init :: "vm \<Rightarrow> vm" where
  "swap_init s = s\<lparr>swap_slots := (\<lambda>_. False), swap_used := 0, swap_ready := True\<rparr>"

definition swap_alloc_slot :: "vm \<Rightarrow> int \<times> vm" where
  "swap_alloc_slot s =
     (case find (\<lambda>i. \<not> swap_slots s i) [0..<SWAP_MAX_PAGES] of
        Some i \<Rightarrow> (int i, s\<lparr>swap_slots := (swap_slots s)(i := True), swap_used := swap_used s + 1\<rparr>)
      | None \<Rightarrow> (-1, s))"

definition swap_free_slot :: "int \<Rightarrow> vm \<Rightarrow> vm" where
  "swap_free_slot slot s =
     (if slot \<ge> 0 \<and> slot < int SWAP_MAX_PAGES \<and> swap_slots s (nat slot)
      then s\<lparr>swap_slots := (swap_slots s)(nat slot := False), swap_used := swap_used s - 1\<rparr> else s)"

definition swap_lba :: "int \<Rightarrow> u32" where
  "swap_lba slot = SWAP_START_LBA + of_int slot * 8"

definition swap_write_page :: "int \<Rightarrow> nat \<Rightarrow> vm \<Rightarrow> int \<times> vm" where
  "swap_write_page slot phys s =
     (case ata_write_sectors (swap_lba slot) 8 (page_bytes phys s) (e2_disk (vm_fs s)) of
        (r, d) \<Rightarrow> (r, s\<lparr>vm_fs := (vm_fs s)\<lparr>e2_disk := d\<rparr>\<rparr>))"

definition swap_read_page :: "int \<Rightarrow> nat \<Rightarrow> vm \<Rightarrow> int \<times> vm" where
  "swap_read_page slot phys s =
     (case ata_read_sectors (swap_lba slot) 8 (e2_disk (vm_fs s)) of
        (r, bs) \<Rightarrow> (r, s\<lparr>vm_mem := mem_put phys bs (vm_mem s)\<rparr>))"

text \<open>
  One turn of the loop of \<^verbatim>\<open>swap_evict_one\<close>: \<open>Inl\<close> when it continues with the next frame, \<open>Inr\<close> with
  the result when the function returns.
\<close>

definition evict_step :: "nat \<Rightarrow> vm \<Rightarrow> vm + (int \<times> vm)" where
  "evict_step page_idx s =
     (let phys = page_idx * PAGE_SIZE in
      if pmm_page_refcount phys (vm_pmm s) \<noteq> 1 then Inl s
      else (case rmap_get phys s of
        None \<Rightarrow> Inl s
      | Some rm \<Rightarrow>
          (case process_get_by_pid (rm_pid rm) (vm_sched s) of
             None \<Rightarrow> Inl s
           | Some i \<Rightarrow>
               (let cr = p_cr3 (procs (vm_sched s) ! i) in
                if cr = 0 then Inl s
                else (case user_vm_get_pte (unat cr) (rm_virt_addr rm) s of
                  None \<Rightarrow> Inl s
                | Some a \<Rightarrow>
                    (let pte = get64 a s in
                     if \<not> present pte then Inl s
                     else if pte AND PTE_ACCESSED \<noteq> 0 then Inl (set64 a (pte AND NOT PTE_ACCESSED) s)
                     else (case swap_alloc_slot s of (slot, s1) \<Rightarrow>
                       if slot < 0 then Inr (-1, s1)
                       else (case swap_write_page slot phys s1 of (r, s2) \<Rightarrow>
                         if r < 0 then Inr (-1, swap_free_slot slot s2)
                         else Inr (0, (on_pmm (pmm_page_unref phys) (rmap_clear phys
                                        (set64 a (push_bit 12 (of_int slot) OR PTE_SWAPPED) s2)))
                                        \<lparr>clock_hand := (page_idx + 1) mod total_pages (vm_pmm s2)\<rparr>))))))))) "

fun evict_loop :: "nat list \<Rightarrow> vm \<Rightarrow> int \<times> vm" where
  "evict_loop [] s = (-1, s)"
| "evict_loop (i # is) s = (case evict_step i s of Inl s1 \<Rightarrow> evict_loop is s1 | Inr res \<Rightarrow> res)"

definition swap_evict_one :: "vm \<Rightarrow> int \<times> vm" where
  "swap_evict_one s =
     (if \<not> swap_ready s then (-1, s)
      else (let total = total_pages (vm_pmm s) in
            evict_loop (map (\<lambda>j. (clock_hand s + j) mod total) [0..<total * 2]) s))"

section \<open>Allocation of frames\<close>

fun evict_some :: "nat \<Rightarrow> vm \<Rightarrow> vm" where
  "evict_some 0 s = s"
| "evict_some (Suc k) s =
     (if free_pages (vm_pmm s) < SWAP_LOW_WATERMARK then evict_some k (snd (swap_evict_one s)) else s)"

definition pmm_alloc_page :: "vm \<Rightarrow> nat \<times> vm" where
  "pmm_alloc_page s =
     (let s1 = evict_some 8 s in
      case pmm_alloc_scan (vm_pmm s1) of (phys, p) \<Rightarrow> (phys, s1\<lparr>vm_pmm := p\<rparr>))"

definition alloc_zeroed_page :: "vm \<Rightarrow> nat \<times> vm" where
  "alloc_zeroed_page s =
     (case pmm_alloc_page s of (phys, s1) \<Rightarrow>
        if phys = 0 then (0, s1) else (phys, s1\<lparr>vm_mem := memset phys 0 PAGE_SIZE (vm_mem s1)\<rparr>))"

text \<open>A fault on a page in swap.\<close>

definition swap_handle_fault :: "nat \<Rightarrow> u64 \<Rightarrow> vm \<Rightarrow> int \<times> vm" where
  "swap_handle_fault pml4 fault_addr s =
     (if \<not> swap_ready s then (-1, s)
      else
        (let page_addr = fault_addr AND NOT 4095 in
         case user_vm_get_pte pml4 page_addr s of
           None \<Rightarrow> (-1, s)
         | Some a \<Rightarrow>
             if get64 a s AND PTE_SWAPPED = 0 \<or> present (get64 a s) then (-1, s)
             else
               (let slot = sint (ucast (drop_bit 12 (get64 a s)) :: u32);
                    (p1, s1) = pmm_alloc_page s;
                    (new_phys, s2) =
                      (if p1 \<noteq> 0 then (p1, s1)
                       else (case swap_evict_one s1 of (r, s1') \<Rightarrow> if r = 0 then pmm_alloc_page s1' else (0, s1')))
                in if new_phys = 0 then (-1, s2)
                   else
                     (case swap_read_page slot new_phys s2 of (r, s3) \<Rightarrow>
                        if r < 0 then (-1, on_pmm (pmm_page_unref new_phys) s3)
                        else
                          (let s4 = set64 a (of_nat new_phys OR PTE_PRESENT OR PTE_USER OR PTE_WRITABLE) s3;
                               s5 = swap_free_slot slot s4
                           in (0, (case first_idx (\<lambda>p. p_cr3 p = of_nat pml4 \<and> p_state p \<noteq> PROCESS_UNUSED) (procs (vm_sched s5)) of
                                     Some i \<Rightarrow> rmap_set new_phys (p_pid (procs (vm_sched s5) ! i)) page_addr s5
                                   | None \<Rightarrow> s5))))))) "

definition swap_get_used :: "vm \<Rightarrow> u64" where
  "swap_get_used s = swap_used s"

section \<open>Kernel mappings\<close>

definition alloc_table :: "vm \<Rightarrow> nat \<times> vm" where
  "alloc_table s =
     (case pmm_alloc_page s of (phys, s1) \<Rightarrow>
        if phys = 0 then (0, s1) else (phys, s1\<lparr>vm_mem := memset phys 0 PAGE_SIZE (vm_mem s1)\<rparr>))"

text \<open>One level of \<^verbatim>\<open>vmm_walk\<close>: the entry at \<open>a\<close>, made to point to a new table when absent.\<close>

definition walk_level :: "bool \<Rightarrow> nat \<Rightarrow> vm \<Rightarrow> nat option \<times> vm" where
  "walk_level create a s =
     (if present (get64 a s) then (Some (pte_phys (get64 a s)), s)
      else if \<not> create then (None, s)
      else (case alloc_table s of (phys, s1) \<Rightarrow>
              if phys = 0 then (None, s1)
              else (let s2 = set64 a (of_nat phys OR PTE_PRESENT OR PTE_WRITABLE) s1
                    in (Some (pte_phys (get64 a s2)), s2))))"

definition vmm_walk :: "u64 \<Rightarrow> bool \<Rightarrow> vm \<Rightarrow> nat option \<times> vm" where
  "vmm_walk virt create s =
     (case walk_level create (pte_phys (cr3 (vm_sched s)) + 8 * PML4_INDEX virt) s of
        (None, s1) \<Rightarrow> (None, s1)
      | (Some pdpt, s1) \<Rightarrow>
          (case walk_level create (pdpt + 8 * PDPT_INDEX virt) s1 of
             (None, s2) \<Rightarrow> (None, s2)
           | (Some pd, s2) \<Rightarrow>
               (case walk_level create (pd + 8 * PD_INDEX virt) s2 of
                  (None, s3) \<Rightarrow> (None, s3)
                | (Some pt, s3) \<Rightarrow> (Some (pt + 8 * PT_INDEX virt), s3))))"

definition vmm_map_page :: "u64 \<Rightarrow> u64 \<Rightarrow> u64 \<Rightarrow> vm \<Rightarrow> int \<times> vm" where
  "vmm_map_page virt phys flags s =
     (case vmm_walk virt True s of
        (None, s1) \<Rightarrow> (-1, s1)
      | (Some a, s1) \<Rightarrow> (0, set64 a (phys AND PTE_ADDR_MASK OR flags OR PTE_PRESENT) s1))"

definition vmm_unmap_page :: "u64 \<Rightarrow> vm \<Rightarrow> vm" where
  "vmm_unmap_page virt s =
     (case vmm_walk virt False s of (None, s1) \<Rightarrow> s1 | (Some a, s1) \<Rightarrow> set64 a 0 s1)"

definition vmm_get_physical :: "u64 \<Rightarrow> vm \<Rightarrow> u64 \<times> vm" where
  "vmm_get_physical virt s =
     (case vmm_walk virt False s of
        (None, s1) \<Rightarrow> (0, s1)
      | (Some a, s1) \<Rightarrow>
          (if \<not> present (get64 a s1) then (0, s1)
           else (get64 a s1 AND PTE_ADDR_MASK OR virt AND 0xFFF, s1)))"

fun vmm_map_range :: "u64 \<Rightarrow> u64 \<Rightarrow> nat \<Rightarrow> u64 \<Rightarrow> vm \<Rightarrow> vm" where
  "vmm_map_range phys_base virt_base 0 flags s = s"
| "vmm_map_range phys_base virt_base (Suc n) flags s =
     (let s1 = vmm_map_range phys_base virt_base n flags s in
      snd (vmm_map_page (virt_base + of_nat n * 4096) (phys_base + of_nat n * 4096) flags s1))"

end
