(* ===== verification/UserVm.thy ===== *)
theory UserVm
  imports Vm
begin

text \<open>
  User address spaces (\<^verbatim>\<open>kernel/memory/user_vm.c\<close>): creation, mapping of pages, copy-on-write fork,
  the copy-on-write fault and destruction. An address space is named by the physical address of its
  top-level table.
\<close>

section \<open>Creation and mapping\<close>

fun copy_entries :: "nat \<Rightarrow> nat \<Rightarrow> nat list \<Rightarrow> vm \<Rightarrow> vm" where
  "copy_entries dst src [] s = s"
| "copy_entries dst src (i # is) s = copy_entries dst src is (set64 (dst + 8 * i) (get64 (src + 8 * i) s) s)"

definition user_vm_create_address_space :: "vm \<Rightarrow> nat \<times> vm" where
  "user_vm_create_address_space s =
     (case alloc_zeroed_page s of (pml4, s1) \<Rightarrow>
        if pml4 = 0 then (0, s1)
        else (pml4, copy_entries pml4 (pte_phys (cr3 (vm_sched s1))) [256..<512] s1))"

text \<open>One level of the walk of \<^verbatim>\<open>user_vm_map_page\<close>; every level becomes accessible to user mode.\<close>

definition user_level :: "nat \<Rightarrow> vm \<Rightarrow> nat option \<times> vm" where
  "user_level a s =
     (if \<not> present (get64 a s) then
        (case alloc_zeroed_page s of (table, s1) \<Rightarrow>
           if table = 0 then (None, s1)
           else (let s2 = set64 a (of_nat table OR PTE_PRESENT OR PTE_WRITABLE OR PTE_USER) s1
                 in (Some (pte_phys (get64 a s2)), s2)))
      else (let s2 = set64 a (get64 a s OR PTE_USER OR PTE_WRITABLE) s in (Some (pte_phys (get64 a s2)), s2)))"

definition user_vm_map_page :: "nat \<Rightarrow> u64 \<Rightarrow> u64 \<Rightarrow> u64 \<Rightarrow> vm \<Rightarrow> int \<times> vm" where
  "user_vm_map_page pml4 virt phys flags s =
     (case user_level (pml4 + 8 * PML4_INDEX virt) s of
        (None, s1) \<Rightarrow> (-1, s1)
      | (Some pdpt, s1) \<Rightarrow>
          (case user_level (pdpt + 8 * PDPT_INDEX virt) s1 of
             (None, s2) \<Rightarrow> (-1, s2)
           | (Some pd, s2) \<Rightarrow>
               (case user_level (pd + 8 * PD_INDEX virt) s2 of
                  (None, s3) \<Rightarrow> (-1, s3)
                | (Some pt, s3) \<Rightarrow>
                    (let s4 = set64 (pt + 8 * PT_INDEX virt) (phys AND PTE_ADDR_MASK OR flags OR PTE_PRESENT) s3
                     in (0, if virt < KERNEL_VMA
                            then (case current_process (vm_sched s4) of
                                    Some i \<Rightarrow> rmap_set (unat phys) (p_pid (procs (vm_sched s4) ! i)) virt s4
                                  | None \<Rightarrow> s4)
                            else s4)))))"

section \<open>Fork\<close>

text \<open>A loop whose body may end the function: \<open>False\<close> stands for the early return.\<close>

fun while_ok :: "(nat \<Rightarrow> 's \<Rightarrow> bool \<times> 's) \<Rightarrow> nat list \<Rightarrow> 's \<Rightarrow> bool \<times> 's" where
  "while_ok f [] s = (True, s)"
| "while_ok f (i # is) s = (case f i s of (ok, s1) \<Rightarrow> if ok then while_ok f is s1 else (False, s1))"

definition fork_leaf :: "nat \<Rightarrow> u64 \<Rightarrow> nat \<Rightarrow> vm \<Rightarrow> bool \<times> vm" where
  "fork_leaf child virt a s =
     (if \<not> present (get64 a s) then (True, s)
      else
        (let phys = get64 a s AND PTE_ADDR_MASK;
             flags = get64 a s AND NOT PTE_ADDR_MASK;
             cow = (flags AND NOT PTE_WRITABLE) OR PTE_COW;
             (flags', s1) = (if flags AND PTE_WRITABLE \<noteq> 0 then (cow, set64 a (phys AND PTE_ADDR_MASK OR cow) s) else (flags, s));
             s2 = on_pmm (pmm_page_ref (unat phys)) s1
         in case user_vm_map_page child virt phys flags' s2 of (r, s3) \<Rightarrow> (\<not> r < 0, s3)))"

definition fork_pt :: "nat \<Rightarrow> u64 \<Rightarrow> nat \<Rightarrow> vm \<Rightarrow> bool \<times> vm" where
  "fork_pt child base pt s = while_ok (\<lambda>i. fork_leaf child (base OR push_bit 12 (of_nat i)) (pt + 8 * i)) [0..<512] s"

definition fork_pd :: "nat \<Rightarrow> u64 \<Rightarrow> nat \<Rightarrow> vm \<Rightarrow> bool \<times> vm" where
  "fork_pd child base pd s =
     while_ok (\<lambda>i s. let e = get64 (pd + 8 * i) s in
                     if \<not> present e \<or> e AND PTE_HUGE \<noteq> 0 then (True, s)
                     else fork_pt child (base OR push_bit 21 (of_nat i)) (pte_phys e) s) [0..<512] s"

definition fork_pdpt :: "nat \<Rightarrow> u64 \<Rightarrow> nat \<Rightarrow> vm \<Rightarrow> bool \<times> vm" where
  "fork_pdpt child base pdpt s =
     while_ok (\<lambda>i s. let e = get64 (pdpt + 8 * i) s in
                     if \<not> present e \<or> e AND PTE_HUGE \<noteq> 0 then (True, s)
                     else fork_pd child (base OR push_bit 30 (of_nat i)) (pte_phys e) s) [0..<512] s"

definition user_vm_fork_address_space :: "nat \<Rightarrow> vm \<Rightarrow> nat \<times> vm" where
  "user_vm_fork_address_space parent s =
     (case user_vm_create_address_space s of (child, s1) \<Rightarrow>
        if child = 0 then (0, s1)
        else
          (case while_ok (\<lambda>i s. let e = get64 (parent + 8 * i) s in
                                if \<not> present e then (True, s)
                                else fork_pdpt child (push_bit 39 (of_nat i)) (pte_phys e) s) [0..<256] s1 of
             (ok, s2) \<Rightarrow> (if ok then child else 0, s2)))"

section \<open>Destruction\<close>

definition destroy_leaf :: "nat \<Rightarrow> vm \<Rightarrow> vm" where
  "destroy_leaf a s =
     (if \<not> present (get64 a s) then s
      else (let leaf = pte_phys (get64 a s) in on_pmm (pmm_page_unref leaf) (rmap_clear leaf s)))"

definition destroy_pt :: "nat \<Rightarrow> vm \<Rightarrow> vm" where
  "destroy_pt pt s = on_pmm (pmm_free_page pt) (fold (\<lambda>i. destroy_leaf (pt + 8 * i)) [0..<512] s)"

definition destroy_pd :: "nat \<Rightarrow> vm \<Rightarrow> vm" where
  "destroy_pd pd s =
     on_pmm (pmm_free_page pd)
       (fold (\<lambda>i s. let e = get64 (pd + 8 * i) s in
                    if \<not> present e \<or> e AND PTE_HUGE \<noteq> 0 then s else destroy_pt (pte_phys e) s) [0..<512] s)"

definition destroy_pdpt :: "nat \<Rightarrow> vm \<Rightarrow> vm" where
  "destroy_pdpt pdpt s =
     on_pmm (pmm_free_page pdpt)
       (fold (\<lambda>i s. let e = get64 (pdpt + 8 * i) s in
                    if \<not> present e \<or> e AND PTE_HUGE \<noteq> 0 then s else destroy_pd (pte_phys e) s) [0..<512] s)"

definition user_vm_destroy_address_space :: "nat \<Rightarrow> vm \<Rightarrow> vm" where
  "user_vm_destroy_address_space pml4 s =
     on_pmm (pmm_free_page pml4)
       (fold (\<lambda>i s. let e = get64 (pml4 + 8 * i) s in
                    if \<not> present e then s else destroy_pdpt (pte_phys e) s) [0..<256] s)"

section \<open>Copy on write\<close>

definition cow_handle_fault :: "nat \<Rightarrow> u64 \<Rightarrow> vm \<Rightarrow> int \<times> vm" where
  "cow_handle_fault pml4 fault_addr s =
     (case user_vm_get_pte pml4 fault_addr s of
        None \<Rightarrow> (-1, s)
      | Some a \<Rightarrow>
          (let pte = get64 a s in
           if \<not> present pte \<or> pte AND PTE_COW = 0 then (-1, s)
           else
             (let old = pte AND PTE_ADDR_MASK; flags = pte AND NOT PTE_ADDR_MASK;
                  new_flags = (flags AND NOT PTE_COW) OR PTE_WRITABLE
              in if pmm_page_refcount (unat old) (vm_pmm s) = 1
                 then (0, set64 a (old AND PTE_ADDR_MASK OR new_flags) s)
                 else (case pmm_alloc_page s of (new, s1) \<Rightarrow>
                         if new = 0 then (-1, s1)
                         else (let s2 = s1\<lparr>vm_mem := memcpy new (unat old) PAGE_SIZE (vm_mem s1)\<rparr>;
                                   s3 = on_pmm (pmm_page_unref (unat old)) s2
                               in (0, set64 a (of_nat new AND PTE_ADDR_MASK OR new_flags) s3))))))"

end
