(* ===== verification/Mmap.thy ===== *)
theory Mmap
  imports UserVm Signal
begin

text \<open>
  Memory regions of a process (\<^verbatim>\<open>kernel/memory/mmap.c\<close>) and the page-fault handler
  (\<^verbatim>\<open>kernel/interrupts/interrupts.c\<close>). A \<^verbatim>\<open>vma_t *\<close> is the index of the region in the table of its
  process. Regions end far below \<open>2 ^ 64\<close>, so the loops over their pages run on natural numbers.
\<close>

definition PROT_WRITE :: u32 where "PROT_WRITE = 2"
definition MAP_SHARED :: u32 where "MAP_SHARED = 1"

definition vma_find :: "process \<Rightarrow> u64 \<Rightarrow> nat option" where
  "vma_find p addr = first_idx (\<lambda>v. vma_in_use v \<and> addr \<ge> vma_start v \<and> addr < vma_end v) (p_vmas p)"

definition vma_alloc :: "process \<Rightarrow> nat option" where
  "vma_alloc p = first_idx (\<lambda>v. \<not> vma_in_use v) (p_vmas p)"

section \<open>Finding a free range\<close>

definition overlaps :: "u64 \<Rightarrow> u64 \<Rightarrow> vma \<Rightarrow> bool" where
  "overlaps base len v \<longleftrightarrow> vma_in_use v \<and> base < vma_end v \<and> base + len > vma_start v"

function free_range_loop :: "vma list \<Rightarrow> u64 \<Rightarrow> u64 \<Rightarrow> u64" where
  "free_range_loop vs base len =
     (if base + len > MMAP_TOP then 0
      else (case find (overlaps base len) vs of
              None \<Rightarrow> base
            | Some v \<Rightarrow> free_range_loop vs (vma_end v) len))"
  by pat_completeness auto
termination
proof (relation "measure (\<lambda>(vs, base, len). length (filter (\<lambda>v. vma_in_use v \<and> base < vma_end v) vs))")
  fix vs :: "vma list" and base len :: u64 and v
  assume "find (overlaps base len) vs = Some v"
  then have v: "v \<in> set vs" "vma_in_use v" "base < vma_end v" by (auto simp: find_Some_iff overlaps_def)
  let ?P = "\<lambda>b v. vma_in_use v \<and> b < vma_end v"
  have "filter (?P (vma_end v)) vs = filter (?P (vma_end v)) (filter (?P base) vs)"
    using v(3) by (auto intro!: filter_cong)
  moreover have "length (filter (?P (vma_end v)) (filter (?P base) vs)) < length (filter (?P base) vs)"
    by (rule length_filter_less [of v]) (use v in auto)
  ultimately have "length (filter (?P (vma_end v)) vs) < length (filter (?P base) vs)" by simp
  then show "((vs, vma_end v, len), vs, base, len)
      \<in> measure (\<lambda>(vs, base, len). length (filter (\<lambda>v. vma_in_use v \<and> base < vma_end v) vs))" by simp
qed simp

declare free_range_loop.simps [simp del]

definition vma_find_free_range :: "process \<Rightarrow> u64 \<Rightarrow> u64 \<Rightarrow> u64" where
  "vma_find_free_range p hint len =
     (let base = (if hint \<noteq> 0 \<and> hint \<ge> MMAP_BASE \<and> hint < MMAP_TOP then hint else p_mmap_next p)
      in free_range_loop (p_vmas p) ((base + 4095) AND NOT 4095) len)"

section \<open>Demand paging\<close>

abbreviation proc_of :: "vm \<Rightarrow> nat \<Rightarrow> process" where
  "proc_of s i \<equiv> procs (vm_sched s) ! i"

definition on_proc :: "nat \<Rightarrow> (process \<Rightarrow> process) \<Rightarrow> vm \<Rightarrow> vm" where
  "on_proc i f s = s\<lparr>vm_sched := upd_proc i f (vm_sched s)\<rparr>"

definition on_vma :: "nat \<Rightarrow> nat \<Rightarrow> (vma \<Rightarrow> vma) \<Rightarrow> vm \<Rightarrow> vm" where
  "on_vma i k f = on_proc i (\<lambda>p. p\<lparr>p_vmas := upd_nth k f (p_vmas p)\<rparr>)"

definition prot_flags :: "u32 \<Rightarrow> u64" where
  "prot_flags prot = (if prot AND PROT_WRITE \<noteq> 0 then PTE_PRESENT OR PTE_USER OR PTE_WRITABLE else PTE_PRESENT OR PTE_USER)"

definition shared_fault :: "nat \<Rightarrow> nat \<Rightarrow> u64 \<Rightarrow> vm \<Rightarrow> int \<times> vm" where
  "shared_fault i k page s =
     (let v = p_vmas (proc_of s i) ! k in
      if vma_shared_phys v \<noteq> 0
      then user_vm_map_page (unat (p_cr3 (proc_of s i))) page (vma_shared_phys v) (prot_flags (vma_prot v)) s
      else (case alloc_zeroed_page s of (phys, s1) \<Rightarrow>
              if phys = 0 then (-1, s1)
              else user_vm_map_page (unat (p_cr3 (proc_of s1 i))) page (of_nat phys) (prot_flags (vma_prot v))
                     (on_vma i k (\<lambda>v. v\<lparr>vma_shared_phys := of_nat phys\<rparr>) s1)))"

text \<open>The contents of a fresh frame: file data, a part of the program image, or zeros.\<close>

definition fill_page :: "vma \<Rightarrow> u64 \<Rightarrow> nat \<Rightarrow> vm \<Rightarrow> vm" where
  "fill_page v page phys s =
     (case vma_type v of
        VMA_FILE \<Rightarrow>
          (case ext2_read_inode (vma_file_inode v) (vm_fs s) of
             None \<Rightarrow> s
           | Some inode \<Rightarrow>
               (let off = vma_file_offset v + (page - vma_start v) in
                s\<lparr>vm_mem := mem_put phys (snd (ext2_read_file inode (unat off) PAGE_SIZE (vm_fs s))) (vm_mem s)\<rparr>))
      | VMA_ELF \<Rightarrow>
          (case vma_elf_data v of
             None \<Rightarrow> s
           | Some data \<Rightarrow>
               (let off = page - vma_elf_vaddr v in
                if off < vma_elf_data_filesz v
                then s\<lparr>vm_mem := mem_put phys (slice (unat off) (min (unat (vma_elf_data_filesz v - off)) PAGE_SIZE) data) (vm_mem s)\<rparr>
                else s))
      | _ \<Rightarrow> s)"

definition vma_handle_fault :: "nat \<Rightarrow> u64 \<Rightarrow> bool \<Rightarrow> vm \<Rightarrow> int \<times> vm" where
  "vma_handle_fault i fault_addr is_write s =
     (case vma_find (proc_of s i) fault_addr of
        None \<Rightarrow> (-1, s)
      | Some k \<Rightarrow>
          (let v = p_vmas (proc_of s i) ! k; page = fault_addr AND NOT 4095 in
           if is_write \<and> vma_prot v AND PROT_WRITE = 0 then (-1, s)
           else if vma_flags v AND MAP_SHARED \<noteq> 0 \<and> vma_type v = VMA_ANON then shared_fault i k page s
           else
             (case alloc_zeroed_page s of (phys, s1) \<Rightarrow>
                if phys = 0 then (-1, s1)
                else if vma_type v = VMA_DEVICE then
                  user_vm_map_page (unat (p_cr3 (proc_of s1 i))) page (vma_dev_phys_base v + (page - vma_start v))
                    (prot_flags (vma_prot v) OR PTE_NOCACHE) (on_pmm (pmm_page_unref phys) s1)
                else user_vm_map_page (unat (p_cr3 (proc_of s1 i))) page (of_nat phys) (prot_flags (vma_prot v)) (fill_page v page phys s1))))"

section \<open>Changing regions\<close>

function pages :: "(u64 \<Rightarrow> 's \<Rightarrow> 's) \<Rightarrow> nat \<Rightarrow> nat \<Rightarrow> 's \<Rightarrow> 's" where
  "pages f pg lim s = (if pg < lim then pages f (pg + PAGE_SIZE) lim (f (of_nat pg) s) else s)"
  by pat_completeness auto
termination
  by (relation "measure (\<lambda>(f, pg, lim, s). lim - pg)") (auto simp: PAGE_SIZE_def)

declare pages.simps [simp del]

definition touches :: "u64 \<Rightarrow> u64 \<Rightarrow> vma \<Rightarrow> bool" where
  "touches addr lim v \<longleftrightarrow> vma_in_use v \<and> \<not> (vma_start v \<ge> lim \<or> vma_end v \<le> addr)"

definition unmap_one :: "nat \<Rightarrow> u64 \<Rightarrow> vm \<Rightarrow> vm" where
  "unmap_one pml4 pg s =
     (case user_vm_get_pte pml4 pg s of
        None \<Rightarrow> s
      | Some a \<Rightarrow> if present (get64 a s) then set64 a 0 (on_pmm (pmm_page_unref (pte_phys (get64 a s))) s) else s)"

definition vma_unmap :: "nat \<Rightarrow> u64 \<Rightarrow> u64 \<Rightarrow> vm \<Rightarrow> int \<times> vm" where
  "vma_unmap i addr len s =
     (let lim = (addr + len + 4095) AND NOT 4095; a = addr AND NOT 4095 in
      (0, fold (\<lambda>k s. let v = p_vmas (proc_of s i) ! k in
                      if touches a lim v
                      then on_vma i k (\<lambda>v. v\<lparr>vma_in_use := False\<rparr>)
                             (pages (unmap_one (unat (p_cr3 (proc_of s i)))) (unat (vma_start v)) (unat (vma_end v)) s)
                      else s) [0..<VMA_MAX] s))"

definition protect_one :: "nat \<Rightarrow> u32 \<Rightarrow> u64 \<Rightarrow> vm \<Rightarrow> vm" where
  "protect_one pml4 prot pg s =
     (case user_vm_get_pte pml4 pg s of
        None \<Rightarrow> s
      | Some a \<Rightarrow> if present (get64 a s) then set64 a (get64 a s AND PTE_ADDR_MASK OR prot_flags prot) s else s)"

definition vma_protect :: "nat \<Rightarrow> u64 \<Rightarrow> u64 \<Rightarrow> u32 \<Rightarrow> vm \<Rightarrow> int \<times> vm" where
  "vma_protect i addr len prot s =
     (let lim = (addr + len + 4095) AND NOT 4095; a = addr AND NOT 4095 in
      (0, fold (\<lambda>k s. let v = p_vmas (proc_of s i) ! k in
                      if touches a lim v
                      then pages (protect_one (unat (p_cr3 (proc_of s i))) prot) (unat (vma_start v)) (unat (vma_end v))
                             (on_vma i k (\<lambda>v. v\<lparr>vma_prot := prot\<rparr>) s)
                      else s) [0..<VMA_MAX] s))"

definition vma_fork_copy :: "process \<Rightarrow> process \<Rightarrow> process" where
  "vma_fork_copy parent child =
     child\<lparr>p_vmas := p_vmas parent, p_mmap_next := p_mmap_next parent,
           p_brk_start := p_brk_start parent, p_brk_current := p_brk_current parent\<rparr>"

text \<open>The buffers that \<^verbatim>\<open>vma_destroy_all\<close> gives back to the heap, and the process afterwards.\<close>

definition vma_destroy_all :: "process \<Rightarrow> u8 list list \<times> process" where
  "vma_destroy_all p =
     (map (\<lambda>v. the (vma_elf_data v))
        (filter (\<lambda>v. vma_in_use v \<and> vma_type v = VMA_ELF \<and> vma_elf_data_owned v \<and> vma_elf_data v \<noteq> None) (p_vmas p)),
      p\<lparr>p_vmas := map (\<lambda>v. v\<lparr>vma_in_use := False\<rparr>) (p_vmas p), p_mmap_next := MMAP_BASE\<rparr>)"

section \<open>The page-fault handler\<close>

datatype fault_outcome = Resumed | Killed | Panic

definition kill_user_process :: "nat \<Rightarrow> nat \<Rightarrow> sched \<Rightarrow> sched" where
  "kill_user_process i sig s =
     (let s1 = sig_terminate i sig s;
          s2 = signal_send (p_ppid (procs s1 ! i)) (int SIGCHLD) s1
      in schedule (wake_waiting_parent i s2))"

text \<open>A fault in user space is tried as copy-on-write, as demand paging and as a page in swap.\<close>

definition resolve_fault :: "u64 \<Rightarrow> u64 \<Rightarrow> vm \<Rightarrow> bool \<times> vm" where
  "resolve_fault err cr2 s =
     (case current_process (vm_sched s) of
        None \<Rightarrow> (False, s)
      | Some i \<Rightarrow>
          (let cr = p_cr3 (proc_of s i) in
           if cr = 0 \<or> \<not> cr2 < KERNEL_VMA then (False, s)
           else if err AND 3 = 3 then (case cow_handle_fault (unat cr) cr2 s of (r, s1) \<Rightarrow> (r = 0, s1))
           else if err AND 1 = 0 then
             (case vma_handle_fault i cr2 (err AND 2 \<noteq> 0) s of (r, s1) \<Rightarrow>
                if r = 0 then (True, s1)
                else (case swap_handle_fault (unat cr) cr2 s1 of (r, s2) \<Rightarrow> (r = 0, s2)))
           else (False, s)))"

definition page_fault_handler :: "u64 \<Rightarrow> u64 \<Rightarrow> vm \<Rightarrow> fault_outcome \<times> vm" where
  "page_fault_handler err cr2 s =
     (case resolve_fault err cr2 s of (ok, s1) \<Rightarrow>
        if ok then (Resumed, s1)
        else if err AND 4 \<noteq> 0 then
          (case current_process (vm_sched s1) of
             Some i \<Rightarrow> if p_is_user (proc_of s1 i) then (Killed, s1\<lparr>vm_sched := kill_user_process i 11 (vm_sched s1)\<rparr>) else (Panic, s1)
           | None \<Rightarrow> (Panic, s1))
        else (Panic, s1))"

definition user_exception :: "nat \<Rightarrow> interrupt_frame \<Rightarrow> vm \<Rightarrow> fault_outcome \<times> vm" where
  "user_exception sig fr s =
     (case current_process (vm_sched s) of
        Some i \<Rightarrow> if p_is_user (proc_of s i) \<and> f_cs fr AND 3 \<noteq> 0
                   then (Killed, s\<lparr>vm_sched := kill_user_process i sig (vm_sched s)\<rparr>) else (Panic, s)
      | None \<Rightarrow> (Panic, s))"

definition div_zero_handler :: "interrupt_frame \<Rightarrow> vm \<Rightarrow> fault_outcome \<times> vm" where
  "div_zero_handler = user_exception 8"

definition gpf_handler :: "interrupt_frame \<Rightarrow> vm \<Rightarrow> fault_outcome \<times> vm" where
  "gpf_handler = user_exception 11"

end
