(* ===== verification/MmapSpec.thy ===== *)
theory MmapSpec
  imports Mmap
begin

text \<open>Address ranges: \<^verbatim>\<open>vma_find_free_range\<close> is first fit.\<close>

section \<open>First fit\<close>

text \<open>Nothing of \<open>[base, base + len)\<close> is in a region that is in use.\<close>

definition range_free :: "vma list \<Rightarrow> nat \<Rightarrow> nat \<Rightarrow> bool" where
  "range_free vs base len \<longleftrightarrow>
     (\<forall>v\<in>set vs. vma_in_use v \<longrightarrow> {base..<base + len} \<inter> {unat (vma_start v)..<unat (vma_end v)} = {})"

definition vmas_ok :: "vma list \<Rightarrow> bool" where
  "vmas_ok vs \<longleftrightarrow> (\<forall>v\<in>set vs. vma_in_use v \<longrightarrow> vma_start v < vma_end v \<and> vma_end v \<le> MMAP_TOP)"

lemma unat_MMAP_TOP: "unat MMAP_TOP = 0x7FC0000000"
  by (simp add: MMAP_TOP_def)

lemma range_end:
  fixes base len :: u64
  assumes "unat base \<le> 2 ^ 63" "unat len \<le> unat MMAP_TOP"
  shows "unat (base + len) = unat base + unat len"
  using assms by (simp add: unat_word_ariths unat_MMAP_TOP)

lemma overlaps_iff:
  assumes "unat base \<le> 2 ^ 63" "unat len \<le> unat MMAP_TOP" "0 < unat len" "vma_start v < vma_end v"
  shows "overlaps base len v \<longleftrightarrow> vma_in_use v \<and> {unat base..<unat base + unat len} \<inter> {unat (vma_start v)..<unat (vma_end v)} \<noteq> {}"
proof -
  have "{unat base..<unat base + unat len} \<inter> {unat (vma_start v)..<unat (vma_end v)} =
      {max (unat base) (unat (vma_start v))..<min (unat base + unat len) (unat (vma_end v))}" by auto
  then show ?thesis using range_end [OF assms(1,2)] assms(3,4) by (simp add: overlaps_def word_less_nat_alt) auto
qed

lemma free_range_loop_spec:
  assumes "vmas_ok vs" "unat base \<le> 2 ^ 63" "unat len \<le> unat MMAP_TOP" "0 < unat len" "0 < unat base"
  shows "(if \<exists>b. unat base \<le> b \<and> b + unat len \<le> unat MMAP_TOP \<and> range_free vs b (unat len)
     then unat base \<le> unat (free_range_loop vs base len) \<and> unat (free_range_loop vs base len) + unat len \<le> unat MMAP_TOP \<and>
       range_free vs (unat (free_range_loop vs base len)) (unat len) \<and>
       (\<forall>b. unat base \<le> b \<and> b + unat len \<le> unat MMAP_TOP \<and> range_free vs b (unat len) \<longrightarrow> unat (free_range_loop vs base len) \<le> b)
     else free_range_loop vs base len = 0)"
  using assms
proof (induction vs base len rule: free_range_loop.induct)
  case (1 vs base len)
  note e = range_end [OF "1.prems"(2,3)]
  let ?ok = "\<lambda>b. b + unat len \<le> unat MMAP_TOP \<and> range_free vs b (unat len)"
  show ?case
  proof (cases "base + len > MMAP_TOP")
    case True
    then have "\<not> (\<exists>b. unat base \<le> b \<and> ?ok b)" using e by (auto simp: word_less_nat_alt)
    moreover have "free_range_loop vs base len = 0" using True by (subst free_range_loop.simps) simp
    ultimately show ?thesis by (simp only: if_False not_False_eq_True)
  next
    case False
    then have lim: "unat base + unat len \<le> unat MMAP_TOP" using e by (simp add: word_less_nat_alt not_less)
    show ?thesis
    proof (cases "find (overlaps base len) vs")
      case None
      have "range_free vs (unat base) (unat len)"
        using None "1.prems" overlaps_iff [OF "1.prems"(2-4)] by (auto simp: range_free_def find_None_iff vmas_ok_def)
      moreover have "free_range_loop vs base len = base" using False None by (subst free_range_loop.simps) simp
      ultimately show ?thesis using lim by auto
    next
      case (Some v)
      then have v: "v \<in> set vs" "overlaps base len v" by (auto simp: find_Some_iff)
      then have vu: "vma_in_use v" "unat base < unat (vma_end v)" "unat base + unat len > unat (vma_start v)"
        using e by (auto simp: overlaps_def word_less_nat_alt)
      have ve: "vma_start v < vma_end v" "unat (vma_end v) \<le> unat MMAP_TOP" using v(1) vu(1) "1.prems"(1) by (auto simp: vmas_ok_def word_le_nat_alt)
      have st: "free_range_loop vs base len = free_range_loop vs (vma_end v) len" using False Some by (subst free_range_loop.simps) simp
      have skip: "unat (vma_end v) \<le> b" if "unat base \<le> b" "?ok b" for b
      proof (rule ccontr)
        assume "\<not> unat (vma_end v) \<le> b"
        then have "max b (unat (vma_start v)) \<in> {b..<b + unat len} \<inter> {unat (vma_start v)..<unat (vma_end v)}"
          using vu(3) that(1) ve(1) "1.prems"(4) by (auto simp: word_less_nat_alt)
        then show False using that(2) v(1) vu(1) by (auto simp: range_free_def)
      qed
      have eq: "(unat base \<le> b \<and> ?ok b) = (unat (vma_end v) \<le> b \<and> ?ok b)" for b using skip [of b] vu(2) by auto
      have IH: "(if \<exists>b. unat (vma_end v) \<le> b \<and> ?ok b
         then unat (vma_end v) \<le> unat (free_range_loop vs (vma_end v) len) \<and> unat (free_range_loop vs (vma_end v) len) + unat len \<le> unat MMAP_TOP \<and>
           range_free vs (unat (free_range_loop vs (vma_end v) len)) (unat len) \<and>
           (\<forall>b. unat (vma_end v) \<le> b \<and> ?ok b \<longrightarrow> unat (free_range_loop vs (vma_end v) len) \<le> b)
         else free_range_loop vs (vma_end v) len = 0)"
        by (rule "1.IH" [OF False Some "1.prems"(1) _ "1.prems"(3,4)]) (use ve vu in \<open>auto simp: unat_MMAP_TOP\<close>)
      show ?thesis unfolding st eq using IH vu(2) by (auto split: if_splits)
    qed
  qed
qed

text \<open>The address at which the search starts.\<close>

definition search_start :: "process \<Rightarrow> u64 \<Rightarrow> u64" where
  "search_start p hint = (((if hint \<noteq> 0 \<and> hint \<ge> MMAP_BASE \<and> hint < MMAP_TOP then hint else p_mmap_next p) + 4095) AND NOT 4095)"



end
