(* ===== verification/PageTree.thy ===== *)
theory PageTree
  imports UserVm Ext2Store
begin

text \<open>
  Page tables as trees: the tables of an address space are distinct frames, mapping a page changes the
  entry of this page only, and a copy-on-write fault gives the process a private copy.
\<close>

section \<open>Memory accesses\<close>

lemma le64_cong: "(\<And>i. i < 8 \<Longrightarrow> m (a + i) = m' (b + i)) \<Longrightarrow> le64 m a = le64 m' b"
proof -
  assume h: "\<And>i. i < 8 \<Longrightarrow> m (a + i) = m' (b + i)"
  have "m a = m' b" "m (a + 1) = m' (b + 1)" "m (a + 2) = m' (b + 2)" "m (a + 3) = m' (b + 3)"
    "m (a + 4) = m' (b + 4)" "m (a + 5) = m' (b + 5)" "m (a + 6) = m' (b + 6)" "m (a + 7) = m' (b + 7)"
    using h [of 0] h [of 1] h [of 2] h [of 3] h [of 4] h [of 5] h [of 6] h [of 7] by simp_all
  then show ?thesis by (simp add: le64_def le32_def add.commute)
qed

lemma le64_put [simp]: "le64 (mem_put a (enc64 w) m) a = w"
proof -
  have "le64 (mem_put a (enc64 w) m) a = le64 (at (enc64 w)) 0"
    by (rule le64_cong) (simp add: mem_put_def at_def)
  also have "\<dots> = w"
    using join64 [of w] le32_enc0 [of "ucast (drop_bit 32 w)" "[]"] by (simp add: le64_def enc64_def le32_at_append le32_at_skip)
  finally show ?thesis .
qed

lemma get64_set64 [simp]: "get64 a (set64 a w s) = w"
  by (simp add: get64_def set64_def)

lemma get64_set64_other: "b + 8 \<le> a \<or> a + 8 \<le> b \<Longrightarrow> get64 b (set64 a w s) = get64 b s"
  unfolding get64_def set64_def by (auto intro!: le64_cong simp: mem_put_def)

lemma set64_frame [simp]:
  "vm_sched (set64 a w s) = vm_sched s" "vm_pmm (set64 a w s) = vm_pmm s" "vm_fs (set64 a w s) = vm_fs s"
  "rmap_table (set64 a w s) = rmap_table s" "swap_slots (set64 a w s) = swap_slots s" "swap_ready (set64 a w s) = swap_ready s"
  by (simp_all add: set64_def)

text \<open>Two entries of page-aligned tables are the same or do not overlap.\<close>

lemma entry_disjoint:
  assumes "t mod 4096 = 0" "u mod 4096 = 0" "i < 512" "j < 512" "(t, i) \<noteq> (u, j)"
  shows "t + 8 * i + 8 \<le> u + 8 * j \<or> u + 8 * j + 8 \<le> t + 8 * (i :: nat)"
proof (cases "t = u")
  case True
  then show ?thesis using assms by auto
next
  case False
  obtain a b where "t = 4096 * a" "u = 4096 * b" using assms(1,2) by (meson mod_0_imp_dvd dvdE)
  with False assms(3,4) show ?thesis by auto
qed

section \<open>Entries\<close>

lemma bit_PTE_ADDR_MASK: "bit PTE_ADDR_MASK n \<longleftrightarrow> 12 \<le> n \<and> n < 52"
proof -
  have "PTE_ADDR_MASK = push_bit 12 (mask 40)" by (simp add: PTE_ADDR_MASK_def mask_eq_exp_minus_1 push_bit_eq_mult)
  then show ?thesis unfolding \<open>PTE_ADDR_MASK = push_bit 12 (mask 40)\<close> by (auto simp: bit_simps)
qed

lemma eval_4096: "(4096 :: nat) = 2 ^ 12"
  by simp

lemma bit_frame:
  assumes "f mod 4096 = 0" "f < 2 ^ 52" "bit (of_nat f :: u64) n"
  shows "12 \<le> n \<and> n < 52"
proof -
  obtain g where g: "f = 2 ^ 12 * g" using assms(1) by (metis mod_0_imp_dvd dvdE eval_4096)
  have b: "bit f n" using assms(3) by (simp add: bit_of_nat_iff)
  have "12 \<le> n"
  proof (rule ccontr)
    assume "\<not> 12 \<le> n"
    then have "\<not> bit (push_bit 12 g) n" by (simp add: bit_push_bit_iff)
    then show False using b g by (simp add: push_bit_eq_mult mult.commute)
  qed
  moreover have "n < 52"
  proof (rule ccontr)
    assume "\<not> n < 52"
    then have "f < 2 ^ n" using assms(2) by (meson less_le_trans not_less one_le_numeral power_increasing)
    then have "\<not> bit f n" by (simp add: bit_iff_odd)
    with b show False by simp
  qed
  ultimately show ?thesis by simp
qed

lemma frame_mask:
  assumes "f mod 4096 = 0" "f < 2 ^ 52" "fl AND PTE_ADDR_MASK = 0"
  shows "(of_nat f OR fl) AND PTE_ADDR_MASK = (of_nat f :: u64)"
proof (rule bit_word_eqI)
  fix n
  have "\<not> (bit fl n \<and> bit PTE_ADDR_MASK n)" using assms(3) by (metis bit_0_eq bit_and_iff bot_apply bot_bool_def)
  then show "bit ((of_nat f OR fl) AND PTE_ADDR_MASK) n = bit (of_nat f :: u64) n"
    using bit_frame [OF assms(1,2), of n] by (auto simp: bit_simps bit_PTE_ADDR_MASK)
qed

lemma pte_phys_frame:
  assumes "f mod 4096 = 0" "f < 2 ^ 52" "fl AND PTE_ADDR_MASK = 0"
  shows "pte_phys (of_nat f OR fl) = f"
proof -
  have "f < 2 ^ 64" using assms(2) by simp
  then show ?thesis unfolding pte_phys_def frame_mask [OF assms] by (simp add: unat_of_nat take_bit_nat_eq_self)
qed

lemma present_bit: "present e \<longleftrightarrow> bit e 0"
  by (simp add: present_def PTE_PRESENT_def and_one_eq bit_0 odd_iff_mod_2_eq_one)

lemma present_or [simp]: "present (e OR f) \<longleftrightarrow> present e \<or> present f" "present PTE_PRESENT" "\<not> present 0"
  by (simp_all add: present_bit bit_or_iff PTE_PRESENT_def)

lemma pte_phys_or: "fl AND PTE_ADDR_MASK = 0 \<Longrightarrow> pte_phys (e OR fl) = pte_phys e"
  by (simp add: pte_phys_def bit.conj_disj_distrib2)

section \<open>Allocation without memory pressure\<close>

text \<open>At least \<open>k\<close> frames can be allocated before pages are evicted to swap.\<close>

definition roomy :: "nat \<Rightarrow> vm \<Rightarrow> bool" where
  "roomy k s \<longleftrightarrow> pmm_inv (vm_pmm s) \<and> 31 + k < card (free_frames (vm_pmm s)) \<and> total_pages (vm_pmm s) \<le> RMAP_MAX_PAGES"

definition in_use :: "nat \<Rightarrow> vm \<Rightarrow> bool" where
  "in_use f s \<longleftrightarrow> f mod 4096 = 0 \<and> f div 4096 < total_pages (vm_pmm s) \<and> f div 4096 \<notin> free_frames (vm_pmm s)"

lemma roomy_Suc: "roomy (Suc k) s \<Longrightarrow> roomy k s"
  by (simp add: roomy_def)

lemma card_free_frames: "card (free_frames p) \<le> total_pages p"
  using card_mono [of "{..<total_pages p}" "free_frames p"] by (auto simp: free_frames_def)

lemma roomy_no_evict: "roomy k s \<Longrightarrow> evict_some n s = s"
proof (cases n)
  case (Suc m)
  assume r: "roomy k s"
  have "card (free_frames (vm_pmm s)) < 2 ^ 64" using card_free_frames [of "vm_pmm s"] r by (simp add: roomy_def RMAP_MAX_PAGES_def)
  then have "unat (free_pages (vm_pmm s)) = card (free_frames (vm_pmm s))"
    using r by (simp add: roomy_def pmm_inv_def unat_of_nat take_bit_nat_eq_self)
  then have "\<not> free_pages (vm_pmm s) < SWAP_LOW_WATERMARK" using r by (simp add: roomy_def SWAP_LOW_WATERMARK_def word_less_nat_alt)
  with Suc show ?thesis by simp
qed simp

lemma alloc_roomy:
  assumes "roomy (Suc k) s"
  obtains f p where "pmm_alloc_page s = (f, s\<lparr>vm_pmm := p\<rparr>)" "f \<noteq> 0" "f mod 4096 = 0" "f < 2 ^ 52" "f div 4096 \<in> free_frames (vm_pmm s)"
    "free_frames p = free_frames (vm_pmm s) - {f div 4096}" "page_refcount p = (page_refcount (vm_pmm s))[f div 4096 := 1]"
    "total_pages p = total_pages (vm_pmm s)" "kernel_page_limit p = kernel_page_limit (vm_pmm s)" "roomy k (s\<lparr>vm_pmm := p\<rparr>)"
proof -
  have inv: "pmm_inv (vm_pmm s)" using assms by (simp add: roomy_def)
  obtain f p where fp: "pmm_alloc_scan (vm_pmm s) = (f, p)" by fastforce
  note A = pmm_alloc_scan_frames [OF inv fp] pmm_alloc_scan_inv [OF inv fp]
  have ne: "free_frames (vm_pmm s) \<noteq> {}" using assms by (auto simp: roomy_def)
  have f0: "f \<noteq> 0" using A(1) ne by auto
  have tp: "total_pages p = total_pages (vm_pmm s)" "kernel_page_limit p = kernel_page_limit (vm_pmm s)"
    using fp by (auto simp: pmm_alloc_scan_def split: option.splits)
  have F: "f mod 4096 = 0" "f div 4096 \<in> free_frames (vm_pmm s)" "free_frames p = free_frames (vm_pmm s) - {f div 4096}"
    "page_refcount p = (page_refcount (vm_pmm s))[f div 4096 := 1]"
    using A(1) f0 by (simp_all add: PAGE_SIZE_def)
  have "f div 4096 < 131072" using F(2) assms by (auto simp: free_frames_def roomy_def RMAP_MAX_PAGES_def)
  then have lt: "f < 2 ^ 52" by (simp add: div_less_iff_less_mult)
  have rk: "roomy k (s\<lparr>vm_pmm := p\<rparr>)"
  proof -
    have "card (free_frames p) = card (free_frames (vm_pmm s)) - 1" using F(2,3) by simp
    moreover have "31 + Suc k < card (free_frames (vm_pmm s))" using assms by (simp add: roomy_def)
    ultimately have "31 + k < card (free_frames p)" by linarith
    then show ?thesis using assms A(2) tp by (simp add: roomy_def)
  qed
  have "pmm_alloc_page s = (f, s\<lparr>vm_pmm := p\<rparr>)" using roomy_no_evict [OF assms] fp by (simp add: pmm_alloc_page_def)
  then show ?thesis by (rule that [OF _ f0 F(1) lt F(2-4) tp rk])
qed

lemma get64_zeroed:
  assumes "f mod 4096 = 0" "t mod 4096 = 0" "i < 512"
  shows "get64 (t + 8 * i) (s\<lparr>vm_pmm := p, vm_mem := memset f 0 PAGE_SIZE (vm_mem s)\<rparr>) = (if t = f then 0 else get64 (t + 8 * i) s)"
proof (cases "t = f")
  case True
  have "le64 (memset f 0 PAGE_SIZE (vm_mem s)) (f + 8 * i) = le64 (\<lambda>_. 0) 0"
    by (rule le64_cong) (use assms(3) in \<open>auto simp: memset_eq PAGE_SIZE_def\<close>)
  also have "\<dots> = 0" by (simp add: le64_def le32_def)
  finally show ?thesis using True by (simp add: get64_def)
next
  case False
  obtain a b where "t = 4096 * a" "f = 4096 * b" using assms(1,2) by (meson mod_0_imp_dvd dvdE)
  then have "t + 4096 \<le> f \<or> f + 4096 \<le> t" using False by auto
  then have "le64 (memset f 0 PAGE_SIZE (vm_mem s)) (t + 8 * i) = le64 (vm_mem s) (t + 8 * i)"
    by (intro le64_cong) (use assms(3) in \<open>auto simp: memset_eq PAGE_SIZE_def\<close>)
  then show ?thesis using False by (simp add: get64_def)
qed

lemma div_mod_eq_4096: "x div 4096 = f div 4096 \<Longrightarrow> x mod 4096 = 0 \<Longrightarrow> f mod 4096 = 0 \<Longrightarrow> x = f" for x f :: nat
  by (metis div_mult_mod_eq)

section \<open>The tree\<close>

text \<open>The table reached from table \<open>t\<close> by a path of indices.\<close>

fun node :: "nat \<Rightarrow> nat list \<Rightarrow> vm \<Rightarrow> nat option" where
  "node t [] s = Some t"
| "node t (i # is) s = (if present (get64 (t + 8 * i) s) then node (pte_phys (get64 (t + 8 * i) s)) is s else None)"

lemma node_append: "node t (p @ q) s = (case node t p s of None \<Rightarrow> None | Some u \<Rightarrow> node u q s)"
  by (induction p arbitrary: t) auto

definition upath :: "nat list \<Rightarrow> bool" where
  "upath p \<longleftrightarrow> length p \<le> 3 \<and> (\<forall>i\<in>set p. i < 512) \<and> (p \<noteq> [] \<longrightarrow> hd p < 256)"

lemma upath_snoc: "upath (p @ [i]) \<Longrightarrow> upath p \<and> i < 512 \<and> length p < 3"
  by (cases p) (auto simp: upath_def)

definition tree :: "nat \<Rightarrow> vm \<Rightarrow> bool" where
  "tree r s \<longleftrightarrow>
     (\<forall>p t. upath p \<and> node r p s = Some t \<longrightarrow> in_use t s) \<and>
     (\<forall>p q t. upath p \<and> upath q \<and> node r p s = Some t \<and> node r q s = Some t \<longrightarrow> p = q) \<and>
     (\<forall>p t i. upath (p @ [i]) \<and> node r p s = Some t \<and> present (get64 (t + 8 * i) s) \<longrightarrow> get64 (t + 8 * i) s AND PTE_HUGE = 0)"

lemma treeD:
  assumes "tree r s"
  shows "upath p \<Longrightarrow> node r p s = Some t \<Longrightarrow> in_use t s"
    "upath p \<Longrightarrow> upath q \<Longrightarrow> node r p s = Some t \<Longrightarrow> node r q s = Some t \<Longrightarrow> p = q"
    "upath (p @ [i]) \<Longrightarrow> node r p s = Some t \<Longrightarrow> present (get64 (t + 8 * i) s) \<Longrightarrow> get64 (t + 8 * i) s AND PTE_HUGE = 0"
  using assms unfolding tree_def by blast+

text \<open>A state that has the same table entries outside one entry \<open>(p, i)\<close>.\<close>

lemma node_frame:
  assumes T: "tree r s"
    and eq: "\<And>q u j. upath (q @ [j]) \<Longrightarrow> node r q s = Some u \<Longrightarrow> q @ [j] \<noteq> p @ [i] \<Longrightarrow> get64 (u + 8 * j) s' = get64 (u + 8 * j) s"
  shows "upath q \<Longrightarrow> \<not> (\<exists>z. q = p @ [i] @ z) \<Longrightarrow> node r q s' = node r q s"
proof (induction q rule: rev_induct)
  case Nil
  show ?case by simp
next
  case (snoc j q)
  have u: "upath q" using snoc.prems(1) upath_snoc by blast
  have n: "\<not> (\<exists>z. q = p @ [i] @ z)" using snoc.prems(2) by (metis append.assoc)
  have ne: "q @ [j] \<noteq> p @ [i]" using snoc.prems(2) by (metis append_Nil2 append.assoc)
  show ?case using snoc.IH [OF u n] eq [OF snoc.prems(1) _ ne] by (auto simp: node_append split: option.splits)
qed

lemma node_same:
  assumes "\<And>q u j. upath (q @ [j]) \<Longrightarrow> node r q s = Some u \<Longrightarrow> present (get64 (u + 8 * j) s') = present (get64 (u + 8 * j) s) \<and>
      pte_phys (get64 (u + 8 * j) s') = pte_phys (get64 (u + 8 * j) s)"
  shows "upath q \<Longrightarrow> node r q s' = node r q s"
proof (induction q rule: rev_induct)
  case Nil
  show ?case by simp
next
  case (snoc j q)
  have u: "upath q" using snoc.prems upath_snoc by blast
  show ?case using snoc.IH [OF u] assms [OF snoc.prems] by (auto simp: node_append split: option.splits)
qed

text \<open>The leaf entry at index \<open>j\<close> of the table at path \<open>q\<close>; 0 when there is no table.\<close>

definition leaf :: "nat \<Rightarrow> nat list \<Rightarrow> nat \<Rightarrow> vm \<Rightarrow> u64" where
  "leaf r q j s = (case node r q s of None \<Rightarrow> 0 | Some u \<Rightarrow> get64 (u + 8 * j) s)"

lemma in_use_frame: "in_use t s \<Longrightarrow> t mod 4096 = 0"
  by (simp add: in_use_def)

text \<open>Writing the entry \<open>(p, i)\<close> leaves the other entries alone.\<close>

lemma set_entry_other:
  assumes T: "tree r s" and p: "upath p" "node r p s = Some t" "i < 512" and q: "upath q" "node r q s = Some u" "j < 512"
    and ne: "(q, j) \<noteq> (p, i)"
  shows "get64 (u + 8 * j) (set64 (t + 8 * i) w s) = get64 (u + 8 * j) s"
proof (rule get64_set64_other)
  have a: "t mod 4096 = 0" "u mod 4096 = 0" using treeD(1) [OF T] p q in_use_frame by blast+
  have "(u, j) \<noteq> (t, i)" using treeD(2) [OF T q(1) p(1) q(2)] p(2) ne by auto
  then show "u + 8 * j + 8 \<le> t + 8 * i \<or> t + 8 * i + 8 \<le> u + 8 * j" using entry_disjoint [OF a(2,1) q(3) p(3)] by blast
qed

lemma mask_flags [simp]: "PTE_USER AND PTE_ADDR_MASK = 0" "PTE_WRITABLE AND PTE_ADDR_MASK = 0" "PTE_PRESENT AND PTE_ADDR_MASK = 0"
  "(PTE_USER OR PTE_WRITABLE) AND PTE_ADDR_MASK = 0" "(PTE_PRESENT OR PTE_WRITABLE OR PTE_USER) AND PTE_ADDR_MASK = 0"
  by (simp_all add: PTE_USER_def PTE_WRITABLE_def PTE_PRESENT_def PTE_ADDR_MASK_def)

lemma level_present:
  assumes T: "tree r s" and P: "upath (p @ [i])" "node r p s = Some t" and pr: "present (get64 (t + 8 * i) s)"
  defines "s' \<equiv> set64 (t + 8 * i) (get64 (t + 8 * i) s OR PTE_USER OR PTE_WRITABLE) s"
  shows "tree r s'" "\<And>q. upath q \<Longrightarrow> node r q s' = node r q s"
    "\<And>q j. upath q \<Longrightarrow> length q = 3 \<Longrightarrow> j < 512 \<Longrightarrow> leaf r q j s' = leaf r q j s"
proof -
  let ?e = "get64 (t + 8 * i) s"
  have pi: "upath p" "i < 512" "length p < 3" using upath_snoc [OF P(1)] by blast+
  have eq: "get64 (u + 8 * j) s' = get64 (u + 8 * j) s" if "upath q" "node r q s = Some u" "j < 512" "(q, j) \<noteq> (p, i)" for q u j
    unfolding s'_def by (rule set_entry_other [OF T pi(1) P(2) pi(2) that])
  have e: "get64 (t + 8 * i) s' = ?e OR PTE_USER OR PTE_WRITABLE" by (simp add: s'_def)
  have pp: "pte_phys (?e OR PTE_USER OR PTE_WRITABLE) = pte_phys ?e" by (rule pte_phys_or) simp
  show nd: "node r q s' = node r q s" if "upath q" for q
  proof (rule node_same [OF _ that])
    fix q u j assume q: "upath (q @ [j])" "node r q s = Some u"
    show "present (get64 (u + 8 * j) s') = present (get64 (u + 8 * j) s) \<and> pte_phys (get64 (u + 8 * j) s') = pte_phys (get64 (u + 8 * j) s)"
    proof (cases "(q, j) = (p, i)")
      case True
      then show ?thesis using q(2) P(2) pr e pp by simp
    next
      case False
      then show ?thesis using eq [OF _ q(2) _ False] upath_snoc [OF q(1)] by simp
    qed
  qed
  have us: "in_use x s' = in_use x s" for x by (simp add: in_use_def s'_def)
  have hg: "?e AND PTE_HUGE = 0" by (rule treeD(3) [OF T P pr])
  have hg': "(?e OR PTE_USER OR PTE_WRITABLE) AND PTE_HUGE = 0"
    using hg by (simp add: bit.conj_disj_distrib2 PTE_USER_def PTE_WRITABLE_def PTE_HUGE_def)
  show "tree r s'" unfolding tree_def
  proof (intro conjI allI impI)
    show "in_use x s'" if "upath q \<and> node r q s' = Some x" for q x using that nd treeD(1) [OF T] us by auto
    show "q = q'" if "upath q \<and> upath q' \<and> node r q s' = Some x \<and> node r q' s' = Some x" for q q' x
      using that nd treeD(2) [OF T] by auto
    fix q x j assume h: "upath (q @ [j]) \<and> node r q s' = Some x \<and> present (get64 (x + 8 * j) s')"
    have q: "upath q" "j < 512" "node r q s = Some x" using h upath_snoc nd by auto
    show "get64 (x + 8 * j) s' AND PTE_HUGE = 0"
    proof (cases "(q, j) = (p, i)")
      case True
      then show ?thesis using q(3) P(2) e hg' by simp
    next
      case False
      then show ?thesis using eq [OF q(1,3,2) False] h treeD(3) [OF T _ q(3)] by simp
    qed
  qed
  show "leaf r q j s' = leaf r q j s" if "upath q" "length q = 3" "j < 512" for q j
  proof -
    have "(q, j) \<noteq> (p, i)" using that(2) pi(3) by auto
    then show ?thesis using eq [OF that(1) _ that(3)] nd [OF that(1)] by (auto simp: leaf_def split: option.splits)
  qed
qed

text \<open>A new table, made of a frame that was free.\<close>

lemma level_absent:
  assumes T: "tree r s" and P: "upath (p @ [i])" "node r p s = Some t" and ab: "\<not> present (get64 (t + 8 * i) s)"
    and f: "f mod 4096 = 0" "f < 2 ^ 52" "f div 4096 \<in> free_frames (vm_pmm s)"
    and pm: "free_frames pm = free_frames (vm_pmm s) - {f div 4096}" "total_pages pm = total_pages (vm_pmm s)"
  defines "s1 \<equiv> s\<lparr>vm_pmm := pm, vm_mem := memset f 0 PAGE_SIZE (vm_mem s)\<rparr>"
  defines "s' \<equiv> set64 (t + 8 * i) (of_nat f OR PTE_PRESENT OR PTE_WRITABLE OR PTE_USER) s1"
  shows "tree r s'" "node r (p @ [i]) s' = Some f"
    "\<And>q j. upath q \<Longrightarrow> length q = 3 \<Longrightarrow> j < 512 \<Longrightarrow> leaf r q j s' = leaf r q j s"
    "\<And>q. upath q \<Longrightarrow> node r q s' = (if q = p @ [i] then Some f else node r q s)"
proof -
  let ?w = "of_nat f OR PTE_PRESENT OR PTE_WRITABLE OR PTE_USER"
  have pi: "upath p" "i < 512" "length p < 3" using upath_snoc [OF P(1)] by blast+
  have old: "u mod 4096 = 0 \<and> u \<noteq> f" if "upath q" "node r q s = Some u" for q u
    using treeD(1) [OF T that] f(3) by (auto simp: in_use_def)
  have e: "get64 (t + 8 * i) s' = ?w" by (simp add: s'_def)
  have pw: "present ?w" "pte_phys ?w = f" using pte_phys_frame [OF f(1,2)] by simp_all
  have eq: "get64 (u + 8 * j) s' = get64 (u + 8 * j) s" if q: "upath q" "node r q s = Some u" "j < 512" "(q, j) \<noteq> (p, i)" for q u j
  proof -
    have "(u, j) \<noteq> (t, i)" using treeD(2) [OF T q(1) pi(1) q(2)] P(2) q(4) by auto
    then have "u + 8 * j + 8 \<le> t + 8 * i \<or> t + 8 * i + 8 \<le> u + 8 * j"
      by (intro entry_disjoint) (use old [OF q(1,2)] old [OF pi(1) P(2)] q(3) pi(2) in auto)
    then have "get64 (u + 8 * j) s' = get64 (u + 8 * j) s1" unfolding s'_def by (rule get64_set64_other)
    then show ?thesis using get64_zeroed [OF f(1) _ q(3)] old [OF q(1,2)] by (simp add: s1_def)
  qed
  have zero: "get64 (f + 8 * j) s' = 0" if "j < 512" for j
  proof -
    have "f + 8 * j + 8 \<le> t + 8 * i \<or> t + 8 * i + 8 \<le> f + 8 * j"
      by (intro entry_disjoint) (use old [OF pi(1) P(2)] that pi(2) f(1) in auto)
    then have "get64 (f + 8 * j) s' = get64 (f + 8 * j) s1" unfolding s'_def by (rule get64_set64_other)
    then show ?thesis using get64_zeroed [OF f(1) f(1) that] by (simp add: s1_def)
  qed
  have fr: "node r q s' = node r q s" if "upath q" "\<not> (\<exists>z. q = p @ [i] @ z)" for q
  proof (rule node_frame [OF T _ that])
    fix q u j assume q: "upath (q @ [j])" "node r q s = Some u" "q @ [j] \<noteq> p @ [i]"
    show "get64 (u + 8 * j) s' = get64 (u + 8 * j) s" by (rule eq [OF _ q(2)]) (use upath_snoc [OF q(1)] q(3) in auto)
  qed
  have np: "node r p s' = Some t" using fr [OF pi(1)] P(2) by simp
  show nn: "node r (p @ [i]) s' = Some f" using np e pw by (simp add: node_append)
  show nd: "node r q s' = (if q = p @ [i] then Some f else node r q s)" if q: "upath q" for q
  proof (cases "\<exists>z. q = p @ [i] @ z")
    case False
    then show ?thesis using fr [OF q False] by auto
  next
    case True
    then obtain z where z: "q = (p @ [i]) @ z" by auto
    show ?thesis
    proof (cases z)
      case Nil
      then show ?thesis using z nn by simp
    next
      case (Cons j zs)
      have "j < 512" using q z Cons by (simp add: upath_def)
      then have "node r q s' = None" using Cons zero unfolding z node_append [of r "p @ [i]"] nn by simp
      moreover have "node r q s = None" using z P(2) ab by (simp add: node_append)
      ultimately show ?thesis using z Cons by simp
    qed
  qed
  have us: "in_use x s' \<longleftrightarrow> in_use x s \<or> x = f" for x
    using f(1,3) by (auto simp: in_use_def s'_def s1_def pm free_frames_def [of "vm_pmm s"] dest: div_mod_eq_4096)
  have "\<not> bit (of_nat f :: u64) 7" using bit_frame [OF f(1,2), of 7] by auto
  then have "(of_nat f :: u64) AND PTE_HUGE = 0"
    using and_exp_eq_0_iff_not_bit [of "of_nat f :: u64" 7] by (simp add: PTE_HUGE_def)
  moreover have "(PTE_PRESENT OR PTE_WRITABLE OR PTE_USER) AND PTE_HUGE = 0"
    by (simp add: PTE_HUGE_def PTE_PRESENT_def PTE_WRITABLE_def PTE_USER_def)
  ultimately have hg: "?w AND PTE_HUGE = 0" by (simp add: bit.conj_disj_distrib2)
  show "tree r s'" unfolding tree_def
  proof (intro conjI allI impI)
    show "in_use x s'" if "upath q \<and> node r q s' = Some x" for q x
      using that nd [of q] treeD(1) [OF T, of q x] us [of x] by (auto split: if_splits)
    show "q = q'" if h: "upath q \<and> upath q' \<and> node r q s' = Some x \<and> node r q' s' = Some x" for q q' x
    proof -
      have q: "upath q" "upath q'" "node r q s' = Some x" "node r q' s' = Some x" using h by blast+
      have new: "x = f" if "z = p @ [i]" "node r z s' = Some x" for z using that nn by simp
      have fo: "x \<noteq> f \<and> node r z s = Some x" if "z \<noteq> p @ [i]" "upath z" "node r z s' = Some x" for z
        using nd [OF that(2)] that old [OF that(2), of x] by simp
      show ?thesis
      proof (cases "q = p @ [i] \<longleftrightarrow> q' = p @ [i]")
        case True
        then show ?thesis using fo [OF _ q(1,3)] fo [OF _ q(2,4)] treeD(2) [OF T q(1,2)] by blast
      next
        case False
        then show ?thesis using fo [OF _ q(1,3)] fo [OF _ q(2,4)] new [OF _ q(3)] new [OF _ q(4)] by blast
      qed
    qed
    fix q x j assume h: "upath (q @ [j]) \<and> node r q s' = Some x \<and> present (get64 (x + 8 * j) s')"
    have q: "upath q" "j < 512" using h upath_snoc by auto
    show "get64 (x + 8 * j) s' AND PTE_HUGE = 0"
    proof (cases "q = p @ [i]")
      case True
      then show ?thesis using h nn zero [OF q(2)] by simp
    next
      case False
      then have x: "node r q s = Some x" using h nd [OF q(1)] by simp
      show ?thesis
      proof (cases "(q, j) = (p, i)")
        case True
        then show ?thesis using x P(2) e hg by simp
      next
        case ne: False
        then show ?thesis using eq [OF q(1) x q(2) ne] h treeD(3) [OF T _ x] by simp
      qed
    qed
  qed
  show "leaf r q j s' = leaf r q j s" if q: "upath q" "length q = 3" "j < 512" for q j
  proof (cases "q = p @ [i]")
    case True
    have "node r q s = None" using True P(2) ab by (simp add: node_append)
    then show ?thesis using True nn zero [OF q(3)] by (simp add: leaf_def)
  next
    case False
    have "(q, j) \<noteq> (p, i)" using q(2) pi(3) by auto
    then show ?thesis using eq [OF q(1) _ q(3)] nd [OF q(1)] False by (auto simp: leaf_def split: option.splits)
  qed
qed

text \<open>A frame that is in use and is not a table of the tree; changes of the tree leave its bytes alone.\<close>

definition data_frame :: "nat \<Rightarrow> nat \<Rightarrow> vm \<Rightarrow> bool" where
  "data_frame r f s \<longleftrightarrow> in_use f s \<and> (\<forall>p. upath p \<longrightarrow> node r p s \<noteq> Some f)"

definition keeps_frame :: "nat \<Rightarrow> nat \<Rightarrow> vm \<Rightarrow> vm \<Rightarrow> bool" where
  "keeps_frame r f s s' \<longleftrightarrow> data_frame r f s' \<and> (\<forall>j<4096. vm_mem s' (f + j) = vm_mem s (f + j))"

lemma keeps_frame_trans: "keeps_frame r f s s' \<Longrightarrow> keeps_frame r f s' s'' \<Longrightarrow> keeps_frame r f s s''"
  by (simp add: keeps_frame_def)

lemma set64_other_frame:
  assumes "t mod 4096 = 0" "f mod 4096 = 0" "t \<noteq> f" "i < 512" "j < 4096"
  shows "vm_mem (set64 (t + 8 * i) w s) (f + j) = vm_mem s (f + j)"
proof -
  have "\<not> (t + 8 * i \<le> f + j \<and> f + j < t + 8 * i + 8)"
  proof
    assume h: "t + 8 * i \<le> f + j \<and> f + j < t + 8 * i + 8"
    have "(f + j) div 4096 = f div 4096 \<and> (t + (f + j - t)) div 4096 = t div 4096"
      using assms h by (auto elim!: dvdE simp: mod_eq_0_iff_dvd)
    moreover have "t + (f + j - t) = f + j" using h by simp
    ultimately show False using assms(1-3) div_mod_eq_4096 [of t f] by simp
  qed
  then show ?thesis by (auto simp: set64_def mem_put_def)
qed

lemma set_entry_keeps_frame:
  assumes "tree r s" "upath p" "node r p s = Some t" "i < 512" "data_frame r f s"
    "\<And>q. upath q \<Longrightarrow> node r q (set64 (t + 8 * i) w s) = node r q s"
  shows "keeps_frame r f s (set64 (t + 8 * i) w s)"
proof -
  have "t mod 4096 = 0" using treeD(1) [OF assms(1-3)] by (rule in_use_frame)
  moreover have "f mod 4096 = 0" "t \<noteq> f" using assms(2,3,5) by (auto simp: data_frame_def in_use_def)
  ultimately have "vm_mem (set64 (t + 8 * i) w s) (f + j) = vm_mem s (f + j)" if "j < 4096" for j
    using assms(4) that by (intro set64_other_frame)
  moreover have "in_use f (set64 (t + 8 * i) w s)" using assms(5) by (simp add: data_frame_def in_use_def)
  ultimately show ?thesis using assms(5,6) by (simp add: keeps_frame_def data_frame_def)
qed

lemma user_level_spec:
  assumes T: "tree r s" and P: "upath (p @ [i])" "node r p s = Some t" and rm: "roomy (Suc k) s"
  obtains u s' where "user_level (t + 8 * i) s = (Some u, s')" "tree r s'" "node r (p @ [i]) s' = Some u" "roomy k s'"
    "vm_sched s' = vm_sched s"
    "\<And>q j. upath q \<Longrightarrow> length q = 3 \<Longrightarrow> j < 512 \<Longrightarrow> leaf r q j s' = leaf r q j s"
    "\<And>x. data_frame r x s \<Longrightarrow> keeps_frame r x s s'"
proof (cases "present (get64 (t + 8 * i) s)")
  case True
  let ?s' = "set64 (t + 8 * i) (get64 (t + 8 * i) s OR PTE_USER OR PTE_WRITABLE) s"
  note L = level_present [OF T P True]
  have "pte_phys (get64 (t + 8 * i) s OR PTE_USER OR PTE_WRITABLE) = pte_phys (get64 (t + 8 * i) s)" by (rule pte_phys_or) simp
  then have n: "node r (p @ [i]) ?s' = Some (pte_phys (get64 (t + 8 * i) s))"
    and e: "user_level (t + 8 * i) s = (Some (pte_phys (get64 (t + 8 * i) s)), ?s')"
    using L(2) [OF P(1)] P(2) True by (simp_all add: node_append user_level_def Let_def)
  have k: "keeps_frame r x s ?s'" if "data_frame r x s" for x
    using upath_snoc [OF P(1)] by (intro set_entry_keeps_frame [OF T _ P(2) _ that L(2)]) auto
  show ?thesis by (rule that [OF e L(1) n _ _ L(3) k]) (use roomy_Suc [OF rm] in \<open>simp_all add: roomy_def\<close>)
next
  case False
  obtain f pm where A: "pmm_alloc_page s = (f, s\<lparr>vm_pmm := pm\<rparr>)" "f \<noteq> 0" "f mod 4096 = 0" "f < 2 ^ 52" "f div 4096 \<in> free_frames (vm_pmm s)"
    "free_frames pm = free_frames (vm_pmm s) - {f div 4096}" "total_pages pm = total_pages (vm_pmm s)" "roomy k (s\<lparr>vm_pmm := pm\<rparr>)"
    by (rule alloc_roomy [OF rm]) (rule that)
  note L = level_absent [OF T P False A(3-7)]
  let ?s1 = "s\<lparr>vm_pmm := pm, vm_mem := memset f 0 PAGE_SIZE (vm_mem s)\<rparr>"
  let ?w = "of_nat f OR PTE_PRESENT OR PTE_WRITABLE OR PTE_USER"
  have "alloc_zeroed_page s = (f, ?s1)" using A(1,2) by (simp add: alloc_zeroed_page_def)
  then have e: "user_level (t + 8 * i) s = (Some f, set64 (t + 8 * i) ?w ?s1)"
    using False A(2) pte_phys_frame [OF A(3,4)] by (simp add: user_level_def Let_def)
  have k: "keeps_frame r x s (set64 (t + 8 * i) ?w ?s1)" if x: "data_frame r x s" for x
  proof -
    have t: "t mod 4096 = 0" "t \<noteq> x" "i < 512" "x mod 4096 = 0" "x \<noteq> f"
      using upath_snoc [OF P(1)] treeD(1) [OF T _ P(2)] x P(2) A(5) by (auto simp: data_frame_def in_use_def)
    have "vm_mem (set64 (t + 8 * i) ?w ?s1) (x + j) = vm_mem s (x + j)" if "j < 4096" for j
    proof -
      have "(x + j) div 4096 = x div 4096" using t(4) that by (auto elim!: dvdE simp: mod_eq_0_iff_dvd)
      moreover have "(f + (x + j - f)) div 4096 = f div 4096" if "f \<le> x + j" "x + j < f + 4096"
        using A(3) that by (auto elim!: dvdE simp: mod_eq_0_iff_dvd)
      ultimately have "\<not> (f \<le> x + j \<and> x + j < f + 4096)" using t(4,5) A(3) div_mod_eq_4096 [of x f] by auto
      then show ?thesis using set64_other_frame [OF t(1,4,2,3) that] by (auto simp: memset_eq PAGE_SIZE_def)
    qed
    moreover have "in_use x (set64 (t + 8 * i) ?w ?s1)" using x t(5) A(6,7) by (auto simp: data_frame_def in_use_def)
    ultimately show ?thesis using x t(5) L(4) by (auto simp: keeps_frame_def data_frame_def split: if_splits)
  qed
  show ?thesis by (rule that [OF e L(1,2) _ _ L(3) k]) (use A(8) in \<open>simp_all add: roomy_def\<close>)
qed

section \<open>Mapping a page\<close>

definition vpath :: "u64 \<Rightarrow> nat list" where
  "vpath v = [PML4_INDEX v, PDPT_INDEX v, PD_INDEX v]"

definition user_addr :: "u64 \<Rightarrow> bool" where
  "user_addr v \<longleftrightarrow> v < 0x0000800000000000"

text \<open>The entry of a virtual address; 0 when a table on the way is missing.\<close>

definition pte_of :: "nat \<Rightarrow> u64 \<Rightarrow> vm \<Rightarrow> u64" where
  "pte_of r v s = (case user_vm_get_pte r v s of None \<Rightarrow> 0 | Some a \<Rightarrow> get64 a s)"

lemma index_less: "PML4_INDEX v < 512" "PDPT_INDEX v < 512" "PD_INDEX v < 512" "PT_INDEX v < 512"
proof -
  have m: "(0x1FF :: u64) = mask 9" by (simp add: mask_eq_exp_minus_1)
  have "unat (w AND 0x1FF) < 512" for w :: u64
    unfolding m take_bit_eq_mask [symmetric] by (simp add: unsigned_take_bit_eq take_bit_nat_less_exp [of 9, simplified])
  then show "PML4_INDEX v < 512" "PDPT_INDEX v < 512" "PD_INDEX v < 512" "PT_INDEX v < 512"
    by (simp_all add: PML4_INDEX_def PDPT_INDEX_def PD_INDEX_def PT_INDEX_def)
qed

lemma index_nat:
  "PML4_INDEX v = unat v div 2 ^ 39 mod 512" "PDPT_INDEX v = unat v div 2 ^ 30 mod 512"
  "PD_INDEX v = unat v div 2 ^ 21 mod 512" "PT_INDEX v = unat v div 2 ^ 12 mod 512"
proof -
  have m: "(0x1FF :: u64) = mask 9" by (simp add: mask_eq_exp_minus_1)
  have v64: "unat v < 2 ^ 64" using unsigned_less [of v] by simp
  have "unat (drop_bit n v AND 0x1FF) = unat v div 2 ^ n mod 512" for n
  proof -
    have "unat (drop_bit n v AND 0x1FF) = take_bit 9 (drop_bit n (unat v))"
      unfolding m take_bit_eq_mask [symmetric] using take_bit_nat_eq_self [OF v64]
      by (simp add: unsigned_take_bit_eq unsigned_drop_bit_eq)
    then show ?thesis by (simp add: take_bit_eq_mod drop_bit_eq_div)
  qed
  then show "PML4_INDEX v = unat v div 2 ^ 39 mod 512" "PDPT_INDEX v = unat v div 2 ^ 30 mod 512"
    "PD_INDEX v = unat v div 2 ^ 21 mod 512" "PT_INDEX v = unat v div 2 ^ 12 mod 512"
    by (simp_all only: PML4_INDEX_def PDPT_INDEX_def PD_INDEX_def PT_INDEX_def)
qed

lemma user_upath: "user_addr v \<Longrightarrow> upath (vpath v)"
proof -
  assume "user_addr v"
  then have "unat v < 2 ^ 47" by (simp add: user_addr_def word_less_nat_alt)
  then have "unat v div 2 ^ 39 < 256" by (simp add: div_less_iff_less_mult)
  then have "PML4_INDEX v < 256" by (simp add: index_nat)
  then show ?thesis using index_less by (simp add: upath_def vpath_def)
qed

lemma split_512: "x div d = x div (d * 512) * 512 + x div d mod 512" for x d :: nat
  by (simp add: div_mult2_eq)

lemma index_page:
  assumes "user_addr v" "user_addr v'" "vpath v = vpath v'" "PT_INDEX v = PT_INDEX v'"
  shows "v AND NOT 4095 = v' AND NOT 4095"
proof -
  have b: "unat w div 2 ^ 39 mod 512 = unat w div 2 ^ 39" if "user_addr w" for w
  proof -
    have "unat w < 2 ^ 47" using that by (simp add: user_addr_def word_less_nat_alt)
    then have "unat w div 2 ^ 39 < 512" by (simp add: div_less_iff_less_mult)
    then show ?thesis by simp
  qed
  have i: "unat v div 2 ^ 39 = unat v' div 2 ^ 39" "unat v div 2 ^ 30 mod 512 = unat v' div 2 ^ 30 mod 512"
    "unat v div 2 ^ 21 mod 512 = unat v' div 2 ^ 21 mod 512" "unat v div 2 ^ 12 mod 512 = unat v' div 2 ^ 12 mod 512"
    using assms b [OF assms(1)] b [OF assms(2)] by (simp_all only: vpath_def index_nat list.inject)
  have "unat v div 2 ^ 30 = unat v' div 2 ^ 30" using i(1,2) split_512 [of "unat v" "2 ^ 30"] split_512 [of "unat v'" "2 ^ 30"] by simp
  then have "unat v div 2 ^ 21 = unat v' div 2 ^ 21" using i(3) split_512 [of "unat v" "2 ^ 21"] split_512 [of "unat v'" "2 ^ 21"] by simp
  then have "unat v div 2 ^ 12 = unat v' div 2 ^ 12" using i(4) split_512 [of "unat v" "2 ^ 12"] split_512 [of "unat v'" "2 ^ 12"] by simp
  then have "unat (v AND NOT 4095) = unat (v' AND NOT 4095)" unfolding unat_align_down by simp
  then show ?thesis using unsigned_word_eqI by blast
qed

lemma get_pte_node:
  assumes T: "tree r s" and v: "user_addr v"
  shows "user_vm_get_pte r v s = (case node r (vpath v) s of None \<Rightarrow> None | Some t \<Rightarrow> Some (t + 8 * PT_INDEX v))"
proof -
  have up: "upath ([] @ [PML4_INDEX v])" "upath ([PML4_INDEX v] @ [PDPT_INDEX v])" "upath ([PML4_INDEX v, PDPT_INDEX v] @ [PD_INDEX v])"
    using user_upath [OF v] by (simp_all add: upath_def vpath_def)
  show ?thesis
    using treeD(3) [OF T up(1)] treeD(3) [OF T up(2)] treeD(3) [OF T up(3)]
    by (auto simp: user_vm_get_pte_def vpath_def Let_def)
qed

lemma pte_of_leaf: "tree r s \<Longrightarrow> user_addr v \<Longrightarrow> pte_of r v s = leaf r (vpath v) (PT_INDEX v) s"
  by (simp add: pte_of_def get_pte_node leaf_def split: option.split)

text \<open>Writing a leaf entry.\<close>

lemma set_leaf:
  fixes w :: u64
  assumes T: "tree r s" and q: "upath q" "length q = 3" "node r q s = Some u" "j < 512"
  defines "s' \<equiv> set64 (u + 8 * j) w s"
  shows "tree r s'" "\<And>q. upath q \<Longrightarrow> node r q s' = node r q s" "leaf r q j s' = w"
    "\<And>q' j'. upath q' \<Longrightarrow> length q' = 3 \<Longrightarrow> j' < 512 \<Longrightarrow> (q', j') \<noteq> (q, j) \<Longrightarrow> leaf r q' j' s' = leaf r q' j' s"
proof -
  have eq: "get64 (x + 8 * l) s' = get64 (x + 8 * l) s" if "upath z" "node r z s = Some x" "l < 512" "(z, l) \<noteq> (q, j)" for z x l
    unfolding s'_def by (rule set_entry_other [OF T q(1,3,4) that])
  have ne: "(z, l) \<noteq> (q, j)" if "upath (z @ [l])" for z l using upath_snoc [OF that] q(2) by auto
  have up: "get64 (x + 8 * l) s' = get64 (x + 8 * l) s" if "upath (z @ [l])" "node r z s = Some x" for z x l
    using eq [OF _ that(2) _ ne [OF that(1)]] upath_snoc [OF that(1)] by blast
  show nd: "node r z s' = node r z s" if "upath z" for z by (rule node_same [OF _ that]) (simp add: up)
  have us: "in_use x s' = in_use x s" for x by (simp add: in_use_def s'_def)
  show "tree r s'" unfolding tree_def
  proof (intro conjI allI impI)
    show "in_use x s'" if "upath z \<and> node r z s' = Some x" for z x using that nd treeD(1) [OF T] us by auto
    show "z = z'" if "upath z \<and> upath z' \<and> node r z s' = Some x \<and> node r z' s' = Some x" for z z' x
      using that nd treeD(2) [OF T] by auto
    show "get64 (x + 8 * l) s' AND PTE_HUGE = 0" if "upath (z @ [l]) \<and> node r z s' = Some x \<and> present (get64 (x + 8 * l) s')" for z x l
      using that nd [of z] upath_snoc [of z l] up [of z l x] treeD(3) [OF T, of z l x] by auto
  qed
  show "leaf r q j s' = w" using nd [OF q(1)] q(3) by (simp add: leaf_def s'_def)
  show "leaf r q' j' s' = leaf r q' j' s" if "upath q'" "length q' = 3" "j' < 512" "(q', j') \<noteq> (q, j)" for q' j'
    using eq [OF that(1) _ that(3,4)] nd [OF that(1)] by (auto simp: leaf_def split: option.splits)
qed

lemma map_page_spec:
  assumes T: "tree r s" and v: "user_addr v" and rm: "roomy 3 s"
  obtains t where "user_vm_map_page r v phys flags s = (0, t)" "tree r t" "roomy 0 t"
    "pte_of r v t = phys AND PTE_ADDR_MASK OR flags OR PTE_PRESENT"
    "\<And>v'. user_addr v' \<Longrightarrow> v' AND NOT 4095 \<noteq> v AND NOT 4095 \<Longrightarrow> pte_of r v' t = pte_of r v' s"
    "\<And>x. data_frame r x s \<Longrightarrow> keeps_frame r x s t"
proof -
  let ?w = "phys AND PTE_ADDR_MASK OR flags OR PTE_PRESENT"
  have up: "upath (vpath v)" by (rule user_upath [OF v])
  have ups: "upath ([] @ [PML4_INDEX v])" "upath ([PML4_INDEX v] @ [PDPT_INDEX v])" "upath ([PML4_INDEX v, PDPT_INDEX v] @ [PD_INDEX v])"
    using up by (simp_all add: upath_def vpath_def)
  have rm3: "roomy (Suc (Suc (Suc 0))) s" using rm by (simp add: numeral_3_eq_3)
  obtain u1 s1 where L1: "user_level (r + 8 * PML4_INDEX v) s = (Some u1, s1)" "tree r s1" "node r ([] @ [PML4_INDEX v]) s1 = Some u1"
    "roomy (Suc (Suc 0)) s1" "vm_sched s1 = vm_sched s" "\<And>q j. upath q \<Longrightarrow> length q = 3 \<Longrightarrow> j < 512 \<Longrightarrow> leaf r q j s1 = leaf r q j s"
    "\<And>x. data_frame r x s \<Longrightarrow> keeps_frame r x s s1"
    by (rule user_level_spec [OF T ups(1) _ rm3, of r]) (simp, rule that)
  have n1: "node r [PML4_INDEX v] s1 = Some u1" using L1(3) by simp
  obtain u2 s2 where L2: "user_level (u1 + 8 * PDPT_INDEX v) s1 = (Some u2, s2)" "tree r s2" "node r ([PML4_INDEX v] @ [PDPT_INDEX v]) s2 = Some u2"
    "roomy (Suc 0) s2" "vm_sched s2 = vm_sched s1" "\<And>q j. upath q \<Longrightarrow> length q = 3 \<Longrightarrow> j < 512 \<Longrightarrow> leaf r q j s2 = leaf r q j s1"
    "\<And>x. data_frame r x s1 \<Longrightarrow> keeps_frame r x s1 s2"
    by (rule user_level_spec [OF L1(2) ups(2) n1 L1(4)]) (rule that)
  have n2: "node r [PML4_INDEX v, PDPT_INDEX v] s2 = Some u2" using L2(3) by simp
  obtain u3 s3 where L3: "user_level (u2 + 8 * PD_INDEX v) s2 = (Some u3, s3)" "tree r s3"
    "node r ([PML4_INDEX v, PDPT_INDEX v] @ [PD_INDEX v]) s3 = Some u3"
    "roomy 0 s3" "vm_sched s3 = vm_sched s2" "\<And>q j. upath q \<Longrightarrow> length q = 3 \<Longrightarrow> j < 512 \<Longrightarrow> leaf r q j s3 = leaf r q j s2"
    "\<And>x. data_frame r x s2 \<Longrightarrow> keeps_frame r x s2 s3"
    by (rule user_level_spec [OF L2(2) ups(3) n2 L2(4)]) (rule that)
  have n3: "node r (vpath v) s3 = Some u3" "length (vpath v) = 3" using L3(3) by (simp_all add: vpath_def)
  define s4 where "s4 = set64 (u3 + 8 * PT_INDEX v) ?w s3"
  note S = set_leaf [OF L3(2) up n3(2,1) index_less(4) [of v], where w = ?w, folded s4_def]
  obtain rt where mp: "user_vm_map_page r v phys flags s = (0, s4\<lparr>rmap_table := rt\<rparr>)"
  proof (rule that)
    let ?t = "if v < KERNEL_VMA then (case current_process (vm_sched s4) of
         Some i \<Rightarrow> rmap_set (unat phys) (p_pid (procs (vm_sched s4) ! i)) v s4 | None \<Rightarrow> s4) else s4"
    have "user_vm_map_page r v phys flags s = (0, ?t)"
      unfolding user_vm_map_page_def Let_def s4_def by (simp add: L1(1) L2(1) L3(1))
    moreover have "?t = s4\<lparr>rmap_table := rmap_table ?t\<rparr>" by (simp add: rmap_set_def Let_def split: option.split)
    ultimately show "user_vm_map_page r v phys flags s = (0, s4\<lparr>rmap_table := rmap_table ?t\<rparr>)" by simp
  qed
  let ?t = "s4\<lparr>rmap_table := rt\<rparr>"
  have g: "get64 a ?t = get64 a s4" for a by (simp add: get64_def)
  have nt: "node x q ?t = node x q s4" for x q by (induction q arbitrary: x) (simp_all add: g)
  have lt: "leaf x q j ?t = leaf x q j s4" for x q j by (simp add: leaf_def nt g split: option.split)
  have us: "in_use x ?t = in_use x s4" for x by (simp add: in_use_def)
  have tt: "tree r ?t" using S(1) unfolding tree_def nt g us .
  have rt0: "roomy 0 ?t" using L3(4) by (simp add: roomy_def s4_def)
  have pv: "pte_of r v ?t = ?w" using pte_of_leaf [OF tt v] S(3) by (simp add: lt)
  have ot: "pte_of r v' ?t = pte_of r v' s" if v': "user_addr v'" "v' AND NOT 4095 \<noteq> v AND NOT 4095" for v'
  proof -
    have ne: "(vpath v', PT_INDEX v') \<noteq> (vpath v, PT_INDEX v)" using index_page [OF v'(1) v] v'(2) by auto
    have u': "upath (vpath v')" "length (vpath v') = 3" using user_upath [OF v'(1)] by (simp_all add: vpath_def)
    have "leaf r (vpath v') (PT_INDEX v') ?t = leaf r (vpath v') (PT_INDEX v') s"
      using S(4) [OF u' index_less(4) ne] L3(6) [OF u' index_less(4)] L2(6) [OF u' index_less(4)] L1(6) [OF u' index_less(4)] by (simp add: lt)
    then show ?thesis using pte_of_leaf [OF tt v'(1)] pte_of_leaf [OF T v'(1)] by simp
  qed
  have kf: "keeps_frame r x s ?t" if x: "data_frame r x s" for x
  proof -
    note k1 = L1(7) [OF x]
    note k2 = L2(7) [OF k1 [unfolded keeps_frame_def, THEN conjunct1]]
    note k3 = L3(7) [OF k2 [unfolded keeps_frame_def, THEN conjunct1]]
    have "keeps_frame r x s3 s4"
      unfolding s4_def using k3 S(2) [unfolded s4_def] index_less
      by (intro set_entry_keeps_frame [OF L3(2) up n3(1)]) (auto simp: keeps_frame_def)
    then have "keeps_frame r x s s4" using k1 k2 k3 keeps_frame_trans by blast
    then show ?thesis by (simp add: keeps_frame_def data_frame_def nt us)
  qed
  show ?thesis by (rule that [OF mp tt rt0 pv ot kf])
qed

section \<open>A small machine\<close>

text \<open>128 frames, the first 16 in use; the tables of the address space at frame 8 are empty.\<close>

definition small_vm :: vm where
  "small_vm =
     \<lparr>vm_sched = demo_sched,
      vm_pmm = \<lparr>bitmap = [0xFF, 0xFF] @ replicate 14 0, total_pages = 128, free_pages = 112, max_phys_addr = 128 * 4096,
                alloc_hint = 16, page_refcount = replicate 16 1 @ replicate 112 0, kernel_page_limit = 4\<rparr>,
      vm_mem = (\<lambda>_. 0), rmap_table = (\<lambda>_. \<lparr>rm_pid = 0, rm_virt_addr = 0\<rparr>), swap_slots = (\<lambda>_. False), swap_used = 0,
      swap_ready = True, clock_hand = 0, vm_fs = small_fs\<rparr>"

lemma small_vm_frames: "free_frames (vm_pmm small_vm) = {16..<128}"
proof -
  have "bitmap_test ([0xFF, 0xFF] @ replicate 14 0) p \<longleftrightarrow> p < 16" if "p < 128" for p
  proof (cases "p < 16")
    case True
    then have "([0xFF, 0xFF] @ replicate 14 (0::u8)) ! (p div 8) = replicate 2 0xFF ! (p div 8)"
      by (cases "p div 8 = 0") (auto simp: nth_append div_eq_0_iff nth_Cons')
    then show ?thesis using True bitmap_test_full [of p 2] by (simp add: bitmap_test_def)
  next
    case False
    then have "2 \<le> p div 8" "p div 8 < 16" using that by (simp_all add: le_div_geq div_less_iff_less_mult less_eq_div_iff_mult_less_eq)
    then have "([0xFF, 0xFF] @ replicate 14 (0::u8)) ! (p div 8) = 0" by (simp add: nth_append)
    then show ?thesis using False by (simp add: bitmap_test_def)
  qed
  then show ?thesis by (auto simp: free_frames_def small_vm_def)
qed

lemma small_vm_ok: "roomy 80 small_vm" "tree 0x8000 small_vm"
proof -
  have "bitmap_test (bitmap (vm_pmm small_vm)) p" if "p < 16" for p
  proof (rule ccontr)
    assume "\<not> bitmap_test (bitmap (vm_pmm small_vm)) p"
    then have "p \<in> free_frames (vm_pmm small_vm)" using that by (simp add: free_frames_def small_vm_def)
    then show False using that by (simp add: small_vm_frames)
  qed
  then have "pmm_inv (vm_pmm small_vm)"
    unfolding pmm_inv_def using small_vm_frames by (auto simp: small_vm_def nth_append split: if_splits)
  then show "roomy 80 small_vm" unfolding roomy_def by (simp add: small_vm_frames RMAP_MAX_PAGES_def) (simp add: small_vm_def)
  have z: "get64 a small_vm = 0" for a by (simp add: get64_def small_vm_def le64_def le32_def)
  have n: "node r q small_vm = (if q = [] then Some r else None)" for r q by (cases q) (simp_all add: z)
  have u: "in_use 0x8000 small_vm" by (simp add: in_use_def small_vm_frames) (simp add: small_vm_def)
  show "tree 0x8000 small_vm" unfolding tree_def n z using u by (auto split: if_splits)
qed

lemma index_cong:
  assumes "v AND NOT 4095 = v' AND NOT 4095"
  shows "vpath v = vpath v'" "PT_INDEX v = PT_INDEX v'"
proof -
  have "unat v div 4096 * 4096 = unat v' div 4096 * 4096" using arg_cong [OF assms, of unat] unfolding unat_align_down .
  then have e: "unat v div 4096 = unat v' div 4096" by simp
  have d: "unat w div (4096 * k) = unat w div 4096 div k" for w :: u64 and k by (rule div_mult2_eq)
  have "unat v div (4096 * k) = unat v' div (4096 * k)" for k unfolding d e ..
  from this [of "2 ^ 27"] this [of "2 ^ 18"] this [of "2 ^ 9"] this [of 1]
  show "vpath v = vpath v'" "PT_INDEX v = PT_INDEX v'" by (simp_all add: vpath_def index_nat)
qed

text \<open>
  C11 Mapping a page: on page tables that form a tree, with frames for new tables, \<^verbatim>\<open>user_vm_map_page\<close>
  succeeds; afterwards the walk finds for every address in the page the frame and flags asked for, for
  every address in another page of user space what it found before, and the tables form a tree again.
\<close>

theorem user_vm_map_page_maps_one_page:
  assumes "tree pml4 s" "user_addr virt" "roomy 3 s"
  shows "\<exists>t. user_vm_map_page pml4 virt phys flags s = (0, t) \<and> tree pml4 t \<and>
    (\<forall>v. user_addr v \<longrightarrow> pte_of pml4 v t =
       (if v AND NOT 4095 = virt AND NOT 4095 then phys AND PTE_ADDR_MASK OR flags OR PTE_PRESENT else pte_of pml4 v s))"
proof -
  obtain t where t: "user_vm_map_page pml4 virt phys flags s = (0, t)" "tree pml4 t" "roomy 0 t"
    "pte_of pml4 virt t = phys AND PTE_ADDR_MASK OR flags OR PTE_PRESENT"
    "\<And>v'. user_addr v' \<Longrightarrow> v' AND NOT 4095 \<noteq> virt AND NOT 4095 \<Longrightarrow> pte_of pml4 v' t = pte_of pml4 v' s"
    by (rule map_page_spec [OF assms]) (rule that)
  have "pte_of pml4 v t = phys AND PTE_ADDR_MASK OR flags OR PTE_PRESENT" if "user_addr v" "v AND NOT 4095 = virt AND NOT 4095" for v
    using t(4) pte_of_leaf [OF t(2) that(1)] pte_of_leaf [OF t(2) assms(2)] index_cong [OF that(2)] by simp
  then show ?thesis using t(1,2,5) by (intro exI [of _ t]) (simp del: bit.conj_disj_distrib)
qed

theorem user_vm_map_page_maps_one_page_witness:
  "\<exists>t. user_vm_map_page 0x8000 0x400000 0x50000 7 small_vm = (0, t) \<and> pte_of 0x8000 0x400123 t = 0x50007"
proof -
  have a: "user_addr 0x400000" "user_addr 0x400123" by (simp_all add: user_addr_def)
  have r: "roomy 3 small_vm" using small_vm_ok(1) by (simp add: roomy_def)
  from user_vm_map_page_maps_one_page [OF small_vm_ok(2) a(1) r, where phys = "0x50000" and flags = 7] a(2)
  obtain t where t: "user_vm_map_page 0x8000 0x400000 0x50000 7 small_vm = (0, t)"
    "pte_of 0x8000 0x400123 t = (if (0x400123 :: u64) AND NOT 4095 = 0x400000 AND NOT 4095 then 0x50000 AND PTE_ADDR_MASK OR 7 OR PTE_PRESENT
       else pte_of 0x8000 0x400123 small_vm)" by blast
  show ?thesis by (rule exI [of _ t]) (simp add: t PTE_ADDR_MASK_def PTE_PRESENT_def)
qed

end
