(* ===== verification/CowSpec.thy ===== *)
theory CowSpec
  imports PageTree
begin

text \<open>Copy on write: after the fault the page is private, holds the same bytes, and nothing else changed.\<close>

section \<open>Flags\<close>

lemma bit_flags:
  "bit PTE_COW n \<longleftrightarrow> n = 9" "bit PTE_WRITABLE n \<longleftrightarrow> n = 1" "bit PTE_PRESENT n \<longleftrightarrow> n = 0"
proof -
  have e: "PTE_COW = 2 ^ 9" "PTE_WRITABLE = 2 ^ 1" "PTE_PRESENT = 2 ^ 0" by (simp_all add: PTE_COW_def PTE_WRITABLE_def PTE_PRESENT_def)
  have "bit (2 ^ k :: u64) n \<longleftrightarrow> n = k" if "k < 64" for k using that by (auto simp: bit_exp_iff)
  from this [of 9] this [of 1] this [of 0]
  show "bit PTE_COW n \<longleftrightarrow> n = 9" "bit PTE_WRITABLE n \<longleftrightarrow> n = 1" "bit PTE_PRESENT n \<longleftrightarrow> n = 0"
    unfolding e by simp_all
qed

definition writable :: "u64 \<Rightarrow> bool" where
  "writable e \<longleftrightarrow> e AND PTE_WRITABLE \<noteq> 0"

definition cow :: "u64 \<Rightarrow> bool" where
  "cow e \<longleftrightarrow> e AND PTE_COW \<noteq> 0"

lemma flag_bits: "writable e \<longleftrightarrow> bit e 1" "cow e \<longleftrightarrow> bit e 9"
proof -
  have "PTE_COW = 2 ^ 9" "PTE_WRITABLE = 2 ^ 1" by (simp_all add: PTE_COW_def PTE_WRITABLE_def)
  then show "writable e \<longleftrightarrow> bit e 1" "cow e \<longleftrightarrow> bit e 9"
    using and_exp_eq_0_iff_not_bit [of e 1] and_exp_eq_0_iff_not_bit [of e 9] by (simp_all only: writable_def cow_def) simp_all
qed

text \<open>The entry the fault handler writes.\<close>

definition cow_entry :: "u64 \<Rightarrow> u64 \<Rightarrow> u64" where
  "cow_entry frame e = frame AND PTE_ADDR_MASK OR ((e AND NOT PTE_ADDR_MASK AND NOT PTE_COW) OR PTE_WRITABLE)"

lemma cow_entry_flags:
  assumes "present e"
  shows "present (cow_entry fr e)" "writable (cow_entry fr e)" "\<not> cow (cow_entry fr e)"
  using assms by (auto simp: cow_entry_def present_bit flag_bits bit_simps bit_flags bit_PTE_ADDR_MASK)

lemma cow_entry_phys: "pte_phys (cow_entry fr e) = pte_phys fr"
proof -
  have "cow_entry fr e AND PTE_ADDR_MASK = fr AND PTE_ADDR_MASK"
    by (rule bit_word_eqI) (auto simp: cow_entry_def bit_simps bit_flags bit_PTE_ADDR_MASK)
  then show ?thesis by (simp add: pte_phys_def)
qed

lemma pte_phys_of_nat: "f mod 4096 = 0 \<Longrightarrow> f < 2 ^ 52 \<Longrightarrow> pte_phys (of_nat f) = f"
  using pte_phys_frame [of f 0] by simp

lemma pte_phys_aligned: "pte_phys e mod 4096 = 0"
proof -
  have "e AND PTE_ADDR_MASK = (e AND PTE_ADDR_MASK) AND NOT 4095"
  proof (rule bit_word_eqI)
    fix n
    have "(4095 :: u64) = mask 12" by (simp add: mask_eq_exp_minus_1)
    then have "bit (4095 :: u64) n \<longleftrightarrow> n < 12" if "n < 64" using that by (simp only: bit_mask_iff) (simp add: possible_bit_def)
    moreover assume "n < LENGTH(64)"
    ultimately have nb: "bit (NOT 4095 :: u64) n \<longleftrightarrow> 12 \<le> n" by (simp only: bit_not_iff) auto
    show "bit (e AND PTE_ADDR_MASK) n = bit ((e AND PTE_ADDR_MASK) AND NOT 4095) n"
      unfolding bit_and_iff nb bit_PTE_ADDR_MASK by auto
  qed
  then have "pte_phys e = unat ((e AND PTE_ADDR_MASK) AND NOT 4095)" by (simp only: pte_phys_def)
  then show ?thesis unfolding unat_align_down by simp
qed

section \<open>States that agree on the frames in use\<close>

lemma tree_cong:
  assumes T: "tree r s"
    and eq: "\<And>u j. in_use u s \<Longrightarrow> j < 512 \<Longrightarrow> get64 (u + 8 * j) s' = get64 (u + 8 * j) s"
    and us: "\<And>u. in_use u s \<Longrightarrow> in_use u s'"
  shows "tree r s'" "\<And>q. upath q \<Longrightarrow> node r q s' = node r q s"
    "\<And>q j. upath q \<Longrightarrow> j < 512 \<Longrightarrow> leaf r q j s' = leaf r q j s"
proof -
  have up: "get64 (x + 8 * l) s' = get64 (x + 8 * l) s" if "upath z" "l < 512" "node r z s = Some x" for z x l
    by (rule eq) (use treeD(1) [OF T that(1,3)] that(2) in auto)
  show nd: "node r z s' = node r z s" if "upath z" for z
  proof (rule node_same [OF _ that])
    fix q u j assume "upath (q @ [j])" "node r q s = Some u"
    then show "present (get64 (u + 8 * j) s') = present (get64 (u + 8 * j) s) \<and> pte_phys (get64 (u + 8 * j) s') = pte_phys (get64 (u + 8 * j) s)"
      using up [of q j u] upath_snoc [of q j] by simp
  qed
  show "tree r s'" unfolding tree_def
  proof (intro conjI allI impI)
    show "in_use x s'" if "upath z \<and> node r z s' = Some x" for z x using that nd treeD(1) [OF T] us by auto
    show "z = z'" if "upath z \<and> upath z' \<and> node r z s' = Some x \<and> node r z' s' = Some x" for z z' x
      using that nd treeD(2) [OF T] by auto
    show "get64 (x + 8 * l) s' AND PTE_HUGE = 0" if "upath (z @ [l]) \<and> node r z s' = Some x \<and> present (get64 (x + 8 * l) s')" for z x l
      using that nd [of z] upath_snoc [of z l] up [of z l x] treeD(3) [OF T, of z l x] by auto
  qed
  show "leaf r q j s' = leaf r q j s" if "upath q" "j < 512" for q j
    using up [OF that] nd [OF that(1)] by (auto simp: leaf_def split: option.splits)
qed

section \<open>The fault\<close>

definition refs :: "nat \<Rightarrow> vm \<Rightarrow> u8" where
  "refs f s = pmm_page_refcount f (vm_pmm s)"

definition is_table :: "nat \<Rightarrow> nat \<Rightarrow> vm \<Rightarrow> bool" where
  "is_table r f s \<longleftrightarrow> (\<exists>q. upath q \<and> node r q s = Some f)"

text \<open>The page at \<open>v\<close> is present and copy-on-write, its frame is a frame in use and no page table.\<close>

definition cow_page :: "nat \<Rightarrow> u64 \<Rightarrow> vm \<Rightarrow> bool" where
  "cow_page r v s \<longleftrightarrow> present (pte_of r v s) \<and> cow (pte_of r v s) \<and> in_use (pte_phys (pte_of r v s)) s \<and>
     0 < refs (pte_phys (pte_of r v s)) s \<and> \<not> is_table r (pte_phys (pte_of r v s)) s"

lemma frame_apart:
  assumes "f mod 4096 = 0" "g mod 4096 = (0 :: nat)" "f \<noteq> g"
  shows "f + 4096 \<le> g \<or> g + 4096 \<le> f"
proof -
  obtain a b where "f = 4096 * a" "g = 4096 * b" using assms(1,2) by (meson mod_0_imp_dvd dvdE)
  then show ?thesis using assms(3) by auto
qed

lemma set_leaf_mem:
  assumes "u mod 4096 = 0" "j < 512" "a < u \<or> u + 4096 \<le> a"
  shows "vm_mem (set64 (u + 8 * j) w s) a = vm_mem s a"
  using assms by (auto simp: set64_def mem_put_def)

text \<open>What both branches of the handler give.\<close>

definition cow_done :: "nat \<Rightarrow> u64 \<Rightarrow> vm \<Rightarrow> vm \<Rightarrow> bool" where
  "cow_done r v s t \<longleftrightarrow>
     (let e = pte_of r v s; e' = pte_of r v t in
      tree r t \<and> present e' \<and> writable e' \<and> \<not> cow e' \<and> refs (pte_phys e') t = 1 \<and>
      map (vm_mem t) [pte_phys e'..<pte_phys e' + 4096] = map (vm_mem s) [pte_phys e..<pte_phys e + 4096] \<and>
      (if refs (pte_phys e) s = 1 then pte_phys e' = pte_phys e
       else pte_phys e' div 4096 \<in> free_frames (vm_pmm s) \<and> refs (pte_phys e) t = refs (pte_phys e) s - 1) \<and>
      (\<forall>v'. user_addr v' \<and> v' AND NOT 4095 \<noteq> v AND NOT 4095 \<longrightarrow> pte_of r v' t = pte_of r v' s) \<and>
      (\<forall>a. in_use (a div 4096 * 4096) s \<and> \<not> is_table r (a div 4096 * 4096) s \<longrightarrow> vm_mem t a = vm_mem s a))"

lemma cow_leaf_done:
  assumes T: "tree r s" and v: "user_addr v" and n: "node r (vpath v) s1 = Some u"
    and T1: "tree r s1" and nd: "\<And>q. upath q \<Longrightarrow> node r q s1 = node r q s"
    and lf: "\<And>q j. upath q \<Longrightarrow> j < 512 \<Longrightarrow> leaf r q j s1 = leaf r q j s"
    and pr: "present (pte_of r v s)" and f: "pte_phys fr = f" "f mod 4096 = 0" "\<not> is_table r f s"
    and cp: "\<And>i. i < 4096 \<Longrightarrow> vm_mem s1 (f + i) = vm_mem s (pte_phys (pte_of r v s) + i)"
    and rf: "refs f s1 = 1" and old: "if refs (pte_phys (pte_of r v s)) s = 1 then f = pte_phys (pte_of r v s)
       else f div 4096 \<in> free_frames (vm_pmm s) \<and> refs (pte_phys (pte_of r v s)) s1 = refs (pte_phys (pte_of r v s)) s - 1"
    and mem: "\<And>a. in_use (a div 4096 * 4096) s \<Longrightarrow> vm_mem s1 a = vm_mem s a"
  shows "cow_done r v s (set64 (u + 8 * PT_INDEX v) (cow_entry fr (pte_of r v s)) s1)"
proof -
  let ?w = "cow_entry fr (pte_of r v s)"
  let ?t = "set64 (u + 8 * PT_INDEX v) ?w s1"
  have up: "upath (vpath v)" "length (vpath v) = 3" using user_upath [OF v] by (simp_all add: vpath_def)
  note S = set_leaf [OF T1 up n index_less(4) [of v], where w = ?w]
  have pt: "pte_of r v ?t = ?w" using pte_of_leaf [OF S(1) v] S(3) by simp
  have ut: "is_table r u s" using n up(1) nd [OF up(1)] by (auto simp: is_table_def)
  have um: "u mod 4096 = 0" using treeD(1) [OF T1 up(1) n] by (simp add: in_use_def)
  have fu: "f \<noteq> u" using ut f(3) by auto
  have ot: "pte_of r v' ?t = pte_of r v' s" if v': "user_addr v'" "v' AND NOT 4095 \<noteq> v AND NOT 4095" for v'
  proof -
    have ne: "(vpath v', PT_INDEX v') \<noteq> (vpath v, PT_INDEX v)" using index_page [OF v'(1) v] v'(2) by auto
    have u': "upath (vpath v')" "length (vpath v') = 3" using user_upath [OF v'(1)] by (simp_all add: vpath_def)
    show ?thesis using S(4) [OF u' index_less(4) ne] lf [OF u'(1) index_less(4)] pte_of_leaf [OF S(1) v'(1)] pte_of_leaf [OF T v'(1)] by simp
  qed
  have mf: "vm_mem ?t (f + i) = vm_mem s1 (f + i)" if "i < 4096" for i
    by (rule set_leaf_mem [OF um index_less(4)]) (use frame_apart [OF f(2) um fu] that in auto)
  have cont: "map (vm_mem ?t) [f..<f + 4096] = map (vm_mem s) [pte_phys (pte_of r v s)..<pte_phys (pte_of r v s) + 4096]"
    by (rule nth_equalityI) (simp_all add: mf cp)
  have ma: "vm_mem ?t a = vm_mem s a" if a: "in_use (a div 4096 * 4096) s" "\<not> is_table r (a div 4096 * 4096) s" for a
  proof -
    have ne: "a div 4096 * 4096 \<noteq> u" using a(2) ut by auto
    have am: "a div 4096 * 4096 mod 4096 = 0" by simp
    have "a div 4096 * 4096 + 4096 \<le> u \<or> u + 4096 \<le> a div 4096 * 4096" by (rule frame_apart [OF am um ne])
    then have "a < u \<or> u + 4096 \<le> a" using div_mult_mod_eq [of a 4096] mod_less_divisor [of 4096 a] by linarith
    then have "vm_mem ?t a = vm_mem s1 a" by (rule set_leaf_mem [OF um index_less(4)])
    then show ?thesis using mem [OF a(1)] by simp
  qed
  have rt: "refs x ?t = refs x s1" for x by (simp add: refs_def)
  have ph: "pte_phys ?w = f" using f(1) by (simp add: cow_entry_phys)
  show ?thesis
    unfolding cow_done_def Let_def pt ph rt using S(1) cow_entry_flags [OF pr] rf cont old ot ma by auto
qed

lemma memcpy_frame:
  assumes "f mod 4096 = 0" "d mod 4096 = 0" "f \<noteq> d"
  shows "memcpy f d PAGE_SIZE m = (\<lambda>a. if f \<le> a \<and> a < f + 4096 then m (d + (a - f)) else m a)"
proof -
  have "f \<le> d \<or> d + PAGE_SIZE \<le> f" using frame_apart [OF assms] by (auto simp: PAGE_SIZE_def)
  then show ?thesis by (simp add: memcpy_up copied_def PAGE_SIZE_def fun_eq_iff)
qed

lemma get64_mem_frame:
  assumes "\<And>a. u \<le> a \<Longrightarrow> a < u + 4096 \<Longrightarrow> vm_mem s' a = vm_mem s a" "j < 512"
  shows "get64 (u + 8 * j) s' = get64 (u + 8 * j) s"
  unfolding get64_def by (rule le64_cong) (use assms in auto)

lemma unref_shared:
  assumes "d div 4096 < total_pages p" "1 < page_refcount p ! (d div 4096)" "length (page_refcount p) = total_pages p"
  shows "pmm_page_unref d p = p\<lparr>page_refcount := (page_refcount p)[d div 4096 := page_refcount p ! (d div 4096) - 1]\<rparr>"
proof -
  have "page_refcount p ! (d div 4096) - 1 \<noteq> 0" using assms(2) by auto
  moreover have "0 < page_refcount p ! (d div 4096)" using assms(2) by (rule order.strict_trans [rotated]) simp
  ultimately show ?thesis using assms by (simp add: pmm_page_unref_def Let_def PAGE_SIZE_def)
qed

lemma cow_copy:
  assumes T: "tree r s" and rm: "roomy 1 s" and d: "in_use d s" "1 < refs d s"
    and A: "pmm_alloc_page s = (f, s\<lparr>vm_pmm := p\<rparr>)" "f mod 4096 = 0" "f div 4096 \<in> free_frames (vm_pmm s)"
    "free_frames p = free_frames (vm_pmm s) - {f div 4096}" "page_refcount p = (page_refcount (vm_pmm s))[f div 4096 := 1]"
    "total_pages p = total_pages (vm_pmm s)"
  defines "s1 \<equiv> on_pmm (pmm_page_unref d) (s\<lparr>vm_pmm := p, vm_mem := memcpy f d PAGE_SIZE (vm_mem s)\<rparr>)"
  shows "\<And>a. in_use (a div 4096 * 4096) s \<Longrightarrow> vm_mem s1 a = vm_mem s a" "\<And>u. in_use u s \<Longrightarrow> in_use u s1"
    "\<And>i. i < 4096 \<Longrightarrow> vm_mem s1 (f + i) = vm_mem s (d + i)" "refs f s1 = 1" "refs d s1 = refs d s - 1"
proof -
  have inv: "pmm_inv (vm_pmm s)" using rm by (simp add: roomy_def)
  have dd: "d mod 4096 = 0" "d div 4096 < total_pages (vm_pmm s)" "d div 4096 \<notin> free_frames (vm_pmm s)" using d(1) by (simp_all add: in_use_def)
  have fd: "f div 4096 \<noteq> d div 4096" using A(3) dd(3) by auto
  then have ne: "f \<noteq> d" by auto
  have ft: "f div 4096 < total_pages (vm_pmm s)" using A(3) by (simp add: free_frames_def)
  have len: "length (page_refcount (vm_pmm s)) = total_pages (vm_pmm s)" using inv by (simp add: pmm_inv_def)
  have rd: "page_refcount p ! (d div 4096) = refs d s" using A(5) fd dd(2) by (simp add: refs_def pmm_page_refcount_def PAGE_SIZE_def)
  have un: "pmm_page_unref d p = p\<lparr>page_refcount := (page_refcount p)[d div 4096 := page_refcount p ! (d div 4096) - 1]\<rparr>"
    by (rule unref_shared) (use dd(2) A(5,6) rd d(2) len in simp_all)
  have mem: "vm_mem s1 = (\<lambda>a. if f \<le> a \<and> a < f + 4096 then vm_mem s (d + (a - f)) else vm_mem s a)"
    by (simp add: s1_def on_pmm_def memcpy_frame [OF A(2) dd(1) ne])
  show "vm_mem s1 a = vm_mem s a" if a: "in_use (a div 4096 * 4096) s" for a
  proof -
    have "a div 4096 \<noteq> f div 4096" using a A(3) by (auto simp: in_use_def)
    moreover have "a div 4096 = f div 4096" if "f \<le> a" "a < f + 4096"
    proof -
      obtain g where g: "f = 4096 * g" using A(2) by (meson mod_0_imp_dvd dvdE)
      have "a div 4096 = g" by (rule div_nat_eqI) (use that g in auto)
      then show ?thesis using g by simp
    qed
    ultimately show ?thesis by (auto simp: mem)
  qed
  show "in_use u s1" if "in_use u s" for u
    using that A(4,6) by (auto simp: in_use_def s1_def on_pmm_def un)
  show "vm_mem s1 (f + i) = vm_mem s (d + i)" if "i < 4096" for i using that by (simp add: mem)
  have pm: "vm_pmm s1 = p\<lparr>page_refcount := (page_refcount p)[d div 4096 := page_refcount p ! (d div 4096) - 1]\<rparr>"
    by (simp add: s1_def on_pmm_def un)
  show "refs f s1 = 1" "refs d s1 = refs d s - 1"
    using fd ft dd(2) len by (simp_all add: refs_def pmm_page_refcount_def PAGE_SIZE_def pm A(5,6))
qed


text \<open>A machine with one copy-on-write page at \<open>0x400000\<close>, on frame 5 with two owners.\<close>

definition cow_vm :: vm where
  "cow_vm = set64 0xB000 0x5205 (set64 0xA010 0xB007 (set64 0x9000 0xA007 (set64 0x8000 0x9007 (on_pmm (pmm_page_ref 0x5000) small_vm))))"

lemma cow_vm_get:
  "a mod 8 = 0 \<Longrightarrow> get64 a cow_vm =
     (if a = 0xB000 then 0x5205 else if a = 0xA010 then 0xB007 else if a = 0x9000 then 0xA007 else if a = 0x8000 then 0x9007 else 0)"
proof -
  assume a: "a mod 8 = 0"
  have z: "get64 a (on_pmm f small_vm) = 0" for f by (simp add: on_pmm_def get64_def small_vm_def le64_def le32_def)
  have k: "get64 a (set64 b w s) = (if a = b then w else get64 a s)" if "b mod 8 = 0" for b w s
  proof (cases "a = b")
    case False
    have "a + 8 \<le> b \<or> b + 8 \<le> a" using False a that by presburger
    then show ?thesis using False by (simp add: get64_set64_other)
  qed simp
  have "get64 a (set64 0xB000 w s) = (if a = 0xB000 then w else get64 a s)" "get64 a (set64 0xA010 w s) = (if a = 0xA010 then w else get64 a s)"
    "get64 a (set64 0x9000 w s) = (if a = 0x9000 then w else get64 a s)" "get64 a (set64 0x8000 w s) = (if a = 0x8000 then w else get64 a s)" for w s
    by (rule k, simp)+
  then show ?thesis unfolding cow_vm_def by (simp only: z)
qed

lemma cow_vm_node:
  assumes "upath q"
  shows "node 0x8000 q cow_vm =
    (if q = [] then Some 0x8000 else if q = [0] then Some 0x9000 else if q = [0, 0] then Some 0xA000 else if q = [0, 0, 2] then Some 0xB000 else None)"
proof -
  have p: "pte_phys 0x9007 = 0x9000" "pte_phys 0xA007 = 0xA000" "pte_phys 0xB007 = 0xB000" "present 0x9007" "present 0xA007" "present 0xB007"
    by (simp_all add: pte_phys_def PTE_ADDR_MASK_def present_def PTE_PRESENT_def)
  have g: "get64 (0x8000 + 8 * i) cow_vm = (if i = 0 then 0x9007 else 0)" "get64 (0x9000 + 8 * i) cow_vm = (if i = 0 then 0xA007 else 0)"
    "get64 (0xA000 + 8 * i) cow_vm = (if i = 2 then 0xB007 else 0)" if "i < 512" for i
    using that cow_vm_get [of "0x8000 + 8 * i"] cow_vm_get [of "0x9000 + 8 * i"] cow_vm_get [of "0xA000 + 8 * i"] by (auto simp: mod_simps)
  consider "q = []" | i where "q = [i]" "i < 512" | i j where "q = [i, j]" "i < 512" "j < 512"
    | i j k where "q = [i, j, k]" "i < 512" "j < 512" "k < 512"
  proof -
    from assms have l: "length q \<le> 3" "\<forall>i\<in>set q. i < 512" by (simp_all add: upath_def)
    show ?thesis
    proof (cases q)
      case c1: (Cons a q1)
      show ?thesis
      proof (cases q1)
        case c2: (Cons b q2)
        show ?thesis
        proof (cases q2)
          case c3: (Cons c q3)
          then show ?thesis using that(4) [of a b c] l c1 c2 by auto
        qed (use that(3) [of a b] l c1 c2 in auto)
      qed (use that(2) [of a] l c1 in auto)
    qed (use that(1) in auto)
  qed
  moreover have "get64 0x8000 cow_vm = 0x9007" "get64 0x9000 cow_vm = 0xA007" "get64 0xA010 cow_vm = 0xB007" by (simp_all add: cow_vm_get)
  ultimately show ?thesis by cases (simp_all add: g p)
qed

lemma cow_vm_ok: "tree 0x8000 cow_vm" "roomy 1 cow_vm" "cow_page 0x8000 0x400000 cow_vm"
proof -
  have pm: "vm_pmm cow_vm = pmm_page_ref 0x5000 (vm_pmm small_vm)" by (simp add: cow_vm_def on_pmm_def)
  have u5: "bitmap_test (bitmap (vm_pmm small_vm)) 5"
  proof (rule ccontr)
    assume "\<not> bitmap_test (bitmap (vm_pmm small_vm)) 5"
    then have "5 \<in> free_frames (vm_pmm small_vm)" by (simp add: free_frames_def small_vm_def)
    then show False by (simp add: small_vm_frames)
  qed
  have fr: "free_frames (vm_pmm cow_vm) = {16..<128}" "total_pages (vm_pmm cow_vm) = 128"
    unfolding pm free_frames_def pmm_page_ref_def using small_vm_frames unfolding free_frames_def
    by (simp_all add: Let_def) (simp add: small_vm_def)
  have "pmm_inv (vm_pmm cow_vm)" unfolding pm
    by (rule pmm_page_ref_inv) (use small_vm_ok(1) u5 in \<open>simp_all add: roomy_def PAGE_SIZE_def\<close>)
  then show "roomy 1 cow_vm" by (simp add: roomy_def fr RMAP_MAX_PAGES_def)
  have us: "in_use 0x8000 cow_vm" "in_use 0x9000 cow_vm" "in_use 0xA000 cow_vm" "in_use 0xB000 cow_vm" "in_use 0x5000 cow_vm"
    by (simp_all add: in_use_def fr)
  show T: "tree 0x8000 cow_vm" unfolding tree_def
  proof (intro conjI allI impI)
    show "in_use t cow_vm" if "upath q \<and> node 0x8000 q cow_vm = Some t" for q t
      using that cow_vm_node [of q] us by (auto split: if_splits)
    show "q = q'" if "upath q \<and> upath q' \<and> node 0x8000 q cow_vm = Some t \<and> node 0x8000 q' cow_vm = Some t" for q q' t
      using that cow_vm_node [of q] cow_vm_node [of q'] by (auto split: if_splits)
    show "get64 (t + 8 * i) cow_vm AND PTE_HUGE = 0" if h: "upath (q @ [i]) \<and> node 0x8000 q cow_vm = Some t \<and> present (get64 (t + 8 * i) cow_vm)" for q t i
    proof -
      have "upath q" using h upath_snoc by blast
      then have "t mod 8 = 0" using h cow_vm_node [of q] by (auto split: if_splits)
      then have "(t + 8 * i) mod 8 = 0" by presburger
      from cow_vm_get [OF this] show ?thesis by (auto simp: PTE_HUGE_def)
    qed
  qed
  have ua: "user_addr 0x400000" by (simp add: user_addr_def)
  have vp: "vpath 0x400000 = [0, 0, 2]" "PT_INDEX 0x400000 = 0" by (simp_all add: vpath_def index_nat)
  have up: "upath [0, 0, 2]" by (simp add: upath_def)
  have e: "pte_of 0x8000 0x400000 cow_vm = 0x5205"
    using pte_of_leaf [OF T ua] cow_vm_node [OF up] cow_vm_get [of "0xB000"] by (simp add: leaf_def vp)
  have ph: "pte_phys 0x5205 = 0x5000" by (simp add: pte_phys_def PTE_ADDR_MASK_def)
  have rf: "refs 0x5000 cow_vm = 2"
    by (simp add: refs_def pm pmm_page_refcount_def pmm_page_ref_def Let_def PAGE_SIZE_def small_vm_def nth_append)
  have nt: "\<not> is_table 0x8000 0x5000 cow_vm" using cow_vm_node by (auto simp: is_table_def split: if_splits)
  show "cow_page 0x8000 0x400000 cow_vm"
    unfolding cow_page_def e ph rf using us(5) nt by (simp add: present_def PTE_PRESENT_def cow_def PTE_COW_def)
qed


end
