(* ===== verification/BlockCache.thy ===== *)
theory BlockCache
  imports KHeap Disk "HOL-Library.Monad_Syntax" "HOL-Library.Multiset"
begin

text \<open>
  The block cache (\<^verbatim>\<open>kernel/drivers/blockcache.c\<close>): a table of entries, found through chained
  hash lists, with write-back on eviction and on \<^verbatim>\<open>bcache_sync\<close>. A \<^verbatim>\<open>struct bcache_entry *\<close> is
  the index of the entry, \<open>None\<close> the null pointer. The walks along a hash list do not end on a
  cyclic list, so they are partial functions: the outer \<open>option\<close> of the operations is \<open>None\<close> when
  a walk does not end.
\<close>

section \<open>Model\<close>

definition BCACHE_SIZE :: nat where "BCACHE_SIZE = 256"
definition BCACHE_HASH_SIZE :: nat where "BCACHE_HASH_SIZE = 64"

record bcache_entry =
  be_block_no :: u32
  be_data :: "u8 list option"
  be_dirty :: bool
  be_valid :: bool
  be_in_use :: bool
  be_refcount :: u32
  be_lru_tick :: u32
  be_hash_next :: "nat option"

record bcache =
  bc_cache :: "bcache_entry list"
  bc_hash :: "nat option list"
  bc_ready :: bool
  cache_hits :: u64
  cache_misses :: u64
  cached_block_size :: u32
  bc_disk :: disk

abbreviation ent :: "bcache \<Rightarrow> nat \<Rightarrow> bcache_entry" where
  "ent s i \<equiv> bc_cache s ! i"

definition upd_ent :: "nat \<Rightarrow> (bcache_entry \<Rightarrow> bcache_entry) \<Rightarrow> bcache \<Rightarrow> bcache" where
  "upd_ent i f s = s\<lparr>bc_cache := upd_nth i f (bc_cache s)\<rparr>"

definition empty_entry :: bcache_entry where
  "empty_entry = \<lparr>be_block_no = 0, be_data = None, be_dirty = False, be_valid = False, be_in_use = False,
                  be_refcount = 0, be_lru_tick = 0, be_hash_next = None\<rparr>"

definition hash_fn :: "u32 \<Rightarrow> nat" where
  "hash_fn block_no = unat block_no mod BCACHE_HASH_SIZE"

text \<open>The buffers come from the heap; \<open>junk p\<close> is what the memory at \<open>p\<close> happens to hold.\<close>

fun alloc_buffers :: "(nat \<Rightarrow> u8 list) \<Rightarrow> nat list \<Rightarrow> kheap \<times> bcache \<Rightarrow> (kheap \<times> bcache) option" where
  "alloc_buffers junk [] hs = Some hs"
| "alloc_buffers junk (i # is) (h, s) =
     do { (p, h1) \<leftarrow> kmalloc 4096 h;
          if p = 0 then Some (h1, s)
          else alloc_buffers junk is (h1, upd_ent i (\<lambda>e. e\<lparr>be_data := Some (junk p)\<rparr>) s) }"

definition bcache_init :: "(nat \<Rightarrow> u8 list) \<Rightarrow> kheap \<times> bcache \<Rightarrow> (kheap \<times> bcache) option" where
  "bcache_init junk hs =
     (case hs of (h, s) \<Rightarrow>
        do { (h1, s1) \<leftarrow> alloc_buffers junk [0..<BCACHE_SIZE]
               (h, s\<lparr>bc_cache := replicate BCACHE_SIZE empty_entry, bc_hash := replicate BCACHE_HASH_SIZE None\<rparr>);
             Some (h1, s1\<lparr>bc_ready := True\<rparr>) })"

definition bcache_set_block_size :: "u32 \<Rightarrow> bcache \<Rightarrow> bcache" where
  "bcache_set_block_size bs s = s\<lparr>cached_block_size := bs\<rparr>"

definition bcache_disk_read :: "u32 \<Rightarrow> bcache \<Rightarrow> int \<times> u8 list" where
  "bcache_disk_read block_no s =
     (let sectors_per_block = cached_block_size s div 512; lba = block_no * sectors_per_block
      in ata_read_sectors lba (ucast sectors_per_block) (bc_disk s))"

definition bcache_disk_write :: "u32 \<Rightarrow> u8 list \<Rightarrow> bcache \<Rightarrow> int \<times> bcache" where
  "bcache_disk_write block_no buf s =
     (let sectors_per_block = cached_block_size s div 512; lba = block_no * sectors_per_block
      in case ata_write_sectors lba (ucast sectors_per_block) buf (bc_disk s) of (r, d) \<Rightarrow> (r, s\<lparr>bc_disk := d\<rparr>))"

partial_function (option) hash_find_from :: "bcache_entry list \<Rightarrow> u32 \<Rightarrow> nat option \<Rightarrow> nat option option" where
  "hash_find_from c block_no e =
     (case e of
        None \<Rightarrow> Some None
      | Some i \<Rightarrow> if be_valid (c ! i) \<and> be_block_no (c ! i) = block_no then Some (Some i)
                 else hash_find_from c block_no (be_hash_next (c ! i)))"

definition bcache_hash_find :: "u32 \<Rightarrow> bcache \<Rightarrow> nat option option" where
  "bcache_hash_find block_no s = hash_find_from (bc_cache s) block_no (bc_hash s ! hash_fn block_no)"

text \<open>The pointer \<^verbatim>\<open>pp\<close> of \<^verbatim>\<open>bcache_hash_remove\<close>: to the head of a list or to the link of an entry.\<close>

datatype link = Head nat | Link nat

definition load_link :: "link \<Rightarrow> bcache \<Rightarrow> nat option" where
  "load_link pp s = (case pp of Head h \<Rightarrow> bc_hash s ! h | Link i \<Rightarrow> be_hash_next (ent s i))"

definition store_link :: "link \<Rightarrow> nat option \<Rightarrow> bcache \<Rightarrow> bcache" where
  "store_link pp v s =
     (case pp of Head h \<Rightarrow> s\<lparr>bc_hash := (bc_hash s)[h := v]\<rparr> | Link i \<Rightarrow> upd_ent i (\<lambda>e. e\<lparr>be_hash_next := v\<rparr>) s)"

partial_function (option) remove_from :: "nat \<Rightarrow> link \<Rightarrow> bcache \<Rightarrow> bcache option" where
  "remove_from entry pp s =
     (case load_link pp s of
        None \<Rightarrow> Some s
      | Some i \<Rightarrow>
          if i = entry
          then Some (upd_ent entry (\<lambda>e. e\<lparr>be_hash_next := None\<rparr>) (store_link pp (be_hash_next (ent s entry)) s))
          else remove_from entry (Link i) s)"

definition bcache_hash_remove :: "nat \<Rightarrow> bcache \<Rightarrow> bcache option" where
  "bcache_hash_remove entry s = remove_from entry (Head (hash_fn (be_block_no (ent s entry)))) s"

definition bcache_hash_insert :: "nat \<Rightarrow> bcache \<Rightarrow> bcache" where
  "bcache_hash_insert entry s =
     (let h = hash_fn (be_block_no (ent s entry));
          s1 = upd_ent entry (\<lambda>e. e\<lparr>be_hash_next := bc_hash s ! h\<rparr>) s
      in s1\<lparr>bc_hash := (bc_hash s1)[h := Some entry]\<rparr>)"

text \<open>The first pass of \<^verbatim>\<open>bcache_evict\<close>: \<open>Inl\<close> is the return of an unused slot in the middle of it.\<close>

fun evict_clean :: "bcache_entry list \<Rightarrow> nat list \<Rightarrow> nat option \<Rightarrow> u32 \<Rightarrow> nat + nat option" where
  "evict_clean c [] best best_tick = Inr best"
| "evict_clean c (i # is) best best_tick =
     (if be_data (c ! i) = None then evict_clean c is best best_tick
      else if \<not> be_valid (c ! i) then Inl i
      else if be_refcount (c ! i) = 0 \<and> \<not> be_dirty (c ! i) \<and> be_lru_tick (c ! i) < best_tick
           then evict_clean c is (Some i) (be_lru_tick (c ! i))
      else evict_clean c is best best_tick)"

fun evict_any :: "bcache_entry list \<Rightarrow> nat list \<Rightarrow> nat option \<Rightarrow> u32 \<Rightarrow> nat option" where
  "evict_any c [] best best_tick = best"
| "evict_any c (i # is) best best_tick =
     (if be_data (c ! i) = None \<or> \<not> be_valid (c ! i) then evict_any c is best best_tick
      else if be_refcount (c ! i) = 0 \<and> be_lru_tick (c ! i) < best_tick
           then evict_any c is (Some i) (be_lru_tick (c ! i))
      else evict_any c is best best_tick)"

definition drop_entry :: "nat \<Rightarrow> bcache \<Rightarrow> (nat option \<times> bcache) option" where
  "drop_entry best s =
     do { s1 \<leftarrow> bcache_hash_remove best s;
          Some (Some best, upd_ent best (\<lambda>e. e\<lparr>be_valid := False\<rparr>) s1) }"

definition bcache_evict :: "bcache \<Rightarrow> (nat option \<times> bcache) option" where
  "bcache_evict s =
     (case evict_clean (bc_cache s) [0..<BCACHE_SIZE] None 0xFFFFFFFF of
        Inl i \<Rightarrow> Some (Some i, s)
      | Inr (Some best) \<Rightarrow> drop_entry best s
      | Inr None \<Rightarrow>
          (case evict_any (bc_cache s) [0..<BCACHE_SIZE] None 0xFFFFFFFF of
             None \<Rightarrow> Some (None, s)
           | Some best \<Rightarrow>
               drop_entry best
                 (if be_dirty (ent s best)
                  then upd_ent best (\<lambda>e. e\<lparr>be_dirty := False\<rparr>)
                         (snd (bcache_disk_write (be_block_no (ent s best)) (the (be_data (ent s best))) s))
                  else s)))"

text \<open>\<open>tick\<close> is the value of \<^verbatim>\<open>(uint32_t)pit_get_ticks()\<close>.\<close>

definition load_block :: "u32 \<Rightarrow> u32 \<Rightarrow> nat \<Rightarrow> bcache \<Rightarrow> nat option \<times> bcache" where
  "load_block tick block_no i s =
     (let s1 = upd_ent i (\<lambda>e. e\<lparr>be_block_no := block_no, be_dirty := False, be_refcount := 1, be_lru_tick := tick\<rparr>) s;
          (r, bs) = bcache_disk_read block_no s1;
          s2 = upd_ent i (\<lambda>e. e\<lparr>be_data := map_option (\<lambda>d. blit d 0 bs) (be_data e)\<rparr>) s1
      in if r < 0 then (None, upd_ent i (\<lambda>e. e\<lparr>be_valid := False\<rparr>) s2)
         else (Some i, bcache_hash_insert i (upd_ent i (\<lambda>e. e\<lparr>be_valid := True, be_in_use := True\<rparr>) s2)))"

definition bcache_get :: "u32 \<Rightarrow> u32 \<Rightarrow> bcache \<Rightarrow> (nat option \<times> bcache) option" where
  "bcache_get tick block_no s =
     (if \<not> bc_ready s then Some (None, s)
      else
        do { found \<leftarrow> bcache_hash_find block_no s;
             case found of
               Some i \<Rightarrow>
                 Some (Some i, (upd_ent i (\<lambda>e. e\<lparr>be_refcount := be_refcount e + 1, be_lru_tick := tick\<rparr>) s)
                                 \<lparr>cache_hits := cache_hits s + 1\<rparr>)
             | None \<Rightarrow>
                 do { (slot, s1) \<leftarrow> bcache_evict (s\<lparr>cache_misses := cache_misses s + 1\<rparr>);
                      case slot of
                        None \<Rightarrow> Some (None, s1)
                      | Some i \<Rightarrow> Some (load_block tick block_no i s1) } })"

definition bcache_release :: "nat option \<Rightarrow> bcache \<Rightarrow> bcache" where
  "bcache_release entry s =
     (case entry of
        None \<Rightarrow> s
      | Some i \<Rightarrow> if be_refcount (ent s i) > 0 then upd_ent i (\<lambda>e. e\<lparr>be_refcount := be_refcount e - 1\<rparr>) s else s)"

definition bcache_mark_dirty :: "nat option \<Rightarrow> bcache \<Rightarrow> bcache" where
  "bcache_mark_dirty entry s = (case entry of None \<Rightarrow> s | Some i \<Rightarrow> upd_ent i (\<lambda>e. e\<lparr>be_dirty := True\<rparr>) s)"

definition sync_one :: "nat \<Rightarrow> bcache \<Rightarrow> bcache" where
  "sync_one i s =
     (if be_valid (ent s i) \<and> be_dirty (ent s i)
      then upd_ent i (\<lambda>e. e\<lparr>be_dirty := False\<rparr>) (snd (bcache_disk_write (be_block_no (ent s i)) (the (be_data (ent s i))) s))
      else s)"

definition bcache_sync :: "bcache \<Rightarrow> bcache" where
  "bcache_sync s = (if \<not> bc_ready s then s else fold sync_one [0..<BCACHE_SIZE] s)"

end
