(* ===== verification/BlockCacheSpec.thy ===== *)
theory BlockCacheSpec
  imports BlockCache
begin

text \<open>
  The block cache is transparent: whatever a client reads through it is what a store of blocks
  without cache would hold, an entry keeps its block as long as a client holds it, and
  \<^verbatim>\<open>bcache_sync\<close> brings the disk up to date.
\<close>

section \<open>Blocks on the disk\<close>

definition bsec :: "bcache \<Rightarrow> nat" where
  "bsec s = unat (cached_block_size s) div 512"

definition bsize :: "bcache \<Rightarrow> nat" where
  "bsize s = unat (cached_block_size s)"

definition geom :: "bcache \<Rightarrow> bool" where
  "geom s \<longleftrightarrow> cached_block_size s \<in> {512, 1024, 2048, 4096} \<and> intact (bc_disk s) \<and> power (bc_disk s) = None \<and>
     (\<forall>a. length (sectors (bc_disk s) a) = 512)"

definition dblock :: "bcache \<Rightarrow> u32 \<Rightarrow> u8 list" where
  "dblock s b = concat (map (sectors (bc_disk s)) [unat b * bsec s..<unat b * bsec s + bsec s])"

definition in_range :: "bcache \<Rightarrow> u32 \<Rightarrow> bool" where
  "in_range s b \<longleftrightarrow> unat b * bsec s + bsec s \<le> 2 ^ 28"

lemma bsec_disk [simp]:
  "bsec (s\<lparr>bc_disk := d\<rparr>) = bsec s" "bsize (s\<lparr>bc_disk := d\<rparr>) = bsize s" "in_range (s\<lparr>bc_disk := d\<rparr>) = in_range s"
  by (auto simp: bsec_def bsize_def in_range_def fun_eq_iff)

lemma geom_bsec:
  "geom s \<Longrightarrow> 0 < bsec s \<and> bsec s \<le> 8 \<and> bsize s = 512 * bsec s \<and> unat (cached_block_size s div 512) = bsec s"
  by (auto simp: geom_def bsec_def bsize_def)

lemma block_lba:
  assumes "geom s" "in_range s b"
  shows "lba28 (b * (cached_block_size s div 512)) = unat b * bsec s"
    "sector_count (ucast (cached_block_size s div 512)) = bsec s"
proof -
  note g = geom_bsec [OF assms(1)]
  have lt: "unat b * bsec s < 2 ^ 28" using assms(2) g by (simp add: in_range_def)
  then show "lba28 (b * (cached_block_size s div 512)) = unat b * bsec s"
    using g by (simp add: lba28_def unat_word_ariths)
  show "sector_count (ucast (cached_block_size s div 512)) = bsec s"
    using assms(1) by (auto simp: geom_def sector_count_def bsec_def)
qed

lemma disk_read_block:
  "geom s \<Longrightarrow> in_range s b \<Longrightarrow> bcache_disk_read b s = (0, dblock s b)"
  using block_lba [of s b] by (simp add: bcache_disk_read_def Let_def ata_read_sectors_eq dblock_def geom_def)

lemma length_concat_sectors: "(\<And>a. length (f a) = 512) \<Longrightarrow> length (concat (map f xs)) = 512 * length xs"
  by (induction xs) auto

lemma length_dblock: "geom s \<Longrightarrow> length (dblock s b) = bsize s"
  using length_concat_sectors [of "sectors (bc_disk s)"] geom_bsec [of s] by (simp add: dblock_def geom_def)

lemma power_writes: "power d = None \<Longrightarrow> power (disk_writes ws d) = None"
  by (induction ws arbitrary: d) (auto simp: disk_writes_def write_sector_def)

lemma disk_write_block:
  assumes g: "geom s" "in_range s b" and len: "bsize s \<le> length buf"
  obtains d where "bcache_disk_write b buf s = (0, s\<lparr>bc_disk := d\<rparr>)" "geom (s\<lparr>bc_disk := d\<rparr>)"
    "dblock (s\<lparr>bc_disk := d\<rparr>) = (dblock s)(b := take (bsize s) buf)"
proof
  let ?n = "bsec s" and ?a = "unat b * bsec s"
  let ?d = "disk_writes (sector_writes ?a ?n buf) (bc_disk s)"
  let ?t = "s\<lparr>bc_disk := ?d\<rparr>"
  note b = geom_bsec [OF g(1)]
  show "bcache_disk_write b buf s = (0, ?t)"
    using block_lba [OF g] g(1) by (simp add: bcache_disk_write_def Let_def ata_write_sectors_eq geom_def)
  have sec: "sectors ?d = apply_writes (sector_writes ?a ?n buf) (sectors (bc_disk s))"
    using g(1) by (simp add: sectors_disk_writes survive_def geom_def)
  have one: "sectors ?d (?a + i) = take 512 (drop (512 * i) buf)" if "i < ?n" for i
    using apply_sector_writes [OF that] by (simp add: sec)
  have two: "sectors ?d c = sectors (bc_disk s) c" if "c < ?a \<or> ?a + ?n \<le> c" for c
    using that apply_writes_other [of c "sector_writes ?a ?n buf"] by (auto simp: sec fst_sector_writes)
  have "length (sectors ?d c) = 512" for c
  proof (cases "?a \<le> c \<and> c < ?a + ?n")
    case True
    then obtain i where "c = ?a + i" "i < ?n" by (metis le_Suc_ex nat_add_left_cancel_less)
    then show ?thesis using one [of i] len b by simp
  next
    case False
    then show ?thesis using two [of c] g(1) by (simp add: geom_def not_le not_less)
  qed
  then show "geom ?t" using g(1) by (simp add: geom_def power_writes)
  show "dblock ?t = (dblock s)(b := take (bsize s) buf)"
  proof
    fix b'
    show "dblock ?t b' = ((dblock s)(b := take (bsize s) buf)) b'"
    proof (cases "b' = b")
      case True
      have "concat (map (sectors ?d) [?a..<?a + ?n]) = take (bsize s) buf"
        by (rule concat_sectors) (use one len b in \<open>auto simp: drop_take min_def\<close>)
      with True show ?thesis by (simp add: dblock_def bsec_def)
    next
      case False
      then have "unat b' \<noteq> unat b" using unsigned_word_eqI by blast
      then have "unat b' + 1 \<le> unat b \<or> unat b + 1 \<le> unat b'" by linarith
      then have dis: "unat b' * ?n + ?n \<le> ?a \<or> ?a + ?n \<le> unat b' * ?n"
        using mult_le_mono1 [of "unat b' + 1" "unat b" ?n] mult_le_mono1 [of "unat b + 1" "unat b'" ?n] by auto
      have "map (sectors ?d) [unat b' * ?n..<unat b' * ?n + ?n] = map (sectors (bc_disk s)) [unat b' * ?n..<unat b' * ?n + ?n]"
        by (rule map_cong [OF refl]) (use dis in \<open>auto intro!: two\<close>)
      then have "concat (map (sectors ?d) [unat b' * ?n..<unat b' * ?n + ?n]) = dblock s b'" unfolding dblock_def by (rule arg_cong)
      with False show ?thesis by (simp add: dblock_def bsec_disk)
    qed
  qed
qed

section \<open>Hash lists\<close>

text \<open>\<open>lseg nx p xs q\<close>: following \<open>nx\<close> from \<open>p\<close> visits exactly \<open>xs\<close> and arrives at \<open>q\<close>.\<close>

primrec lseg :: "(nat \<Rightarrow> nat option) \<Rightarrow> nat option \<Rightarrow> nat list \<Rightarrow> nat option \<Rightarrow> bool" where
  "lseg nx p [] q = (p = q)"
| "lseg nx p (i # is) q = (p = Some i \<and> lseg nx (nx i) is q)"

lemma lseg_append: "lseg nx p (xs @ ys) q \<longleftrightarrow> (\<exists>r. lseg nx p xs r \<and> lseg nx r ys q)"
  by (induction xs arbitrary: p) auto

lemma lseg_cong: "(\<And>i. i \<in> set xs \<Longrightarrow> nx i = nx' i) \<Longrightarrow> lseg nx p xs q = lseg nx' p xs q"
  by (induction xs arbitrary: p) auto

lemma lseg_unlink:
  assumes "lseg nx p (xs @ e # ys) None" "distinct (xs @ e # ys)"
  shows "lseg (nx(last xs := nx e, e := None)) p (xs @ ys) None \<or> xs = []"
    "xs = [] \<Longrightarrow> lseg (nx(e := None)) (nx e) ys None"
proof -
  show "lseg (nx(e := None)) (nx e) ys None" if "xs = []"
    using assms that by (auto intro: lseg_cong [THEN iffD1, rotated])
  show "lseg (nx(last xs := nx e, e := None)) p (xs @ ys) None \<or> xs = []"
  proof (cases xs rule: rev_cases)
    case (snoc as l)
    let ?nx = "nx(l := nx e, e := None)"
    have a: "lseg nx p as (Some l)" "lseg nx (nx e) ys None" "nx l = Some e"
      using assms(1) by (auto simp: snoc lseg_append)
    have "lseg ?nx p as (Some l)" using a(1) by (rule lseg_cong [THEN iffD1, rotated]) (use assms(2) snoc in auto)
    moreover have "lseg ?nx (nx e) ys None" using a(2) by (rule lseg_cong [THEN iffD1, rotated]) (use assms(2) snoc in auto)
    moreover have "?nx l = nx e" using assms(2) snoc by auto
    ultimately show ?thesis by (simp add: snoc lseg_append)
  qed simp
qed

abbreviation nexts :: "bcache \<Rightarrow> nat \<Rightarrow> nat option" where
  "nexts s \<equiv> \<lambda>i. be_hash_next (ent s i)"

definition cached :: "bcache \<Rightarrow> nat \<Rightarrow> u32 \<Rightarrow> bool" where
  "cached s i b \<longleftrightarrow> i < length (bc_cache s) \<and> be_valid (ent s i) \<and> be_block_no (ent s i) = b"

definition hash_ok :: "bcache \<Rightarrow> bool" where
  "hash_ok s \<longleftrightarrow> length (bc_hash s) = BCACHE_HASH_SIZE \<and>
     (\<forall>h<BCACHE_HASH_SIZE. \<exists>xs. lseg (nexts s) (bc_hash s ! h) xs None \<and> distinct xs \<and>
        set xs = {i. \<exists>b. cached s i b \<and> hash_fn b = h})"

lemma hash_fn_less: "hash_fn b < BCACHE_HASH_SIZE"
  by (simp add: hash_fn_def BCACHE_HASH_SIZE_def)

lemma hash_okE:
  assumes "hash_ok s"
  obtains xs where "lseg (nexts s) (bc_hash s ! hash_fn b) xs None" "distinct xs" "set xs = {i. \<exists>b'. cached s i b' \<and> hash_fn b' = hash_fn b}"
  using assms hash_fn_less [of b] unfolding hash_ok_def by blast

lemma hash_ok_cong:
  assumes "hash_ok s" "bc_hash t = bc_hash s" "\<And>i b. cached t i b = cached s i b"
    "\<And>i. i < length (bc_cache s) \<Longrightarrow> be_hash_next (ent t i) = be_hash_next (ent s i)"
  shows "hash_ok t"
  unfolding hash_ok_def
proof (intro conjI allI impI)
  show "length (bc_hash t) = BCACHE_HASH_SIZE" using assms(1,2) by (simp add: hash_ok_def)
  fix h assume "h < BCACHE_HASH_SIZE"
  then obtain xs where x: "lseg (nexts s) (bc_hash s ! h) xs None" "distinct xs" "set xs = {i. \<exists>b. cached s i b \<and> hash_fn b = h}"
    using assms(1) by (auto simp: hash_ok_def)
  have "lseg (nexts t) (bc_hash s ! h) xs None"
    using x(1) by (rule lseg_cong [THEN iffD1, rotated]) (use x(3) assms(4) in \<open>auto simp: cached_def\<close>)
  then show "\<exists>xs. lseg (nexts t) (bc_hash t ! h) xs None \<and> distinct xs \<and> set xs = {i. \<exists>b. cached t i b \<and> hash_fn b = h}"
    using x(2,3) assms(2,3) by auto
qed

lemma upd_ent_sel [simp]:
  "bc_hash (upd_ent i f s) = bc_hash s" "bc_ready (upd_ent i f s) = bc_ready s" "bc_disk (upd_ent i f s) = bc_disk s"
  "cached_block_size (upd_ent i f s) = cached_block_size s" "length (bc_cache (upd_ent i f s)) = length (bc_cache s)"
  by (simp_all add: upd_ent_def length_upd_nth)

lemma ent_upd_ent:
  "j < length (bc_cache s) \<Longrightarrow> ent (upd_ent i f s) j = (if j = i then f (ent s j) else ent s j)"
  by (simp add: upd_ent_def nth_upd_nth)

lemma geom_upd_ent [simp]:
  "bsec (upd_ent i f s) = bsec s" "bsize (upd_ent i f s) = bsize s" "geom (upd_ent i f s) = geom s"
  "dblock (upd_ent i f s) = dblock s" "in_range (upd_ent i f s) = in_range s"
  by (auto simp: bsec_def bsize_def geom_def dblock_def in_range_def fun_eq_iff)

text \<open>Finding an entry, and that the walk ends.\<close>

lemma find_from_spec:
  assumes "lseg (\<lambda>i. be_hash_next (c ! i)) p xs None" "\<forall>i\<in>set xs. be_valid (c ! i)"
  shows "hash_find_from c b p = Some (find (\<lambda>i. be_block_no (c ! i) = b) xs)"
  using assms
proof (induction xs arbitrary: p)
  case Nil
  then show ?case by (simp add: hash_find_from.simps)
next
  case (Cons i js)
  then show ?case by (subst hash_find_from.simps) simp
qed

lemma hash_find_spec:
  assumes "hash_ok s"
  shows "(\<exists>i. bcache_hash_find b s = Some (Some i) \<and> cached s i b) \<or> (bcache_hash_find b s = Some None \<and> (\<forall>i. \<not> cached s i b))"
proof -
  obtain xs where x: "lseg (nexts s) (bc_hash s ! hash_fn b) xs None" "set xs = {i. \<exists>b'. cached s i b' \<and> hash_fn b' = hash_fn b}"
    by (rule hash_okE [OF assms, of b])
  have f: "bcache_hash_find b s = Some (find (\<lambda>i. be_block_no (ent s i) = b) xs)"
    unfolding bcache_hash_find_def by (rule find_from_spec [OF x(1)]) (use x(2) in \<open>auto simp: cached_def\<close>)
  show ?thesis
  proof (cases "find (\<lambda>i. be_block_no (ent s i) = b) xs")
    case None
    then show ?thesis using f x(2) by (auto simp: find_None_iff cached_def)
  next
    case (Some i)
    then have "i \<in> set xs" "be_block_no (ent s i) = b" by (auto simp: find_Some_iff)
    then show ?thesis using f Some x(2) by (auto simp: cached_def)
  qed
qed

text \<open>Removing an entry from its list.\<close>

lemma remove_from_spec:
  assumes "lseg (nexts s) (load_link pp s) (xs @ e # ys) None" "e \<notin> set xs"
  shows "remove_from e pp s =
    Some (upd_ent e (\<lambda>x. x\<lparr>be_hash_next := None\<rparr>) (store_link (if xs = [] then pp else Link (last xs)) (be_hash_next (ent s e)) s))"
  using assms
proof (induction xs arbitrary: pp)
  case Nil
  then show ?case by (subst remove_from.simps) simp
next
  case (Cons i js)
  have "remove_from e pp s = remove_from e (Link i) s" using Cons.prems by (subst remove_from.simps) auto
  also have "\<dots> = Some (upd_ent e (\<lambda>x. x\<lparr>be_hash_next := None\<rparr>)
      (store_link (if js = [] then Link i else Link (last js)) (be_hash_next (ent s e)) s))"
    by (rule Cons.IH) (use Cons.prems in \<open>auto simp: load_link_def\<close>)
  finally show ?case by auto
qed

text \<open>What the removal leaves alone.\<close>

definition same_but_links :: "bcache \<Rightarrow> bcache \<Rightarrow> bool" where
  "same_but_links s t \<longleftrightarrow> length (bc_cache t) = length (bc_cache s) \<and>
     (\<forall>i<length (bc_cache s). (ent t i)\<lparr>be_hash_next := None\<rparr> = (ent s i)\<lparr>be_hash_next := None\<rparr>) \<and>
     bc_disk t = bc_disk s \<and> cached_block_size t = cached_block_size s \<and> bc_ready t = bc_ready s"

lemma same_links_fields:
  assumes "same_but_links s t" "i < length (bc_cache s)"
  shows "be_block_no (ent t i) = be_block_no (ent s i)" "be_data (ent t i) = be_data (ent s i)" "be_dirty (ent t i) = be_dirty (ent s i)"
    "be_valid (ent t i) = be_valid (ent s i)" "be_refcount (ent t i) = be_refcount (ent s i)"
proof -
  have "(ent t i)\<lparr>be_hash_next := None\<rparr> = (ent s i)\<lparr>be_hash_next := None\<rparr>" using assms by (simp add: same_but_links_def)
  then show "be_block_no (ent t i) = be_block_no (ent s i)" "be_data (ent t i) = be_data (ent s i)" "be_dirty (ent t i) = be_dirty (ent s i)"
    "be_valid (ent t i) = be_valid (ent s i)" "be_refcount (ent t i) = be_refcount (ent s i)"
    by (metis bcache_entry.select_convs bcache_entry.surjective bcache_entry.update_convs(8))+
qed

lemma same_links_geom:
  assumes "same_but_links s t"
  shows "geom t = geom s" "bsize t = bsize s" "bsec t = bsec s" "dblock t = dblock s" "in_range t = in_range s" "cached t = cached s"
  using assms same_links_fields [OF assms]
  by (auto simp: same_but_links_def geom_def bsize_def bsec_def dblock_def in_range_def cached_def fun_eq_iff)

lemma hash_remove_spec:
  assumes "hash_ok s" "cached s e b"
  obtains t where "bcache_hash_remove e s = Some t" "same_but_links s t" "hash_ok (upd_ent e (\<lambda>x. x\<lparr>be_valid := False\<rparr>) t)"
proof -
  let ?h = "hash_fn b"
  obtain zs where z: "lseg (nexts s) (bc_hash s ! ?h) zs None" "distinct zs" "set zs = {i. \<exists>b'. cached s i b' \<and> hash_fn b' = ?h}"
    by (rule hash_okE [OF assms(1), of b])
  have "e \<in> set zs" using z(3) assms(2) by auto
  then obtain xs ys where zs: "zs = xs @ e # ys" by (meson split_list)
  have el: "e < length (bc_cache s)" "be_block_no (ent s e) = b" using assms(2) by (auto simp: cached_def)
  have ln: "i < length (bc_cache s)" if "i \<in> set zs" for i using z(3) that by (auto simp: cached_def)
  have hl: "?h < length (bc_hash s)" using assms(1) hash_fn_less by (simp add: hash_ok_def)
  define l where "l = (if xs = [] then Head ?h else Link (last xs))"
  define t where "t = upd_ent e (\<lambda>x. x\<lparr>be_hash_next := None\<rparr>) (store_link l (be_hash_next (ent s e)) s)"
  have R: "bcache_hash_remove e s = Some t"
    unfolding bcache_hash_remove_def el(2) t_def l_def
    by (rule remove_from_spec) (use z zs in \<open>auto simp: load_link_def\<close>)
  have S: "same_but_links s t"
    by (cases "xs = []") (auto simp: same_but_links_def t_def l_def store_link_def ent_upd_ent)
  let ?t = "upd_ent e (\<lambda>x. x\<lparr>be_valid := False\<rparr>) t"
  have ca: "cached ?t i b' \<longleftrightarrow> cached s i b' \<and> i \<noteq> e" for i b'
    using same_links_fields [OF S] S el by (auto simp: cached_def ent_upd_ent same_but_links_def split: if_splits)
  have nx: "nexts ?t i = ((nexts s)(last xs := nexts s e, e := None)) i" if "xs \<noteq> []" "i < length (bc_cache s)" for i
    using that el by (simp add: t_def l_def store_link_def ent_upd_ent)
  have nx0: "nexts ?t i = ((nexts s)(e := None)) i" if "xs = []" "i < length (bc_cache s)" for i
    using that el by (simp add: t_def l_def store_link_def ent_upd_ent)
  have hh: "bc_hash t = (if xs = [] then (bc_hash s)[?h := nexts s e] else bc_hash s)"
    by (simp add: t_def l_def store_link_def)
  have d: "distinct (xs @ e # ys)" using z(2) zs by simp
  have "hash_ok ?t" unfolding hash_ok_def
  proof (intro conjI allI impI)
    show "length (bc_hash ?t) = BCACHE_HASH_SIZE" using assms(1) by (simp add: hh hash_ok_def)
    fix h assume h: "h < BCACHE_HASH_SIZE"
    show "\<exists>xs. lseg (nexts ?t) (bc_hash ?t ! h) xs None \<and> distinct xs \<and> set xs = {i. \<exists>b. cached ?t i b \<and> hash_fn b = h}"
    proof (cases "h = ?h")
      case True
      have "lseg (nexts ?t) (bc_hash ?t ! h) (xs @ ys) None"
      proof (cases "xs = []")
        case xs: True
        have "lseg ((nexts s)(e := None)) (nexts s e) ys None" by (rule lseg_unlink(2) [OF z(1) [unfolded zs] d xs])
        then have "lseg (nexts ?t) (nexts s e) ys None"
          by (rule lseg_cong [THEN iffD1, rotated]) (use nx0 [OF xs] ln zs in auto)
        then show ?thesis using xs True hl by (simp add: hh)
      next
        case xs: False
        have "lseg ((nexts s)(last xs := nexts s e, e := None)) (bc_hash s ! ?h) (xs @ ys) None"
          using lseg_unlink(1) [OF z(1) [unfolded zs] d] xs by simp
        then have "lseg (nexts ?t) (bc_hash s ! ?h) (xs @ ys) None"
          by (rule lseg_cong [THEN iffD1, rotated]) (use nx [OF xs] ln zs in auto)
        then show ?thesis using xs True by (simp add: hh)
      qed
      moreover have "set (xs @ ys) = {i. \<exists>b. cached ?t i b \<and> hash_fn b = h}"
        using z(3) d unfolding zs ca by (auto simp: True)
      ultimately show ?thesis using d by (intro exI [of _ "xs @ ys"]) simp
    next
      case False
      obtain ws where w: "lseg (nexts s) (bc_hash s ! h) ws None" "distinct ws" "set ws = {i. \<exists>b. cached s i b \<and> hash_fn b = h}"
        using assms(1) h by (auto simp: hash_ok_def)
      have ne: "i \<notin> set zs" if "i \<in> set ws" for i using that False unfolding w(3) z(3) by (auto simp: cached_def)
      have wl: "i < length (bc_cache s)" if "i \<in> set ws" for i using that w(3) by (auto simp: cached_def)
      have "nexts ?t i = nexts s i" if i: "i \<in> set ws" for i
        using ne [OF i] wl [OF i] nx [of i] nx0 [of i] zs by (cases "xs = []") auto
      then have "lseg (nexts ?t) (bc_hash s ! h) ws None" using w(1) by (auto intro: lseg_cong [THEN iffD1, rotated])
      moreover have "bc_hash ?t ! h = bc_hash s ! h" using False by (simp add: hh)
      moreover have "e \<notin> set ws" using ne zs by auto
      then have "set ws = {i. \<exists>b. cached ?t i b \<and> hash_fn b = h}" using w(3) unfolding ca by blast
      ultimately show ?thesis using w(2) by auto
    qed
  qed
  with R S that show ?thesis by blast
qed

lemma hash_insert_spec:
  assumes "hash_ok s" "e < length (bc_cache s)" "\<not> be_valid (ent s e)"
  shows "hash_ok (bcache_hash_insert e (upd_ent e (\<lambda>x. x\<lparr>be_valid := True, be_in_use := True\<rparr>) s))" (is "hash_ok ?t")
proof -
  let ?b = "be_block_no (ent s e)"
  let ?h = "hash_fn ?b"
  have hl: "?h < length (bc_hash s)" using assms(1) hash_fn_less by (simp add: hash_ok_def)
  have hh: "bc_hash ?t = (bc_hash s)[?h := Some e]" using assms(2) by (simp add: bcache_hash_insert_def Let_def ent_upd_ent)
  have ca: "cached ?t i b' \<longleftrightarrow> cached s i b' \<or> i = e \<and> b' = ?b" for i b'
    using assms by (auto simp: cached_def bcache_hash_insert_def Let_def ent_upd_ent split: if_splits)
  have nx: "nexts ?t i = ((nexts s)(e := bc_hash s ! ?h)) i" if "i < length (bc_cache s)" for i
    using that assms(2) by (simp add: bcache_hash_insert_def Let_def ent_upd_ent)
  show ?thesis unfolding hash_ok_def
  proof (intro conjI allI impI)
    show "length (bc_hash ?t) = BCACHE_HASH_SIZE" using assms(1) by (simp add: hh hash_ok_def)
    fix h assume h: "h < BCACHE_HASH_SIZE"
    obtain ws where w: "lseg (nexts s) (bc_hash s ! h) ws None" "distinct ws" "set ws = {i. \<exists>b. cached s i b \<and> hash_fn b = h}"
      using assms(1) h by (auto simp: hash_ok_def)
    have ne: "e \<notin> set ws" using w(3) assms(3) by (auto simp: cached_def)
    have "lseg (nexts ?t) (bc_hash s ! h) ws None"
      using w(1) by (rule lseg_cong [THEN iffD1, rotated]) (use w(3) nx ne in \<open>auto simp: cached_def\<close>)
    moreover have "nexts ?t e = bc_hash s ! ?h" using nx [OF assms(2)] by simp
    ultimately have "lseg (nexts ?t) (bc_hash ?t ! h) (if h = ?h then e # ws else ws) None" using hl by (auto simp: hh)
    moreover have "set (if h = ?h then e # ws else ws) = {i. \<exists>b. cached ?t i b \<and> hash_fn b = h}" using w(3) unfolding ca by auto
    moreover have "distinct (if h = ?h then e # ws else ws)" using w(2) ne by simp
    ultimately show "\<exists>xs. lseg (nexts ?t) (bc_hash ?t ! h) xs None \<and> distinct xs \<and> set xs = {i. \<exists>b. cached ?t i b \<and> hash_fn b = h}"
      by blast
  qed
qed

section \<open>The abstraction\<close>

text \<open>
  \<open>bc_rep A s\<close>: the cache and the disk together hold the blocks \<open>A\<close>. An entry holds the current
  contents of its block, and so does the disk unless the entry is dirty.
\<close>

definition bc_rep :: "(u32 \<Rightarrow> u8 list) \<Rightarrow> bcache \<Rightarrow> bool" where
  "bc_rep A s \<longleftrightarrow> geom s \<and> hash_ok s \<and> bc_ready s \<and> length (bc_cache s) = BCACHE_SIZE \<and>
     (\<forall>i<BCACHE_SIZE. be_valid (ent s i) \<longrightarrow> be_data (ent s i) \<noteq> None) \<and>
     (\<forall>i<BCACHE_SIZE. \<forall>d. be_data (ent s i) = Some d \<longrightarrow> length d = 4096) \<and>
     (\<forall>i j b. cached s i b \<and> cached s j b \<longrightarrow> i = j) \<and>
     (\<forall>i b. cached s i b \<longrightarrow> in_range s b \<and> take (bsize s) (the (be_data (ent s i))) = A b) \<and>
     (\<forall>b. in_range s b \<and> (\<forall>i. cached s i b \<longrightarrow> \<not> be_dirty (ent s i)) \<longrightarrow> dblock s b = A b)"

lemma bc_repD:
  assumes "bc_rep A s"
  shows "geom s" "hash_ok s" "bc_ready s" "length (bc_cache s) = BCACHE_SIZE"
    "\<And>i. i < BCACHE_SIZE \<Longrightarrow> be_valid (ent s i) \<Longrightarrow> be_data (ent s i) \<noteq> None"
    "\<And>i d. i < BCACHE_SIZE \<Longrightarrow> be_data (ent s i) = Some d \<Longrightarrow> length d = 4096"
    "\<And>i j b. cached s i b \<Longrightarrow> cached s j b \<Longrightarrow> i = j"
    "\<And>i b. cached s i b \<Longrightarrow> in_range s b \<and> take (bsize s) (the (be_data (ent s i))) = A b"
    "\<And>b. in_range s b \<Longrightarrow> (\<And>i. cached s i b \<Longrightarrow> \<not> be_dirty (ent s i)) \<Longrightarrow> dblock s b = A b"
  using assms unfolding bc_rep_def by blast+

lemma bc_repI:
  assumes "geom s" "hash_ok s" "bc_ready s" "length (bc_cache s) = BCACHE_SIZE"
    "\<And>i. i < BCACHE_SIZE \<Longrightarrow> be_valid (ent s i) \<Longrightarrow> be_data (ent s i) \<noteq> None"
    "\<And>i d. i < BCACHE_SIZE \<Longrightarrow> be_data (ent s i) = Some d \<Longrightarrow> length d = 4096"
    "\<And>i j b. cached s i b \<Longrightarrow> cached s j b \<Longrightarrow> i = j"
    "\<And>i b. cached s i b \<Longrightarrow> in_range s b \<and> take (bsize s) (the (be_data (ent s i))) = A b"
    "\<And>b. in_range s b \<Longrightarrow> \<forall>i. cached s i b \<longrightarrow> \<not> be_dirty (ent s i) \<Longrightarrow> dblock s b = A b"
  shows "bc_rep A s"
  using assms unfolding bc_rep_def by blast

lemma cached_less: "bc_rep A s \<Longrightarrow> cached s i b \<Longrightarrow> i < BCACHE_SIZE"
  using bc_repD(4) by (simp add: cached_def)

lemma geom_bsize: "geom s \<Longrightarrow> bsize s \<le> 4096"
  by (auto simp: geom_def bsize_def)

text \<open>Updates that change neither the blocks nor the lists.\<close>

lemma bc_rep_neutral:
  assumes r: "bc_rep A s"
    and f: "\<And>e. be_block_no (f e) = be_block_no e \<and> be_data (f e) = be_data e \<and> be_dirty (f e) = be_dirty e \<and>
      be_valid (f e) = be_valid e \<and> be_hash_next (f e) = be_hash_next e"
  shows "bc_rep A (upd_ent i f s)" "cached (upd_ent i f s) = cached s"
proof -
  note R = bc_repD [OF r]
  show c: "cached (upd_ent i f s) = cached s" by (simp add: cached_def ent_upd_ent fun_eq_iff f cong: conj_cong)
  have h: "hash_ok (upd_ent i f s)" by (rule hash_ok_cong [OF R(2)]) (simp_all add: c ent_upd_ent f)
  have e: "be_data (ent (upd_ent i f s) j) = be_data (ent s j)" "be_dirty (ent (upd_ent i f s) j) = be_dirty (ent s j)"
    "be_valid (ent (upd_ent i f s) j) = be_valid (ent s j)" if "j < BCACHE_SIZE" for j
    using that R(4) f by (simp_all add: ent_upd_ent)
  note l = cached_less [OF r]
  show "bc_rep A (upd_ent i f s)"
  proof (rule bc_repI; (unfold c geom_upd_ent)?)
    show "dblock s b = A b" if "in_range s b" "\<forall>j. cached s j b \<longrightarrow> \<not> be_dirty (ent (upd_ent i f s) j)" for b
      by (rule R(9) [OF that(1)]) (use that(2) e l in auto)
    show "in_range s b \<and> take (bsize s) (the (be_data (ent (upd_ent i f s) j))) = A b" if "cached s j b" for j b
      using R(8) [OF that] e(1) [OF l [OF that]] by simp
  qed (use R(1,3-7) h e in simp_all)
qed

lemma bc_rep_counters: "bc_rep A s \<Longrightarrow> bc_rep A (s\<lparr>cache_hits := k, cache_misses := m\<rparr>)"
proof -
  assume r: "bc_rep A s"
  let ?t = "s\<lparr>cache_hits := k, cache_misses := m\<rparr>"
  have c: "cached ?t = cached s" "geom ?t = geom s" "bsize ?t = bsize s" "dblock ?t = dblock s" "in_range ?t = in_range s"
    by (auto simp: cached_def geom_def bsize_def dblock_def in_range_def bsec_def fun_eq_iff)
  have h: "hash_ok ?t" by (rule hash_ok_cong [OF bc_repD(2) [OF r]]) (simp_all add: c)
  from r show ?thesis unfolding bc_rep_def c using h by simp
qed

text \<open>Writing an entry back.\<close>

definition write_back :: "nat \<Rightarrow> bcache \<Rightarrow> bcache" where
  "write_back i s = upd_ent i (\<lambda>e. e\<lparr>be_dirty := False\<rparr>) (snd (bcache_disk_write (be_block_no (ent s i)) (the (be_data (ent s i))) s))"

definition quiet :: "bcache \<Rightarrow> bcache \<Rightarrow> bool" where
  "quiet s t \<longleftrightarrow> cached t = cached s \<and> bsize t = bsize s \<and> in_range t = in_range s \<and>
     (\<forall>j<BCACHE_SIZE. be_refcount (ent t j) = be_refcount (ent s j) \<and> be_data (ent t j) = be_data (ent s j))"

lemma write_back_spec:
  assumes r: "bc_rep A s" and i: "cached s i b"
  shows "bc_rep A (write_back i s)" "quiet s (write_back i s)" "\<not> be_dirty (ent (write_back i s) i)"
    "\<And>j. j < BCACHE_SIZE \<Longrightarrow> j \<noteq> i \<Longrightarrow> be_dirty (ent (write_back i s) j) = be_dirty (ent s j)"
proof -
  note R = bc_repD [OF r]
  have il: "i < BCACHE_SIZE" "be_block_no (ent s i) = b" "be_valid (ent s i)" using i R(4) by (auto simp: cached_def)
  obtain x where x: "be_data (ent s i) = Some x" "length x = 4096" using R(5,6) [OF il(1)] il(3) by auto
  have ir: "in_range s b" "take (bsize s) x = A b" using R(8) [OF i] x by auto
  obtain d where d: "bcache_disk_write b x s = (0, s\<lparr>bc_disk := d\<rparr>)" "geom (s\<lparr>bc_disk := d\<rparr>)"
      "dblock (s\<lparr>bc_disk := d\<rparr>) = (dblock s)(b := take (bsize s) x)"
    by (rule disk_write_block [OF R(1) ir(1), of x]) (use geom_bsize [OF R(1)] x in simp_all)
  let ?s = "s\<lparr>bc_disk := d\<rparr>" and ?t = "write_back i s"
  have t: "?t = upd_ent i (\<lambda>e. e\<lparr>be_dirty := False\<rparr>) ?s" by (simp add: write_back_def il x d)
  have e: "ent ?t j = (if j = i then (ent s j)\<lparr>be_dirty := False\<rparr> else ent s j)" if "j < BCACHE_SIZE" for j
    using that R(4) by (simp add: t ent_upd_ent)
  show "\<not> be_dirty (ent ?t i)" by (simp add: e il)
  show "be_dirty (ent ?t j) = be_dirty (ent s j)" if "j < BCACHE_SIZE" "j \<noteq> i" for j using that by (simp add: e)
  have tl: "length (bc_cache ?t) = BCACHE_SIZE" using R(4) by (simp add: t)
  have c: "cached ?t = cached s" using R(4) by (auto simp: cached_def e fun_eq_iff tl split: if_splits)
  have g: "geom ?t" "bsize ?t = bsize s" "in_range ?t = in_range s" "dblock ?t = (dblock s)(b := A b)"
    using d ir by (simp_all add: t)
  show "quiet s ?t" by (auto simp: quiet_def c g e)
  have h: "hash_ok ?t" by (rule hash_ok_cong [OF R(2)]) (use c e R(4) in \<open>simp_all add: t\<close>)
  have db: "dblock s b' = A b'" if "in_range s b'" "b' \<noteq> b" "\<forall>j. cached s j b' \<longrightarrow> \<not> be_dirty (ent ?t j)" for b'
    by (rule R(9) [OF that(1)]) (use that(2,3) il R(4) e in \<open>auto simp: cached_def split: if_splits\<close>)
  note lt = cached_less [OF r]
  have dt: "be_data (ent ?t j) = be_data (ent s j)" "be_valid (ent ?t j) = be_valid (ent s j)" if "j < BCACHE_SIZE" for j
    using that by (simp_all add: e)
  show "bc_rep A ?t"
  proof (rule bc_repI; (unfold c g(2-4))?)
    show "((dblock s)(b := A b)) b' = A b'" if "in_range s b'" "\<forall>j. cached s j b' \<longrightarrow> \<not> be_dirty (ent ?t j)" for b'
      using db that by (cases "b' = b") simp_all
    show "bc_ready ?t" using R(3) by (simp add: t)
    show "in_range s b' \<and> take (bsize s) (the (be_data (ent ?t j))) = A b'" if "cached s j b'" for j b'
      using R(8) [OF that] dt(1) [OF lt [OF that]] by simp
  qed (use g(1) h tl R(5-7) dt in \<open>simp_all\<close>)
qed

section \<open>Eviction and loading\<close>

lemma evict_clean_result:
  "evict_clean c is best tick = Inl i \<Longrightarrow> i \<in> set is \<and> be_data (c ! i) \<noteq> None \<and> \<not> be_valid (c ! i)"
  "evict_clean c is best tick = Inr (Some i) \<Longrightarrow>
     best = Some i \<or> i \<in> set is \<and> be_valid (c ! i) \<and> be_refcount (c ! i) = 0 \<and> \<not> be_dirty (c ! i)"
  by (induction "is" arbitrary: best tick) (auto split: if_splits)

lemma evict_any_result:
  "evict_any c is best tick = Some i \<Longrightarrow> best = Some i \<or> i \<in> set is \<and> be_valid (c ! i) \<and> be_refcount (c ! i) = 0"
  by (induction "is" arbitrary: best tick) (auto split: if_splits)

definition evicted :: "nat \<Rightarrow> bcache \<Rightarrow> bcache \<Rightarrow> bool" where
  "evicted i s t \<longleftrightarrow> i < BCACHE_SIZE \<and> be_data (ent t i) \<noteq> None \<and> \<not> be_valid (ent t i) \<and>
     (\<forall>j b. cached t j b \<longleftrightarrow> cached s j b \<and> j \<noteq> i) \<and> (be_valid (ent s i) \<longrightarrow> be_refcount (ent s i) = 0) \<and>
     (\<forall>j<BCACHE_SIZE. be_refcount (ent t j) = be_refcount (ent s j)) \<and> bsize t = bsize s \<and> in_range t = in_range s"

lemma drop_entry_spec:
  assumes r: "bc_rep A s" and i: "cached s i b" "\<not> be_dirty (ent s i)" "be_refcount (ent s i) = 0"
  obtains t where "drop_entry i s = Some (Some i, t)" "bc_rep A t" "evicted i s t"
proof -
  note R = bc_repD [OF r]
  obtain t where t: "bcache_hash_remove i s = Some t" "same_but_links s t" "hash_ok (upd_ent i (\<lambda>x. x\<lparr>be_valid := False\<rparr>) t)"
    by (rule hash_remove_spec [OF R(2) i(1)])
  let ?t = "upd_ent i (\<lambda>x. x\<lparr>be_valid := False\<rparr>) t"
  have il: "i < BCACHE_SIZE" "be_valid (ent s i)" using i R(4) by (auto simp: cached_def)
  note F = same_links_fields [OF t(2), unfolded R(4)] and G = same_links_geom [OF t(2)]
  have tl: "length (bc_cache t) = BCACHE_SIZE" "bc_ready t" using t(2) R(3,4) by (simp_all add: same_but_links_def)
  have e: "be_data (ent ?t j) = be_data (ent s j)" "be_dirty (ent ?t j) = be_dirty (ent s j)" "be_refcount (ent ?t j) = be_refcount (ent s j)"
    "be_valid (ent ?t j) = (be_valid (ent s j) \<and> j \<noteq> i)" "be_block_no (ent ?t j) = be_block_no (ent s j)" if "j < BCACHE_SIZE" for j
    using that F [OF that] tl by (auto simp: ent_upd_ent)
  have c: "cached ?t j b' \<longleftrightarrow> cached s j b' \<and> j \<noteq> i" for j b'
    using e [of j] tl R(4) by (auto simp: cached_def)
  have "bc_rep A ?t"
  proof (rule bc_repI; (unfold c geom_upd_ent G)?)
    show "dblock s b' = A b'" if n: "in_range s b'" "\<forall>j. cached s j b' \<and> j \<noteq> i \<longrightarrow> \<not> be_dirty (ent ?t j)" for b'
    proof (rule R(9) [OF n(1)])
      show "\<not> be_dirty (ent s j)" if j: "cached s j b'" for j
        using j i(2) n(2) e(2) [OF cached_less [OF r j]] by (cases "j = i") auto
    qed
    show "in_range s b' \<and> take (bsize s) (the (be_data (ent ?t j))) = A b'" if "cached s j b' \<and> j \<noteq> i" for j b'
      using R(8) [of j b'] e(1) [OF cached_less [OF r]] that by auto
  qed (use R(1,5-7) t(3) tl e in auto)
  moreover have "evicted i s ?t" unfolding evicted_def using il i(3) e R(5) [OF il] c by (auto simp: G)
  ultimately show ?thesis using that t(1) by (simp add: drop_entry_def)
qed

lemma quiet_evicted: "quiet s t \<Longrightarrow> evicted i t u \<Longrightarrow> be_valid (ent t i) = be_valid (ent s i) \<Longrightarrow> evicted i s u"
  by (auto simp: quiet_def evicted_def)

lemma evict_spec:
  assumes r: "bc_rep A s"
  shows "bcache_evict s = Some (None, s) \<or> (\<exists>i t. bcache_evict s = Some (Some i, t) \<and> bc_rep A t \<and> evicted i s t)"
proof -
  note R = bc_repD [OF r]
  let ?c = "evict_clean (bc_cache s) [0..<BCACHE_SIZE] None 0xFFFFFFFF" and ?a = "evict_any (bc_cache s) [0..<BCACHE_SIZE] None 0xFFFFFFFF"
  consider i where "?c = Inl i" | i where "?c = Inr (Some i)" | "?c = Inr None" "?a = None" | i where "?c = Inr None" "?a = Some i"
    by (cases ?c; cases ?a) (metis option.exhaust)+
  then show ?thesis
  proof cases
    case 1
    from evict_clean_result(1) [OF this] have i: "i < BCACHE_SIZE" "be_data (ent s i) \<noteq> None" "\<not> be_valid (ent s i)" by auto
    then have "evicted i s s" by (auto simp: evicted_def cached_def)
    with 1 r show ?thesis by (simp add: bcache_evict_def)
  next
    case 2
    from evict_clean_result(2) [OF this] have i: "i < BCACHE_SIZE" "be_valid (ent s i)" "be_refcount (ent s i) = 0" "\<not> be_dirty (ent s i)" by auto
    then have "cached s i (be_block_no (ent s i))" by (simp add: cached_def R(4))
    from drop_entry_spec [OF r this i(4,3)] 2 show ?thesis by (auto simp: bcache_evict_def)
  next
    case 3
    then show ?thesis by (simp add: bcache_evict_def)
  next
    case 4
    from evict_any_result [OF 4(2)] have i: "i < BCACHE_SIZE" "be_valid (ent s i)" "be_refcount (ent s i) = 0" by auto
    then have c: "cached s i (be_block_no (ent s i))" by (simp add: cached_def R(4))
    let ?s = "if be_dirty (ent s i) then write_back i s else s"
    note W = write_back_spec [OF r c]
    have s: "bc_rep A ?s" "quiet s ?s" "\<not> be_dirty (ent ?s i)" using W r by (auto simp: quiet_def)
    have v: "cached ?s i (be_block_no (ent s i))" "be_refcount (ent ?s i) = 0" using s(2) c i by (auto simp: quiet_def)
    have vv: "be_valid (ent ?s i) = be_valid (ent s i)" using v(1) i(2) by (simp add: cached_def)
    obtain t where t: "drop_entry i ?s = Some (Some i, t)" "bc_rep A t" "evicted i ?s t"
      by (rule drop_entry_spec [OF s(1) v(1) s(3) v(2)])
    have "bcache_evict s = Some (Some i, t)" using 4 t(1) by (auto simp: bcache_evict_def write_back_def split: if_splits)
    with t(2) quiet_evicted [OF s(2) t(3) vv] show ?thesis by blast
  qed
qed

lemma load_block_spec:
  assumes r: "bc_rep A s" and i: "i < BCACHE_SIZE" "be_data (ent s i) \<noteq> None" "\<not> be_valid (ent s i)"
    and b: "in_range s b" "\<And>j. \<not> cached s j b"
  obtains t where "load_block tick b i s = (Some i, t)" "bc_rep A t" "\<And>j b'. cached t j b' \<longleftrightarrow> cached s j b' \<or> j = i \<and> b' = b"
    "be_refcount (ent t i) = 1" "\<And>j. j < BCACHE_SIZE \<Longrightarrow> j \<noteq> i \<Longrightarrow> be_refcount (ent t j) = be_refcount (ent s j)"
    "bsize t = bsize s" "in_range t = in_range s"
proof -
  note R = bc_repD [OF r]
  obtain d where d: "be_data (ent s i) = Some d" "length d = 4096" using i R(6) by blast
  let ?s1 = "upd_ent i (\<lambda>e. e\<lparr>be_block_no := b, be_dirty := False, be_refcount := 1, be_lru_tick := tick\<rparr>) s"
  have rd: "bcache_disk_read b ?s1 = (0, dblock s b)" using disk_read_block [of ?s1 b] R(1) b(1) by simp
  let ?s2 = "upd_ent i (\<lambda>e. e\<lparr>be_data := map_option (\<lambda>d. blit d 0 (dblock s b)) (be_data e)\<rparr>) ?s1"
  let ?t = "bcache_hash_insert i (upd_ent i (\<lambda>e. e\<lparr>be_valid := True, be_in_use := True\<rparr>) ?s2)"
  have L: "load_block tick b i s = (Some i, ?t)" by (simp add: load_block_def Let_def rd)
  have lb: "length (dblock s b) = bsize s" "bsize s \<le> 4096" using length_dblock geom_bsize R(1) by auto
  have c2: "cached ?s2 = cached s" using i R(4) by (auto simp: cached_def ent_upd_ent fun_eq_iff split: if_splits)
  have h2: "hash_ok ?s2" by (rule hash_ok_cong [OF R(2)]) (use c2 R(4) i in \<open>auto simp: ent_upd_ent\<close>)
  have ht: "hash_ok ?t" by (rule hash_insert_spec [OF h2]) (use i R(4) in \<open>simp_all add: ent_upd_ent\<close>)
  have tl: "length (bc_cache ?t) = BCACHE_SIZE" by (simp add: bcache_hash_insert_def Let_def R(4))
  have g: "geom ?t = geom s" "bsize ?t = bsize s" "dblock ?t = dblock s" "in_range ?t = in_range s" "bc_ready ?t = bc_ready s"
    by (auto simp: bcache_hash_insert_def Let_def geom_def bsize_def bsec_def dblock_def in_range_def fun_eq_iff)
  have ei: "be_data (ent ?t i) = Some (blit d 0 (dblock s b))" "be_valid (ent ?t i)" "be_block_no (ent ?t i) = b"
    "be_refcount (ent ?t i) = 1" "\<not> be_dirty (ent ?t i)"
    using i d R(4) by (simp_all add: bcache_hash_insert_def Let_def ent_upd_ent)
  have ej: "ent ?t j = ent s j" if "j < BCACHE_SIZE" "j \<noteq> i" for j
    using that R(4) i by (simp add: bcache_hash_insert_def Let_def ent_upd_ent)
  have c: "cached ?t j b' \<longleftrightarrow> cached s j b' \<or> j = i \<and> b' = b" for j b'
    using i R(4) ei ej [of j] by (cases "j = i") (auto simp: cached_def tl)
  have db: "dblock s b = A b" by (rule R(9) [OF b(1)]) (use b(2) in blast)
  have "bc_rep A ?t"
  proof (rule bc_repI; (unfold c g)?)
    fix j b'
    assume j: "cached s j b' \<or> j = i \<and> b' = b"
    show "in_range s b' \<and> take (bsize s) (the (be_data (ent ?t j))) = A b'"
    proof (cases "j = i")
      case True
      have "\<not> cached s i b'" using i(3) by (simp add: cached_def)
      then have "b' = b" using j True by simp
      then show ?thesis using True ei(1) b(1) lb d db by (simp add: blit_def)
    next
      case False
      then have "cached s j b'" using j by blast
      then show ?thesis using R(8) False ej [OF cached_less [OF r]] by auto
    qed
  next
    fix b' assume n: "in_range s b'" "\<forall>j. cached s j b' \<or> j = i \<and> b' = b \<longrightarrow> \<not> be_dirty (ent ?t j)"
    show "dblock s b' = A b'"
    proof (rule R(9) [OF n(1)])
      show "\<not> be_dirty (ent s j)" if "cached s j b'" for j
        using n(2) that ej [OF cached_less [OF r that]] i(3) by (cases "j = i") (auto simp: cached_def)
    qed
  next
    fix j x assume "j < BCACHE_SIZE" "be_data (ent ?t j) = Some x"
    then show "length x = 4096" using ei(1) ej [of j] R(6) d lb by (cases "j = i") auto
  next
    fix j assume "j < BCACHE_SIZE" "be_valid (ent ?t j)"
    then show "be_data (ent ?t j) \<noteq> None" using ei(1) ej [of j] R(5) by (cases "j = i") auto
  qed (use R(1,3,7) ht tl b(2) in auto)
  from that [OF L this c ei(4) _ g(2,4)] ej show ?thesis by simp
qed

section \<open>The operations\<close>

text \<open>\<open>H\<close> lists the references that clients hold: \<open>(i, b)\<close> for entry \<open>i\<close>, got for block \<open>b\<close>.\<close>

definition holders :: "nat \<Rightarrow> (nat \<times> u32) multiset \<Rightarrow> nat" where
  "holders i H = size (filter_mset (\<lambda>x. fst x = i) H)"

definition pins :: "(nat \<times> u32) multiset \<Rightarrow> bcache \<Rightarrow> bool" where
  "pins H s \<longleftrightarrow> (\<forall>i b. (i, b) \<in># H \<longrightarrow> cached s i b) \<and>
     (\<forall>i<BCACHE_SIZE. be_valid (ent s i) \<longrightarrow> unat (be_refcount (ent s i)) = holders i H)"

lemma holders_add: "holders i (add_mset (j, b) H) = (if i = j then Suc (holders i H) else holders i H)"
  by (simp add: holders_def)

lemma holders_pos: "(i, b) \<in># H \<Longrightarrow> 0 < holders i H"
  by (auto simp: holders_def dest!: multi_member_split)

lemma holders_diff: "(j, b) \<in># H \<Longrightarrow> holders i (H - {#(j, b)#}) = (if i = j then holders i H - 1 else holders i H)"
  using holders_add [of i j b "H - {#(j, b)#}"] by auto

lemma holders_le: "holders i H \<le> size H"
  by (simp add: holders_def size_filter_mset_lesseq)

lemma cached_valid:
  assumes "cached t = cached s" "j < length (bc_cache t)" "be_valid (ent t j)"
  shows "be_valid (ent s j)"
proof -
  have "cached t j (be_block_no (ent t j))" using assms(2,3) by (simp add: cached_def)
  then have "cached s j (be_block_no (ent t j))" using assms(1) by simp
  then show ?thesis by (simp add: cached_def)
qed

lemma pins_quiet:
  assumes "bc_rep A s" "pins H s" "cached t = cached s" "length (bc_cache t) = BCACHE_SIZE" "\<And>j. j < BCACHE_SIZE \<Longrightarrow> be_refcount (ent t j) = be_refcount (ent s j)"
  shows "pins H t"
proof -
  have "be_valid (ent s i)" if "be_valid (ent t i)" "i < BCACHE_SIZE" for i using that assms(4) by (auto intro: cached_valid [OF assms(3)])
  then show ?thesis using assms(2,3,5) by (simp add: pins_def)
qed

lemma get_spec:
  assumes r: "bc_rep A s" and p: "pins H s" "size H < 2 ^ 32 - 1" and b: "in_range s b"
  shows "\<exists>e t. bcache_get tick b s = Some (e, t) \<and> bc_rep A t \<and> bsize t = bsize s \<and> in_range t = in_range s \<and>
    (case e of None \<Rightarrow> pins H t | Some i \<Rightarrow> cached t i b \<and> pins (add_mset (i, b) H) t)"
proof -
  note R = bc_repD [OF r]
  from hash_find_spec [OF R(2), of b] consider i where "bcache_hash_find b s = Some (Some i)" "cached s i b"
    | "bcache_hash_find b s = Some None" "\<And>i. \<not> cached s i b" by blast
  then show ?thesis
  proof cases
    case 1
    let ?u = "upd_ent i (\<lambda>e. e\<lparr>be_refcount := be_refcount e + 1, be_lru_tick := tick\<rparr>) s"
    let ?t = "?u\<lparr>cache_hits := cache_hits s + 1\<rparr>"
    note N = bc_rep_neutral [OF r, of "\<lambda>e. e\<lparr>be_refcount := be_refcount e + 1, be_lru_tick := tick\<rparr>" i, simplified]
    have t: "bc_rep A ?t" using bc_rep_counters [OF N(1), where k = "cache_hits s + 1" and m = "cache_misses s"] by (simp add: upd_ent_def)
    have il: "i < BCACHE_SIZE" "be_valid (ent s i)" using 1 R(4) by (auto simp: cached_def)
    have cc: "cached ?t = cached s" using N(2) by (auto simp: cached_def fun_eq_iff)
    have sz: "holders i H < 2 ^ 32 - 1" using holders_le [of i H] p(2) by linarith
    then have rf: "unat (be_refcount (ent s i) + 1) = holders i (add_mset (i, b) H)"
      using p(1) il by (simp add: pins_def holders_add unat_word_ariths)
    have "pins (add_mset (i, b) H) ?t"
      unfolding pins_def cc using p(1) 1(2) rf R(4) by (auto simp: pins_def ent_upd_ent holders_add)
    then show ?thesis using 1 t R(3) cc by (auto simp: bcache_get_def bsize_def in_range_def bsec_def fun_eq_iff)
  next
    case 2
    let ?s = "s\<lparr>cache_misses := cache_misses s + 1\<rparr>"
    have r': "bc_rep A ?s" using bc_rep_counters [OF r, where k = "cache_hits s" and m = "cache_misses s + 1"] by simp
    have c': "cached ?s = cached s" "bsize ?s = bsize s" "in_range ?s = in_range s"
      by (auto simp: cached_def bsize_def in_range_def bsec_def fun_eq_iff)
    have p': "pins H ?s" by (rule pins_quiet [OF r p(1) c'(1)]) (use R(4) in simp_all)
    from evict_spec [OF r'] consider "bcache_evict ?s = Some (None, ?s)"
      | i t where "bcache_evict ?s = Some (Some i, t)" "bc_rep A t" "evicted i ?s t" by blast
    then show ?thesis
    proof cases
      case none: 1
      then show ?thesis using 2(1) R(3) r' p' c' by (auto simp: bcache_get_def)
    next
      case ev: 2
      have E: "i < BCACHE_SIZE" "be_data (ent t i) \<noteq> None" "\<not> be_valid (ent t i)" "in_range t b" "bsize t = bsize s" "in_range t = in_range s"
        "\<And>j b. cached t j b \<longleftrightarrow> cached s j b \<and> j \<noteq> i" "\<And>j. j < BCACHE_SIZE \<Longrightarrow> be_refcount (ent t j) = be_refcount (ent s j)"
        "be_valid (ent s i) \<Longrightarrow> be_refcount (ent s i) = 0"
        using ev(3) b by (auto simp: evicted_def c')
      have nh: "(i, b') \<notin># H" for b'
      proof
        assume h: "(i, b') \<in># H"
        then have "be_valid (ent s i)" using p(1) by (auto simp: pins_def cached_def)
        then have "unat (be_refcount (ent s i)) = holders i H" "be_refcount (ent s i) = 0" using p(1) E(1,9) by (auto simp: pins_def)
        then show False using holders_pos [OF h] by simp
      qed
      have h0: "holders i H = 0" using nh by (auto simp: holders_def)
      obtain u where u: "load_block tick b i t = (Some i, u)" "bc_rep A u" "\<And>j b'. cached u j b' \<longleftrightarrow> cached t j b' \<or> j = i \<and> b' = b"
        "be_refcount (ent u i) = 1" "\<And>j. j < BCACHE_SIZE \<Longrightarrow> j \<noteq> i \<Longrightarrow> be_refcount (ent u j) = be_refcount (ent t j)"
        "bsize u = bsize t" "in_range u = in_range t"
        by (rule load_block_spec [OF ev(2) E(1-4)]) (use 2(2) E(7) in auto)
      have vu: "be_valid (ent s j)" if "be_valid (ent u j)" "j < BCACHE_SIZE" "j \<noteq> i" for j
      proof -
        have "cached u j (be_block_no (ent u j))" using that bc_repD(4) [OF u(2)] by (simp add: cached_def)
        then show ?thesis using u(3) E(7) that(3) by (auto simp: cached_def)
      qed
      have "pins (add_mset (i, b) H) u"
        unfolding pins_def using p(1) u(3) E(7) nh h0 u(4) u(5) E(8) vu by (auto simp: pins_def holders_add)
      then show ?thesis using 2(1) R(3) ev(1) u E(5,6) by (auto simp: bcache_get_def)
    qed
  qed
qed

text \<open>What a client does with a block it holds: it overwrites the data and marks the entry dirty.\<close>

definition client_put :: "nat \<Rightarrow> u8 list \<Rightarrow> bcache \<Rightarrow> bcache" where
  "client_put i x s =
     bcache_mark_dirty (Some i) (upd_ent i (\<lambda>e. e\<lparr>be_data := map_option (\<lambda>d. blit d 0 x) (be_data e)\<rparr>) s)"

lemma put_spec:
  assumes r: "bc_rep A s" and c: "cached s i b" and x: "length x = bsize s" and p: "pins H s"
  shows "bc_rep (A(b := x)) (client_put i x s)" "pins H (client_put i x s)" "bsize (client_put i x s) = bsize s"
    "in_range (client_put i x s) = in_range s"
proof -
  note R = bc_repD [OF r]
  let ?t = "client_put i x s"
  have il: "i < BCACHE_SIZE" "be_valid (ent s i)" "be_block_no (ent s i) = b" using c R(4) by (auto simp: cached_def)
  obtain d where d: "be_data (ent s i) = Some d" "length d = 4096" using il R(5,6) by blast
  have e: "ent ?t j = (if j = i then (ent s i)\<lparr>be_data := Some (blit d 0 x), be_dirty := True\<rparr> else ent s j)" if "j < BCACHE_SIZE" for j
    using that R(4) d by (auto simp: client_put_def bcache_mark_dirty_def ent_upd_ent)
  have g: "geom ?t = geom s" "bsize ?t = bsize s" "dblock ?t = dblock s" "in_range ?t = in_range s" "bc_ready ?t = bc_ready s"
    "bc_hash ?t = bc_hash s" "length (bc_cache ?t) = BCACHE_SIZE"
    by (simp_all add: client_put_def bcache_mark_dirty_def R(4))
  show "bsize ?t = bsize s" "in_range ?t = in_range s" by (fact g)+
  have cc: "cached ?t = cached s" using R(4) by (auto simp: cached_def g e fun_eq_iff il split: if_splits)
  have h: "hash_ok ?t" by (rule hash_ok_cong [OF R(2)]) (use cc e R(4) in \<open>simp_all add: g\<close>)
  note lt = cached_less [OF r]
  have rb: "in_range s b" using R(8) [OF c] by simp
  show "bc_rep (A(b := x)) ?t"
  proof (rule bc_repI; (unfold cc g)?)
    fix j b' assume j: "cached s j b'"
    show "in_range s b' \<and> take (bsize s) (the (be_data (ent ?t j))) = (A(b := x)) b'"
    proof (cases "b' = b")
      case True
      then have "j = i" using R(7) j c by blast
      then show ?thesis using True rb x d il by (simp add: e blit_def)
    next
      case False
      then have "j \<noteq> i" using j il by (auto simp: cached_def)
      then show ?thesis using R(8) [OF j] False by (simp add: e lt [OF j])
    qed
  next
    fix b' assume n: "in_range s b'" "\<forall>j. cached s j b' \<longrightarrow> \<not> be_dirty (ent ?t j)"
    have ne: "b' \<noteq> b" using n(2) c e [OF il(1)] by auto
    have "dblock s b' = A b'"
    proof (rule R(9) [OF n(1)])
      show "\<not> be_dirty (ent s j)" if "cached s j b'" for j
        using n(2) that e [OF lt [OF that]] ne il by (cases "j = i") (auto simp: cached_def)
    qed
    then show "dblock s b' = (A(b := x)) b'" using ne by simp
  next
    fix j y assume "j < BCACHE_SIZE" "be_data (ent ?t j) = Some y"
    then show "length y = 4096" using e [of j] R(6) d x geom_bsize [OF R(1)] by (cases "j = i") auto
  next
    fix j assume "j < BCACHE_SIZE" "be_valid (ent ?t j)"
    then show "be_data (ent ?t j) \<noteq> None" using e [of j] R(5) by (cases "j = i") auto
  qed (use R(1,3,7) h in auto)
  show "pins H ?t" by (rule pins_quiet [OF r p cc g(7)]) (use e in auto)
qed

lemma release_spec:
  assumes r: "bc_rep A s" and p: "pins H s" "(i, b) \<in># H"
  shows "bc_rep A (bcache_release (Some i) s)" "pins (H - {#(i, b)#}) (bcache_release (Some i) s)"
    "bsize (bcache_release (Some i) s) = bsize s" "in_range (bcache_release (Some i) s) = in_range s"
proof -
  have c: "cached s i b" using p by (simp add: pins_def)
  have il: "i < BCACHE_SIZE" "be_valid (ent s i)" using c bc_repD(4) [OF r] by (auto simp: cached_def)
  have u: "unat (be_refcount (ent s i)) = holders i H" "0 < holders i H" using p il holders_pos by (auto simp: pins_def)
  then have pos: "be_refcount (ent s i) > 0" by (simp add: word_less_nat_alt)
  let ?f = "\<lambda>e. e\<lparr>be_refcount := be_refcount e - 1\<rparr>"
  have t: "bcache_release (Some i) s = upd_ent i ?f s" using pos by (simp add: bcache_release_def)
  note N = bc_rep_neutral [OF r, of ?f i, simplified]
  show "bc_rep A (bcache_release (Some i) s)" "bsize (bcache_release (Some i) s) = bsize s"
    "in_range (bcache_release (Some i) s) = in_range s" using N(1) by (simp_all add: t)
  have dec: "unat (be_refcount (ent s i) - 1) = holders i H - 1" using pos u by (simp add: unat_minus_one word_gt_0)
  show "pins (H - {#(i, b)#}) (bcache_release (Some i) s)"
    unfolding pins_def t N(2) using p dec bc_repD(4) [OF r] by (auto simp: pins_def ent_upd_ent holders_diff dest: in_diffD)
qed

text \<open>\<^verbatim>\<open>bcache_sync\<close> keeps the blocks and leaves no entry dirty.\<close>

lemma sync_one_spec:
  assumes r: "bc_rep A s" and i: "i < BCACHE_SIZE"
  shows "bc_rep A (sync_one i s)" "quiet s (sync_one i s)" "be_valid (ent (sync_one i s) i) \<longrightarrow> \<not> be_dirty (ent (sync_one i s) i)"
    "\<And>j. j < BCACHE_SIZE \<Longrightarrow> j \<noteq> i \<Longrightarrow> be_dirty (ent (sync_one i s) j) = be_dirty (ent s j)"
proof -
  have eq: "sync_one i s = (if be_valid (ent s i) \<and> be_dirty (ent s i) then write_back i s else s)"
    by (simp add: sync_one_def write_back_def)
  note W = write_back_spec [OF r, of i "be_block_no (ent s i)"]
  have c: "cached s i (be_block_no (ent s i))" if "be_valid (ent s i)" using that i bc_repD(4) [OF r] by (simp add: cached_def)
  show "bc_rep A (sync_one i s)" "quiet s (sync_one i s)" "be_valid (ent (sync_one i s) i) \<longrightarrow> \<not> be_dirty (ent (sync_one i s) i)"
    "\<And>j. j < BCACHE_SIZE \<Longrightarrow> j \<noteq> i \<Longrightarrow> be_dirty (ent (sync_one i s) j) = be_dirty (ent s j)"
    using r W [OF c] by (auto simp: eq quiet_def)
qed

lemma sync_loop_spec:
  assumes "bc_rep A s" "n \<le> BCACHE_SIZE"
  shows "bc_rep A (fold sync_one [0..<n] s) \<and> quiet s (fold sync_one [0..<n] s) \<and>
    (\<forall>i<n. be_valid (ent (fold sync_one [0..<n] s) i) \<longrightarrow> \<not> be_dirty (ent (fold sync_one [0..<n] s) i))"
  using assms(2)
proof (induction n)
  case 0
  then show ?case using assms(1) by (simp add: quiet_def)
next
  case (Suc n)
  let ?u = "fold sync_one [0..<n] s"
  have n: "n < BCACHE_SIZE" using Suc.prems by simp
  have IH: "bc_rep A ?u" "quiet s ?u" "\<And>i. i < n \<Longrightarrow> be_valid (ent ?u i) \<Longrightarrow> \<not> be_dirty (ent ?u i)" using Suc by auto
  note S = sync_one_spec [OF IH(1) n]
  have v: "be_valid (ent ?u j)" if "be_valid (ent (sync_one n ?u) j)" "j < n" for j
    by (rule cached_valid [of "sync_one n ?u"]) (use that n S(2) bc_repD(4) [OF S(1)] in \<open>simp_all add: quiet_def\<close>)
  have "\<not> be_dirty (ent (sync_one n ?u) j)" if "j < Suc n" "be_valid (ent (sync_one n ?u) j)" for j
    using that S(3) S(4) [of j] IH(3) [of j] v n by (cases "j = n") auto
  then show ?case using S(1,2) IH(2) by (auto simp: quiet_def)
qed

lemma sync_spec:
  assumes "bc_rep A s" "pins H s"
  shows "bc_rep A (bcache_sync s)" "pins H (bcache_sync s)" "bsize (bcache_sync s) = bsize s" "in_range (bcache_sync s) = in_range s"
    "\<And>b. in_range s b \<Longrightarrow> dblock (bcache_sync s) b = A b"
proof -
  let ?t = "bcache_sync s"
  have t: "?t = fold sync_one [0..<BCACHE_SIZE] s" using bc_repD(3) [OF assms(1)] by (simp add: bcache_sync_def)
  have S: "bc_rep A ?t" "quiet s ?t" "\<And>i. i < BCACHE_SIZE \<Longrightarrow> be_valid (ent ?t i) \<Longrightarrow> \<not> be_dirty (ent ?t i)"
    using sync_loop_spec [OF assms(1) order_refl] by (auto simp: t)
  show "bc_rep A ?t" "bsize ?t = bsize s" and ir: "in_range ?t = in_range s" using S(1,2) by (simp_all add: quiet_def)
  show "pins H ?t" by (rule pins_quiet [OF assms]) (use S bc_repD(4) in \<open>auto simp: quiet_def\<close>)
  show "dblock ?t b = A b" if "in_range s b" for b
    by (rule bc_repD(9) [OF S(1)]) (use that ir S(3) bc_repD(4) [OF S(1)] in \<open>auto simp: cached_def\<close>)
qed

section \<open>The cache as a store of blocks\<close>

text \<open>After initialisation the cache is empty and the blocks are those on the disk.\<close>

lemma alloc_buffers_spec:
  assumes "alloc_buffers junk is (h, s) = Some (h', t)" "\<And>p. length (junk p) = 4096"
    "\<forall>i<length (bc_cache s). \<not> be_valid (ent s i) \<and> (\<forall>d. be_data (ent s i) = Some d \<longrightarrow> length d = 4096)"
  shows "length (bc_cache t) = length (bc_cache s) \<and> bc_hash t = bc_hash s \<and>
    (\<forall>i<length (bc_cache t). \<not> be_valid (ent t i) \<and> (\<forall>d. be_data (ent t i) = Some d \<longrightarrow> length d = 4096))"
  using assms
proof (induction junk "is" "(h, s)" arbitrary: h s rule: alloc_buffers.induct)
  case (1 junk h s)
  then show ?case by simp
next
  case (2 junk i js h s)
  obtain p h1 where k: "kmalloc 4096 h = Some (p, h1)" using 2(2) by (auto split: option.splits bind_splits)
  show ?case
  proof (cases "p = 0")
    case True
    then show ?thesis using 2(2,4) k by auto
  next
    case False
    let ?s = "upd_ent i (\<lambda>e. e\<lparr>be_data := Some (junk p)\<rparr>) s"
    have r: "alloc_buffers junk js (h1, ?s) = Some (h', t)" using 2(2) k False by simp
    have "\<forall>j<length (bc_cache ?s). \<not> be_valid (ent ?s j) \<and> (\<forall>d. be_data (ent ?s j) = Some d \<longrightarrow> length d = 4096)"
      using 2(3,4) by (auto simp: ent_upd_ent)
    from 2(1) [OF k refl False r 2(3) this] show ?thesis by simp
  qed
qed

lemma init_spec:
  assumes "bcache_init junk (h, s) = Some (h', s1)" "\<And>p. length (junk p) = 4096" "geom (bcache_set_block_size bs s1)"
  shows "bc_rep (dblock (bcache_set_block_size bs s1)) (bcache_set_block_size bs s1)"
    "pins {#} (bcache_set_block_size bs s1)"
proof -
  let ?s = "s\<lparr>bc_cache := replicate BCACHE_SIZE empty_entry, bc_hash := replicate BCACHE_HASH_SIZE None\<rparr>"
  obtain h1 t where a: "alloc_buffers junk [0..<BCACHE_SIZE] (h, ?s) = Some (h1, t)" "s1 = t\<lparr>bc_ready := True\<rparr>"
    using assms(1) by (auto simp: bcache_init_def split: bind_splits)
  have T: "length (bc_cache t) = BCACHE_SIZE" "bc_hash t = replicate BCACHE_HASH_SIZE None"
    "\<And>i. i < BCACHE_SIZE \<Longrightarrow> \<not> be_valid (ent t i)" "\<And>i d. i < BCACHE_SIZE \<Longrightarrow> be_data (ent t i) = Some d \<Longrightarrow> length d = 4096"
    using alloc_buffers_spec [OF a(1) assms(2)] by (simp_all add: empty_entry_def)
  let ?t = "bcache_set_block_size bs s1"
  have t: "?t = t\<lparr>bc_ready := True, cached_block_size := bs\<rparr>" by (simp add: a(2) bcache_set_block_size_def)
  have nc: "\<not> cached ?t i b" for i b using T(1,3) by (auto simp: t cached_def)
  have "hash_ok ?t" unfolding hash_ok_def using T(2) nc by (auto simp: t intro: exI [of _ "[]"])
  then show "bc_rep (dblock ?t) ?t"
    by (intro bc_repI) (use assms(3) T nc in \<open>auto simp: t\<close>)
  show "pins {#} ?t" using T(3) by (auto simp: pins_def t)
qed

text \<open>
  The clients of the cache: \<open>A\<close> is what the blocks are supposed to hold, \<open>H\<close> the references
  held. A client that changes a block holds it and marks it dirty, and releases each reference once.
\<close>

inductive bc_client :: "bcache \<Rightarrow> (u32 \<Rightarrow> u8 list) \<Rightarrow> (nat \<times> u32) multiset \<Rightarrow> bcache \<Rightarrow> bool" for s0 where
  start: "bc_client s0 (dblock s0) {#} s0"
| get: "bc_client s0 A H s \<Longrightarrow> size H < 2 ^ 32 - 1 \<Longrightarrow> in_range s0 b \<Longrightarrow> bcache_get tick b s = Some (Some i, t) \<Longrightarrow>
    bc_client s0 A (add_mset (i, b) H) t"
| full: "bc_client s0 A H s \<Longrightarrow> size H < 2 ^ 32 - 1 \<Longrightarrow> in_range s0 b \<Longrightarrow> bcache_get tick b s = Some (None, t) \<Longrightarrow> bc_client s0 A H t"
| put: "bc_client s0 A H s \<Longrightarrow> (i, b) \<in># H \<Longrightarrow> length x = bsize s0 \<Longrightarrow> bc_client s0 (A(b := x)) H (client_put i x s)"
| release: "bc_client s0 A H s \<Longrightarrow> (i, b) \<in># H \<Longrightarrow> bc_client s0 A (H - {#(i, b)#}) (bcache_release (Some i) s)"
| sync: "bc_client s0 A H s \<Longrightarrow> bc_client s0 A H (bcache_sync s)"

lemma client_inv:
  assumes "bc_client s0 A H s" "bc_rep (dblock s0) s0" "pins {#} s0"
  shows "bc_rep A s \<and> pins H s \<and> bsize s = bsize s0 \<and> in_range s = in_range s0"
  using assms(1)
proof induction
  case start
  then show ?case using assms by simp
next
  case (get A H s b tick i t)
  from get get_spec [of A s H b tick] show ?case by auto
next
  case (full A H s b tick t)
  from full get_spec [of A s H b tick] show ?case by auto
next
  case (put A H s i b x)
  then have I: "bc_rep A s" "pins H s" "bsize s = bsize s0" "in_range s = in_range s0" "cached s i b" by (auto simp: pins_def)
  have "length x = bsize s" using put.hyps I(3) by simp
  from put_spec [OF I(1,5) this I(2)] I(3,4) show ?case by (simp add: fun_upd_def)
next
  case (release A H s i b)
  then show ?case using release_spec [of A s H i b] by auto
next
  case (sync A H s)
  then show ?case using sync_spec [of A s H] by auto
qed

text \<open>
  C9 Transparency of the block cache: from initialisation on, and whatever clients do, an entry
  that a client holds still caches the block it was got for and holds the current contents of it;
  a request for any block returns, and if it returns an entry the entry has the current contents
  of the block; and after bcache_sync the disk holds the current contents of every block.
\<close>

theorem bcache_is_transparent:
  assumes "bcache_init junk (h, s) = Some (h', s1)" "\<And>p. length (junk p) = 4096"
    and "s0 = bcache_set_block_size bs s1" "geom s0" "bc_client s0 A H t"
  shows "(\<forall>i b. (i, b) \<in># H \<longrightarrow> cached t i b \<and> take (bsize s0) (the (be_data (ent t i))) = A b) \<and>
    (\<forall>tick b. in_range s0 b \<and> size H < 2 ^ 32 - 1 \<longrightarrow>
       (\<exists>e u. bcache_get tick b t = Some (e, u) \<and> (\<forall>i. e = Some i \<longrightarrow> take (bsize s0) (the (be_data (ent u i))) = A b))) \<and>
    (\<forall>b. in_range s0 b \<longrightarrow> dblock (bcache_sync t) b = A b)"
proof -
  have "bc_rep (dblock s0) s0" "pins {#} s0"
    using init_spec [OF assms(1,2) assms(4) [unfolded assms(3)]] by (simp_all add: assms(3))
  from client_inv [OF assms(5) this] have I: "bc_rep A t" "pins H t" "bsize t = bsize s0" "in_range t = in_range s0" by auto
  show ?thesis
  proof (intro conjI allI impI)
    show c: "cached t i b" if "(i, b) \<in># H" for i b using I(2) that by (simp add: pins_def)
    show "take (bsize s0) (the (be_data (ent t i))) = A b" if "(i, b) \<in># H" for i b
      using bc_repD(8) [OF I(1) c [OF that]] I(3) by simp
    show "\<exists>e u. bcache_get tick b t = Some (e, u) \<and> (\<forall>i. e = Some i \<longrightarrow> take (bsize s0) (the (be_data (ent u i))) = A b)"
      if b: "in_range s0 b \<and> size H < 2 ^ 32 - 1" for tick b
    proof -
      obtain e u where g: "bcache_get tick b t = Some (e, u)" "bc_rep A u" "bsize u = bsize t"
        "case e of None \<Rightarrow> pins H u | Some i \<Rightarrow> cached u i b \<and> pins (add_mset (i, b) H) u"
        using get_spec [OF I(1,2), of b tick] b I(4) by auto
      then show ?thesis using bc_repD(8) [OF g(2)] I(3) by auto
    qed
    show "dblock (bcache_sync t) b = A b" if "in_range s0 b" for b
      using sync_spec(5) [OF I(1,2)] that I(4) by simp
  qed
qed

text \<open>A heap with room for one buffer, a disk of zeros, and a client that changes block 5.\<close>

definition one_buf_heap :: kheap where
  "one_buf_heap = kheap_setup (KHEAP_START + 0x2000)
     \<lparr>kh_mem = (\<lambda>_. \<lparr>kb_size = 0, kb_next = 0, kb_magic = 0\<rparr>), kh_free_list = 0, kh_start = 0, kh_end = 0\<rparr>"

definition zero_cache :: bcache where
  "zero_cache = \<lparr>bc_cache = [], bc_hash = [], bc_ready = False, cache_hits = 0, cache_misses = 0, cached_block_size = 1024,
     bc_disk = \<lparr>primary_present = True, sector_ok = (\<lambda>_. True), sectors = (\<lambda>_. replicate 512 0), power = None\<rparr>\<rparr>"

definition zero_cache_up :: bcache where
  "zero_cache_up = zero_cache\<lparr>bc_cache := (replicate BCACHE_SIZE empty_entry)[0 := empty_entry\<lparr>be_data := Some (replicate 4096 0)\<rparr>],
     bc_hash := replicate BCACHE_HASH_SIZE None, bc_ready := True\<rparr>"

lemma one_buf_kmalloc:
  "\<exists>h. kmalloc 4096 one_buf_heap = Some (0xFFFFFFFF90000018, h) \<and> kmalloc 4096 h = Some (0, h)"
proof -
  let ?h = "take_block 4096 0 KHEAP_START one_buf_heap"
  have f: "kmalloc_find (kh_mem one_buf_heap) 4096 0 (kh_free_list one_buf_heap) = Some (Some (0, KHEAP_START))"
    by (subst kmalloc_find.simps)
      (simp add: one_buf_heap_def kheap_setup_def set_block_def KHEAP_START_def BLOCK_HDR_SIZE_def sub64_eq)
  then have one: "kmalloc 4096 one_buf_heap = Some (0xFFFFFFFF90000018, ?h)"
    by (simp add: kmalloc_def round_up_def add64_eq) (simp add: add64_eq KHEAP_START_def BLOCK_HDR_SIZE_def)
  have "kmalloc_find (kh_mem ?h) 4096 0 (kh_free_list ?h) = Some None"
    by (simp add: kmalloc_find.simps take_block_def one_buf_heap_def kheap_setup_def set_block_def KHEAP_START_def BLOCK_HDR_SIZE_def
        MIN_BLOCK_SIZE_def sub64_eq add64_eq link_prev_def Let_def)
  then have "kmalloc 4096 ?h = Some (0, ?h)" by (simp add: kmalloc_def round_up_def add64_eq)
  with one show ?thesis by blast
qed

theorem bcache_is_transparent_witness:
  "\<exists>h t. bcache_init (\<lambda>_. replicate 4096 0) (one_buf_heap, zero_cache) = Some (h, zero_cache_up) \<and>
     bc_client zero_cache_up ((dblock zero_cache_up)(5 := replicate 1024 7)) {#(0, 5)#} t \<and>
     dblock (bcache_sync t) 5 = replicate 1024 7"
proof -
  obtain h where h: "kmalloc 4096 one_buf_heap = Some (0xFFFFFFFF90000018, h)" "kmalloc 4096 h = Some (0, h)"
    using one_buf_kmalloc by blast
  have b0: "0 < BCACHE_SIZE" by (simp add: BCACHE_SIZE_def)
  have l: "[0..<BCACHE_SIZE] = 0 # 1 # [2..<BCACHE_SIZE]" by (simp add: BCACHE_SIZE_def upt_conv_Cons)
  have I: "bcache_init (\<lambda>_. replicate 4096 0) (one_buf_heap, zero_cache) = Some (h, zero_cache_up)"
    unfolding bcache_init_def l using b0 by (simp add: h zero_cache_up_def upd_ent_def upd_nth_def)
  have s0: "zero_cache_up = bcache_set_block_size 1024 zero_cache_up" by (simp add: zero_cache_up_def zero_cache_def bcache_set_block_size_def)
  have g: "geom zero_cache_up" by (simp add: geom_def zero_cache_up_def zero_cache_def intact_def)
  have r: "bc_rep (dblock zero_cache_up) zero_cache_up" using init_spec(1) [OF I, of 1024] g s0 by simp
  have rg: "in_range zero_cache_up 5" "bsize zero_cache_up = 1024" by (simp_all add: in_range_def bsize_def bsec_def zero_cache_up_def zero_cache_def)
  let ?s = "zero_cache_up\<lparr>cache_misses := cache_misses zero_cache_up + 1\<rparr>"
  have r': "bc_rep (dblock zero_cache_up) ?s" using bc_rep_counters [OF r, where k = "cache_hits zero_cache_up"] by simp
  have e0: "ent ?s 0 = empty_entry\<lparr>be_data := Some (replicate 4096 0)\<rparr>" by (simp add: zero_cache_up_def BCACHE_SIZE_def)
  have nc: "\<not> cached ?s j b" for j b by (auto simp: cached_def zero_cache_up_def nth_list_update empty_entry_def)
  have rs: "in_range ?s 5" using rg(1) by (simp add: in_range_def bsec_def)
  have v0: "be_data (ent ?s 0) \<noteq> None" "\<not> be_valid (ent ?s 0)" unfolding e0 by (simp_all add: empty_entry_def)
  obtain t where t: "load_block 9 5 0 ?s = (Some 0, t)"
    by (rule load_block_spec [OF r' b0 v0 rs nc, of 9])
  have "bcache_hash_find 5 zero_cache_up = Some None"
    by (simp add: bcache_hash_find_def hash_find_from.simps zero_cache_up_def hash_fn_def BCACHE_HASH_SIZE_def)
  moreover have "bcache_evict ?s = Some (Some 0, ?s)"
    using e0 by (simp add: bcache_evict_def l empty_entry_def)
  ultimately have G: "bcache_get 9 5 zero_cache_up = Some (Some 0, t)"
    using t by (simp add: bcache_get_def) (simp add: zero_cache_up_def)
  have "bc_client zero_cache_up (dblock zero_cache_up) {#(0, 5)#} t"
    using bc_client.get [OF bc_client.start _ rg(1) G] by simp
  then have C: "bc_client zero_cache_up ((dblock zero_cache_up)(5 := replicate 1024 7)) {#(0, 5)#} (client_put 0 (replicate 1024 7) t)"
    by (rule bc_client.put) (simp_all add: rg(2))
  have "dblock (bcache_sync (client_put 0 (replicate 1024 7) t)) 5 = replicate 1024 7"
    using bcache_is_transparent [OF I _ s0 g C] rg(1) by simp
  with I C show ?thesis by blast
qed

end
