(* ===== verification/Vga.thy ===== *)
theory Vga
  imports CString
begin

text \<open>
  The text console (\<^verbatim>\<open>kernel/drivers/vga.c\<close>): a text buffer of 80 by 25 cells, in the video memory
  or, when the framebuffer console is active, in a shadow buffer whose characters are also drawn
  into the framebuffer; the formatted output of the kernel; and the boot screen. A pixel is
  addressed by its index in the framebuffer, and the index arithmetic is that of \<^verbatim>\<open>uint32_t\<close>.
  The serial port is the list of bytes sent so far, the cursor register of the video card a word.
\<close>

section \<open>State\<close>

definition VGA_WIDTH :: nat where "VGA_WIDTH = 80"
definition VGA_HEIGHT :: nat where "VGA_HEIGHT = 25"
definition FB_CHAR_W :: nat where "FB_CHAR_W = 8"
definition FB_CHAR_H :: nat where "FB_CHAR_H = 9"
definition VGA_BLACK :: u8 where "VGA_BLACK = 0"
definition VGA_LIGHT_GREY :: u8 where "VGA_LIGHT_GREY = 7"
definition VGA_DARK_GREY :: u8 where "VGA_DARK_GREY = 8"
definition VGA_LIGHT_GREEN :: u8 where "VGA_LIGHT_GREEN = 10"
definition VGA_LIGHT_CYAN :: u8 where "VGA_LIGHT_CYAN = 11"
definition VGA_WHITE :: u8 where "VGA_WHITE = 15"

record vga =
  hw_buffer :: "u16 list"
  fb_shadow_buffer :: "u16 list"
  vga_shadowed :: bool
  vga_row :: u16
  vga_col :: u16
  vga_color_attr :: u8
  fb_console_active :: bool
  boot_screen_active :: bool
  boot_fb_mode :: bool
  fb_con_width :: u32
  fb_con_height :: u32
  fb_con_pitch :: u32
  fb_con_cols :: u32
  fb_con_rows :: u32
  fb :: "nat \<Rightarrow> u32"
  debug_serial_ready :: bool
  serial :: "u8 list"
  hw_cursor :: u16

text \<open>What \<^verbatim>\<open>vga_buffer\<close> points to.\<close>

definition vga_buffer :: "vga \<Rightarrow> u16 list" where
  "vga_buffer s = (if vga_shadowed s then fb_shadow_buffer s else hw_buffer s)"

definition upd_buffer :: "(u16 list \<Rightarrow> u16 list) \<Rightarrow> vga \<Rightarrow> vga" where
  "upd_buffer f s = (if vga_shadowed s then s\<lparr>fb_shadow_buffer := f (fb_shadow_buffer s)\<rparr> else s\<lparr>hw_buffer := f (hw_buffer s)\<rparr>)"

definition vga_to_rgb :: "u32 list" where
  "vga_to_rgb =
     [0x000000, 0x0000AA, 0x00AA00, 0x00AAAA, 0xAA0000, 0xAA00AA, 0xAA5500, 0xAAAAAA, 0x555555, 0x5555FF, 0x55FF55, 0x55FFFF, 0xFF5555, 0xFF55FF, 0xFFFF55, 0xFFFFFF]"

definition fb_font8x8 :: "u8 list list" where
  "fb_font8x8 =
    [[0x00, 0x00, 0x00, 0x00, 0x00, 0x00, 0x00, 0x00],
     [0x18, 0x3C, 0x3C, 0x18, 0x18, 0x00, 0x18, 0x00],
     [0x36, 0x36, 0x00, 0x00, 0x00, 0x00, 0x00, 0x00],
     [0x36, 0x36, 0x7F, 0x36, 0x7F, 0x36, 0x36, 0x00],
     [0x0C, 0x3E, 0x03, 0x1E, 0x30, 0x1F, 0x0C, 0x00],
     [0x00, 0x63, 0x33, 0x18, 0x0C, 0x66, 0x63, 0x00],
     [0x1C, 0x36, 0x1C, 0x6E, 0x3B, 0x33, 0x6E, 0x00],
     [0x06, 0x06, 0x03, 0x00, 0x00, 0x00, 0x00, 0x00],
     [0x18, 0x0C, 0x06, 0x06, 0x06, 0x0C, 0x18, 0x00],
     [0x06, 0x0C, 0x18, 0x18, 0x18, 0x0C, 0x06, 0x00],
     [0x00, 0x66, 0x3C, 0xFF, 0x3C, 0x66, 0x00, 0x00],
     [0x00, 0x0C, 0x0C, 0x3F, 0x0C, 0x0C, 0x00, 0x00],
     [0x00, 0x00, 0x00, 0x00, 0x00, 0x0C, 0x0C, 0x06],
     [0x00, 0x00, 0x00, 0x3F, 0x00, 0x00, 0x00, 0x00],
     [0x00, 0x00, 0x00, 0x00, 0x00, 0x0C, 0x0C, 0x00],
     [0x60, 0x30, 0x18, 0x0C, 0x06, 0x03, 0x01, 0x00],
     [0x3E, 0x63, 0x73, 0x7B, 0x6F, 0x67, 0x3E, 0x00],
     [0x0C, 0x0E, 0x0C, 0x0C, 0x0C, 0x0C, 0x3F, 0x00],
     [0x1E, 0x33, 0x30, 0x1C, 0x06, 0x33, 0x3F, 0x00],
     [0x1E, 0x33, 0x30, 0x1C, 0x30, 0x33, 0x1E, 0x00],
     [0x38, 0x3C, 0x36, 0x33, 0x7F, 0x30, 0x78, 0x00],
     [0x3F, 0x03, 0x1F, 0x30, 0x30, 0x33, 0x1E, 0x00],
     [0x1C, 0x06, 0x03, 0x1F, 0x33, 0x33, 0x1E, 0x00],
     [0x3F, 0x33, 0x30, 0x18, 0x0C, 0x0C, 0x0C, 0x00],
     [0x1E, 0x33, 0x33, 0x1E, 0x33, 0x33, 0x1E, 0x00],
     [0x1E, 0x33, 0x33, 0x3E, 0x30, 0x18, 0x0E, 0x00],
     [0x00, 0x0C, 0x0C, 0x00, 0x00, 0x0C, 0x0C, 0x00],
     [0x00, 0x0C, 0x0C, 0x00, 0x00, 0x0C, 0x0C, 0x06],
     [0x18, 0x0C, 0x06, 0x03, 0x06, 0x0C, 0x18, 0x00],
     [0x00, 0x00, 0x3F, 0x00, 0x00, 0x3F, 0x00, 0x00],
     [0x06, 0x0C, 0x18, 0x30, 0x18, 0x0C, 0x06, 0x00],
     [0x1E, 0x33, 0x30, 0x18, 0x0C, 0x00, 0x0C, 0x00],
     [0x3E, 0x63, 0x7B, 0x7B, 0x7B, 0x03, 0x1E, 0x00],
     [0x0C, 0x1E, 0x33, 0x33, 0x3F, 0x33, 0x33, 0x00],
     [0x3F, 0x66, 0x66, 0x3E, 0x66, 0x66, 0x3F, 0x00],
     [0x3C, 0x66, 0x03, 0x03, 0x03, 0x66, 0x3C, 0x00],
     [0x1F, 0x36, 0x66, 0x66, 0x66, 0x36, 0x1F, 0x00],
     [0x7F, 0x46, 0x16, 0x1E, 0x16, 0x46, 0x7F, 0x00],
     [0x7F, 0x46, 0x16, 0x1E, 0x16, 0x06, 0x0F, 0x00],
     [0x3C, 0x66, 0x03, 0x03, 0x73, 0x66, 0x7C, 0x00],
     [0x33, 0x33, 0x33, 0x3F, 0x33, 0x33, 0x33, 0x00],
     [0x1E, 0x0C, 0x0C, 0x0C, 0x0C, 0x0C, 0x1E, 0x00],
     [0x78, 0x30, 0x30, 0x30, 0x33, 0x33, 0x1E, 0x00],
     [0x67, 0x66, 0x36, 0x1E, 0x36, 0x66, 0x67, 0x00],
     [0x0F, 0x06, 0x06, 0x06, 0x46, 0x66, 0x7F, 0x00],
     [0x63, 0x77, 0x7F, 0x7F, 0x6B, 0x63, 0x63, 0x00],
     [0x63, 0x67, 0x6F, 0x7B, 0x73, 0x63, 0x63, 0x00],
     [0x1C, 0x36, 0x63, 0x63, 0x63, 0x36, 0x1C, 0x00],
     [0x3F, 0x66, 0x66, 0x3E, 0x06, 0x06, 0x0F, 0x00],
     [0x1E, 0x33, 0x33, 0x33, 0x3B, 0x1E, 0x38, 0x00],
     [0x3F, 0x66, 0x66, 0x3E, 0x36, 0x66, 0x67, 0x00],
     [0x1E, 0x33, 0x07, 0x0E, 0x38, 0x33, 0x1E, 0x00],
     [0x3F, 0x2D, 0x0C, 0x0C, 0x0C, 0x0C, 0x1E, 0x00],
     [0x33, 0x33, 0x33, 0x33, 0x33, 0x33, 0x3F, 0x00],
     [0x33, 0x33, 0x33, 0x33, 0x33, 0x1E, 0x0C, 0x00],
     [0x63, 0x63, 0x63, 0x6B, 0x7F, 0x77, 0x63, 0x00],
     [0x63, 0x63, 0x36, 0x1C, 0x1C, 0x36, 0x63, 0x00],
     [0x33, 0x33, 0x33, 0x1E, 0x0C, 0x0C, 0x1E, 0x00],
     [0x7F, 0x63, 0x31, 0x18, 0x4C, 0x66, 0x7F, 0x00],
     [0x1E, 0x06, 0x06, 0x06, 0x06, 0x06, 0x1E, 0x00],
     [0x03, 0x06, 0x0C, 0x18, 0x30, 0x60, 0x40, 0x00],
     [0x1E, 0x18, 0x18, 0x18, 0x18, 0x18, 0x1E, 0x00],
     [0x08, 0x1C, 0x36, 0x63, 0x00, 0x00, 0x00, 0x00],
     [0x00, 0x00, 0x00, 0x00, 0x00, 0x00, 0x00, 0xFF],
     [0x0C, 0x0C, 0x18, 0x00, 0x00, 0x00, 0x00, 0x00],
     [0x00, 0x00, 0x1E, 0x30, 0x3E, 0x33, 0x6E, 0x00],
     [0x07, 0x06, 0x06, 0x3E, 0x66, 0x66, 0x3B, 0x00],
     [0x00, 0x00, 0x1E, 0x33, 0x03, 0x33, 0x1E, 0x00],
     [0x38, 0x30, 0x30, 0x3E, 0x33, 0x33, 0x6E, 0x00],
     [0x00, 0x00, 0x1E, 0x33, 0x3F, 0x03, 0x1E, 0x00],
     [0x1C, 0x36, 0x06, 0x0F, 0x06, 0x06, 0x0F, 0x00],
     [0x00, 0x00, 0x6E, 0x33, 0x33, 0x3E, 0x30, 0x1F],
     [0x07, 0x06, 0x36, 0x6E, 0x66, 0x66, 0x67, 0x00],
     [0x0C, 0x00, 0x0E, 0x0C, 0x0C, 0x0C, 0x1E, 0x00],
     [0x30, 0x00, 0x30, 0x30, 0x30, 0x33, 0x33, 0x1E],
     [0x07, 0x06, 0x66, 0x36, 0x1E, 0x36, 0x67, 0x00],
     [0x0E, 0x0C, 0x0C, 0x0C, 0x0C, 0x0C, 0x1E, 0x00],
     [0x00, 0x00, 0x33, 0x7F, 0x7F, 0x6B, 0x63, 0x00],
     [0x00, 0x00, 0x1F, 0x33, 0x33, 0x33, 0x33, 0x00],
     [0x00, 0x00, 0x1E, 0x33, 0x33, 0x33, 0x1E, 0x00],
     [0x00, 0x00, 0x3B, 0x66, 0x66, 0x3E, 0x06, 0x0F],
     [0x00, 0x00, 0x6E, 0x33, 0x33, 0x3E, 0x30, 0x78],
     [0x00, 0x00, 0x3B, 0x6E, 0x66, 0x06, 0x0F, 0x00],
     [0x00, 0x00, 0x3E, 0x03, 0x1E, 0x30, 0x1F, 0x00],
     [0x08, 0x0C, 0x3E, 0x0C, 0x0C, 0x2C, 0x18, 0x00],
     [0x00, 0x00, 0x33, 0x33, 0x33, 0x33, 0x6E, 0x00],
     [0x00, 0x00, 0x33, 0x33, 0x33, 0x1E, 0x0C, 0x00],
     [0x00, 0x00, 0x63, 0x6B, 0x7F, 0x7F, 0x36, 0x00],
     [0x00, 0x00, 0x63, 0x36, 0x1C, 0x36, 0x63, 0x00],
     [0x00, 0x00, 0x33, 0x33, 0x33, 0x3E, 0x30, 0x1F],
     [0x00, 0x00, 0x3F, 0x19, 0x0C, 0x26, 0x3F, 0x00],
     [0x38, 0x0C, 0x0C, 0x07, 0x0C, 0x0C, 0x38, 0x00],
     [0x18, 0x18, 0x18, 0x00, 0x18, 0x18, 0x18, 0x00],
     [0x07, 0x0C, 0x0C, 0x38, 0x0C, 0x0C, 0x07, 0x00],
     [0x6E, 0x3B, 0x00, 0x00, 0x00, 0x00, 0x00, 0x00]]"

definition vga_entry :: "u8 \<Rightarrow> u8 \<Rightarrow> u16" where
  "vga_entry c color = scast c OR push_bit 8 (ucast color)"

definition vga_color :: "u8 \<Rightarrow> u8 \<Rightarrow> u8" where
  "vga_color fg bg = fg OR push_bit 4 bg"

section \<open>Pixels\<close>

definition glyph :: "u8 \<Rightarrow> u8 list" where
  "glyph c = (let idx = int (unat c) - 0x20 in fb_font8x8 ! (if idx < 0 \<or> idx \<ge> 95 then 0 else nat idx))"

definition stride :: "vga \<Rightarrow> u32" where
  "stride s = fb_con_pitch s div 4"

text \<open>One row of a character; \<^verbatim>\<open>line\<close> is the index of its first pixel.\<close>

definition draw_row :: "vga \<Rightarrow> u32 \<Rightarrow> nat \<Rightarrow> u8 \<Rightarrow> u32 \<Rightarrow> u32 \<Rightarrow> (nat \<Rightarrow> u32) \<Rightarrow> nat \<Rightarrow> u32" where
  "draw_row s px line bits fg bg =
     fold (\<lambda>col f. if px + of_nat col < fb_con_width s then f(line + col := (if bit bits col then fg else bg)) else f) [0..<8]"

fun draw_rows :: "vga \<Rightarrow> u32 \<Rightarrow> u32 \<Rightarrow> u8 list \<Rightarrow> u32 \<Rightarrow> u32 \<Rightarrow> nat \<Rightarrow> (nat \<Rightarrow> u32) \<Rightarrow> nat \<Rightarrow> u32" where
  "draw_rows s px py [] fg bg row f = f"
| "draw_rows s px py (bits # rest) fg bg row f =
     (if py + of_nat row \<ge> fb_con_height s then f
      else draw_rows s px py rest fg bg (row + 1)
             (draw_row s px (unat ((py + of_nat row) * stride s) + unat px) bits fg bg f))"

definition fb_draw_char :: "u32 \<Rightarrow> u32 \<Rightarrow> u8 \<Rightarrow> u32 \<Rightarrow> u32 \<Rightarrow> vga \<Rightarrow> vga" where
  "fb_draw_char px py c fg bg s = s\<lparr>fb := draw_rows s px py (glyph c) fg bg 0 (fb s)\<rparr>"

text \<open>The loop \<^verbatim>\<open>for (y ...) for (x ...) fb[y * stride + x] = v;\<close>.\<close>

definition fill_pixels :: "nat list \<Rightarrow> nat list \<Rightarrow> u32 \<Rightarrow> vga \<Rightarrow> vga" where
  "fill_pixels ys xs v s =
     s\<lparr>fb := fold (\<lambda>y. fold (\<lambda>x f. f(unat (of_nat y * stride s + of_nat x) := v)) xs) ys (fb s)\<rparr>"

definition vga_enable_fb_console :: "bool \<Rightarrow> u32 \<Rightarrow> u32 \<Rightarrow> u32 \<Rightarrow> vga \<Rightarrow> vga" where
  "vga_enable_fb_console initialized width height pitch s =
     (if \<not> initialized then s
      else s\<lparr>fb_con_width := width, fb_con_height := height, fb_con_pitch := pitch,
             fb_con_cols := width div of_nat FB_CHAR_W, fb_con_rows := height div of_nat FB_CHAR_H,
             fb_shadow_buffer := replicate (VGA_WIDTH * VGA_HEIGHT) (vga_entry 0x20 (vga_color_attr s)),
             vga_shadowed := True, fb_console_active := True\<rparr>)"

definition vga_disable_fb_console :: "vga \<Rightarrow> vga" where
  "vga_disable_fb_console s = s\<lparr>fb_console_active := False, vga_shadowed := False\<rparr>"

definition repaint_cell :: "nat \<Rightarrow> nat \<Rightarrow> vga \<Rightarrow> vga" where
  "repaint_cell row col s =
     (let entry = vga_buffer s ! (row * VGA_WIDTH + col); ch = ucast entry :: u8; attr = ucast (drop_bit 8 entry) :: u8
      in if ch = 0x20 \<or> ch = 0 then s
         else fb_draw_char (of_nat col * of_nat FB_CHAR_W) (of_nat row * of_nat FB_CHAR_H) ch
                (vga_to_rgb ! unat (attr AND 0x0F)) (vga_to_rgb ! unat (drop_bit 4 attr AND 0x0F)) s)"

definition vga_repaint_fb_console :: "vga \<Rightarrow> vga" where
  "vga_repaint_fb_console s =
     (if \<not> fb_console_active s then s
      else fold (\<lambda>row. fold (repaint_cell row) [0..<VGA_WIDTH]) [0..<VGA_HEIGHT]
             (fill_pixels [0..<unat (fb_con_height s)] [0..<unat (fb_con_width s)] 0 s))"

section \<open>Characters\<close>

definition vga_update_cursor :: "vga \<Rightarrow> vga" where
  "vga_update_cursor s = s\<lparr>hw_cursor := vga_row s * of_nat VGA_WIDTH + vga_col s\<rparr>"

definition copy_row :: "u32 \<Rightarrow> nat \<Rightarrow> nat \<Rightarrow> nat \<Rightarrow> (nat \<Rightarrow> u32) \<Rightarrow> nat \<Rightarrow> u32" where
  "copy_row st dst src w = fold (\<lambda>x f. f(unat (of_nat dst * st) + x := f (unat (of_nat src * st) + x))) [0..<w]"

definition clear_row :: "u32 \<Rightarrow> nat \<Rightarrow> nat \<Rightarrow> (nat \<Rightarrow> u32) \<Rightarrow> nat \<Rightarrow> u32" where
  "clear_row st y w = fold (\<lambda>x f. f(unat (of_nat y * st) + x := 0)) [0..<w]"

definition scroll_pixels :: "vga \<Rightarrow> vga" where
  "scroll_pixels s =
     (let text_w = VGA_WIDTH * FB_CHAR_W; text_pixel_h = VGA_HEIGHT * FB_CHAR_H
      in s\<lparr>fb := fold (\<lambda>y. clear_row (stride s) y text_w) [text_pixel_h - FB_CHAR_H..<text_pixel_h]
                  (fold (\<lambda>y. copy_row (stride s) y (y + FB_CHAR_H) text_w) [0..<text_pixel_h - FB_CHAR_H] (fb s))\<rparr>)"

definition vga_scroll :: "vga \<Rightarrow> vga" where
  "vga_scroll s =
     (if unat (vga_row s) < VGA_HEIGHT then s
      else
        (let n = (VGA_HEIGHT - 1) * VGA_WIDTH;
             s1 = upd_buffer (\<lambda>t. blit (blit t 0 (take n (drop VGA_WIDTH t))) n
                                    (replicate VGA_WIDTH (vga_entry 0x20 (vga_color_attr s)))) s;
             s2 = (if fb_console_active s1 then scroll_pixels s1 else s1)
         in s2\<lparr>vga_row := of_nat (VGA_HEIGHT - 1)\<rparr>))"

definition vga_clear :: "vga \<Rightarrow> vga" where
  "vga_clear s =
     (let s1 = (upd_buffer (\<lambda>t. blit t 0 (replicate (VGA_WIDTH * VGA_HEIGHT) (vga_entry 0x20 (vga_color_attr s)))) s)
                 \<lparr>vga_row := 0, vga_col := 0\<rparr>
      in if fb_console_active s1
         then fill_pixels [0..<min (VGA_HEIGHT * FB_CHAR_H) (unat (fb_con_height s1))]
                [0..<min (VGA_WIDTH * FB_CHAR_W) (unat (fb_con_width s1))] 0 s1
         else vga_update_cursor s1)"

definition vga_init :: "vga \<Rightarrow> vga" where
  "vga_init s = vga_clear (s\<lparr>vga_shadowed := False, vga_row := 0, vga_col := 0, vga_color_attr := vga_color VGA_LIGHT_GREY VGA_BLACK\<rparr>)"

definition vga_set_color :: "u8 \<Rightarrow> u8 \<Rightarrow> vga \<Rightarrow> vga" where
  "vga_set_color fg bg s = s\<lparr>vga_color_attr := vga_color fg bg\<rparr>"

definition fg_of :: "vga \<Rightarrow> u32" where "fg_of s = vga_to_rgb ! unat (vga_color_attr s AND 0x0F)"
definition bg_of :: "vga \<Rightarrow> u32" where "bg_of s = vga_to_rgb ! unat (drop_bit 4 (vga_color_attr s) AND 0x0F)"

definition put_cell :: "u8 \<Rightarrow> vga \<Rightarrow> vga" where
  "put_cell c s = upd_buffer (\<lambda>t. t[unat (vga_row s) * VGA_WIDTH + unat (vga_col s) := vga_entry c (vga_color_attr s)]) s"

definition draw_cell :: "u8 \<Rightarrow> u32 \<Rightarrow> u32 \<Rightarrow> vga \<Rightarrow> vga" where
  "draw_cell c fg bg s = fb_draw_char (ucast (vga_col s) * of_nat FB_CHAR_W) (ucast (vga_row s) * of_nat FB_CHAR_H) c fg bg s"

definition vga_backspace :: "vga \<Rightarrow> vga" where
  "vga_backspace s =
     (let s1 = (if vga_col s > 0 then s\<lparr>vga_col := vga_col s - 1\<rparr>
                else if vga_row s > 0 then s\<lparr>vga_row := vga_row s - 1, vga_col := of_nat (VGA_WIDTH - 1)\<rparr> else s);
          s2 = put_cell 0x20 s1
      in if fb_console_active s2 then draw_cell 0x20 (bg_of s2) (bg_of s2) s2 else vga_update_cursor s2)"

definition debug_putchar :: "u8 \<Rightarrow> vga \<Rightarrow> vga" where
  "debug_putchar c s = s\<lparr>serial := serial s @ [c]\<rparr>"

text \<open>The line break after the last column.\<close>

definition wrap_line :: "vga \<Rightarrow> vga" where
  "wrap_line s = (if unat (vga_col s) \<ge> VGA_WIDTH then s\<lparr>vga_col := 0, vga_row := vga_row s + 1\<rparr> else s)"

definition screen_putchar :: "u8 \<Rightarrow> vga \<Rightarrow> vga" where
  "screen_putchar c s =
     (if c = 8 then vga_backspace s
      else
        (let s1 = (if c = 0x0A then s\<lparr>vga_col := 0, vga_row := vga_row s + 1\<rparr>
                   else if c = 0x0D then s\<lparr>vga_col := 0\<rparr>
                   else if c = 9 then wrap_line (s\<lparr>vga_col := (vga_col s + 8) AND NOT 7\<rparr>)
                   else (let s2 = put_cell c s;
                             s3 = (if fb_console_active s2 then draw_cell c (fg_of s2) (bg_of s2) s2 else s2)
                         in wrap_line (s3\<lparr>vga_col := vga_col s3 + 1\<rparr>)));
             s4 = vga_scroll s1
         in if fb_console_active s4 then s4 else vga_update_cursor s4))"

definition vga_putchar :: "u8 \<Rightarrow> vga \<Rightarrow> vga" where
  "vga_putchar c s =
     (let s1 = (if debug_serial_ready s then debug_putchar c (if c = 0x0A then debug_putchar 0x0D s else s) else s)
      in if boot_screen_active s1 then s1 else screen_putchar c s1)"

text \<open>A string is the list of its bytes before the terminating zero.\<close>

definition vga_puts :: "u8 list \<Rightarrow> vga \<Rightarrow> vga" where
  "vga_puts cs s = fold vga_putchar cs s"

section \<open>Formatted output\<close>

definition digit_char :: "nat \<Rightarrow> u8" where
  "digit_char d = (if d < 10 then of_nat (0x30 + d) else of_nat (0x61 + d - 10))"

text \<open>The digits in the order the loop stores them, the lowest first.\<close>

function digit_loop :: "nat \<Rightarrow> nat \<Rightarrow> u8 list" where
  "digit_loop base val = (if val > 0 \<and> base > 1 then digit_char (val mod base) # digit_loop base (val div base) else [])"
  by pat_completeness auto
termination
  by (relation "measure snd") auto

declare digit_loop.simps [simp del]

definition digit_buf :: "nat \<Rightarrow> nat \<Rightarrow> u8 list" where
  "digit_buf base val = (if val = 0 then [0x30] else digit_loop base val)"

text \<open>\<open>None\<close> when the padding runs over the end of \<^verbatim>\<open>buf[24]\<close>.\<close>

definition print_uint :: "u64 \<Rightarrow> nat \<Rightarrow> bool \<Rightarrow> nat \<Rightarrow> bool \<Rightarrow> vga \<Rightarrow> vga option" where
  "print_uint val base pad_zero width left_align s =
     (let buf = digit_buf base (unat val) in
      if left_align then Some (vga_puts (rev buf @ replicate (width - length buf) 0x20) s)
      else (let full = buf @ replicate (width - length buf) (if pad_zero then 0x30 else 0x20)
            in if length full > 24 then None else Some (vga_puts (rev full) s)))"

definition print_int :: "u64 \<Rightarrow> nat \<Rightarrow> bool \<Rightarrow> vga \<Rightarrow> vga option" where
  "print_int val width left_align s =
     (if sint val < 0 then print_uint (- val) 10 False (width - 1) left_align (vga_putchar 0x2D s)
      else print_uint val 10 False width left_align s)"

text \<open>
  The variable arguments: a string pointer (\<open>None\<close> is \<^verbatim>\<open>NULL\<close>) or a number. \<open>None\<close> as the result
  means that the call reads past the end of the format or an argument that is not there.
\<close>

datatype va = VStr "u8 list option" | VNum u64

fun take_width :: "nat \<Rightarrow> u8 list \<Rightarrow> nat \<times> u8 list" where
  "take_width w [] = (w, [])"
| "take_width w (c # cs) = (if 0x30 \<le> c \<and> c \<le> 0x39 then take_width (w * 10 + unat (c - 0x30)) cs else (w, c # cs))"

lemma take_width_length: "length (snd (take_width w cs)) \<le> length cs"
  by (induction w cs rule: take_width.induct) auto

definition take_flag :: "u8 \<Rightarrow> u8 list \<Rightarrow> bool \<times> u8 list" where
  "take_flag f cs = (case cs of c # rest \<Rightarrow> if c = f then (True, rest) else (False, cs) | [] \<Rightarrow> (False, cs))"

lemma directive_rest:
  assumes "(la, c1) = take_flag 0x2D cs" "(pz, c2) = take_flag 0x30 c1" "(w, c3) = take_width 0 c2" "c3 = d # rest"
  shows "length rest < Suc (length cs)"
proof -
  have "length c1 \<le> length cs" "length c2 \<le> length c1" using assms(1,2) by (auto simp: take_flag_def split: list.splits if_splits)
  moreover have "length c3 \<le> length c2" using take_width_length [of 0 c2] assms(3) by (metis snd_conv)
  ultimately show ?thesis using assms(4) by simp
qed

definition directive :: "u8 \<Rightarrow> bool \<Rightarrow> bool \<Rightarrow> nat \<Rightarrow> va list \<Rightarrow> vga \<Rightarrow> (va list \<times> vga) option" where
  "directive c left_align pad_zero width ap s =
     (if c = 0x73 then
        (case ap of VStr p # rest \<Rightarrow>
           let str = (case p of None \<Rightarrow> [0x28, 0x6E, 0x75, 0x6C, 0x6C, 0x29] | Some x \<Rightarrow> x);
               s1 = vga_puts str s
           in Some (rest, if left_align then vga_puts (replicate (width - length str) 0x20) s1 else s1)
         | _ \<Rightarrow> None)
      else if c = 0x64 then (case ap of VNum v # rest \<Rightarrow> map_option (Pair rest) (print_int v width left_align s) | _ \<Rightarrow> None)
      else if c = 0x75 then (case ap of VNum v # rest \<Rightarrow> map_option (Pair rest) (print_uint v 10 pad_zero width left_align s) | _ \<Rightarrow> None)
      else if c = 0x78 then (case ap of VNum v # rest \<Rightarrow> map_option (Pair rest) (print_uint v 16 pad_zero width left_align s) | _ \<Rightarrow> None)
      else if c = 0x70 then (case ap of VNum v # rest \<Rightarrow> map_option (Pair rest) (print_uint v 16 True 16 False (vga_puts [0x30, 0x78] s)) | _ \<Rightarrow> None)
      else if c = 0x63 then (case ap of VNum v # rest \<Rightarrow> Some (rest, vga_putchar (ucast v) s) | _ \<Rightarrow> None)
      else if c = 0x25 then Some (ap, vga_putchar 0x25 s)
      else Some (ap, vga_putchar c (vga_putchar 0x25 s)))"

function vga_printf :: "u8 list \<Rightarrow> va list \<Rightarrow> vga \<Rightarrow> vga option" where
  "vga_printf fmt ap s =
     (case fmt of
        [] \<Rightarrow> Some s
      | c # cs \<Rightarrow>
          if c \<noteq> 0x25 then vga_printf cs ap (vga_putchar c s)
          else
            (let (left_align, c1) = take_flag 0x2D cs; (pad_zero, c2) = take_flag 0x30 c1; (width, c3) = take_width 0 c2
             in case c3 of
                  [] \<Rightarrow> None
                | d # rest \<Rightarrow>
                    (case directive d left_align pad_zero width ap s of
                       None \<Rightarrow> None
                     | Some (ap1, s1) \<Rightarrow> vga_printf rest ap1 s1)))"
  by pat_completeness auto
termination
  apply (relation "measure (\<lambda>(fmt, ap, s). length fmt)")
    apply simp
   apply simp
  apply (use directive_rest in fastforce)
  done

declare vga_printf.simps [simp del]

section \<open>The boot screen\<close>

definition boot_logo :: "string list" where
  "boot_logo =
     [''  _   _       _     _            ___  ____  '',
      '' | | | | ___ | |__ | |__  _   _ / _ '' @ [CHR 0x5C] @ ''/ ___| '',
      '' | |_| |/ _ '' @ [CHR 0x5C] @ ''| '' @ [CHR 0x27] @ ''_ '' @ [CHR 0x5C] @ ''| '' @ [CHR 0x27] @ ''_ '' @ [CHR 0x5C] @
        ''| | | | | | '' @ [CHR 0x5C] @ ''___ '' @ [CHR 0x5C] @ '' '',
      '' |  _  | (_) | |_) | |_) | |_| | |_| |___) |'',
      '' |_| |_|'' @ [CHR 0x5C] @ ''___/|_.__/|_.__/ '' @ [CHR 0x5C] @ ''__, |'' @ [CHR 0x5C] @ ''___/|____/ '',
      ''                          |___/              '']"

definition bytes_of :: "string \<Rightarrow> u8 list" where
  "bytes_of = map (\<lambda>c. of_nat (of_char c))"

text \<open>One character of the bar, then the percentage.\<close>

definition bar_char :: "nat \<Rightarrow> nat \<Rightarrow> vga \<Rightarrow> vga" where
  "bar_char filled i s =
     (if i < filled then vga_putchar 0x3D (vga_set_color VGA_LIGHT_GREEN VGA_BLACK s)
      else if i = filled then vga_putchar 0x3E (vga_set_color VGA_WHITE VGA_BLACK s)
      else vga_putchar 0x20 (vga_set_color VGA_DARK_GREY VGA_BLACK s))"

definition boot_text_bar :: "nat \<Rightarrow> vga \<Rightarrow> vga" where
  "boot_text_bar percent s =
     (let filled = min (percent * 40 div 100) 40;
          saved_color = vga_color_attr s;
          s1 = vga_putchar 0x5B (vga_set_color VGA_DARK_GREY VGA_BLACK (s\<lparr>vga_row := 16, vga_col := 19\<rparr>));
          s2 = fold (bar_char filled) [0..<40] s1;
          s3 = vga_putchar 0x5D (vga_set_color VGA_DARK_GREY VGA_BLACK s2);
          s4 = vga_putchar 0x20 (vga_set_color VGA_WHITE VGA_BLACK s3);
          s5 = (if percent \<ge> 100 then vga_puts [0x31, 0x30, 0x30] s4
                else if percent \<ge> 10 then vga_puts [of_nat (0x30 + percent div 10), of_nat (0x30 + percent mod 10)] s4
                else vga_putchar (of_nat (0x30 + percent)) s4)
      in (vga_putchar 0x25 s5)\<lparr>vga_color_attr := saved_color\<rparr>)"

definition boot_clear_row :: "nat \<Rightarrow> vga \<Rightarrow> vga" where
  "boot_clear_row row s =
     upd_buffer (\<lambda>t. blit t (row * VGA_WIDTH) (replicate VGA_WIDTH (vga_entry 0x20 (vga_color VGA_LIGHT_GREY VGA_BLACK)))) s"

definition boot_screen_init :: "vga \<Rightarrow> vga" where
  "boot_screen_init s =
     (let s1 = vga_clear (s\<lparr>boot_screen_active := True\<rparr>);
          saved = vga_color_attr s1;
          s2 = fold (\<lambda>i u. vga_puts (bytes_of (boot_logo ! i)) (u\<lparr>vga_row := of_nat (4 + i), vga_col := 17\<rparr>)) [0..<6]
                 (vga_set_color VGA_LIGHT_CYAN VGA_BLACK s1);
          s3 = vga_puts (bytes_of ''v0.1  -  Hobby Kernel'')
                 ((vga_set_color VGA_DARK_GREY VGA_BLACK s2)\<lparr>vga_row := 11, vga_col := 28\<rparr>);
          s4 = boot_text_bar 0 s3;
          s5 = vga_puts (bytes_of ''Initializing...'')
                 ((vga_set_color VGA_LIGHT_GREY VGA_BLACK s4)\<lparr>vga_row := 18, vga_col := 25\<rparr>)
      in s5\<lparr>vga_color_attr := saved\<rparr>)"

definition put_pixel :: "u32 \<Rightarrow> u32 \<Rightarrow> vga \<Rightarrow> vga" where
  "put_pixel i v s = s\<lparr>fb := (fb s)(unat i := v)\<rparr>"

text \<open>The bar of the graphical boot screen: its outline, its inside, and the message below it.\<close>

definition bar_outline :: "u32 \<Rightarrow> u32 \<Rightarrow> vga \<Rightarrow> vga" where
  "bar_outline bar_x bar_y s =
     (let st = stride s;
          s1 = fold (\<lambda>k u. let x = bar_x - 1 + of_nat k
                           in put_pixel ((bar_y + 20) * st + x) 0x404040 (put_pixel ((bar_y - 1) * st + x) 0x404040 u)) [0..<if bar_x - 1 \<le> bar_x + 400 then 402 else 0] s
      in fold (\<lambda>k u. let y = bar_y + of_nat k
                     in put_pixel (y * st + bar_x + 400) 0x404040 (put_pixel (y * st + bar_x - 1) 0x404040 u)) [0..<20] s1)"

definition bar_inside :: "u32 \<Rightarrow> u32 \<Rightarrow> nat \<Rightarrow> vga \<Rightarrow> vga" where
  "bar_inside bar_x bar_y percent s =
     (let filled_w = min (unat ((of_nat percent * 400 :: u32) div 100)) 400
      in fold (\<lambda>k. fold (\<lambda>x u. put_pixel ((bar_y + of_nat k) * stride u + bar_x + of_nat x)
                                   (if x < filled_w then 0x00AA44 else 0x1A1A2E) u) [0..<400]) [0..<20] s)"

definition bar_message :: "u32 \<Rightarrow> u32 \<Rightarrow> u8 list \<Rightarrow> vga \<Rightarrow> vga" where
  "bar_message bar_x text_y msg s =
     (let s1 = fold (\<lambda>k u. if text_y + of_nat k < fb_con_height u
                           then fold (\<lambda>x u. put_pixel ((text_y + of_nat k) * stride u + (bar_x + of_nat x)) 0x0F0F23 u)
                                  [0..<if bar_x < bar_x + 400 then 400 else 0] u
                           else u) [0..<9] s;
          text_x = bar_x + (400 - of_nat (length msg) * 8) div 2
      in fold (\<lambda>i. fb_draw_char (text_x + of_nat i * 8) text_y (msg ! i) 0x888899 0x0F0F23) [0..<length msg] s1)"

definition boot_screen_status :: "u8 list \<Rightarrow> nat \<Rightarrow> vga \<Rightarrow> vga" where
  "boot_screen_status msg percent s =
     (if boot_fb_mode s then
        (let bar_x = fb_con_width s div 2 - 200; bar_y = fb_con_height s div 2 + 40
         in bar_message bar_x (bar_y + 20 + 12) msg (bar_inside bar_x bar_y percent (bar_outline bar_x bar_y s)))
      else
        (let s1 = boot_clear_row 18 s;
             saved = vga_color_attr s1;
             start_col = (80 - length msg) div 2;
             s2 = vga_puts msg ((vga_set_color VGA_LIGHT_GREY VGA_BLACK s1)\<lparr>vga_row := 18, vga_col := of_nat start_col\<rparr>)
         in (boot_text_bar percent s2)\<lparr>vga_color_attr := saved\<rparr>))"

text \<open>A pixel of the title, drawn as a square of three by three.\<close>

definition scaled_pixel :: "u32 \<Rightarrow> u32 \<Rightarrow> u32 \<Rightarrow> vga \<Rightarrow> vga" where
  "scaled_pixel x y color =
     fold (\<lambda>sy. fold (\<lambda>sx u. let px = x + of_nat sx; py = y + of_nat sy
                             in if px < fb_con_width u \<and> py < fb_con_height u then put_pixel (py * stride u + px) color u else u)
                  [0..<3]) [0..<3]"

definition boot_screen_fb_init :: "vga \<Rightarrow> vga" where
  "boot_screen_fb_init s =
     (let s1 = fill_pixels [0..<unat (fb_con_height s)] [0..<unat (fb_con_width s)] 0x0F0F23 (s\<lparr>boot_fb_mode := True\<rparr>);
          title = bytes_of ''HobbyOS'';
          tx = (fb_con_width s - 7 * 24) div 2;
          ty = fb_con_height s div 2 - 60;
          s2 = fold (\<lambda>i. fold (\<lambda>row. fold (\<lambda>col.
                   scaled_pixel (tx + of_nat i * 24 + of_nat col * 3) (ty + of_nat row * 3)
                     (if bit (glyph (title ! i) ! row) col then 0x55BBEE else 0x0F0F23)) [0..<8]) [0..<8]) [0..<7] s1;
          sub = bytes_of ''v0.1 - Hobby Kernel'';
          sub_x = (fb_con_width s - of_nat (length sub) * 8) div 2;
          sub_y = ty + 8 * 3 + 8
      in fold (\<lambda>i. fb_draw_char (sub_x + of_nat i * 8) sub_y (sub ! i) 0x556677 0x0F0F23) [0..<length sub] s2)"

definition boot_screen_finish :: "vga \<Rightarrow> vga" where
  "boot_screen_finish s =
     (let s1 = (if boot_fb_mode s then fill_pixels [0..<unat (fb_con_height s)] [0..<unat (fb_con_width s)] 0 s else s)
      in upd_buffer (\<lambda>t. blit t 0 (replicate (VGA_WIDTH * VGA_HEIGHT) (vga_entry 0x20 (vga_color VGA_LIGHT_GREY VGA_BLACK))))
           (s1\<lparr>boot_fb_mode := False, boot_screen_active := False, vga_row := 0, vga_col := 0\<rparr>))"

end
