(* ===== verification/VgaSpec.thy ===== *)
theory VgaSpec
  imports Vga
begin

text \<open>
  The framebuffer console shows its text buffer: whatever is printed, the cursor stays on the
  screen, the pixels of every cell are those of the character and colours in the text buffer, and
  no pixel outside the text area is touched.
\<close>

section \<open>Loops over pixels\<close>

lemma fold_put: "fold (\<lambda>x f. f(a + x := g x)) [0..<n] f = (\<lambda>i. if a \<le> i \<and> i < a + n then g (i - a) else f i)" for a :: nat
  by (induction n) (auto simp: fun_eq_iff)

lemma fold_copy:
  assumes "a + n \<le> b"
  shows "fold (\<lambda>x f. f(a + x := f (b + x))) [0..<n] f = (\<lambda>i. if a \<le> i \<and> i < a + n then f (b + (i - a)) else f i)"
  using assms by (induction n) (auto simp: fun_eq_iff)

lemma u32_less: "unat w < 2 ^ 32" for w :: u32
  using unsigned_less [of w] by simp

lemma u16_u32: "unat (ucast w :: u32) = unat w" for w :: u16
proof -
  have "unat w < 2 ^ 16" using unsigned_less [of w] by simp
  then show ?thesis by (simp add: unsigned_ucast_eq take_bit_nat_eq_self)
qed

text \<open>The screen geometry: the text area fits, and no index overflows.\<close>

definition geom_ok :: "vga \<Rightarrow> bool" where
  "geom_ok s \<longleftrightarrow> 640 \<le> unat (fb_con_width s) \<and> 225 \<le> unat (fb_con_height s) \<and> unat (fb_con_width s) \<le> unat (stride s) \<and>
     unat (stride s) * unat (fb_con_height s) < 2 ^ 32"

definition pix :: "vga \<Rightarrow> nat \<Rightarrow> nat \<Rightarrow> u32" where
  "pix s x y = fb s (y * unat (stride s) + x)"

lemma geom_index:
  assumes "geom_ok s" "y < unat (fb_con_height s)" "x < unat (stride s)"
  shows "y * unat (stride s) + x < 2 ^ 32"
proof -
  have "y * unat (stride s) + x < (y + 1) * unat (stride s)" using assms(3) by simp
  also have "\<dots> \<le> unat (fb_con_height s) * unat (stride s)" by (rule mult_le_mono1) (use assms(2) in simp)
  finally show ?thesis using assms(1) by (simp add: geom_ok_def mult.commute)
qed

lemma row_index:
  assumes "geom_ok s" "unat py + row < unat (fb_con_height s)"
  shows "unat ((py + of_nat row) * stride s) = (unat py + row) * unat (stride s)"
proof -
  have h: "unat (fb_con_height s) < 2 ^ 32" by (rule u32_less)
  have "unat (py + of_nat row) = unat py + row" using assms(2) h by (simp add: unat_word_ariths unat_of_nat)
  moreover have "(unat py + row) * unat (stride s) < 2 ^ 32"
    using geom_index [OF assms, of 0] assms(1) by (simp add: geom_ok_def)
  ultimately show ?thesis by (simp add: unat_word_ariths)
qed

lemma pixel_inj: "(y * st + x = y' * st + x') = (x = x' \<and> y = y')" if "x < st" "x' < st" for x x' y y' st :: nat
proof
  assume e: "y * st + x = y' * st + x'"
  have "y = (y * st + x) div st" "y' = (y' * st + x') div st" using that by simp_all
  then show "x = x' \<and> y = y'" using e by simp
qed simp

lemma draw_row_eq:
  assumes "unat px + 8 \<le> unat (fb_con_width s)"
  shows "draw_row s px line bits fg bg f = (\<lambda>i. if line \<le> i \<and> i < line + 8 then (if bit bits (i - line) then fg else bg) else f i)"
proof -
  have w: "unat (fb_con_width s) < 2 ^ 32" by (rule u32_less)
  have "px + of_nat col < fb_con_width s" if "col < 8" for col
    using that assms w by (simp add: word_less_nat_alt unat_word_ariths unat_of_nat)
  then have "draw_row s px line bits fg bg f = fold (\<lambda>col f. f(line + col := (if bit bits col then fg else bg))) [0..<8] f"
    unfolding draw_row_def by (intro fold_cong) auto
  then show ?thesis by (simp only: fold_put)
qed

lemma draw_rows_eq:
  assumes "geom_ok s" "unat px + 8 \<le> unat (fb_con_width s)" "unat py + row + length bs \<le> unat (fb_con_height s)"
    and "x < unat (stride s)"
  shows "draw_rows s px py bs fg bg row f (y * unat (stride s) + x) =
    (if unat px \<le> x \<and> x < unat px + 8 \<and> unat py + row \<le> y \<and> y < unat py + row + length bs
     then (if bit (bs ! (y - (unat py + row))) (x - unat px) then fg else bg) else f (y * unat (stride s) + x))"
  using assms(3)
proof (induction bs arbitrary: row f)
  case Nil
  then show ?case by auto
next
  case (Cons b bs)
  let ?st = "unat (stride s)" and ?r = "unat py + row"
  have h: "unat (fb_con_height s) < 2 ^ 32" by (rule u32_less)
  have lt: "\<not> fb_con_height s \<le> py + of_nat row"
    using Cons.prems h by (simp add: word_le_nat_alt unat_word_ariths unat_of_nat)
  let ?f = "draw_row s px (?r * ?st + unat px) b fg bg f"
  have d: "draw_rows s px py (b # bs) fg bg row f = draw_rows s px py bs fg bg (row + 1) ?f"
    using lt row_index [OF assms(1), of py row] Cons.prems by simp
  have wst: "unat px + 8 \<le> ?st" using assms(1,2) by (simp add: geom_ok_def)
  have one: "?f (y * ?st + x) = (if unat px \<le> x \<and> x < unat px + 8 \<and> y = ?r then (if bit b (x - unat px) then fg else bg) else f (y * ?st + x))"
  proof -
    have "(?r * ?st + unat px \<le> y * ?st + x \<and> y * ?st + x < ?r * ?st + unat px + 8) = (unat px \<le> x \<and> x < unat px + 8 \<and> y = ?r)"
    proof
      assume a: "?r * ?st + unat px \<le> y * ?st + x \<and> y * ?st + x < ?r * ?st + unat px + 8"
      then obtain k where k: "y * ?st + x = ?r * ?st + (unat px + k)" "k < 8"
        by (metis add.assoc le_Suc_ex nat_add_left_cancel_less)
      then have "x = unat px + k \<and> y = ?r" using pixel_inj [of x ?st "unat px + k" y ?r] assms(4) wst by simp
      then show "unat px \<le> x \<and> x < unat px + 8 \<and> y = ?r" using k(2) by simp
    qed auto
    then show ?thesis unfolding draw_row_eq [OF assms(2)] by auto
  qed
  have "unat py + (row + 1) + length bs \<le> unat (fb_con_height s)" using Cons.prems by simp
  from Cons.IH [OF this, of ?f] show ?case unfolding d one
    by (auto simp: nth_Cons' less_Suc_eq_le)
qed

lemma length_glyph: "length (glyph c) = 8"
proof -
  have "list_all (\<lambda>r. length r = 8) fb_font8x8" "length fb_font8x8 = 95" by (simp_all add: fb_font8x8_def)
  then have "length (fb_font8x8 ! i) = 8" if "i < 95" for i using that by (simp add: list_all_length)
  then show ?thesis by (auto simp: glyph_def Let_def)
qed

section \<open>What the screen shows\<close>

definition cell_pixel :: "u16 \<Rightarrow> nat \<Rightarrow> nat \<Rightarrow> u32" where
  "cell_pixel e gx gy =
     (if gy < 8
      then (let ch = ucast e :: u8; attr = ucast (drop_bit 8 e) :: u8
            in if bit (glyph ch ! gy) gx then vga_to_rgb ! unat (attr AND 0x0F) else vga_to_rgb ! unat (drop_bit 4 attr AND 0x0F))
      else 0)"

definition screen_shows :: "vga \<Rightarrow> bool" where
  "screen_shows s \<longleftrightarrow> (\<forall>x<640. \<forall>y<225. pix s x y = cell_pixel (vga_buffer s ! (y div 9 * 80 + x div 8)) (x mod 8) (y mod 9))"

definition con_ok :: "vga \<Rightarrow> bool" where
  "con_ok s \<longleftrightarrow> geom_ok s \<and> fb_console_active s \<and> vga_shadowed s \<and> length (vga_buffer s) = 2000 \<and>
     unat (vga_row s) < 25 \<and> unat (vga_col s) < 80 \<and> drop_bit 4 (vga_color_attr s) AND 0x0F = 0"

text \<open>Nothing but the text area changes.\<close>

definition only_text :: "vga \<Rightarrow> vga \<Rightarrow> bool" where
  "only_text s t \<longleftrightarrow> stride t = stride s \<and> (\<forall>i. (\<forall>x<640. \<forall>y<225. i \<noteq> y * unat (stride s) + x) \<longrightarrow> fb t i = fb s i)"

lemma only_text_refl [simp]: "only_text s s"
  by (simp add: only_text_def)

lemma only_text_trans: "only_text s t \<Longrightarrow> only_text t u \<Longrightarrow> only_text s u"
  by (simp add: only_text_def)

lemma only_textI:
  assumes "geom_ok s" "stride t = stride s" "\<And>x y. x < unat (stride s) \<Longrightarrow> 640 \<le> x \<or> 225 \<le> y \<Longrightarrow> pix t x y = pix s x y"
  shows "only_text s t"
  unfolding only_text_def
proof (intro conjI allI impI)
  fix i assume o: "\<forall>x<640. \<forall>y<225. i \<noteq> y * unat (stride s) + x"
  let ?st = "unat (stride s)"
  have st: "0 < ?st" using assms(1) by (simp add: geom_ok_def)
  have i: "i = i div ?st * ?st + i mod ?st" by simp
  then have "640 \<le> i mod ?st \<or> 225 \<le> i div ?st" using o by (metis not_le)
  from assms(3) [OF _ this] i st show "fb t i = fb s i" by (simp add: pix_def assms(2))
qed (rule assms(2))

lemma vga_black: "vga_to_rgb ! 0 = 0"
  by (simp add: vga_to_rgb_def)

lemma entry_split:
  assumes "c < 0x80"
  shows "(ucast (vga_entry c a) :: u8) = c" "(ucast (drop_bit 8 (vga_entry c a)) :: u8) = a"
proof -
  have u: "unat c < 2 ^ 7" using assms by (simp add: word_less_nat_alt)
  have hi: "\<not> bit c n" if "7 \<le> n" for n
  proof
    assume "bit c n"
    then have "bit (unat c) n" by (simp add: bit_unsigned_iff)
    moreover have "unat c < 2 ^ n" using u power_increasing [OF that, of "2 :: nat"] by simp
    ultimately show False by (simp add: bit_iff_odd)
  qed
  have top: "bit c (LENGTH(8) - Suc 0) = False" using hi [of 7] by simp
  show "(ucast (vga_entry c a) :: u8) = c"
    by (rule bit_word_eqI) (auto simp: vga_entry_def bit_simps min_def hi)
  show "(ucast (drop_bit 8 (vga_entry c a)) :: u8) = a"
    by (rule bit_word_eqI) (auto simp: vga_entry_def bit_simps hi min_def)
qed

lemma cell_entry:
  assumes "c < 0x80" "gy < 8"
  shows "cell_pixel (vga_entry c a) gx gy =
    (if bit (glyph c ! gy) gx then vga_to_rgb ! unat (a AND 0x0F) else vga_to_rgb ! unat (drop_bit 4 a AND 0x0F))"
  using assms by (simp add: cell_pixel_def entry_split Let_def)

lemma glyph_space: "glyph 0x20 ! gy = 0" if "gy < 8"
proof -
  have "glyph 0x20 = replicate 8 0" by (simp add: glyph_def fb_font8x8_def numeral_eq_Suc)
  then show ?thesis using that by simp
qed

lemma cell_blank: "drop_bit 4 a AND 0x0F = 0 \<Longrightarrow> cell_pixel (vga_entry 0x20 a) gx gy = 0"
  using cell_entry [of "0x20" gy a gx] by (cases "gy < 8") (simp_all add: glyph_space vga_black cell_pixel_def)

lemma cell_less: "x < 640 \<Longrightarrow> y < 9 * n \<Longrightarrow> y div 9 * 80 + x div 8 < n * 80" for x y n :: nat
proof -
  assume a: "x < 640" "y < 9 * n"
  have "x div 8 < 80" using a(1) by (simp add: less_mult_imp_div_less)
  moreover have "y div 9 < n" using a(2) by (simp add: less_mult_imp_div_less mult.commute)
  then have "y div 9 * 80 + 80 \<le> n * 80" by simp
  ultimately show ?thesis by linarith
qed

lemma slot_div:
  fixes x c k m :: nat
  assumes "m \<le> k" "0 < k"
  shows "(k * c \<le> x \<and> x < k * c + m) = (x div k = c \<and> x mod k < m)"
proof
  assume a: "k * c \<le> x \<and> x < k * c + m"
  then have "x div k = c" using assms by (intro div_nat_eqI) (simp_all add: mult.commute)
  moreover have "x = k * (x div k) + x mod k" by simp
  ultimately show "x div k = c \<and> x mod k < m" using a by (metis nat_add_left_cancel_less)
next
  assume "x div k = c \<and> x mod k < m"
  moreover have "x = k * (x div k) + x mod k" by simp
  ultimately show "k * c \<le> x \<and> x < k * c + m" by (metis le_add1 nat_add_left_cancel_less)
qed

lemma slot_mod: "x div k = c \<Longrightarrow> x - k * c = x mod k" for x k c :: nat
  by (metis minus_mult_div_eq_mod)

section \<open>Drawing a character\<close>

lemma draw_cell_pix:
  assumes "con_ok s" "x < unat (stride s)"
  shows "pix (draw_cell c fg bg s) x y =
    (if 8 * unat (vga_col s) \<le> x \<and> x < 8 * unat (vga_col s) + 8 \<and> 9 * unat (vga_row s) \<le> y \<and> y < 9 * unat (vga_row s) + 8
     then (if bit (glyph c ! (y - 9 * unat (vga_row s))) (x - 8 * unat (vga_col s)) then fg else bg) else pix s x y)"
proof -
  let ?px = "ucast (vga_col s) * of_nat FB_CHAR_W :: u32" and ?py = "ucast (vga_row s) * of_nat FB_CHAR_H :: u32"
  have u: "unat (ucast (vga_col s) :: u32) = unat (vga_col s)" "unat (ucast (vga_row s) :: u32) = unat (vga_row s)"
    by (simp_all add: u16_u32)
  have rc: "unat (vga_row s) < 25" "unat (vga_col s) < 80" "geom_ok s" using assms(1) by (simp_all add: con_ok_def)
  have px: "unat ?px = 8 * unat (vga_col s)" "unat ?py = 9 * unat (vga_row s)"
    using rc u by (simp_all add: FB_CHAR_W_def FB_CHAR_H_def unat_word_ariths)
  have fit: "unat ?px + 8 \<le> unat (fb_con_width s)" "unat ?py + 0 + length (glyph c) \<le> unat (fb_con_height s)"
    using rc px by (simp_all add: geom_ok_def length_glyph)
  have st: "stride (draw_cell c fg bg s) = stride s" by (simp add: draw_cell_def fb_draw_char_def stride_def)
  from draw_rows_eq [OF rc(3) fit assms(2), of fg bg "fb s" y] show ?thesis
    unfolding pix_def st by (simp add: draw_cell_def fb_draw_char_def px length_glyph)
qed

lemma draw_cell_frame [simp]:
  "vga_buffer (draw_cell c fg bg s) = vga_buffer s" "stride (draw_cell c fg bg s) = stride s"
  "geom_ok (draw_cell c fg bg s) = geom_ok s" "con_ok (draw_cell c fg bg s) = con_ok s"
  "vga_row (draw_cell c fg bg s) = vga_row s" "vga_col (draw_cell c fg bg s) = vga_col s"
  by (simp_all add: draw_cell_def fb_draw_char_def vga_buffer_def stride_def geom_ok_def con_ok_def)

text \<open>Changing a cell of the text buffer and drawing it.\<close>

lemma set_cell_shows:
  assumes "con_ok s" "screen_shows s" and t: "t = upd_buffer (\<lambda>b. b[unat (vga_row s) * VGA_WIDTH + unat (vga_col s) := e]) s"
    and e: "\<And>gx gy. gy < 8 \<Longrightarrow> gx < 8 \<Longrightarrow> (if bit (glyph c ! gy) gx then fg else bg) = cell_pixel e gx gy"
  shows "con_ok (draw_cell c fg bg t)" "screen_shows (draw_cell c fg bg t)" "only_text s (draw_cell c fg bg t)"
proof -
  let ?k = "unat (vga_row s) * 80 + unat (vga_col s)" and ?u = "draw_cell c fg bg t"
  have rc: "unat (vga_row s) < 25" "unat (vga_col s) < 80" "length (vga_buffer s) = 2000" "geom_ok s" "vga_shadowed s"
    using assms(1) by (simp_all add: con_ok_def)
  have tb: "vga_buffer t = (vga_buffer s)[?k := e]" "stride t = stride s" "fb t = fb s" "vga_row t = vga_row s" "vga_col t = vga_col s"
    using rc by (simp_all add: t upd_buffer_def vga_buffer_def stride_def VGA_WIDTH_def)
  have ct: "con_ok t" using assms(1) rc(5) by (simp add: con_ok_def t upd_buffer_def vga_buffer_def geom_ok_def stride_def)
  then show "con_ok ?u" by simp
  have w: "640 \<le> unat (stride s)" using rc(4) by (simp add: geom_ok_def)
  have p: "pix t x y = pix s x y" for x y by (simp add: pix_def tb)
  have D: "pix ?u x y = (if x div 8 = unat (vga_col s) \<and> y div 9 = unat (vga_row s) \<and> y mod 9 < 8
      then (if bit (glyph c ! (y mod 9)) (x mod 8) then fg else bg) else pix s x y)" if "x < unat (stride s)" for x y
  proof -
    have "(8 * unat (vga_col s) \<le> x \<and> x < 8 * unat (vga_col s) + 8) = (x div 8 = unat (vga_col s))" using slot_div [of 8 8 "unat (vga_col s)" x] by simp
    moreover have "(9 * unat (vga_row s) \<le> y \<and> y < 9 * unat (vga_row s) + 8) = (y div 9 = unat (vga_row s) \<and> y mod 9 < 8)" by (rule slot_div) simp_all
    moreover note slot_mod [of x 8 "unat (vga_col s)"] slot_mod [of y 9 "unat (vga_row s)"]
    ultimately show ?thesis using draw_cell_pix [OF ct, of x c fg bg y] that by (auto simp: tb p)
  qed
  show "only_text s ?u"
  proof (rule only_textI [OF rc(4)])
    show "pix ?u x y = pix s x y" if "x < unat (stride s)" "640 \<le> x \<or> 225 \<le> y" for x y
    proof -
      have "\<not> (x div 8 = unat (vga_col s) \<and> y div 9 = unat (vga_row s))" using that(2) rc(1,2) div_le_mono [of 640 x 8] div_le_mono [of 225 y 9] by auto
      then show ?thesis using D [OF that(1)] by auto
    qed
  qed (simp add: tb)
  show "screen_shows ?u" unfolding screen_shows_def
  proof (intro allI impI)
    fix x y :: nat assume xy: "x < 640" "y < 225"
    have j: "(y div 9 * 80 + x div 8 = ?k) = (y div 9 = unat (vga_row s) \<and> x div 8 = unat (vga_col s))"
      using pixel_inj [of "x div 8" 80 "unat (vga_col s)" "y div 9" "unat (vga_row s)"] xy rc(2) by auto
    have kl: "y div 9 * 80 + x div 8 < 2000" using cell_less [of x y 25] xy by simp
    have sh: "pix s x y = cell_pixel (vga_buffer s ! (y div 9 * 80 + x div 8)) (x mod 8) (y mod 9)" using assms(2) xy by (simp add: screen_shows_def)
    have g: "cell_pixel a gx gy = 0" if "\<not> gy < 8" for a gx gy using that by (simp add: cell_pixel_def)
    show "pix ?u x y = cell_pixel (vga_buffer ?u ! (y div 9 * 80 + x div 8)) (x mod 8) (y mod 9)"
    proof (cases "y div 9 * 80 + x div 8 = ?k")
      case True
      then have b: "vga_buffer ?u ! (y div 9 * 80 + x div 8) = e" using kl rc(3) by (simp add: tb)
      show ?thesis unfolding b D [OF less_le_trans [OF xy(1) w]] using True j e [of "y mod 9" "x mod 8"] sh
        by (cases "y mod 9 < 8") (simp_all add: g)
    next
      case False
      then have "vga_buffer ?u ! (y div 9 * 80 + x div 8) = vga_buffer s ! (y div 9 * 80 + x div 8)" by (simp add: tb)
      then show ?thesis using D [OF less_le_trans [OF xy(1) w], of y] False j sh by auto
    qed
  qed
qed

section \<open>Scrolling and clearing\<close>

lemma row_start: "geom_ok s \<Longrightarrow> y < 225 \<Longrightarrow> unat (of_nat y * stride s) = y * unat (stride s)"
  using row_index [of s 0 y] by (simp add: geom_ok_def)

lemma copy_row_eq:
  assumes "geom_ok s" "n + 9 < 225"
  shows "copy_row (stride s) n (n + 9) 640 f = (\<lambda>j. if n * unat (stride s) \<le> j \<and> j < n * unat (stride s) + 640
    then f ((n + 9) * unat (stride s) + (j - n * unat (stride s))) else f j)"
proof -
  let ?st = "unat (stride s)"
  have w: "640 \<le> ?st" using assms(1) by (simp add: geom_ok_def)
  have i: "unat (of_nat n * stride s) = n * ?st" "unat (of_nat (n + 9) * stride s) = (n + 9) * ?st"
    by (rule row_start [OF assms(1)], use assms(2) in simp)+
  have "n * ?st + 640 \<le> (n + 9) * ?st" using w by (simp add: add_mult_distrib)
  then show ?thesis unfolding copy_row_def i by (rule fold_copy)
qed

lemma row_member:
  fixes x y n st :: nat
  assumes "x < st" "640 \<le> st"
  shows "(n * st \<le> y * st + x \<and> y * st + x < n * st + 640) = (x < 640 \<and> y = n)"
proof
  assume a: "n * st \<le> y * st + x \<and> y * st + x < n * st + 640"
  then obtain k where k: "y * st + x = n * st + k" "k < 640" by (metis le_Suc_ex nat_add_left_cancel_less)
  then show "x < 640 \<and> y = n" using pixel_inj [of x st k y n] assms by simp
qed auto

lemma copy_rows:
  assumes "geom_ok s" "n \<le> 216" "x < unat (stride s)"
  shows "fold (\<lambda>y. copy_row (stride s) y (y + 9) 640) [0..<n] f (y * unat (stride s) + x) =
    (if x < 640 \<and> y < n then f ((y + 9) * unat (stride s) + x) else f (y * unat (stride s) + x))"
  using assms(2)
proof (induction n arbitrary: y)
  case 0
  then show ?case by simp
next
  case (Suc n)
  let ?st = "unat (stride s)"
  let ?f = "fold (\<lambda>y. copy_row (stride s) y (y + 9) 640) [0..<n] f"
  have w: "640 \<le> ?st" using assms(1) by (simp add: geom_ok_def)
  note c = copy_row_eq [OF assms(1), of n ?f] and m = row_member [OF assms(3) w, of n y]
  have "?f ((n + 9) * ?st + x) = f ((n + 9) * ?st + x)" using Suc.IH [of "n + 9"] Suc.prems by simp
  then show ?case using Suc.IH [of y] Suc.prems m c by auto
qed

lemma clear_rows:
  assumes "geom_ok s" "a \<le> n" "n \<le> 225" "x < unat (stride s)"
  shows "fold (\<lambda>y. clear_row (stride s) y 640) [a..<n] f (y * unat (stride s) + x) =
    (if x < 640 \<and> a \<le> y \<and> y < n then 0 else f (y * unat (stride s) + x))"
  using assms(2,3)
proof (induction n arbitrary: y rule: dec_induct)
  case base
  then show ?case by auto
next
  case (step n)
  let ?st = "unat (stride s)"
  have w: "640 \<le> ?st" using assms(1) by (simp add: geom_ok_def)
  have i: "unat (of_nat n * stride s) = n * ?st" using row_start [OF assms(1), of n] step by simp
  note m = row_member [OF assms(4) w, of n y]
  show ?case using step m by (auto simp: clear_row_def i fold_put)
qed

lemma scroll_pix:
  assumes "geom_ok s" "x < unat (stride s)"
  shows "pix (scroll_pixels s) x y = (if x < 640 \<and> y < 216 then pix s x (y + 9) else if x < 640 \<and> y < 225 then 0 else pix s x y)"
proof -
  have "stride (scroll_pixels s) = stride s" by (simp add: scroll_pixels_def Let_def stride_def)
  then show ?thesis
    using clear_rows [OF assms(1) _ _ assms(2), of 216 225] copy_rows [OF assms(1) _ assms(2), of 216]
    by (simp add: pix_def scroll_pixels_def Let_def VGA_WIDTH_def VGA_HEIGHT_def FB_CHAR_W_def FB_CHAR_H_def)
qed

lemma scroll_shows:
  assumes "geom_ok s" "fb_console_active s" "vga_shadowed s" "length (vga_buffer s) = 2000" "drop_bit 4 (vga_color_attr s) AND 0x0F = 0"
    "unat (vga_row s) \<le> 25" "unat (vga_col s) < 80" "screen_shows s"
  shows "con_ok (vga_scroll s)" "screen_shows (vga_scroll s)" "only_text s (vga_scroll s)"
proof -
  let ?bl = "vga_entry 0x20 (vga_color_attr s)"
  have triv: "vga_scroll s = s \<and> con_ok s" if "unat (vga_row s) < 25"
    using that assms by (simp add: vga_scroll_def VGA_HEIGHT_def con_ok_def)
  define b where "b = blit (blit (vga_buffer s) 0 (take 1920 (drop 80 (vga_buffer s)))) 1920 (replicate 80 ?bl)"
  define s1 where "s1 = s\<lparr>fb_shadow_buffer := b\<rparr>"
  have bl: "length b = 2000" using assms(4) by (simp add: b_def)
  have bn: "b ! k = (if k < 1920 then vga_buffer s ! (k + 80) else ?bl)" if "k < 2000" for k
    using that assms(4) by (simp add: b_def nth_blit nth_append add.commute)
  have V: "vga_scroll s = (scroll_pixels s1)\<lparr>vga_row := 24\<rparr>" if "\<not> unat (vga_row s) < 25"
    using that assms(2,3) by (simp add: vga_scroll_def VGA_HEIGHT_def VGA_WIDTH_def Let_def upd_buffer_def s1_def b_def vga_buffer_def)
  have g1: "geom_ok s1" "stride s1 = stride s" using assms(1) by (simp_all add: s1_def geom_ok_def stride_def)
  let ?t = "(scroll_pixels s1)\<lparr>vga_row := 24\<rparr>"
  have t: "vga_buffer ?t = b" "stride ?t = stride s" "fb ?t = fb (scroll_pixels s1)"
    using assms(3) by (simp_all add: scroll_pixels_def Let_def s1_def vga_buffer_def stride_def)
  have P: "pix ?t x y = (if x < 640 \<and> y < 216 then pix s x (y + 9) else if x < 640 \<and> y < 225 then 0 else pix s x y)"
    if "x < unat (stride s)" for x y
  proof -
    have "pix ?t x y = pix (scroll_pixels s1) x y" by (simp add: pix_def stride_def)
    also have "\<dots> = (if x < 640 \<and> y < 216 then pix s1 x (y + 9) else if x < 640 \<and> y < 225 then 0 else pix s1 x y)"
      by (rule scroll_pix [OF g1(1)]) (use that g1(2) in simp)
    finally show ?thesis by (simp add: pix_def s1_def stride_def)
  qed
  have cok: "con_ok ?t" using assms bl by (simp add: con_ok_def geom_ok_def t stride_def s1_def scroll_pixels_def Let_def)
    (simp add: vga_buffer_def)
  have oo: "only_text s ?t"
    by (rule only_textI [OF assms(1) t(2)]) (use P in auto)
  have w: "640 \<le> unat (stride s)" using assms(1) by (simp add: geom_ok_def)
  have sh: "screen_shows ?t" unfolding screen_shows_def t(1)
  proof (intro allI impI)
    fix x y :: nat assume xy: "x < 640" "y < 225"
    have k: "y div 9 * 80 + x div 8 < 2000" using cell_less [of x y 25] xy by simp
    show "pix ?t x y = cell_pixel (b ! (y div 9 * 80 + x div 8)) (x mod 8) (y mod 9)"
    proof (cases "y < 216")
      case True
      have k2: "y div 9 * 80 + x div 8 < 1920" using cell_less [of x y 24] xy True by simp
      have "(y + 9) div 9 * 80 + x div 8 = y div 9 * 80 + x div 8 + 80" "(y + 9) mod 9 = y mod 9"
        using div_add_self2 [of 9 y] by simp_all
      then have "pix s x (y + 9) = cell_pixel (vga_buffer s ! (y div 9 * 80 + x div 8 + 80)) (x mod 8) (y mod 9)"
        using assms(8) [unfolded screen_shows_def, rule_format, of x "y + 9"] xy True by (simp add: ac_simps)
      then show ?thesis using P [OF less_le_trans [OF xy(1) w]] xy True k2 bn [OF k] by simp
    next
      case False
      then have "24 \<le> y div 9" using div_le_mono [of 216 y 9] by simp
      then have "\<not> y div 9 * 80 + x div 8 < 1920" by simp
      then show ?thesis using P [OF less_le_trans [OF xy(1) w]] xy False bn [OF k] cell_blank [OF assms(5)] by simp
    qed
  qed
  show "con_ok (vga_scroll s)" "screen_shows (vga_scroll s)" "only_text s (vga_scroll s)"
    using triv V cok oo sh assms(8) by (cases "unat (vga_row s) < 25"; simp)+
qed

lemma fill_pix:
  assumes "geom_ok s" "n \<le> 225" "x < unat (stride s)"
  shows "pix (fill_pixels [0..<n] [0..<640] v s) x y = (if x < 640 \<and> y < n then v else pix s x y)"
proof -
  let ?st = "unat (stride s)"
  define row where "row y = fold (\<lambda>x f. f(unat (of_nat y * stride s + of_nat x) := v)) [0..<640]" for y
  have w: "640 \<le> ?st" "225 \<le> unat (fb_con_height s)" using assms(1) by (simp_all add: geom_ok_def)
  have r: "row y f = (\<lambda>j. if y * ?st \<le> j \<and> j < y * ?st + 640 then v else f j)" if "y < 225" for y f
  proof -
    have "unat (of_nat y * stride s + of_nat x) = y * ?st + x" if x: "x < 640" for x
      using geom_index [OF assms(1), of y x] \<open>y < 225\<close> x w row_start [OF assms(1) \<open>y < 225\<close>]
      by (simp add: unat_word_ariths(1) unat_of_nat)
    then have "row y f = fold (\<lambda>x f. f(y * ?st + x := v)) [0..<640] f" unfolding row_def by (intro fold_cong) auto
    then show ?thesis by (simp only: fold_put)
  qed
  have "fold row [0..<n] (fb s) (y * ?st + x) = (if x < 640 \<and> y < n then v else fb s (y * ?st + x))"
    using assms(2)
  proof (induction n)
    case 0
    then show ?case by auto
  next
    case (Suc n)
    then show ?case using row_member [OF assms(3) w(1), of n y] r [of n] by auto
  qed
  moreover have "fb (fill_pixels [0..<n] [0..<640] v s) = fold row [0..<n] (fb s)" unfolding row_def [abs_def] by (simp add: fill_pixels_def)
  moreover have "stride (fill_pixels [0..<n] [0..<640] v s) = stride s" by (simp add: fill_pixels_def stride_def)
  ultimately show ?thesis by (simp add: pix_def)
qed

lemma clear_shows:
  assumes "geom_ok s" "fb_console_active s" "vga_shadowed s" "length (vga_buffer s) = 2000" "drop_bit 4 (vga_color_attr s) AND 0x0F = 0"
  shows "con_ok (vga_clear s)" "screen_shows (vga_clear s)" "only_text s (vga_clear s)"
proof -
  let ?bl = "vga_entry 0x20 (vga_color_attr s)"
  define s1 where "s1 = s\<lparr>fb_shadow_buffer := replicate 2000 ?bl, vga_row := 0, vga_col := 0\<rparr>"
  have "min 225 (unat (fb_con_height s)) = 225" "min 640 (unat (fb_con_width s)) = 640" using assms(1) by (simp_all add: geom_ok_def)
  then have V: "vga_clear s = fill_pixels [0..<225] [0..<640] 0 s1"
    using assms(2-4) by (simp add: vga_clear_def Let_def upd_buffer_def s1_def VGA_WIDTH_def VGA_HEIGHT_def FB_CHAR_W_def FB_CHAR_H_def
        blit_def vga_buffer_def)
  have g: "geom_ok s1" "stride s1 = stride s" using assms(1) by (simp_all add: s1_def geom_ok_def stride_def)
  have P: "pix (vga_clear s) x y = (if x < 640 \<and> y < 225 then 0 else pix s x y)" if "x < unat (stride s)" for x y
    using fill_pix [OF g(1), of 225 x 0 y] that by (simp add: V g) (simp add: pix_def s1_def stride_def)
  have B: "vga_buffer (vga_clear s) = replicate 2000 ?bl" "stride (vga_clear s) = stride s"
    using assms(3) by (simp_all add: V fill_pixels_def s1_def vga_buffer_def stride_def)
  have w: "640 \<le> unat (stride s)" using assms(1) by (simp add: geom_ok_def)
  show "con_ok (vga_clear s)" using assms B by (simp add: con_ok_def geom_ok_def) (simp add: V fill_pixels_def s1_def)
  show "only_text s (vga_clear s)" by (rule only_textI [OF assms(1) B(2)]) (use P in auto)
  show "screen_shows (vga_clear s)" unfolding screen_shows_def B(1)
  proof (intro allI impI)
    fix x y :: nat assume xy: "x < 640" "y < 225"
    have "y div 9 * 80 + x div 8 < 2000" using cell_less [of x y 25] xy by simp
    then show "pix (vga_clear s) x y = cell_pixel (replicate 2000 ?bl ! (y div 9 * 80 + x div 8)) (x mod 8) (y mod 9)"
      using P [OF less_le_trans [OF xy(1) w]] xy cell_blank [OF assms(5)] by simp
  qed
qed

section \<open>Printing\<close>

definition con_inv :: "vga \<Rightarrow> vga \<Rightarrow> bool" where
  "con_inv s0 s \<longleftrightarrow> con_ok s \<and> screen_shows s \<and> only_text s0 s"

lemma con_inv_trans: "con_inv s0 s \<Longrightarrow> con_ok t \<Longrightarrow> screen_shows t \<Longrightarrow> only_text s t \<Longrightarrow> con_inv s0 t"
  using only_text_trans by (auto simp: con_inv_def)

text \<open>A change that leaves buffer, pixels and geometry alone.\<close>

lemma shows_cong:
  "vga_buffer t = vga_buffer s \<Longrightarrow> stride t = stride s \<Longrightarrow> fb t = fb s \<Longrightarrow> screen_shows t = screen_shows s \<and> only_text s t"
  by (simp add: screen_shows_def only_text_def pix_def)

lemma scroll_inv:
  assumes "con_inv s0 s" and t: "t = s\<lparr>vga_col := c, vga_row := r\<rparr>" "unat r \<le> 25" "unat c < 80"
  shows "con_inv s0 (vga_scroll t)"
proof -
  have I: "con_ok s" "screen_shows s" using assms(1) by (simp_all add: con_inv_def)
  have c: "screen_shows t \<and> only_text s t" using shows_cong [of t s] I(2) by (simp add: t vga_buffer_def stride_def)
  have vb: "vga_buffer t = vga_buffer s" by (simp add: t(1) vga_buffer_def)
  have g: "geom_ok t" "fb_console_active t" "vga_shadowed t" "length (vga_buffer t) = 2000" "drop_bit 4 (vga_color_attr t) AND 0x0F = 0"
    using I(1) vb by (simp_all add: con_ok_def t(1) geom_ok_def stride_def)
  have rc: "unat (vga_row t) \<le> 25" "unat (vga_col t) < 80" using t by simp_all
  note S = scroll_shows [OF g rc conjunct1 [OF c]]
  show ?thesis by (rule con_inv_trans [OF assms(1) S(1,2)]) (rule only_text_trans [OF conjunct2 [OF c] S(3)])
qed

lemma put_cell_inv:
  assumes "con_inv s0 s" "c < 0x80" "fg = fg_of s \<or> c = 0x20"
  shows "con_inv s0 (draw_cell c fg (bg_of s) (put_cell c s))"
proof -
  have I: "con_ok s" "screen_shows s" using assms(1) by (simp_all add: con_inv_def)
  have e: "(if bit (glyph c ! gy) gx then fg else bg_of s) = cell_pixel (vga_entry c (vga_color_attr s)) gx gy" if "gy < 8" for gx gy
    using assms(3) that by (auto simp: cell_entry [OF assms(2)] fg_of_def bg_of_def glyph_space)
  note S = set_cell_shows [OF I put_cell_def, OF e]
  show ?thesis by (rule con_inv_trans [OF assms(1) S]) simp_all
qed

lemma u16_small:
  fixes w :: u16
  assumes "unat w < 2 ^ 15"
  shows "unat (w + 1) = unat w + 1"
  using assms by (simp add: unat_word_ariths)

lemma tab_stop: "unat w < 80 \<Longrightarrow> unat ((w + 8) AND NOT 7) \<le> 80" for w :: u16
proof -
  assume w: "unat w < 80"
  have "(7 :: u16) = mask 3" by (simp add: mask_eq_exp_minus_1)
  then have "unat ((w + 8) AND NOT 7) = unat (w + 8) div 8 * 8" using unat_and_not_mask [of "w + 8" 3] by simp
  also have "unat (w + 8) = unat w + 8" using w by (simp add: unat_word_ariths)
  also have "(unat w + 8) div 8 * 8 \<le> 80"
  proof -
    have "(unat w + 8) div 8 \<le> 87 div 8" by (rule div_le_mono) (use w in simp)
    then show ?thesis by simp
  qed
  finally show ?thesis .
qed

lemma wrap_line_eq:
  assumes "unat (vga_row s) < 25" "unat (vga_col s) \<le> 80"
  obtains r c where "wrap_line s = s\<lparr>vga_col := c, vga_row := r\<rparr>" "unat r \<le> 25" "unat c < 80"
proof (cases "unat (vga_col s) \<ge> 80")
  case True
  moreover have "unat (vga_row s + 1) \<le> 25" using u16_small [of "vga_row s"] assms(1) by simp
  ultimately show ?thesis by (intro that [where r = "vga_row s + 1" and c = 0]) (simp_all add: wrap_line_def VGA_WIDTH_def)
next
  case False
  then show ?thesis by (intro that [where r = "vga_row s" and c = "vga_col s"]) (use assms in \<open>simp_all add: wrap_line_def VGA_WIDTH_def\<close>)
qed

lemma backspace_inv:
  assumes "con_inv s0 s"
  shows "con_inv s0 (vga_backspace s)"
proof -
  have I: "con_ok s" "screen_shows s" "only_text s0 s" using assms by (simp_all add: con_inv_def)
  define t where "t = (if vga_col s > 0 then s\<lparr>vga_col := vga_col s - 1\<rparr>
    else if vga_row s > 0 then s\<lparr>vga_row := vga_row s - 1, vga_col := of_nat (VGA_WIDTH - 1)\<rparr> else s)"
  have d: "unat (w - 1) \<le> unat w" if "w > 0" for w :: u16 using that by (simp add: unat_minus_one word_gt_0)
  have rc: "unat (vga_row t) < 25" "unat (vga_col t) < 80"
    using I(1) d [of "vga_col s"] d [of "vga_row s"] by (auto simp: t_def con_ok_def VGA_WIDTH_def split: if_splits)
  have e: "vga_buffer t = vga_buffer s" "stride t = stride s" "fb t = fb s" "geom_ok t = geom_ok s" "fb_console_active t = fb_console_active s"
    "vga_shadowed t = vga_shadowed s" "vga_color_attr t = vga_color_attr s"
    by (simp_all add: t_def vga_buffer_def stride_def geom_ok_def)
  have "con_inv s0 t"
    by (rule con_inv_trans [OF assms]) (use I rc e shows_cong [OF e(1-3)] in \<open>simp_all add: con_ok_def\<close>)
  then have "con_inv s0 (draw_cell 0x20 (bg_of t) (bg_of t) (put_cell 0x20 t))" by (rule put_cell_inv) simp_all
  moreover have "bg_of (put_cell 0x20 t) = bg_of t" "fb_console_active (put_cell 0x20 t)"
    using I(1) e(5) by (simp_all add: put_cell_def upd_buffer_def bg_of_def con_ok_def)
  ultimately show ?thesis by (simp add: vga_backspace_def t_def [symmetric] Let_def)
qed

lemma screen_putchar_inv:
  assumes "con_inv s0 s" "c < 0x80"
  shows "con_inv s0 (screen_putchar c s)"
proof -
  have I: "con_ok s" "unat (vga_row s) < 25" "unat (vga_col s) < 80" using assms by (simp_all add: con_inv_def con_ok_def)
  have act: "fb_console_active u" if "con_inv s0 u" for u using that by (simp add: con_inv_def con_ok_def)
  have r1: "unat (vga_row s + 1) \<le> 25" using u16_small [of "vga_row s"] I(2) by simp
  consider "c = 8" | "c = 0x0A" | "c = 0x0D" | "c = 9" | "c \<notin> {8, 0x0A, 0x0D, 9}" by blast
  then show ?thesis
  proof cases
    case 1
    then show ?thesis using backspace_inv [OF assms(1)] by (simp add: screen_putchar_def)
  next
    case 2
    have "con_inv s0 (vga_scroll (s\<lparr>vga_col := 0, vga_row := vga_row s + 1\<rparr>))" by (rule scroll_inv [OF assms(1) refl r1]) simp
    with act [OF this] 2 show ?thesis by (simp add: screen_putchar_def)
  next
    case 3
    have "con_inv s0 (vga_scroll (s\<lparr>vga_col := 0\<rparr>))" by (rule scroll_inv [OF assms(1), where r = "vga_row s" and c = 0]) (use I in simp_all)
    with act [OF this] 3 show ?thesis by (simp add: screen_putchar_def)
  next
    case 4
    let ?s = "s\<lparr>vga_col := (vga_col s + 8) AND NOT 7\<rparr>"
    obtain r k where w: "wrap_line ?s = ?s\<lparr>vga_col := k, vga_row := r\<rparr>" "unat r \<le> 25" "unat k < 80"
      by (rule wrap_line_eq [of ?s]) (use I tab_stop [OF I(3)] in simp_all)
    have "con_inv s0 (vga_scroll (wrap_line ?s))" by (rule scroll_inv [OF assms(1) _ w(2,3)]) (unfold w(1), simp)
    with act [OF this] 4 show ?thesis by (simp add: screen_putchar_def)
  next
    case 5
    define u where "u = draw_cell c (fg_of s) (bg_of s) (put_cell c s)"
    have U: "con_inv s0 u" unfolding u_def by (rule put_cell_inv [OF assms]) simp
    have pc: "fg_of (put_cell c s) = fg_of s" "bg_of (put_cell c s) = bg_of s" "fb_console_active (put_cell c s)"
      using I(1) by (simp_all add: put_cell_def upd_buffer_def fg_of_def bg_of_def con_ok_def)
    have ur: "unat (vga_row u) < 25" "unat (vga_col u) < 80" using U by (simp_all add: con_inv_def con_ok_def)
    let ?u = "u\<lparr>vga_col := vga_col u + 1\<rparr>"
    obtain r k where w: "wrap_line ?u = ?u\<lparr>vga_col := k, vga_row := r\<rparr>" "unat r \<le> 25" "unat k < 80"
      by (rule wrap_line_eq [of ?u]) (use ur u16_small [of "vga_col u"] in simp_all)
    have "con_inv s0 (vga_scroll (wrap_line ?u))" by (rule scroll_inv [OF U _ w(2,3)]) (simp add: w(1))
    with act [OF this] 5 show ?thesis by (simp add: screen_putchar_def pc u_def Let_def)
  qed
qed

lemma putchar_inv:
  assumes "con_inv s0 s" "c < 0x80"
  shows "con_inv s0 (vga_putchar c s)"
proof -
  have d: "con_inv s0 (debug_putchar k u)" if "con_inv s0 u" for k u
    by (rule con_inv_trans [OF that])
      (use that shows_cong [of "debug_putchar k u" u] in \<open>auto simp: con_inv_def con_ok_def debug_putchar_def vga_buffer_def stride_def geom_ok_def\<close>)
  then show ?thesis using assms by (auto simp: vga_putchar_def Let_def intro!: screen_putchar_inv)
qed

lemma puts_inv: "con_inv s0 s \<Longrightarrow> \<forall>c\<in>set cs. c < 0x80 \<Longrightarrow> con_inv s0 (vga_puts cs s)"
  unfolding vga_puts_def by (induction cs arbitrary: s) (auto simp: putchar_inv)

text \<open>What a client of the console does; the background stays black.\<close>

datatype con_op = Print "u8 list" | Color u8 | Clear

fun con_step :: "con_op \<Rightarrow> vga \<Rightarrow> vga" where
  "con_step (Print cs) s = vga_puts cs s"
| "con_step (Color fg) s = vga_set_color fg VGA_BLACK s"
| "con_step Clear s = vga_clear s"

fun ascii_op :: "con_op \<Rightarrow> bool" where
  "ascii_op (Print cs) = (\<forall>c\<in>set cs. c < 0x80)"
| "ascii_op (Color fg) = (fg < 0x10)"
| "ascii_op Clear = True"

lemma con_step_inv:
  assumes "con_inv s0 s" "ascii_op p"
  shows "con_inv s0 (con_step p s)"
proof (cases p)
  case (Print cs)
  then show ?thesis using assms puts_inv by simp
next
  case (Color fg)
  have "drop_bit 4 fg = 0" using assms(2) Color by (simp add: drop_bit_eq_div word_less_nat_alt word_arith_nat_div)
  then have z: "drop_bit 4 (vga_color fg VGA_BLACK) AND 0x0F = 0" by (simp add: vga_color_def VGA_BLACK_def)
  let ?t = "vga_set_color fg VGA_BLACK s"
  show ?thesis unfolding Color con_step.simps
    by (rule con_inv_trans [OF assms(1)])
      (use assms(1) z shows_cong [of ?t s] in \<open>auto simp: con_inv_def con_ok_def vga_set_color_def vga_buffer_def stride_def geom_ok_def\<close>)
next
  case Clear
  have I: "con_ok s" using assms by (simp add: con_inv_def)
  show ?thesis unfolding Clear con_step.simps
    by (rule con_inv_trans [OF assms(1)]; rule clear_shows) (use I in \<open>simp_all add: con_ok_def\<close>)
qed

lemma con_run_inv: "con_inv s0 s \<Longrightarrow> \<forall>op\<in>set ops. ascii_op op \<Longrightarrow> con_inv s0 (fold con_step ops s)"
  by (induction ops arbitrary: s) (auto simp: con_step_inv)


definition dark_vga :: vga where
  "dark_vga = \<lparr>hw_buffer = replicate 2000 0, fb_shadow_buffer = replicate 2000 0, vga_shadowed = False, vga_row = 0, vga_col = 0,
     vga_color_attr = 7, fb_console_active = False, boot_screen_active = False, boot_fb_mode = False, fb_con_width = 0,
     fb_con_height = 0, fb_con_pitch = 0, fb_con_cols = 0, fb_con_rows = 0, fb = (\<lambda>_. 0x123456), debug_serial_ready = True,
     serial = [], hw_cursor = 0\<rparr>"


end
