(* ===== verification/Elf.thy ===== *)
theory Elf
  imports Mmap
begin

text \<open>
  The program loader, part one (\<^verbatim>\<open>kernel/elf/elf.h\<close>, \<^verbatim>\<open>kernel/elf/elf_loader.c\<close>): the headers
  of an ELF file, their validation, the loading of segments (by demand paging through regions of type
  \<^verbatim>\<open>VMA_ELF\<close>, or eagerly page by page) and the initial user stack. The file image is the function
  from offsets (relative to the \<^verbatim>\<open>data\<close> pointer, modulo \<open>2 ^ 64\<close>) to bytes: offsets past \<^verbatim>\<open>size\<close>
  stand for whatever lies behind the buffer in memory.
\<close>

section \<open>Headers\<close>

type_synonym image = "nat \<Rightarrow> u8"

record elf64_ehdr =
  e_ident :: "u8 list"
  e_type :: u16
  e_machine :: u16
  e_version :: u32
  e_entry :: u64
  e_phoff :: u64
  e_shoff :: u64
  e_flags :: u32
  e_ehsize :: u16
  e_phentsize :: u16
  e_phnum :: u16
  e_shentsize :: u16
  e_shnum :: u16
  e_shstrndx :: u16

record elf64_phdr =
  ph_type :: u32
  ph_flags :: u32
  ph_offset :: u64
  ph_vaddr :: u64
  ph_paddr :: u64
  ph_filesz :: u64
  ph_memsz :: u64
  ph_align :: u64

definition ehdr_of :: "image \<Rightarrow> elf64_ehdr" where
  "ehdr_of d = \<lparr>e_ident = map d [0..<16], e_type = le16 d 16, e_machine = le16 d 18, e_version = le32 d 20,
     e_entry = le64 d 24, e_phoff = le64 d 32, e_shoff = le64 d 40, e_flags = le32 d 48, e_ehsize = le16 d 52,
     e_phentsize = le16 d 54, e_phnum = le16 d 56, e_shentsize = le16 d 58, e_shnum = le16 d 60, e_shstrndx = le16 d 62\<rparr>"

definition phdr_of :: "image \<Rightarrow> nat \<Rightarrow> elf64_phdr" where
  "phdr_of d i =
     (let a = unat (e_phoff (ehdr_of d) + of_nat (i * unat (e_phentsize (ehdr_of d)))) in
      \<lparr>ph_type = le32 d a, ph_flags = le32 d (a + 4), ph_offset = le64 d (a + 8), ph_vaddr = le64 d (a + 16),
       ph_paddr = le64 d (a + 24), ph_filesz = le64 d (a + 32), ph_memsz = le64 d (a + 40), ph_align = le64 d (a + 48)\<rparr>)"

text \<open>\<^verbatim>\<open>sizeof(Elf64_Ehdr)\<close> is 64; \<open>None\<close> is the null pointer.\<close>

definition elf_validate :: "image option \<Rightarrow> u64 \<Rightarrow> int" where
  "elf_validate data sz =
     (case data of
        None \<Rightarrow> -1
      | Some d \<Rightarrow>
          (if sz < 64 then -1
           else
             (let h = ehdr_of d in
              if e_ident h ! 0 \<noteq> 0x7F \<or> e_ident h ! 1 \<noteq> 0x45 \<or> e_ident h ! 2 \<noteq> 0x4C \<or> e_ident h ! 3 \<noteq> 0x46 then -1
              else if e_ident h ! 4 \<noteq> 2 then -1
              else if e_ident h ! 5 \<noteq> 1 then -1
              else if e_ident h ! 6 \<noteq> 1 then -1
              else if e_type h \<noteq> 2 \<and> e_type h \<noteq> 3 then -1
              else if e_machine h \<noteq> 62 then -1
              else if e_phnum h = 0 then -1
              else if e_phoff h + ucast (e_phnum h) * ucast (e_phentsize h) > sz then -1
              else 0)))"

section \<open>Segments\<close>

text \<open>The first page and the end of the last page of a segment.\<close>

definition seg_vaddr :: "u64 \<Rightarrow> elf64_phdr \<Rightarrow> u64" where
  "seg_vaddr base ph = ph_vaddr ph + base"

definition seg_start :: "u64 \<Rightarrow> elf64_phdr \<Rightarrow> u64" where
  "seg_start base ph = seg_vaddr base ph AND NOT 4095"

definition seg_end :: "u64 \<Rightarrow> elf64_phdr \<Rightarrow> u64" where
  "seg_end base ph = (seg_vaddr base ph + ph_memsz ph + 4095) AND NOT 4095"

definition seg_pte_flags :: "elf64_phdr \<Rightarrow> u64" where
  "seg_pte_flags ph =
     (let w = (if ph_flags ph AND 2 \<noteq> 0 then PTE_PRESENT OR PTE_USER OR PTE_WRITABLE else PTE_PRESENT OR PTE_USER)
      in if ph_flags ph AND 1 = 0 then w OR push_bit 63 1 else w)"

definition seg_prot :: "elf64_phdr \<Rightarrow> u32" where
  "seg_prot ph = (if ph_flags ph AND 4 \<noteq> 0 then 1 else 0) OR (if ph_flags ph AND 2 \<noteq> 0 then 2 else 0) OR
     (if ph_flags ph AND 1 \<noteq> 0 then 4 else 0)"

text \<open>
  The region of a demand-paged segment. \<^verbatim>\<open>elf_data\<close> points \<open>align_delta\<close> bytes before the data of
  the segment; the list is what the pointer and \<^verbatim>\<open>elf_data_filesz\<close> span.
\<close>

definition elf_region :: "u64 \<Rightarrow> image \<Rightarrow> elf64_phdr \<Rightarrow> vma" where
  "elf_region base d ph =
     (let align_delta = seg_vaddr base ph - seg_start base ph;
          filesz = ph_filesz ph + align_delta
      in vma_zero\<lparr>vma_start := seg_start base ph, vma_end := seg_end base ph, vma_prot := seg_prot ph,
           vma_flags := 2, vma_type := VMA_ELF, vma_in_use := True,
           vma_elf_data := Some (map (\<lambda>k. d (unat (ph_offset ph - align_delta + of_nat k))) [0..<unat filesz]),
           vma_elf_data_filesz := filesz, vma_elf_vaddr := seg_start base ph, vma_elf_data_owned := False\<rparr>)"

text \<open>Eager loading of one page: the file bytes that overlap it are copied over a zeroed frame.\<close>

definition copy_file_bytes :: "u64 \<Rightarrow> image \<Rightarrow> elf64_phdr \<Rightarrow> u64 \<Rightarrow> nat \<Rightarrow> vm \<Rightarrow> vm" where
  "copy_file_bytes base d ph addr phys s =
     (let vaddr = seg_vaddr base ph;
          seg_file_end = vaddr + ph_filesz ph;
          copy_start = (if vaddr > addr then vaddr else addr);
          copy_end = (if seg_file_end < addr + 4096 then seg_file_end else addr + 4096)
      in if copy_start < copy_end
         then s\<lparr>vm_mem := mem_put (phys + unat (copy_start - addr))
                  (map (\<lambda>k. d (unat (ph_offset ph + (copy_start - vaddr) + of_nat k))) [0..<unat (copy_end - copy_start)])
                  (vm_mem s)\<rparr>
         else s)"

definition load_page :: "nat \<Rightarrow> u64 \<Rightarrow> image \<Rightarrow> elf64_phdr \<Rightarrow> u64 \<Rightarrow> vm \<Rightarrow> bool \<times> vm" where
  "load_page pml4 base d ph addr s =
     (case alloc_zeroed_page s of (phys, s1) \<Rightarrow>
        if phys = 0 then (False, s1)
        else (case user_vm_map_page pml4 addr (of_nat phys) (seg_pte_flags ph) (copy_file_bytes base d ph addr phys s1) of
                (r, s2) \<Rightarrow> (\<not> r < 0, s2)))"

text \<open>One turn of the loop over the program headers; \<open>None\<close> is the return of \<open>-1\<close>.\<close>

definition load_segment ::
  "nat \<Rightarrow> image \<Rightarrow> u64 \<Rightarrow> u64 \<Rightarrow> bool \<Rightarrow> nat option \<Rightarrow> elf64_phdr \<Rightarrow> u64 \<Rightarrow> vm \<Rightarrow> u64 option \<times> vm" where
  "load_segment pml4 d sz base demand cur ph load_end s =
     (if ph_type ph \<noteq> 1 then (Some load_end, s)
      else if ph_offset ph + ph_filesz ph > sz then (None, s)
      else
        (let load_end' = (if seg_end base ph > load_end then seg_end base ph else load_end) in
         case (if demand then Option.bind cur (\<lambda>c. map_option (Pair c) (vma_alloc (proc_of s c))) else None) of
           Some (c, k) \<Rightarrow> (Some load_end', on_vma c k (\<lambda>_. elf_region base d ph) s)
         | None \<Rightarrow>
             (case while_ok (\<lambda>k. load_page pml4 base d ph (seg_start base ph + of_nat (4096 * k)))
                     [0..<(unat (seg_end base ph) - unat (seg_start base ph)) div 4096] s of
                (ok, s1) \<Rightarrow> (if ok then Some load_end' else None, s1))))"

fun load_segments ::
  "nat \<Rightarrow> image \<Rightarrow> u64 \<Rightarrow> u64 \<Rightarrow> bool \<Rightarrow> nat option \<Rightarrow> nat list \<Rightarrow> u64 \<Rightarrow> vm \<Rightarrow> u64 option \<times> vm" where
  "load_segments pml4 d sz base demand cur [] load_end s = (Some load_end, s)"
| "load_segments pml4 d sz base demand cur (i # is) load_end s =
     (case load_segment pml4 d sz base demand cur (phdr_of d i) load_end s of
        (None, s1) \<Rightarrow> (None, s1)
      | (Some e, s1) \<Rightarrow> load_segments pml4 d sz base demand cur is e s1)"

definition elf_load_segments ::
  "nat \<Rightarrow> image \<Rightarrow> u64 \<Rightarrow> u64 \<Rightarrow> bool \<Rightarrow> nat option \<Rightarrow> vm \<Rightarrow> u64 option \<times> vm" where
  "elf_load_segments pml4 d sz base demand target s =
     load_segments pml4 d sz base demand
       (case target of Some t \<Rightarrow> Some t | None \<Rightarrow> current_process (vm_sched s))
       [0..<unat (e_phnum (ehdr_of d))] 0 s"

section \<open>The initial stack\<close>

record elf_load_result =
  er_entry_point :: u64
  er_load_end :: u64
  er_at_phdr :: u64
  er_at_phent :: u16
  er_at_phnum :: u16
  er_at_base :: u64
  er_at_entry :: u64

text \<open>An argument as it is stored: \<^verbatim>\<open>NULL\<close> is the empty string, long ones are cut after 255 bytes.\<close>

definition arg_bytes :: "u8 list option \<Rightarrow> u8 list" where
  "arg_bytes s = take 255 (takeWhile (\<lambda>c. c \<noteq> 0) (case s of None \<Rightarrow> [] | Some x \<Rightarrow> x))"

text \<open>
  The strings are written downwards from the end of the page, the last one first. \<open>put_args n\<close> writes
  the first \<open>n\<close> strings below \<open>write_pos\<close>.
\<close>

fun put_args :: "nat \<Rightarrow> u8 list option list \<Rightarrow> nat \<Rightarrow> u64 \<Rightarrow> nat \<Rightarrow> u64 list \<Rightarrow> mem \<Rightarrow> (nat \<times> u64 list) option \<times> mem" where
  "put_args 0 argv kpage base write_pos ptrs m = (Some (write_pos, ptrs), m)"
| "put_args (Suc i) argv kpage base write_pos ptrs m =
     (let s = arg_bytes (argv ! i) in
      if write_pos < length s + 1 then (None, m)
      else
        (let wp = write_pos - (length s + 1) in
         put_args i argv kpage base wp ((base + of_nat wp) # ptrs) (mem_put (kpage + wp) (s @ [0]) m)))"

definition auxv :: "elf_load_result option \<Rightarrow> u64 list" where
  "auxv result =
     (case result of
        None \<Rightarrow> []
      | Some r \<Rightarrow> [3, er_at_phdr r, 4, ucast (er_at_phent r), 5, ucast (er_at_phnum r), 6, 4096,
                   7, er_at_base r, 8, 0, 9, er_at_entry r, 0, 0])"

text \<open>Returns the stack pointer and the address of \<^verbatim>\<open>argv\<close> in user space, \<open>None\<close> for \<open>-1\<close>.\<close>

definition elf_setup_stack ::
  "nat \<Rightarrow> u64 \<Rightarrow> nat \<Rightarrow> u8 list option list \<Rightarrow> elf_load_result option \<Rightarrow> mem \<Rightarrow> (u64 \<times> u64) option \<times> mem" where
  "elf_setup_stack stack_phys base argc0 argv result m =
     (let argc = (if argc0 > 32 then 32 else argc0) in
      case put_args argc argv stack_phys base PAGE_SIZE [] m of
        (None, m1) \<Rightarrow> (None, m1)
      | (Some (write_pos, ptrs), m1) \<Rightarrow>
          (let auxv_count = (case result of None \<Rightarrow> 0 | Some _ \<Rightarrow> 8);
               block_size = (argc + 3 + auxv_count * 2) * 8
           in if write_pos < block_size then (None, m1)
              else
                (let start = (write_pos - block_size) div 16 * 16;
                     block = of_nat argc # ptrs @ [0, 0] @ auxv result
                 in (Some (base + of_nat start, base + of_nat start + 8),
                     mem_put (stack_phys + start) (concat (map enc64 block)) m1))))"

end
