(* ===== verification/ElfSpec.thy ===== *)
theory ElfSpec
  imports Elf PageTree
begin

text \<open>
  What the loader promises: a demand-paged segment shows the program the same bytes as an eagerly
  loaded one, and the initial stack holds the arguments. The address arithmetic of the loader is on
  64-bit words; \<open>seg_sane\<close> is the part of the ELF specification that keeps it from wrapping around.
\<close>

section \<open>Segments\<close>

definition seg_sane :: "u64 \<Rightarrow> elf64_phdr \<Rightarrow> bool" where
  "seg_sane base ph \<longleftrightarrow> unat (seg_vaddr base ph) + unat (ph_memsz ph) + 4095 < 2 ^ 64 \<and>
     ph_filesz ph \<le> ph_memsz ph \<and> unat (ph_offset ph) + unat (ph_filesz ph) < 2 ^ 64 \<and>
     unat (ph_offset ph) mod 4096 = unat (seg_vaddr base ph) mod 4096"

text \<open>The byte of the segment at an address: file data, then zeros (the \<^verbatim>\<open>.bss\<close> section).\<close>

definition seg_byte :: "u64 \<Rightarrow> image \<Rightarrow> elf64_phdr \<Rightarrow> nat \<Rightarrow> u8" where
  "seg_byte base d ph a =
     (if a < unat (seg_vaddr base ph) + unat (ph_filesz ph)
      then d (unat (ph_offset ph) + (a - unat (seg_vaddr base ph))) else 0)"

definition seg_page :: "u64 \<Rightarrow> elf64_phdr \<Rightarrow> u64 \<Rightarrow> bool" where
  "seg_page base ph pg \<longleftrightarrow> unat pg mod 4096 = 0 \<and> seg_start base ph \<le> pg \<and> pg < seg_end base ph"

definition zeroed :: "nat \<Rightarrow> vm \<Rightarrow> bool" where
  "zeroed phys s \<longleftrightarrow> (\<forall>j<4096. vm_mem s (phys + j) = 0)"

lemma unat_plus64: "unat x + unat y < 2 ^ 64 \<Longrightarrow> unat (x + y) = unat x + unat y" for x y :: u64
  by (simp add: unat_word_ariths)

lemma unat_plus_nat: "unat x + k < 2 ^ 64 \<Longrightarrow> unat (x + of_nat k) = unat x + k" for x :: u64
  by (simp add: unat_word_ariths unat_of_nat)

lemma mem_put_in: "x = a + k \<Longrightarrow> k < length bs \<Longrightarrow> mem_put a bs m x = bs ! k"
  by (simp add: mem_put_def)

lemma mem_put_out: "x < a \<or> a + length bs \<le> x \<Longrightarrow> mem_put a bs m x = m x"
  by (auto simp: mem_put_def)

lemma seg_start_unat: "unat (seg_start base ph) = unat (seg_vaddr base ph) div 4096 * 4096"
  by (simp only: seg_start_def unat_align_down)

lemma seg_page_bounds:
  assumes "seg_sane base ph" "seg_page base ph pg"
  shows "unat pg + 4096 \<le> unat (seg_vaddr base ph) + unat (ph_memsz ph) + 4095"
    "unat (seg_vaddr base ph) div 4096 * 4096 \<le> unat pg"
proof -
  let ?e = "unat (seg_vaddr base ph) + unat (ph_memsz ph)"
  have w: "unat (seg_vaddr base ph + ph_memsz ph) = ?e"
    using assms(1) by (intro unat_plus64) (simp add: seg_sane_def)
  have "unat (seg_end base ph) = (?e + 4095) div 4096 * 4096"
    using unat_align_up [of "seg_vaddr base ph + ph_memsz ph"] assms(1) w by (simp add: seg_end_def seg_sane_def)
  moreover have "unat pg < unat (seg_end base ph)" using assms(2) by (simp add: seg_page_def word_less_nat_alt)
  moreover have "unat pg = unat pg div 4096 * 4096" using assms(2) by (auto simp: seg_page_def)
  ultimately have "unat pg div 4096 < (?e + 4095) div 4096" by linarith
  then have "(unat pg div 4096 + 1) * 4096 \<le> (?e + 4095) div 4096 * 4096" by (intro mult_right_mono) auto
  also have "\<dots> \<le> ?e + 4095" by (rule div_times_less_eq_dividend)
  also have "(unat pg div 4096 + 1) * 4096 = unat pg + 4096"
    using \<open>unat pg = _\<close> by (simp only: distrib_right mult_1_left)
  finally show "unat pg + 4096 \<le> ?e + 4095" .
  show "unat (seg_vaddr base ph) div 4096 * 4096 \<le> unat pg"
    using assms(2) by (simp add: seg_page_def word_le_nat_alt seg_start_unat)
qed

lemma eager_byte:
  assumes "seg_sane base ph" "seg_page base ph pg" "zeroed phys s" "j < 4096"
    "unat (seg_vaddr base ph) \<le> unat pg + j"
  shows "vm_mem (copy_file_bytes base d ph pg phys s) (phys + j) = seg_byte base d ph (unat pg + j)"
proof -
  define A P F Q where "A = unat (seg_vaddr base ph)" "P = unat pg" "F = unat (ph_filesz ph)" "Q = unat (ph_offset ph)"
  note defs = this
  have le: "F \<le> unat (ph_memsz ph)" "A + unat (ph_memsz ph) + 4095 < 2 ^ 64" "Q + F < 2 ^ 64"
    using assms(1) by (simp_all add: seg_sane_def defs word_le_nat_alt)
  have P: "P + 4096 < 2 ^ 64" using seg_page_bounds(1) [OF assms(1,2)] le by (simp add: defs)
  have e1: "unat (seg_vaddr base ph + ph_filesz ph) = A + F" using le by (simp add: defs unat_plus64)
  have e2: "unat (pg + 4096) = P + 4096" using P unat_plus64 [of pg 4096] by (simp add: defs)
  define cs ce where "cs = (if seg_vaddr base ph > pg then seg_vaddr base ph else pg)"
    "ce = (if seg_vaddr base ph + ph_filesz ph < pg + 4096 then seg_vaddr base ph + ph_filesz ph else pg + 4096)"
  note cse = this
  have cs: "unat cs = max A P" by (auto simp: cse defs word_less_nat_alt)
  have ce: "unat ce = min (A + F) (P + 4096)" by (auto simp: cse word_less_nat_alt e1 e2)
  have so: "unat (cs - pg) = max A P - P" "unat (cs - seg_vaddr base ph) = max A P - A"
    using cs by (simp_all add: unat_sub word_le_nat_alt defs)
  show ?thesis
  proof (cases "P + j < A + F")
    case True
    have lt: "cs < ce" using True assms(4,5) by (auto simp: word_less_nat_alt cs ce defs)
    have len: "unat (ce - cs) = min (A + F) (P + 4096) - max A P"
      using lt by (subst unat_sub) (simp_all add: cs ce word_le_nat_alt word_less_nat_alt)
    define k where "k = j - (max A P - P)"
    have k: "k < min (A + F) (P + 4096) - max A P" "j = max A P - P + k" "max A P - A + k = P + j - A"
      using True assms(4,5) by (auto simp: k_def defs)
    have "unat (ph_offset ph + (cs - seg_vaddr base ph) + of_nat k) = Q + (P + j - A)"
    proof -
      have "Q + (P + j - A) < 2 ^ 64" using True assms(5) le by (simp add: defs)
      then show ?thesis using k(3) so(2) by (simp add: unat_plus_nat unat_plus64 defs)
    qed
    moreover have "phys + j = phys + unat (cs - pg) + k" using k(2) so(1) by simp
    ultimately have "vm_mem (copy_file_bytes base d ph pg phys s) (phys + j) = d (Q + (P + j - A))"
      using lt k(1) mem_put_in [of "phys + j" "phys + unat (cs - pg)" k]
      by (simp add: copy_file_bytes_def Let_def cse [symmetric] len del: add.assoc add_left_cancel)
    then show ?thesis using True by (simp add: seg_byte_def defs)
  next
    case False
    have "vm_mem (copy_file_bytes base d ph pg phys s) (phys + j) = vm_mem s (phys + j)"
    proof (cases "cs < ce")
      case True
      have len: "unat (ce - cs) = min (A + F) (P + 4096) - max A P"
        using True by (subst unat_sub) (simp_all add: cs ce word_le_nat_alt word_less_nat_alt)
      show ?thesis using False True assms(5)
        by (auto simp: copy_file_bytes_def Let_def cse [symmetric] mem_put_def so len defs)
    qed (simp add: copy_file_bytes_def Let_def cse [symmetric])
    then show ?thesis using False assms(3,4) by (simp add: zeroed_def seg_byte_def defs)
  qed
qed

lemma demand_byte:
  assumes "seg_sane base ph" "seg_page base ph pg" "zeroed phys s" "j < 4096"
    "unat (seg_vaddr base ph) \<le> unat pg + j"
  shows "vm_mem (fill_page (elf_region base d ph) pg phys s) (phys + j) = seg_byte base d ph (unat pg + j)"
proof -
  define A P F Q where "A = unat (seg_vaddr base ph)" "P = unat pg" "F = unat (ph_filesz ph)" "Q = unat (ph_offset ph)"
  note defs = this
  define B where "B = A div 4096 * 4096"
  have B: "unat (seg_start base ph) = B" "B \<le> A" "A - B = A mod 4096" "B \<le> P"
    using seg_page_bounds(2) [OF assms(1,2)]
    by (simp_all add: B_def defs seg_start_unat minus_div_mult_eq_mod)
  have le: "F \<le> unat (ph_memsz ph)" "A + unat (ph_memsz ph) + 4095 < 2 ^ 64" "Q + F < 2 ^ 64" "A - B \<le> Q"
    using assms(1) B(3) mod_less_eq_dividend [of Q 4096] by (simp_all add: seg_sane_def defs word_le_nat_alt)
  define delta where "delta = seg_vaddr base ph - seg_start base ph"
  have delta: "unat delta = A - B" unfolding delta_def using B by (simp add: unat_sub word_le_nat_alt defs)
  have fs: "unat (ph_filesz ph + delta) = F + (A - B)"
    using le B(2) by (simp add: unat_plus64 delta defs)
  have off: "unat (pg - seg_start base ph) = P - B" using B by (simp add: unat_sub word_le_nat_alt defs)
  have q: "unat (ph_offset ph - delta) = Q - (A - B)"
    using le(4) by (simp add: unat_sub word_le_nat_alt delta defs)
  define v where "v = elf_region base d ph"
  have v: "vma_type v = VMA_ELF" "vma_elf_vaddr v = seg_start base ph" "vma_elf_data_filesz v = ph_filesz ph + delta"
    "vma_elf_data v = Some (map (\<lambda>k. d (unat (ph_offset ph - delta + of_nat k))) [0..<F + (A - B)])"
    by (simp_all add: v_def elf_region_def Let_def vma_zero_def delta_def [symmetric] fs)
  show ?thesis
  proof (cases "P - B < F + (A - B)")
    case True
    have lt: "pg - seg_start base ph < ph_filesz ph + delta" using True by (simp add: word_less_nat_alt off fs)
    have len: "unat (ph_filesz ph + delta - (pg - seg_start base ph)) = F + (A - B) - (P - B)"
      using lt by (subst unat_sub) (simp_all add: off fs)
    have m: "vm_mem (fill_page v pg phys s) (phys + j) =
        (if j < min (F + (A - B) - (P - B)) 4096 then d (unat (ph_offset ph - delta + of_nat (P - B + j))) else vm_mem s (phys + j))"
      using lt by (auto simp: fill_page_def v Let_def mem_put_def slice_def off len PAGE_SIZE_def)
    have c: "j < min (F + (A - B) - (P - B)) 4096 \<longleftrightarrow> P + j < A + F" using B assms(4) True by auto
    show ?thesis
    proof (cases "P + j < A + F")
      case True
      have "Q - (A - B) + (P - B + j) = Q + (P + j - A)" using B le(4) assms(5) by (simp add: defs)
      moreover have "Q + (P + j - A) < 2 ^ 64" using True assms(5) le(3) by (simp add: defs)
      ultimately have "unat (ph_offset ph - delta + of_nat (P - B + j)) = Q + (P + j - A)"
        using unat_plus_nat [of "ph_offset ph - delta" "P - B + j"] by (simp add: q)
      then show ?thesis using True m c by (simp add: v_def seg_byte_def defs)
    next
      case False
      then show ?thesis using m c assms(3,4) by (simp add: v_def seg_byte_def zeroed_def defs)
    qed
  next
    case False
    then have "\<not> pg - seg_start base ph < ph_filesz ph + delta" by (simp add: word_less_nat_alt off fs)
    then have "fill_page v pg phys s = s" by (simp add: fill_page_def v Let_def)
    moreover have "\<not> P + j < A + F" using False B by auto
    ultimately show ?thesis using assms(3,4) by (simp add: v_def seg_byte_def zeroed_def defs)
  qed
qed

section \<open>What the program reads\<close>

text \<open>The byte that user mode reads at an address; \<open>None\<close> is a page fault.\<close>

definition read_user :: "nat \<Rightarrow> u64 \<Rightarrow> vm \<Rightarrow> u8 option" where
  "read_user r v s =
     (let e = pte_of r v s in if present e then Some (vm_mem s (pte_phys e + unat v mod 4096)) else None)"

lemma tree_nodes_cong:
  assumes "tree r s" "\<forall>q u j. upath q \<longrightarrow> node r q s = Some u \<longrightarrow> j < 512 \<longrightarrow> get64 (u + 8 * j) s' = get64 (u + 8 * j) s"
    "\<forall>x. in_use x s \<longrightarrow> in_use x s'"
  shows "tree r s'" "\<And>q. upath q \<Longrightarrow> node r q s' = node r q s"
proof -
  show nd: "node r q s' = node r q s" if "upath q" for q
  proof (rule node_same [OF _ that])
    fix q u j assume "upath (q @ [j])" "node r q s = Some u"
    then have "get64 (u + 8 * j) s' = get64 (u + 8 * j) s" using assms(2) upath_snoc by blast
    then show "present (get64 (u + 8 * j) s') = present (get64 (u + 8 * j) s) \<and>
        pte_phys (get64 (u + 8 * j) s') = pte_phys (get64 (u + 8 * j) s)" by simp
  qed
  show "tree r s'" unfolding tree_def
  proof (intro conjI allI impI)
    show "in_use t s'" if "upath q \<and> node r q s' = Some t" for q t using that nd treeD(1) [OF assms(1)] assms(3) by auto
    show "q = q'" if "upath q \<and> upath q' \<and> node r q s' = Some t \<and> node r q' s' = Some t" for q q' t
      using that nd treeD(2) [OF assms(1)] by auto
    fix q t i assume h: "upath (q @ [i]) \<and> node r q s' = Some t \<and> present (get64 (t + 8 * i) s')"
    then have "upath q" "i < 512" using upath_snoc by blast+
    then have "node r q s = Some t" "get64 (t + 8 * i) s' = get64 (t + 8 * i) s" using h nd [of q] assms(2) by auto
    then show "get64 (t + 8 * i) s' AND PTE_HUGE = 0" using h treeD(3) [OF assms(1), of q i t] by simp
  qed
qed

text \<open>Writing inside a frame that is not a table.\<close>

lemma tree_write_frame:
  assumes "tree r s" "data_frame r f s" "\<And>x. x < f \<or> f + 4096 \<le> x \<Longrightarrow> m x = vm_mem s x"
  shows "tree r (s\<lparr>vm_mem := m\<rparr>)" "data_frame r f (s\<lparr>vm_mem := m\<rparr>)"
proof -
  have g: "get64 (u + 8 * j) (s\<lparr>vm_mem := m\<rparr>) = get64 (u + 8 * j) s" if "upath q" "node r q s = Some u" "j < 512" for q u j
  proof -
    have u: "u mod 4096 = 0" "f mod 4096 = 0" "u \<noteq> f"
      using treeD(1) [OF assms(1) that(1,2)] assms(2) that(1,2) by (auto simp: in_use_def data_frame_def)
    have "m (u + 8 * j + k) = vm_mem s (u + 8 * j + k)" if "k < 8" for k
    proof (rule assms(3))
      have "u + 4096 \<le> f \<or> f + 4096 \<le> u" using u by (auto elim!: dvdE simp: mod_eq_0_iff_dvd)
      then show "u + 8 * j + k < f \<or> f + 4096 \<le> u + 8 * j + k" using \<open>j < 512\<close> \<open>k < 8\<close> by auto
    qed
    then show ?thesis by (auto intro!: le64_cong simp: get64_def)
  qed
  have us: "\<forall>x. in_use x s \<longrightarrow> in_use x (s\<lparr>vm_mem := m\<rparr>)" by (simp add: in_use_def)
  have T: "tree r (s\<lparr>vm_mem := m\<rparr>)" "\<And>q. upath q \<Longrightarrow> node r q (s\<lparr>vm_mem := m\<rparr>) = node r q s"
    using g by (auto intro!: tree_nodes_cong [OF assms(1) _ us])
  show "tree r (s\<lparr>vm_mem := m\<rparr>)" by (rule T(1))
  show "data_frame r f (s\<lparr>vm_mem := m\<rparr>)" using assms(2) T(2) us by (auto simp: data_frame_def)
qed

lemma alloc_data_frame:
  assumes T: "tree r s" and rm: "roomy (Suc k) s"
  obtains f s1 where "alloc_zeroed_page s = (f, s1)" "f \<noteq> 0" "f mod 4096 = 0" "f < 2 ^ 52" "tree r s1" "roomy k s1"
    "data_frame r f s1" "zeroed f s1" "vm_sched s1 = vm_sched s"
proof -
  obtain f p where A: "pmm_alloc_page s = (f, s\<lparr>vm_pmm := p\<rparr>)" "f \<noteq> 0" "f mod 4096 = 0" "f < 2 ^ 52" "f div 4096 \<in> free_frames (vm_pmm s)"
    "free_frames p = free_frames (vm_pmm s) - {f div 4096}" "total_pages p = total_pages (vm_pmm s)" "roomy k (s\<lparr>vm_pmm := p\<rparr>)"
    by (rule alloc_roomy [OF rm]) (rule that)
  let ?s1 = "s\<lparr>vm_pmm := p\<rparr>"
  let ?m = "memset f 0 PAGE_SIZE (vm_mem s)"
  have us: "\<forall>x. in_use x s \<longrightarrow> in_use x ?s1" using A(6,7) by (auto simp: in_use_def)
  have g: "get64 a ?s1 = get64 a s" for a by (simp add: get64_def)
  have T1: "tree r ?s1" "\<And>q. upath q \<Longrightarrow> node r q ?s1 = node r q s"
    using g by (auto intro!: tree_nodes_cong [OF T _ us])
  have "f div 4096 < total_pages (vm_pmm s)" using A(5) by (simp add: free_frames_def)
  then have "in_use f ?s1" using A(3,5,6,7) by (auto simp: in_use_def)
  moreover have "node r q s \<noteq> Some f" if "upath q" for q using treeD(1) [OF T that, of f] A(5) by (auto simp: in_use_def)
  ultimately have d: "data_frame r f ?s1" using T1(2) by (auto simp: data_frame_def)
  have m: "?m x = vm_mem ?s1 x" if "x < f \<or> f + 4096 \<le> x" for x using that by (auto simp: memset_eq PAGE_SIZE_def)
  note W = tree_write_frame [OF T1(1) d m]
  show ?thesis
  proof (rule that)
    show "alloc_zeroed_page s = (f, ?s1\<lparr>vm_mem := ?m\<rparr>)" using A(1,2) by (simp add: alloc_zeroed_page_def)
    show "zeroed f (?s1\<lparr>vm_mem := ?m\<rparr>)" by (simp add: zeroed_def memset_eq PAGE_SIZE_def)
    show "roomy k (?s1\<lparr>vm_mem := ?m\<rparr>)" using A(8) by (simp add: roomy_def)
  qed (use A W in simp_all)
qed

lemma map_page_read:
  assumes "tree r s" "user_addr v" "roomy 3 s" "data_frame r f s" "f < 2 ^ 52" "flags AND PTE_ADDR_MASK = 0"
  obtains t where "user_vm_map_page r v (of_nat f) flags s = (0, t)" "tree r t"
    "\<And>v'. user_addr v' \<Longrightarrow> v' AND NOT 4095 = v AND NOT 4095 \<Longrightarrow> read_user r v' t = Some (vm_mem s (f + unat v' mod 4096))"
proof -
  let ?e = "of_nat f AND PTE_ADDR_MASK OR flags OR PTE_PRESENT"
  obtain t where t: "user_vm_map_page r v (of_nat f) flags s = (0, t)" "tree r t" "pte_of r v t = ?e"
    "\<And>x. data_frame r x s \<Longrightarrow> keeps_frame r x s t"
    by (rule map_page_spec [OF assms(1-3), where phys = "of_nat f" and flags = flags]) (rule that)
  have al: "f mod 4096 = 0" using assms(4) by (simp add: data_frame_def in_use_def)
  have "pte_phys ?e = pte_phys (of_nat f AND PTE_ADDR_MASK)"
    using assms(6) by (intro pte_phys_or) (simp add: bit.conj_disj_distrib2)
  then have ph: "pte_phys ?e = f" "present ?e"
    using pte_phys_frame [OF al assms(5), of 0] frame_mask [OF al assms(5), of 0] by simp_all
  have "read_user r v' t = Some (vm_mem s (f + unat v' mod 4096))" if "user_addr v'" "v' AND NOT 4095 = v AND NOT 4095" for v'
  proof -
    have "pte_of r v' t = ?e"
      using t(3) pte_of_leaf [OF t(2) that(1)] pte_of_leaf [OF t(2) assms(2)] index_cong [OF that(2)] by simp
    then show ?thesis using ph t(4) [OF assms(4)] by (simp add: read_user_def keeps_frame_def)
  qed
  then show ?thesis by (rule that [OF t(1,2)])
qed

section \<open>Demand paging and eager loading agree\<close>

lemma fill_page_frame:
  "zeroed phys s \<Longrightarrow> \<exists>m. fill_page (elf_region base d ph) pg phys s = s\<lparr>vm_mem := m\<rparr> \<and>
     (\<forall>x. x < phys \<or> phys + 4096 \<le> x \<longrightarrow> m x = vm_mem s x)"
  by (rule exI [of _ "vm_mem (fill_page (elf_region base d ph) pg phys s)"])
    (auto simp: fill_page_def elf_region_def Let_def vma_zero_def mem_put_def slice_def PAGE_SIZE_def)

lemma copy_file_bytes_frame:
  assumes "seg_sane base ph" "seg_page base ph pg"
  shows "\<exists>m. copy_file_bytes base d ph pg phys s = s\<lparr>vm_mem := m\<rparr> \<and> (\<forall>x. x < phys \<or> phys + 4096 \<le> x \<longrightarrow> m x = vm_mem s x)"
proof -
  let ?v = "seg_vaddr base ph"
  have P: "unat (pg + 4096) = unat pg + 4096"
    using seg_page_bounds(1) [OF assms] assms(1) unat_plus64 [of pg 4096] by (simp add: seg_sane_def)
  define cs ce where "cs = (if ?v > pg then ?v else pg)"
    "ce = (if ?v + ph_filesz ph < pg + 4096 then ?v + ph_filesz ph else pg + 4096)"
  note cse = this
  have le: "pg \<le> cs" "ce \<le> pg + 4096" by (auto simp: cse)
  have "mem_put (phys + unat (cs - pg)) (map g [0..<unat (ce - cs)]) (vm_mem s) x = vm_mem s x"
    if "cs < ce" "x < phys \<or> phys + 4096 \<le> x" for x g
  proof (rule mem_put_out)
    have "unat (cs - pg) = unat cs - unat pg" "unat (ce - cs) = unat ce - unat cs"
      using le that(1) by (simp_all add: unat_sub)
    then show "x < phys + unat (cs - pg) \<or> phys + unat (cs - pg) + length (map g [0..<unat (ce - cs)]) \<le> x"
      using that le P by (auto simp: word_le_nat_alt word_less_nat_alt)
  qed
  then show ?thesis
    by (intro exI [of _ "vm_mem (copy_file_bytes base d ph pg phys s)"])
      (simp add: copy_file_bytes_def Let_def cse [symmetric])
qed

lemma page_of:
  assumes "seg_start base ph \<le> a" "a < seg_end base ph"
  shows "seg_page base ph (a AND NOT 4095)"
proof -
  have u: "unat (a AND NOT 4095) = unat a div 4096 * 4096" by (rule unat_align_down)
  have "unat (seg_vaddr base ph) div 4096 \<le> unat a div 4096"
    using assms(1) div_le_mono [of "unat (seg_start base ph)" "unat a" 4096] by (simp add: word_le_nat_alt seg_start_unat)
  moreover have "a AND NOT 4095 < seg_end base ph" using assms(2) u by (simp add: word_less_nat_alt le_less_trans [OF div_times_less_eq_dividend])
  ultimately show ?thesis using u by (simp add: seg_page_def word_le_nat_alt seg_start_unat)
qed

lemma flags_outside_address:
  "prot_flags prot AND PTE_ADDR_MASK = 0" "seg_pte_flags ph AND PTE_ADDR_MASK = 0"
  by (simp_all add: prot_flags_def seg_pte_flags_def Let_def PTE_PRESENT_def PTE_USER_def PTE_WRITABLE_def PTE_ADDR_MASK_def)

lemma same_page_offset: "v AND NOT 4095 = pg \<Longrightarrow> unat pg + unat v mod 4096 = unat v" for v pg :: u64
  using unat_align_down [of v] by (metis div_mult_mod_eq)

text \<open>
  C13 Demand paging is transparent: take a segment of a well-formed program whose region has been
  entered in the process and whose page at \<open>a\<close> is touched for the first time. The page-fault path maps the page, and
  so does the eager loader on the same state; afterwards the program reads, at every address of the
  page that belongs to the segment, the same byte either way: the byte of the file for the part that
  the file covers and zero behind it.
\<close>

theorem elf_demand_equals_eager:
  fixes base :: u64 and d :: image
  assumes "seg_sane base ph" "tree pml4 s" "roomy 4 s" "user_addr a"
    "vma_find (proc_of s i) a = Some k" "p_vmas (proc_of s i) ! k = elf_region base d ph"
    "unat (p_cr3 (proc_of s i)) = pml4" "w \<longrightarrow> vma_prot (elf_region base d ph) AND PROT_WRITE \<noteq> 0"
  shows "\<exists>t t'. vma_handle_fault i a w s = (0, t) \<and> load_page pml4 base d ph (a AND NOT 4095) s = (True, t') \<and>
    (\<forall>v. user_addr v \<and> v AND NOT 4095 = a AND NOT 4095 \<and> seg_vaddr base ph \<le> v \<longrightarrow>
       read_user pml4 v t = Some (seg_byte base d ph (unat v)) \<and> read_user pml4 v t' = read_user pml4 v t)"
proof -
  define v where "v = elf_region base d ph"
  define pg where "pg = a AND NOT 4095"
  have vf: "vma_start v = seg_start base ph" "vma_end v = seg_end base ph" "vma_type v = VMA_ELF"
    by (simp_all add: v_def elf_region_def Let_def vma_zero_def)
  have "seg_start base ph \<le> a" "a < seg_end base ph"
    using first_idx_Some_P [OF assms(5) [unfolded vma_find_def]] assms(6) vf by (simp_all add: v_def)
  then have pgs: "seg_page base ph pg" unfolding pg_def by (rule page_of)
  have ua: "user_addr pg" "pg AND NOT 4095 = a AND NOT 4095"
    using assms(4) le_less_trans [OF word_and_le2 [of "a" "NOT 4095"]] by (auto simp: pg_def user_addr_def and.assoc)
  have rm: "roomy (Suc 3) s" using assms(3) by simp
  obtain f s1 where A: "alloc_zeroed_page s = (f, s1)" "f \<noteq> 0" "f mod 4096 = 0" "f < 2 ^ 52" "tree pml4 s1" "roomy 3 s1"
    "data_frame pml4 f s1" "zeroed f s1" "vm_sched s1 = vm_sched s" by (rule alloc_data_frame [OF assms(2) rm])
  obtain m where m: "fill_page v pg f s1 = s1\<lparr>vm_mem := m\<rparr>" "\<And>x. x < f \<or> f + 4096 \<le> x \<Longrightarrow> m x = vm_mem s1 x"
    using fill_page_frame [OF A(8)] unfolding v_def by blast
  obtain m' where m': "copy_file_bytes base d ph pg f s1 = s1\<lparr>vm_mem := m'\<rparr>" "\<And>x. x < f \<or> f + 4096 \<le> x \<Longrightarrow> m' x = vm_mem s1 x"
    using copy_file_bytes_frame [OF assms(1) pgs] by blast
  have W: "tree pml4 (s1\<lparr>vm_mem := m\<rparr>)" "data_frame pml4 f (s1\<lparr>vm_mem := m\<rparr>)"
    "tree pml4 (s1\<lparr>vm_mem := m'\<rparr>)" "data_frame pml4 f (s1\<lparr>vm_mem := m'\<rparr>)"
    using m(2) m'(2) by (intro tree_write_frame [OF A(5,7)]; simp)+
  have ro: "roomy 3 (s1\<lparr>vm_mem := x\<rparr>)" for x using A(6) by (simp add: roomy_def)
  obtain t where t: "user_vm_map_page pml4 pg (of_nat f) (prot_flags (vma_prot v)) (s1\<lparr>vm_mem := m\<rparr>) = (0, t)"
    "\<And>x. user_addr x \<Longrightarrow> x AND NOT 4095 = pg AND NOT 4095 \<Longrightarrow> read_user pml4 x t = Some (vm_mem (s1\<lparr>vm_mem := m\<rparr>) (f + unat x mod 4096))"
    by (rule map_page_read [OF W(1) ua(1) ro W(2) A(4) flags_outside_address(1) [of "vma_prot v"]]) (rule that)
  obtain t' where t': "user_vm_map_page pml4 pg (of_nat f) (seg_pte_flags ph) (s1\<lparr>vm_mem := m'\<rparr>) = (0, t')"
    "\<And>x. user_addr x \<Longrightarrow> x AND NOT 4095 = pg AND NOT 4095 \<Longrightarrow> read_user pml4 x t' = Some (vm_mem (s1\<lparr>vm_mem := m'\<rparr>) (f + unat x mod 4096))"
    by (rule map_page_read [OF W(3) ua(1) ro W(4) A(4) flags_outside_address(2) [of ph]]) (rule that)
  have "vma_handle_fault i a w s = (0, t)"
    using assms(5-8) A(1,2,9) t(1) m(1) vf(3) by (simp add: vma_handle_fault_def Let_def pg_def v_def)
  moreover have "load_page pml4 base d ph pg s = (True, t')" using A(1,2) m'(1) t'(1) by (simp add: load_page_def)
  moreover have "m (f + unat x mod 4096) = seg_byte base d ph (unat x)" "m' (f + unat x mod 4096) = seg_byte base d ph (unat x)"
    if "x AND NOT 4095 = pg" "seg_vaddr base ph \<le> x" for x
    using demand_byte [OF assms(1) pgs A(8), of "unat x mod 4096" d] eager_byte [OF assms(1) pgs A(8), of "unat x mod 4096" d]
      that same_page_offset [OF that(1)] m(1) m'(1) by (simp_all add: v_def word_le_nat_alt)
  ultimately show ?thesis using t(2) t'(2) ua(2) by (intro exI [of _ t] exI [of _ t']) (auto simp: pg_def)
qed

text \<open>A data segment of 32 bytes of file data and 32 zeros, entered in the first process of the small machine.\<close>

definition demo_phdr :: elf64_phdr where
  "demo_phdr = \<lparr>ph_type = 1, ph_flags = 6, ph_offset = 0x1010, ph_vaddr = 0x401010, ph_paddr = 0, ph_filesz = 0x20,
     ph_memsz = 0x40, ph_align = 0x1000\<rparr>"

definition elf_vm :: vm where
  "elf_vm = on_proc 0 (\<lambda>p. p\<lparr>p_cr3 := 0x8000, p_vmas := (p_vmas p)[0 := elf_region 0 (\<lambda>a. of_nat a) demo_phdr]\<rparr>) small_vm"

lemma elf_vm_ok: "tree 0x8000 elf_vm" "roomy 4 elf_vm"
proof -
  have e: "vm_mem elf_vm = vm_mem small_vm" "vm_pmm elf_vm = vm_pmm small_vm" by (simp_all add: elf_vm_def on_proc_def)
  show "tree 0x8000 elf_vm" by (rule tree_nodes_cong [OF small_vm_ok(2)]) (simp_all add: get64_def in_use_def e)
  show "roomy 4 elf_vm" using small_vm_ok(1) by (simp add: roomy_def e)
qed

lemma demo_phdr_sane: "seg_sane 0 demo_phdr" "seg_vaddr 0 demo_phdr = 0x401010"
  by (simp_all add: seg_sane_def seg_vaddr_def demo_phdr_def)

lemma demo_region:
  "vma_find (proc_of elf_vm 0) 0x401018 = Some 0" "p_vmas (proc_of elf_vm 0) ! 0 = elf_region 0 (\<lambda>a. of_nat a) demo_phdr"
  "p_cr3 (proc_of elf_vm 0) = 0x8000" "vma_prot (elf_region 0 (\<lambda>a. of_nat a) demo_phdr) = 3"
proof -
  have p: "proc_of elf_vm 0 = (procs demo_sched ! 0)\<lparr>p_cr3 := 0x8000,
      p_vmas := (p_vmas (procs demo_sched ! 0))[0 := elf_region 0 (\<lambda>a. of_nat a) demo_phdr]\<rparr>"
    by (simp add: elf_vm_def on_proc_def upd_proc_def small_vm_def demo_sched_def)
  have v: "p_vmas (proc_of elf_vm 0) = elf_region 0 (\<lambda>a. of_nat a) demo_phdr # replicate 31 vma_zero"
    unfolding p by (simp add: demo_sched_def process_zero_def VMA_MAX_def numeral_eq_Suc)
  show "p_vmas (proc_of elf_vm 0) ! 0 = elf_region 0 (\<lambda>a. of_nat a) demo_phdr" by (simp add: v)
  show "p_cr3 (proc_of elf_vm 0) = 0x8000" by (simp add: p)
  show "vma_find (proc_of elf_vm 0) 0x401018 = Some 0"
    unfolding vma_find_def v by (simp add: elf_region_def Let_def seg_start_def seg_end_def seg_vaddr_def demo_phdr_def vma_zero_def)
  show "vma_prot (elf_region 0 (\<lambda>a. of_nat a) demo_phdr) = 3"
    by (simp add: elf_region_def Let_def seg_prot_def demo_phdr_def vma_zero_def)
qed

theorem elf_demand_equals_eager_witness:
  "\<exists>t t'. vma_handle_fault 0 0x401018 True elf_vm = (0, t) \<and>
     load_page 0x8000 0 (\<lambda>a. of_nat a) demo_phdr 0x401000 elf_vm = (True, t') \<and>
     read_user 0x8000 0x401018 t = Some 0x18 \<and> read_user 0x8000 0x401018 t' = Some 0x18"
proof -
  have w: "vma_prot (elf_region 0 (\<lambda>a. of_nat a) demo_phdr) AND PROT_WRITE \<noteq> 0" by (simp add: demo_region(4) PROT_WRITE_def)
  have u: "user_addr 0x401018" "unat (p_cr3 (proc_of elf_vm 0)) = 0x8000" by (simp_all add: user_addr_def demo_region(3))
  have b: "seg_byte 0 (\<lambda>a. of_nat a) demo_phdr (unat (0x401018 :: u64)) = 0x18"
    by (simp add: seg_byte_def demo_phdr_sane) (simp add: demo_phdr_def)
  from elf_demand_equals_eager [OF demo_phdr_sane(1) elf_vm_ok u(1) demo_region(1,2) u(2), of True] w
  obtain t t' where t: "vma_handle_fault 0 0x401018 True elf_vm = (0, t)"
    "load_page 0x8000 0 (\<lambda>a. of_nat a) demo_phdr (0x401018 AND NOT 4095) elf_vm = (True, t')"
    "\<forall>v. user_addr v \<and> v AND NOT 4095 = 0x401018 AND NOT 4095 \<and> seg_vaddr 0 demo_phdr \<le> v \<longrightarrow>
       read_user 0x8000 v t = Some (seg_byte 0 (\<lambda>a. of_nat a) demo_phdr (unat v)) \<and> read_user 0x8000 v t' = read_user 0x8000 v t"
    by blast
  from t(3) [rule_format, of "0x401018"] u(1) have "read_user 0x8000 0x401018 t = Some 0x18 \<and> read_user 0x8000 0x401018 t' = Some 0x18"
    unfolding b by (simp add: demo_phdr_sane(2))
  then show ?thesis using t(1,2) by auto
qed

section \<open>The initial stack\<close>

definition args_blob :: "u8 list option list \<Rightarrow> u8 list" where
  "args_blob ss = concat (map (\<lambda>s. arg_bytes s @ [0]) ss)"

lemma args_blob_append [simp]: "args_blob (xs @ ys) = args_blob xs @ args_blob ys" "args_blob [] = []"
  "args_blob (x # xs) = arg_bytes x @ [0] @ args_blob xs"
  by (simp_all add: args_blob_def)

lemma mem_put_Nil [simp]: "mem_put a [] m = m"
  by (rule ext) (auto simp: mem_put_def)

lemma mem_put_append:
  "mem_put a xs (mem_put (a + length xs) ys m) = mem_put a (xs @ ys) m"
  by (rule ext) (auto simp: mem_put_def nth_append)

lemma put_args_eq:
  assumes "n \<le> length argv"
  shows "fst (put_args n argv kp base wp qs m) = None \<longleftrightarrow> wp < length (args_blob (take n argv))"
    "length (args_blob (take n argv)) \<le> wp \<Longrightarrow> put_args n argv kp base wp qs m =
       (Some (wp - length (args_blob (take n argv)),
              map (\<lambda>i. base + of_nat (wp - length (args_blob (drop i (take n argv))))) [0..<n] @ qs),
        mem_put (kp + (wp - length (args_blob (take n argv)))) (args_blob (take n argv)) m)"
proof -
  have "(fst (put_args n argv kp base wp qs m) = None \<longleftrightarrow> wp < length (args_blob (take n argv))) \<and>
    (length (args_blob (take n argv)) \<le> wp \<longrightarrow> put_args n argv kp base wp qs m =
       (Some (wp - length (args_blob (take n argv)),
              map (\<lambda>i. base + of_nat (wp - length (args_blob (drop i (take n argv))))) [0..<n] @ qs),
        mem_put (kp + (wp - length (args_blob (take n argv)))) (args_blob (take n argv)) m))"
    using assms
  proof (induction n arbitrary: wp qs m)
    case 0
    then show ?case by simp
  next
    case (Suc n)
    let ?s = "arg_bytes (argv ! n)"
    let ?wp = "wp - (length ?s + 1)"
    have t: "take (Suc n) argv = take n argv @ [argv ! n]" using Suc.prems by (simp add: take_Suc_conv_app_nth)
    have n: "n \<le> length argv" "length (take n argv) = n" using Suc.prems by simp_all
    note IH = Suc.IH [OF n(1), of ?wp "(base + of_nat ?wp) # qs" "mem_put (kp + ?wp) (?s @ [0]) m"]
    show ?case
    proof (cases "wp < length ?s + 1")
      case True
      then show ?thesis unfolding t by (simp add: Let_def)
    next
      case False
      have d: "wp - length (args_blob (drop i (take n argv) @ [argv ! n])) = ?wp - length (args_blob (drop i (take n argv)))" for i by simp
      have a: "kp + (wp - length (args_blob (take n argv @ [argv ! n]))) + length (args_blob (take n argv)) = kp + ?wp"
        if "length (args_blob (take n argv @ [argv ! n])) \<le> wp" using that by simp
      have m: "mem_put (kp + (?wp - length (args_blob (take n argv)))) (args_blob (take n argv)) (mem_put (kp + ?wp) (?s @ [0]) m) =
          mem_put (kp + (wp - length (args_blob (take n argv @ [argv ! n])))) (args_blob (take n argv @ [argv ! n])) m"
        if h: "length (args_blob (take n argv @ [argv ! n])) \<le> wp"
        using mem_put_append [of "kp + (wp - length (args_blob (take n argv @ [argv ! n])))" "args_blob (take n argv)" "?s @ [0]" m]
        unfolding a [OF h] by (simp add: add.commute)
      have "map (\<lambda>i. base + of_nat (?wp - length (args_blob (drop i (take n argv))))) [0..<n] @ (base + of_nat ?wp) # qs =
          map (\<lambda>i. base + of_nat (wp - length (args_blob (drop i (take (Suc n) argv))))) [0..<Suc n] @ qs"
        unfolding t using n(2) by (simp add: add.commute)
      then show ?thesis using False IH m unfolding t by (auto simp: Let_def)
    qed
  qed
  then show "fst (put_args n argv kp base wp qs m) = None \<longleftrightarrow> wp < length (args_blob (take n argv))"
    "length (args_blob (take n argv)) \<le> wp \<Longrightarrow> put_args n argv kp base wp qs m =
       (Some (wp - length (args_blob (take n argv)),
              map (\<lambda>i. base + of_nat (wp - length (args_blob (drop i (take n argv))))) [0..<n] @ qs),
        mem_put (kp + (wp - length (args_blob (take n argv)))) (args_blob (take n argv)) m)" by blast+
qed

text \<open>A block of 64-bit words in memory.\<close>

lemma concat_enc64: "i < length ws \<Longrightarrow> k < 8 \<Longrightarrow> concat (map enc64 ws) ! (8 * i + k) = enc64 (ws ! i) ! k"
proof (induction ws arbitrary: i)
  case (Cons w ws)
  then show ?case by (cases i) (simp_all add: nth_append)
qed simp

lemma length_concat_enc64 [simp]: "length (concat (map enc64 ws)) = 8 * length ws"
  by (induction ws) auto

lemma le64_block:
  assumes "i < length ws"
  shows "le64 (mem_put a (concat (map enc64 ws)) m) (a + 8 * i) = ws ! i"
proof -
  have "le64 (mem_put a (concat (map enc64 ws)) m) (a + 8 * i) = le64 (mem_put 0 (enc64 (ws ! i)) m) 0"
  proof (rule le64_cong)
    fix k :: nat assume "k < 8"
    then have "8 * i + k < 8 * length ws" using assms by linarith
    then show "mem_put a (concat (map enc64 ws)) m (a + 8 * i + k) = mem_put 0 (enc64 (ws ! i)) m (0 + k)"
      using concat_enc64 [OF assms \<open>k < 8\<close>] \<open>k < 8\<close> by (simp add: mem_put_def add.assoc)
  qed
  then show ?thesis by simp
qed

text \<open>The number of bytes that the arguments and the block below them need.\<close>

definition stack_need :: "nat \<Rightarrow> u8 list option list \<Rightarrow> elf_load_result option \<Rightarrow> nat" where
  "stack_need argc argv result =
     (\<Sum>s\<leftarrow>take argc argv. length (arg_bytes s) + 1) + 8 * (argc + 3 + length (auxv result))"

definition stack_block :: "u64 \<Rightarrow> nat \<Rightarrow> u8 list option list \<Rightarrow> elf_load_result option \<Rightarrow> u64 list" where
  "stack_block base argc argv result =
     of_nat argc # map (\<lambda>i. base + of_nat (PAGE_SIZE - length (args_blob (drop i (take argc argv))))) [0..<argc] @ [0, 0] @ auxv result"

lemma length_args_blob: "length (args_blob ss) = (\<Sum>s\<leftarrow>ss. length (arg_bytes s) + 1)"
  by (induction ss) simp_all

lemma length_auxv: "(case result of None \<Rightarrow> 0 | Some _ \<Rightarrow> 8) * 2 = length (auxv result)"
  by (simp add: auxv_def split: option.split)

lemma setup_stack_eq:
  fixes result :: "elf_load_result option"
  assumes "argc \<le> 32" "argc \<le> length argv"
  defines "wp \<equiv> PAGE_SIZE - length (args_blob (take argc argv))"
  defines "start \<equiv> (wp - 8 * (argc + 3 + length (auxv result))) div 16 * 16"
  shows "stack_need argc argv result \<le> PAGE_SIZE \<Longrightarrow> elf_setup_stack phys base argc argv result m =
     (Some (base + of_nat start, base + of_nat start + 8),
      mem_put (phys + start)
        (concat (map enc64 (stack_block base argc argv result)))
        (mem_put (phys + wp) (args_blob (take argc argv)) m))"
    "fst (elf_setup_stack phys base argc argv result m) = None \<longleftrightarrow> PAGE_SIZE < stack_need argc argv result"
proof -
  note need = stack_need_def [of argc argv result, folded length_args_blob]
  note P = put_args_eq [OF assms(2), where kp = phys and base = base and wp = PAGE_SIZE and qs = "[]" and m = m]
  have b: "(argc + 3 + (case result of None \<Rightarrow> 0 | Some _ \<Rightarrow> 8) * 2) * 8 = 8 * (argc + 3 + length (auxv result))"
    by (simp add: length_auxv)
  have i: "(if 32 < argc then 32 else argc) = argc" using assms(1) by simp
  note el = elf_setup_stack_def [of phys base argc argv result m, unfolded Let_def i b]
  have e: "elf_setup_stack phys base argc argv result m =
     (Some (base + of_nat start, base + of_nat start + 8),
      mem_put (phys + start)
        (concat (map enc64 (stack_block base argc argv result)))
        (mem_put (phys + wp) (args_blob (take argc argv)) m))" if "stack_need argc argv result \<le> PAGE_SIZE"
  proof -
    have l: "length (args_blob (take argc argv)) \<le> PAGE_SIZE" "\<not> wp < 8 * (argc + 3 + length (auxv result))"
      using that by (auto simp: need wp_def)
    show ?thesis using l(2) unfolding el P(2) [OF l(1), folded wp_def] start_def stack_block_def by simp
  qed
  then show "stack_need argc argv result \<le> PAGE_SIZE \<Longrightarrow> elf_setup_stack phys base argc argv result m =
     (Some (base + of_nat start, base + of_nat start + 8),
      mem_put (phys + start)
        (concat (map enc64 (stack_block base argc argv result)))
        (mem_put (phys + wp) (args_blob (take argc argv)) m))" .
  have "fst (elf_setup_stack phys base argc argv result m) = None" if h: "PAGE_SIZE < stack_need argc argv result"
  proof (cases "length (args_blob (take argc argv)) \<le> PAGE_SIZE")
    case True
    have "wp < 8 * (argc + 3 + length (auxv result))" using h True by (auto simp: need wp_def)
    then show ?thesis unfolding el P(2) [OF True, folded wp_def] by simp
  next
    case False
    then obtain m' where "put_args argc argv phys base PAGE_SIZE [] m = (None, m')" using P(1) by (metis not_le prod.collapse)
    then show ?thesis unfolding el by simp
  qed
  then show "fst (elf_setup_stack phys base argc argv result m) = None \<longleftrightarrow> PAGE_SIZE < stack_need argc argv result"
    using e by (cases "stack_need argc argv result \<le> PAGE_SIZE") auto
qed

text \<open>The word and the bytes at a user address of the stack page, which is mapped at \<open>base\<close>.\<close>

definition stack_word :: "mem \<Rightarrow> nat \<Rightarrow> u64 \<Rightarrow> u64 \<Rightarrow> u64" where
  "stack_word m phys base v = le64 m (phys + unat (v - base))"

definition stack_bytes :: "mem \<Rightarrow> nat \<Rightarrow> u64 \<Rightarrow> u64 \<Rightarrow> nat \<Rightarrow> u8 list" where
  "stack_bytes m phys base v n = map (\<lambda>k. m (phys + unat (v - base) + k)) [0..<n]"

lemma put_args_frame: "x < kp \<or> kp + wp \<le> x \<Longrightarrow> snd (put_args n argv kp base wp qs m) x = m x"
proof (induction n arbitrary: wp qs m)
  case (Suc n)
  let ?s = "arg_bytes (argv ! n) @ [0]"
  have "mem_put (kp + (wp - length ?s)) ?s m x = m x" if "length ?s \<le> wp" using Suc.prems that by (intro mem_put_out) auto
  with Suc show ?case by (auto simp: Let_def)
qed simp

lemma setup_stack_frame:
  assumes "argc \<le> 32" "argc \<le> length argv" "x < phys \<or> phys + PAGE_SIZE \<le> x"
  shows "snd (elf_setup_stack phys base argc argv result m) x = m x"
proof (cases "stack_need argc argv result \<le> PAGE_SIZE")
  case True
  have l: "length (stack_block base argc argv result) = argc + 3 + length (auxv result)" by (simp add: stack_block_def)
  have "length (args_blob (take argc argv)) + 8 * (argc + 3 + length (auxv result)) \<le> PAGE_SIZE"
    using True by (simp add: stack_need_def length_args_blob)
  moreover have "(w div 16 * 16 :: nat) \<le> w" for w by simp
  ultimately show ?thesis
    using assms(3) unfolding setup_stack_eq(1) [OF assms(1,2) True] snd_conv length_concat_enc64 l
    by (subst mem_put_out, force simp: l, subst mem_put_out) auto
next
  case False
  have "\<exists>m'. elf_setup_stack phys base argc argv result m = (None, m') \<and> m' = snd (put_args argc argv phys base PAGE_SIZE [] m)"
    using False setup_stack_eq(2) [OF assms(1,2), of phys base result m] assms(1)
    by (auto simp: elf_setup_stack_def Let_def not_le split: prod.splits option.splits if_splits)
  then show ?thesis using put_args_frame [of x phys PAGE_SIZE] assms(3) by auto
qed

text \<open>The string of argument \<open>i\<close> inside the block of strings.\<close>

lemma blob_arg:
  assumes "i < argc" "argc \<le> length argv" "k < length (arg_bytes (argv ! i) @ [0])"
  shows "args_blob (take argc argv) ! (length (args_blob (take i argv)) + k) = (arg_bytes (argv ! i) @ [0]) ! k"
    "length (args_blob (take argc argv)) = length (args_blob (take i argv)) + length (args_blob (drop i (take argc argv)))"
    "length (arg_bytes (argv ! i)) < length (args_blob (drop i (take argc argv)))"
proof -
  have d: "drop i (take argc argv) = argv ! i # drop (Suc i) (take argc argv)"
    using assms by (subst Cons_nth_drop_Suc [symmetric]) auto
  have t: "take argc argv = take i argv @ drop i (take argc argv)"
    using assms append_take_drop_id [of i "take argc argv"] by (simp add: min_def)
  then show "length (args_blob (take argc argv)) = length (args_blob (take i argv)) + length (args_blob (drop i (take argc argv)))"
    by (metis args_blob_append(1) length_append)
  show "length (arg_bytes (argv ! i)) < length (args_blob (drop i (take argc argv)))" unfolding d by simp
  have "args_blob (take argc argv) = args_blob (take i argv) @ (arg_bytes (argv ! i) @ [0]) @ args_blob (drop (Suc i) (take argc argv))"
    by (subst t, subst d) simp
  then show "args_blob (take argc argv) ! (length (args_blob (take i argv)) + k) = (arg_bytes (argv ! i) @ [0]) ! k"
    using assms(3) by (simp add: nth_append)
qed

text \<open>
  C15 The error path of \<^verbatim>\<open>elf_setup_stack\<close>: it fails exactly when the argument strings, the pointers
  to them, the two terminators and the auxiliary vector need more than a page, and whatever the
  outcome it writes nothing outside the stack page.
\<close>

theorem elf_setup_stack_fails_iff:
  assumes "argc \<le> 32" "argc \<le> length argv"
  shows "(fst (elf_setup_stack phys base argc argv result m) = None \<longleftrightarrow> PAGE_SIZE < stack_need argc argv result) \<and>
    (\<forall>x. x < phys \<or> phys + PAGE_SIZE \<le> x \<longrightarrow> snd (elf_setup_stack phys base argc argv result m) x = m x)"
  using setup_stack_eq(2) [OF assms] setup_stack_frame [OF assms] by blast

theorem elf_setup_stack_fails_iff_witness:
  "fst (elf_setup_stack 0x5000 0x7FFFFF000 17 (replicate 17 (Some (replicate 255 0x61))) None (\<lambda>_. 0)) = None \<and>
   fst (elf_setup_stack 0x5000 0x7FFFFF000 15 (replicate 15 (Some (replicate 255 0x61))) None (\<lambda>_. 0)) \<noteq> None"
proof -
  have a: "arg_bytes (Some (replicate 255 0x61)) = replicate 255 0x61" by (simp add: arg_bytes_def takeWhile_replicate)
  have "stack_need n (replicate n (Some (replicate 255 0x61))) None = n * 256 + 8 * (n + 3)" for n
    by (simp add: stack_need_def a auxv_def sum_list_replicate)
  then show ?thesis
    using elf_setup_stack_fails_iff [of 17 "replicate 17 (Some (replicate 255 0x61))" "0x5000" "0x7FFFFF000" None "\<lambda>_. 0"]
      elf_setup_stack_fails_iff [of 15 "replicate 15 (Some (replicate 255 0x61))" "0x5000" "0x7FFFFF000" None "\<lambda>_. 0"]
    by (simp add: PAGE_SIZE_def)
qed

lemma page_offset:
  fixes base :: u64
  assumes "unat base mod 4096 = 0" "k < 4096"
  shows "unat (base + of_nat k - base) = k" "unat (base + of_nat k) = unat base + k"
proof -
  show "unat (base + of_nat k - base) = k" using assms(2) by (simp add: unat_of_nat take_bit_nat_eq_self)
  have "unat base div 4096 < 2 ^ 52" using unsigned_less [of base] by (simp add: div_less_iff_less_mult)
  moreover have "unat base = unat base div 4096 * 4096" using assms(1) by auto
  ultimately have "unat base + 4096 \<le> 2 ^ 64" by simp
  then show "unat (base + of_nat k) = unat base + k" using assms(2) by (intro unat_plus_nat) simp
qed

text \<open>
  C14 A program finds its arguments: when \<^verbatim>\<open>elf_setup_stack\<close> succeeds, the stack pointer is aligned
  to 16 bytes and points to \<^verbatim>\<open>argc\<close>; behind it lie \<^verbatim>\<open>argc\<close> pointers into the page, each to its
  argument as a terminated string, a null pointer, an empty environment and the auxiliary vector.
\<close>

theorem elf_setup_stack_passes_args:
  assumes "argc \<le> 32" "argc \<le> length argv" "unat base mod 4096 = 0"
    "elf_setup_stack phys base argc argv result m = (Some (rsp, argvp), m')"
  shows "unat rsp mod 16 = 0 \<and> argvp = rsp + 8 \<and> stack_word m' phys base rsp = of_nat argc \<and>
    (\<forall>i<argc. \<exists>p. stack_word m' phys base (argvp + of_nat (8 * i)) = p \<and> base \<le> p \<and>
       unat p + length (arg_bytes (argv ! i)) < unat base + 4096 \<and>
       stack_bytes m' phys base p (length (arg_bytes (argv ! i)) + 1) = arg_bytes (argv ! i) @ [0]) \<and>
    (\<forall>k<length ([0, 0] @ auxv result). stack_word m' phys base (argvp + of_nat (8 * (argc + k))) = ([0, 0] @ auxv result) ! k)"
proof -
  let ?T = "args_blob (take argc argv)"
  let ?B = "stack_block base argc argv result"
  define wp where "wp = PAGE_SIZE - length ?T"
  define start where "start = (wp - 8 * (argc + 3 + length (auxv result))) div 16 * 16"
  have need: "stack_need argc argv result \<le> PAGE_SIZE"
    using setup_stack_eq(2) [OF assms(1,2), of phys base result m] assms(4) by (simp add: not_less)
  then have fit: "length ?T + 8 * (argc + 3 + length (auxv result)) \<le> 4096"
    by (simp add: stack_need_def length_args_blob PAGE_SIZE_def)
  have st: "start + 8 * (argc + 3 + length (auxv result)) \<le> wp" "wp + length ?T = 4096" "start mod 16 = 0"
    using fit by (auto simp: start_def wp_def PAGE_SIZE_def intro: le_trans [OF add_right_mono [OF div_times_less_eq_dividend]])
  have lt: "start < 4096" using st(1,2) by (simp add: distrib_left)
  have R: "rsp = base + of_nat start" "argvp = base + of_nat start + 8"
    "m' = mem_put (phys + start) (concat (map enc64 ?B)) (mem_put (phys + wp) ?T m)"
    using setup_stack_eq(1) [OF assms(1,2) need, of phys base m] assms(4) by (simp_all add: wp_def start_def)
  have lB: "length ?B = argc + 3 + length (auxv result)" by (simp add: stack_block_def)
  have word: "stack_word m' phys base (base + of_nat (start + 8 * j)) = ?B ! j" if "j < length ?B" for j
  proof -
    have "start + 8 * j < start + 8 * length ?B" using that by simp
    then have "start + 8 * j < 4096" using st(1,2) unfolding lB by linarith
    then have "unat (base + of_nat (start + 8 * j) - base) = start + 8 * j" by (intro page_offset(1) [OF assms(3)])
    then show ?thesis using le64_block [OF that, of "phys + start"] by (simp only: stack_word_def R(3) add.assoc)
  qed
  have av: "argvp + of_nat (8 * i) = base + of_nat (start + 8 * Suc i)" for i by (simp add: R(2) algebra_simps)
  have "unat rsp mod 16 = 0"
  proof -
    have "unat rsp = unat base + start" unfolding R(1) using lt by (intro page_offset(2) [OF assms(3)])
    moreover have "unat base mod 16 = 0" using mod_mod_cancel [of 16 4096 "unat base"] assms(3) by simp
    ultimately show ?thesis using st(3) by (simp add: mod_add_eq [symmetric])
  qed
  moreover have "stack_word m' phys base rsp = of_nat argc" using word [of 0] lB by (simp add: R(1) stack_block_def)
  moreover have "\<exists>p. stack_word m' phys base (argvp + of_nat (8 * i)) = p \<and> base \<le> p \<and>
       unat p + length (arg_bytes (argv ! i)) < unat base + 4096 \<and>
       stack_bytes m' phys base p (length (arg_bytes (argv ! i)) + 1) = arg_bytes (argv ! i) @ [0]" if i: "i < argc" for i
  proof -
    let ?D = "length (args_blob (drop i (take argc argv)))"
    note D = blob_arg(2,3) [OF i assms(2), of 0, simplified]
    define p where "p = base + of_nat (4096 - ?D)"
    have lt: "4096 - ?D < 4096" using D(2) by simp
    have e: "stack_word m' phys base (argvp + of_nat (8 * i)) = p"
      using word [of "Suc i"] i lB unfolding av by (simp add: stack_block_def nth_append p_def PAGE_SIZE_def)
    have u: "unat (p - base) = 4096 - ?D" "unat p = unat base + (4096 - ?D)"
      unfolding p_def by (rule page_offset [OF assms(3) lt])+
    have pos: "4096 - ?D = wp + length (args_blob (take i argv))" using D(1) st(2) by linarith
    have "stack_bytes m' phys base p (length (arg_bytes (argv ! i)) + 1) = arg_bytes (argv ! i) @ [0]"
    proof (rule nth_equalityI)
      fix k assume "k < length (stack_bytes m' phys base p (length (arg_bytes (argv ! i)) + 1))"
      then have k: "k < length (arg_bytes (argv ! i) @ [0])" by (simp add: stack_bytes_def)
      have x: "phys + unat (p - base) + k = phys + wp + (length (args_blob (take i argv)) + k)" by (simp add: u pos)
      have "m' (phys + unat (p - base) + k) = ?T ! (length (args_blob (take i argv)) + k)"
        unfolding R(3) x using D k st(1) lB by (subst mem_put_out, force, subst mem_put_in) auto
      then show "stack_bytes m' phys base p (length (arg_bytes (argv ! i)) + 1) ! k = (arg_bytes (argv ! i) @ [0]) ! k"
        using blob_arg(1) [OF i assms(2) k] k by (simp add: stack_bytes_def del: upt_Suc)
    qed (simp add: stack_bytes_def)
    moreover have "?D \<le> 4096" using D(1) st(2) by linarith
    moreover have "base \<le> p \<and> unat p + length (arg_bytes (argv ! i)) < unat base + 4096"
      unfolding word_le_nat_alt u(2) using D(2) \<open>?D \<le> 4096\<close> by linarith
    ultimately show ?thesis using e by blast
  qed
  moreover have "stack_word m' phys base (argvp + of_nat (8 * (argc + k))) = ([0, 0] @ auxv result) ! k"
    if "k < length ([0, 0] @ auxv result)" for k
    using word [of "Suc (argc + k)"] that lB unfolding av by (simp add: stack_block_def nth_append)
  ultimately show ?thesis using R(1,2) by blast
qed

theorem elf_setup_stack_passes_args_witness:
  "\<exists>rsp argvp m'. elf_setup_stack 0x5000 0x7FFFFF000 2 [Some [0x6C, 0x73], Some [0x2D, 0x6C]] None (\<lambda>_. 0) = (Some (rsp, argvp), m') \<and>
     stack_word m' 0x5000 0x7FFFFF000 rsp = 2 \<and>
     stack_bytes m' 0x5000 0x7FFFFF000 (stack_word m' 0x5000 0x7FFFFF000 (argvp + 8)) 3 = [0x2D, 0x6C, 0]"
proof -
  let ?argv = "[Some [0x6C, 0x73], Some [0x2D, 0x6C]] :: u8 list option list"
  have "stack_need 2 ?argv None \<le> PAGE_SIZE" by (simp add: stack_need_def arg_bytes_def auxv_def PAGE_SIZE_def)
  then obtain rsp argvp m' where e: "elf_setup_stack 0x5000 0x7FFFFF000 2 ?argv None (\<lambda>_. 0) = (Some (rsp, argvp), m')"
    using setup_stack_eq(1) [of 2 ?argv None "0x5000" "0x7FFFFF000" "\<lambda>_. 0"] by simp
  have "unat (0x7FFFFF000 :: u64) mod 4096 = 0" by simp
  then have P: "stack_word m' 0x5000 0x7FFFFF000 rsp = of_nat 2 \<and>
      (\<forall>i<2. \<exists>p. stack_word m' 0x5000 0x7FFFFF000 (argvp + of_nat (8 * i)) = p \<and>
         stack_bytes m' 0x5000 0x7FFFFF000 p (length (arg_bytes (?argv ! i)) + 1) = arg_bytes (?argv ! i) @ [0])"
    using elf_setup_stack_passes_args [OF _ _ _ e] by auto
  from P [THEN conjunct2, rule_format, of 1]
  have "stack_bytes m' 0x5000 0x7FFFFF000 (stack_word m' 0x5000 0x7FFFFF000 (argvp + 8)) 3 = [0x2D, 0x6C, 0]"
    by (simp add: arg_bytes_def numeral_3_eq_3)
  then show ?thesis using e P by auto
qed

end
