(* ===== verification/Tty.thy ===== *)
theory Tty
  imports Pipe VgaSpec
begin

text \<open>
  The terminal (\<^verbatim>\<open>kernel/drivers/tty.c\<close>): line editing of keyboard input with echo on the console,
  signals for control characters, and reads that block until a line is complete. The state is the
  terminal, the console it echoes to and the scheduler it wakes readers with. As for pipes, one call
  of \<open>tty_read\<close> is one turn of its wait loop.
\<close>

section \<open>Operations\<close>

record tty =
  tty_input_buf :: "u8 list"
  tty_input_len :: nat
  tty_read_buf :: "u8 list"
  tty_read_pos :: nat
  tty_read_len :: nat
  tty_flags :: u32
  tty_fg_pid :: u32
  tty_blocked_reader :: "nat option"

record terminal =
  console_tty :: tty
  con_vga :: vga
  con_sched :: sched

definition upd_tty :: "(tty \<Rightarrow> tty) \<Rightarrow> terminal \<Rightarrow> terminal" where
  "upd_tty f s = s\<lparr>console_tty := f (console_tty s)\<rparr>"

text \<open>\<^verbatim>\<open>TTY_CANON\<close> is 1 and \<^verbatim>\<open>TTY_ECHO\<close> is 2.\<close>

definition tty_init :: "terminal \<Rightarrow> terminal" where
  "tty_init s = s\<lparr>console_tty := \<lparr>tty_input_buf = replicate 256 0, tty_input_len = 0, tty_read_buf = replicate 256 0,
     tty_read_pos = 0, tty_read_len = 0, tty_flags = 1 OR 2, tty_fg_pid = 0, tty_blocked_reader = None\<rparr>\<rparr>"

definition tty_echo :: "u8 \<Rightarrow> terminal \<Rightarrow> terminal" where
  "tty_echo c s = (if tty_flags (console_tty s) AND 2 \<noteq> 0 then s\<lparr>con_vga := vga_putchar c (con_vga s)\<rparr> else s)"

text \<open>Control-C and control-Z: a signal to the foreground process, if there is one.\<close>

definition tty_signal :: "nat \<Rightarrow> terminal \<Rightarrow> terminal" where
  "tty_signal sig s =
     (if tty_fg_pid (console_tty s) \<noteq> 0
      then s\<lparr>con_sched := signal_send (tty_fg_pid (console_tty s)) (int sig) (con_sched s)\<rparr> else s)"

definition tty_newline :: "terminal \<Rightarrow> terminal" where
  "tty_newline s =
     (let s1 = tty_echo 0x0A s;
          n = tty_input_len (console_tty s1);
          s2 = upd_tty (\<lambda>t. t\<lparr>tty_read_buf := (blit (tty_read_buf t) 0 (take n (tty_input_buf t)))[n := 0x0A],
                 tty_read_len := n + 1, tty_read_pos := 0, tty_input_len := 0\<rparr>) s1
      in case tty_blocked_reader (console_tty s2) of
           None \<Rightarrow> s2
         | Some reader \<Rightarrow>
             (let s3 = upd_tty (\<lambda>t. t\<lparr>tty_blocked_reader := None\<rparr>) s2
              in s3\<lparr>con_sched := scheduler_add reader (set_state reader PROCESS_READY (con_sched s3))\<rparr>))"

definition tty_input_char :: "u8 \<Rightarrow> terminal \<Rightarrow> terminal" where
  "tty_input_char c s =
     (if c = 3 then tty_signal SIGINT s
      else if c = 26 then tty_signal SIGTSTP s
      else if c = 8 then
        (if tty_input_len (console_tty s) > 0
         then tty_echo 8 (upd_tty (\<lambda>t. t\<lparr>tty_input_len := tty_input_len t - 1\<rparr>) s) else s)
      else if c = 0x0A then tty_newline s
      else if c \<ge> 0x20 \<and> c \<le> 0x7E then
        (if tty_input_len (console_tty s) < 256 - 1
         then tty_echo c (upd_tty (\<lambda>t. t\<lparr>tty_input_buf := (tty_input_buf t)[tty_input_len t := c],
                tty_input_len := tty_input_len t + 1\<rparr>) s)
         else s)
      else s)"

definition tty_readable :: "terminal \<Rightarrow> bool" where
  "tty_readable s \<longleftrightarrow> tty_read_len (console_tty s) > 0 \<and> tty_read_pos (console_tty s) < tty_read_len (console_tty s)"

definition tty_read :: "nat \<Rightarrow> terminal \<Rightarrow> (int \<times> u8 list) outcome \<times> terminal" where
  "tty_read count s =
     (let t = console_tty s in
      if tty_read_len t = 0 \<or> tty_read_pos t \<ge> tty_read_len t
      then (Blocks, (upd_tty (\<lambda>t. t\<lparr>tty_blocked_reader := current_process (con_sched s)\<rparr>) s)
              \<lparr>con_sched := block_current (con_sched s)\<rparr>)
      else
        (let avail = tty_read_len t - tty_read_pos t;
             to_copy = (if count < avail then count else avail);
             data = take to_copy (drop (tty_read_pos t) (tty_read_buf t));
             s1 = upd_tty (\<lambda>t. t\<lparr>tty_read_pos := tty_read_pos t + to_copy\<rparr>) s
         in (Returns (int to_copy, data),
             if tty_read_pos (console_tty s1) \<ge> tty_read_len (console_tty s1)
             then upd_tty (\<lambda>t. t\<lparr>tty_read_pos := 0, tty_read_len := 0\<rparr>) s1 else s1)))"

definition tty_write :: "u8 list \<Rightarrow> terminal \<Rightarrow> int \<times> terminal" where
  "tty_write buf s = (int32 (length buf), s\<lparr>con_vga := fold vga_putchar buf (con_vga s)\<rparr>)"

definition tty_set_fg :: "u32 \<Rightarrow> terminal \<Rightarrow> terminal" where
  "tty_set_fg pid = upd_tty (\<lambda>t. t\<lparr>tty_fg_pid := pid\<rparr>)"

definition tty_get_fg :: "terminal \<Rightarrow> u32" where
  "tty_get_fg s = tty_fg_pid (console_tty s)"

section \<open>Line editing\<close>

text \<open>The line a sequence of keys stands for: printable characters, with backspace taking one back.\<close>

definition edit_key :: "u8 \<Rightarrow> u8 list \<Rightarrow> u8 list" where
  "edit_key c line =
     (if c = 8 then butlast line
      else if c \<ge> 0x20 \<and> c \<le> 0x7E \<and> length line < 255 then line @ [c] else line)"

definition edit_line :: "u8 list \<Rightarrow> u8 list" where
  "edit_line keys = fold edit_key keys []"

definition tty_ok :: "tty \<Rightarrow> bool" where
  "tty_ok t \<longleftrightarrow> length (tty_input_buf t) = 256 \<and> length (tty_read_buf t) = 256 \<and> tty_input_len t \<le> 255 \<and>
     tty_read_len t \<le> 256 \<and> tty_read_pos t \<le> tty_read_len t"

definition typed :: "tty \<Rightarrow> u8 list" where
  "typed t = take (tty_input_len t) (tty_input_buf t)"

definition pending :: "tty \<Rightarrow> u8 list" where
  "pending t = take (tty_read_len t - tty_read_pos t) (drop (tty_read_pos t) (tty_read_buf t))"

lemma echo_frame [simp]: "console_tty (tty_echo c s) = console_tty s" "con_sched (tty_echo c s) = con_sched s"
  by (simp_all add: tty_echo_def)

lemma signal_frame [simp]: "console_tty (tty_signal sig s) = console_tty s"
  by (simp add: tty_signal_def)

lemma upd_tty_frame [simp]: "console_tty (upd_tty f s) = f (console_tty s)" "con_vga (upd_tty f s) = con_vga s" "con_sched (upd_tty f s) = con_sched s"
  by (simp_all add: upd_tty_def)

lemma length_typed: "tty_ok t \<Longrightarrow> length (typed t) = tty_input_len t"
  by (simp add: typed_def tty_ok_def)

lemma input_char_edits:
  assumes "tty_ok (console_tty s)" "c \<noteq> 0x0A"
  defines "t \<equiv> console_tty (tty_input_char c s)"
  shows "tty_ok t" "typed t = edit_key c (typed (console_tty s))" "pending t = pending (console_tty s)"
    "tty_blocked_reader t = tty_blocked_reader (console_tty s)"
proof -
  define u where "u = console_tty s"
  have u: "tty_ok u" "length (typed u) = tty_input_len u" using assms(1) by (simp_all add: u_def length_typed)
  consider "c = 8" | "c \<noteq> 8" "c \<ge> 0x20 \<and> c \<le> 0x7E" | "c \<noteq> 8" "\<not> (c \<ge> 0x20 \<and> c \<le> 0x7E)" by blast
  then have "tty_ok t \<and> typed t = edit_key c (typed u) \<and> pending t = pending u \<and> tty_blocked_reader t = tty_blocked_reader u"
  proof cases
    case 1
    then show ?thesis using u
      by (cases "tty_input_len u > 0")
        (auto simp: t_def tty_input_char_def edit_key_def tty_ok_def typed_def pending_def u_def butlast_take)
  next
    case 2
    then have "c \<noteq> 3" "c \<noteq> 26" by auto
    then show ?thesis using u 2 assms(2)
      by (cases "tty_input_len u < 255")
        (auto simp: t_def tty_input_char_def edit_key_def tty_ok_def typed_def pending_def u_def take_Suc_conv_app_nth)
  next
    case 3
    then show ?thesis using u assms(2) by (auto simp: t_def tty_input_char_def edit_key_def u_def)
  qed
  then show "tty_ok t" "typed t = edit_key c (typed (console_tty s))" "pending t = pending (console_tty s)"
    "tty_blocked_reader t = tty_blocked_reader (console_tty s)" by (simp_all add: u_def)
qed

lemma input_chars_edit:
  "tty_ok (console_tty s) \<Longrightarrow> 0x0A \<notin> set keys \<Longrightarrow>
   tty_ok (console_tty (fold tty_input_char keys s)) \<and>
   typed (console_tty (fold tty_input_char keys s)) = fold edit_key keys (typed (console_tty s))"
proof (induction keys arbitrary: s)
  case (Cons c keys)
  then have "c \<noteq> 0x0A" by auto
  note I = input_char_edits [OF Cons.prems(1) this]
  from Cons.IH [OF I(1)] Cons.prems(2) I(2) show ?case by simp
qed simp

lemma newline_completes:
  assumes "tty_ok (console_tty s)"
  defines "t \<equiv> console_tty (tty_newline s)"
  shows "tty_ok t" "pending t = typed (console_tty s) @ [0x0A]" "typed t = []" "tty_read_pos t = 0"
proof -
  define n where "n = tty_input_len (console_tty s)"
  have n: "n \<le> 255" "length (tty_read_buf (console_tty s)) = 256" "length (tty_input_buf (console_tty s)) = 256"
    using assms(1) by (simp_all add: n_def tty_ok_def)
  have f: "tty_input_len t = 0" "tty_read_len t = n + 1" "tty_read_pos t = 0" "tty_input_buf t = tty_input_buf (console_tty s)"
    "tty_read_buf t = (blit (tty_read_buf (console_tty s)) 0 (take n (tty_input_buf (console_tty s))))[n := 0x0A]"
    by (simp_all add: t_def tty_newline_def Let_def n_def split: option.split)
  show "tty_ok t" using n by (simp add: tty_ok_def f)
  show "typed t = []" "tty_read_pos t = 0" by (simp_all add: typed_def f)
  show "pending t = typed (console_tty s) @ [0x0A]"
    using n by (simp add: pending_def f typed_def n_def [symmetric] blit_def take_Suc_conv_app_nth)
qed

text \<open>A read takes the bytes off the front of the completed line.\<close>

lemma read_takes_front:
  assumes "tty_ok (console_tty s)" "pending (console_tty s) \<noteq> []"
  shows "fst (tty_read count s) = Returns (int (min count (length (pending (console_tty s)))), take count (pending (console_tty s)))"
    "pending (console_tty (snd (tty_read count s))) = drop count (pending (console_tty s))"
    "tty_ok (console_tty (snd (tty_read count s)))"
proof -
  define t where "t = console_tty s"
  have lp: "length (pending t) = tty_read_len t - tty_read_pos t" using assms(1) by (auto simp: pending_def tty_ok_def t_def)
  then have nb: "\<not> (tty_read_len t = 0 \<or> tty_read_pos t \<ge> tty_read_len t)" using assms(2) by (auto simp: t_def pending_def)
  show "fst (tty_read count s) = Returns (int (min count (length (pending (console_tty s)))), take count (pending (console_tty s)))"
    using nb lp by (auto simp: tty_read_def Let_def t_def [symmetric] pending_def min_def)
  show "pending (console_tty (snd (tty_read count s))) = drop count (pending (console_tty s))"
    using nb lp by (auto simp: tty_read_def Let_def t_def [symmetric] pending_def drop_take ac_simps)
  show "tty_ok (console_tty (snd (tty_read count s)))"
    using nb assms(1) by (auto simp: tty_read_def Let_def t_def [symmetric] tty_ok_def)
qed

text \<open>
  C17 What is typed is what is read: whatever keys are pressed on an empty input line, when the line
  is finished with enter, reads of any sizes return the edited line with its newline, in order, and
  nothing else; every read of at least one byte returns until the line is used up.
\<close>

theorem tty_line_is_read_back:
  assumes "tty_ok (console_tty s)" "typed (console_tty s) = []" "0x0A \<notin> set keys"
    and "t = fold tty_input_char (keys @ [0x0A]) s" "sum_list cs \<le> length (edit_line keys)"
  shows "fst (tty_read c (fold (\<lambda>n s. snd (tty_read n s)) cs t)) =
     (let rest = drop (sum_list cs) (edit_line keys @ [0x0A]) in Returns (int (min c (length rest)), take c rest))"
proof -
  have step: "tty_input_char 0x0A u = tty_newline u" for u by (simp add: tty_input_char_def)
  from input_chars_edit [OF assms(1,3)] assms(2)
  have K: "tty_ok (console_tty (fold tty_input_char keys s))" "typed (console_tty (fold tty_input_char keys s)) = edit_line keys"
    by (simp_all add: edit_line_def)
  have T: "tty_ok (console_tty t)" "pending (console_tty t) = edit_line keys @ [0x0A]"
    using newline_completes [OF K(1)] K(2) by (simp_all add: assms(4) step)
  have "tty_ok (console_tty (fold (\<lambda>n s. snd (tty_read n s)) cs u)) \<and>
      pending (console_tty (fold (\<lambda>n s. snd (tty_read n s)) cs u)) = drop (sum_list cs) (pending (console_tty u))"
    if "tty_ok (console_tty u)" "sum_list cs < length (pending (console_tty u))" for u cs
    using that
  proof (induction cs arbitrary: u)
    case (Cons n cs)
    have "pending (console_tty u) \<noteq> []" using Cons.prems(2) by auto
    note R = read_takes_front [OF Cons.prems(1) this, of n]
    from Cons.IH [of "snd (tty_read n u)"] R(2,3) Cons.prems(2) show ?case by (simp add: add.commute)
  qed simp
  from this [of t cs] T assms(5)
  have "tty_ok (console_tty (fold (\<lambda>n s. snd (tty_read n s)) cs t))"
    "pending (console_tty (fold (\<lambda>n s. snd (tty_read n s)) cs t)) = drop (sum_list cs) (edit_line keys @ [0x0A])" by simp_all
  then show ?thesis using read_takes_front(1) [of "fold (\<lambda>n s. snd (tty_read n s)) cs t" c] assms(5) by (simp add: Let_def)
qed

definition demo_terminal :: terminal where
  "demo_terminal = tty_init \<lparr>console_tty = \<lparr>tty_input_buf = [], tty_input_len = 0, tty_read_buf = [], tty_read_pos = 0,
     tty_read_len = 0, tty_flags = 0, tty_fg_pid = 0, tty_blocked_reader = None\<rparr>, con_vga = dark_vga, con_sched = demo_sched\<rparr>"

theorem tty_line_is_read_back_witness:
  "fst (tty_read 9 (snd (tty_read 1 (fold tty_input_char ([0x6C, 0x78, 8, 0x73] @ [0x0A]) demo_terminal)))) = Returns (2, [0x73, 0x0A])"
proof -
  have ok: "tty_ok (console_tty demo_terminal)" "typed (console_tty demo_terminal) = []"
    by (simp_all add: demo_terminal_def tty_init_def tty_ok_def typed_def)
  have e: "edit_line [0x6C, 0x78, 8, 0x73] = [0x6C, 0x73]" by (simp add: edit_line_def edit_key_def)
  from tty_line_is_read_back [OF ok _ refl, of "[0x6C, 0x78, 8, 0x73]" "[1]" 9] show ?thesis by (simp add: e)
qed

end
