(* ===== verification/Kernel.thy ===== *)
theory Kernel
  imports Mmap NetRx KHeap Tty
begin

text \<open>
  The kernel as a whole: the record \<open>kernel\<close> joins the state of memory, network, terminal, kernel heap and
  the objects allocated on it. The operations here are those that tie the components together: process
  creation and reaping (\<^verbatim>\<open>kernel/process/process.c\<close>), event polling (\<^verbatim>\<open>kernel/fs/epoll.c\<close>,
  \<^verbatim>\<open>poll.c\<close>), the timer tick (\<^verbatim>\<open>kernel/scheduler/scheduler.c\<close>), permission checks
  (\<^verbatim>\<open>kernel/security/cred.c\<close>) and the system calls on processes and descriptors
  (\<^verbatim>\<open>kernel/syscall/syscall.c\<close>).

  There is one scheduler state; it is the field of the memory state, and the functions
  \<open>on_net\<close> and \<open>on_term\<close> lend it to the other components. A pointer to a pipe is the address of the
  structure in the kernel heap. An operation that walks the free list of the heap returns an option:
  \<open>None\<close> would be a walk that does not end.
\<close>

section \<open>State\<close>

record epoll_watch =
  ew_fd :: int
  ew_events :: u32
  ew_data :: u64
  ew_et_reported :: bool

record epoll_instance =
  ep_in_use :: bool
  ep_owner_pid :: u32
  ep_watches :: "epoll_watch list"
  ep_watch_count :: nat

record kernel =
  k_vm :: vm
  k_net :: net
  k_term :: terminal
  k_heap :: kheap
  k_pipes :: "nat \<Rightarrow> pipe option"
  epoll_pool :: "epoll_instance list"
  kstack_free_list :: "nat list"
  k_frames :: "u64 \<Rightarrow> interrupt_frame option"

abbreviation k_sched :: "kernel \<Rightarrow> sched" where
  "k_sched k \<equiv> vm_sched (k_vm k)"

abbreviation k_proc :: "kernel \<Rightarrow> nat \<Rightarrow> process" where
  "k_proc k i \<equiv> procs (k_sched k) ! i"

definition on_vm :: "(vm \<Rightarrow> vm) \<Rightarrow> kernel \<Rightarrow> kernel" where
  "on_vm f k = k\<lparr>k_vm := f (k_vm k)\<rparr>"

definition on_sched :: "(sched \<Rightarrow> sched) \<Rightarrow> kernel \<Rightarrow> kernel" where
  "on_sched f = on_vm (\<lambda>v. v\<lparr>vm_sched := f (vm_sched v)\<rparr>)"

definition upd_kproc :: "nat \<Rightarrow> (process \<Rightarrow> process) \<Rightarrow> kernel \<Rightarrow> kernel" where
  "upd_kproc i f = on_sched (upd_proc i f)"

definition on_net :: "(net \<Rightarrow> net) \<Rightarrow> kernel \<Rightarrow> kernel" where
  "on_net f k =
     (let n = f ((k_net k)\<lparr>net_sched := k_sched k\<rparr>) in on_sched (\<lambda>_. net_sched n) (k\<lparr>k_net := n\<rparr>))"

definition set_pipe :: "nat \<Rightarrow> pipe option \<Rightarrow> kernel \<Rightarrow> kernel" where
  "set_pipe a po k = k\<lparr>k_pipes := (k_pipes k)(a := po)\<rparr>"

section \<open>Kernel stacks and processes\<close>

text \<open>\<^verbatim>\<open>kstack_free_list\<close> holds the entries below \<^verbatim>\<open>kstack_free_count\<close>, the last one first.\<close>

definition process_alloc_kernel_stack :: "kernel \<Rightarrow> (nat \<times> kernel) option" where
  "process_alloc_kernel_stack k =
     (case kstack_free_list k of
        g # gs \<Rightarrow> Some (g, k\<lparr>kstack_free_list := gs\<rparr>)
      | [] \<Rightarrow> do {
          (p, h) \<leftarrow> kmalloc_page_aligned (PAGE_SIZE + PROCESS_STACK_SIZE) (k_heap k);
          Some (p, k\<lparr>k_heap := h\<rparr>)
        })"

definition free_kernel_stack :: "nat \<Rightarrow> kernel \<Rightarrow> kernel option" where
  "free_kernel_stack g k =
     (case pmm_alloc_page (k_vm k) of (phys, v) \<Rightarrow>
        (let k1 = k\<lparr>k_vm := (if phys \<noteq> 0 then snd (vmm_map_page (of_nat g) (of_nat phys) PTE_WRITABLE v) else v)\<rparr> in
         if length (kstack_free_list k1) < MAX_PROCESSES
         then Some (k1\<lparr>kstack_free_list := g # kstack_free_list k1\<rparr>)
         else do {
           h \<leftarrow> kfree g (k_heap k1);
           Some (k1\<lparr>k_heap := h\<rparr>)
         }))"

text \<open>\<^verbatim>\<open>strncpy\<close> of at most 31 bytes into the name field, which stays terminated.\<close>

definition name_field :: "u8 list \<Rightarrow> u8 list" where
  "name_field s = (let t = takeWhile (\<lambda>c. c \<noteq> 0) (take 31 s) in t @ replicate (32 - length t) 0)"

definition console_fds :: "process_fd list" where
  "console_fds = replicate 3 (fd_zero\<lparr>fd_type := FD_CONSOLE\<rparr>) @ replicate (PROCESS_MAX_FDS - 3) fd_zero"

definition process_create :: "u8 list \<Rightarrow> u64 \<Rightarrow> kernel \<Rightarrow> (nat option \<times> kernel) option" where
  "process_create name entry k =
     (case first_idx (\<lambda>p. p_state p = PROCESS_UNUSED) (procs (k_sched k)) of
        None \<Rightarrow> Some (None, k)
      | Some i \<Rightarrow> do {
          (g, k1) \<leftarrow> process_alloc_kernel_stack k;
          if g = 0 then Some (None, k1)
          else
            (let k2 = on_vm (vmm_unmap_page (of_nat g)) k1;
                 top = of_nat (g + PAGE_SIZE + PROCESS_STACK_SIZE);
                 k3 = upd_kproc i (\<lambda>p. p\<lparr>p_pid := next_pid (k_sched k2), p_name := name_field name,
                        p_state := PROCESS_READY, p_kernel_stack_guard := of_nat g, p_kernel_stack := top, p_next := None,
                        p_cr3 := 0, p_is_user := False, p_user_program_data := None, p_user_program_size := 0,
                        p_ppid := 0, p_exit_code := 0, p_wait_for_pid := 0, p_fd_table := console_fds,
                        p_sig_pending := 0, p_sig_handlers := replicate 32 0, p_in_signal_handler := False,
                        p_vmas := replicate VMA_MAX vma_zero, p_mmap_next := MMAP_BASE, p_brk_start := 0, p_brk_current := 0,
                        p_uid := 0, p_gid := 0, p_euid := 0, p_egid := 0, p_epoll_fd_idx := -1, p_epoll_timeout_ticks := 0,
                        p_epoll_events_ptr := 0, p_epoll_maxevents := 0,
                        p_context := context_zero\<lparr>cx_rip := entry, cx_rsp := top\<rparr>\<rparr>) k2
             in Some (Some i, on_sched (\<lambda>s. s\<lparr>next_pid := next_pid s + 1\<rparr>) k3))
        })"

text \<open>The zombie child that a wait for \<open>child_pid\<close> (0 for any) would reap.\<close>

definition wait_zombie :: "u32 \<Rightarrow> nat \<Rightarrow> sched \<Rightarrow> nat option" where
  "wait_zombie child_pid cur s =
     (if child_pid = 0 then process_find_zombie_child (p_pid (procs s ! cur)) s
      else case process_get_by_pid child_pid s of
        None \<Rightarrow> None
      | Some c \<Rightarrow>
          if p_ppid (procs s ! c) = p_pid (procs s ! cur) \<and> p_state (procs s ! c) = PROCESS_ZOMBIE then Some c else None)"

text \<open>Reaping: the pid and the exit code of the zombie, whose slot and kernel stack become free.\<close>

definition reap :: "nat \<Rightarrow> kernel \<Rightarrow> ((u32 \<times> int) \<times> kernel) option" where
  "reap z k = do {
     k1 \<leftarrow> (if p_kernel_stack_guard (k_proc k z) \<noteq> 0
            then map_option (upd_kproc z (\<lambda>p. p\<lparr>p_kernel_stack_guard := 0\<rparr>))
                   (free_kernel_stack (unat (p_kernel_stack_guard (k_proc k z))) k)
            else Some k);
     Some ((p_pid (k_proc k z), p_exit_code (k_proc k z)), upd_kproc z (\<lambda>p. p\<lparr>p_state := PROCESS_UNUSED\<rparr>) k1)
   }"

text \<open>
  \<^verbatim>\<open>process_wait_for\<close> up to the point where it blocks, and from there on: \<open>Returns None\<close> is the
  result \<open>-1\<close>.
\<close>

definition process_wait_for :: "u32 \<Rightarrow> nat \<Rightarrow> kernel \<Rightarrow> ((u32 \<times> int) option outcome \<times> kernel) option" where
  "process_wait_for child_pid cur k =
     (case wait_zombie child_pid cur (k_sched k) of
        Some z \<Rightarrow> map_option (\<lambda>(r, k1). (Returns (Some r), k1)) (reap z k)
      | None \<Rightarrow>
          if \<not> process_has_children (p_pid (k_proc k cur)) (k_sched k) then Some (Returns None, k)
          else Some (Blocks, on_sched schedule (upd_kproc cur (\<lambda>p. p\<lparr>p_wait_for_pid := child_pid, p_state := PROCESS_BLOCKED\<rparr>) k)))"

definition process_wait_resumed :: "u32 \<Rightarrow> nat \<Rightarrow> kernel \<Rightarrow> ((u32 \<times> int) option \<times> kernel) option" where
  "process_wait_resumed child_pid cur k =
     (case wait_zombie child_pid cur (k_sched k) of
        Some z \<Rightarrow> map_option (\<lambda>(r, k1). (Some r, k1)) (reap z k)
      | None \<Rightarrow> Some (None, k))"

section \<open>Permissions\<close>

text \<open>Root passes; otherwise the owner, group or other bit of the mode decides.\<close>

definition cred_check :: "u16 \<Rightarrow> u16 \<Rightarrow> u16 \<Rightarrow> process \<Rightarrow> u16 \<Rightarrow> u16 \<Rightarrow> u16 \<Rightarrow> bool" where
  "cred_check ubit gbit obit p mode uid gid =
     (if p_euid p = 0 then True
      else if p_euid p = uid then mode AND ubit \<noteq> 0
      else if p_egid p = gid then mode AND gbit \<noteq> 0
      else mode AND obit \<noteq> 0)"

definition cred_check_read :: "process \<Rightarrow> u16 \<Rightarrow> u16 \<Rightarrow> u16 \<Rightarrow> bool" where
  "cred_check_read = cred_check 0x100 0x20 0x4"

definition cred_check_write :: "process \<Rightarrow> u16 \<Rightarrow> u16 \<Rightarrow> u16 \<Rightarrow> bool" where
  "cred_check_write = cred_check 0x80 0x10 0x2"

definition cred_check_exec :: "process \<Rightarrow> u16 \<Rightarrow> u16 \<Rightarrow> u16 \<Rightarrow> bool" where
  "cred_check_exec = cred_check 0x40 0x8 0x1"

section \<open>Event polling\<close>

text \<open>16 instances with 32 watches each.\<close>

definition epoll_create_instance :: "u32 \<Rightarrow> epoll_instance list \<Rightarrow> int \<times> epoll_instance list" where
  "epoll_create_instance owner_pid pool =
     (case first_idx (\<lambda>e. \<not> ep_in_use e) pool of
        None \<Rightarrow> (-1, pool)
      | Some i \<Rightarrow>
          (int i, pool[i := \<lparr>ep_in_use = True, ep_owner_pid = owner_pid,
             ep_watches = replicate 32 \<lparr>ew_fd = 0, ew_events = 0, ew_data = 0, ew_et_reported = False\<rparr>, ep_watch_count = 0\<rparr>]))"

definition epoll_get :: "int \<Rightarrow> epoll_instance list \<Rightarrow> epoll_instance option" where
  "epoll_get idx pool =
     (if idx < 0 \<or> idx \<ge> 16 then None else if ep_in_use (pool ! nat idx) then Some (pool ! nat idx) else None)"

definition epoll_destroy :: "int \<Rightarrow> epoll_instance list \<Rightarrow> epoll_instance list" where
  "epoll_destroy idx pool =
     (if idx \<ge> 0 \<and> idx < 16 then upd_nth (nat idx) (\<lambda>e. e\<lparr>ep_in_use := False\<rparr>) pool else pool)"

definition epoll_ctl_instance ::
  "int \<Rightarrow> int \<Rightarrow> int \<Rightarrow> u32 \<Rightarrow> u64 \<Rightarrow> epoll_instance list \<Rightarrow> int \<times> epoll_instance list" where
  "epoll_ctl_instance idx oper fd events data pool =
     (case epoll_get idx pool of
        None \<Rightarrow> (-1, pool)
      | Some ep \<Rightarrow>
          (let n = ep_watch_count ep;
               hit = first_idx (\<lambda>w. ew_fd w = fd) (take n (ep_watches ep));
               store = (\<lambda>e. pool[nat idx := e]);
               put = (\<lambda>i ws. upd_nth i (\<lambda>w. w\<lparr>ew_fd := fd, ew_events := events, ew_data := data\<rparr>) ws)
           in if oper = 1 then
                (if n \<ge> 32 then (-1, pool)
                 else (0, store (ep\<lparr>ep_watches := put n (ep_watches ep), ep_watch_count := n + 1\<rparr>)))
              else if oper = 2 then
                (case hit of None \<Rightarrow> (-1, pool) | Some i \<Rightarrow> (0, store (ep\<lparr>ep_watches := put i (ep_watches ep)\<rparr>)))
              else if oper = 3 then
                (case hit of None \<Rightarrow> (-1, pool)
                 | Some i \<Rightarrow>
                     (0, store (ep\<lparr>ep_watches := take i (ep_watches ep) @ slice (Suc i) (n - Suc i) (ep_watches ep) @ drop (n - 1) (ep_watches ep),
                                  ep_watch_count := n - 1\<rparr>)))
              else (-1, pool)))"

definition fd_is_readable :: "nat \<Rightarrow> int \<Rightarrow> kernel \<Rightarrow> bool" where
  "fd_is_readable i fd k =
     (if fd < 0 \<or> fd \<ge> int PROCESS_MAX_FDS then False
      else
        (let e = p_fd_table (k_proc k i) ! nat fd in
         case fd_type e of
           FD_PIPE_READ \<Rightarrow> (case k_pipes k (fd_data e) of None \<Rightarrow> False | Some p \<Rightarrow> pipe_count p > 0 \<or> pipe_writers p = 0)
         | FD_CONSOLE \<Rightarrow> tty_readable (k_term k)
         | FD_SOCKET \<Rightarrow> socket_readable (int (fd_data e)) (k_net k)
         | FD_EXT2 \<Rightarrow> True
         | FD_VFS \<Rightarrow> True
         | _ \<Rightarrow> False))"

definition fd_is_writable :: "nat \<Rightarrow> int \<Rightarrow> kernel \<Rightarrow> bool" where
  "fd_is_writable i fd k =
     (if fd < 0 \<or> fd \<ge> int PROCESS_MAX_FDS then False
      else
        (let e = p_fd_table (k_proc k i) ! nat fd in
         case fd_type e of
           FD_PIPE_WRITE \<Rightarrow> (case k_pipes k (fd_data e) of None \<Rightarrow> False | Some p \<Rightarrow> pipe_count p < PIPE_BUF_SIZE)
         | FD_CONSOLE \<Rightarrow> True
         | FD_SOCKET \<Rightarrow> socket_writable (int (fd_data e)) (k_net k)
         | FD_EXT2 \<Rightarrow> True
         | FD_VFS \<Rightarrow> True
         | _ \<Rightarrow> False))"

text \<open>\<^verbatim>\<open>EPOLLIN\<close> is 1, \<^verbatim>\<open>EPOLLOUT\<close> 4 and \<^verbatim>\<open>EPOLLET\<close> bit 31.\<close>

definition watch_ready :: "nat \<Rightarrow> u32 \<Rightarrow> epoll_watch \<Rightarrow> kernel \<Rightarrow> u32" where
  "watch_ready i ev w k =
     (if ev AND 1 \<noteq> 0 \<and> fd_is_readable i (ew_fd w) k then 1 else 0) OR
     (if ev AND 4 \<noteq> 0 \<and> fd_is_writable i (ew_fd w) k then 4 else 0)"

text \<open>
  The scan of \<^verbatim>\<open>syscall_epoll_wait\<close> over the watches: the events reported, and the watches with
  their edge-triggered marks updated. At most \<open>maxevents\<close> are reported.
\<close>

fun epoll_scan :: "nat \<Rightarrow> nat \<Rightarrow> kernel \<Rightarrow> epoll_watch list \<Rightarrow> (u32 \<times> u64) list \<times> epoll_watch list" where
  "epoll_scan i maxevents k [] = ([], [])"
| "epoll_scan i 0 k (w # ws) = ([], w # ws)"
| "epoll_scan i (Suc m) k (w # ws) =
     (let wev = ew_events w AND NOT 0x80000000;
          is_et = (ew_events w AND 0x80000000 \<noteq> 0);
          ready = watch_ready i wev w k
      in if ready \<noteq> 0 then
           (if is_et \<and> ew_et_reported w then (case epoll_scan i (Suc m) k ws of (es, ws') \<Rightarrow> (es, w # ws'))
            else (case epoll_scan i m k ws of (es, ws') \<Rightarrow>
                    ((ready, ew_data w) # es, (if is_et then w\<lparr>ew_et_reported := True\<rparr> else w) # ws')))
         else (case epoll_scan i (Suc m) k ws of (es, ws') \<Rightarrow> (es, (if is_et then w\<lparr>ew_et_reported := False\<rparr> else w) # ws')))"

section \<open>The timer tick\<close>

text \<open>A process blocked on an epoll instance: count down, and wake it when it is due.\<close>

definition epoll_tick :: "nat \<Rightarrow> kernel \<Rightarrow> kernel" where
  "epoll_tick i k =
     (let p = k_proc k i in
      if p_state p \<noteq> PROCESS_BLOCKED \<or> p_epoll_fd_idx p = -1 then k
      else
        (let k1 = (if p_epoll_timeout_ticks p \<noteq> -1 \<and> p_epoll_timeout_ticks p > 0
                   then upd_kproc i (\<lambda>p. p\<lparr>p_epoll_timeout_ticks := p_epoll_timeout_ticks p - 1\<rparr>) k else k);
             due = p_epoll_timeout_ticks (k_proc k1 i) = 0 \<or>
               (case epoll_get (p_epoll_fd_idx p) (epoll_pool k1) of
                  None \<Rightarrow> False
                | Some ep \<Rightarrow> (\<exists>w\<in>set (take (ep_watch_count ep) (ep_watches ep)). watch_ready i (ew_events w) w k1 \<noteq> 0))
         in if due
            then on_sched (\<lambda>s. scheduler_add i (set_state i PROCESS_READY s)) (upd_kproc i (\<lambda>p. p\<lparr>p_epoll_fd_idx := -1\<rparr>) k1)
            else k1))"

definition scheduler_tick :: "(net \<Rightarrow> net) \<Rightarrow> kernel \<Rightarrow> kernel" where
  "scheduler_tick env k =
     (let k1 = on_sched (\<lambda>s. s\<lparr>tick_count := tick_count s + 1\<rparr>) k in
      if \<not> scheduler_enabled (k_sched k1) then k1
      else
        (let k2 = fold epoll_tick [0..<MAX_PROCESSES] (on_net (net_tick env) k1) in
         if tick_count (k_sched k2) mod 10 = 0 then on_sched schedule k2 else k2))"

definition scheduler_init :: "u64 \<Rightarrow> kernel \<Rightarrow> kernel option" where
  "scheduler_init idle_task k = do {
     (idle, k1) \<leftarrow> process_create [0x69, 0x64, 0x6C, 0x65] idle_task (on_sched (\<lambda>s. s\<lparr>kernel_cr3 := cr3 s\<rparr>) k);
     Some (on_sched (\<lambda>s. s\<lparr>scheduler_enabled := True\<rparr>)
       (case idle of
          None \<Rightarrow> k1
        | Some i \<Rightarrow> on_sched (\<lambda>s. (set_state i PROCESS_RUNNING s)\<lparr>current_process := Some i\<rparr>) k1))
   }"

section \<open>File descriptors\<close>

definition process_fd_alloc :: "process \<Rightarrow> nat \<Rightarrow> nat option" where
  "process_fd_alloc p start =
     map_option ((+) start) (first_idx (\<lambda>e. fd_type e = FD_NONE) (drop start (p_fd_table p)))"

abbreviation k_fd :: "kernel \<Rightarrow> nat \<Rightarrow> nat \<Rightarrow> process_fd" where
  "k_fd k i fd \<equiv> p_fd_table (k_proc k i) ! fd"

definition set_fd :: "nat \<Rightarrow> nat \<Rightarrow> process_fd \<Rightarrow> kernel \<Rightarrow> kernel" where
  "set_fd i fd e = upd_kproc i (\<lambda>p. p\<lparr>p_fd_table := (p_fd_table p)[fd := e]\<rparr>)"

text \<open>Close the pipe end that a descriptor refers to; other descriptors are left to the caller.\<close>

definition close_pipe_end :: "process_fd \<Rightarrow> kernel \<Rightarrow> kernel" where
  "close_pipe_end e k =
     (case fd_type e of
        FD_PIPE_READ \<Rightarrow>
          (case pipe_close_read (k_pipes k (fd_data e)) (k_sched k) of (po, sc) \<Rightarrow> set_pipe (fd_data e) po (on_sched (\<lambda>_. sc) k))
      | FD_PIPE_WRITE \<Rightarrow>
          (case pipe_close_write (k_pipes k (fd_data e)) (k_sched k) of (po, sc) \<Rightarrow> set_pipe (fd_data e) po (on_sched (\<lambda>_. sc) k))
      | _ \<Rightarrow> k)"

definition ref_pipe_end :: "process_fd \<Rightarrow> kernel \<Rightarrow> kernel" where
  "ref_pipe_end e k =
     (if fd_type e = FD_PIPE_READ \<or> fd_type e = FD_PIPE_WRITE
      then set_pipe (fd_data e) (pipe_inc_ref (k_pipes k (fd_data e)) (fd_type e)) k else k)"

text \<open>
  The handlers return the new \<^verbatim>\<open>rax\<close>. \<open>env\<close> is what the rest of the system does while the close of a
  connection waits for an address to be resolved.
\<close>

definition sys_close :: "(net \<Rightarrow> net) \<Rightarrow> nat \<Rightarrow> u64 \<Rightarrow> kernel \<Rightarrow> u64 \<times> kernel" where
  "sys_close env i fd k =
     (if fd \<ge> 32 \<or> fd < 3 then (-1, k)
      else
        (let e = k_fd k i (unat fd) in
         if fd_type e = FD_NONE then (-1, k)
         else
           (let k1 = (case fd_type e of
                        FD_SOCKET \<Rightarrow> on_net (\<lambda>n. snd (socket_close env (int (fd_data e)) n)) k
                      | FD_EPOLL \<Rightarrow> k\<lparr>epoll_pool := epoll_destroy (int (fd_data e)) (epoll_pool k)\<rparr>
                      | _ \<Rightarrow> close_pipe_end e k)
            in (0, set_fd i (unat fd) fd_zero k1))))"

text \<open>\<^verbatim>\<open>sizeof(struct pipe)\<close> is 4136. The second result is what is stored in the user's array.\<close>

definition sys_pipe :: "nat \<Rightarrow> u64 \<Rightarrow> kernel \<Rightarrow> (u64 \<times> (nat \<times> nat) option \<times> kernel) option" where
  "sys_pipe i user_fds k =
     (if user_fds \<ge> KERNEL_VMA \<or> user_fds + 8 \<ge> KERNEL_VMA then Some (-1, None, k)
      else do {
        (a, h) \<leftarrow> kmalloc 4136 (k_heap k);
        (let k1 = k\<lparr>k_heap := h\<rparr> in
         case pipe_create (a \<noteq> 0) of
           (r, None) \<Rightarrow> Some (-1, None, k1)
         | (r, Some p) \<Rightarrow>
             (let k2 = set_pipe a (Some p) k1 in
              case process_fd_alloc (k_proc k2 i) 3 of
                None \<Rightarrow> Some (-1, None, k2)
              | Some rfd \<Rightarrow>
                  (let k3 = set_fd i rfd ((k_fd k2 i rfd)\<lparr>fd_type := FD_PIPE_READ, fd_data := a\<rparr>) k2 in
                   case process_fd_alloc (k_proc k3 i) (rfd + 1) of
                     None \<Rightarrow> Some (-1, None, set_fd i rfd ((k_fd k3 i rfd)\<lparr>fd_type := FD_NONE\<rparr>) k3)
                   | Some wfd \<Rightarrow>
                       Some (0, Some (rfd, wfd), set_fd i wfd ((k_fd k3 i wfd)\<lparr>fd_type := FD_PIPE_WRITE, fd_data := a\<rparr>) k3))))
      })"

text \<open>
  \<^verbatim>\<open>SYS_READ\<close> and \<^verbatim>\<open>SYS_WRITE\<close> on the ends of a pipe; \<open>None\<close> for the branches of the other kinds of
  descriptor. \<open>src\<close> is the content of the user's buffer.
\<close>

definition sys_read_pipe :: "nat \<Rightarrow> u64 \<Rightarrow> u64 \<Rightarrow> u64 \<Rightarrow> kernel \<Rightarrow> ((int \<times> u8 list) outcome \<times> kernel) option" where
  "sys_read_pipe i fd buf count k =
     (if buf \<ge> KERNEL_VMA \<or> buf + count \<ge> KERNEL_VMA then Some (Returns (-1, []), k)
      else if fd \<ge> 32 \<or> fd_type (k_fd k i (unat fd)) = FD_NONE then Some (Returns (-1, []), k)
      else
        (let e = k_fd k i (unat fd) in
         if fd_type e = FD_PIPE_READ
         then (case pipe_read (k_pipes k (fd_data e)) (unat (ucast count :: u32)) (k_sched k) of (r, po, sc) \<Rightarrow>
                 Some (r, set_pipe (fd_data e) po (on_sched (\<lambda>_. sc) k)))
         else None))"

definition sys_write_pipe :: "nat \<Rightarrow> u64 \<Rightarrow> u64 \<Rightarrow> u64 \<Rightarrow> u8 list \<Rightarrow> kernel \<Rightarrow> (int outcome \<times> kernel) option" where
  "sys_write_pipe i fd buf len src k =
     (if buf \<ge> KERNEL_VMA \<or> buf + len \<ge> KERNEL_VMA then Some (Returns (-1), k)
      else if fd \<ge> 32 \<or> fd_type (k_fd k i (unat fd)) = FD_NONE then Some (Returns (-1), k)
      else
        (let e = k_fd k i (unat fd) in
         if fd_type e = FD_PIPE_WRITE
         then (case pipe_write (k_pipes k (fd_data e)) (take (unat (ucast len :: u32)) src) (k_sched k) of (r, po, sc) \<Rightarrow>
                 Some (r, set_pipe (fd_data e) po (on_sched (\<lambda>_. sc) k)))
         else None))"

definition sys_dup2 :: "nat \<Rightarrow> u64 \<Rightarrow> u64 \<Rightarrow> kernel \<Rightarrow> u64 \<times> kernel" where
  "sys_dup2 i oldfd newfd k =
     (if oldfd \<ge> 32 \<or> newfd \<ge> 32 then (-1, k)
      else if fd_type (k_fd k i (unat oldfd)) = FD_NONE then (-1, k)
      else if oldfd = newfd then (newfd, k)
      else
        (let k1 = close_pipe_end (k_fd k i (unat newfd)) k;
             k2 = set_fd i (unat newfd) (k_fd k1 i (unat oldfd)) k1
         in (newfd, ref_pipe_end (k_fd k2 i (unat newfd)) k2)))"

definition sys_epoll_create :: "nat \<Rightarrow> kernel \<Rightarrow> u64 \<times> kernel" where
  "sys_epoll_create i k =
     (if \<not> p_is_user (k_proc k i) then (-1, k)
      else case epoll_create_instance (p_pid (k_proc k i)) (epoll_pool k) of (idx, pool) \<Rightarrow>
        (let k1 = k\<lparr>epoll_pool := pool\<rparr> in
         if idx < 0 then (-1, k1)
         else case process_fd_alloc (k_proc k1 i) 3 of
           None \<Rightarrow> (-1, k1\<lparr>epoll_pool := epoll_destroy idx (epoll_pool k1)\<rparr>)
         | Some fd \<Rightarrow> (of_nat fd, set_fd i fd \<lparr>fd_type = FD_EPOLL, fd_data = nat idx, fd_offset = 0\<rparr> k1)))"

definition sys_socket :: "(net \<Rightarrow> net) \<Rightarrow> nat \<Rightarrow> int \<Rightarrow> int \<Rightarrow> kernel \<Rightarrow> u64 \<times> kernel" where
  "sys_socket env i domain type k =
     (if domain \<noteq> 2 \<or> (type \<noteq> SOCK_STREAM \<and> type \<noteq> SOCK_DGRAM) then (-1, k)
      else case socket_create type ((k_net k)\<lparr>net_sched := k_sched k\<rparr>) of
        (None, n) \<Rightarrow> (-1, on_net (\<lambda>_. n) k)
      | (Some idx, n) \<Rightarrow>
          (let k1 = on_net (\<lambda>_. n) k in
           case process_fd_alloc (k_proc k1 i) 3 of
             None \<Rightarrow> (-1, on_net (\<lambda>n. snd (socket_close env (int idx) n)) k1)
           | Some fd \<Rightarrow> (of_nat fd, set_fd i fd \<lparr>fd_type = FD_SOCKET, fd_data = idx, fd_offset = 0\<rparr> k1)))"

text \<open>
  The arguments that \<^verbatim>\<open>syscall_epoll_ctl\<close> and \<^verbatim>\<open>syscall_epoll_wait\<close> copy from user memory are parameters,
  and the events stored there are part of the result. \<^verbatim>\<open>syscall_epoll_wait\<close> is split where it blocks.
\<close>

definition sys_epoll_ctl :: "nat \<Rightarrow> u64 \<Rightarrow> u64 \<Rightarrow> int \<Rightarrow> int \<Rightarrow> u32 \<Rightarrow> u64 \<Rightarrow> kernel \<Rightarrow> u64 \<times> kernel" where
  "sys_epoll_ctl i epfd args_ptr oper fd events data k =
     (if \<not> p_is_user (k_proc k i) \<or> args_ptr \<ge> KERNEL_VMA then (-1, k)
      else if epfd \<ge> 32 \<or> fd_type (k_fd k i (unat epfd)) \<noteq> FD_EPOLL then (-1, k)
      else case epoll_ctl_instance (int (fd_data (k_fd k i (unat epfd)))) oper fd events data (epoll_pool k) of (r, pool) \<Rightarrow>
        (of_int r, k\<lparr>epoll_pool := pool\<rparr>))"

definition epoll_poll :: "nat \<Rightarrow> nat \<Rightarrow> nat \<Rightarrow> kernel \<Rightarrow> (u32 \<times> u64) list \<times> kernel" where
  "epoll_poll i idx maxevents k =
     (let ep = epoll_pool k ! idx; n = ep_watch_count ep in
      case epoll_scan i maxevents k (take n (ep_watches ep)) of (es, ws) \<Rightarrow>
        (es, k\<lparr>epoll_pool := (epoll_pool k)[idx := ep\<lparr>ep_watches := ws @ drop n (ep_watches ep)\<rparr>]\<rparr>))"

definition sys_epoll_wait ::
  "nat \<Rightarrow> u64 \<Rightarrow> u64 \<Rightarrow> int \<Rightarrow> int \<Rightarrow> u64 \<Rightarrow> kernel \<Rightarrow> (u64 \<times> (u32 \<times> u64) list) outcome \<times> kernel" where
  "sys_epoll_wait i epfd args_ptr maxevents timeout_ms events_ptr k =
     (if \<not> p_is_user (k_proc k i) \<or> args_ptr \<ge> KERNEL_VMA then (Returns (-1, []), k)
      else if epfd \<ge> 32 \<or> fd_type (k_fd k i (unat epfd)) \<noteq> FD_EPOLL then (Returns (-1, []), k)
      else
        (let idx = fd_data (k_fd k i (unat epfd)) in
         if epoll_get (int idx) (epoll_pool k) = None \<or> maxevents \<le> 0 \<or> events_ptr \<ge> KERNEL_VMA then (Returns (-1, []), k)
         else case epoll_poll i idx (nat maxevents) k of (es, k1) \<Rightarrow>
           if es \<noteq> [] \<or> timeout_ms = 0 then (Returns (of_nat (length es), es), k1)
           else
             (Blocks, on_sched schedule (upd_kproc i (\<lambda>p. p\<lparr>p_epoll_fd_idx := int idx,
                p_epoll_timeout_ticks := (if timeout_ms < 0 then -1 else of_int (timeout_ms div 10 + 1)),
                p_state := PROCESS_BLOCKED\<rparr>) k1))))"

definition epoll_wait_resumed :: "nat \<Rightarrow> nat \<Rightarrow> int \<Rightarrow> kernel \<Rightarrow> (u64 \<times> (u32 \<times> u64) list) \<times> kernel" where
  "epoll_wait_resumed i idx maxevents k =
     (case epoll_poll i idx (nat maxevents) (upd_kproc i (\<lambda>p. p\<lparr>p_epoll_fd_idx := -1\<rparr>) k) of (es, k1) \<Rightarrow>
        ((of_nat (length es), es), k1))"

section \<open>The program break\<close>

fun brk_grow :: "nat \<Rightarrow> nat \<Rightarrow> u64 \<Rightarrow> vm \<Rightarrow> bool \<times> vm" where
  "brk_grow pml4 0 pg s = (True, s)"
| "brk_grow pml4 (Suc n) pg s =
     (case alloc_zeroed_page s of (phys, s1) \<Rightarrow>
        if phys = 0 then (False, s1)
        else case user_vm_map_page pml4 pg (of_nat phys) (PTE_PRESENT OR PTE_WRITABLE OR PTE_USER) s1 of (r, s2) \<Rightarrow>
          if r < 0 then (False, on_pmm (pmm_page_unref phys) s2)
          else brk_grow pml4 n (pg + 4096) s2)"

text \<open>Both ends are rounded up to pages, so the number of iterations is known beforehand.\<close>

definition syscall_brk :: "nat \<Rightarrow> u64 \<Rightarrow> kernel \<Rightarrow> u64 \<times> kernel" where
  "syscall_brk i new_brk k =
     (let p = k_proc k i in
      if \<not> p_is_user p then (-1, k)
      else if new_brk = 0 \<or> new_brk < p_brk_start p then (p_brk_current p, k)
      else
        (let old_end = (p_brk_current p + 4096 - 1) AND NOT 4095;
             new_end = (new_brk + 4096 - 1) AND NOT 4095
         in case brk_grow (unat (p_cr3 p)) ((unat new_end - unat old_end) div 4096) old_end (k_vm k) of (ok, v) \<Rightarrow>
              if ok then (new_brk, upd_kproc i (\<lambda>p. p\<lparr>p_brk_current := new_brk\<rparr>) (k\<lparr>k_vm := v\<rparr>))
              else (p_brk_current p, k\<lparr>k_vm := v\<rparr>)))"

section \<open>Fork and exit\<close>

definition fork_ref :: "nat \<Rightarrow> nat \<Rightarrow> kernel \<Rightarrow> kernel" where
  "fork_ref child fd k =
     (let e = k_fd k child fd in
      if fd_type e = FD_SOCKET then on_net (socket_inc_ref (int (fd_data e))) k else ref_pipe_end e k)"

definition fork_image :: "process \<Rightarrow> u64 \<Rightarrow> u64 \<Rightarrow> u64 \<Rightarrow> process \<Rightarrow> process" where
  "fork_image pp guard stack_top child_cr3 c =
     c\<lparr>p_name := name_field (p_name pp), p_state := PROCESS_READY, p_kernel_stack_guard := guard, p_kernel_stack := stack_top,
       p_next := None, p_cr3 := child_cr3, p_is_user := True, p_user_program_data := p_user_program_data pp,
       p_user_program_size := p_user_program_size pp, p_ppid := p_pid pp, p_exit_code := 0,
       p_wait_for_pid := 0, p_fd_table := p_fd_table pp\<rparr>"

definition fork_inherit :: "process \<Rightarrow> u64 \<Rightarrow> u64 \<Rightarrow> process \<Rightarrow> process" where
  "fork_inherit pp trampoline rsp c =
     (vma_fork_copy pp (c\<lparr>p_uid := p_uid pp, p_gid := p_gid pp, p_euid := p_euid pp, p_egid := p_egid pp,
        p_sig_handlers := p_sig_handlers pp, p_sig_pending := 0, p_in_signal_handler := False\<rparr>))
     \<lparr>p_epoll_fd_idx := -1, p_context := context_zero\<lparr>cx_rip := trampoline, cx_rsp := rsp\<rparr>\<rparr>"

text \<open>
  \<^verbatim>\<open>syscall_fork\<close>: \<open>fr\<close> is the interrupt frame of the parent; its copy lies at the top of the
  kernel stack of the child (\<open>trampoline\<close> is the address of \<^verbatim>\<open>fork_return_trampoline\<close>).
\<close>

definition syscall_fork :: "u64 \<Rightarrow> nat \<Rightarrow> interrupt_frame \<Rightarrow> kernel \<Rightarrow> (u64 \<times> kernel) option" where
  "syscall_fork trampoline parent fr k =
     (case process_alloc (k_sched k) of
        (None, sc) \<Rightarrow> Some (-1, on_sched (\<lambda>_. sc) k)
      | (Some child, sc) \<Rightarrow> do {
          (g, k2) \<leftarrow> process_alloc_kernel_stack (on_sched (\<lambda>_. sc) k);
          if g = 0 then Some (-1, k2)
          else
            (case user_vm_fork_address_space (unat (p_cr3 (k_proc k2 parent))) (vmm_unmap_page (of_nat g) (k_vm k2)) of (child_cr3, v) \<Rightarrow>
               (let k3 = k2\<lparr>k_vm := v\<rparr> in
                if child_cr3 = 0 then Some (-1, k3)
                else
                  (let top = of_nat (g + PAGE_SIZE + PROCESS_STACK_SIZE);
                       pp = k_proc k3 parent;
                       k4 = k3\<lparr>k_frames := (k_frames k3)(top - 176 \<mapsto> fr\<lparr>f_rax := 0\<rparr>)\<rparr>;
                       k5 = upd_kproc child (fork_image pp (of_nat g) top (of_nat child_cr3)) k4;
                       k6 = fold (fork_ref child) [0..<PROCESS_MAX_FDS] k5;
                       k7 = upd_kproc child (fork_inherit pp trampoline (top - 176)) k6
                   in Some (ucast (p_pid (k_proc k7 child)), on_sched (scheduler_add child) k7))))
        })"

definition exit_fd :: "(net \<Rightarrow> net) \<Rightarrow> nat \<Rightarrow> nat \<Rightarrow> kernel \<Rightarrow> kernel" where
  "exit_fd env i fd k =
     (let e = k_fd k i fd in
      case fd_type e of
        FD_PIPE_READ \<Rightarrow> set_fd i fd (e\<lparr>fd_type := FD_NONE\<rparr>) (close_pipe_end e k)
      | FD_PIPE_WRITE \<Rightarrow> set_fd i fd (e\<lparr>fd_type := FD_NONE\<rparr>) (close_pipe_end e k)
      | FD_SOCKET \<Rightarrow> set_fd i fd (e\<lparr>fd_type := FD_NONE\<rparr>) (on_net (\<lambda>n. snd (socket_close env (int (fd_data e)) n)) k)
      | _ \<Rightarrow> k)"

definition reparent :: "u32 \<Rightarrow> sched \<Rightarrow> sched" where
  "reparent pid s =
     s\<lparr>procs := map (\<lambda>p. if p_ppid p = pid \<and> p_state p \<noteq> PROCESS_UNUSED \<and> p_state p \<noteq> PROCESS_TERMINATED
                          then p\<lparr>p_ppid := 1\<rparr> else p) (procs s)\<rparr>"

definition free_user_space :: "nat \<Rightarrow> kernel \<Rightarrow> kernel" where
  "free_user_space i k =
     (let old = p_cr3 (k_proc k i) in
      if old \<noteq> 0
      then on_vm (user_vm_destroy_address_space (unat old))
             (on_sched (\<lambda>s. s\<lparr>cr3 := kernel_cr3 s\<rparr>) (upd_kproc i (\<lambda>p. p\<lparr>p_cr3 := 0\<rparr>) k))
      else k)"

definition syscall_exit :: "(net \<Rightarrow> net) \<Rightarrow> nat \<Rightarrow> u64 \<Rightarrow> kernel \<Rightarrow> kernel" where
  "syscall_exit env i status k =
     (let k1 = free_user_space i (fold (exit_fd env i) [0..<PROCESS_MAX_FDS] k);
          k2 = upd_kproc i (\<lambda>p. p\<lparr>p_state := PROCESS_ZOMBIE, p_exit_code := sint (ucast status :: u32)\<rparr>) k1;
          k3 = on_sched (signal_send (p_ppid (k_proc k2 i)) (int SIGCHLD)) k2;
          k4 = on_sched (reparent (p_pid (k_proc k3 i))) k3
      in on_sched (\<lambda>s. schedule (wake_waiting_parent i s)) k4)"

end
