(* ===== verification/KernelFrame.thy ===== *)
theory KernelFrame
  imports Kernel
begin

text \<open>
  What the components leave alone: memory management does not touch the scheduler state, and neither
  scheduling, signals, pipes nor the network touch the descriptor tables and kernel stacks of processes.
  \<open>keep s\<close> is the part of the process table that these lemmas are about.
\<close>

named_theorems sched_frame \<open>memory operations leave the scheduler state alone\<close>
named_theorems keep_frame \<open>operations that leave descriptor tables and kernel stacks alone\<close>

section \<open>Memory\<close>

lemma mem_sched_frame [sched_frame]:
  "vm_sched (set64 a w s) = vm_sched s" "vm_sched (on_pmm f s) = vm_sched s" "vm_sched (rmap_clear p s) = vm_sched s"
  "vm_sched (rmap_set p pid v s) = vm_sched s" "vm_sched (swap_free_slot sl s) = vm_sched s"
  "vm_sched (snd (swap_alloc_slot s)) = vm_sched s" "vm_sched (snd (swap_write_page sl p s)) = vm_sched s"
  by (simp_all add: set64_def on_pmm_def rmap_clear_def rmap_set_def swap_free_slot_def swap_alloc_slot_def
      swap_write_page_def Let_def split: option.split prod.split)

lemma evict_step_sched: "(case evict_step i s of Inl t \<Rightarrow> vm_sched t | Inr (r, t) \<Rightarrow> vm_sched t) = vm_sched s"
proof -
  obtain sl s1 where a: "swap_alloc_slot s = (sl, s1)" by fastforce
  obtain r s2 where w: "swap_write_page sl (i * PAGE_SIZE) s1 = (r, s2)" by fastforce
  have "vm_sched s2 = vm_sched s" using mem_sched_frame(6) [of s] mem_sched_frame(7) [of sl "i * PAGE_SIZE" s1] a w by simp
  moreover have "vm_sched s1 = vm_sched s" using mem_sched_frame(6) [of s] a by simp
  ultimately show ?thesis
    by (simp add: evict_step_def Let_def a w sched_frame split: option.split)
qed

lemma evict_loop_sched: "vm_sched (snd (evict_loop is s)) = vm_sched s"
proof (induction "is" arbitrary: s)
  case (Cons i "is")
  then show ?case using evict_step_sched [of i s] by (auto split: sum.splits prod.splits)
qed simp

lemma evict_some_sched: "vm_sched (evict_some n s) = vm_sched s"
  by (induction n arbitrary: s) (simp_all add: swap_evict_one_def Let_def evict_loop_sched)

lemma pmm_alloc_sched [sched_frame]: "vm_sched (snd (pmm_alloc_page s)) = vm_sched s"
  by (simp add: pmm_alloc_page_def Let_def evict_some_sched case_prod_beta)

lemma alloc_sched [sched_frame]:
  "vm_sched (snd (alloc_zeroed_page s)) = vm_sched s" "vm_sched (snd (alloc_table s)) = vm_sched s"
  by (simp_all add: alloc_zeroed_page_def alloc_table_def case_prod_beta sched_frame)

lemma walk_sched [sched_frame]:
  "vm_sched (snd (walk_level c a s)) = vm_sched s" "vm_sched (snd (user_level a s)) = vm_sched s"
  by (simp_all add: walk_level_def user_level_def Let_def case_prod_beta sched_frame)

lemma vmm_walk_sched [sched_frame]: "vm_sched (snd (vmm_walk v c s)) = vm_sched s"
  by (simp add: vmm_walk_def case_prod_beta sched_frame split: option.split)

lemma map_sched [sched_frame]:
  "vm_sched (snd (vmm_map_page v p f s)) = vm_sched s" "vm_sched (vmm_unmap_page v s) = vm_sched s"
  "vm_sched (snd (user_vm_map_page r v p f s)) = vm_sched s"
  by (simp_all add: vmm_map_page_def vmm_unmap_page_def user_vm_map_page_def Let_def case_prod_beta sched_frame split: option.split)

lemma while_ok_sched:
  "(\<And>i s. vm_sched (snd (f i s)) = vm_sched s) \<Longrightarrow> vm_sched (snd (while_ok f is s)) = vm_sched s"
  by (induction "is" arbitrary: s) (simp_all add: case_prod_beta)

lemma fold_sched: "(\<And>i s. vm_sched (f i s) = vm_sched s) \<Longrightarrow> vm_sched (fold f is s) = vm_sched s"
  by (induction "is" arbitrary: s) simp_all

lemma fork_space_sched [sched_frame]: "vm_sched (snd (user_vm_fork_address_space p s)) = vm_sched s"
proof -
  have l: "vm_sched (snd (fork_leaf c v a s)) = vm_sched s" for c v a s
    by (simp add: fork_leaf_def Let_def case_prod_beta sched_frame)
  have t: "vm_sched (snd (fork_pt c v a s)) = vm_sched s" for c v a s unfolding fork_pt_def by (rule while_ok_sched) (rule l)
  have d: "vm_sched (snd (fork_pd c v a s)) = vm_sched s" for c v a s
    unfolding fork_pd_def by (rule while_ok_sched) (simp add: Let_def t)
  have q: "vm_sched (snd (fork_pdpt c v a s)) = vm_sched s" for c v a s
    unfolding fork_pdpt_def by (rule while_ok_sched) (simp add: Let_def d)
  have cp: "vm_sched (copy_entries a b is s) = vm_sched s" for a b "is" s
    by (induction "is" arbitrary: s) (simp_all add: sched_frame)
  have n: "vm_sched (snd (user_vm_create_address_space s)) = vm_sched s" for s
    by (simp add: user_vm_create_address_space_def cp case_prod_beta sched_frame del: upt_rec_numeral)
  have "vm_sched (snd (while_ok (\<lambda>i s. let e = get64 (p + 8 * i) s in
      if \<not> present e then (True, s) else fork_pdpt ch (push_bit 39 (of_nat i)) (pte_phys e) s) [0..<256] s1)) = vm_sched s1" for ch s1
    by (rule while_ok_sched) (simp add: Let_def q)
  then show ?thesis by (simp add: user_vm_fork_address_space_def case_prod_beta n del: upt_rec_numeral)
qed

lemma destroy_space_sched [sched_frame]: "vm_sched (user_vm_destroy_address_space p s) = vm_sched s"
proof -
  have l: "vm_sched (destroy_leaf a s) = vm_sched s" for a s by (simp add: destroy_leaf_def Let_def sched_frame)
  have t: "vm_sched (destroy_pt a s) = vm_sched s" for a s unfolding destroy_pt_def sched_frame by (rule fold_sched) (rule l)
  have d: "vm_sched (destroy_pd a s) = vm_sched s" for a s unfolding destroy_pd_def sched_frame by (rule fold_sched) (simp add: Let_def t)
  have q: "vm_sched (destroy_pdpt a s) = vm_sched s" for a s unfolding destroy_pdpt_def sched_frame by (rule fold_sched) (simp add: Let_def d)
  show ?thesis unfolding user_vm_destroy_address_space_def sched_frame by (rule fold_sched) (simp add: Let_def q)
qed

section \<open>Scheduling, signals and pipes\<close>

definition kept :: "process \<Rightarrow> process_fd list \<times> u64" where
  "kept p = (p_fd_table p, p_kernel_stack_guard p)"

definition keep :: "sched \<Rightarrow> (process_fd list \<times> u64) list" where
  "keep s = map kept (procs s)"

lemma keep_upd_proc: "keep (upd_proc i f s) = (if i < length (procs s) then (keep s)[i := kept (f (procs s ! i))] else keep s)"
  by (simp add: keep_def upd_proc_def upd_nth_def map_update list_update_beyond)

lemma keep_upd_same: "(\<And>p. kept (f p) = kept p) \<Longrightarrow> keep (upd_proc i f s) = keep s"
  unfolding keep_upd_proc by (simp add: keep_def list_update_same_conv)

lemma keep_fields [keep_frame]:
  "keep (s\<lparr>current_process := a\<rparr>) = keep s" "keep (s\<lparr>ready_queue_head := a\<rparr>) = keep s" "keep (s\<lparr>ready_queue_tail := a\<rparr>) = keep s"
  "keep (s\<lparr>tick_count := b\<rparr>) = keep s" "keep (s\<lparr>scheduler_enabled := c\<rparr>) = keep s" "keep (s\<lparr>kernel_cr3 := b\<rparr>) = keep s"
  "keep (s\<lparr>cr3 := b\<rparr>) = keep s" "keep (s\<lparr>tss_rsp0 := b\<rparr>) = keep s" "keep (s\<lparr>cpu := d\<rparr>) = keep s" "keep (s\<lparr>next_pid := e\<rparr>) = keep s"
  by (simp_all add: keep_def)

lemma keep_proc_fields [keep_frame]:
  "keep (upd_proc i (\<lambda>p. p\<lparr>p_state := a\<rparr>) s) = keep s" "keep (upd_proc i (\<lambda>p. p\<lparr>p_next := b\<rparr>) s) = keep s"
  "keep (upd_proc i (\<lambda>p. p\<lparr>p_state := a, p_next := b\<rparr>) s) = keep s" "keep (upd_proc i (\<lambda>p. p\<lparr>p_context := c\<rparr>) s) = keep s"
  "keep (upd_proc i (\<lambda>p. p\<lparr>p_sig_pending := g p\<rparr>) s) = keep s" "keep (upd_proc i (\<lambda>p. p\<lparr>p_state := a, p_exit_code := d\<rparr>) s) = keep s"
  "keep (upd_proc i (\<lambda>p. p\<lparr>p_wait_for_pid := e, p_state := a\<rparr>) s) = keep s" "keep (upd_proc i (\<lambda>p. p\<lparr>p_cr3 := h\<rparr>) s) = keep s"
  "keep (upd_proc i (sig_clear n) s) = keep s" "keep (upd_proc i (sig_save fr) s) = keep s"
  "keep (upd_proc i (\<lambda>p. p\<lparr>p_in_signal_handler := l\<rparr>) s) = keep s"
  by (rule keep_upd_same; simp add: kept_def sig_clear_def sig_save_def)+

lemma keep_set_state [keep_frame]: "keep (set_state i st s) = keep s"
  by (simp add: set_state_def keep_frame)

lemma keep_scheduler_add [keep_frame]: "keep (scheduler_add i s) = keep s"
  by (simp add: scheduler_add_def Let_def keep_frame split: option.split)

lemma keep_schedule [keep_frame]: "keep (schedule s) = keep s"
proof -
  have "keep (rq_pop s) = keep s" for s by (simp add: rq_pop_def Let_def keep_frame split: option.split)
  moreover have "keep (requeue_current s) = keep s" for s by (simp add: requeue_current_def keep_frame split: option.split)
  moreover have "keep (context_switch a b s) = keep s" for a b s by (simp add: context_switch_def Let_def keep_frame)
  ultimately show ?thesis by (auto simp: schedule_def Let_def keep_frame split: option.split)
qed

lemma keep_signals [keep_frame]:
  "keep (signal_send pid sig s) = keep s" "keep (wake_waiting_parent i s) = keep s" "keep (sig_terminate i n s) = keep s"
  "keep (snd (signal_check po fr s)) = keep s"
proof -
  show a: "keep (signal_send pid sig s) = keep s" "keep (wake_waiting_parent i s) = keep s" "keep (sig_terminate i n s) = keep s" for s i n
    by (simp_all add: signal_send_def wake_waiting_parent_def sig_terminate_def Let_def keep_frame split: option.split)
  have "keep (snd (signal_loop sigs i fr s)) = keep s" for sigs i s
    by (induction sigs i fr s rule: signal_loop.induct) (simp_all add: Let_def keep_frame a)
  then show "keep (snd (signal_check po fr s)) = keep s" by (simp add: signal_check_def split: option.split)
qed

lemma keep_pipes [keep_frame]:
  "keep (pipe_wake b s) = keep s" "keep (block_current s) = keep s"
  "keep (snd (pipe_close_read po s)) = keep s" "keep (snd (pipe_close_write po s)) = keep s"
  "keep (snd (snd (pipe_read po n s))) = keep s" "keep (snd (snd (pipe_write po bs s))) = keep s"
proof -
  show a: "keep (pipe_wake b s) = keep s" "keep (block_current s) = keep s" for b s
    by (simp_all add: pipe_wake_def block_current_def keep_frame split: option.split)
  show "keep (snd (pipe_close_read po s)) = keep s" "keep (snd (pipe_close_write po s)) = keep s"
    "keep (snd (snd (pipe_read po n s))) = keep s" "keep (snd (snd (pipe_write po bs s))) = keep s"
    by (simp_all add: pipe_close_read_def pipe_close_write_def pipe_read_def pipe_write_def Let_def case_prod_beta a split: option.split)
qed

lemma keep_reparent [keep_frame]: "keep (reparent pid s) = keep s"
  by (simp add: keep_def reparent_def kept_def comp_def if_distrib cong: if_cong)

section \<open>The network\<close>

text \<open>
  While a packet waits for the address of its destination the other processes run. They do not close,
  open or pass on descriptors of pipes meanwhile: that is the assumption on \<open>env\<close> under which closing
  a connection leaves the tables alone.
\<close>

definition env_keeps :: "(net \<Rightarrow> net) \<Rightarrow> bool" where
  "env_keeps env \<longleftrightarrow> (\<forall>n. keep (net_sched (env n)) = keep (net_sched n))"

abbreviation nkeep :: "net \<Rightarrow> (process_fd list \<times> u64) list" where
  "nkeep n \<equiv> keep (net_sched n)"

lemma net_send_frame [keep_frame]: "net_sched (snd (ethernet_send d m t s)) = net_sched s"
  by (simp add: ethernet_send_def e1000_send_packet_def Let_def)

lemma arp_request_frame [keep_frame]: "net_sched (arp_send_request ip s) = net_sched s"
  by (simp add: arp_send_request_def keep_frame)

lemma ipv4_send_keeps:
  assumes "env_keeps env"
  shows "nkeep (snd (ipv4_send env d n ip pr s)) = nkeep s"
proof -
  have b: "nkeep (block_until env cur s) = nkeep s" for cur s
    using assms by (simp add: block_until_def env_keeps_def upd_sched_def keep_frame)
  have w: "nkeep (snd (arp_wait env cur ip n s)) = nkeep s" for cur ip n s
    by (induction n arbitrary: s) (simp_all add: Let_def b keep_frame split: option.split)
  have "nkeep (snd (arp_resolve env ip s)) = nkeep s" for s
    by (simp add: arp_resolve_def Let_def w keep_frame split: option.split)
  then show ?thesis by (simp add: ipv4_send_def Let_def case_prod_beta keep_frame split: option.split)
qed

lemma tcp_segment_keeps:
  assumes "env_keeps env"
  shows "nkeep (snd (tcp_send_segment env c fl d n s)) = nkeep s"
  by (simp add: tcp_send_segment_def Let_def ipv4_send_keeps [OF assms] upd_conn_def)

lemma net_tick_keeps:
  assumes "env_keeps env"
  shows "nkeep (net_tick env s) = nkeep s"
proof -
  have u: "nkeep (upd_conn i f s) = nkeep s" for i f s by (simp add: upd_conn_def)
  have w: "nkeep (wake_writer i s) = nkeep s" "nkeep (wake_reader i s) = nkeep s" for i s
    by (simp_all add: wake_writer_def wake_reader_def wake_def upd_conn_def upd_sched_def keep_frame split: option.split)
  have f: "nkeep (send_flags env i fl s) = nkeep s" for i fl s
    by (simp add: tcp_segment_keeps [OF assms])
  have r: "nkeep (tick_retransmit env i s) = nkeep s" for i s
    by (simp add: tick_retransmit_def Let_def u w f tcp_segment_keeps [OF assms])
  have t: "nkeep (tick_time_wait i s) = nkeep s" for i s by (simp add: tick_time_wait_def Let_def u)
  have "nkeep (fold (tick_one env) js s) = nkeep s" for js
    by (induction js arbitrary: s) (simp_all add: tick_one_def r t)
  then show ?thesis by (simp add: net_tick_def tcp_tick_def)
qed

lemma socket_close_keeps:
  assumes "env_keeps env"
  shows "nkeep (snd (socket_close env idx s)) = nkeep s"
proof -
  have "nkeep (tcp_close env c s) = nkeep s" for c s
    using tcp_segment_keeps [OF assms] by (simp add: tcp_close_def upd_conn_def split: tcp_state.split)
  then show ?thesis by (simp add: socket_close_def Let_def upd_sock_def split: option.split)
qed

lemma socket_refs_keep [keep_frame]:
  "net_sched (socket_inc_ref idx s) = net_sched s" "net_sched (snd (socket_create t s)) = net_sched s"
  by (simp_all add: socket_inc_ref_def socket_create_def upd_sock_def Let_def split: option.split)

end
