(* ===== verification/KernelSpec.thy ===== *)
theory KernelSpec
  imports KernelFrame PageTree
begin

text \<open>
  Descriptors and the objects they refer to. Every system call that creates, copies or drops descriptors
  keeps three facts: the tables have their shape, a descriptor of a pipe end refers to an existing pipe
  whose counter for that end is at least the number of descriptors that refer to it, and the pool of
  kernel stacks does not outgrow its array. Two consequences and one separate fact follow: waiting for
  children, and the events that \<^verbatim>\<open>epoll_wait\<close> reports.
\<close>

section \<open>Counting descriptors\<close>

definition hit :: "fd_type \<Rightarrow> nat \<Rightarrow> process_fd \<Rightarrow> nat" where
  "hit t a e = (if fd_type e = t \<and> fd_data e = a then 1 else 0)"

definition tab_count :: "fd_type \<Rightarrow> nat \<Rightarrow> process_fd list \<Rightarrow> nat" where
  "tab_count t a T = length (filter (\<lambda>e. fd_type e = t \<and> fd_data e = a) T)"

definition ends :: "fd_type \<Rightarrow> nat \<Rightarrow> (process_fd list \<times> u64) list \<Rightarrow> nat" where
  "ends t a K = (\<Sum>x\<leftarrow>K. tab_count t a (fst x))"

lemma tab_count_update: "fd < length T \<Longrightarrow> tab_count t a (T[fd := e]) + hit t a (T ! fd) = tab_count t a T + hit t a e"
  using count_upd [of fd T "\<lambda>e. fd_type e = t \<and> fd_data e = a" e] by (simp add: tab_count_def hit_def)

lemma tab_count_ge: "fd < length T \<Longrightarrow> hit t a (T ! fd) \<le> tab_count t a T"
  by (auto simp: hit_def tab_count_def Suc_le_eq filter_empty_conv)

lemma ends_update:
  "i < length K \<Longrightarrow> ends t a (K[i := x]) + tab_count t a (fst (K ! i)) = ends t a K + tab_count t a (fst x)"
proof (induction K arbitrary: i)
  case (Cons y K)
  then show ?case by (cases i) (auto simp: ends_def)
qed simp

lemma ends_ge: "i < length K \<Longrightarrow> tab_count t a (fst (K ! i)) \<le> ends t a K"
  unfolding ends_def by (rule member_le_sum_list) auto

abbreviation is_pipe :: "process_fd \<Rightarrow> bool" where
  "is_pipe e \<equiv> fd_type e = FD_PIPE_READ \<or> fd_type e = FD_PIPE_WRITE"

section \<open>The invariant\<close>

definition tables_ok :: "(process_fd list \<times> u64) list \<Rightarrow> bool" where
  "tables_ok K \<longleftrightarrow> length K = MAX_PROCESSES \<and> (\<forall>x\<in>set K. length (fst x) = PROCESS_MAX_FDS)"

definition pipe_counted :: "nat \<Rightarrow> (process_fd list \<times> u64) list \<Rightarrow> nat \<Rightarrow> pipe \<Rightarrow> bool" where
  "pipe_counted n K a p \<longleftrightarrow> pipe_inv p \<and> ends FD_PIPE_READ a K \<le> unat (pipe_readers p) \<and> unat (pipe_readers p) \<le> n \<and>
     ends FD_PIPE_WRITE a K \<le> unat (pipe_writers p) \<and> unat (pipe_writers p) \<le> n"

definition pipes_ok :: "nat \<Rightarrow> (process_fd list \<times> u64) list \<Rightarrow> (nat \<Rightarrow> pipe option) \<Rightarrow> bool" where
  "pipes_ok n K P \<longleftrightarrow> (\<forall>a p. P a = Some p \<longrightarrow> pipe_counted n K a p) \<and> (\<forall>x\<in>set K. \<forall>e\<in>set (fst x). is_pipe e \<longrightarrow> P (fd_data e) \<noteq> None)"

definition heap_ok :: "(nat \<Rightarrow> pipe option) \<Rightarrow> kheap \<Rightarrow> bool" where
  "heap_ok P h \<longleftrightarrow> (\<exists>L. client_inv h L \<and> (\<forall>a. P a \<noteq> None \<longrightarrow> (a, 4136) \<in> L))"

definition stacks_ok :: "(process_fd list \<times> u64) list \<Rightarrow> nat list \<Rightarrow> bool" where
  "stacks_ok K gs \<longleftrightarrow> length gs + length (filter (\<lambda>x. snd x \<noteq> 0) K) \<le> MAX_PROCESSES"

definition kernel_inv :: "nat \<Rightarrow> kernel \<Rightarrow> bool" where
  "kernel_inv n k \<longleftrightarrow> tables_ok (keep (k_sched k)) \<and> pipes_ok n (keep (k_sched k)) (k_pipes k) \<and>
     heap_ok (k_pipes k) (k_heap k) \<and> stacks_ok (keep (k_sched k)) (kstack_free_list k)"

lemma kernel_inv_cong:
  "keep (k_sched k') = keep (k_sched k) \<Longrightarrow> k_pipes k' = k_pipes k \<Longrightarrow> k_heap k' = k_heap k \<Longrightarrow>
   kstack_free_list k' = kstack_free_list k \<Longrightarrow> kernel_inv n k' = kernel_inv n k"
  by (simp add: kernel_inv_def)

lemma kernel_inv_mono: "kernel_inv n k \<Longrightarrow> n \<le> m \<Longrightarrow> kernel_inv m k"
  by (fastforce simp: kernel_inv_def pipes_ok_def pipe_counted_def)

lemma kernel_upd [simp]:
  "k_sched (on_sched f k) = f (k_sched k)" "k_pipes (on_sched f k) = k_pipes k" "k_heap (on_sched f k) = k_heap k"
  "kstack_free_list (on_sched f k) = kstack_free_list k" "k_vm (on_vm g k) = g (k_vm k)" "k_pipes (on_vm g k) = k_pipes k"
  "k_heap (on_vm g k) = k_heap k" "kstack_free_list (on_vm g k) = kstack_free_list k"
  "k_sched (on_net h k) = net_sched (h ((k_net k)\<lparr>net_sched := k_sched k\<rparr>))" "k_pipes (on_net h k) = k_pipes k"
  "k_heap (on_net h k) = k_heap k" "kstack_free_list (on_net h k) = kstack_free_list k"
  "k_sched (set_pipe a po k) = k_sched k" "k_pipes (set_pipe a po k) = (k_pipes k)(a := po)" "k_heap (set_pipe a po k) = k_heap k"
  "kstack_free_list (set_pipe a po k) = kstack_free_list k" "k_sched (upd_kproc i u k) = upd_proc i u (k_sched k)"
  "k_pipes (upd_kproc i u k) = k_pipes k" "k_heap (upd_kproc i u k) = k_heap k" "kstack_free_list (upd_kproc i u k) = kstack_free_list k"
  by (simp_all add: on_sched_def on_vm_def on_net_def set_pipe_def upd_kproc_def Let_def)

lemma keep_nth: "i < length (procs s) \<Longrightarrow> keep s ! i = (p_fd_table (procs s ! i), p_kernel_stack_guard (procs s ! i))"
  by (simp add: keep_def kept_def)

lemma length_keep [simp]: "length (keep s) = length (procs s)"
  by (simp add: keep_def)

lemma inv_slot:
  assumes "kernel_inv n k" "i < MAX_PROCESSES"
  shows "i < length (procs (k_sched k))" "length (p_fd_table (k_proc k i)) = PROCESS_MAX_FDS"
    "keep (k_sched k) ! i = (p_fd_table (k_proc k i), p_kernel_stack_guard (k_proc k i))"
proof -
  have l: "length (procs (k_sched k)) = MAX_PROCESSES" using assms(1) by (simp add: kernel_inv_def tables_ok_def)
  then show i: "i < length (procs (k_sched k))" using assms(2) by simp
  then show e: "keep (k_sched k) ! i = (p_fd_table (k_proc k i), p_kernel_stack_guard (k_proc k i))" by (rule keep_nth)
  have "keep (k_sched k) ! i \<in> set (keep (k_sched k))" using i by (intro nth_mem) simp
  then show "length (p_fd_table (k_proc k i)) = PROCESS_MAX_FDS" using assms(1) e by (auto simp: kernel_inv_def tables_ok_def)
qed

lemma keep_set_fd:
  "i < length (procs (k_sched k)) \<Longrightarrow>
   keep (k_sched (set_fd i fd e k)) = (keep (k_sched k))[i := ((fst (keep (k_sched k) ! i))[fd := e], snd (keep (k_sched k) ! i))]"
  by (simp add: set_fd_def keep_upd_proc kept_def keep_nth)

lemma set_fd_frame [simp]:
  "k_pipes (set_fd i fd e k) = k_pipes k" "k_heap (set_fd i fd e k) = k_heap k" "kstack_free_list (set_fd i fd e k) = kstack_free_list k"
  by (simp_all add: set_fd_def)

section \<open>Counters and tables together\<close>

text \<open>How closing and copying descriptors changes the pipes they refer to.\<close>

definition dropped :: "process_fd \<Rightarrow> (nat \<Rightarrow> pipe option) \<Rightarrow> (nat \<Rightarrow> pipe option) \<Rightarrow> bool" where
  "dropped e P P' \<longleftrightarrow> (\<forall>a. case P a of None \<Rightarrow> P' a = None
     | Some p \<Rightarrow> \<exists>p'. P' a = Some p' \<and> (pipe_inv p \<longrightarrow> pipe_inv p') \<and>
         unat (pipe_readers p') = unat (pipe_readers p) - hit FD_PIPE_READ a e \<and>
         unat (pipe_writers p') = unat (pipe_writers p) - hit FD_PIPE_WRITE a e)"

definition added :: "(fd_type \<Rightarrow> nat \<Rightarrow> nat) \<Rightarrow> (nat \<Rightarrow> pipe option) \<Rightarrow> (nat \<Rightarrow> pipe option) \<Rightarrow> bool" where
  "added c P P' \<longleftrightarrow> (\<forall>a. case P a of None \<Rightarrow> P' a = None
     | Some p \<Rightarrow> \<exists>p'. P' a = Some p' \<and> (pipe_inv p \<longrightarrow> pipe_inv p') \<and>
         unat (pipe_readers p') = unat (pipe_readers p) + c FD_PIPE_READ a \<and>
         unat (pipe_writers p') = unat (pipe_writers p) + c FD_PIPE_WRITE a)"

lemma unat_dec32: "0 < x \<Longrightarrow> unat (x - 1) = unat x - 1" for x :: u32
  by (simp add: unat_sub word_le_nat_alt unat_gt_0 Suc_le_eq flip: word_neq_0_conv)

lemma dropped_refl: "\<not> is_pipe e \<Longrightarrow> dropped e P P"
  by (auto simp: dropped_def hit_def split: option.split)

lemma close_pipe_end_dropped: "dropped e (k_pipes k) (k_pipes (close_pipe_end e k))"
proof (cases "is_pipe e")
  case False
  then have "close_pipe_end e k = k" by (auto simp: close_pipe_end_def split: fd_type.split)
  with False show ?thesis by (simp add: dropped_refl)
next
  case True
  then show ?thesis
    by (auto simp: dropped_def close_pipe_end_def pipe_close_read_def pipe_close_write_def hit_def pipe_inv_def Let_def unat_dec32 word_gt_0
        split: option.splits if_splits)
qed

lemma close_pipe_end_frame [simp]:
  "keep (k_sched (close_pipe_end e k)) = keep (k_sched k)" "k_heap (close_pipe_end e k) = k_heap k"
  "kstack_free_list (close_pipe_end e k) = kstack_free_list k"
  by (auto simp: close_pipe_end_def keep_frame case_prod_beta split: fd_type.split)

lemma ref_pipe_end_frame [simp]:
  "k_sched (ref_pipe_end e k) = k_sched k" "k_heap (ref_pipe_end e k) = k_heap k"
  "kstack_free_list (ref_pipe_end e k) = kstack_free_list k"
  by (simp_all add: ref_pipe_end_def)

lemma ref_pipe_end_added:
  assumes "\<forall>a p. k_pipes k a = Some p \<longrightarrow> unat (pipe_readers p) \<le> n \<and> unat (pipe_writers p) \<le> n" "n + 1 < 2 ^ 32"
  shows "added (\<lambda>t a. hit t a e) (k_pipes k) (k_pipes (ref_pipe_end e k))"
proof -
  have inc: "unat (w + 1) = unat w + 1" if "unat w \<le> n" for w :: u32
    using that assms(2) by (simp add: unat_word_ariths)
  show ?thesis
    using assms(1) inc
    by (auto simp: added_def ref_pipe_end_def pipe_inc_ref_def hit_def pipe_inv_def split: option.splits if_splits)
qed

lemma tables_ok_update: "tables_ok K \<Longrightarrow> length T = PROCESS_MAX_FDS \<Longrightarrow> tables_ok (K[i := (T, g)])"
  by (auto simp: tables_ok_def dest: set_update_subset_insert [THEN subsetD])

lemma pipes_ok_drop:
  assumes "pipes_ok n K P" "dropped e P P'" "i < length K" "K ! i = (T, g)" "fd < length T" "T ! fd = e" "\<not> is_pipe e'"
  shows "pipes_ok n (K[i := (T[fd := e'], g)]) P'"
proof -
  let ?K = "K[i := (T[fd := e'], g)]"
  have h: "ends t a ?K + hit t a e = ends t a K" if "t \<in> {FD_PIPE_READ, FD_PIPE_WRITE}" for t a
    using ends_update [OF assms(3), of t a "(T[fd := e'], g)"] tab_count_update [OF assms(5), of t a e'] assms(4,6,7) that
    by (auto simp: hit_def)
  have "pipe_counted n ?K a p'" if "P' a = Some p'" for a p'
  proof -
    from that assms(2) obtain p where p: "P a = Some p" "pipe_inv p \<longrightarrow> pipe_inv p'"
      "unat (pipe_readers p') = unat (pipe_readers p) - hit FD_PIPE_READ a e"
      "unat (pipe_writers p') = unat (pipe_writers p) - hit FD_PIPE_WRITE a e"
      by (force simp: dropped_def split: option.splits)
    from p(1) assms(1) have "pipe_counted n K a p" by (simp add: pipes_ok_def)
    then show ?thesis using p h [of FD_PIPE_READ a] h [of FD_PIPE_WRITE a] by (simp add: pipe_counted_def) linarith
  qed
  moreover have "P' (fd_data x) \<noteq> None" if "y \<in> set ?K" "x \<in> set (fst y)" "is_pipe x" for y x
  proof -
    have "P' a \<noteq> None" if "P a \<noteq> None" for a using that assms(2) by (force simp: dropped_def split: option.splits)
    moreover have "\<exists>y\<in>set K. x \<in> set (fst y)"
      using that assms(3,4,7) set_update_subset_insert [of K i "(T[fd := e'], g)"] set_update_subset_insert [of T fd e'] nth_mem [OF assms(3)]
      by fastforce
    ultimately show ?thesis using assms(1) that(3) by (auto simp: pipes_ok_def)
  qed
  ultimately show ?thesis by (auto simp: pipes_ok_def)
qed

lemma pipes_ok_add:
  assumes "pipes_ok n K P" "added c P P'" "i < length K"
    and "\<forall>t\<in>{FD_PIPE_READ, FD_PIPE_WRITE}. \<forall>a. tab_count t a T \<le> tab_count t a (fst (K ! i)) + c t a \<and> c t a \<le> m"
    and "\<forall>e\<in>set T. is_pipe e \<longrightarrow> P (fd_data e) \<noteq> None"
  shows "pipes_ok (n + m) (K[i := (T, g)]) P'"
proof -
  let ?K = "K[i := (T, g)]"
  have h: "ends t a ?K \<le> ends t a K + c t a" if "t \<in> {FD_PIPE_READ, FD_PIPE_WRITE}" for t a
  proof -
    have "tab_count t a T \<le> tab_count t a (fst (K ! i)) + c t a" using assms(4) that by blast
    then show ?thesis using ends_update [OF assms(3), of t a "(T, g)"] by simp
  qed
  have "pipe_counted (n + m) ?K a p'" if "P' a = Some p'" for a p'
  proof -
    from that assms(2) obtain p where p: "P a = Some p" "pipe_inv p \<longrightarrow> pipe_inv p'"
      "unat (pipe_readers p') = unat (pipe_readers p) + c FD_PIPE_READ a"
      "unat (pipe_writers p') = unat (pipe_writers p) + c FD_PIPE_WRITE a"
      by (force simp: added_def split: option.splits)
    from p(1) assms(1) have "pipe_counted n K a p" by (simp add: pipes_ok_def)
    then show ?thesis using p h [of FD_PIPE_READ a] h [of FD_PIPE_WRITE a] assms(4)
      by (auto simp: pipe_counted_def intro: add_mono order_trans)
  qed
  moreover have "P' (fd_data x) \<noteq> None" if "y \<in> set ?K" "x \<in> set (fst y)" "is_pipe x" for y x
  proof -
    have "P' a \<noteq> None" if "P a \<noteq> None" for a using that assms(2) by (force simp: added_def split: option.splits)
    moreover have "y \<in> set K \<or> y = (T, g)" using that(1) set_update_subset_insert [of K i "(T, g)"] by blast
    then have "P (fd_data x) \<noteq> None" using that(2,3) assms(1,5) by (elim disjE) (simp_all add: pipes_ok_def)
    ultimately show ?thesis by simp
  qed
  ultimately show ?thesis by (auto simp: pipes_ok_def)
qed

lemma added_refl: "added (\<lambda>t a. 0) P P"
  by (auto simp: added_def split: option.split)

lemma pipes_ok_guard: "pipes_ok n K P \<Longrightarrow> i < length K \<Longrightarrow> fst (K ! i) = T \<Longrightarrow> pipes_ok n (K[i := (T, g)]) P"
  using pipes_ok_add [OF _ added_refl, of n K P i T 0 g] nth_mem [of i K] by (fastforce simp: pipes_ok_def)

lemma pipes_ok_replace:
  assumes "pipes_ok n K P" "i < length K" "\<forall>e\<in>set T. \<not> is_pipe e"
  shows "pipes_ok n (K[i := (T, g)]) P"
proof -
  have "tab_count t a T \<le> tab_count t a (fst (K ! i))" if "t \<in> {FD_PIPE_READ, FD_PIPE_WRITE}" for t a
  proof -
    have "filter (\<lambda>e. fd_type e = t \<and> fd_data e = a) T = []" using assms(3) that by (auto simp: filter_empty_conv)
    then show ?thesis by (simp add: tab_count_def)
  qed
  then show ?thesis using pipes_ok_add [OF _ added_refl, of n K P i T 0 g] assms by simp
qed

section \<open>The heap\<close>

text \<open>A block handed out by \<^verbatim>\<open>kmalloc\<close> was not owned before, and a failed request changes nothing.\<close>

lemma kmalloc_fresh:
  assumes "client_inv h L" "request_ok sz" "kmalloc sz h = Some (p, h')" "p \<noteq> 0"
  shows "(p, m) \<notin> L"
proof
  assume m: "(p, m) \<in> L"
  obtain ts where ts: "heap_rep h ts" "owns h ts L" using assms(1) by (auto simp: client_inv_def)
  have "0 < sz" using assms(2) by (simp add: request_ok_def)
  from kmalloc_rep [OF ts(1) this refl] assms(3,4) obtain xs s ys where
    x: "ts = xs @ (s, True) # ys" "p = tend (kh_start h) xs + BLOCK_HDR_SIZE" by auto
  from m ts(2) obtain s' where "(p, s') \<in> set (live (kh_start h) ts)" by (force simp: owns_def)
  then consider "(p, s') \<in> set (live (kh_start h) xs)" | "(p, s') \<in> set (live (tend (kh_start h) xs + BLOCK_HDR_SIZE + s) ys)"
    using x(1) by auto
  then show False
    using live_range [of p s' "kh_start h" xs] live_range [of p s' "tend (kh_start h) xs + BLOCK_HDR_SIZE + s" ys] x(2)
    by cases (auto simp: BLOCK_HDR_SIZE_def)
qed

lemma kmalloc_null:
  assumes "client_inv h L" "request_ok sz"
  shows "kmalloc sz h = Some (0, h') \<Longrightarrow> h' = h" "kmalloc_page_aligned sz h = Some (0, h') \<Longrightarrow> h' = h"
proof -
  obtain ts where ts: "heap_rep h ts" using assms(1) by (auto simp: client_inv_def)
  have pos: "0 < sz" using assms(2) by (simp add: request_ok_def)
  show "h' = h" if "kmalloc sz h = Some (0, h')"
    using kmalloc_rep [OF ts pos refl] that by (auto simp: BLOCK_HDR_SIZE_def)
  show "h' = h" if "kmalloc_page_aligned sz h = Some (0, h')"
  proof (rule ccontr)
    assume "h' \<noteq> h"
    then have "kmalloc_page_aligned sz h \<noteq> Some (0, h)" using that by simp
    from kmalloc_page_rep [OF ts pos refl round_up_request(3) [OF assms(2)] this] that
    show False by (auto simp: BLOCK_HDR_SIZE_def)
  qed
qed

lemma heap_ok_alloc:
  assumes "heap_ok P h" "request_ok sz" "kmalloc sz h = Some (a, h')"
  shows "heap_ok P h'"
proof (cases "a = 0")
  case True
  then show ?thesis using assms kmalloc_null(1) [OF _ assms(2)] by (force simp: heap_ok_def)
next
  case False
  obtain L where "client_inv h L" "\<forall>a. P a \<noteq> None \<longrightarrow> (a, 4136) \<in> L" using assms(1) by (auto simp: heap_ok_def)
  with client_inv_kmalloc [OF _ assms(2,3) False] show ?thesis by (force simp: heap_ok_def)
qed

lemma heap_ok_pipe:
  assumes "heap_ok P h" "kmalloc 4136 h = Some (a, h')"
  shows "heap_ok P h'" "a \<noteq> 0 \<Longrightarrow> P a = None" "a \<noteq> 0 \<Longrightarrow> heap_ok (P(a := x)) h'"
proof -
  obtain L where L: "client_inv h L" "\<forall>a. P a \<noteq> None \<longrightarrow> (a, 4136) \<in> L" using assms(1) by (auto simp: heap_ok_def)
  have r: "request_ok 4136" by (simp add: request_ok_def HEAP_PAGE_def)
  show "a \<noteq> 0 \<Longrightarrow> P a = None" using kmalloc_fresh [OF L(1) r assms(2)] L(2) by blast
  have i: "a \<noteq> 0 \<Longrightarrow> client_inv h' (insert (a, 4136) L)" by (rule client_inv_kmalloc [OF L(1) r assms(2)])
  show "heap_ok P h'" by (rule heap_ok_alloc [OF assms(1) r assms(2)])
  show "a \<noteq> 0 \<Longrightarrow> heap_ok (P(a := x)) h'" unfolding heap_ok_def using i L(2) by (intro exI [of _ "insert (a, 4136) L"]) auto
qed

lemma heap_ok_page:
  assumes "heap_ok P h" "kmalloc_page_aligned (PAGE_SIZE + PROCESS_STACK_SIZE) h = Some (a, h')"
  shows "heap_ok P h'"
proof -
  obtain L where L: "client_inv h L" "\<forall>a. P a \<noteq> None \<longrightarrow> (a, 4136) \<in> L" using assms(1) by (auto simp: heap_ok_def)
  have r: "request_ok (PAGE_SIZE + PROCESS_STACK_SIZE)" by (simp add: request_ok_def HEAP_PAGE_def PAGE_SIZE_def PROCESS_STACK_SIZE_def)
  show ?thesis
  proof (cases "a = 0")
    case True
    then show ?thesis using kmalloc_null(2) [OF L(1) r] assms by simp
  next
    case False
    then show ?thesis using client_inv_kmalloc_page [OF L(1) r assms(2)] L(2) by (force simp: heap_ok_def)
  qed
qed

section \<open>System calls keep the invariant\<close>

lemma stacks_ok_update: "stacks_ok K gs \<Longrightarrow> i < length K \<Longrightarrow> snd (K ! i) = g \<Longrightarrow> stacks_ok (K[i := (T, g)]) gs"
  using count_upd [of i K "\<lambda>x. snd x \<noteq> 0" "(T, g)"] by (simp add: stacks_ok_def)

lemma heap_ok_mono: "heap_ok P h \<Longrightarrow> (\<And>a. P' a \<noteq> None \<Longrightarrow> P a \<noteq> None) \<Longrightarrow> heap_ok P' h"
  by (fastforce simp: heap_ok_def)

lemma inv_drop_fd:
  assumes "kernel_inv n k" "i < MAX_PROCESSES" "fd < PROCESS_MAX_FDS" "\<not> is_pipe e'"
    and "dropped (k_fd k i fd) (k_pipes k) (k_pipes k')" "keep (k_sched k') = keep (k_sched k)" "k_heap k' = k_heap k"
    "kstack_free_list k' = kstack_free_list k"
  shows "kernel_inv n (set_fd i fd e' k')"
proof -
  note slot = inv_slot [OF assms(1,2)]
  have l: "i < length (procs (k_sched k'))" using slot(1) assms(6) by (metis length_keep)
  have K: "keep (k_sched (set_fd i fd e' k')) = (keep (k_sched k))[i := ((p_fd_table (k_proc k i))[fd := e'], p_kernel_stack_guard (k_proc k i))]"
    using keep_set_fd [OF l] assms(6) slot(3) by simp
  have "P' a \<noteq> None \<Longrightarrow> k_pipes k a \<noteq> None" if "P' = k_pipes k'" for a P'
    using assms(5) that by (force simp: dropped_def split: option.splits)
  then show ?thesis
    using assms(1,3,4) slot heap_ok_mono [of "k_pipes k" "k_heap k" "k_pipes k'"] pipes_ok_drop [OF _ assms(5) _ slot(3) _ refl assms(4)]
    by (simp add: kernel_inv_def K tables_ok_update stacks_ok_update assms(7,8))
qed

lemma inv_put_plain:
  assumes "kernel_inv n k" "i < MAX_PROCESSES" "fd < PROCESS_MAX_FDS" "\<not> is_pipe e'" "\<not> is_pipe (k_fd k i fd)"
  shows "kernel_inv n (set_fd i fd e' k)"
  by (rule inv_drop_fd [OF assms(1-4) dropped_refl]) (use assms(5) in simp_all)

lemma fd_alloc_free:
  assumes "process_fd_alloc p start = Some fd"
  shows "fd < length (p_fd_table p)" "start \<le> fd" "fd_type (p_fd_table p ! fd) = FD_NONE"
proof -
  from assms obtain j where j: "first_idx (\<lambda>e. fd_type e = FD_NONE) (drop start (p_fd_table p)) = Some j" "fd = start + j"
    by (auto simp: process_fd_alloc_def)
  from first_idx_Some_length [OF j(1)] first_idx_Some_P [OF j(1)] j(2) show "fd < length (p_fd_table p)" "start \<le> fd" "fd_type (p_fd_table p ! fd) = FD_NONE"
    by auto
qed

lemma on_net_keeps: "\<forall>m. nkeep (f m) = nkeep m \<Longrightarrow> keep (k_sched (on_net f k)) = keep (k_sched k)"
  by simp

lemma on_net_inv: "\<forall>m. nkeep (f m) = nkeep m \<Longrightarrow> kernel_inv n (on_net f k) = kernel_inv n k"
  by (rule kernel_inv_cong) simp_all

lemma sys_close_inv:
  assumes "kernel_inv n k" "env_keeps env" "i < MAX_PROCESSES"
  shows "kernel_inv n (snd (sys_close env i fd k))"
proof (cases "fd \<ge> 32 \<or> fd < 3 \<or> fd_type (k_fd k i (unat fd)) = FD_NONE")
  case True
  then show ?thesis using assms(1) by (auto simp: sys_close_def Let_def)
next
  case False
  let ?e = "k_fd k i (unat fd)"
  have fd: "unat fd < PROCESS_MAX_FDS" using False by (simp add: not_le word_less_nat_alt PROCESS_MAX_FDS_def)
  define k1 where "k1 = (case fd_type ?e of
      FD_SOCKET \<Rightarrow> on_net (\<lambda>n. snd (socket_close env (int (fd_data ?e)) n)) k
    | FD_EPOLL \<Rightarrow> k\<lparr>epoll_pool := epoll_destroy (int (fd_data ?e)) (epoll_pool k)\<rparr>
    | _ \<Rightarrow> close_pipe_end ?e k)"
  have k1: "dropped ?e (k_pipes k) (k_pipes k1)" "keep (k_sched k1) = keep (k_sched k)" "k_heap k1 = k_heap k"
    "kstack_free_list k1 = kstack_free_list k"
    using close_pipe_end_dropped [of ?e k] socket_close_keeps [OF assms(2)]
    by (auto simp: k1_def dropped_refl split: fd_type.split)
  show ?thesis
    using False inv_drop_fd [OF assms(1,3) fd _ k1, of fd_zero] by (simp add: sys_close_def Let_def fd_zero_def flip: k1_def)
qed

lemma inv_refers:
  assumes "kernel_inv n k" "i < MAX_PROCESSES" "e \<in> set (p_fd_table (k_proc k i))" "is_pipe e"
  shows "k_pipes k (fd_data e) \<noteq> None"
proof -
  note slot = inv_slot [OF assms(1,2)]
  have "keep (k_sched k) ! i \<in> set (keep (k_sched k))" using slot(1) by (intro nth_mem) simp
  moreover have "pipes_ok n (keep (k_sched k)) (k_pipes k)" using assms(1) by (simp add: kernel_inv_def)
  ultimately show ?thesis using slot(3) assms(3,4) unfolding pipes_ok_def by fastforce
qed

lemma inv_fd_refers:
  assumes "kernel_inv n k" "i < MAX_PROCESSES" "fd < PROCESS_MAX_FDS" "is_pipe (k_fd k i fd)"
  shows "k_pipes k (fd_data (k_fd k i fd)) \<noteq> None"
  using inv_refers [OF assms(1,2) nth_mem assms(4)] inv_slot(2) [OF assms(1,2)] assms(3) by simp

lemma inv_add_fd:
  assumes "kernel_inv n k" "i < MAX_PROCESSES" "fd < PROCESS_MAX_FDS" "\<not> is_pipe (k_fd k i fd)" "n + 1 < 2 ^ 32"
    and "is_pipe e \<Longrightarrow> k_pipes k (fd_data e) \<noteq> None"
  shows "kernel_inv (n + 1) (ref_pipe_end e (set_fd i fd e k))"
proof -
  note slot = inv_slot [OF assms(1,2)]
  define k' where "k' = ref_pipe_end e (set_fd i fd e k)"
  have ok: "pipes_ok n (keep (k_sched k)) (k_pipes k)" using assms(1) by (simp add: kernel_inv_def)
  have ad: "added (\<lambda>t a. hit t a e) (k_pipes k) (k_pipes k')"
    using ref_pipe_end_added [of "set_fd i fd e k" n e] ok assms(5) by (simp add: k'_def pipes_ok_def pipe_counted_def)
  have K: "keep (k_sched k') = (keep (k_sched k))[i := ((p_fd_table (k_proc k i))[fd := e], p_kernel_stack_guard (k_proc k i))]"
    using keep_set_fd [OF slot(1)] slot(3) by (simp add: k'_def)
  have dom: "k_pipes k' a \<noteq> None \<Longrightarrow> k_pipes k a \<noteq> None" for a
    using ad by (force simp: added_def split: option.splits)
  have tc: "\<forall>t\<in>{FD_PIPE_READ, FD_PIPE_WRITE}. \<forall>a.
      tab_count t a ((p_fd_table (k_proc k i))[fd := e]) \<le> tab_count t a (fst (keep (k_sched k) ! i)) + hit t a e \<and> hit t a e \<le> 1"
  proof -
    have "tab_count t a ((p_fd_table (k_proc k i))[fd := e]) \<le> tab_count t a (p_fd_table (k_proc k i)) + hit t a e" for t a
      using tab_count_update [of fd "p_fd_table (k_proc k i)" t a e] slot(2) assms(3) by simp
    then show ?thesis using slot(3) by (simp add: hit_def)
  qed
  have tb: "\<forall>x\<in>set ((p_fd_table (k_proc k i))[fd := e]). is_pipe x \<longrightarrow> k_pipes k (fd_data x) \<noteq> None"
  proof (intro ballI impI)
    fix x assume x: "x \<in> set ((p_fd_table (k_proc k i))[fd := e])" "is_pipe x"
    then have "x = e \<or> x \<in> set (p_fd_table (k_proc k i))"
      using set_update_subset_insert [of "p_fd_table (k_proc k i)" fd e] by blast
    then show "k_pipes k (fd_data x) \<noteq> None"
      using x(2) assms(6) inv_refers [OF assms(1,2), of x] by (elim disjE) simp_all
  qed
  have "pipes_ok (n + 1) (keep (k_sched k')) (k_pipes k')"
    unfolding K by (rule pipes_ok_add [OF ok ad _ tc tb]) (use slot(1) in simp)
  moreover have "heap_ok (k_pipes k') (k_heap k)"
    by (rule heap_ok_mono [OF _ dom]) (use assms(1) in \<open>simp_all add: kernel_inv_def\<close>)
  moreover have "k_heap k' = k_heap k" "kstack_free_list k' = kstack_free_list k" by (simp_all add: k'_def)
  ultimately show ?thesis
    using assms(1) slot unfolding k'_def [symmetric] by (simp add: kernel_inv_def K tables_ok_update stacks_ok_update)
qed

lemma set_fd_twice: "set_fd i fd e (set_fd i fd e' k) = set_fd i fd e k"
  by (cases "i < length (procs (k_sched k))")
    (simp_all add: set_fd_def upd_kproc_def on_sched_def on_vm_def upd_proc_def upd_nth_def list_update_beyond)

lemma k_fd_set_fd:
  "i < length (procs (k_sched k)) \<Longrightarrow> fd < length (p_fd_table (k_proc k i)) \<Longrightarrow> k_fd (set_fd i fd e k) i fd' = (if fd' = fd then e else k_fd k i fd')"
  by (simp add: set_fd_def upd_proc_def upd_nth_def)

lemma keep_k_fd: "keep (k_sched k') = keep (k_sched k) \<Longrightarrow> i < length (procs (k_sched k)) \<Longrightarrow> k_fd k' i fd = k_fd k i fd"
  by (metis fst_conv keep_nth length_keep)

lemma sys_dup2_inv:
  assumes "kernel_inv n k" "i < MAX_PROCESSES" "n + 1 < 2 ^ 32"
  shows "kernel_inv (n + 1) (snd (sys_dup2 i oldfd newfd k))"
proof (cases "oldfd \<ge> 32 \<or> newfd \<ge> 32 \<or> fd_type (k_fd k i (unat oldfd)) = FD_NONE \<or> oldfd = newfd")
  case True
  then show ?thesis using kernel_inv_mono [OF assms(1), of "n + 1"] by (auto simp: sys_dup2_def)
next
  case False
  let ?o = "unat oldfd" and ?n = "unat newfd"
  note slot = inv_slot [OF assms(1,2)]
  have b: "?o < PROCESS_MAX_FDS" "?n < PROCESS_MAX_FDS" "?o \<noteq> ?n"
    using False by (simp_all add: not_le word_less_nat_alt PROCESS_MAX_FDS_def word_unat_eq_iff)
  define k1 where "k1 = close_pipe_end (k_fd k i ?n) k"
  define k0 where "k0 = set_fd i ?n fd_zero k1"
  have k1: "keep (k_sched k1) = keep (k_sched k)" by (simp add: k1_def)
  have l: "i < length (procs (k_sched k1))" using slot(1) k1 by (metis length_keep)
  have f1: "k_fd k1 i fd = k_fd k i fd" for fd by (rule keep_k_fd [OF k1 slot(1)])
  have t1: "length (p_fd_table (k_proc k1 i)) = PROCESS_MAX_FDS"
    using slot(2,3) k1 keep_nth [OF l] by simp
  have k0: "kernel_inv n k0"
    unfolding k0_def k1_def by (rule inv_drop_fd [OF assms(1,2) b(2) _ close_pipe_end_dropped]) (simp_all add: fd_zero_def)
  have f0: "k_fd k0 i ?o = k_fd k i ?o" "k_fd k0 i ?n = fd_zero"
    using b k_fd_set_fd [OF l] t1 f1 by (simp_all add: k0_def)
  have "kernel_inv (n + 1) (ref_pipe_end (k_fd k i ?o) (set_fd i ?n (k_fd k i ?o) k0))"
    by (rule inv_add_fd [OF k0 assms(2) b(2) _ assms(3)]) (use f0 inv_fd_refers [OF k0 assms(2) b(1)] in \<open>auto simp: fd_zero_def\<close>)
  moreover have "snd (sys_dup2 i oldfd newfd k) = ref_pipe_end (k_fd k i ?o) (set_fd i ?n (k_fd k i ?o) k0)"
    using False k_fd_set_fd [OF l] t1 b f1 by (simp add: sys_dup2_def Let_def k0_def set_fd_twice flip: k1_def)
  ultimately show ?thesis by simp
qed

lemma sys_epoll_create_inv:
  assumes "kernel_inv n k" "i < MAX_PROCESSES"
  shows "kernel_inv n (snd (sys_epoll_create i k))"
proof -
  have pool: "kernel_inv n (k\<lparr>epoll_pool := p\<rparr>)" for p using assms(1) by (simp add: kernel_inv_def)
  show ?thesis
    using assms(1) pool inv_slot(2) [OF assms]
    by (auto simp: sys_epoll_create_def Let_def case_prod_beta split: option.split
        intro!: inv_put_plain [OF pool assms(2)] dest: fd_alloc_free)
qed

lemma sys_socket_inv:
  assumes "kernel_inv n k" "env_keeps env" "i < MAX_PROCESSES"
  shows "kernel_inv n (snd (sys_socket env i domain type k))"
proof -
  define m where "m = snd (socket_create type ((k_net k)\<lparr>net_sched := k_sched k\<rparr>))"
  have "net_sched m = k_sched k" by (simp add: m_def keep_frame)
  then have m: "kernel_inv n (on_net (\<lambda>_. m) k)" using assms(1) kernel_inv_cong [of "on_net (\<lambda>_. m) k" k n] by simp
  show ?thesis
    using m assms(1) inv_slot(2) [OF m assms(3)] on_net_inv [of "\<lambda>n. snd (socket_close env _ n)"] socket_close_keeps [OF assms(2)]
    by (auto simp: sys_socket_def Let_def case_prod_beta m_def [symmetric] split: option.split
        intro!: inv_put_plain [OF m assms(3)] dest: fd_alloc_free)
qed

lemma ends_none:
  assumes "pipes_ok n K P" "P a = None" "t = FD_PIPE_READ \<or> t = FD_PIPE_WRITE"
  shows "ends t a K = 0"
proof -
  have "tab_count t a (fst x) = 0" if "x \<in> set K" for x
    using assms that by (fastforce simp: tab_count_def filter_empty_conv pipes_ok_def)
  then show ?thesis by (simp add: ends_def sum_list_eq_0_iff)
qed

lemma ends_set_fd:
  assumes "kernel_inv n k" "i < MAX_PROCESSES" "fd < PROCESS_MAX_FDS"
  shows "ends t a (keep (k_sched (set_fd i fd e k))) + hit t a (k_fd k i fd) = ends t a (keep (k_sched k)) + hit t a e"
proof -
  note slot = inv_slot [OF assms(1,2)]
  have "i < length (keep (k_sched k))" using slot(1) by simp
  from ends_update [OF this, of t a "((p_fd_table (k_proc k i))[fd := e], p_kernel_stack_guard (k_proc k i))"]
  show ?thesis using keep_set_fd [OF slot(1), of fd e] tab_count_update [of fd "p_fd_table (k_proc k i)" t a e] slot assms(3) by simp
qed

text \<open>A descriptor for a pipe end that is counted but has no descriptor yet.\<close>

lemma inv_put_counted:
  assumes "kernel_inv n k" "i < MAX_PROCESSES" "fd < PROCESS_MAX_FDS" "k_pipes k (fd_data e) = Some p"
    and "fd_type e = FD_PIPE_READ \<longrightarrow> ends FD_PIPE_READ (fd_data e) (keep (k_sched k)) < unat (pipe_readers p)"
    and "fd_type e = FD_PIPE_WRITE \<longrightarrow> ends FD_PIPE_WRITE (fd_data e) (keep (k_sched k)) < unat (pipe_writers p)"
  shows "kernel_inv n (set_fd i fd e k)"
proof -
  note slot = inv_slot [OF assms(1,2)]
  let ?K = "keep (k_sched k)" and ?K' = "keep (k_sched (set_fd i fd e k))"
  have K: "?K' = ?K[i := ((p_fd_table (k_proc k i))[fd := e], p_kernel_stack_guard (k_proc k i))]"
    using keep_set_fd [OF slot(1)] slot(3) by simp
  have ok: "pipes_ok n ?K (k_pipes k)" using assms(1) by (simp add: kernel_inv_def)
  have le: "ends t a ?K' \<le> ends t a ?K + hit t a e" for t a using ends_set_fd [OF assms(1-3), of t a e] by simp
  have "pipe_counted n ?K' a q" if q: "k_pipes k a = Some q" for a q
  proof -
    have "pipe_counted n ?K a q" using ok q by (simp add: pipes_ok_def)
    then show ?thesis
      using le [of FD_PIPE_READ a] le [of FD_PIPE_WRITE a] q assms(4-6) by (auto simp: pipe_counted_def hit_def split: if_splits)
  qed
  moreover have "k_pipes k (fd_data x) \<noteq> None" if x: "y \<in> set ?K'" "x \<in> set (fst y)" "is_pipe x" for x y
  proof -
    have "y \<in> set ?K \<or> fst y = (p_fd_table (k_proc k i))[fd := e]"
      using x(1) K set_update_subset_insert [of ?K i "((p_fd_table (k_proc k i))[fd := e], p_kernel_stack_guard (k_proc k i))"] by auto
    then show ?thesis
    proof
      assume "fst y = (p_fd_table (k_proc k i))[fd := e]"
      then have "x = e \<or> x \<in> set (p_fd_table (k_proc k i))"
        using x(2) set_update_subset_insert [of "p_fd_table (k_proc k i)" fd e] by auto
      then show ?thesis using x(3) assms(4) inv_refers [OF assms(1,2)] by (elim disjE) simp_all
    qed (use ok x(2,3) in \<open>auto simp: pipes_ok_def\<close>)
  qed
  ultimately have "pipes_ok n ?K' (k_pipes k)" unfolding pipes_ok_def by blast
  then show ?thesis using assms(1) slot by (simp add: kernel_inv_def K tables_ok_update stacks_ok_update)
qed

lemma inv_new_pipe:
  assumes "kernel_inv n k" "1 \<le> n" "kmalloc 4136 (k_heap k) = Some (a, h)" "a \<noteq> 0" "pipe_create True = (r, Some p)"
  shows "kernel_inv n (set_pipe a (Some p) (k\<lparr>k_heap := h\<rparr>))" "k_pipes k a = None"
proof -
  have ok: "heap_ok (k_pipes k) (k_heap k)" "pipes_ok n (keep (k_sched k)) (k_pipes k)" using assms(1) by (simp_all add: kernel_inv_def)
  show none: "k_pipes k a = None" by (rule heap_ok_pipe(2) [OF ok(1) assms(3,4)])
  have e: "ends FD_PIPE_READ a (keep (k_sched k)) = 0" "ends FD_PIPE_WRITE a (keep (k_sched k)) = 0"
    by (rule ends_none [OF ok(2) none], simp)+
  have "pipe_counted n (keep (k_sched k)) a p"
    using assms(2,5) e pipe_create_inv [OF assms(5)] by (auto simp: pipe_counted_def pipe_create_def)
  then have "pipes_ok n (keep (k_sched k)) ((k_pipes k)(a := Some p))" using ok(2) by (auto simp: pipes_ok_def)
  then show "kernel_inv n (set_pipe a (Some p) (k\<lparr>k_heap := h\<rparr>))"
    using assms(1) heap_ok_pipe(3) [OF ok(1) assms(3,4)] by (simp add: kernel_inv_def)
qed

text \<open>Handing out the two ends of a pipe that no descriptor refers to yet, and taking the first one back.\<close>

lemma inv_pipe_ends:
  assumes "kernel_inv n k" "i < MAX_PROCESSES" "rfd < PROCESS_MAX_FDS" "k_pipes k a = Some p" "pipe_readers p = 1" "pipe_writers p = 1"
    and "ends FD_PIPE_READ a (keep (k_sched k)) = 0" "ends FD_PIPE_WRITE a (keep (k_sched k)) = 0"
    and k3: "k3 = set_fd i rfd ((k_fd k i rfd)\<lparr>fd_type := FD_PIPE_READ, fd_data := a\<rparr>) k"
  shows "kernel_inv n k3" "kernel_inv n (set_fd i rfd ((k_fd k3 i rfd)\<lparr>fd_type := FD_NONE\<rparr>) k3)"
    "wfd < PROCESS_MAX_FDS \<Longrightarrow> kernel_inv n (set_fd i wfd ((k_fd k3 i wfd)\<lparr>fd_type := FD_PIPE_WRITE, fd_data := a\<rparr>) k3)"
proof -
  note slot = inv_slot [OF assms(1,2)]
  show i3: "kernel_inv n k3"
    unfolding k3 by (rule inv_put_counted [OF assms(1-3), of _ p]) (use assms(4-8) in simp_all)
  show "kernel_inv n (set_fd i rfd ((k_fd k3 i rfd)\<lparr>fd_type := FD_NONE\<rparr>) k3)"
    by (rule inv_put_counted [OF i3 assms(2,3)])
      (use assms(3,4) k_fd_set_fd [OF slot(1), of rfd] slot(2) in \<open>simp_all add: k3\<close>)
  have "ends FD_PIPE_WRITE a (keep (k_sched k3)) = 0"
    using ends_set_fd [OF assms(1-3), of FD_PIPE_WRITE a "(k_fd k i rfd)\<lparr>fd_type := FD_PIPE_READ, fd_data := a\<rparr>"] assms(8)
    by (simp add: k3 hit_def)
  then show "wfd < PROCESS_MAX_FDS \<Longrightarrow> kernel_inv n (set_fd i wfd ((k_fd k3 i wfd)\<lparr>fd_type := FD_PIPE_WRITE, fd_data := a\<rparr>) k3)"
    by (intro inv_put_counted [OF i3 assms(2), of _ _ p]) (use assms(4,6) in \<open>simp_all add: k3\<close>)
qed

lemma sys_pipe_inv:
  assumes "kernel_inv n k" "1 \<le> n" "i < MAX_PROCESSES" "sys_pipe i u k = Some (r, fds, k')"
  shows "kernel_inv n k'"
proof (cases "u \<ge> KERNEL_VMA \<or> u + 8 \<ge> KERNEL_VMA")
  case True
  then show ?thesis using assms(1,4) by (auto simp: sys_pipe_def)
next
  case False
  obtain a h where m: "kmalloc 4136 (k_heap k) = Some (a, h)"
    using False assms(4) by (auto simp: sys_pipe_def bind_eq_Some_conv)
  show ?thesis
  proof (cases "a = 0")
    case True
    then have "k' = k\<lparr>k_heap := h\<rparr>" using False m assms(4) by (simp add: sys_pipe_def pipe_create_def)
    then show ?thesis using assms(1) heap_ok_pipe(1) [OF _ m] by (simp add: kernel_inv_def)
  next
    case a: False
    obtain p where p: "pipe_create True = (0, Some p)" "pipe_readers p = 1" "pipe_writers p = 1" by (auto simp: pipe_create_def)
    define k2 where "k2 = set_pipe a (Some p) (k\<lparr>k_heap := h\<rparr>)"
    note k2 = inv_new_pipe [OF assms(1,2) m a p(1), folded k2_def]
    have e: "ends FD_PIPE_READ a (keep (k_sched k2)) = 0" "ends FD_PIPE_WRITE a (keep (k_sched k2)) = 0"
      using assms(1) ends_none [where P = "k_pipes k" and K = "keep (k_sched k)" and n = n, OF _ k2(2)]
      by (simp_all add: k2_def kernel_inv_def)
    have P: "k_pipes k2 a = Some p" by (simp add: k2_def)
    have eq: "sys_pipe i u k = (case process_fd_alloc (k_proc k2 i) 3 of None \<Rightarrow> Some (-1, None, k2)
      | Some rfd \<Rightarrow>
          (let k3 = set_fd i rfd ((k_fd k2 i rfd)\<lparr>fd_type := FD_PIPE_READ, fd_data := a\<rparr>) k2 in
           case process_fd_alloc (k_proc k3 i) (rfd + 1) of
             None \<Rightarrow> Some (-1, None, set_fd i rfd ((k_fd k3 i rfd)\<lparr>fd_type := FD_NONE\<rparr>) k3)
           | Some wfd \<Rightarrow> Some (0, Some (rfd, wfd), set_fd i wfd ((k_fd k3 i wfd)\<lparr>fd_type := FD_PIPE_WRITE, fd_data := a\<rparr>) k3)))"
      unfolding k2_def sys_pipe_def using False m a p(1) by (simp add: Let_def)
    show ?thesis
    proof (cases "process_fd_alloc (k_proc k2 i) 3")
      case None
      then show ?thesis using eq k2(1) assms(4) by simp
    next
      case (Some rfd)
      have rfd: "rfd < PROCESS_MAX_FDS" using fd_alloc_free(1) [OF Some] inv_slot(2) [OF k2(1) assms(3)] by simp
      define k3 where "k3 = set_fd i rfd ((k_fd k2 i rfd)\<lparr>fd_type := FD_PIPE_READ, fd_data := a\<rparr>) k2"
      note k3 = inv_pipe_ends [OF k2(1) assms(3) rfd P p(2,3) e k3_def]
      show ?thesis
        using eq Some assms(4) k3(1,2) inv_slot(2) [OF k3(1) assms(3)]
        by (auto simp: Let_def simp flip: k3_def split: option.splits intro!: k3(3) dest: fd_alloc_free(1))
    qed
  qed
qed

section \<open>Processes and kernel stacks\<close>

lemma stacks_count_le: "length (filter (\<lambda>x. snd x \<noteq> 0) (K[i := x])) \<le> length (filter (\<lambda>x. snd x \<noteq> 0) K) + 1"
  by (cases "i < length K") (use count_upd [of i K "\<lambda>x. snd x \<noteq> 0" x] in \<open>auto simp: list_update_beyond split: if_splits\<close>)

lemma alloc_stack_inv:
  assumes "kernel_inv n k" "process_alloc_kernel_stack k = Some (g, k1)"
  shows "kernel_inv n k1" "k_vm k1 = k_vm k" "k_pipes k1 = k_pipes k" "stacks_ok ((keep (k_sched k1))[i := x]) (kstack_free_list k1)"
proof -
  let ?c = "\<lambda>K :: (process_fd list \<times> u64) list. length (filter (\<lambda>x. snd x \<noteq> 0) K)"
  have inv: "length (keep (k_sched k)) = MAX_PROCESSES" "stacks_ok (keep (k_sched k)) (kstack_free_list k)" "heap_ok (k_pipes k) (k_heap k)"
    using assms(1) by (simp_all add: kernel_inv_def tables_ok_def)
  have "kernel_inv n k1 \<and> k_vm k1 = k_vm k \<and> k_pipes k1 = k_pipes k \<and> stacks_ok ((keep (k_sched k1))[i := x]) (kstack_free_list k1)"
  proof (cases "kstack_free_list k")
    case Nil
    then obtain h where h: "kmalloc_page_aligned (PAGE_SIZE + PROCESS_STACK_SIZE) (k_heap k) = Some (g, h)" "k1 = k\<lparr>k_heap := h\<rparr>"
      using assms(2) by (auto simp: process_alloc_kernel_stack_def bind_eq_Some_conv)
    have "?c ((keep (k_sched k))[i := x]) \<le> MAX_PROCESSES"
      using length_filter_le [of "\<lambda>x. snd x \<noteq> 0" "(keep (k_sched k))[i := x]"] inv(1) by simp
    then show ?thesis using Nil assms(1) h heap_ok_page [OF inv(3) h(1)] by (simp add: kernel_inv_def stacks_ok_def)
  next
    case (Cons g' gs)
    then have "k1 = k\<lparr>kstack_free_list := gs\<rparr>" using assms(2) by (simp add: process_alloc_kernel_stack_def)
    then show ?thesis using Cons assms(1) inv(2) stacks_count_le [of "keep (k_sched k)" i x] by (simp add: kernel_inv_def stacks_ok_def)
  qed
  then show "kernel_inv n k1" "k_vm k1 = k_vm k" "k_pipes k1 = k_pipes k" "stacks_ok ((keep (k_sched k1))[i := x]) (kstack_free_list k1)"
    by blast+
qed

lemma inv_new_slot:
  assumes "kernel_inv n k" "i < MAX_PROCESSES" "length T = PROCESS_MAX_FDS" "\<forall>e\<in>set T. \<not> is_pipe e"
    and "keep (k_sched k') = (keep (k_sched k))[i := (T, g)]" "k_pipes k' = k_pipes k" "k_heap k' = k_heap k"
    and "stacks_ok ((keep (k_sched k))[i := (T, g)]) (kstack_free_list k')"
  shows "kernel_inv n k'"
  using assms inv_slot(1) [OF assms(1,2)] pipes_ok_replace [of n "keep (k_sched k)" "k_pipes k" i T g]
  by (simp add: kernel_inv_def tables_ok_update)

lemma process_create_inv:
  assumes "kernel_inv n k" "process_create name entry k = Some (r, k')"
  shows "kernel_inv n k'"
proof (cases "first_idx (\<lambda>p. p_state p = PROCESS_UNUSED) (procs (k_sched k))")
  case None
  then show ?thesis using assms by (simp add: process_create_def)
next
  case (Some i)
  have i: "i < MAX_PROCESSES" using first_idx_Some_length [OF Some] assms(1) by (simp add: kernel_inv_def tables_ok_def)
  obtain g k1 where a: "process_alloc_kernel_stack k = Some (g, k1)"
    using Some assms(2) by (auto simp: process_create_def bind_eq_Some_conv)
  note k1 = alloc_stack_inv [OF assms(1) a]
  show ?thesis
  proof (cases "g = 0")
    case True
    then show ?thesis using Some a assms(2) k1(1) by (simp add: process_create_def)
  next
    case False
    have "length console_fds = PROCESS_MAX_FDS" "\<forall>e\<in>set console_fds. \<not> is_pipe e"
      by (auto simp: console_fds_def PROCESS_MAX_FDS_def fd_zero_def)
    moreover have "keep (k_sched k') = (keep (k_sched k1))[i := (console_fds, of_nat g)]" "k_pipes k' = k_pipes k1" "k_heap k' = k_heap k1"
      "kstack_free_list k' = kstack_free_list k1"
      using Some a False assms(2) inv_slot(1) [OF k1(1) i]
      by (auto simp: process_create_def Let_def keep_frame keep_upd_proc sched_frame kept_def)
    ultimately show ?thesis using inv_new_slot [OF k1(1) i, of console_fds k'] k1(4) by simp
  qed
qed

text \<open>A kernel stack always goes back to the pool: there are fewer than 64 in it while a process still has one.\<close>

lemma free_kernel_stack_pooled:
  assumes "kernel_inv n k" "z < MAX_PROCESSES" "p_kernel_stack_guard (k_proc k z) \<noteq> 0"
  shows "\<exists>v. free_kernel_stack g k = Some (k\<lparr>k_vm := v, kstack_free_list := g # kstack_free_list k\<rparr>) \<and> vm_sched v = k_sched k"
proof -
  note slot = inv_slot [OF assms(1,2)]
  have "z < length (keep (k_sched k))" using slot(1) by simp
  then have "keep (k_sched k) ! z \<in> set (filter (\<lambda>x. snd x \<noteq> 0) (keep (k_sched k)))" using slot(3) assms(3) by (auto simp: in_set_conv_nth)
  from length_pos_if_in_set [OF this] have "length (kstack_free_list k) < MAX_PROCESSES"
    using assms(1) unfolding kernel_inv_def stacks_ok_def by linarith
  then show ?thesis
    by (auto simp: free_kernel_stack_def Let_def case_prod_beta sched_frame intro!: exI)
qed

lemma reap_inv:
  assumes "kernel_inv n k" "z < MAX_PROCESSES"
  shows "\<exists>k'. reap z k = Some ((p_pid (k_proc k z), p_exit_code (k_proc k z)), k') \<and> kernel_inv n k' \<and>
    p_state (k_proc k' z) = PROCESS_UNUSED \<and> k_heap k' = k_heap k \<and>
    kstack_free_list k' = (if p_kernel_stack_guard (k_proc k z) = 0 then [] else [unat (p_kernel_stack_guard (k_proc k z))]) @ kstack_free_list k"
proof -
  note slot = inv_slot [OF assms]
  let ?st = "upd_kproc z (\<lambda>p. p\<lparr>p_state := PROCESS_UNUSED\<rparr>)"
  have st: "kernel_inv n (?st k1) = kernel_inv n k1" for k1 by (rule kernel_inv_cong) (simp_all add: keep_frame)
  have un: "p_state (k_proc (?st k1) z) = PROCESS_UNUSED" if "z < length (procs (k_sched k1))" for k1
    using that by (simp add: upd_proc_def upd_nth_def)
  show ?thesis
  proof (cases "p_kernel_stack_guard (k_proc k z) = 0")
    case True
    then show ?thesis using assms(1) st un [OF slot(1)] by (simp add: reap_def)
  next
    case False
    from free_kernel_stack_pooled [OF assms False] obtain v where
      v: "free_kernel_stack (unat (p_kernel_stack_guard (k_proc k z))) k =
          Some (k\<lparr>k_vm := v, kstack_free_list := unat (p_kernel_stack_guard (k_proc k z)) # kstack_free_list k\<rparr>)" "vm_sched v = k_sched k"
      by blast
    define k1 where "k1 = upd_kproc z (\<lambda>p. p\<lparr>p_kernel_stack_guard := 0\<rparr>)
      (k\<lparr>k_vm := v, kstack_free_list := unat (p_kernel_stack_guard (k_proc k z)) # kstack_free_list k\<rparr>)"
    have K: "keep (k_sched k1) = (keep (k_sched k))[z := (p_fd_table (k_proc k z), 0)]"
      using slot(1) v(2) by (simp add: k1_def keep_upd_proc kept_def)
    have z: "z < length (keep (k_sched k))" using slot(1) by simp
    have c: "k_pipes k1 = k_pipes k" "k_heap k1 = k_heap k" "kstack_free_list k1 = unat (p_kernel_stack_guard (k_proc k z)) # kstack_free_list k"
      by (simp_all add: k1_def)
    have "stacks_ok (keep (k_sched k1)) (kstack_free_list k1)"
      using assms(1) count_upd [OF z, of "\<lambda>x. snd x \<noteq> 0" "(p_fd_table (k_proc k z), 0)"] slot(3) False
      by (simp add: kernel_inv_def stacks_ok_def K c)
    then have "kernel_inv n k1"
      using assms(1) slot z pipes_ok_guard [OF _ z] by (simp add: kernel_inv_def K c tables_ok_update)
    moreover have "z < length (procs (k_sched k1))" using slot(1) v(2) by (simp add: k1_def upd_proc_def)
    moreover have "reap z k = Some ((p_pid (k_proc k z), p_exit_code (k_proc k z)), ?st k1)" using False v(1) by (simp add: reap_def k1_def)
    ultimately show ?thesis using st [of k1] un [of k1] c False by (intro exI [of _ "?st k1"]) simp
  qed
qed

lemma wait_zombie_slot: "wait_zombie c cur s = Some z \<Longrightarrow> z < length (procs s)"
  by (auto simp: wait_zombie_def process_find_zombie_child_def process_get_by_pid_def scan_simps split: if_splits option.splits)

lemma wait_for_inv:
  assumes "kernel_inv n k" "process_wait_for c cur k = Some (r, k')"
  shows "kernel_inv n k'"
proof (cases "wait_zombie c cur (k_sched k)")
  case None
  have "kernel_inv n (on_sched schedule (upd_kproc cur (\<lambda>p. p\<lparr>p_wait_for_pid := c, p_state := PROCESS_BLOCKED\<rparr>) k)) = kernel_inv n k"
    by (rule kernel_inv_cong) (simp_all add: keep_frame)
  with None show ?thesis using assms by (auto simp: process_wait_for_def split: if_splits)
next
  case (Some z)
  have "z < MAX_PROCESSES" using wait_zombie_slot [OF Some] assms(1) by (simp add: kernel_inv_def tables_ok_def)
  from reap_inv [OF assms(1) this] Some assms(2) show ?thesis by (auto simp: process_wait_for_def)
qed

lemma wait_resumed_inv:
  assumes "kernel_inv n k" "process_wait_resumed c cur k = Some (r, k')"
  shows "kernel_inv n k'"
proof (cases "wait_zombie c cur (k_sched k)")
  case None
  then show ?thesis using assms by (simp add: process_wait_resumed_def)
next
  case (Some z)
  have "z < MAX_PROCESSES" using wait_zombie_slot [OF Some] assms(1) by (simp add: kernel_inv_def tables_ok_def)
  from reap_inv [OF assms(1) this] Some assms(2) show ?thesis by (auto simp: process_wait_resumed_def)
qed

section \<open>Exit\<close>

lemma exit_fd_inv:
  assumes "kernel_inv n k" "env_keeps env" "i < MAX_PROCESSES" "fd < PROCESS_MAX_FDS"
  shows "kernel_inv n (exit_fd env i fd k)"
proof -
  let ?e = "k_fd k i fd"
  have c: "kernel_inv n (set_fd i fd (?e\<lparr>fd_type := FD_NONE\<rparr>) (close_pipe_end ?e k))"
    by (rule inv_drop_fd [OF assms(1,3,4) _ close_pipe_end_dropped]) simp_all
  have s: "kernel_inv n (set_fd i fd (?e\<lparr>fd_type := FD_NONE\<rparr>) (on_net (\<lambda>n. snd (socket_close env (int (fd_data ?e)) n)) k))"
    if "fd_type ?e = FD_SOCKET"
    by (rule inv_drop_fd [OF assms(1,3,4)]) (use that socket_close_keeps [OF assms(2)] in \<open>simp_all add: dropped_refl\<close>)
  show ?thesis using c s assms(1) by (auto simp: exit_fd_def Let_def split: fd_type.split)
qed

lemma exit_fds_inv:
  assumes "kernel_inv n k" "env_keeps env" "i < MAX_PROCESSES" "set fds \<subseteq> {..<PROCESS_MAX_FDS}"
  shows "kernel_inv n (fold (exit_fd env i) fds k)"
  using assms(1,4) by (induction fds arbitrary: k) (simp_all add: exit_fd_inv assms(2,3))

lemma free_user_space_keep [simp]:
  "keep (k_sched (free_user_space i k)) = keep (k_sched k)" "k_pipes (free_user_space i k) = k_pipes k"
  "k_heap (free_user_space i k) = k_heap k" "kstack_free_list (free_user_space i k) = kstack_free_list k"
  by (simp_all add: free_user_space_def Let_def sched_frame keep_frame)

lemma syscall_exit_frame:
  "keep (k_sched (syscall_exit env i st k)) = keep (k_sched (fold (exit_fd env i) [0..<PROCESS_MAX_FDS] k))"
  "k_pipes (syscall_exit env i st k) = k_pipes (fold (exit_fd env i) [0..<PROCESS_MAX_FDS] k)"
  "k_heap (syscall_exit env i st k) = k_heap (fold (exit_fd env i) [0..<PROCESS_MAX_FDS] k)"
  "kstack_free_list (syscall_exit env i st k) = kstack_free_list (fold (exit_fd env i) [0..<PROCESS_MAX_FDS] k)"
  by (simp_all add: syscall_exit_def Let_def keep_frame)

lemma syscall_exit_inv:
  assumes "kernel_inv n k" "env_keeps env" "i < MAX_PROCESSES"
  shows "kernel_inv n (syscall_exit env i st k)"
  using exit_fds_inv [OF assms, of "[0..<PROCESS_MAX_FDS]"] kernel_inv_cong [OF syscall_exit_frame]
  by (simp add: atLeast0LessThan)

section \<open>Fork\<close>

definition fd_hits :: "process_fd list \<Rightarrow> nat list \<Rightarrow> fd_type \<Rightarrow> nat \<Rightarrow> nat" where
  "fd_hits T fds t a = (\<Sum>fd\<leftarrow>fds. hit t a (T ! fd))"

lemma tab_count_sum: "tab_count t a T = (\<Sum>e\<leftarrow>T. hit t a e)"
  by (induction T) (simp_all add: tab_count_def hit_def)

lemma fd_hits_all: "fd_hits T [0..<length T] t a = tab_count t a T"
proof -
  have "map (\<lambda>fd. hit t a (T ! fd)) [0..<length T] = map (hit t a) T" by (rule nth_equalityI) simp_all
  then show ?thesis by (simp add: fd_hits_def tab_count_sum)
qed

lemma tab_count_le: "tab_count t a T \<le> length T"
  by (simp add: tab_count_def)

lemma added_trans:
  assumes "added c P P'" "added d P' P''"
  shows "added (\<lambda>t a. c t a + d t a) P P''"
  unfolding added_def
proof (intro allI)
  fix a
  show "case P a of None \<Rightarrow> P'' a = None
     | Some p \<Rightarrow> \<exists>p'. P'' a = Some p' \<and> (pipe_inv p \<longrightarrow> pipe_inv p') \<and>
         unat (pipe_readers p') = unat (pipe_readers p) + (c FD_PIPE_READ a + d FD_PIPE_READ a) \<and>
         unat (pipe_writers p') = unat (pipe_writers p) + (c FD_PIPE_WRITE a + d FD_PIPE_WRITE a)"
    using assms(1) [unfolded added_def, THEN spec, of a] assms(2) [unfolded added_def, THEN spec, of a]
    by (cases "P a") auto
qed

definition counters_le :: "nat \<Rightarrow> (nat \<Rightarrow> pipe option) \<Rightarrow> bool" where
  "counters_le n P \<longleftrightarrow> (\<forall>a p. P a = Some p \<longrightarrow> unat (pipe_readers p) \<le> n \<and> unat (pipe_writers p) \<le> n)"

lemma counters_le_added:
  assumes "counters_le n P" "added (\<lambda>t a. hit t a e) P P'"
  shows "counters_le (n + 1) P'"
  unfolding counters_le_def
proof (intro allI impI)
  fix a p' assume "P' a = Some p'"
  with assms(2) obtain p where "P a = Some p" "unat (pipe_readers p') = unat (pipe_readers p) + hit FD_PIPE_READ a e"
    "unat (pipe_writers p') = unat (pipe_writers p) + hit FD_PIPE_WRITE a e" by (force simp: added_def split: option.splits)
  moreover have "hit FD_PIPE_READ a e \<le> 1" "hit FD_PIPE_WRITE a e \<le> 1" by (simp_all add: hit_def)
  moreover have "unat (pipe_readers p) \<le> n" "unat (pipe_writers p) \<le> n" using assms(1) \<open>P a = Some p\<close> by (simp_all add: counters_le_def)
  ultimately show "unat (pipe_readers p') \<le> n + 1 \<and> unat (pipe_writers p') \<le> n + 1" by linarith
qed

lemma fork_ref_frame:
  "keep (k_sched (fork_ref c fd k)) = keep (k_sched k)" "k_heap (fork_ref c fd k) = k_heap k"
  "kstack_free_list (fork_ref c fd k) = kstack_free_list k"
  by (simp_all add: fork_ref_def Let_def keep_frame)

lemma fork_ref_added:
  assumes "counters_le n (k_pipes k)" "n + 1 < 2 ^ 32"
  shows "added (\<lambda>t a. hit t a (k_fd k c fd)) (k_pipes k) (k_pipes (fork_ref c fd k))"
proof (cases "fd_type (k_fd k c fd) = FD_SOCKET")
  case True
  then show ?thesis by (auto simp: added_def fork_ref_def hit_def Let_def split: option.split)
next
  case False
  then show ?thesis using ref_pipe_end_added [OF assms(1) [unfolded counters_le_def] assms(2)] by (simp add: fork_ref_def Let_def)
qed

lemma fork_refs:
  assumes "counters_le n (k_pipes k)" "n + length fds < 2 ^ 32" "c < length (procs (k_sched k))"
  shows "keep (k_sched (fold (fork_ref c) fds k)) = keep (k_sched k) \<and> k_heap (fold (fork_ref c) fds k) = k_heap k \<and>
    kstack_free_list (fold (fork_ref c) fds k) = kstack_free_list k \<and>
    added (fd_hits (p_fd_table (k_proc k c)) fds) (k_pipes k) (k_pipes (fold (fork_ref c) fds k))"
  using assms
proof (induction fds arbitrary: k n)
  case Nil
  then show ?case by (simp add: fd_hits_def added_refl)
next
  case (Cons fd fds)
  let ?k = "fork_ref c fd k"
  have ad: "added (\<lambda>t a. hit t a (k_fd k c fd)) (k_pipes k) (k_pipes ?k)" by (rule fork_ref_added [OF Cons.prems(1)]) (use Cons.prems(2) in simp)
  have T: "p_fd_table (k_proc ?k c) = p_fd_table (k_proc k c)" "c < length (procs (k_sched ?k))"
    using fork_ref_frame(1) [of c fd k] Cons.prems(3) by (metis keep_nth length_keep prod.inject, metis length_keep)
  note IH = Cons.IH [OF counters_le_added [OF Cons.prems(1) ad] _ T(2)]
  have "n + 1 + length fds < 2 ^ 32" using Cons.prems(2) by simp
  note IH = IH [OF this, unfolded T(1) fork_ref_frame]
  show ?case using IH added_trans [OF ad, of "fd_hits (p_fd_table (k_proc k c)) fds"] by (simp add: fd_hits_def [abs_def])
qed

text \<open>The slot of the child, cleared.\<close>

lemma process_alloc_inv:
  assumes "kernel_inv n k" "process_alloc (k_sched k) = (Some c, sc)"
  shows "kernel_inv n (on_sched (\<lambda>_. sc) k)" "c < MAX_PROCESSES"
proof -
  have f: "first_idx (\<lambda>p. p_state p = PROCESS_UNUSED) (procs (k_sched k)) = Some c"
    using assms(2) by (auto simp: process_alloc_def split: option.splits)
  show c: "c < MAX_PROCESSES" using first_idx_Some_length [OF f] assms(1) by (simp add: kernel_inv_def tables_ok_def)
  let ?T = "replicate PROCESS_MAX_FDS fd_zero"
  have l: "c < length (keep (k_sched k))" using first_idx_Some_length [OF f] by simp
  have K: "keep sc = (keep (k_sched k))[c := (?T, 0)]"
    using assms(2) f l by (auto simp: process_alloc_def keep_frame keep_upd_proc kept_def process_zero_def)
  have "stacks_ok ((keep (k_sched k))[c := (?T, 0)]) (kstack_free_list k)"
    using assms(1) count_upd [OF l, of "\<lambda>x. snd x \<noteq> 0" "(?T, 0)"] by (simp add: kernel_inv_def stacks_ok_def)
  then show "kernel_inv n (on_sched (\<lambda>_. sc) k)"
    by (intro inv_new_slot [OF assms(1) c, of ?T]) (auto simp: K fd_zero_def)
qed

text \<open>A copy of the table of the parent, with every pipe end counted once more.\<close>

lemma inv_copied_table:
  assumes "kernel_inv n k" "n + 32 < 2 ^ 32" "c < MAX_PROCESSES" "par < MAX_PROCESSES"
    and "keep (k_sched k5) = (keep (k_sched k))[c := (p_fd_table (k_proc k par), g)]" "k_pipes k5 = k_pipes k" "k_heap k5 = k_heap k"
    and "kstack_free_list k5 = kstack_free_list k" "stacks_ok (keep (k_sched k5)) (kstack_free_list k)"
  shows "kernel_inv (n + 32) (fold (fork_ref c) [0..<PROCESS_MAX_FDS] k5)"
proof -
  let ?T = "p_fd_table (k_proc k par)" and ?k = "fold (fork_ref c) [0..<PROCESS_MAX_FDS] k5"
  note slot = inv_slot [OF assms(1,3)] and par = inv_slot [OF assms(1,4)]
  have ok: "pipes_ok n (keep (k_sched k)) (k_pipes k)" using assms(1) by (simp add: kernel_inv_def)
  have c5: "c < length (procs (k_sched k5))" using slot(1) assms(5) by (metis length_keep length_list_update)
  have T5: "p_fd_table (k_proc k5 c) = ?T" using keep_nth [OF c5] assms(5) slot(1) by simp
  have "counters_le n (k_pipes k5)" using ok assms(6) by (auto simp: counters_le_def pipes_ok_def pipe_counted_def)
  from fork_refs [OF this _ c5, of "[0..<PROCESS_MAX_FDS]"] have
    r: "keep (k_sched ?k) = keep (k_sched k5)" "k_heap ?k = k_heap k" "kstack_free_list ?k = kstack_free_list k"
    "added (fd_hits ?T [0..<PROCESS_MAX_FDS]) (k_pipes k) (k_pipes ?k)"
    using assms(2,6-8) T5 by (simp_all add: PROCESS_MAX_FDS_def)
  have ad: "added (\<lambda>t a. tab_count t a ?T) (k_pipes k) (k_pipes ?k)"
    using r(4) fd_hits_all [of ?T] par(2) by (simp add: ext [of "fd_hits _ _"] fd_hits_def [abs_def])
  have "pipes_ok (n + 32) (keep (k_sched ?k)) (k_pipes ?k)"
    unfolding r(1) assms(5)
  proof (rule pipes_ok_add [OF ok ad])
    show "\<forall>t\<in>{FD_PIPE_READ, FD_PIPE_WRITE}. \<forall>a. tab_count t a ?T \<le> tab_count t a (fst (keep (k_sched k) ! c)) + tab_count t a ?T \<and> tab_count t a ?T \<le> 32"
      using tab_count_le [of _ _ ?T] par(2) by (simp add: PROCESS_MAX_FDS_def)
  qed (use slot(1) inv_refers [OF assms(1,4)] in auto)
  moreover have "heap_ok (k_pipes ?k) (k_heap k)"
    by (rule heap_ok_mono [of "k_pipes k"]) (use assms(1) ad in \<open>force simp: kernel_inv_def added_def split: option.splits\<close>)+
  ultimately show ?thesis using assms(1,5,9) r(1-3) par(2) by (simp add: kernel_inv_def tables_ok_update)
qed

text \<open>The last part of \<^verbatim>\<open>syscall_fork\<close>, once stack and address space of the child exist.\<close>

lemma fork_finish_inv:
  assumes "kernel_inv n k" "n + 32 < 2 ^ 32" "c < MAX_PROCESSES" "par < MAX_PROCESSES" "\<And>x. stacks_ok ((keep (k_sched k))[c := x]) (kstack_free_list k)"
  shows "kernel_inv (n + 32) (on_sched (scheduler_add c) (upd_kproc c (fork_inherit pp tr rsp)
    (fold (fork_ref c) [0..<PROCESS_MAX_FDS] (upd_kproc c (fork_image (k_proc k par) g tp cr) (k\<lparr>k_frames := F\<rparr>)))))"
    (is "kernel_inv _ (on_sched _ (upd_kproc _ _ (fold _ _ ?k5)))")
proof -
  have K5: "keep (k_sched ?k5) = (keep (k_sched k))[c := (p_fd_table (k_proc k par), g)]"
    using inv_slot(1) [OF assms(1,3)] by (simp add: keep_upd_proc kept_def fork_image_def)
  have "stacks_ok (keep (k_sched ?k5)) (kstack_free_list k)" using assms(5) unfolding K5 .
  then have "kernel_inv (n + 32) (fold (fork_ref c) [0..<PROCESS_MAX_FDS] ?k5)"
    by (intro inv_copied_table [OF assms(1-4) K5]) simp_all
  moreover have "keep (upd_proc c (fork_inherit pp tr rsp) s) = keep s" for s
    by (rule keep_upd_same) (simp add: kept_def fork_inherit_def vma_fork_copy_def)
  ultimately show ?thesis by (simp add: kernel_inv_def keep_frame)
qed

lemma syscall_fork_inv:
  assumes "kernel_inv n k" "n + 32 < 2 ^ 32" "par < MAX_PROCESSES" "syscall_fork tr par fr k = Some (r, k')"
  shows "kernel_inv (n + 32) k'"
proof -
  have mono: "kernel_inv n k1 \<Longrightarrow> kernel_inv (n + 32) k1" for k1 by (erule kernel_inv_mono) simp
  obtain co sc where pa: "process_alloc (k_sched k) = (co, sc)" by fastforce
  show ?thesis
  proof (cases co)
    case None
    then have "sc = k_sched k" using pa by (auto simp: process_alloc_def split: option.splits)
    then have "kernel_inv n (on_sched (\<lambda>_. sc) k)" using assms(1) kernel_inv_cong [of "on_sched (\<lambda>_. sc) k" k n] by simp
    then show ?thesis using None pa assms(4) mono by (auto simp: syscall_fork_def)
  next
    case (Some c)
    note k1 = process_alloc_inv [OF assms(1) pa [unfolded Some]]
    obtain g k2 where st: "process_alloc_kernel_stack (on_sched (\<lambda>_. sc) k) = Some (g, k2)"
      using Some pa assms(4) by (auto simp: syscall_fork_def bind_eq_Some_conv)
    note k2 = alloc_stack_inv [OF k1(1) st]
    obtain cr v where v: "user_vm_fork_address_space (unat (p_cr3 (k_proc k2 par))) (vmm_unmap_page (of_nat g) (k_vm k2)) = (cr, v)" by fastforce
    then have sv: "vm_sched v = k_sched k2" using fork_space_sched [of "unat (p_cr3 (k_proc k2 par))" "vmm_unmap_page (of_nat g) (k_vm k2)"]
      by (simp add: sched_frame)
    define k3 where "k3 = k2\<lparr>k_vm := v\<rparr>"
    have k3: "kernel_inv n k3" "stacks_ok ((keep (k_sched k3))[c := x]) (kstack_free_list k3)" for x
      using k2(1,4) kernel_inv_cong [of k3 k2 n] sv by (simp_all add: k3_def)
    show ?thesis
      using Some pa st v assms(4) k2(1) k3(1) mono fork_finish_inv [OF k3(1) assms(2) k1(2) assms(3) k3(2)]
      by (auto simp: syscall_fork_def Let_def simp flip: k3_def split: if_splits)
  qed
qed

section \<open>Pipe traffic and the timer\<close>

lemma inv_same_counts:
  assumes "kernel_inv n k" "k_pipes k a = Some p" "pipe_inv q" "pipe_readers q = pipe_readers p" "pipe_writers q = pipe_writers p"
    and "keep sc = keep (k_sched k)"
  shows "kernel_inv n (set_pipe a (Some q) (on_sched (\<lambda>_. sc) k))"
proof -
  have "pipes_ok n (keep (k_sched k)) ((k_pipes k)(a := Some q))" using assms by (auto simp: kernel_inv_def pipes_ok_def pipe_counted_def)
  moreover have "heap_ok (k_pipes k) (k_heap k)" using assms(1) by (simp add: kernel_inv_def)
  then have "heap_ok ((k_pipes k)(a := Some q)) (k_heap k)"
    by (rule heap_ok_mono) (use assms(2) in \<open>simp split: if_splits\<close>)
  ultimately show ?thesis using assms(1,6) by (simp add: kernel_inv_def)
qed

lemma pipe_io_some: "\<exists>r q t. pipe_read (Some p) c s = (r, Some q, t)" "\<exists>r q t. pipe_write (Some p) bs s = (r, Some q, t)"
  by (simp_all add: pipe_read_def pipe_write_def Let_def case_prod_beta)

lemma sys_read_pipe_inv:
  assumes "kernel_inv n k" "i < MAX_PROCESSES" "sys_read_pipe i fd buf count k = Some (r, k')"
  shows "kernel_inv n k'"
proof (cases "k' = k")
  case False
  let ?e = "k_fd k i (unat fd)"
  have fd: "unat fd < PROCESS_MAX_FDS" "fd_type ?e = FD_PIPE_READ"
    using False assms(3) by (auto simp: sys_read_pipe_def Let_def not_le word_less_nat_alt PROCESS_MAX_FDS_def split: if_splits)
  obtain p where p: "k_pipes k (fd_data ?e) = Some p" using inv_fd_refers [OF assms(1,2) fd(1)] fd(2) by auto
  have "pipe_inv p" using assms(1) p by (simp add: kernel_inv_def pipes_ok_def pipe_counted_def)
  obtain r' q sc where rd: "pipe_read (Some p) (unat (ucast count :: u32)) (k_sched k) = (r', Some q, sc)"
    using pipe_io_some(1) by blast
  have "keep sc = keep (k_sched k)" using keep_pipes(5) [of "Some p" "unat (ucast count :: u32)" "k_sched k"] rd by simp
  moreover have "k' = set_pipe (fd_data ?e) (Some q) (on_sched (\<lambda>_. sc) k)"
    using False assms(3) fd p rd by (auto simp: sys_read_pipe_def Let_def split: if_splits)
  ultimately show ?thesis using inv_same_counts [OF assms(1) p] pipe_read_refines [OF \<open>pipe_inv p\<close> rd] by simp
qed (use assms(1) in simp)

lemma sys_write_pipe_inv:
  assumes "kernel_inv n k" "i < MAX_PROCESSES" "sys_write_pipe i fd buf len src k = Some (r, k')"
  shows "kernel_inv n k'"
proof (cases "k' = k")
  case False
  let ?e = "k_fd k i (unat fd)" and ?d = "take (unat (ucast len :: u32)) src"
  have fd: "unat fd < PROCESS_MAX_FDS" "fd_type ?e = FD_PIPE_WRITE"
    using False assms(3) by (auto simp: sys_write_pipe_def Let_def not_le word_less_nat_alt PROCESS_MAX_FDS_def split: if_splits)
  obtain p where p: "k_pipes k (fd_data ?e) = Some p" using inv_fd_refers [OF assms(1,2) fd(1)] fd(2) by auto
  have "pipe_inv p" using assms(1) p by (simp add: kernel_inv_def pipes_ok_def pipe_counted_def)
  obtain r' q sc where wr: "pipe_write (Some p) ?d (k_sched k) = (r', Some q, sc)"
    using pipe_io_some(2) by blast
  have "keep sc = keep (k_sched k)" using keep_pipes(6) [of "Some p" ?d "k_sched k"] wr by simp
  moreover have "k' = set_pipe (fd_data ?e) (Some q) (on_sched (\<lambda>_. sc) k)"
    using False assms(3) fd p wr by (auto simp: sys_write_pipe_def Let_def split: if_splits)
  ultimately show ?thesis using inv_same_counts [OF assms(1) p] pipe_write_refines [OF \<open>pipe_inv p\<close> wr] by simp
qed (use assms(1) in simp)

lemma on_sched_inv: "(\<And>s. keep (f s) = keep s) \<Longrightarrow> kernel_inv n (on_sched f k) = kernel_inv n k"
  by (rule kernel_inv_cong) simp_all

lemma epoll_tick_inv: "kernel_inv n (epoll_tick i k) = kernel_inv n k"
proof -
  have 1: "kernel_inv n (upd_kproc i (\<lambda>p. p\<lparr>p_epoll_timeout_ticks := p_epoll_timeout_ticks p - 1\<rparr>) k) = kernel_inv n k"
    "kernel_inv n (upd_kproc i (\<lambda>p. p\<lparr>p_epoll_fd_idx := -1\<rparr>) k) = kernel_inv n k" for k
    by (rule kernel_inv_cong; simp add: keep_upd_same kept_def)+
  have 2: "kernel_inv n (on_sched (\<lambda>s. scheduler_add i (set_state i PROCESS_READY s)) k) = kernel_inv n k" for k
    by (rule on_sched_inv) (simp add: keep_frame)
  show ?thesis by (simp only: epoll_tick_def Let_def if_distrib [of "kernel_inv n"] 1 2 if_cancel)
qed

lemma scheduler_tick_inv:
  assumes "env_keeps env"
  shows "kernel_inv n (scheduler_tick env k) = kernel_inv n k"
proof -
  have 1: "kernel_inv n (fold epoll_tick js k) = kernel_inv n k" for js k by (induction js arbitrary: k) (simp_all add: epoll_tick_inv)
  have 2: "kernel_inv n (on_sched schedule k) = kernel_inv n k" "kernel_inv n (on_sched (\<lambda>s. s\<lparr>tick_count := tick_count s + 1\<rparr>) k) = kernel_inv n k" for k
    by (rule on_sched_inv, simp add: keep_frame)+
  have 3: "kernel_inv n (on_net (net_tick env) k) = kernel_inv n k" for k by (rule on_net_inv) (simp add: net_tick_keeps [OF assms])
  show ?thesis by (simp only: scheduler_tick_def Let_def if_distrib [of "kernel_inv n"] 1 2 3 if_cancel)
qed

section \<open>Runs of the kernel\<close>

text \<open>
  A run starts when all slots of the process table are free and no pipe exists. \<open>other\<close> stands for every
  activity that leaves descriptor tables, kernel stacks, pipes and heap alone: scheduling, signals, memory
  management, terminal and network. \<open>alloc\<close> is an allocation on the kernel heap by any other part.
\<close>

definition booted :: "kernel \<Rightarrow> bool" where
  "booted k \<longleftrightarrow> procs (k_sched k) = replicate MAX_PROCESSES process_zero \<and> k_pipes k = (\<lambda>_. None) \<and> client_inv (k_heap k) {} \<and>
     kstack_free_list k = []"

inductive kernel_run :: "(net \<Rightarrow> net) \<Rightarrow> nat \<Rightarrow> kernel \<Rightarrow> bool" for env where
  run_boot: "booted k \<Longrightarrow> kernel_run env 0 k"
| run_other: "kernel_run env n k \<Longrightarrow> keep (k_sched k') = keep (k_sched k) \<Longrightarrow> k_pipes k' = k_pipes k \<Longrightarrow> k_heap k' = k_heap k \<Longrightarrow>
    kstack_free_list k' = kstack_free_list k \<Longrightarrow> kernel_run env (Suc n) k'"
| run_alloc: "kernel_run env n k \<Longrightarrow> request_ok sz \<Longrightarrow> kmalloc sz (k_heap k) = Some (a, h) \<Longrightarrow> kernel_run env (Suc n) (k\<lparr>k_heap := h\<rparr>)"
| run_create: "kernel_run env n k \<Longrightarrow> process_create name entry k = Some (r, k') \<Longrightarrow> kernel_run env (Suc n) k'"
| run_tick: "kernel_run env n k \<Longrightarrow> kernel_run env (Suc n) (scheduler_tick env k)"
| run_close: "kernel_run env n k \<Longrightarrow> i < MAX_PROCESSES \<Longrightarrow> kernel_run env (Suc n) (snd (sys_close env i fd k))"
| run_pipe: "kernel_run env n k \<Longrightarrow> i < MAX_PROCESSES \<Longrightarrow> sys_pipe i u k = Some (r, fds, k') \<Longrightarrow> kernel_run env (Suc n) k'"
| run_read: "kernel_run env n k \<Longrightarrow> i < MAX_PROCESSES \<Longrightarrow> sys_read_pipe i fd buf count k = Some (rr, k') \<Longrightarrow> kernel_run env (Suc n) k'"
| run_write: "kernel_run env n k \<Longrightarrow> i < MAX_PROCESSES \<Longrightarrow> sys_write_pipe i fd buf count src k = Some (rw, k') \<Longrightarrow> kernel_run env (Suc n) k'"
| run_dup2: "kernel_run env n k \<Longrightarrow> i < MAX_PROCESSES \<Longrightarrow> kernel_run env (Suc n) (snd (sys_dup2 i oldfd newfd k))"
| run_epoll: "kernel_run env n k \<Longrightarrow> i < MAX_PROCESSES \<Longrightarrow> kernel_run env (Suc n) (snd (sys_epoll_create i k))"
| run_socket: "kernel_run env n k \<Longrightarrow> i < MAX_PROCESSES \<Longrightarrow> kernel_run env (Suc n) (snd (sys_socket env i domain ty k))"
| run_fork: "kernel_run env n k \<Longrightarrow> i < MAX_PROCESSES \<Longrightarrow> syscall_fork tr i fr k = Some (r, k') \<Longrightarrow> kernel_run env (Suc n) k'"
| run_exit: "kernel_run env n k \<Longrightarrow> i < MAX_PROCESSES \<Longrightarrow> kernel_run env (Suc n) (syscall_exit env i st k)"
| run_wait: "kernel_run env n k \<Longrightarrow> process_wait_for c i k = Some (rf, k') \<Longrightarrow> kernel_run env (Suc n) k'"
| run_resume: "kernel_run env n k \<Longrightarrow> process_wait_resumed c i k = Some (rs, k') \<Longrightarrow> kernel_run env (Suc n) k'"

lemma booted_inv: "booted k \<Longrightarrow> kernel_inv n k"
proof -
  assume b: "booted k"
  have K: "keep (k_sched k) = replicate MAX_PROCESSES (replicate PROCESS_MAX_FDS fd_zero, 0)"
    using b by (simp add: booted_def keep_def kept_def process_zero_def)
  have "heap_ok (k_pipes k) (k_heap k)" using b by (auto simp: booted_def heap_ok_def)
  then show ?thesis
    using b by (simp add: kernel_inv_def tables_ok_def pipes_ok_def stacks_ok_def K fd_zero_def) (simp add: booted_def)
qed

lemma kernel_run_inv:
  assumes "kernel_run env n k" "env_keeps env" "1 + 32 * n < 2 ^ 32"
  shows "kernel_inv (1 + 32 * n) k"
  using assms(1,3)
proof (induction rule: kernel_run.induct)
  case (run_boot k)
  then show ?case by (simp add: booted_inv)
next
  case (run_other n k k')
  then show ?case using kernel_inv_cong [of k' k] kernel_inv_mono [of "1 + 32 * n" k] by simp
next
  case (run_alloc n k sz a h)
  then have "kernel_inv (1 + 32 * n) k" by simp
  then show ?case using heap_ok_alloc [OF _ run_alloc(2,3)] kernel_inv_mono [of "1 + 32 * n" "k\<lparr>k_heap := h\<rparr>" "1 + 32 * Suc n"]
    by (simp add: kernel_inv_def)
next
  case (run_create n k name entry r k')
  then show ?case using process_create_inv [of "1 + 32 * n" k name entry r k'] kernel_inv_mono [of "1 + 32 * n" k'] by simp
next
  case (run_tick n k)
  then show ?case using scheduler_tick_inv [OF assms(2)] kernel_inv_mono [of "1 + 32 * n" k] by simp
next
  case (run_close n k i fd)
  then show ?case using sys_close_inv [OF _ assms(2)] kernel_inv_mono [of "1 + 32 * n"] by simp
next
  case (run_pipe n k i u r fds k')
  then show ?case using sys_pipe_inv [of "1 + 32 * n" k i u r fds k'] kernel_inv_mono [of "1 + 32 * n" k'] by simp
next
  case (run_read n k i fd buf count r k')
  then show ?case using sys_read_pipe_inv [of "1 + 32 * n" k i fd buf count r k'] kernel_inv_mono [of "1 + 32 * n" k'] by simp
next
  case (run_write n k i fd buf count src r k')
  then show ?case using sys_write_pipe_inv [of "1 + 32 * n" k i fd buf count src r k'] kernel_inv_mono [of "1 + 32 * n" k'] by simp
next
  case (run_dup2 n k i oldfd newfd)
  then show ?case using sys_dup2_inv [of "1 + 32 * n" k i oldfd newfd] kernel_inv_mono [of "1 + 32 * n + 1" "snd (sys_dup2 i oldfd newfd k)"] by simp
next
  case (run_epoll n k i)
  then show ?case using sys_epoll_create_inv [of "1 + 32 * n" k i] kernel_inv_mono [of "1 + 32 * n"] by simp
next
  case (run_socket n k i domain ty)
  then show ?case using sys_socket_inv [OF _ assms(2)] kernel_inv_mono [of "1 + 32 * n"] by simp
next
  case (run_fork n k i tr fr r k')
  then show ?case using syscall_fork_inv [of "1 + 32 * n" k i tr fr r k'] by simp
next
  case (run_exit n k i st)
  then show ?case using syscall_exit_inv [OF _ assms(2)] kernel_inv_mono [of "1 + 32 * n"] by simp
next
  case (run_wait n k c i r k')
  then show ?case using wait_for_inv [of "1 + 32 * n" k c i r k'] kernel_inv_mono [of "1 + 32 * n" k'] by simp
next
  case (run_resume n k c i r k')
  then show ?case using wait_resumed_inv [of "1 + 32 * n" k c i r k'] kernel_inv_mono [of "1 + 32 * n" k'] by simp
qed

definition fd_count :: "fd_type \<Rightarrow> nat \<Rightarrow> kernel \<Rightarrow> nat" where
  "fd_count t a k = length (filter (\<lambda>e. fd_type e = t \<and> fd_data e = a) (concat (map p_fd_table (procs (k_sched k)))))"

lemma fd_count_ends: "fd_count t a k = ends t a (keep (k_sched k))"
  by (simp add: fd_count_def ends_def keep_def kept_def tab_count_def filter_concat length_concat comp_def)


text \<open>A kernel just booted, with a heap of four pages; the first process creates a pipe.\<close>

definition demo_kernel :: kernel where
  "demo_kernel =
     \<lparr>k_vm = small_vm\<lparr>vm_sched := demo_sched\<lparr>procs := replicate MAX_PROCESSES process_zero\<rparr>\<rparr>, k_net = net_static demo_sched nic_ready,
      k_term = demo_terminal, k_heap = small_heap, k_pipes = (\<lambda>_. None), epoll_pool = [], kstack_free_list = [], k_frames = (\<lambda>_. None)\<rparr>"

lemma demo_kernel_booted: "booted demo_kernel"
proof -
  have "heap_client (KHEAP_START + 0x4000) small_heap {}" unfolding small_heap_def by (rule heap_client.start)
  from heap_client_inv [OF this] have "client_inv (k_heap demo_kernel) {}"
    by (simp add: demo_kernel_def BLOCK_HDR_SIZE_def KHEAP_START_def HEAP_PAGE_def)
  then show ?thesis by (simp add: booted_def) (simp add: demo_kernel_def)
qed

lemma demo_kernel_slot: "k_proc demo_kernel 0 = process_zero" "0 < length (procs (k_sched demo_kernel))"
proof -
  have "0 < MAX_PROCESSES" by (simp add: MAX_PROCESSES_def)
  then show "k_proc demo_kernel 0 = process_zero" "0 < length (procs (k_sched demo_kernel))" by (simp_all add: demo_kernel_def)
qed

lemma demo_kernel_malloc: "\<exists>h. kmalloc 4136 (k_heap demo_kernel) = Some (0xFFFFFFFF90000018, h)"
  unfolding kmalloc_def
  by (subst kmalloc_find.simps)
    (simp add: demo_kernel_def small_heap_def kheap_setup_def set_block_def Let_def round_up_def sub64_def add64_def KHEAP_START_def
      BLOCK_HDR_SIZE_def)

lemma fd_alloc_first: "start < length (p_fd_table p) \<Longrightarrow> fd_type (p_fd_table p ! start) = FD_NONE \<Longrightarrow> process_fd_alloc p start = Some start"
  by (simp add: process_fd_alloc_def flip: Cons_nth_drop_Suc)

lemma demo_kernel_pipe:
  shows "\<exists>k'. sys_pipe 0 0x1000 demo_kernel = Some (0, Some (3, 4), k') \<and>
    k_fd k' 0 3 = fd_zero\<lparr>fd_type := FD_PIPE_READ, fd_data := 0xFFFFFFFF90000018\<rparr>"
proof -
  obtain h where h: "kmalloc 4136 (k_heap demo_kernel) = Some (0xFFFFFFFF90000018, h)" using demo_kernel_malloc by blast
  have t: "p_fd_table process_zero = replicate 32 fd_zero" by (simp add: process_zero_def PROCESS_MAX_FDS_def)
  have a3: "process_fd_alloc process_zero 3 = Some 3" by (rule fd_alloc_first) (simp_all add: t fd_zero_def)
  have a4: "process_fd_alloc (process_zero\<lparr>p_fd_table := (replicate 32 fd_zero)[3 := e]\<rparr>) 4 = Some 4" for e
    by (rule fd_alloc_first) (simp_all add: fd_zero_def)
  show ?thesis
    using h demo_kernel_slot a3 a4
    by (simp add: sys_pipe_def pipe_create_def KERNEL_VMA_def Let_def set_fd_def upd_proc_def upd_nth_def t)
qed


section \<open>Waiting for children\<close>

lemma wait_zombie_child:
  "wait_zombie c cur s = Some z \<Longrightarrow> p_state (procs s ! z) = PROCESS_ZOMBIE \<and> p_ppid (procs s ! z) = p_pid (procs s ! cur) \<and>
    (c = 0 \<or> p_pid (procs s ! z) = c)"
  by (auto simp: wait_zombie_def process_find_zombie_child_def process_get_by_pid_def split: if_splits option.splits dest: first_idx_Some_P)


text \<open>The process in slot 0 waits for its child in slot 1, which has exited with status 3.\<close>

definition demo_waiting :: kernel where
  "demo_waiting = upd_kproc 0 (\<lambda>p. p\<lparr>p_pid := 5, p_state := PROCESS_RUNNING\<rparr>)
     (upd_kproc 1 (\<lambda>p. p\<lparr>p_pid := 9, p_ppid := 5, p_state := PROCESS_ZOMBIE, p_exit_code := 3\<rparr>) demo_kernel)"


section \<open>Edge-triggered events\<close>

definition ready_events :: "nat \<Rightarrow> kernel \<Rightarrow> epoll_watch \<Rightarrow> u32" where
  "ready_events i k w = watch_ready i (ew_events w AND NOT 0x80000000) w k"

definition edge :: "epoll_watch \<Rightarrow> bool" where
  "edge w \<longleftrightarrow> ew_events w AND 0x80000000 \<noteq> 0"

definition due :: "nat \<Rightarrow> kernel \<Rightarrow> epoll_watch \<Rightarrow> bool" where
  "due i k w \<longleftrightarrow> ready_events i k w \<noteq> 0 \<and> \<not> (edge w \<and> ew_et_reported w)"

lemma epoll_scan_Cons:
  "epoll_scan i (Suc m) k (w # ws) =
     (if ready_events i k w \<noteq> 0 then
        (if edge w \<and> ew_et_reported w then (fst (epoll_scan i (Suc m) k ws), w # snd (epoll_scan i (Suc m) k ws))
         else ((ready_events i k w, ew_data w) # fst (epoll_scan i m k ws),
               (if edge w then w\<lparr>ew_et_reported := True\<rparr> else w) # snd (epoll_scan i m k ws)))
      else (fst (epoll_scan i (Suc m) k ws), (if edge w then w\<lparr>ew_et_reported := False\<rparr> else w) # snd (epoll_scan i (Suc m) k ws)))"
  unfolding epoll_scan.simps Let_def case_prod_beta ready_events_def edge_def ..

lemma epoll_scan_events:
  "fst (epoll_scan i m k ws) = take m (map (\<lambda>w. (ready_events i k w, ew_data w)) (filter (due i k) ws))"
proof (induction ws arbitrary: m)
  case (Cons w ws)
  then show ?case by (cases m) (simp_all add: epoll_scan_Cons due_def del: epoll_scan.simps(3))
qed simp

lemma epoll_scan_marks:
  "length ws \<le> m \<Longrightarrow>
   snd (epoll_scan i m k ws) = map (\<lambda>w. if edge w then w\<lparr>ew_et_reported := (ready_events i k w \<noteq> 0)\<rparr> else w) ws"
proof (induction ws arbitrary: m)
  case (Cons w ws)
  have same: "w\<lparr>ew_et_reported := True\<rparr> = w" if "ew_et_reported w" using that by (cases w) simp
  obtain m' where "m = Suc m'" "length ws \<le> m'" using Cons.prems by (cases m) auto
  then show ?case using Cons.IH [of m'] Cons.IH [of m] same by (simp add: epoll_scan_Cons del: epoll_scan.simps(3))
qed simp

text \<open>
  C19 (events of \<^verbatim>\<open>epoll_wait\<close>). A scan of the watches with room for all of them reports, in the order of
  the watches, exactly those with a ready event, except the edge-triggered ones that have been reported
  before. The next scan, whatever the state of the descriptors is by then, reports an edge-triggered
  watch only if it is ready now and was not ready at the scan before; level-triggered watches are
  reported as long as they are ready.
\<close>

theorem epoll_edge_triggered:
  assumes "length ws \<le> m"
  shows "fst (epoll_scan i m k ws) = map (\<lambda>w. (ready_events i k w, ew_data w)) (filter (due i k) ws) \<and>
    fst (epoll_scan i m2 k2 (snd (epoll_scan i m k ws))) =
      take m2 (map (\<lambda>w. (ready_events i k2 w, ew_data w))
        (filter (\<lambda>w. ready_events i k2 w \<noteq> 0 \<and> (if edge w then ready_events i k w = 0 else True)) ws))"
proof -
  let ?mark = "\<lambda>w. if edge w then w\<lparr>ew_et_reported := (ready_events i k w \<noteq> 0)\<rparr> else w"
  have m: "ready_events i k2 (?mark w) = ready_events i k2 w" "edge (?mark w) = edge w" "ew_data (?mark w) = ew_data w" for w
    by (simp_all add: ready_events_def edge_def watch_ready_def)
  have d: "due i k2 (?mark w) \<longleftrightarrow> ready_events i k2 w \<noteq> 0 \<and> (if edge w then ready_events i k w = 0 else True)" for w
    unfolding due_def m by simp
  have l: "length (map (\<lambda>w. (ready_events i k w, ew_data w)) (filter (due i k) ws)) \<le> m"
    using order_trans [OF length_filter_le assms] by simp
  show ?thesis
    using l unfolding epoll_scan_events epoll_scan_marks [OF assms] filter_map comp_def d map_map m by simp
qed

definition demo_console :: kernel where
  "demo_console = upd_kproc 0 (\<lambda>p. p\<lparr>p_fd_table := console_fds\<rparr>) demo_kernel"

theorem epoll_edge_triggered_witness:
  "let ws = [\<lparr>ew_fd = 1, ew_events = 0x80000004, ew_data = 7, ew_et_reported = False\<rparr>,
             \<lparr>ew_fd = 2, ew_events = 4, ew_data = 8, ew_et_reported = False\<rparr>]
   in fst (epoll_scan 0 5 demo_console ws) = [(4, 7), (4, 8)] \<and>
      fst (epoll_scan 0 5 demo_console (snd (epoll_scan 0 5 demo_console ws))) = [(4, 8)]"
proof -
  have w: "fd_is_writable 0 fd demo_console" if "fd = 1 \<or> fd = 2" for fd
  proof -
    have "p_fd_table (k_proc demo_console 0) = console_fds" using demo_kernel_slot(2) by (simp add: demo_console_def upd_proc_def upd_nth_def)
    then show ?thesis using that by (auto simp: fd_is_writable_def PROCESS_MAX_FDS_def console_fds_def nth_append)
  qed
  let ?ws = "[\<lparr>ew_fd = 1, ew_events = 0x80000004, ew_data = 7, ew_et_reported = False\<rparr>,
             \<lparr>ew_fd = 2, ew_events = 4, ew_data = 8, ew_et_reported = False\<rparr>]"
  have r: "ready_events 0 demo_console (?ws ! 0) = 4" "ready_events 0 demo_console (?ws ! 1) = 4" "edge (?ws ! 0)" "\<not> edge (?ws ! 1)"
    using w [of 1] w [of 2] by (simp_all add: ready_events_def watch_ready_def edge_def)
  from epoll_edge_triggered [of ?ws 5 0 demo_console 5 demo_console] show ?thesis
    using r by (simp add: due_def)
qed

end
