(* ===== verification/Spec2Isabelle.thy ===== *)
theory Spec2Isabelle
  imports Pipe Pmm Journal KHeap NetUdp CString Ext2Dir MmapSpec CowSpec BlockCacheSpec VgaSpec ElfSpec KernelSpec
begin

text \<open>
  HobbyOS: a verification library for the x86-64 kernel under \<^verbatim>\<open>src/kernel\<close>.

  \<^bold>\<open>The program.\<close> The kernel runs processes from a table of 64 slots under a round-robin scheduler driven
  by the timer interrupt. Processes enter the kernel through system calls and exceptions. Below them lie
  memory management (page frames, page tables with copy on write, regions, swap, the kernel heap), storage
  (ATA sectors, a block cache, a write-ahead journal, the ext2 file system), a network stack from the card
  to sockets, and the console. Components are C files with static state; they call one another directly,
  share the process table, and interleave where a process blocks.

  \<^bold>\<open>How it is modelled.\<close> A static variable is a field of the record of its component, a C function is a
  function on that record, and a pointer is an index into the array it points into or an address where
  the code computes with it. Machine integers are words where overflow matters. An error return is the value
  the source returns; a branch that cannot be reached by a result is a value of an option or outcome
  type. A loop that waits for another process is one iteration with the outcome \<open>Blocks\<close> or \<open>Returns\<close>; what
  the rest of the system does meanwhile is the parameter \<open>env\<close>. A walk over linked memory that might not
  end is a \<open>partial_function\<close> in the option monad, and theorems prove that it returns; there is
  no fuel. Physical memory is a function from addresses to bytes, and page tables and structures on disk are
  read and written in it byte by byte. Hardware is a parameter or a small store: sectors that may lose
  power between writes, descriptor rings of the network card, pixels of the framebuffer.

  \<^bold>\<open>Theories and sources\<close> (files under \<^verbatim>\<open>src/kernel\<close>).

  \<^item> Shared: \<open>Prelude\<close> (machine integers of \<^verbatim>\<open>common.h\<close>, scans, updates), \<open>Bytes\<close> (little-endian fields),
    \<open>Ring\<close> (ring buffers), \<open>Fifo\<close> and \<open>Pool\<close> (the contracts of queues, byte streams and allocators as
    locales, interpreted for the ready queue, pipes, packet buffers, page frames and others).
  \<^item> Processes: \<open>Proc\<close> (\<^verbatim>\<open>process/process.c\<close>: the table), \<open>Scheduler\<close> (\<^verbatim>\<open>scheduler/scheduler.c\<close>,
    \<^verbatim>\<open>context_switch.asm\<close>), \<open>Signal\<close> (\<^verbatim>\<open>signal/signal.c\<close> and its system calls), \<open>Pipe\<close> (\<^verbatim>\<open>fs/pipe.c\<close>).
  \<^item> Memory: \<open>Pmm\<close> (\<^verbatim>\<open>memory/pmm.c\<close>), \<open>KHeap\<close> (\<^verbatim>\<open>memory/kheap.c\<close>), \<open>Vm\<close> (\<^verbatim>\<open>vmm.c\<close>, \<^verbatim>\<open>rmap.c\<close>, \<^verbatim>\<open>swap.c\<close>),
    \<open>UserVm\<close> (\<^verbatim>\<open>user_vm.c\<close>), \<open>Mmap\<close> (\<^verbatim>\<open>mmap.c\<close>, the handlers of \<^verbatim>\<open>interrupts/interrupts.c\<close>); their properties
    in \<open>PageTree\<close>, \<open>CowSpec\<close> and \<open>MmapSpec\<close>. \<open>Elf\<close> and \<open>ElfSpec\<close> are \<^verbatim>\<open>elf/elf_loader.c\<close>.
  \<^item> Storage: \<open>Disk\<close> (\<^verbatim>\<open>drivers/ata.c\<close>), \<open>Journal\<close> (\<^verbatim>\<open>fs/journal.c\<close>), \<open>BlockCache\<close> and \<open>BlockCacheSpec\<close>
    (\<^verbatim>\<open>drivers/blockcache.c\<close>), \<open>Ext2\<close> and \<open>Ext2Write\<close> (\<^verbatim>\<open>fs/ext2.c\<close>) with \<open>Ext2Blocks\<close>, \<open>Ext2File\<close>,
    \<open>Ext2Store\<close> and \<open>Ext2Dir\<close> for their properties.
  \<^item> Network: \<open>NetBase\<close>, \<open>NetState\<close>, \<open>Netbuf\<close>, \<open>NetSend\<close>, \<open>Tcp\<close>, \<open>TcpStream\<close>, \<open>Socket\<close>, \<open>NetRx\<close>, \<open>NetUdp\<close>
    (\<^verbatim>\<open>net/\<close> and \<^verbatim>\<open>drivers/e1000.c\<close>).
  \<^item> Console and strings: \<open>Vga\<close> and \<open>VgaSpec\<close> (\<^verbatim>\<open>drivers/vga.c\<close>), \<open>Tty\<close> (\<^verbatim>\<open>drivers/tty.c\<close>), \<open>CString\<close>
    (\<^verbatim>\<open>string.c\<close>).
  \<^item> The kernel as a whole: \<open>Kernel\<close> joins the states in one record and adds process creation, waiting,
    the timer tick, event polling (\<^verbatim>\<open>fs/epoll.c\<close>, \<^verbatim>\<open>fs/poll.c\<close>), permissions (\<^verbatim>\<open>security/cred.c\<close>) and the system
    calls on processes and descriptors (\<^verbatim>\<open>syscall/syscall.c\<close>); \<open>KernelFrame\<close> says what each
    component leaves alone, and \<open>KernelSpec\<close> proves the invariant of descriptors over all runs.

  \<^bold>\<open>What is shown.\<close>

  \<^item> Scheduling: the linked ready queue is a first-in first-out queue, dispatch is round robin and never
    leaves a stopped process on the CPU; queueing a process twice loses others, which a signal to a process
    blocked in a pipe brings about. Signals are delivered lowest first, \<^verbatim>\<open>sigreturn\<close> restores what delivery
    saved, and \<^verbatim>\<open>SIGKILL\<close> cannot be caught.
  \<^item> Pipes and TCP deliver a prefix of what was sent, in order. UDP datagrams arrive as they were sent,
    through both halves of the stack; the worker releases every packet buffer. A FIN after a gap truncates the
    stream.
  \<^item> Memory: no frame and no heap block is handed out twice, shared frames live as long as they have an
    owner, the walks of the heap end, allocation is first fit and freeing undoes it; initialisation ends and
    frees the memory the boot loader reports. Mapping a page changes one entry of the tree of tables, a
    copy-on-write fault gives the process a private copy and changes nothing else, and the search for an
    address range is first fit and stays in bounds.
  \<^item> Loading: a demand-paged segment shows the same bytes as an eagerly loaded one; the initial stack holds
    the arguments and is refused exactly when they do not fit.
  \<^item> Storage: a committed transaction is atomic under loss of power at any write; the block cache is
    transparent; what is written to a file is read back and the rest is unchanged; a directory is a finite map
    from names to inodes. A malformed directory block makes the lookup run for ever.
  \<^item> Console: the framebuffer shows the text buffer, and a line typed is the line read, with its edits.
  \<^item> Descriptors: in every run of the kernel, the tables keep their shape, a pipe descriptor refers to
    an existing pipe, the counters of a pipe bound the number of its descriptors in all processes, and kernel
    stacks return to their pool; waiting reaps a zombie and returns its status; edge-triggered events are
    reported once. In these theorems \<open>n\<close> bounds the number of steps so that the 32-bit counters cannot wrap
    around: each step adds at most 32 references.
  \<^item> Strings: \<^verbatim>\<open>strtok\<close>, \<^verbatim>\<open>strcmp\<close> and \<^verbatim>\<open>memmove\<close> do what their names say, overlap included.

  \<^bold>\<open>Assumptions that are not proved.\<close> Interrupts do not interleave with a C function except where it blocks.
  While the close of a connection sleeps, other processes do not change descriptors (\<open>env_keeps\<close>). The
  TLB holds nothing stale. The preconditions of a theorem are in its statement.

  \<^bold>\<open>Not modelled.\<close> Boot code, descriptor tables, interrupt stubs, programmable devices and drivers that only
  touch registers (PIC, PIT, PCI, keyboard, mouse, framebuffer set-up, the initialisation of disk and network
  card): they have no state but the hardware's. The virtual file system with its device and process
  files, and the device registry, are tables of function pointers around components that are modelled;
  the page cache and the checks of user pointers are small files beside them. Of the
  system calls, \<^verbatim>\<open>exec\<close>, \<^verbatim>\<open>open\<close>, \<^verbatim>\<open>mmap\<close>, \<^verbatim>\<open>lseek\<close>, \<^verbatim>\<open>getdents\<close>, and \<^verbatim>\<open>read\<close> and \<^verbatim>\<open>write\<close> on descriptors other
  than pipes mostly copy arguments and call the components; they are left out, as is \<^verbatim>\<open>elf_load\<close>, which
  reads the interpreter from disk. The kernel shell, debugging output and the user-space programs,
  among them a vendored C compiler, are outside the kernel's contracts.
\<close>

end
